(* ===== verification/Graph_Prelude.thy ===== *)
theory Graph_Prelude
  imports Complex_Main "HOL-Library.Word" "HOL-Library.Multiset" "HOL-Library.List_Lexorder"
    "HOL-Library.Product_Lexorder"
begin

text \<open>
  What every component of the model shares: the machine integers and byte strings of the
  source, Rust's \<^verbatim>\<open>Result\<close> with the question-mark operator, the standard-library
  operations the graph core calls (binary search and sorting by key, little-endian bytes,
  UTF-8 validation) and the lemmas about them that the component theories rest on.
\<close>

section \<open>Machine integers and strings\<close>

type_synonym u8 = "8 word"
type_synonym i8 = "8 word"
type_synonym u16 = "16 word"
type_synonym u32 = "32 word"
type_synonym u64 = "64 word"
type_synonym i64 = "64 word"

text \<open>A Rust \<^verbatim>\<open>str\<close> is its UTF-8 bytes; \<^verbatim>\<open>len()\<close> counts bytes.\<close>

type_synonym bytes = "u8 list"
type_synonym rust_str = "u8 list"

text \<open>
  The width of \<^verbatim>\<open>usize\<close> on the native 64-bit build. The lemmas use only
  that every \<^verbatim>\<open>u32\<close> fits.
\<close>

definition usize_max :: nat where
  "usize_max = 2 ^ 64 - 1"

definition u32_max :: nat where
  "u32_max = 2 ^ 32 - 1"

definition u64_max :: nat where
  "u64_max = 2 ^ 64 - 1"

lemma u32_max_le_usize_max: "u32_max \<le> usize_max"
  by (simp add: u32_max_def usize_max_def)

lemma unat_u32_le: "unat (w :: u32) \<le> u32_max"
proof -
  have "unat w < 2 ^ LENGTH(32)" by (rule unsigned_less)
  then show ?thesis by (simp add: u32_max_def)
qed

lemma unat_u64_le: "unat (w :: u64) \<le> u64_max"
proof -
  have "unat w < 2 ^ LENGTH(64)" by (rule unsigned_less)
  then show ?thesis by (simp add: u64_max_def)
qed

lemma unat_u8_less: "unat (b :: u8) < 256"
proof -
  have "unat b < 2 ^ LENGTH(8)" by (rule unsigned_less)
  then show ?thesis by simp
qed

lemma unat_widen_u32: "unat (ucast (w :: u32) :: u64) = unat w"
proof -
  have "unat w < 2 ^ 64" using unsigned_less[of w, where ?'a = nat] by simp
  then show ?thesis by (simp add: unsigned_ucast_eq take_bit_nat_eq_self)
qed

text \<open>Rust's \<^verbatim>\<open>checked_add\<close> and \<^verbatim>\<open>checked_mul\<close> on \<^verbatim>\<open>u64\<close>
  and \<^verbatim>\<open>checked_add\<close> on \<^verbatim>\<open>usize\<close>.\<close>

definition checked_add_u64 :: "u64 \<Rightarrow> u64 \<Rightarrow> u64 option" where
  "checked_add_u64 a b = (if unat a + unat b \<le> u64_max then Some (a + b) else None)"

definition checked_mul_u64 :: "u64 \<Rightarrow> u64 \<Rightarrow> u64 option" where
  "checked_mul_u64 a b = (if unat a * unat b \<le> u64_max then Some (a * b) else None)"

definition checked_add_usize :: "nat \<Rightarrow> nat \<Rightarrow> nat option" where
  "checked_add_usize a b = (if a + b \<le> usize_max then Some (a + b) else None)"

lemma checked_add_u64_Some:
  "checked_add_u64 a b = Some c \<longleftrightarrow> unat c = unat a + unat b"
proof -
  have c: "unat c \<le> u64_max" using unat_u64_le by simp
  have "a + b = c" if "unat c = unat a + unat b"
    using that by (metis of_nat_add of_nat_unat ucast_id)
  moreover have "unat (a + b) = unat a + unat b" if "unat a + unat b \<le> u64_max"
    using that by (simp add: unat_word_ariths u64_max_def)
  ultimately show ?thesis
    using c by (auto simp: checked_add_u64_def)
qed

lemma checked_mul_u64_Some:
  "checked_mul_u64 a b = Some c \<longleftrightarrow> unat c = unat a * unat b"
proof -
  have c: "unat c \<le> u64_max" using unat_u64_le by simp
  have "a * b = c" if "unat c = unat a * unat b"
    using that by (metis of_nat_mult of_nat_unat ucast_id)
  moreover have "unat (a * b) = unat a * unat b" if "unat a * unat b \<le> u64_max"
    using that by (simp add: unat_word_ariths u64_max_def)
  ultimately show ?thesis
    using c by (auto simp: checked_mul_u64_def)
qed

lemma checked_add_usize_Some [simp]:
  "checked_add_usize a b = Some c \<longleftrightarrow> c = a + b \<and> a + b \<le> usize_max"
  by (auto simp: checked_add_usize_def)

lemma checked_add_usize_None [simp]:
  "checked_add_usize a b = None \<longleftrightarrow> usize_max < a + b"
  by (auto simp: checked_add_usize_def)

section \<open>Result values\<close>

text \<open>
  A fallible function returns \<open>'e + 'a\<close>: \<open>Inl\<close> is \<^verbatim>\<open>Err\<close>, \<open>Inr\<close> is
  \<^verbatim>\<open>Ok\<close>. \<open>and_then\<close> is the question-mark operator followed by the rest of the
  function, \<open>ok_or\<close> and \<open>map_err\<close> are the methods of those names, \<open>try_fold\<close>
  is a loop over a collection that returns at the first error, carrying its mutable
  variables, and \<open>try_each\<close> is such a loop without a variable.
\<close>

named_theorems result_simps "computation rules of the result combinators"

fun and_then :: "'e + 'a \<Rightarrow> ('a \<Rightarrow> 'e + 'b) \<Rightarrow> 'e + 'b" where
  "and_then (Inl e) f = Inl e"
| "and_then (Inr x) f = f x"

definition ok_or :: "'e \<Rightarrow> 'a option \<Rightarrow> 'e + 'a" where
  "ok_or e x = (case x of None \<Rightarrow> Inl e | Some v \<Rightarrow> Inr v)"

fun map_err :: "('d \<Rightarrow> 'e) \<Rightarrow> 'd + 'a \<Rightarrow> 'e + 'a" where
  "map_err f (Inl e) = Inl (f e)"
| "map_err f (Inr x) = Inr x"

fun try_fold :: "('s \<Rightarrow> 'a \<Rightarrow> 'e + 's) \<Rightarrow> 's \<Rightarrow> 'a list \<Rightarrow> 'e + 's" where
  "try_fold f s [] = Inr s"
| "try_fold f s (x # xs) = and_then (f s x) (\<lambda>s'. try_fold f s' xs)"

fun try_each :: "('a \<Rightarrow> 'e + unit) \<Rightarrow> 'a list \<Rightarrow> 'e + unit" where
  "try_each f [] = Inr ()"
| "try_each f (x # xs) = and_then (f x) (\<lambda>_. try_each f xs)"

fun is_ok :: "'e + 'a \<Rightarrow> bool" where
  "is_ok (Inl e) = False"
| "is_ok (Inr x) = True"

lemma and_then_Inr [result_simps, simp]:
  "and_then m f = Inr y \<longleftrightarrow> (\<exists>x. m = Inr x \<and> f x = Inr y)"
  by (cases m) auto

lemma and_then_Inl [result_simps, simp]:
  "and_then m f = Inl e \<longleftrightarrow> m = Inl e \<or> (\<exists>x. m = Inr x \<and> f x = Inl e)"
  by (cases m) auto

lemma and_then_cong [fundef_cong]:
  "m = m' \<Longrightarrow> (\<And>x. m' = Inr x \<Longrightarrow> f x = f' x) \<Longrightarrow> and_then m f = and_then m' f'"
  by (cases m') auto

text \<open>For evaluation: the rest of the function waits until the first result is known.\<close>

lemma and_then_weak_cong: "m = m' \<Longrightarrow> and_then m f = and_then m' f"
  by simp

lemma ok_or_Inr [result_simps, simp]: "ok_or e x = Inr v \<longleftrightarrow> x = Some v"
  by (auto simp: ok_or_def split: option.splits)

lemma ok_or_Inl [result_simps, simp]: "ok_or e x = Inl e' \<longleftrightarrow> x = None \<and> e' = e"
  by (auto simp: ok_or_def split: option.splits)

lemma ok_or_Some [simp]: "ok_or e (Some v) = Inr v"
  by simp

lemma ok_or_None [simp]: "ok_or e None = Inl e"
  by simp

lemma map_err_Inr [result_simps, simp]: "map_err f m = Inr v \<longleftrightarrow> m = Inr v"
  by (cases m) auto

lemma map_err_Inl [result_simps, simp]: "map_err f m = Inl e \<longleftrightarrow> (\<exists>d. m = Inl d \<and> e = f d)"
  by (cases m) auto

lemma is_ok_iff: "is_ok m \<longleftrightarrow> (\<exists>x. m = Inr x)"
  by (cases m) auto

lemma try_each_Inr [simp]: "try_each f xs = Inr u \<longleftrightarrow> (\<forall>x \<in> set xs. f x = Inr ())"
  by (induction xs) auto

lemma try_fold_append:
  "try_fold f s (xs @ ys) = and_then (try_fold f s xs) (\<lambda>s'. try_fold f s' ys)"
proof (induction xs arbitrary: s)
  case (Cons x xs)
  then show ?case by (cases "f s x") auto
qed simp

lemma try_fold_cong [fundef_cong]:
  assumes "s = s'" and "xs = xs'" and "\<And>t x. x \<in> set xs' \<Longrightarrow> f t x = f' t x"
  shows "try_fold f s xs = try_fold f' s' xs'"
  using assms
proof (induction xs arbitrary: s s' xs')
  case (Cons x xs)
  then show ?case by (cases "f s x") auto
qed simp

text \<open>An invariant of the loop state that every successful step keeps holds at the end.\<close>

lemma try_fold_invariant:
  assumes "try_fold f s xs = Inr s'" and "P s"
    and "\<And>t x t'. x \<in> set xs \<Longrightarrow> P t \<Longrightarrow> f t x = Inr t' \<Longrightarrow> P t'"
  shows "P s'"
  using assms
proof (induction xs arbitrary: s)
  case (Cons x xs)
  then show ?case by auto
qed simp

text \<open>An error of the loop is the error of one iteration, reached in a state that satisfies
  every invariant of the loop.\<close>

lemma try_fold_Inl:
  assumes "try_fold f s xs = Inl e" and "P s"
    and "\<And>t x t'. x \<in> set xs \<Longrightarrow> P t \<Longrightarrow> f t x = Inr t' \<Longrightarrow> P t'"
  shows "\<exists>t. \<exists>x \<in> set xs. P t \<and> f t x = Inl e"
  using assms
proof (induction xs arbitrary: s)
  case (Cons x xs)
  show ?case
  proof (cases "f s x")
    case (Inl e')
    with Cons.prems show ?thesis by auto
  next
    case (Inr s')
    with Cons.prems have "try_fold f s' xs = Inl e" "P s'" by auto
    with Cons.IH Cons.prems(3) show ?thesis by (metis list.set_intros(2))
  qed
qed simp

section \<open>Binary search and sorting by key\<close>

text \<open>
  \<^verbatim>\<open>slice::binary_search_by_key(..).ok()\<close> as the standard library computes it:
  halve the window, keep the upper half unless its first key is greater.
\<close>

function bsearch_loop ::
  "('a \<Rightarrow> 'k::linorder) \<Rightarrow> 'k \<Rightarrow> 'a list \<Rightarrow> nat \<Rightarrow> nat \<Rightarrow> nat" where
  "bsearch_loop key k xs base sz =
     (if sz \<le> 1 then base
      else let half = sz div 2; mid = base + half
           in bsearch_loop key k xs (if k < key (xs ! mid) then base else mid) (sz - half))"
  by pat_completeness auto
termination
  by (relation "measure (\<lambda>(key, k, xs, base, sz). sz)") auto

declare bsearch_loop.simps [simp del]

definition binary_search_by_key :: "'k::linorder \<Rightarrow> ('a \<Rightarrow> 'k) \<Rightarrow> 'a list \<Rightarrow> nat option" where
  "binary_search_by_key k key xs =
     (if xs = [] then None
      else let i = bsearch_loop key k xs 0 (length xs)
           in if key (xs ! i) = k then Some i else None)"

text \<open>The pattern \<^verbatim>\<open>binary_search_by_key(..).ok().map(|index| &self.xs[index])\<close>.\<close>

definition lookup_by_key :: "'k::linorder \<Rightarrow> ('a \<Rightarrow> 'k) \<Rightarrow> 'a list \<Rightarrow> 'a option" where
  "lookup_by_key k key xs = map_option ((!) xs) (binary_search_by_key k key xs)"

lemma bsearch_loop_bounds:
  "0 < sz \<Longrightarrow> base + sz \<le> length xs \<Longrightarrow> bsearch_loop key k xs base sz < length xs"
proof (induction key k xs base sz rule: bsearch_loop.induct)
  case (1 key k xs base sz)
  show ?case
  proof (cases "sz \<le> 1")
    case True
    with 1 show ?thesis by (simp add: bsearch_loop.simps[of _ _ _ _ sz])
  next
    case False
    then have "base + (sz - sz div 2) \<le> length xs"
      and "base + sz div 2 + (sz - sz div 2) \<le> length xs"
      and "0 < sz - sz div 2"
      using 1 by linarith+
    with False 1(1) show ?thesis
      by (subst bsearch_loop.simps) (simp add: Let_def)
  qed
qed

lemma bsearch_loop_step:
  "1 < sz \<Longrightarrow> bsearch_loop key k xs base sz =
     bsearch_loop key k xs (if k < key (xs ! (base + sz div 2)) then base else base + sz div 2)
       (sz - sz div 2)"
  by (subst bsearch_loop.simps) (simp add: Let_def)

lemma bsearch_loop_done: "sz \<le> 1 \<Longrightarrow> bsearch_loop key k xs base sz = base"
  by (subst bsearch_loop.simps) simp

lemma bsearch_loop_finds:
  assumes "sorted (map key xs)"
  shows "base \<le> j \<Longrightarrow> j < base + sz \<Longrightarrow> base + sz \<le> length xs \<Longrightarrow> key (xs ! j) = k \<Longrightarrow>
    key (xs ! bsearch_loop key k xs base sz) = k"
proof (induction sz arbitrary: base j rule: less_induct)
  case (less sz)
  have mono: "key (xs ! a) \<le> key (xs ! b)" if "a \<le> b" "b < length xs" for a b
    using sorted_nth_mono[OF assms that(1)] that by simp
  show ?case
  proof (cases "sz \<le> 1")
    case True
    then have "j = base" using less.prems by linarith
    with True less.prems show ?thesis by (simp add: bsearch_loop_done)
  next
    case False
    define mid where "mid = base + sz div 2"
    have mid: "mid < length xs" "base < mid" and sz: "sz - sz div 2 < sz"
      using False less.prems by (auto simp: mid_def)
    show ?thesis
    proof (cases "k < key (xs ! mid)")
      case True
      have "j < mid"
      proof (rule ccontr)
        assume "\<not> j < mid"
        then have "key (xs ! mid) \<le> key (xs ! j)" using mono[of mid j] less.prems by linarith
        with True less.prems show False by simp
      qed
      then have "key (xs ! bsearch_loop key k xs base (sz - sz div 2)) = k"
        using less.IH[OF sz, of base j] less.prems by (auto simp: mid_def)
      with True False show ?thesis by (simp add: bsearch_loop_step mid_def)
    next
      case upper: False
      have "key (xs ! (max j mid)) = k"
      proof (cases "j \<le> mid")
        case True
        then show ?thesis using upper mono[of j mid] mid less.prems by (simp add: max_def)
      qed (use less.prems in simp)
      moreover have "mid \<le> max j mid" "max j mid < mid + (sz - sz div 2)"
        "mid + (sz - sz div 2) \<le> length xs"
        using less.prems False by (auto simp: mid_def)
      ultimately have "key (xs ! bsearch_loop key k xs mid (sz - sz div 2)) = k"
        using less.IH[OF sz, of mid "max j mid"] by blast
      with upper False show ?thesis by (simp add: bsearch_loop_step mid_def)
    qed
  qed
qed

lemma binary_search_sound:
  assumes "binary_search_by_key k key xs = Some i"
  shows "i < length xs \<and> key (xs ! i) = k"
  using assms bsearch_loop_bounds[of "length xs" 0 xs key k]
  by (auto simp: binary_search_by_key_def Let_def split: if_splits)

lemma binary_search_complete:
  assumes "sorted (map key xs)" and "x \<in> set xs" and "key x = k"
  shows "\<exists>i. binary_search_by_key k key xs = Some i"
proof -
  from assms obtain j where "j < length xs" "xs ! j = x" by (auto simp: in_set_conv_nth)
  then have "key (xs ! bsearch_loop key k xs 0 (length xs)) = k"
    using bsearch_loop_finds[OF assms(1), of 0 j "length xs" k] assms by auto
  then show ?thesis using assms(2) by (auto simp: binary_search_by_key_def Let_def)
qed

text \<open>A canonical table: strictly increasing keys, so each key has one entry.\<close>

definition canonical_table :: "('a \<Rightarrow> 'k::linorder) \<Rightarrow> 'a list \<Rightarrow> bool" where
  "canonical_table key xs \<longleftrightarrow> sorted (map key xs) \<and> distinct (map key xs)"

lemma canonical_table_Nil [simp]: "canonical_table key []"
  by (simp add: canonical_table_def)

lemma canonical_table_key_inj:
  "canonical_table key xs \<Longrightarrow> x \<in> set xs \<Longrightarrow> y \<in> set xs \<Longrightarrow> key x = key y \<Longrightarrow> x = y"
  by (auto simp: canonical_table_def distinct_map dest: inj_onD)

lemma canonical_table_sort_key: "canonical_table key xs \<Longrightarrow> sort_key key xs = xs"
  by (simp add: canonical_table_def sort_key_id_if_sorted)

lemma sort_key_permutation:
  assumes "mset xs = mset ys" and "canonical_table key (sort_key key ys)"
  shows "sort_key key xs = sort_key key ys"
proof (rule sort_key_inj_key_eq)
  show "mset xs = mset (sort_key key ys)" using assms(1) by simp
  have "inj_on key (set (sort_key key ys))"
    using assms(2) unfolding canonical_table_def distinct_map by blast
  moreover have "set (sort_key key ys) = set xs" using assms(1) by (metis mset_eq_setD set_sort)
  ultimately show "inj_on key (set xs)" by simp
qed simp

lemma lookup_by_key_Some:
  "lookup_by_key k key xs = Some x \<Longrightarrow> x \<in> set xs \<and> key x = k"
  by (auto simp: lookup_by_key_def dest: binary_search_sound)

lemma lookup_by_key_iff:
  assumes "canonical_table key xs"
  shows "lookup_by_key k key xs = Some x \<longleftrightarrow> x \<in> set xs \<and> key x = k"
proof
  assume "x \<in> set xs \<and> key x = k"
  then obtain i where i: "binary_search_by_key k key xs = Some i"
    using binary_search_complete assms by (metis canonical_table_def)
  then have "i < length xs" "key (xs ! i) = k" using binary_search_sound by blast+
  then have "xs ! i = x"
    using canonical_table_key_inj[OF assms, of "xs ! i" x] \<open>x \<in> set xs \<and> key x = k\<close> by simp
  with i show "lookup_by_key k key xs = Some x" by (simp add: lookup_by_key_def)
qed (rule lookup_by_key_Some)

lemma lookup_by_key_None_iff:
  assumes "sorted (map key xs)"
  shows "lookup_by_key k key xs = None \<longleftrightarrow> k \<notin> key ` set xs"
proof
  assume none: "lookup_by_key k key xs = None"
  show "k \<notin> key ` set xs"
  proof
    assume "k \<in> key ` set xs"
    then obtain x where "x \<in> set xs" "key x = k" by auto
    from binary_search_complete[OF assms this] none show False
      by (auto simp: lookup_by_key_def)
  qed
next
  assume "k \<notin> key ` set xs"
  then show "lookup_by_key k key xs = None"
    using lookup_by_key_Some[of k key xs] by (cases "lookup_by_key k key xs") auto
qed

text \<open>
  The duplicate test of the validators: a sorted list in which no two neighbouring keys are
  equal is a canonical table.
\<close>

fun adjacent_distinct :: "'k option \<Rightarrow> 'k list \<Rightarrow> bool" where
  "adjacent_distinct prev [] = True"
| "adjacent_distinct prev (k # ks) = (prev \<noteq> Some k \<and> adjacent_distinct (Some k) ks)"

lemma adjacent_distinct_sorted:
  "sorted ks \<Longrightarrow> adjacent_distinct prev ks \<Longrightarrow> distinct (ks :: 'k::linorder list)"
proof (induction ks arbitrary: prev)
  case (Cons k ks)
  have "k \<notin> set ks"
  proof (cases ks)
    case (Cons k2 ks')
    with Cons.prems show ?thesis by force
  qed simp
  with Cons show ?case by auto
qed simp

lemma distinct_adjacent_distinct:
  "distinct ks \<Longrightarrow> prev \<notin> Some ` set ks \<Longrightarrow> adjacent_distinct prev ks"
  by (induction ks arbitrary: prev) auto

text \<open>
  The scanning loop that every registry of the source runs over a sorted table: each entry
  must be well formed, its key must differ from the previous one and its name must be new.
  \<open>step\<close> is the loop body with the set of names seen and the previous key as loop variables.
\<close>

locale unique_scan =
  fixes step :: "'n set \<times> 'k::linorder option \<Rightarrow> 'a \<Rightarrow> 'e + 'n set \<times> 'k option"
    and key :: "'a \<Rightarrow> 'k"
    and name :: "'a \<Rightarrow> 'n"
    and good :: "'a \<Rightarrow> bool"
  assumes step_Inr: "step (names, prev) x = Inr st' \<longleftrightarrow>
    good x \<and> prev \<noteq> Some (key x) \<and> name x \<notin> names \<and> st' = (insert (name x) names, Some (key x))"
begin

lemma scan_from:
  "(\<exists>st'. try_fold step (names, prev) xs = Inr st') \<longleftrightarrow>
     (\<forall>x \<in> set xs. good x) \<and> adjacent_distinct prev (map key xs)
     \<and> distinct (map name xs) \<and> name ` set xs \<inter> names = {}"
proof (induction xs arbitrary: names prev)
  case (Cons x xs)
  have "(\<exists>st'. try_fold step (names, prev) (x # xs) = Inr st') \<longleftrightarrow>
    good x \<and> prev \<noteq> Some (key x) \<and> name x \<notin> names \<and>
    (\<exists>st'. try_fold step (insert (name x) names, Some (key x)) xs = Inr st')"
    by (auto simp: step_Inr)
  then show ?case unfolding Cons.IH by auto
qed simp

lemma scan_ok_iff:
  assumes "sorted (map key xs)"
  shows "is_ok (try_fold step ({}, None) xs) \<longleftrightarrow>
    (\<forall>x \<in> set xs. good x) \<and> canonical_table key xs \<and> distinct (map name xs)"
  using adjacent_distinct_sorted[OF assms, of None] distinct_adjacent_distinct[of "map key xs" None]
    scan_from[of "{}" None xs] assms
  by (auto simp: is_ok_iff canonical_table_def)

lemma scan_then_ok_iff:
  assumes "sorted (map key xs)"
  shows "and_then (try_fold step ({}, None) xs) (\<lambda>_. Inr ()) = Inr () \<longleftrightarrow>
    (\<forall>x \<in> set xs. good x) \<and> canonical_table key xs \<and> distinct (map name xs)"
  using scan_ok_iff[OF assms] by (simp add: is_ok_iff)

end

text \<open>The same scan over entries without names.\<close>

locale key_scan =
  fixes step :: "'k::linorder option \<Rightarrow> 'a \<Rightarrow> 'e + 'k option"
    and key :: "'a \<Rightarrow> 'k"
    and good :: "'a \<Rightarrow> bool"
  assumes step_Inr: "step prev x = Inr st' \<longleftrightarrow> good x \<and> prev \<noteq> Some (key x) \<and> st' = Some (key x)"
begin

lemma scan_from:
  "(\<exists>st'. try_fold step prev xs = Inr st') \<longleftrightarrow>
     (\<forall>x \<in> set xs. good x) \<and> adjacent_distinct prev (map key xs)"
proof (induction xs arbitrary: prev)
  case (Cons x xs)
  have "(\<exists>st'. try_fold step prev (x # xs) = Inr st') \<longleftrightarrow>
    good x \<and> prev \<noteq> Some (key x) \<and> (\<exists>st'. try_fold step (Some (key x)) xs = Inr st')"
    by (auto simp: step_Inr)
  then show ?case unfolding Cons.IH by auto
qed simp

lemma scan_ok_iff:
  assumes "sorted (map key xs)"
  shows "(\<exists>st'. try_fold step None xs = Inr st') \<longleftrightarrow> (\<forall>x \<in> set xs. good x) \<and> canonical_table key xs"
  using adjacent_distinct_sorted[OF assms, of None] distinct_adjacent_distinct[of "map key xs" None]
    scan_from[of None xs] assms
  by (auto simp: canonical_table_def)

end

section \<open>Three-colour depth-first search\<close>

text \<open>
  The registries reject cyclic references by a depth-first search whose colours are 0 (not
  seen), 1 (on the path) and 2 (finished). \<open>black_ranked succs states\<close> is what every finished
  part of the search satisfies: the black indices are closed under the references and a rank
  decreases along them, so no cycle runs through them.
\<close>

definition black :: "nat list \<Rightarrow> nat set" where
  "black states = {i. i < length states \<and> states ! i = 2}"

definition black_ranked :: "(nat \<Rightarrow> nat set) \<Rightarrow> nat list \<Rightarrow> bool" where
  "black_ranked succs states \<longleftrightarrow>
     (\<exists>rank :: nat \<Rightarrow> nat. \<forall>i \<in> black states. \<forall>j \<in> succs i. j \<in> black states \<and> rank j < rank i)"

lemma black_ranked_white: "black_ranked succs (replicate n 0)"
  by (auto simp: black_ranked_def black_def)

lemma black_update_grey: "states ! i \<noteq> 2 \<Longrightarrow> black (states[i := Suc 0]) = black states"
  by (cases "i < length states") (auto simp: black_def nth_list_update list_update_beyond split: if_splits)

lemma black_update_black: "i < length states \<Longrightarrow> black (states[i := 2]) = insert i (black states)"
  by (auto simp: black_def nth_list_update)

lemma black_ranked_finish:
  assumes "black_ranked succs states" and i: "i < length states" and "states ! i \<noteq> 2"
    and succs: "succs i \<subseteq> black states" and fin: "finite (succs i)"
  shows "black_ranked succs (states[i := 2])"
proof -
  from assms(1) obtain rank :: "nat \<Rightarrow> nat" where
    rank: "\<And>a b. a \<in> black states \<Longrightarrow> b \<in> succs a \<Longrightarrow> b \<in> black states \<and> rank b < rank a"
    by (auto simp: black_ranked_def)
  have new: "i \<notin> black states" using assms(3) by (simp add: black_def)
  define rank' where "rank' = rank(i := Suc (\<Sum>j \<in> succs i. rank j))"
  have "rank j < Suc (\<Sum>j \<in> succs i. rank j)" if "j \<in> succs i" for j
    using member_le_sum[OF that, of rank] fin by simp
  then have "j \<in> black (states[i := 2]) \<and> rank' j < rank' a"
    if "a \<in> black (states[i := 2])" "j \<in> succs a" for a j
    using that rank new succs i by (auto simp: rank'_def black_update_black)
  then show ?thesis unfolding black_ranked_def by blast
qed

text \<open>
  What a client of such a search relies on: a successful visit keeps the ranking, keeps the
  number of colours, forgets no black index and leaves the visited index black.
\<close>

locale colour_dfs =
  fixes size :: nat
    and succs :: "nat \<Rightarrow> nat set"
    and visit :: "nat list \<Rightarrow> nat \<Rightarrow> 'e + nat list"
  assumes visit_Inr: "visit states i = Inr states' \<Longrightarrow> length states = size \<Longrightarrow>
    black_ranked succs states \<Longrightarrow>
    length states' = size \<and> black_ranked succs states' \<and> insert i (black states) \<subseteq> black states'"
begin

lemma visit_all:
  assumes "try_fold visit states xs = Inr states'" and "length states = size"
    and "black_ranked succs states"
  shows "length states' = size \<and> black_ranked succs states' \<and> black states \<union> set xs \<subseteq> black states'"
  using assms
proof (induction xs arbitrary: states)
  case (Cons x xs)
  then obtain st where st: "visit states x = Inr st" "try_fold visit st xs = Inr states'"
    by auto
  from visit_Inr[OF st(1) Cons.prems(2,3)] have "length st = size" "black_ranked succs st"
    "insert x (black states) \<subseteq> black st" by blast+
  with Cons.IH[OF st(2)] show ?case by auto
qed simp

lemma search_ranked:
  assumes "try_fold visit (replicate size 0) [0..<size] = Inr states'"
  shows "\<exists>rank :: nat \<Rightarrow> nat. \<forall>i < size. \<forall>j \<in> succs i. j < size \<and> rank j < rank i"
proof -
  from visit_all[OF assms] black_ranked_white
  have "length states' = size" "black_ranked succs states'" "{0..<size} \<subseteq> black states'"
    by auto
  moreover from this have "black states' = {0..<size}" by (auto simp: black_def)
  ultimately obtain rank :: "nat \<Rightarrow> nat" where
    "\<forall>i \<in> {0..<size}. \<forall>j \<in> succs i. j \<in> {0..<size} \<and> rank j < rank i"
    by (auto simp: black_ranked_def)
  then show ?thesis by (intro exI[of _ rank]) auto
qed

lemma search_acyclic:
  assumes "try_fold visit (replicate size 0) [0..<size] = Inr states'"
  shows "acyclic {(i, j). i < size \<and> j \<in> succs i}"
proof -
  from search_ranked[OF assms] obtain rank :: "nat \<Rightarrow> nat" where
    "\<forall>i < size. \<forall>j \<in> succs i. j < size \<and> rank j < rank i" by blast
  then have "{(i, j). i < size \<and> j \<in> succs i} \<subseteq> (measure rank)\<inverse>" by auto
  moreover have "acyclic ((measure rank)\<inverse>)" by (simp add: acyclic_converse wf_acyclic)
  ultimately show ?thesis by (rule acyclic_subset[rotated])
qed

end

section \<open>Little-endian bytes\<close>

text \<open>\<^verbatim>\<open>to_le_bytes\<close> and \<^verbatim>\<open>from_le_bytes\<close> of an unsigned integer.\<close>

fun nat_to_le :: "nat \<Rightarrow> nat \<Rightarrow> bytes" where
  "nat_to_le 0 x = []"
| "nat_to_le (Suc n) x = word_of_nat x # nat_to_le n (x div 256)"

fun nat_from_le :: "bytes \<Rightarrow> nat" where
  "nat_from_le [] = 0"
| "nat_from_le (b # bs) = unat b + 256 * nat_from_le bs"

lemma length_nat_to_le [simp]: "length (nat_to_le n x) = n"
  by (induction n arbitrary: x) auto

lemma unat_of_nat_u8: "unat (word_of_nat n :: u8) = n mod 256"
  by (simp add: unat_of_nat)

lemma nat_from_to_le: "x < 256 ^ n \<Longrightarrow> nat_from_le (nat_to_le n x) = x"
proof (induction n arbitrary: x)
  case (Suc n)
  have "x div 256 < 256 ^ n" using Suc.prems by (simp add: less_mult_imp_div_less mult.commute)
  with Suc.IH have "nat_from_le (nat_to_le n (x div 256)) = x div 256" .
  moreover have "unat (word_of_nat x :: u8) = x mod 256" by (simp add: unat_of_nat)
  ultimately show ?case by simp
qed simp

lemma nat_to_from_le: "nat_to_le (length bs) (nat_from_le bs) = bs"
proof (induction bs)
  case (Cons b bs)
  have b: "unat b < 256" by (rule unat_u8_less)
  have "(word_of_nat (unat b + 256 * nat_from_le bs) :: u8) = b"
    unfolding word_unat_eq_iff unat_of_nat_u8 using b by simp
  moreover have "(unat b + 256 * nat_from_le bs) div 256 = nat_from_le bs"
    using b by simp
  ultimately show ?case using Cons by simp
qed simp

lemma nat_from_le_bound: "nat_from_le bs < 256 ^ length bs"
proof (induction bs)
  case (Cons b bs)
  have "unat b < 256" by (rule unat_u8_less)
  with Cons show ?case by simp
qed simp

section \<open>UTF-8\<close>

text \<open>
  \<^verbatim>\<open>str::from_utf8\<close> accepts exactly well-formed UTF-8 and \<^verbatim>\<open>chars()\<close>
  reads the scalar values. \<open>utf8_step\<close> reads one scalar value: no overlong form, no
  surrogate, nothing past \<open>0x10FFFF\<close>.
\<close>

definition utf8_cont :: "u8 \<Rightarrow> bool" where
  "utf8_cont b \<longleftrightarrow> 128 \<le> unat b \<and> unat b < 192"

definition utf8_step :: "bytes \<Rightarrow> (nat \<times> bytes) option" where
  "utf8_step bs = (case bs of
     [] \<Rightarrow> None
   | b0 # r0 \<Rightarrow>
       (let x = unat b0 in
        if x < 128 then Some (x, r0)
        else case r0 of
          [] \<Rightarrow> None
        | b1 # r1 \<Rightarrow>
            if \<not> utf8_cont b1 then None
            else let y = unat b1 - 128 in
            if 194 \<le> x \<and> x \<le> 223 then Some ((x - 192) * 64 + y, r1)
            else case r1 of
              [] \<Rightarrow> None
            | b2 # r2 \<Rightarrow>
                if \<not> utf8_cont b2 then None
                else let z = unat b2 - 128 in
                if 224 \<le> x \<and> x \<le> 239 then
                  (if (x = 224 \<and> y < 32) \<or> (x = 237 \<and> 32 \<le> y) then None
                   else Some ((x - 224) * 4096 + y * 64 + z, r2))
                else case r2 of
                  [] \<Rightarrow> None
                | b3 # r3 \<Rightarrow>
                    if \<not> utf8_cont b3 then None
                    else if 240 \<le> x \<and> x \<le> 244 then
                      (if (x = 240 \<and> y < 16) \<or> (x = 244 \<and> 16 \<le> y) then None
                       else Some ((x - 240) * 262144 + y * 4096 + z * 64 + (unat b3 - 128), r3))
                    else None))"

lemma utf8_step_shorter: "utf8_step bs = Some (c, rest) \<Longrightarrow> length rest < length bs"
  by (auto simp: utf8_step_def Let_def split: list.splits if_splits)

function utf8_chars :: "bytes \<Rightarrow> nat list option" where
  "utf8_chars bs =
     (if bs = [] then Some []
      else case utf8_step bs of
        None \<Rightarrow> None
      | Some (c, rest) \<Rightarrow> map_option ((#) c) (utf8_chars rest))"
  by pat_completeness auto
termination
  by (relation "measure length") (auto dest: utf8_step_shorter)

declare utf8_chars.simps [simp del]

definition utf8_valid :: "bytes \<Rightarrow> bool" where
  "utf8_valid bs \<longleftrightarrow> utf8_chars bs \<noteq> None"

lemma utf8_chars_ascii:
  "\<forall>b \<in> set bs. unat b < 128 \<Longrightarrow> utf8_chars bs = Some (map unat bs)"
proof (induction bs)
  case Nil
  then show ?case by (simp add: utf8_chars.simps)
next
  case (Cons b bs)
  then show ?case by (subst utf8_chars.simps) (simp add: utf8_step_def Let_def)
qed

lemma utf8_valid_ascii: "\<forall>b \<in> set bs. unat b < 128 \<Longrightarrow> utf8_valid bs"
  by (simp add: utf8_valid_def utf8_chars_ascii)

text \<open>\<^verbatim>\<open>char::is_control\<close> (category Cc) and \<^verbatim>\<open>char::is_whitespace\<close>
  (property White\_Space).\<close>

definition char_is_control :: "nat \<Rightarrow> bool" where
  "char_is_control c \<longleftrightarrow> c < 32 \<or> (127 \<le> c \<and> c < 160)"

definition char_is_whitespace :: "nat \<Rightarrow> bool" where
  "char_is_whitespace c \<longleftrightarrow>
     (9 \<le> c \<and> c \<le> 13) \<or> c = 32 \<or> c = 133 \<or> c = 160 \<or> c = 5760
     \<or> (8192 \<le> c \<and> c \<le> 8202) \<or> c = 8232 \<or> c = 8233 \<or> c = 8239 \<or> c = 8287 \<or> c = 12288"

definition is_ascii_alphabetic :: "u8 \<Rightarrow> bool" where
  "is_ascii_alphabetic b \<longleftrightarrow> (65 \<le> unat b \<and> unat b \<le> 90) \<or> (97 \<le> unat b \<and> unat b \<le> 122)"

definition is_ascii_digit :: "u8 \<Rightarrow> bool" where
  "is_ascii_digit b \<longleftrightarrow> 48 \<le> unat b \<and> unat b \<le> 57"

definition is_ascii_alphanumeric :: "u8 \<Rightarrow> bool" where
  "is_ascii_alphanumeric b \<longleftrightarrow> is_ascii_alphabetic b \<or> is_ascii_digit b"

text \<open>A string literal of the source, for concrete inputs.\<close>

definition str :: "string \<Rightarrow> rust_str" where
  "str s = map (\<lambda>c. word_of_nat (of_char c)) s"

end
