(* ===== verification/External_Interface.thy ===== *)
theory External_Interface
  imports Graph_Prelude
begin

text \<open>
  Three things the graph core uses are code of other crates and so parameters of the model: the
  exact rational of \<^verbatim>\<open>hyperreal\<close>, the zero test of a \<^verbatim>\<open>Digest\<close> of
  \<^verbatim>\<open>alumina_protocol\<close> and \<^verbatim>\<open>sha256\<close> of
  \<^verbatim>\<open>alumina_storage\<close>. They are the fields of the record \<open>external_api\<close>, which every
  definition that needs one takes as its argument. \<open>rational_text_laws\<close> states the documented
  behaviour of the rational's decimal text that the wire codec relies on. The record
  \<open>rat_api\<close>, over HOL's own rational numbers, satisfies it.
\<close>

section \<open>The operations used by the source\<close>

text \<open>
  \<open>rq_numerator_text q\<close> is \<^verbatim>\<open>q.numerator().to_string()\<close> (a magnitude; the sign is
  separate), \<open>rq_parse s\<close> is \<^verbatim>\<open>s.parse::<Rational>().ok()\<close>, \<open>rq_gt\<close> is
  \<^verbatim>\<open>>\<close>. \<open>rq_one\<close> is \<^verbatim>\<open>Rational::one()\<close>, \<open>rq_from n\<close> is
  \<^verbatim>\<open>Rational::from(n)\<close> of an unsigned integer, \<open>rq_mul\<close> and \<open>rq_div\<close> are the
  operators, \<open>rq_numerator q\<close> and \<open>rq_denominator q\<close> are the magnitudes that
  \<^verbatim>\<open>q.numerator()\<close> and \<^verbatim>\<open>q.denominator()\<close> return. \<open>ext_digest_is_zero\<close> is \<^verbatim>\<open>Digest::is_zero\<close> and
  \<open>ext_sha256\<close> is \<^verbatim>\<open>sha256(bytes).digest\<close>.
\<close>

record 'q external_api =
  rq_is_zero :: "'q \<Rightarrow> bool"
  rq_is_negative :: "'q \<Rightarrow> bool"
  rq_gt :: "'q \<Rightarrow> 'q \<Rightarrow> bool"
  rq_numerator_text :: "'q \<Rightarrow> rust_str"
  rq_denominator_text :: "'q \<Rightarrow> rust_str"
  rq_parse :: "rust_str \<Rightarrow> 'q option"
  rq_one :: 'q
  rq_from :: "nat \<Rightarrow> 'q"
  rq_mul :: "'q \<Rightarrow> 'q \<Rightarrow> 'q"
  rq_div :: "'q \<Rightarrow> 'q \<Rightarrow> 'q"
  rq_numerator :: "'q \<Rightarrow> nat"
  rq_denominator :: "'q \<Rightarrow> nat"
  ext_digest_is_zero :: "bytes \<Rightarrow> bool"
  ext_sha256 :: "bytes \<Rightarrow> bytes"

text \<open>\<^verbatim>\<open>canonical_digits\<close> of the wire module.\<close>

definition canonical_digits :: "rust_str \<Rightarrow> bool" where
  "canonical_digits value \<longleftrightarrow>
     value \<noteq> [] \<and> (\<forall>b \<in> set value. is_ascii_digit b)
     \<and> (length value = 1 \<or> hd value \<noteq> 48)"

text \<open>The text \<^verbatim>\<open>-n/d\<close> or \<^verbatim>\<open>n/d\<close> that the decoder builds and parses.\<close>

definition rational_source :: "bool \<Rightarrow> rust_str \<Rightarrow> rust_str \<Rightarrow> rust_str" where
  "rational_source negative numerator denominator =
     (if negative then [45] else []) @ numerator @ [47] @ denominator"

definition rational_text_laws :: "'q external_api \<Rightarrow> bool" where
  "rational_text_laws R \<longleftrightarrow>
     (\<forall>q. canonical_digits (rq_numerator_text R q)) \<and>
     (\<forall>q. canonical_digits (rq_denominator_text R q)) \<and>
     (\<forall>q. rq_denominator_text R q \<noteq> [48]) \<and>
     (\<forall>q. rq_is_zero R q \<longleftrightarrow> rq_numerator_text R q = [48]) \<and>
     (\<forall>q. rq_is_zero R q \<longrightarrow> \<not> rq_is_negative R q) \<and>
     (\<forall>q. rq_parse R (rational_source (rq_is_negative R q) (rq_numerator_text R q)
             (rq_denominator_text R q)) = Some q)"

lemma rational_text_lawsD:
  assumes "rational_text_laws R"
  shows "canonical_digits (rq_numerator_text R q)"
    and "canonical_digits (rq_denominator_text R q)"
    and "rq_denominator_text R q \<noteq> [48]"
    and "rq_is_zero R q \<longleftrightarrow> rq_numerator_text R q = [48]"
    and "rq_is_zero R q \<Longrightarrow> \<not> rq_is_negative R q"
    and "rq_parse R (rational_source (rq_is_negative R q) (rq_numerator_text R q)
           (rq_denominator_text R q)) = Some q"
  using assms by (auto simp: rational_text_laws_def)

lemma canonical_digits_utf8: "canonical_digits s \<Longrightarrow> utf8_valid s"
  by (rule utf8_valid_ascii) (auto simp: canonical_digits_def is_ascii_digit_def)

text \<open>
  \<open>rational_arithmetic R v\<close>: the rationals of the interface stand for the rational numbers \<open>v q\<close>,
  the operators compute on them, and numerator and denominator are those of the reduced fraction.
  Nothing is said about a division by zero.
\<close>

definition rational_arithmetic :: "'q external_api \<Rightarrow> ('q \<Rightarrow> rat) \<Rightarrow> bool" where
  "rational_arithmetic R v \<longleftrightarrow>
     v (rq_one R) = 1 \<and> (\<forall>n. v (rq_from R n) = of_nat n)
     \<and> (\<forall>a b. v (rq_mul R a b) = v a * v b) \<and> (\<forall>a b. v b \<noteq> 0 \<longrightarrow> v (rq_div R a b) = v a / v b)
     \<and> (\<forall>q. rq_numerator R q = nat \<bar>fst (quotient_of (v q))\<bar>)
     \<and> (\<forall>q. rq_denominator R q = nat (snd (quotient_of (v q))))"

lemma rational_arithmeticD:
  assumes "rational_arithmetic R v"
  shows "v (rq_one R) = 1" "v (rq_from R n) = of_nat n" "v (rq_mul R a b) = v a * v b"
    and "v b \<noteq> 0 \<Longrightarrow> v (rq_div R a b) = v a / v b"
    and "rq_numerator R q = nat \<bar>fst (quotient_of (v q))\<bar>"
    and "rq_denominator R q = nat (snd (quotient_of (v q)))"
  using assms unfolding rational_arithmetic_def by blast+

section \<open>HOL's rational numbers satisfy the laws\<close>

function nat_text :: "nat \<Rightarrow> rust_str" where
  "nat_text n = (if n < 10 then [word_of_nat (48 + n)]
     else nat_text (n div 10) @ [word_of_nat (48 + n mod 10)])"
  by pat_completeness auto
termination
  by (relation "measure id") auto

declare nat_text.simps [simp del]

definition text_nat :: "rust_str \<Rightarrow> nat" where
  "text_nat s = foldl (\<lambda>acc b. 10 * acc + (unat b - 48)) 0 s"

definition rat_numerator_text :: "rat \<Rightarrow> rust_str" where
  "rat_numerator_text q = nat_text (nat \<bar>fst (quotient_of q)\<bar>)"

definition rat_denominator_text :: "rat \<Rightarrow> rust_str" where
  "rat_denominator_text q = nat_text (nat (snd (quotient_of q)))"

definition rat_parse :: "rust_str \<Rightarrow> rat option" where
  "rat_parse s =
     (let negative = (s \<noteq> [] \<and> hd s = 45);
          body = (if negative then tl s else s);
          numerator = takeWhile (\<lambda>b. b \<noteq> 47) body;
          denominator = tl (dropWhile (\<lambda>b. b \<noteq> 47) body);
          n = int (text_nat numerator)
      in Some (Fract (if negative then - n else n) (int (text_nat denominator))))"

definition rat_api :: "rat external_api" where
  "rat_api =
     \<lparr> rq_is_zero = (\<lambda>q. q = 0),
       rq_is_negative = (\<lambda>q. q < 0),
       rq_gt = (\<lambda>p q. q < p),
       rq_numerator_text = rat_numerator_text,
       rq_denominator_text = rat_denominator_text,
       rq_parse = rat_parse,
       rq_one = 1,
       rq_from = of_nat,
       rq_mul = (*),
       rq_div = (/),
       rq_numerator = (\<lambda>q. nat \<bar>fst (quotient_of q)\<bar>),
       rq_denominator = (\<lambda>q. nat (snd (quotient_of q))),
       ext_digest_is_zero = (\<lambda>d. \<forall>b \<in> set d. b = 0),
       ext_sha256 = (\<lambda>bs. take 32 (bs @ replicate 32 0)) \<rparr>"

lemma digit_byte: "n < 10 \<Longrightarrow> unat (word_of_nat (48 + n) :: u8) = 48 + n"
  unfolding unat_of_nat_u8 by simp

lemma nat_text_digits: "\<forall>b \<in> set (nat_text n). is_ascii_digit b"
proof (induction n rule: nat_text.induct)
  case (1 n)
  have "is_ascii_digit (word_of_nat (48 + m))" if "m < 10" for m
    unfolding is_ascii_digit_def digit_byte[OF that] using that by simp
  from this[of n] this[of "n mod 10"] 1 show ?case
    by (subst nat_text.simps) auto
qed

lemma nat_text_nonempty: "nat_text n \<noteq> []"
  by (subst nat_text.simps) simp

lemma hd_nat_text: "n \<noteq> 0 \<Longrightarrow> hd (nat_text n) \<noteq> 48"
proof (induction n rule: nat_text.induct)
  case (1 n)
  have small: "(word_of_nat (48 + n) :: u8) \<noteq> 48" if "n < 10"
  proof
    assume "(word_of_nat (48 + n) :: u8) = 48"
    then have "unat (word_of_nat (48 + n) :: u8) = 48" by simp
    then show False using digit_byte[OF that] 1 by simp
  qed
  show ?case
  proof (cases "n < 10")
    case True
    then show ?thesis using small by (subst nat_text.simps) simp
  next
    case False
    then have "n div 10 \<noteq> 0" by simp
    with 1 False have "hd (nat_text (n div 10)) \<noteq> 48" by simp
    with False show ?thesis
      by (subst nat_text.simps) (simp add: nat_text_nonempty)
  qed
qed

lemma canonical_digits_nat_text: "canonical_digits (nat_text n)"
proof (cases "n = 0")
  case True
  then show ?thesis using nat_text_digits[of n]
    by (auto simp: canonical_digits_def nat_text_nonempty nat_text.simps[of 0])
qed (use nat_text_digits[of n] hd_nat_text[of n] in \<open>auto simp: canonical_digits_def nat_text_nonempty\<close>)

lemma text_nat_text: "text_nat (nat_text n) = n"
proof (induction n rule: nat_text.induct)
  case (1 n)
  show ?case
  proof (cases "n < 10")
    case True
    then show ?thesis using digit_byte[of n]
      by (subst nat_text.simps) (simp add: text_nat_def del: of_nat_add)
  next
    case False
    with 1 have IH: "text_nat (nat_text (n div 10)) = n div 10" by simp
    have "text_nat (nat_text n) = 10 * text_nat (nat_text (n div 10)) + n mod 10"
      using False digit_byte[of "n mod 10"]
      by (subst nat_text.simps) (simp add: text_nat_def del: of_nat_add)
    with IH show ?thesis by simp
  qed
qed

lemma nat_text_zero_iff: "nat_text n = [48] \<longleftrightarrow> n = 0"
proof
  assume "nat_text n = [48]"
  then show "n = 0" using hd_nat_text[of n] by auto
qed (simp add: nat_text.simps)

lemma digit_not_slash: "is_ascii_digit b \<Longrightarrow> b \<noteq> 47 \<and> b \<noteq> 45"
  by (auto simp: is_ascii_digit_def)

lemma rat_parse_source:
  assumes "\<forall>b \<in> set n. is_ascii_digit b" and "n \<noteq> []"
  shows "rat_parse (rational_source neg n d) =
    Some (Fract (if neg then - int (text_nat n) else int (text_nat n)) (int (text_nat d)))"
proof -
  have n: "takeWhile (\<lambda>b. b \<noteq> 47) (n @ 47 # d) = n" "dropWhile (\<lambda>b. b \<noteq> 47) (n @ 47 # d) = 47 # d"
    using assms digit_not_slash by (auto simp: takeWhile_append dropWhile_append)
  have "hd (n @ 47 # d) \<noteq> 45" using assms digit_not_slash by (cases n) auto
  with n show ?thesis by (simp add: rat_parse_def rational_source_def Let_def)
qed

lemma rat_api_arithmetic: "rational_arithmetic rat_api id"
  by (simp add: rational_arithmetic_def rat_api_def)

theorem rat_api_text_laws: "rational_text_laws rat_api"
proof -
  have parse: "rat_parse (rational_source (q < 0) (rat_numerator_text q) (rat_denominator_text q)) = Some q" for q
  proof -
    obtain a b where ab: "quotient_of q = (a, b)" by fastforce
    then have q: "q = Fract a b" and b: "0 < b"
      by (auto simp: quotient_of_div Fract_of_int_quotient dest: quotient_of_denom_pos)
    have "q < 0 \<longleftrightarrow> a < 0" using b by (simp add: q Fract_of_int_quotient divide_less_0_iff)
    then have a: "(if q < 0 then - int (nat \<bar>a\<bar>) else int (nat \<bar>a\<bar>)) = a" by auto
    have b': "int (nat b) = b" using b by simp
    have "rat_parse (rational_source (q < 0) (nat_text (nat \<bar>a\<bar>)) (nat_text (nat b)))
      = Some (Fract (if q < 0 then - int (nat \<bar>a\<bar>) else int (nat \<bar>a\<bar>)) (int (nat b)))"
      using rat_parse_source[OF nat_text_digits nat_text_nonempty] by (simp only: text_nat_text)
    then show ?thesis
      unfolding a b' q[symmetric] by (simp add: rat_numerator_text_def rat_denominator_text_def ab)
  qed
  have den: "rat_denominator_text q \<noteq> [48]" for q
  proof -
    have "0 < snd (quotient_of q)" by (metis prod.collapse quotient_of_denom_pos)
    then show ?thesis by (simp add: rat_denominator_text_def nat_text_zero_iff)
  qed
  have zero: "q = 0 \<longleftrightarrow> rat_numerator_text q = [48]" for q
  proof -
    obtain a b where ab: "quotient_of q = (a, b)" by fastforce
    then have "q = of_int a / of_int b" "0 < b"
      by (auto simp: quotient_of_div dest: quotient_of_denom_pos)
    then have "q = 0 \<longleftrightarrow> a = 0" by simp
    then show ?thesis by (simp add: rat_numerator_text_def ab nat_text_zero_iff)
  qed
  have digits: "canonical_digits (rat_numerator_text q)" "canonical_digits (rat_denominator_text q)" for q
    by (simp_all add: rat_numerator_text_def rat_denominator_text_def canonical_digits_nat_text)
  show ?thesis
    unfolding rational_text_laws_def rat_api_def
    using parse den zero
    by (simp add: digits) (metis less_irrefl)
qed

end
