(* ===== verification/Graph_Schema.thy ===== *)
theory Graph_Schema
  imports External_Interface
begin

text \<open>
  The unit and type registry of \<^verbatim>\<open>crates/alumina-interface-core/src/graph.rs\<close>:
  its data, the validators of \<^verbatim>\<open>GraphSchema::try_new\<close> and the three-colour search
  over type references. An accepted schema is a canonical table of units and of types whose
  references resolve and form no cycle. Identifiers (\<^verbatim>\<open>UnitId\<close>,
  \<^verbatim>\<open>GraphTypeId\<close>, ...) are transparent wrappers of a \<^verbatim>\<open>u32\<close> and
  are modelled by it; a static message is the Isabelle string of the same text.
\<close>

section \<open>Data\<close>

type_synonym unit_id = u32
type_synonym graph_type_id = u32
type_synonym graph_clock_id = u32
type_synonym record_field_id = u32
type_synonym resource_class_id = u32

text \<open>SI exponents in metre, kilogram, second, ampere, kelvin, mole, candela order.\<close>

datatype base_dimensions = BaseDimensions i8 i8 i8 i8 i8 i8 i8

fun exponents :: "base_dimensions \<Rightarrow> i8 list" where
  "exponents (BaseDimensions a b c d e f g) = [a, b, c, d, e, f, g]"

record 'q unit_definition =
  ud_id :: unit_id
  ud_symbol :: rust_str
  ud_dimensions :: base_dimensions
  ud_scale :: 'q

record record_field =
  rf_id :: record_field_id
  rf_name :: rust_str
  rf_value_type :: graph_type_id

datatype 'q type_kind =
    TBoolean
  | TExactRational unit_id
  | TMeasurementInterval unit_id
  | TCanonicalI64 unit_id 'q
  | TCanonicalU64 unit_id 'q
  | TText u32
  | TBytes u32
  | TArray graph_type_id u32
  | TRecord "record_field list"
  | TOption graph_type_id
  | TResult graph_type_id graph_type_id
  | TEvent graph_type_id graph_clock_id
  | TStream graph_type_id graph_clock_id u32
  | TResourceHandle resource_class_id
  | TJobHandle

record 'q type_definition =
  td_id :: graph_type_id
  td_name :: rust_str
  td_kind :: "'q type_kind"

record graph_limits =
  maximum_document_bytes :: nat
  maximum_rational_digits :: nat
  maximum_units :: nat
  maximum_types :: nat
  maximum_record_fields :: nat
  maximum_value_depth :: nat
  maximum_value_nodes :: nat
  maximum_array_items :: nat
  maximum_text_bytes :: nat
  maximum_blob_bytes :: nat
  maximum_stream_capacity :: nat
  maximum_clocks :: nat
  maximum_nodes :: nat
  maximum_wires :: nat
  maximum_ports_per_node :: nat
  maximum_parameters_per_node :: nat
  maximum_label_bytes :: nat

definition interactive_limits :: graph_limits where
  "interactive_limits =
     \<lparr> maximum_document_bytes = 16 * 1024 * 1024,
       maximum_rational_digits = 4096,
       maximum_units = 64,
       maximum_types = 256,
       maximum_record_fields = 64,
       maximum_value_depth = 32,
       maximum_value_nodes = 4096,
       maximum_array_items = 1024,
       maximum_text_bytes = 64 * 1024,
       maximum_blob_bytes = 1024 * 1024,
       maximum_stream_capacity = 4096,
       maximum_clocks = 64,
       maximum_nodes = 4096,
       maximum_wires = 8192,
       maximum_ports_per_node = 64,
       maximum_parameters_per_node = 64,
       maximum_label_bytes = 256 \<rparr>"

text \<open>The seventeen fields in declaration order, as \<^verbatim>\<open>limit_values\<close> lists them.\<close>

definition limit_values :: "graph_limits \<Rightarrow> nat list" where
  "limit_values l =
     [maximum_document_bytes l, maximum_rational_digits l, maximum_units l, maximum_types l,
      maximum_record_fields l, maximum_value_depth l, maximum_value_nodes l,
      maximum_array_items l, maximum_text_bytes l, maximum_blob_bytes l,
      maximum_stream_capacity l, maximum_clocks l, maximum_nodes l, maximum_wires l,
      maximum_ports_per_node l, maximum_parameters_per_node l, maximum_label_bytes l]"

record 'q graph_schema =
  gs_limits :: graph_limits
  gs_units :: "'q unit_definition list"
  gs_types :: "'q type_definition list"

datatype graph_value_kind =
    KBoolean | KExactRational | KMeasurementInterval | KCanonicalI64 | KCanonicalU64
  | KText | KBytes | KArray | KRecord | KOption | KResult | KResourceHandle | KJobHandle

text \<open>
  \<^verbatim>\<open>GraphSchemaError\<close>. \<open>SE_IndexPanic\<close> is not a variant of the source: it stands
  for the panic of an out-of-range slice index, so that the model shows that none happens.
\<close>

datatype schema_error =
    SE_ZeroLimit
  | SE_LimitExceeded string
  | SE_ZeroIdentifier string
  | SE_DuplicateIdentifier string
  | SE_DuplicateName string
  | SE_InvalidName string
  | SE_InvalidUnitScale unit_id
  | SE_InvalidLatticeQuantum graph_type_id
  | SE_UnknownUnit unit_id
  | SE_UnknownType graph_type_id
  | SE_RecursiveType graph_type_id
  | SE_TypeDepthExceeded graph_type_id
  | SE_ValueDepthExceeded
  | SE_ValueNodeLimitExceeded
  | SE_TypeMismatch graph_type_id graph_value_kind
  | SE_ReversedMeasurement
  | SE_RecordShape
  | SE_RuntimeOnlyType graph_type_id
  | SE_InvalidHandle
  | SE_IndexPanic

section \<open>Validators\<close>

definition validate_limits :: "graph_limits \<Rightarrow> schema_error + unit" where
  "validate_limits l = (if 0 \<in> set (limit_values l) then Inl SE_ZeroLimit else Inr ())"

definition validate_u32_limit :: "u32 \<Rightarrow> nat \<Rightarrow> string \<Rightarrow> schema_error + unit" where
  "validate_u32_limit value maximum name =
     (if value = 0 \<or> unat value > maximum then Inl (SE_LimitExceeded name) else Inr ())"

definition validate_rational_magnitude ::
  "'q external_api \<Rightarrow> 'q \<Rightarrow> nat \<Rightarrow> schema_error + unit" where
  "validate_rational_magnitude R value maximum_digits =
     (if length (rq_numerator_text R value) > maximum_digits
         \<or> length (rq_denominator_text R value) > maximum_digits
      then Inl (SE_LimitExceeded ''rational magnitude'')
      else Inr ())"

definition valid_stable_name :: "rust_str \<Rightarrow> bool" where
  "valid_stable_name value \<longleftrightarrow>
     value \<noteq> [] \<and> length value \<le> 64 \<and> is_ascii_alphabetic (hd value)
     \<and> (\<forall>b \<in> set value. is_ascii_alphanumeric b \<or> b = 95 \<or> b = 45 \<or> b = 46)"

definition valid_symbol :: "rust_str \<Rightarrow> bool" where
  "valid_symbol value \<longleftrightarrow>
     value \<noteq> [] \<and> length value \<le> 32
     \<and> (case utf8_chars value of
          None \<Rightarrow> False
        | Some cs \<Rightarrow> \<forall>c \<in> set cs. \<not> char_is_control c \<and> \<not> char_is_whitespace c)"

text \<open>Lookups by binary search in the sorted tables.\<close>

definition schema_unit :: "'q graph_schema \<Rightarrow> unit_id \<Rightarrow> 'q unit_definition option" where
  "schema_unit S i = lookup_by_key i ud_id (gs_units S)"

definition type_index :: "'q graph_schema \<Rightarrow> graph_type_id \<Rightarrow> nat option" where
  "type_index S i = binary_search_by_key i td_id (gs_types S)"

definition value_type :: "'q graph_schema \<Rightarrow> graph_type_id \<Rightarrow> 'q type_definition option" where
  "value_type S i = map_option ((!) (gs_types S)) (type_index S i)"

definition require_type :: "'q graph_schema \<Rightarrow> graph_type_id \<Rightarrow> schema_error + nat" where
  "require_type S i = ok_or (SE_UnknownType i) (type_index S i)"

fun referenced_types :: "'q type_kind \<Rightarrow> graph_type_id list" where
  "referenced_types (TArray element _) = [element]"
| "referenced_types (TRecord fs) = map rf_value_type fs"
| "referenced_types (TOption v) = [v]"
| "referenced_types (TResult ok error) = [ok, error]"
| "referenced_types (TEvent payload _) = [payload]"
| "referenced_types (TStream sample _ _) = [sample]"
| "referenced_types _ = []"

text \<open>
  One iteration of \<^verbatim>\<open>validate_units\<close>; the loop variables are the set of symbols seen and
  the previous identifier.
\<close>

definition validate_unit_step ::
  "'q external_api \<Rightarrow> graph_limits \<Rightarrow> rust_str set \<times> unit_id option \<Rightarrow> 'q unit_definition
     \<Rightarrow> schema_error + rust_str set \<times> unit_id option" where
  "validate_unit_step R limits st u = (case st of (symbols, previous) \<Rightarrow>
     if ud_id u = 0 then Inl (SE_ZeroIdentifier ''unit'')
     else if previous = Some (ud_id u) then Inl (SE_DuplicateIdentifier ''unit'')
     else if \<not> valid_symbol (ud_symbol u) then Inl (SE_InvalidName ''unit symbol'')
     else if ud_symbol u \<in> symbols then Inl (SE_DuplicateName ''unit symbol'')
     else if rq_is_zero R (ud_scale u) \<or> rq_is_negative R (ud_scale u)
       then Inl (SE_InvalidUnitScale (ud_id u))
     else and_then (validate_rational_magnitude R (ud_scale u) (maximum_rational_digits limits))
       (\<lambda>_. Inr (insert (ud_symbol u) symbols, Some (ud_id u))))"

definition validate_units :: "'q external_api \<Rightarrow> 'q graph_schema \<Rightarrow> schema_error + unit" where
  "validate_units R S =
     and_then (try_fold (validate_unit_step R (gs_limits S)) ({}, None) (gs_units S)) (\<lambda>_. Inr ())"

definition validate_field_step ::
  "'q graph_schema \<Rightarrow> rust_str set \<times> record_field_id option \<Rightarrow> record_field
     \<Rightarrow> schema_error + rust_str set \<times> record_field_id option" where
  "validate_field_step S st f = (case st of (names, previous) \<Rightarrow>
     if rf_id f = 0 then Inl (SE_ZeroIdentifier ''record field'')
     else if previous = Some (rf_id f) then Inl (SE_DuplicateIdentifier ''record field'')
     else if \<not> valid_stable_name (rf_name f) then Inl (SE_InvalidName ''record field'')
     else if rf_name f \<in> names then Inl (SE_DuplicateName ''record field'')
     else and_then (require_type S (rf_value_type f))
       (\<lambda>_. Inr (insert (rf_name f) names, Some (rf_id f))))"

definition require_unit :: "'q graph_schema \<Rightarrow> unit_id \<Rightarrow> schema_error + unit" where
  "require_unit S u = (if schema_unit S u = None then Inl (SE_UnknownUnit u) else Inr ())"

definition validate_lattice ::
  "'q external_api \<Rightarrow> 'q graph_schema \<Rightarrow> graph_type_id \<Rightarrow> unit_id \<Rightarrow> 'q \<Rightarrow> schema_error + unit" where
  "validate_lattice R S i u quantum =
     and_then (require_unit S u) (\<lambda>_.
       if rq_is_zero R quantum \<or> rq_is_negative R quantum
       then Inl (SE_InvalidLatticeQuantum i)
       else validate_rational_magnitude R quantum (maximum_rational_digits (gs_limits S)))"

fun validate_type_kind ::
  "'q external_api \<Rightarrow> 'q graph_schema \<Rightarrow> graph_type_id \<Rightarrow> 'q type_kind \<Rightarrow> schema_error + unit" where
  "validate_type_kind R S i TBoolean = Inr ()"
| "validate_type_kind R S i TJobHandle = Inr ()"
| "validate_type_kind R S i (TExactRational u) = require_unit S u"
| "validate_type_kind R S i (TMeasurementInterval u) = require_unit S u"
| "validate_type_kind R S i (TCanonicalI64 u quantum) = validate_lattice R S i u quantum"
| "validate_type_kind R S i (TCanonicalU64 u quantum) = validate_lattice R S i u quantum"
| "validate_type_kind R S i (TText n) =
     validate_u32_limit n (maximum_text_bytes (gs_limits S)) ''text byte bound''"
| "validate_type_kind R S i (TBytes n) =
     validate_u32_limit n (maximum_blob_bytes (gs_limits S)) ''blob byte bound''"
| "validate_type_kind R S i (TArray element n) =
     and_then (require_type S element) (\<lambda>_.
       validate_u32_limit n (maximum_array_items (gs_limits S)) ''array item bound'')"
| "validate_type_kind R S i (TRecord fs) =
     (if length fs > maximum_record_fields (gs_limits S)
      then Inl (SE_LimitExceeded ''record field count'')
      else and_then (try_fold (validate_field_step S) ({}, None) fs) (\<lambda>_. Inr ()))"
| "validate_type_kind R S i (TOption v) = and_then (require_type S v) (\<lambda>_. Inr ())"
| "validate_type_kind R S i (TResult ok error) =
     and_then (require_type S ok) (\<lambda>_. and_then (require_type S error) (\<lambda>_. Inr ()))"
| "validate_type_kind R S i (TEvent payload clock) =
     and_then (require_type S payload) (\<lambda>_.
       if clock = 0 then Inl (SE_ZeroIdentifier ''event clock'') else Inr ())"
| "validate_type_kind R S i (TStream sample clock capacity) =
     and_then (require_type S sample) (\<lambda>_.
       if clock = 0 then Inl (SE_ZeroIdentifier ''stream clock'')
       else validate_u32_limit capacity (maximum_stream_capacity (gs_limits S)) ''stream capacity'')"
| "validate_type_kind R S i (TResourceHandle class) =
     (if class = 0 then Inl (SE_ZeroIdentifier ''resource class'') else Inr ())"

definition validate_type_step ::
  "'q external_api \<Rightarrow> 'q graph_schema \<Rightarrow> rust_str set \<times> graph_type_id option \<Rightarrow> 'q type_definition
     \<Rightarrow> schema_error + rust_str set \<times> graph_type_id option" where
  "validate_type_step R S st d = (case st of (names, previous) \<Rightarrow>
     if td_id d = 0 then Inl (SE_ZeroIdentifier ''type'')
     else if previous = Some (td_id d) then Inl (SE_DuplicateIdentifier ''type'')
     else if \<not> valid_stable_name (td_name d) then Inl (SE_InvalidName ''type'')
     else if td_name d \<in> names then Inl (SE_DuplicateName ''type'')
     else and_then (validate_type_kind R S (td_id d) (td_kind d))
       (\<lambda>_. Inr (insert (td_name d) names, Some (td_id d))))"

text \<open>
  \<^verbatim>\<open>visit_type\<close>: the colour of an index is 0 (white), 1 (grey) or 2 (black). The second
  function is its loop over the referenced types, at the depth of the recursive call.
\<close>

function visit_type :: "'q graph_schema \<Rightarrow> nat \<Rightarrow> nat \<Rightarrow> nat list \<Rightarrow> schema_error + nat list"
  and visit_references ::
    "'q graph_schema \<Rightarrow> graph_type_id list \<Rightarrow> nat \<Rightarrow> nat list \<Rightarrow> schema_error + nat list" where
  "visit_type S i depth states =
     (if length (gs_types S) \<le> i \<or> length states \<le> i then Inl SE_IndexPanic
      else if maximum_value_depth (gs_limits S) < depth
        then Inl (SE_TypeDepthExceeded (td_id (gs_types S ! i)))
      else if states ! i = 2 then Inr states
      else if states ! i = 1 then Inl (SE_RecursiveType (td_id (gs_types S ! i)))
      else and_then
        (visit_references S (referenced_types (td_kind (gs_types S ! i))) (Suc depth) (states[i := 1]))
        (\<lambda>states'. Inr (states'[i := 2])))"
| "visit_references S [] depth states = Inr states"
| "visit_references S (r # rs) depth states =
     and_then (require_type S r) (\<lambda>target.
       and_then (visit_type S target depth states) (\<lambda>states'.
         visit_references S rs depth states'))"
  by pat_completeness auto
termination
  by (relation "measures
        [\<lambda>x. case x of Inl (S, i, d, st) \<Rightarrow> Suc (maximum_value_depth (gs_limits S)) - d
                     | Inr (S, rs, d, st) \<Rightarrow> Suc (maximum_value_depth (gs_limits S)) - d,
         \<lambda>x. case x of Inl _ \<Rightarrow> 0 | Inr (S, rs, d, st) \<Rightarrow> Suc (length rs)]") auto

declare visit_type.simps [simp del]

definition validate_types :: "'q external_api \<Rightarrow> 'q graph_schema \<Rightarrow> schema_error + unit" where
  "validate_types R S =
     and_then (try_fold (validate_type_step R S) ({}, None) (gs_types S)) (\<lambda>_.
     and_then (try_fold (\<lambda>states i. visit_type S i 1 states)
         (replicate (length (gs_types S)) 0) [0..<length (gs_types S)]) (\<lambda>_.
       Inr ()))"

fun sort_record_fields :: "'q type_kind \<Rightarrow> 'q type_kind" where
  "sort_record_fields (TRecord fs) = TRecord (sort_key rf_id fs)"
| "sort_record_fields k = k"

text \<open>The sorting that \<^verbatim>\<open>GraphSchema::try_new\<close> does before it validates.\<close>

definition canonical_schema ::
  "graph_limits \<Rightarrow> 'q unit_definition list \<Rightarrow> 'q type_definition list \<Rightarrow> 'q graph_schema" where
  "canonical_schema limits units types =
     \<lparr> gs_limits = limits,
       gs_units = sort_key ud_id units,
       gs_types = map (\<lambda>d. d\<lparr>td_kind := sort_record_fields (td_kind d)\<rparr>) (sort_key td_id types) \<rparr>"

definition try_new_schema ::
  "'q external_api \<Rightarrow> graph_limits \<Rightarrow> 'q unit_definition list \<Rightarrow> 'q type_definition list
     \<Rightarrow> schema_error + 'q graph_schema" where
  "try_new_schema R limits units types =
     and_then (validate_limits limits) (\<lambda>_.
     if length units > maximum_units limits then Inl (SE_LimitExceeded ''unit count'')
     else if length types > maximum_types limits then Inl (SE_LimitExceeded ''type count'')
     else let schema = canonical_schema limits units types in
     and_then (validate_units R schema) (\<lambda>_.
     and_then (validate_types R schema) (\<lambda>_.
     Inr schema)))"

section \<open>What an accepted schema is\<close>

definition type_resolves :: "'q graph_schema \<Rightarrow> graph_type_id \<Rightarrow> bool" where
  "type_resolves S i \<longleftrightarrow> i \<in> td_id ` set (gs_types S)"

definition unit_resolves :: "'q graph_schema \<Rightarrow> unit_id \<Rightarrow> bool" where
  "unit_resolves S i \<longleftrightarrow> i \<in> ud_id ` set (gs_units S)"

definition positive_bounded :: "'q external_api \<Rightarrow> graph_limits \<Rightarrow> 'q \<Rightarrow> bool" where
  "positive_bounded R l q \<longleftrightarrow>
     \<not> rq_is_zero R q \<and> \<not> rq_is_negative R q
     \<and> length (rq_numerator_text R q) \<le> maximum_rational_digits l
     \<and> length (rq_denominator_text R q) \<le> maximum_rational_digits l"

definition u32_within :: "u32 \<Rightarrow> nat \<Rightarrow> bool" where
  "u32_within v m \<longleftrightarrow> v \<noteq> 0 \<and> unat v \<le> m"

definition unit_ok :: "'q external_api \<Rightarrow> graph_limits \<Rightarrow> 'q unit_definition \<Rightarrow> bool" where
  "unit_ok R l u \<longleftrightarrow> ud_id u \<noteq> 0 \<and> valid_symbol (ud_symbol u) \<and> positive_bounded R l (ud_scale u)"

definition field_ok :: "'q graph_schema \<Rightarrow> record_field \<Rightarrow> bool" where
  "field_ok S f \<longleftrightarrow> rf_id f \<noteq> 0 \<and> valid_stable_name (rf_name f) \<and> type_resolves S (rf_value_type f)"

fun type_kind_ok :: "'q external_api \<Rightarrow> 'q graph_schema \<Rightarrow> 'q type_kind \<Rightarrow> bool" where
  "type_kind_ok R S TBoolean \<longleftrightarrow> True"
| "type_kind_ok R S TJobHandle \<longleftrightarrow> True"
| "type_kind_ok R S (TExactRational u) \<longleftrightarrow> unit_resolves S u"
| "type_kind_ok R S (TMeasurementInterval u) \<longleftrightarrow> unit_resolves S u"
| "type_kind_ok R S (TCanonicalI64 u q) \<longleftrightarrow> unit_resolves S u \<and> positive_bounded R (gs_limits S) q"
| "type_kind_ok R S (TCanonicalU64 u q) \<longleftrightarrow> unit_resolves S u \<and> positive_bounded R (gs_limits S) q"
| "type_kind_ok R S (TText n) \<longleftrightarrow> u32_within n (maximum_text_bytes (gs_limits S))"
| "type_kind_ok R S (TBytes n) \<longleftrightarrow> u32_within n (maximum_blob_bytes (gs_limits S))"
| "type_kind_ok R S (TArray e n) \<longleftrightarrow>
     type_resolves S e \<and> u32_within n (maximum_array_items (gs_limits S))"
| "type_kind_ok R S (TRecord fs) \<longleftrightarrow>
     length fs \<le> maximum_record_fields (gs_limits S) \<and> (\<forall>f \<in> set fs. field_ok S f)
     \<and> canonical_table rf_id fs \<and> distinct (map rf_name fs)"
| "type_kind_ok R S (TOption v) \<longleftrightarrow> type_resolves S v"
| "type_kind_ok R S (TResult a b) \<longleftrightarrow> type_resolves S a \<and> type_resolves S b"
| "type_kind_ok R S (TEvent p c) \<longleftrightarrow> type_resolves S p \<and> c \<noteq> 0"
| "type_kind_ok R S (TStream s c n) \<longleftrightarrow>
     type_resolves S s \<and> c \<noteq> 0 \<and> u32_within n (maximum_stream_capacity (gs_limits S))"
| "type_kind_ok R S (TResourceHandle c) \<longleftrightarrow> c \<noteq> 0"

definition type_ok :: "'q external_api \<Rightarrow> 'q graph_schema \<Rightarrow> 'q type_definition \<Rightarrow> bool" where
  "type_ok R S d \<longleftrightarrow>
     td_id d \<noteq> 0 \<and> valid_stable_name (td_name d) \<and> type_kind_ok R S (td_kind d)"

definition type_references :: "'q graph_schema \<Rightarrow> (graph_type_id \<times> graph_type_id) set" where
  "type_references S =
     {(a, b). \<exists>d \<in> set (gs_types S). a = td_id d \<and> b \<in> set (referenced_types (td_kind d))}"

definition schema_wf :: "'q external_api \<Rightarrow> 'q graph_schema \<Rightarrow> bool" where
  "schema_wf R S \<longleftrightarrow>
     0 \<notin> set (limit_values (gs_limits S))
     \<and> length (gs_units S) \<le> maximum_units (gs_limits S)
     \<and> length (gs_types S) \<le> maximum_types (gs_limits S)
     \<and> (\<forall>u \<in> set (gs_units S). unit_ok R (gs_limits S) u)
     \<and> canonical_table ud_id (gs_units S) \<and> distinct (map ud_symbol (gs_units S))
     \<and> (\<forall>d \<in> set (gs_types S). type_ok R S d)
     \<and> canonical_table td_id (gs_types S) \<and> distinct (map td_name (gs_types S))
     \<and> acyclic (type_references S)"

section \<open>The validators decide it\<close>

lemma value_type_lookup: "value_type S i = lookup_by_key i td_id (gs_types S)"
  by (simp add: value_type_def type_index_def lookup_by_key_def)

lemma type_index_Some:
  "type_index S i = Some j \<Longrightarrow> j < length (gs_types S) \<and> td_id (gs_types S ! j) = i"
  unfolding type_index_def by (rule binary_search_sound)

lemma type_index_None_iff:
  "sorted (map td_id (gs_types S)) \<Longrightarrow> type_index S i = None \<longleftrightarrow> \<not> type_resolves S i"
  using lookup_by_key_None_iff[of td_id "gs_types S" i]
  by (simp add: type_index_def lookup_by_key_def type_resolves_def)

lemma require_type_ok_iff:
  assumes "sorted (map td_id (gs_types S))"
  shows "(\<exists>j. require_type S i = Inr j) \<longleftrightarrow> type_resolves S i"
  using type_index_None_iff[OF assms, of i] by (cases "type_index S i") (auto simp: require_type_def)

lemma require_unit_ok_iff:
  assumes "sorted (map ud_id (gs_units S))"
  shows "require_unit S u = Inr () \<longleftrightarrow> unit_resolves S u"
  using lookup_by_key_None_iff[OF assms]
  by (simp add: require_unit_def schema_unit_def unit_resolves_def)

lemma validate_u32_limit_ok: "validate_u32_limit v m name = Inr () \<longleftrightarrow> u32_within v m"
  by (auto simp: validate_u32_limit_def u32_within_def)

lemma validate_rational_magnitude_ok:
  "validate_rational_magnitude R q m = Inr () \<longleftrightarrow>
     length (rq_numerator_text R q) \<le> m \<and> length (rq_denominator_text R q) \<le> m"
  by (auto simp: validate_rational_magnitude_def)

lemma ex_unit: "(\<exists>x :: unit. P x) \<longleftrightarrow> P ()"
  by (metis old.unit.exhaust)

interpretation unit_scan: unique_scan "validate_unit_step R l" ud_id ud_symbol "unit_ok R l"
  for R :: "'q external_api" and l
  by unfold_locales
    (auto simp: validate_unit_step_def unit_ok_def positive_bounded_def
      validate_rational_magnitude_ok ex_unit split: if_splits)

interpretation field_scan: unique_scan "validate_field_step S" rf_id rf_name
  "\<lambda>f. rf_id f \<noteq> 0 \<and> valid_stable_name (rf_name f) \<and> is_ok (require_type S (rf_value_type f))"
  for S :: "'q graph_schema"
  by unfold_locales (auto simp: validate_field_step_def is_ok_iff split: if_splits)

interpretation type_scan: unique_scan "validate_type_step R S" td_id td_name
  "\<lambda>d. td_id d \<noteq> 0 \<and> valid_stable_name (td_name d)
      \<and> validate_type_kind R S (td_id d) (td_kind d) = Inr ()"
  for R :: "'q external_api" and S
  by unfold_locales (auto simp: validate_type_step_def ex_unit split: if_splits)

fun kind_sorted :: "'q type_kind \<Rightarrow> bool" where
  "kind_sorted (TRecord fs) \<longleftrightarrow> sorted (map rf_id fs)"
| "kind_sorted k \<longleftrightarrow> True"

definition schema_sorted :: "'q graph_schema \<Rightarrow> bool" where
  "schema_sorted S \<longleftrightarrow> sorted (map ud_id (gs_units S)) \<and> sorted (map td_id (gs_types S))
     \<and> (\<forall>d \<in> set (gs_types S). kind_sorted (td_kind d))"

lemma schema_sorted_canonical: "schema_sorted (canonical_schema l us ts)"
proof -
  have "kind_sorted (sort_record_fields k)" for k :: "'q type_kind"
    by (cases k) auto
  then show ?thesis by (auto simp: schema_sorted_def canonical_schema_def comp_def)
qed

lemma validate_type_kind_ok_iff:
  assumes "schema_sorted S" and "kind_sorted k"
  shows "validate_type_kind R S i k = Inr () \<longleftrightarrow> type_kind_ok R S k"
proof -
  have types: "(\<exists>j. require_type S r = Inr j) \<longleftrightarrow> type_resolves S r" for r
    using assms(1) require_type_ok_iff by (auto simp: schema_sorted_def)
  have units: "require_unit S u = Inr () \<longleftrightarrow> unit_resolves S u" for u
    using assms(1) require_unit_ok_iff by (auto simp: schema_sorted_def)
  have lattice: "validate_lattice R S i u q = Inr () \<longleftrightarrow>
    unit_resolves S u \<and> positive_bounded R (gs_limits S) q" for u q
    by (auto simp: validate_lattice_def units ex_unit positive_bounded_def
        validate_rational_magnitude_ok split: if_splits)
  show ?thesis
  proof (cases k)
    case (TRecord fs)
    with assms(2) have "sorted (map rf_id fs)" by simp
    from field_scan.scan_then_ok_iff[OF this, of S] TRecord show ?thesis
      by (auto simp: field_ok_def is_ok_iff types)
  qed (auto simp: types units lattice validate_u32_limit_ok ex_unit)
qed

section \<open>The search rejects every cyclic reference\<close>

definition type_succs :: "'q graph_schema \<Rightarrow> nat \<Rightarrow> nat set" where
  "type_succs S i = {j. \<exists>r \<in> set (referenced_types (td_kind (gs_types S ! i))). type_index S r = Some j}"

lemma finite_type_succs: "finite (type_succs S i)"
proof -
  have "type_succs S i \<subseteq> (\<lambda>r. the (type_index S r)) ` set (referenced_types (td_kind (gs_types S ! i)))"
    by (force simp: type_succs_def)
  then show ?thesis by (rule finite_subset) simp
qed

lemma visit_type_post:
  "visit_type S i d st = Inr st' \<Longrightarrow> black_ranked (type_succs S) st \<Longrightarrow>
     length st' = length st \<and> black_ranked (type_succs S) st' \<and> insert i (black st) \<subseteq> black st'"
  and visit_references_post:
  "visit_references S rs d st = Inr st' \<Longrightarrow> black_ranked (type_succs S) st \<Longrightarrow>
     length st' = length st \<and> black_ranked (type_succs S) st' \<and> black st \<subseteq> black st'
     \<and> (\<forall>r \<in> set rs. \<exists>j. type_index S r = Some j \<and> j \<in> black st')"
proof (induction S i d st and S rs d st arbitrary: st' and st' rule: visit_type_visit_references.induct)
  case (1 S i depth states)
  show ?case
  proof (cases "states ! i = 2")
    case True
    with 1(2,3) show ?thesis
      by (auto simp: visit_type.simps[of S i] black_def split: if_splits)
  next
    case False
    let ?refs = "referenced_types (td_kind (gs_types S ! i))"
    from 1(2) False obtain s where i: "i < length states"
      and s: "visit_references S ?refs (Suc depth) (states[i := 1]) = Inr s" and st': "st' = s[i := 2]"
      by (auto simp: visit_type.simps[of S i] split: if_splits)
    have "black_ranked (type_succs S) (states[i := 1])"
      using 1(3) False by (simp add: black_ranked_def black_update_grey)
    with s 1 False have post: "length s = length states" "black_ranked (type_succs S) s"
      "black states \<subseteq> black s" "\<forall>r \<in> set ?refs. \<exists>j. type_index S r = Some j \<and> j \<in> black s"
      by (auto simp: visit_type.simps[of S i] black_update_grey split: if_splits)
    then have succs: "type_succs S i \<subseteq> black s" by (auto simp: type_succs_def)
    have "black_ranked (type_succs S) (s[i := 2])"
    proof (cases "s ! i = 2")
      case True
      then have "s[i := 2] = s" by (metis list_update_id)
      with post show ?thesis by simp
    next
      case False
      then show ?thesis using black_ranked_finish[OF post(2) _ False succs finite_type_succs] i post
        by simp
    qed
    with post i st' show ?thesis by (auto simp: black_update_black)
  qed
next
  case (2 S depth states)
  then show ?case by simp
next
  case (3 S r rs depth states)
  then show ?case by (fastforce simp: require_type_def)
qed

interpretation type_dfs: colour_dfs "length (gs_types S)" "type_succs S"
  "\<lambda>states i. visit_type S i 1 states" for S :: "'q graph_schema"
  by unfold_locales (drule visit_type_post, assumption, simp)

lemma referenced_types_resolve:
  "type_kind_ok R S k \<Longrightarrow> r \<in> set (referenced_types k) \<Longrightarrow> type_resolves S r"
  by (cases k) (auto simp: field_ok_def)

lemma type_references_ranked:
  assumes canon: "canonical_table td_id (gs_types S)"
    and ok: "\<forall>d \<in> set (gs_types S). type_ok R S d"
    and rank: "\<forall>i < length (gs_types S). \<forall>j \<in> type_succs S i. j < length (gs_types S) \<and> rank j < (rank i :: nat)"
  shows "type_references S \<subseteq> (measure (\<lambda>r. rank (the (type_index S r))))\<inverse>"
proof
  fix ab assume "ab \<in> type_references S"
  then obtain d b where d: "d \<in> set (gs_types S)" and ab: "ab = (td_id d, b)"
    and b: "b \<in> set (referenced_types (td_kind d))" by (auto simp: type_references_def)
  from d have "type_resolves S (td_id d)" by (simp add: type_resolves_def)
  then obtain i where i: "type_index S (td_id d) = Some i"
    using type_index_None_iff[of S "td_id d"] canon by (auto simp: canonical_table_def)
  from type_index_Some[OF i] have "i < length (gs_types S)" and di: "gs_types S ! i = d"
    using canonical_table_key_inj[OF canon, of "gs_types S ! i" d] d by auto
  from ok d have "type_kind_ok R S (td_kind d)" by (auto simp: type_ok_def)
  then have "type_resolves S b" using b by (rule referenced_types_resolve)
  then obtain j where j: "type_index S b = Some j"
    using type_index_None_iff[of S b] canon by (auto simp: canonical_table_def)
  then have "j \<in> type_succs S i" using b di by (auto simp: type_succs_def)
  with rank \<open>i < _\<close> i j show "ab \<in> (measure (\<lambda>r. rank (the (type_index S r))))\<inverse>"
    by (auto simp: ab)
qed

lemma schema_references_acyclic:
  assumes "canonical_table td_id (gs_types S)" and "\<forall>d \<in> set (gs_types S). type_ok R S d"
    and run: "try_fold (\<lambda>states i. visit_type S i 1 states)
         (replicate (length (gs_types S)) 0) [0..<length (gs_types S)] = Inr states"
  shows "acyclic (type_references S)"
proof -
  from type_dfs.search_ranked[OF run] obtain rank :: "nat \<Rightarrow> nat" where
    "\<forall>i < length (gs_types S). \<forall>j \<in> type_succs S i. j < length (gs_types S) \<and> rank j < rank i"
    by blast
  from type_references_ranked[OF assms(1,2) this] show ?thesis
    by (rule acyclic_subset[rotated]) (simp add: acyclic_converse wf_acyclic)
qed

lemma schema_validators:
  assumes "schema_sorted S"
  shows "validate_units R S = Inr () \<longleftrightarrow>
      (\<forall>u \<in> set (gs_units S). unit_ok R (gs_limits S) u)
      \<and> canonical_table ud_id (gs_units S) \<and> distinct (map ud_symbol (gs_units S))"
    and "is_ok (try_fold (validate_type_step R S) ({}, None) (gs_types S)) \<longleftrightarrow>
      (\<forall>d \<in> set (gs_types S). type_ok R S d)
      \<and> canonical_table td_id (gs_types S) \<and> distinct (map td_name (gs_types S))"
proof -
  show "validate_units R S = Inr () \<longleftrightarrow>
      (\<forall>u \<in> set (gs_units S). unit_ok R (gs_limits S) u)
      \<and> canonical_table ud_id (gs_units S) \<and> distinct (map ud_symbol (gs_units S))"
    unfolding validate_units_def
    by (rule unit_scan.scan_then_ok_iff) (use assms in \<open>simp add: schema_sorted_def\<close>)
  have "type_ok R S d \<longleftrightarrow> td_id d \<noteq> 0 \<and> valid_stable_name (td_name d)
      \<and> validate_type_kind R S (td_id d) (td_kind d) = Inr ()" if "d \<in> set (gs_types S)" for d
    using assms that validate_type_kind_ok_iff[OF assms, of "td_kind d"]
    by (auto simp: type_ok_def schema_sorted_def)
  then show "is_ok (try_fold (validate_type_step R S) ({}, None) (gs_types S)) \<longleftrightarrow>
      (\<forall>d \<in> set (gs_types S). type_ok R S d)
      \<and> canonical_table td_id (gs_types S) \<and> distinct (map td_name (gs_types S))"
    using type_scan.scan_ok_iff[of "gs_types S" R S] assms by (auto simp: schema_sorted_def)
qed

lemma validate_limits_ok [simp]:
  "validate_limits l = Inr u \<longleftrightarrow> 0 \<notin> set (limit_values l)"
  by (auto simp: validate_limits_def)

lemma try_new_schema_Inr:
  "try_new_schema R l us ts = Inr S \<longleftrightarrow>
     S = canonical_schema l us ts \<and> 0 \<notin> set (limit_values l)
     \<and> length us \<le> maximum_units l \<and> length ts \<le> maximum_types l
     \<and> validate_units R S = Inr () \<and> validate_types R S = Inr ()"
  by (auto simp: try_new_schema_def Let_def ex_unit not_less split: if_splits)

lemma canonical_schema_simps [simp]:
  "gs_limits (canonical_schema l us ts) = l"
  "gs_units (canonical_schema l us ts) = sort_key ud_id us"
  "length (gs_types (canonical_schema l us ts)) = length ts"
  by (simp_all add: canonical_schema_def)

lemma try_new_schema_sorted: "try_new_schema R l us ts = Inr S \<Longrightarrow> schema_sorted S"
  by (simp add: try_new_schema_Inr schema_sorted_canonical)

lemma try_new_schema_wf:
  assumes "try_new_schema R l us ts = Inr S"
  shows "schema_wf R S"
proof -
  from assms have S: "S = canonical_schema l us ts" and units: "validate_units R S = Inr ()"
    and types: "validate_types R S = Inr ()"
    and counts: "0 \<notin> set (limit_values l)" "length us \<le> maximum_units l" "length ts \<le> maximum_types l"
    by (auto simp: try_new_schema_Inr)
  note sorted = try_new_schema_sorted[OF assms]
  from types obtain states where
    scan: "is_ok (try_fold (validate_type_step R S) ({}, None) (gs_types S))"
    and run: "try_fold (\<lambda>states i. visit_type S i 1 states)
         (replicate (length (gs_types S)) 0) [0..<length (gs_types S)] = Inr states"
    by (auto simp: validate_types_def is_ok_iff)
  note validated = schema_validators(1)[OF sorted, THEN iffD1, OF units]
    schema_validators(2)[OF sorted, THEN iffD1, OF scan]
  with schema_references_acyclic[OF _ _ run] have "acyclic (type_references S)" by blast
  with validated counts show ?thesis by (simp add: schema_wf_def S)
qed

lemma try_new_schema_unit:
  assumes "try_new_schema R l us ts = Inr S" and "u \<in> set us"
  shows "schema_unit S (ud_id u) = Some u"
proof -
  have "canonical_table ud_id (gs_units S)" and "set (gs_units S) = set us"
    using try_new_schema_wf[OF assms(1)] assms(1) by (auto simp: schema_wf_def try_new_schema_Inr)
  with assms(2) show ?thesis by (simp add: schema_unit_def lookup_by_key_iff)
qed

lemma set_gs_types_canonical:
  "set (gs_types (canonical_schema l us ts)) =
     (\<lambda>d. d\<lparr>td_kind := sort_record_fields (td_kind d)\<rparr>) ` set ts"
  by (simp add: canonical_schema_def)

lemma value_type_iff:
  "schema_wf R S \<Longrightarrow> value_type S i = Some d \<longleftrightarrow> d \<in> set (gs_types S) \<and> td_id d = i"
  unfolding value_type_lookup by (rule lookup_by_key_iff) (simp add: schema_wf_def)

lemma try_new_schema_type:
  assumes "try_new_schema R l us ts = Inr S" and "d \<in> set ts"
  shows "value_type S (td_id d) = Some (d\<lparr>td_kind := sort_record_fields (td_kind d)\<rparr>)"
  using assms value_type_iff[OF try_new_schema_wf[OF assms(1)]]
  by (auto simp: try_new_schema_Inr set_gs_types_canonical)

text \<open>An accepted schema is a fixed point of the canonicalisation.\<close>

lemma canonical_schema_fixed:
  assumes "schema_wf R S"
  shows "canonical_schema (gs_limits S) (gs_units S) (gs_types S) = S"
proof -
  have fix_kind: "sort_record_fields k = k" if "type_kind_ok R S k" for k
    using that by (cases k) (auto simp: canonical_table_sort_key)
  have "map (\<lambda>d. d\<lparr>td_kind := sort_record_fields (td_kind d)\<rparr>) (gs_types S) = gs_types S"
    using assms fix_kind by (intro map_idI) (auto simp: schema_wf_def type_ok_def)
  then show ?thesis
    using assms by (simp add: canonical_schema_def schema_wf_def canonical_table_sort_key)
qed

lemma try_new_schema_again:
  assumes "try_new_schema R l us ts = Inr S"
  shows "try_new_schema R (gs_limits S) (gs_units S) (gs_types S) = Inr S"
  using canonical_schema_fixed[OF try_new_schema_wf[OF assms]] assms
  by (auto simp: try_new_schema_Inr)

section \<open>No slice index is out of range\<close>

lemma visit_type_in_range:
  "i < length (gs_types S) \<Longrightarrow> length st = length (gs_types S) \<Longrightarrow>
     visit_type S i d st \<noteq> Inl SE_IndexPanic
     \<and> (\<forall>st'. visit_type S i d st = Inr st' \<longrightarrow> length st' = length (gs_types S))"
  and visit_references_in_range:
  "length st = length (gs_types S) \<Longrightarrow>
     visit_references S rs d st \<noteq> Inl SE_IndexPanic
     \<and> (\<forall>st'. visit_references S rs d st = Inr st' \<longrightarrow> length st' = length (gs_types S))"
proof (induction S i d st and S rs d st rule: visit_type_visit_references.induct)
  case (1 S i depth states)
  then show ?case by (auto simp: visit_type.simps[of S i] split: if_splits)
next
  case (2 S depth states)
  then show ?case by simp
next
  case (3 S r rs depth states)
  show ?case
  proof (cases "type_index S r")
    case (Some j)
    with type_index_Some[OF Some] 3 show ?thesis by (auto simp: require_type_def)
  qed (auto simp: require_type_def)
qed

lemma validate_type_kind_no_panic: "validate_type_kind R S i k \<noteq> Inl SE_IndexPanic"
proof -
  have fold: "try_fold (validate_field_step S) st fs \<noteq> Inl SE_IndexPanic" for st fs
  proof
    assume "try_fold (validate_field_step S) st fs = Inl SE_IndexPanic"
    from try_fold_Inl[OF this, of "\<lambda>_. True"] show False
      by (auto simp: validate_field_step_def require_type_def split: if_splits)
  qed
  show ?thesis
    by (cases k) (auto simp: fold require_type_def require_unit_def validate_u32_limit_def
        validate_lattice_def validate_rational_magnitude_def split: if_splits)
qed

lemma validate_units_no_panic: "validate_units R S \<noteq> Inl SE_IndexPanic"
proof
  assume "validate_units R S = Inl SE_IndexPanic"
  then have "try_fold (validate_unit_step R (gs_limits S)) ({}, None) (gs_units S) = Inl SE_IndexPanic"
    by (simp add: validate_units_def)
  from try_fold_Inl[OF this, of "\<lambda>_. True"] show False
    by (auto simp: validate_unit_step_def validate_rational_magnitude_def split: if_splits)
qed

lemma validate_types_no_panic: "validate_types R S \<noteq> Inl SE_IndexPanic"
proof
  assume "validate_types R S = Inl SE_IndexPanic"
  then consider
      "try_fold (validate_type_step R S) ({}, None) (gs_types S) = Inl SE_IndexPanic"
    | "try_fold (\<lambda>states i. visit_type S i 1 states)
         (replicate (length (gs_types S)) 0) [0..<length (gs_types S)] = Inl SE_IndexPanic"
    by (auto simp: validate_types_def)
  then show False
  proof cases
    case 1
    from try_fold_Inl[OF this, of "\<lambda>_. True"] show False
      by (auto simp: validate_type_step_def validate_type_kind_no_panic split: if_splits)
  next
    case 2
    from try_fold_Inl[OF this, of "\<lambda>st. length st = length (gs_types S)"] show False
      using visit_type_in_range[of _ S _ 1] by auto
  qed
qed

section \<open>Concrete schemas\<close>

text \<open>
  A chain of three types, \<^verbatim>\<open>outer = Option<middle>\<close> and
  \<^verbatim>\<open>middle = Option<leaf>\<close>, numbered from the leaf up or from the outer type
  down, under a policy that admits depth 2.
\<close>

definition depth_two_limits :: graph_limits where
  "depth_two_limits = interactive_limits\<lparr>maximum_value_depth := 2\<rparr>"

definition example_type :: "u32 \<Rightarrow> string \<Rightarrow> 'q type_kind \<Rightarrow> 'q type_definition" where
  "example_type i n k = \<lparr>td_id = i, td_name = str n, td_kind = k\<rparr>"

definition chain_up :: "'q type_definition list" where
  "chain_up = [example_type 1 ''leaf'' TBoolean, example_type 2 ''middle'' (TOption 1),
     example_type 3 ''outer'' (TOption 2)]"

definition chain_down :: "'q type_definition list" where
  "chain_down = [example_type 1 ''outer'' (TOption 2), example_type 2 ''middle'' (TOption 3),
     example_type 3 ''leaf'' TBoolean]"

lemmas evaluate_names = valid_stable_name_def str_def is_ascii_alphabetic_def is_ascii_digit_def
  is_ascii_alphanumeric_def

lemmas evaluate_limits = limit_values_def interactive_limits_def depth_two_limits_def

lemmas evaluate_types = validate_type_step_def require_type_def type_index_def
  binary_search_by_key_def bsearch_loop_step bsearch_loop_done example_type_def

lemma canonical_chains:
  "canonical_schema depth_two_limits [] chain_up =
     \<lparr>gs_limits = depth_two_limits, gs_units = [], gs_types = chain_up\<rparr>"
  "canonical_schema depth_two_limits [] chain_down =
     \<lparr>gs_limits = depth_two_limits, gs_units = [], gs_types = chain_down\<rparr>"
  by (simp_all add: canonical_schema_def chain_up_def chain_down_def example_type_def)

lemma chain_up_visits:
  fixes S :: "'q graph_schema"
  assumes "S = \<lparr>gs_limits = depth_two_limits, gs_units = [], gs_types = chain_up\<rparr>"
  shows "visit_type S 0 1 [0, 0, 0] = Inr [2, 0, 0]"
    and "visit_type S 1 1 [2, 0, 0] = Inr [2, 2, 0]"
    and "visit_type S 2 1 [2, 2, 0] = Inr [2, 2, 2]"
  by (simp_all add: assms chain_up_def visit_type.simps evaluate_types evaluate_limits ok_or_def
      cong: and_then_weak_cong)

lemma chain_scans:
  fixes S :: "'q graph_schema"
  assumes "S = \<lparr>gs_limits = depth_two_limits, gs_units = [], gs_types = ts\<rparr>"
    and "ts = chain_up \<or> ts = chain_down"
  shows "is_ok (try_fold (validate_type_step R S) ({}, None) (gs_types S))"
  using assms(2) by (elim disjE)
    (simp_all add: assms(1) chain_up_def chain_down_def evaluate_types evaluate_names ok_or_def
      cong: and_then_weak_cong)

lemma chain_up_accepted:
  "try_new_schema R depth_two_limits [] chain_up =
     Inr \<lparr>gs_limits = depth_two_limits, gs_units = [], gs_types = chain_up\<rparr>"
proof -
  let ?S = "\<lparr>gs_limits = depth_two_limits, gs_units = [], gs_types = chain_up\<rparr>"
  have "validate_types R ?S = Inr ()"
    using chain_scans[of ?S chain_up R] chain_up_visits[of ?S]
    by (auto simp: validate_types_def is_ok_iff chain_up_def upt_rec numeral_2_eq_2 ex_unit)
  moreover have "validate_units R ?S = Inr ()" by (simp add: validate_units_def)
  ultimately show ?thesis
    by (simp add: try_new_schema_Inr canonical_chains) (simp add: evaluate_limits chain_up_def)
qed

section \<open>Properties of the registry\<close>

text \<open>
  C2. Every schema that \<^verbatim>\<open>GraphSchema::try_new\<close> accepts is well formed:
  units and types are tables in increasing identifier order without duplicates, names and
  symbols are distinct and valid, scales and quanta are positive and within the digit limit,
  every reference resolves and no type refers to itself through any chain of references. Each
  registered unit and type is found by its identifier, with record fields in identifier order.
\<close>

theorem schema_try_new_sound:
  assumes "try_new_schema R l us ts = Inr S"
  shows "schema_wf R S \<and> gs_limits S = l
    \<and> (\<forall>u \<in> set us. schema_unit S (ud_id u) = Some u)
    \<and> (\<forall>d \<in> set ts. value_type S (td_id d) = Some (d\<lparr>td_kind := sort_record_fields (td_kind d)\<rparr>))"
  using try_new_schema_wf[OF assms] try_new_schema_unit[OF assms] try_new_schema_type[OF assms] assms
  by (auto simp: try_new_schema_Inr)

theorem schema_try_new_sound_witness:
  "schema_wf rat_api \<lparr>gs_limits = depth_two_limits, gs_units = [], gs_types = chain_up\<rparr>"
  using schema_try_new_sound[OF chain_up_accepted[of rat_api]] by blast

text \<open>
  The order in which units and types are supplied is irrelevant: a
  permutation of an accepted registry is accepted and gives the same schema, and so does
  building an accepted schema again from its own tables.
\<close>

theorem schema_try_new_order_independent:
  assumes "try_new_schema R l us ts = Inr S" and "mset us' = mset us" and "mset ts' = mset ts"
  shows "try_new_schema R l us' ts' = Inr S
    \<and> try_new_schema R (gs_limits S) (gs_units S) (gs_types S) = Inr S"
proof -
  have S: "S = canonical_schema l us ts" using assms(1) by (simp add: try_new_schema_Inr)
  have wf: "schema_wf R S" by (rule try_new_schema_wf[OF assms(1)])
  then have "canonical_table ud_id (sort_key ud_id us)"
    by (simp add: schema_wf_def S)
  then have us: "sort_key ud_id us' = sort_key ud_id us" by (rule sort_key_permutation[OF assms(2)])
  have "map td_id (gs_types S) = map td_id (sort_key td_id ts)"
    by (simp add: S canonical_schema_def comp_def)
  then have "canonical_table td_id (sort_key td_id ts)"
    using wf by (simp add: schema_wf_def canonical_table_def)
  then have "sort_key td_id ts' = sort_key td_id ts" by (rule sort_key_permutation[OF assms(3)])
  with us have "canonical_schema l us' ts' = S"
    by (simp add: S canonical_schema_def)
  then show ?thesis
    using assms try_new_schema_again[OF assms(1)] mset_eq_length[OF assms(2)] mset_eq_length[OF assms(3)]
    by (simp add: try_new_schema_Inr)
qed

theorem schema_try_new_order_independent_witness:
  "try_new_schema rat_api depth_two_limits [] (rev chain_up) =
     Inr \<lparr>gs_limits = depth_two_limits, gs_units = [], gs_types = chain_up\<rparr>"
  using schema_try_new_order_independent[OF chain_up_accepted[of rat_api], of "[]" "rev chain_up"]
  by simp

text \<open>
  No slice index of the schema construction is out of range, whatever
  registry is supplied: the colour and type tables are only indexed at resolved positions.
\<close>

theorem schema_try_new_no_panic: "try_new_schema R l us ts \<noteq> Inl SE_IndexPanic"
  by (auto simp: try_new_schema_def Let_def validate_limits_def validate_units_no_panic
      validate_types_no_panic split: if_splits)

text \<open>
  C40. The nesting policy is enforced along references to types that are not yet
  finished only: the same chain of three nested types is accepted under a depth limit of two
  when its identifiers grow from the leaf, and rejected when they grow from the outer type.
\<close>

theorem schema_depth_depends_on_numbering:
  "try_new_schema R depth_two_limits [] chain_up =
     Inr \<lparr>gs_limits = depth_two_limits, gs_units = [], gs_types = chain_up\<rparr>
   \<and> try_new_schema R depth_two_limits [] chain_down = Inl (SE_TypeDepthExceeded 3)"
proof
  let ?S = "\<lparr>gs_limits = depth_two_limits, gs_units = [], gs_types = chain_down\<rparr>"
  have "visit_type ?S 0 1 [0, 0, 0] = Inl (SE_TypeDepthExceeded 3)"
    by (simp add: chain_down_def visit_type.simps evaluate_types evaluate_limits ok_or_def
        cong: and_then_weak_cong)
  then have "validate_types R ?S = Inl (SE_TypeDepthExceeded 3)"
    using chain_scans[of ?S chain_down R]
    by (auto simp: validate_types_def is_ok_iff chain_down_def upt_rec numeral_2_eq_2)
  then show "try_new_schema R depth_two_limits [] chain_down = Inl (SE_TypeDepthExceeded 3)"
    by (simp add: try_new_schema_def Let_def canonical_chains validate_units_def)
      (simp add: evaluate_limits chain_down_def)
qed (rule chain_up_accepted)

end
