(* ===== verification/Graph_Value.thy ===== *)
theory Graph_Value
  imports Graph_Schema
begin

text \<open>
  Typed graph literals of \<^verbatim>\<open>crates/alumina-interface-core/src/graph.rs\<close> and their
  validation against a schema. The checker \<open>validate_value\<close> is proved to decide the declarative
  typing relation \<open>has_type\<close> together with the depth and node budgets.
\<close>

section \<open>Data\<close>

text \<open>
  \<^verbatim>\<open>DeviceId\<close> is an array of 16 bytes and \<^verbatim>\<open>Digest\<close> one of 32; both are byte
  lists here, whose lengths matter to the wire codec only.
\<close>

type_synonym device_id = bytes
type_synonym digest = bytes

record resource_graph_handle =
  rh_device_id :: device_id
  rh_board_package_digest :: digest
  rh_class :: resource_class_id
  rh_resource_selector :: u32

record job_graph_handle =
  jh_device_id :: device_id
  jh_global_job_digest :: digest
  jh_partition_digest :: digest

text \<open>A \<^verbatim>\<open>RecordValueField\<close> is the pair of its field identifier and its value.\<close>

datatype 'q graph_value =
    VBoolean bool
  | VExactRational 'q
  | VMeasurementInterval 'q 'q
  | VCanonicalI64 i64
  | VCanonicalU64 u64
  | VText rust_str
  | VBytes bytes
  | VArray "'q graph_value list"
  | VRecord "(record_field_id \<times> 'q graph_value) list"
  | VOptionNone
  | VOptionSome "'q graph_value"
  | VResultOk "'q graph_value"
  | VResultError "'q graph_value"
  | VResourceHandle resource_graph_handle
  | VJobHandle job_graph_handle

fun value_kind :: "'q graph_value \<Rightarrow> graph_value_kind" where
  "value_kind (VBoolean _) = KBoolean"
| "value_kind (VExactRational _) = KExactRational"
| "value_kind (VMeasurementInterval _ _) = KMeasurementInterval"
| "value_kind (VCanonicalI64 _) = KCanonicalI64"
| "value_kind (VCanonicalU64 _) = KCanonicalU64"
| "value_kind (VText _) = KText"
| "value_kind (VBytes _) = KBytes"
| "value_kind (VArray _) = KArray"
| "value_kind (VRecord _) = KRecord"
| "value_kind VOptionNone = KOption"
| "value_kind (VOptionSome _) = KOption"
| "value_kind (VResultOk _) = KResult"
| "value_kind (VResultError _) = KResult"
| "value_kind (VResourceHandle _) = KResourceHandle"
| "value_kind (VJobHandle _) = KJobHandle"

record 'q typed_graph_value =
  tv_value_type :: graph_type_id
  tv_value :: "'q graph_value"

section \<open>Validation\<close>

definition device_id_is_zero :: "device_id \<Rightarrow> bool" where
  "device_id_is_zero d \<longleftrightarrow> (\<forall>b \<in> set d. b = 0)"

text \<open>
  \<^verbatim>\<open>validate_value_inner\<close>: the node budget is passed in and returned. The two other
  functions are its loops over array items and over record fields zipped with their values.
\<close>

function (sequential) validate_value_inner ::
    "'q external_api \<Rightarrow> 'q graph_schema \<Rightarrow> graph_type_id \<Rightarrow> 'q graph_value \<Rightarrow> nat \<Rightarrow> nat
      \<Rightarrow> schema_error + nat"
  and validate_items ::
    "'q external_api \<Rightarrow> 'q graph_schema \<Rightarrow> graph_type_id \<Rightarrow> 'q graph_value list \<Rightarrow> nat \<Rightarrow> nat
      \<Rightarrow> schema_error + nat"
  and validate_fields ::
    "'q external_api \<Rightarrow> 'q graph_schema \<Rightarrow> record_field list
      \<Rightarrow> (record_field_id \<times> 'q graph_value) list \<Rightarrow> nat \<Rightarrow> nat \<Rightarrow> schema_error + nat" where
  "validate_value_inner R S t v depth nodes0 =
     (if maximum_value_depth (gs_limits S) < depth then Inl SE_ValueDepthExceeded
      else and_then (ok_or SE_ValueNodeLimitExceeded (checked_add_usize nodes0 1)) (\<lambda>nodes.
      if maximum_value_nodes (gs_limits S) < nodes then Inl SE_ValueNodeLimitExceeded
      else and_then (ok_or (SE_UnknownType t) (value_type S t)) (\<lambda>definition.
      let mismatch = Inl (SE_TypeMismatch t (value_kind v)) in
      case td_kind definition of
        TBoolean \<Rightarrow> (case v of VBoolean _ \<Rightarrow> Inr nodes | _ \<Rightarrow> mismatch)
      | TCanonicalI64 _ _ \<Rightarrow> (case v of VCanonicalI64 _ \<Rightarrow> Inr nodes | _ \<Rightarrow> mismatch)
      | TCanonicalU64 _ _ \<Rightarrow> (case v of VCanonicalU64 _ \<Rightarrow> Inr nodes | _ \<Rightarrow> mismatch)
      | TExactRational _ \<Rightarrow> (case v of
          VExactRational q \<Rightarrow>
            and_then (validate_rational_magnitude R q (maximum_rational_digits (gs_limits S)))
              (\<lambda>_. Inr nodes)
        | _ \<Rightarrow> mismatch)
      | TMeasurementInterval _ \<Rightarrow> (case v of
          VMeasurementInterval lower upper \<Rightarrow>
            if rq_gt R lower upper then Inl SE_ReversedMeasurement
            else and_then (validate_rational_magnitude R lower (maximum_rational_digits (gs_limits S)))
              (\<lambda>_. and_then (validate_rational_magnitude R upper (maximum_rational_digits (gs_limits S)))
              (\<lambda>_. Inr nodes))
        | _ \<Rightarrow> mismatch)
      | TText maximum \<Rightarrow> (case v of
          VText text \<Rightarrow>
            if length text > unat maximum \<or> length text > maximum_text_bytes (gs_limits S)
            then Inl (SE_LimitExceeded ''text literal'') else Inr nodes
        | _ \<Rightarrow> mismatch)
      | TBytes maximum \<Rightarrow> (case v of
          VBytes bs \<Rightarrow>
            if length bs > unat maximum \<or> length bs > maximum_blob_bytes (gs_limits S)
            then Inl (SE_LimitExceeded ''byte literal'') else Inr nodes
        | _ \<Rightarrow> mismatch)
      | TArray element maximum \<Rightarrow> (case v of
          VArray items \<Rightarrow>
            if length items > unat maximum \<or> length items > maximum_array_items (gs_limits S)
            then Inl (SE_LimitExceeded ''array literal'')
            else validate_items R S element items (Suc depth) nodes
        | _ \<Rightarrow> mismatch)
      | TRecord fs \<Rightarrow> (case v of
          VRecord vs \<Rightarrow>
            if length fs \<noteq> length vs then Inl SE_RecordShape
            else validate_fields R S fs vs (Suc depth) nodes
        | _ \<Rightarrow> mismatch)
      | TOption inner \<Rightarrow> (case v of
          VOptionNone \<Rightarrow> Inr nodes
        | VOptionSome x \<Rightarrow> validate_value_inner R S inner x (Suc depth) nodes
        | _ \<Rightarrow> mismatch)
      | TResult ok error \<Rightarrow> (case v of
          VResultOk x \<Rightarrow> validate_value_inner R S ok x (Suc depth) nodes
        | VResultError x \<Rightarrow> validate_value_inner R S error x (Suc depth) nodes
        | _ \<Rightarrow> mismatch)
      | TResourceHandle class \<Rightarrow> (case v of
          VResourceHandle h \<Rightarrow>
            if rh_class h \<noteq> class \<or> device_id_is_zero (rh_device_id h)
               \<or> ext_digest_is_zero R (rh_board_package_digest h)
            then Inl SE_InvalidHandle else Inr nodes
        | _ \<Rightarrow> mismatch)
      | TJobHandle \<Rightarrow> (case v of
          VJobHandle h \<Rightarrow>
            if device_id_is_zero (jh_device_id h) \<or> ext_digest_is_zero R (jh_global_job_digest h)
               \<or> ext_digest_is_zero R (jh_partition_digest h)
            then Inl SE_InvalidHandle else Inr nodes
        | _ \<Rightarrow> mismatch)
      | TEvent _ _ \<Rightarrow> Inl (SE_RuntimeOnlyType t)
      | TStream _ _ _ \<Rightarrow> Inl (SE_RuntimeOnlyType t))))"
| "validate_items R S element [] depth nodes = Inr nodes"
| "validate_items R S element (x # xs) depth nodes =
     and_then (validate_value_inner R S element x depth nodes)
       (\<lambda>nodes'. validate_items R S element xs depth nodes')"
| "validate_fields R S (f # fs) ((i, x) # vs) depth nodes =
     (if rf_id f \<noteq> i then Inl SE_RecordShape
      else and_then (validate_value_inner R S (rf_value_type f) x depth nodes)
        (\<lambda>nodes'. validate_fields R S fs vs depth nodes'))"
| "validate_fields R S [] vs depth nodes = Inr nodes"
| "validate_fields R S fs [] depth nodes = Inr nodes"
  by pat_completeness auto
termination
  by (relation "measure (\<lambda>x. case x of
        Inl (R, S, t, v, d, n) \<Rightarrow> size v
      | Inr (Inl (R, S, e, xs, d, n)) \<Rightarrow> size_list size xs
      | Inr (Inr (R, S, fs, vs, d, n)) \<Rightarrow> size_list (size_prod (\<lambda>_. 0) size) vs)") auto

declare validate_value_inner.simps(1) [simp del]

definition validate_value ::
  "'q external_api \<Rightarrow> 'q graph_schema \<Rightarrow> graph_type_id \<Rightarrow> 'q graph_value \<Rightarrow> schema_error + unit" where
  "validate_value R S t v = and_then (validate_value_inner R S t v 1 0) (\<lambda>_. Inr ())"

definition validate_typed_value ::
  "'q external_api \<Rightarrow> 'q graph_schema \<Rightarrow> 'q typed_graph_value \<Rightarrow> schema_error + unit" where
  "validate_typed_value R S tv = validate_value R S (tv_value_type tv) (tv_value tv)"

definition try_new_typed_value ::
  "'q external_api \<Rightarrow> 'q graph_schema \<Rightarrow> graph_type_id \<Rightarrow> 'q graph_value
     \<Rightarrow> schema_error + 'q typed_graph_value" where
  "try_new_typed_value R S t v =
     and_then (validate_value R S t v) (\<lambda>_. Inr \<lparr>tv_value_type = t, tv_value = v\<rparr>)"

section \<open>Typing\<close>

definition rational_fits :: "'q external_api \<Rightarrow> 'q graph_schema \<Rightarrow> 'q \<Rightarrow> bool" where
  "rational_fits R S q \<longleftrightarrow>
     length (rq_numerator_text R q) \<le> maximum_rational_digits (gs_limits S)
     \<and> length (rq_denominator_text R q) \<le> maximum_rational_digits (gs_limits S)"

text \<open>The values a type describes, one rule per literal form.\<close>

inductive has_type ::
  "'q external_api \<Rightarrow> 'q graph_schema \<Rightarrow> graph_type_id \<Rightarrow> 'q graph_value \<Rightarrow> bool"
  for R :: "'q external_api" and S :: "'q graph_schema" where
  boolean: "value_type S t = Some d \<Longrightarrow> td_kind d = TBoolean \<Longrightarrow> has_type R S t (VBoolean b)"
| exact_rational: "value_type S t = Some d \<Longrightarrow> td_kind d = TExactRational u \<Longrightarrow>
    rational_fits R S q \<Longrightarrow> has_type R S t (VExactRational q)"
| measurement: "value_type S t = Some d \<Longrightarrow> td_kind d = TMeasurementInterval u \<Longrightarrow>
    \<not> rq_gt R lo hi \<Longrightarrow> rational_fits R S lo \<Longrightarrow> rational_fits R S hi \<Longrightarrow>
    has_type R S t (VMeasurementInterval lo hi)"
| canonical_i64: "value_type S t = Some d \<Longrightarrow> td_kind d = TCanonicalI64 u q \<Longrightarrow>
    has_type R S t (VCanonicalI64 i)"
| canonical_u64: "value_type S t = Some d \<Longrightarrow> td_kind d = TCanonicalU64 u q \<Longrightarrow>
    has_type R S t (VCanonicalU64 n)"
| text_literal: "value_type S t = Some d \<Longrightarrow> td_kind d = TText m \<Longrightarrow> length s \<le> unat m \<Longrightarrow>
    length s \<le> maximum_text_bytes (gs_limits S) \<Longrightarrow> has_type R S t (VText s)"
| bytes_literal: "value_type S t = Some d \<Longrightarrow> td_kind d = TBytes m \<Longrightarrow> length s \<le> unat m \<Longrightarrow>
    length s \<le> maximum_blob_bytes (gs_limits S) \<Longrightarrow> has_type R S t (VBytes s)"
| array: "value_type S t = Some d \<Longrightarrow> td_kind d = TArray e m \<Longrightarrow> length xs \<le> unat m \<Longrightarrow>
    length xs \<le> maximum_array_items (gs_limits S) \<Longrightarrow> (\<forall>x \<in> set xs. has_type R S e x) \<Longrightarrow>
    has_type R S t (VArray xs)"
| record_literal: "value_type S t = Some d \<Longrightarrow> td_kind d = TRecord fs \<Longrightarrow>
    list_all2 (\<lambda>f iv. rf_id f = fst iv \<and> has_type R S (rf_value_type f) (snd iv)) fs vs \<Longrightarrow>
    has_type R S t (VRecord vs)"
| option_none: "value_type S t = Some d \<Longrightarrow> td_kind d = TOption e \<Longrightarrow> has_type R S t VOptionNone"
| option_some: "value_type S t = Some d \<Longrightarrow> td_kind d = TOption e \<Longrightarrow> has_type R S e x \<Longrightarrow>
    has_type R S t (VOptionSome x)"
| result_ok: "value_type S t = Some d \<Longrightarrow> td_kind d = TResult a b \<Longrightarrow> has_type R S a x \<Longrightarrow>
    has_type R S t (VResultOk x)"
| result_error: "value_type S t = Some d \<Longrightarrow> td_kind d = TResult a b \<Longrightarrow> has_type R S b x \<Longrightarrow>
    has_type R S t (VResultError x)"
| resource_handle: "value_type S t = Some d \<Longrightarrow> td_kind d = TResourceHandle (rh_class h) \<Longrightarrow>
    \<not> device_id_is_zero (rh_device_id h) \<Longrightarrow>
    \<not> ext_digest_is_zero R (rh_board_package_digest h) \<Longrightarrow> has_type R S t (VResourceHandle h)"
| job_handle: "value_type S t = Some d \<Longrightarrow> td_kind d = TJobHandle \<Longrightarrow>
    \<not> device_id_is_zero (jh_device_id j) \<Longrightarrow> \<not> ext_digest_is_zero R (jh_global_job_digest j) \<Longrightarrow>
    \<not> ext_digest_is_zero R (jh_partition_digest j) \<Longrightarrow> has_type R S t (VJobHandle j)"

inductive_simps has_type_simps [simp]:
  "has_type R S t (VBoolean b)"
  "has_type R S t (VExactRational q)"
  "has_type R S t (VMeasurementInterval lo hi)"
  "has_type R S t (VCanonicalI64 i)"
  "has_type R S t (VCanonicalU64 n)"
  "has_type R S t (VText s)"
  "has_type R S t (VBytes s)"
  "has_type R S t (VArray xs)"
  "has_type R S t (VRecord vs)"
  "has_type R S t VOptionNone"
  "has_type R S t (VOptionSome x)"
  "has_type R S t (VResultOk x)"
  "has_type R S t (VResultError x)"
  "has_type R S t (VResourceHandle h)"
  "has_type R S t (VJobHandle j)"

text \<open>Nesting depth and number of nodes of a literal.\<close>

fun value_depth :: "'q graph_value \<Rightarrow> nat" where
  "value_depth (VArray xs) = Suc (Max (insert 0 (value_depth ` set xs)))"
| "value_depth (VRecord vs) = Suc (Max (insert 0 ((\<lambda>iv. value_depth (snd iv)) ` set vs)))"
| "value_depth (VOptionSome x) = Suc (value_depth x)"
| "value_depth (VResultOk x) = Suc (value_depth x)"
| "value_depth (VResultError x) = Suc (value_depth x)"
| "value_depth _ = 1"

fun value_nodes :: "'q graph_value \<Rightarrow> nat" where
  "value_nodes (VArray xs) = Suc (\<Sum>x \<leftarrow> xs. value_nodes x)"
| "value_nodes (VRecord vs) = Suc (\<Sum>iv \<leftarrow> vs. value_nodes (snd iv))"
| "value_nodes (VOptionSome x) = Suc (value_nodes x)"
| "value_nodes (VResultOk x) = Suc (value_nodes x)"
| "value_nodes (VResultError x) = Suc (value_nodes x)"
| "value_nodes _ = 1"

definition node_bound :: "'q graph_schema \<Rightarrow> nat" where
  "node_bound S = min usize_max (maximum_value_nodes (gs_limits S))"

section \<open>The checker decides typing and the budgets\<close>

definition inner_decides :: "'q external_api \<Rightarrow> 'q graph_schema \<Rightarrow> 'q graph_value \<Rightarrow> bool" where
  "inner_decides R S v \<longleftrightarrow> (\<forall>t d n n'. validate_value_inner R S t v d n = Inr n' \<longleftrightarrow>
     has_type R S t v \<and> d + value_depth v \<le> Suc (maximum_value_depth (gs_limits S))
     \<and> n' = n + value_nodes v \<and> n' \<le> node_bound S)"

lemma value_nodes_positive: "0 < value_nodes v"
  by (cases v) auto

lemma value_depth_positive: "0 < value_depth v"
  by (cases v) auto

lemma validate_items_iff:
  assumes "\<forall>x \<in> set xs. inner_decides R S x"
  shows "validate_items R S e xs d n = Inr n' \<longleftrightarrow>
     (\<forall>x \<in> set xs. has_type R S e x \<and> d + value_depth x \<le> Suc (maximum_value_depth (gs_limits S)))
     \<and> n' = n + (\<Sum>x \<leftarrow> xs. value_nodes x) \<and> (xs \<noteq> [] \<longrightarrow> n' \<le> node_bound S)"
  using assms
proof (induction xs arbitrary: n)
  case (Cons x xs)
  then show ?case by (cases xs) (auto simp: inner_decides_def)
qed auto

lemma validate_fields_iff:
  assumes "\<forall>iv \<in> set vs. inner_decides R S (snd iv)" and "length fs = length vs"
  shows "validate_fields R S fs vs d n = Inr n' \<longleftrightarrow>
     list_all2 (\<lambda>f iv. rf_id f = fst iv \<and> has_type R S (rf_value_type f) (snd iv)) fs vs
     \<and> (\<forall>iv \<in> set vs. d + value_depth (snd iv) \<le> Suc (maximum_value_depth (gs_limits S)))
     \<and> n' = n + (\<Sum>iv \<leftarrow> vs. value_nodes (snd iv)) \<and> (vs \<noteq> [] \<longrightarrow> n' \<le> node_bound S)"
  using assms(2,1)
proof (induction fs vs arbitrary: n rule: list_induct2)
  case (Cons f fs iv vs)
  then show ?case by (cases iv; cases vs) (auto simp: inner_decides_def)
qed auto

lemma validate_rational_magnitude_fits:
  "validate_rational_magnitude R q (maximum_rational_digits (gs_limits S)) = Inr () \<longleftrightarrow> rational_fits R S q"
  by (simp add: validate_rational_magnitude_ok rational_fits_def)

lemma depth_of_children:
  assumes "finite A"
  shows "d + Suc (Max (insert 0 A)) \<le> Suc m \<longleftrightarrow> d \<le> m \<and> (\<forall>a \<in> A. Suc d + a \<le> Suc m)"
proof -
  have "Max (insert 0 A) \<le> m - d \<longleftrightarrow> (\<forall>a \<in> insert 0 A. a \<le> m - d)"
    using assms by (intro Max_le_iff) auto
  then show ?thesis by (cases "d \<le> m") auto
qed

lemma has_type_registered: "has_type R S t v \<Longrightarrow> \<exists>d. value_type S t = Some d"
  by (cases rule: has_type.cases) auto

text \<open>It is enough to look at registered types within the budgets.\<close>

lemma inner_decidesI:
  assumes "\<And>t D d n n'. value_type S t = Some D \<Longrightarrow> d \<le> maximum_value_depth (gs_limits S) \<Longrightarrow>
    Suc n \<le> node_bound S \<Longrightarrow> validate_value_inner R S t v d n = Inr n' \<longleftrightarrow>
     has_type R S t v \<and> d + value_depth v \<le> Suc (maximum_value_depth (gs_limits S))
     \<and> n' = n + value_nodes v \<and> n' \<le> node_bound S"
  shows "inner_decides R S v"
  unfolding inner_decides_def
proof (intro allI)
  fix t d n n'
  show "validate_value_inner R S t v d n = Inr n' \<longleftrightarrow>
     has_type R S t v \<and> d + value_depth v \<le> Suc (maximum_value_depth (gs_limits S))
     \<and> n' = n + value_nodes v \<and> n' \<le> node_bound S"
  proof (cases "d \<le> maximum_value_depth (gs_limits S) \<and> Suc n \<le> node_bound S \<and> value_type S t \<noteq> None")
    case True
    then show ?thesis using assms by blast
  next
    case False
    then have "\<not> (\<exists>n'. validate_value_inner R S t v d n = Inr n')"
      by (auto simp: validate_value_inner.simps(1) node_bound_def)
    moreover have "\<not> (has_type R S t v \<and> d + value_depth v \<le> Suc (maximum_value_depth (gs_limits S))
      \<and> n + value_nodes v \<le> node_bound S)"
      using False has_type_registered[of R S t v] value_depth_positive[of v] value_nodes_positive[of v]
      by auto
    ultimately show ?thesis by blast
  qed
qed

lemma inner_decides_wrapped:
  assumes "inner_decides R S x" and "v \<in> {VOptionSome x, VResultOk x, VResultError x}"
  shows "inner_decides R S v"
proof (rule inner_decidesI)
  fix t D d n n'
  assume "value_type S t = Some D" "d \<le> maximum_value_depth (gs_limits S)" "Suc n \<le> node_bound S"
  then show "validate_value_inner R S t v d n = Inr n' \<longleftrightarrow>
     has_type R S t v \<and> d + value_depth v \<le> Suc (maximum_value_depth (gs_limits S))
     \<and> n' = n + value_nodes v \<and> n' \<le> node_bound S"
    using assms by (cases "td_kind D")
      (auto simp: validate_value_inner.simps(1)[of _ _ t] Let_def node_bound_def inner_decides_def)
qed

lemma inner_decides: "inner_decides R S v"
proof (induction v)
  case (VArray xs)
  have depth: "d + value_depth (VArray xs) \<le> Suc m \<longleftrightarrow>
    d \<le> m \<and> (\<forall>x \<in> set xs. Suc d + value_depth x \<le> Suc m)" for d m
    using depth_of_children[of "value_depth ` set xs" d m] by simp
  note items = validate_items_iff[of xs R S] VArray
  show ?case
  proof (rule inner_decidesI)
    fix t D d n n'
    assume "value_type S t = Some D" "d \<le> maximum_value_depth (gs_limits S)" "Suc n \<le> node_bound S"
    then show "validate_value_inner R S t (VArray xs) d n = Inr n' \<longleftrightarrow>
      has_type R S t (VArray xs) \<and> d + value_depth (VArray xs) \<le> Suc (maximum_value_depth (gs_limits S))
      \<and> n' = n + value_nodes (VArray xs) \<and> n' \<le> node_bound S"
      unfolding depth using items
      by (cases "td_kind D") (auto simp: validate_value_inner.simps(1) Let_def node_bound_def)
  qed
next
  case (VRecord vs)
  have IH: "\<forall>iv \<in> set vs. inner_decides R S (snd iv)"
    using VRecord by (metis snds.intros)
  have depth: "d + value_depth (VRecord vs) \<le> Suc m \<longleftrightarrow>
    d \<le> m \<and> (\<forall>iv \<in> set vs. Suc d + value_depth (snd iv) \<le> Suc m)" for d m
    using depth_of_children[of "(\<lambda>iv. value_depth (snd iv)) ` set vs" d m] by simp
  show ?case
  proof (rule inner_decidesI)
    fix t D d n n'
    assume "value_type S t = Some D" "d \<le> maximum_value_depth (gs_limits S)" "Suc n \<le> node_bound S"
    then show "validate_value_inner R S t (VRecord vs) d n = Inr n' \<longleftrightarrow>
      has_type R S t (VRecord vs) \<and> d + value_depth (VRecord vs) \<le> Suc (maximum_value_depth (gs_limits S))
      \<and> n' = n + value_nodes (VRecord vs) \<and> n' \<le> node_bound S"
      unfolding depth using validate_fields_iff[OF IH]
      by (cases "td_kind D")
        (auto simp: validate_value_inner.simps(1) Let_def node_bound_def dest: list_all2_lengthD)
  qed
next
  case (VOptionSome x)
  then show ?case by (rule inner_decides_wrapped) simp
next
  case (VResultOk x)
  then show ?case by (rule inner_decides_wrapped) simp
next
  case (VResultError x)
  then show ?case by (rule inner_decides_wrapped) simp
qed (rule inner_decidesI, case_tac "td_kind D",
  auto simp: validate_value_inner.simps(1) Let_def node_bound_def validate_rational_magnitude_fits ex_unit)+

lemma validate_value_inner_iff:
  "validate_value_inner R S t v d n = Inr n' \<longleftrightarrow>
     has_type R S t v \<and> d + value_depth v \<le> Suc (maximum_value_depth (gs_limits S))
     \<and> n' = n + value_nodes v \<and> n' \<le> node_bound S"
  using inner_decides[of R S v] by (simp add: inner_decides_def)

lemma validate_value_iff:
  "validate_value R S t v = Inr u \<longleftrightarrow>
     has_type R S t v \<and> value_depth v \<le> maximum_value_depth (gs_limits S)
     \<and> value_nodes v \<le> node_bound S"
  by (auto simp: validate_value_def validate_value_inner_iff)

lemma try_new_typed_value_iff:
  "try_new_typed_value R S t v = Inr tv \<longleftrightarrow>
     tv = \<lparr>tv_value_type = t, tv_value = v\<rparr> \<and> validate_value R S t v = Inr ()"
  by (auto simp: try_new_typed_value_def ex_unit)

text \<open>On a well-typed literal only the two budgets can reject.\<close>

definition budget_error :: "schema_error \<Rightarrow> bool" where
  "budget_error e \<longleftrightarrow> e = SE_ValueDepthExceeded \<or> e = SE_ValueNodeLimitExceeded"

definition budget_only :: "'q external_api \<Rightarrow> 'q graph_schema \<Rightarrow> 'q graph_value \<Rightarrow> bool" where
  "budget_only R S v \<longleftrightarrow> (\<forall>t d n e. has_type R S t v \<longrightarrow>
     validate_value_inner R S t v d n = Inl e \<longrightarrow> budget_error e)"

lemma validate_items_budget:
  assumes "\<forall>x \<in> set xs. budget_only R S x \<and> has_type R S e x"
  shows "validate_items R S e xs d n = Inl err \<Longrightarrow> budget_error err"
  using assms by (induction xs arbitrary: n) (auto simp: budget_only_def)

lemma validate_fields_budget:
  assumes "\<forall>iv \<in> set vs. budget_only R S (snd iv)"
    and "list_all2 (\<lambda>f iv. rf_id f = fst iv \<and> has_type R S (rf_value_type f) (snd iv)) fs vs"
  shows "validate_fields R S fs vs d n = Inl err \<Longrightarrow> budget_error err"
  using assms(2,1)
proof (induction fs vs arbitrary: n rule: list_all2_induct)
  case (Cons f fs iv vs)
  then show ?case by (cases iv) (auto simp: budget_only_def)
qed simp

lemma budget_only_wrapped:
  assumes "budget_only R S x" and "v \<in> {VOptionSome x, VResultOk x, VResultError x}"
  shows "budget_only R S v"
  unfolding budget_only_def
proof (intro allI impI)
  fix t d n e assume "has_type R S t v" and "validate_value_inner R S t v d n = Inl e"
  moreover have "has_type R S s x \<Longrightarrow> validate_value_inner R S s x i j = Inl e \<Longrightarrow> budget_error e" for s i j
    using assms(1) unfolding budget_only_def by blast
  moreover have "budget_error SE_ValueDepthExceeded" "budget_error SE_ValueNodeLimitExceeded"
    by (simp_all add: budget_error_def)
  ultimately show "budget_error e"
    using assms(2) by (auto simp: validate_value_inner.simps(1)[of _ _ t] Let_def split: if_splits)
qed

lemma budget_only: "budget_only R S v"
proof (induction v)
  case (VArray xs)
  show ?case
    unfolding budget_only_def
  proof (intro allI impI)
    fix t d n e assume ty: "has_type R S t (VArray xs)"
      and err: "validate_value_inner R S t (VArray xs) d n = Inl e"
    from ty obtain D el m where D: "value_type S t = Some D" "td_kind D = TArray el m"
      and xs: "length xs \<le> unat m" "length xs \<le> maximum_array_items (gs_limits S)"
      and el: "\<forall>x \<in> set xs. has_type R S el x" by auto
    with VArray have "\<forall>x \<in> set xs. budget_only R S x \<and> has_type R S el x" by blast
    from validate_items_budget[OF this] err xs show "budget_error e"
      by (auto simp: validate_value_inner.simps(1) Let_def budget_error_def D split: if_splits)
  qed
next
  case (VRecord vs)
  then have IH: "\<forall>iv \<in> set vs. budget_only R S (snd iv)" by (metis snds.intros)
  show ?case
    unfolding budget_only_def
  proof (intro allI impI)
    fix t d n e assume ty: "has_type R S t (VRecord vs)"
      and err: "validate_value_inner R S t (VRecord vs) d n = Inl e"
    from ty obtain D fs where D: "value_type S t = Some D" "td_kind D = TRecord fs"
      and fs: "list_all2 (\<lambda>f iv. rf_id f = fst iv \<and> has_type R S (rf_value_type f) (snd iv)) fs vs"
      by auto
    have len: "length fs = length vs" using fs by (rule list_all2_lengthD)
    from err show "budget_error e"
      using validate_fields_budget[OF IH fs]
      by (auto simp: validate_value_inner.simps(1) Let_def budget_error_def D len split: if_splits)
  qed
next
  case (VOptionSome x)
  then show ?case by (rule budget_only_wrapped) simp
next
  case (VResultOk x)
  then show ?case by (rule budget_only_wrapped) simp
next
  case (VResultError x)
  then show ?case by (rule budget_only_wrapped) simp
qed (auto simp: budget_only_def validate_value_inner.simps(1) Let_def budget_error_def
    validate_rational_magnitude_def rational_fits_def split: if_splits)

lemma validate_value_budget_error:
  "has_type R S t v \<Longrightarrow> validate_value R S t v = Inl e \<Longrightarrow> budget_error e"
  using budget_only[of R S v] by (auto simp: validate_value_def budget_only_def)

section \<open>Properties of validation\<close>

definition chain_schema :: "'q graph_schema" where
  "chain_schema = \<lparr>gs_limits = depth_two_limits, gs_units = [], gs_types = chain_up\<rparr>"

lemma chain_schema_wf: "schema_wf R chain_schema"
  using try_new_schema_wf[OF chain_up_accepted] by (simp add: chain_schema_def)

lemma chain_schema_types [simp]:
  "value_type chain_schema 1 = Some (example_type 1 ''leaf'' TBoolean)"
  "value_type chain_schema 2 = Some (example_type 2 ''middle'' (TOption 1))"
  "value_type chain_schema 3 = Some (example_type 3 ''outer'' (TOption 2))"
  unfolding value_type_iff[OF chain_schema_wf]
  by (simp_all add: chain_schema_def chain_up_def example_type_def)

lemma example_type_kind [simp]: "td_kind (example_type i n k) = k"
  by (simp add: example_type_def)

text \<open>
  C7. The bounded checker \<^verbatim>\<open>validate_value\<close> accepts a literal
  exactly when it is well typed, its nesting depth is within \<^verbatim>\<open>maximum_value_depth\<close> and its
  node count within \<^verbatim>\<open>maximum_value_nodes\<close> (and representable): the depth argument and
  the running node counter threaded through the recursion compute exactly these two measures.
\<close>

theorem validate_value_decides_typing:
  "validate_value R S t v = Inr () \<longleftrightarrow>
     has_type R S t v \<and> value_depth v \<le> maximum_value_depth (gs_limits S)
     \<and> value_nodes v \<le> maximum_value_nodes (gs_limits S) \<and> value_nodes v \<le> usize_max"
  by (auto simp: validate_value_iff node_bound_def)

text \<open>
  On a well-typed literal the checker reports nothing but an exceeded
  budget: no type mismatch, shape, range or identity error is ever raised for it.
\<close>

theorem validate_value_rejects_only_budgets:
  assumes "has_type R S t v"
  shows "validate_value R S t v \<in> {Inr (), Inl SE_ValueDepthExceeded, Inl SE_ValueNodeLimitExceeded}"
  using validate_value_budget_error[OF assms]
  by (cases "validate_value R S t v") (auto simp: budget_error_def)

theorem validate_value_rejects_only_budgets_witness:
  "has_type rat_api chain_schema 3 (VOptionSome (VOptionSome (VBoolean True)))
   \<and> validate_value rat_api chain_schema 3 (VOptionSome (VOptionSome (VBoolean True)))
      = Inl SE_ValueDepthExceeded"
proof -
  let ?v = "VOptionSome (VOptionSome (VBoolean True)) :: rat graph_value"
  have ty: "has_type rat_api chain_schema 3 ?v" by simp
  have "validate_value rat_api chain_schema 3 ?v \<noteq> Inr ()"
    by (simp add: validate_value_iff chain_schema_def depth_two_limits_def)
  moreover have "validate_value rat_api chain_schema 3 ?v \<noteq> Inl SE_ValueNodeLimitExceeded"
    by (simp add: validate_value_def validate_value_inner.simps(1) Let_def chain_schema_def[THEN arg_cong, of gs_limits]
        evaluate_limits usize_max_def)
  ultimately show ?thesis using validate_value_rejects_only_budgets[OF ty] ty by auto
qed

end
