(* ===== verification/Value_Path.thy ===== *)
theory Value_Path
  imports Graph_Value
begin

text \<open>
  Addressing one leaf of a composite literal and replacing it, as
  \<^verbatim>\<open>TypedGraphValue::value_at_path\<close> and \<^verbatim>\<open>replacing_value_at_path\<close> of
  \<^verbatim>\<open>graph.rs\<close> do. The two operations satisfy the laws of a lens, replacement touches nothing
  outside the addressed leaf, and it keeps the literal well typed.
\<close>

section \<open>Paths\<close>

datatype path_segment =
    ArrayIndex u32
  | RecordField record_field_id
  | OptionSome
  | ResultOk
  | ResultError

datatype path_error =
    PE_PathDepthExceeded nat nat
  | PE_Schema schema_error
  | PE_InvalidSegment nat path_segment graph_type_id graph_value_kind
  | PE_ArrayIndexOutOfBounds nat u32 nat
  | PE_UnknownRecordField nat record_field_id
  | PE_InactiveBranch nat path_segment

definition validate_graph_value_path_depth ::
  "'q graph_schema \<Rightarrow> path_segment list \<Rightarrow> path_error + unit" where
  "validate_graph_value_path_depth S path =
     (let maximum = maximum_value_depth (gs_limits S) - 1
      in if length path > maximum then Inl (PE_PathDepthExceeded (length path) maximum) else Inr ())"

fun resolve_graph_value_path ::
  "'q graph_schema \<Rightarrow> graph_type_id \<Rightarrow> 'q graph_value \<Rightarrow> path_segment list \<Rightarrow> nat
     \<Rightarrow> path_error + graph_type_id \<times> 'q graph_value" where
  "resolve_graph_value_path S t v [] depth = Inr (t, v)"
| "resolve_graph_value_path S t v (segment # remaining) depth =
     and_then (ok_or (PE_Schema (SE_UnknownType t)) (value_type S t)) (\<lambda>definition.
     let invalid = Inl (PE_InvalidSegment depth segment t (value_kind v));
         inactive = Inl (PE_InactiveBranch depth segment) in
     case td_kind definition of
       TArray element _ \<Rightarrow> (case segment of
         ArrayIndex index \<Rightarrow> (case v of
           VArray items \<Rightarrow>
             if unat index < length items
             then resolve_graph_value_path S element (items ! unat index) remaining (Suc depth)
             else Inl (PE_ArrayIndexOutOfBounds depth index (length items))
         | _ \<Rightarrow> invalid)
       | _ \<Rightarrow> invalid)
     | TRecord fs \<Rightarrow> (case segment of
         RecordField field \<Rightarrow> (case v of
           VRecord vs \<Rightarrow>
             and_then (ok_or (PE_UnknownRecordField depth field) (binary_search_by_key field rf_id fs))
               (\<lambda>index.
               if index < length vs \<and> fst (vs ! index) = field
               then resolve_graph_value_path S (rf_value_type (fs ! index)) (snd (vs ! index))
                      remaining (Suc depth)
               else Inl (PE_Schema SE_RecordShape))
         | _ \<Rightarrow> invalid)
       | _ \<Rightarrow> invalid)
     | TOption inner \<Rightarrow> (case segment of
         OptionSome \<Rightarrow> (case v of
           VOptionSome x \<Rightarrow> resolve_graph_value_path S inner x remaining (Suc depth)
         | VOptionNone \<Rightarrow> inactive
         | _ \<Rightarrow> invalid)
       | _ \<Rightarrow> invalid)
     | TResult ok error \<Rightarrow> (case segment of
         ResultOk \<Rightarrow> (case v of
           VResultOk x \<Rightarrow> resolve_graph_value_path S ok x remaining (Suc depth)
         | VResultError _ \<Rightarrow> inactive
         | _ \<Rightarrow> invalid)
       | ResultError \<Rightarrow> (case v of
           VResultError x \<Rightarrow> resolve_graph_value_path S error x remaining (Suc depth)
         | VResultOk _ \<Rightarrow> inactive
         | _ \<Rightarrow> invalid)
       | _ \<Rightarrow> invalid)
     | _ \<Rightarrow> invalid)"

text \<open>
  \<^verbatim>\<open>replace_graph_value_at_path\<close> mutates the value in place; the model returns the mutated value.
\<close>

fun replace_graph_value_at_path ::
  "'q graph_schema \<Rightarrow> graph_type_id \<Rightarrow> 'q graph_value \<Rightarrow> path_segment list \<Rightarrow> nat \<Rightarrow> 'q graph_value
     \<Rightarrow> path_error + 'q graph_value" where
  "replace_graph_value_at_path S t v [] depth replacement = Inr replacement"
| "replace_graph_value_at_path S t v (segment # remaining) depth replacement =
     and_then (ok_or (PE_Schema (SE_UnknownType t)) (value_type S t)) (\<lambda>definition.
     let invalid = Inl (PE_InvalidSegment depth segment t (value_kind v));
         inactive = Inl (PE_InactiveBranch depth segment) in
     case td_kind definition of
       TArray element _ \<Rightarrow> (case segment of
         ArrayIndex index \<Rightarrow> (case v of
           VArray items \<Rightarrow>
             if unat index < length items
             then and_then (replace_graph_value_at_path S element (items ! unat index) remaining
                              (Suc depth) replacement)
               (\<lambda>x. Inr (VArray (items[unat index := x])))
             else Inl (PE_ArrayIndexOutOfBounds depth index (length items))
         | _ \<Rightarrow> invalid)
       | _ \<Rightarrow> invalid)
     | TRecord fs \<Rightarrow> (case segment of
         RecordField field \<Rightarrow> (case v of
           VRecord vs \<Rightarrow>
             and_then (ok_or (PE_UnknownRecordField depth field) (binary_search_by_key field rf_id fs))
               (\<lambda>index.
               if index < length vs \<and> fst (vs ! index) = field
               then and_then (replace_graph_value_at_path S (rf_value_type (fs ! index))
                                (snd (vs ! index)) remaining (Suc depth) replacement)
                 (\<lambda>x. Inr (VRecord (vs[index := (field, x)])))
               else Inl (PE_Schema SE_RecordShape))
         | _ \<Rightarrow> invalid)
       | _ \<Rightarrow> invalid)
     | TOption inner \<Rightarrow> (case segment of
         OptionSome \<Rightarrow> (case v of
           VOptionSome x \<Rightarrow>
             and_then (replace_graph_value_at_path S inner x remaining (Suc depth) replacement)
               (\<lambda>y. Inr (VOptionSome y))
         | VOptionNone \<Rightarrow> inactive
         | _ \<Rightarrow> invalid)
       | _ \<Rightarrow> invalid)
     | TResult ok error \<Rightarrow> (case segment of
         ResultOk \<Rightarrow> (case v of
           VResultOk x \<Rightarrow>
             and_then (replace_graph_value_at_path S ok x remaining (Suc depth) replacement)
               (\<lambda>y. Inr (VResultOk y))
         | VResultError _ \<Rightarrow> inactive
         | _ \<Rightarrow> invalid)
       | ResultError \<Rightarrow> (case v of
           VResultError x \<Rightarrow>
             and_then (replace_graph_value_at_path S error x remaining (Suc depth) replacement)
               (\<lambda>y. Inr (VResultError y))
         | VResultOk _ \<Rightarrow> inactive
         | _ \<Rightarrow> invalid)
       | _ \<Rightarrow> invalid)
     | _ \<Rightarrow> invalid)"

declare resolve_graph_value_path.simps(2) [simp del] replace_graph_value_at_path.simps(2) [simp del]

definition value_at_path ::
  "'q external_api \<Rightarrow> 'q graph_schema \<Rightarrow> 'q typed_graph_value \<Rightarrow> path_segment list
     \<Rightarrow> path_error + graph_type_id \<times> 'q graph_value" where
  "value_at_path R S tv path =
     and_then (map_err PE_Schema (validate_typed_value R S tv)) (\<lambda>_.
     and_then (validate_graph_value_path_depth S path) (\<lambda>_.
     resolve_graph_value_path S (tv_value_type tv) (tv_value tv) path 0))"

definition replacing_value_at_path ::
  "'q external_api \<Rightarrow> 'q graph_schema \<Rightarrow> 'q typed_graph_value \<Rightarrow> path_segment list \<Rightarrow> 'q graph_value
     \<Rightarrow> path_error + 'q typed_graph_value" where
  "replacing_value_at_path R S tv path replacement =
     and_then (value_at_path R S tv path) (\<lambda>target.
     and_then (map_err PE_Schema (validate_value R S (fst target) replacement)) (\<lambda>_.
     and_then (replace_graph_value_at_path S (tv_value_type tv) (tv_value tv) path 0 replacement)
       (\<lambda>candidate.
     map_err PE_Schema (try_new_typed_value R S (tv_value_type tv) candidate))))"

section \<open>Lens laws of the two traversals\<close>

text \<open>
  One successful step of a traversal: the child it reaches, the child's type, and the literal
  with that child exchanged.
\<close>

inductive child_step ::
  "'q graph_schema \<Rightarrow> graph_type_id \<Rightarrow> 'q graph_value \<Rightarrow> path_segment
     \<Rightarrow> graph_type_id \<Rightarrow> 'q graph_value \<Rightarrow> ('q graph_value \<Rightarrow> 'q graph_value) \<Rightarrow> bool"
  for S :: "'q graph_schema" where
  item: "value_type S t = Some D \<Longrightarrow> td_kind D = TArray e m \<Longrightarrow> unat i < length items \<Longrightarrow>
    child_step S t (VArray items) (ArrayIndex i) e (items ! unat i) (\<lambda>y. VArray (items[unat i := y]))"
| field: "value_type S t = Some D \<Longrightarrow> td_kind D = TRecord fs \<Longrightarrow>
    binary_search_by_key f rf_id fs = Some i \<Longrightarrow> i < length vs \<Longrightarrow> fst (vs ! i) = f \<Longrightarrow>
    child_step S t (VRecord vs) (RecordField f) (rf_value_type (fs ! i)) (snd (vs ! i))
      (\<lambda>y. VRecord (vs[i := (f, y)]))"
| some: "value_type S t = Some D \<Longrightarrow> td_kind D = TOption e \<Longrightarrow>
    child_step S t (VOptionSome x) OptionSome e x VOptionSome"
| ok: "value_type S t = Some D \<Longrightarrow> td_kind D = TResult a b \<Longrightarrow>
    child_step S t (VResultOk x) ResultOk a x VResultOk"
| error: "value_type S t = Some D \<Longrightarrow> td_kind D = TResult a b \<Longrightarrow>
    child_step S t (VResultError x) ResultError b x VResultError"

inductive_cases child_stepE: "child_step S t v s t' x C"

lemmas path_steps = resolve_graph_value_path.simps(2) replace_graph_value_at_path.simps(2) Let_def

lemmas path_splits = type_kind.splits graph_value.splits path_segment.splits if_splits

lemma resolve_child:
  "child_step S t v s t' x C \<Longrightarrow>
     resolve_graph_value_path S t v (s # p) d = resolve_graph_value_path S t' x p (Suc d)"
  by (cases rule: child_step.cases, assumption) (simp_all add: path_steps)

lemma replace_child:
  "child_step S t v s t' x C \<Longrightarrow>
     replace_graph_value_at_path S t v (s # p) d r =
       and_then (replace_graph_value_at_path S t' x p (Suc d) r) (\<lambda>y. Inr (C y))"
  by (cases rule: child_step.cases, assumption) (simp_all add: path_steps)

lemma resolve_step_or_error:
  "(\<exists>t' x C. child_step S t v s t' x C) \<or>
   (\<exists>e. \<forall>p r. resolve_graph_value_path S t v (s # p) d = Inl e
       \<and> replace_graph_value_at_path S t v (s # p) d r = Inl e)"
  (is "?step \<or> ?fails")
proof (cases "value_type S t")
  case None
  then show ?thesis by (simp add: path_steps)
next
  case (Some D)
  note intros = child_step.intros[OF Some]
  show ?thesis
  proof (cases "td_kind D")
    case (TArray e m)
    note kind = Some TArray
    show ?thesis
    proof (cases s)
      case (ArrayIndex i)
      show ?thesis
      proof (cases v)
        case (VArray items)
        show ?thesis
        proof (cases "unat i < length items")
          case True
          then have ?step using intros(1)[OF TArray] unfolding ArrayIndex VArray by blast
          then show ?thesis ..
        qed (use kind ArrayIndex VArray in \<open>simp add: path_steps\<close>)
      qed (use kind ArrayIndex in \<open>simp_all add: path_steps\<close>)
    qed (use kind in \<open>simp_all add: path_steps\<close>)
  next
    case (TRecord fs)
    note kind = Some TRecord
    show ?thesis
    proof (cases s)
      case (RecordField f)
      show ?thesis
      proof (cases v)
        case (VRecord vs)
        show ?thesis
        proof (cases "binary_search_by_key f rf_id fs")
          case (Some i)
          show ?thesis
          proof (cases "i < length vs \<and> fst (vs ! i) = f")
            case True
            then have ?step using intros(2)[OF TRecord Some] unfolding RecordField VRecord by blast
            then show ?thesis ..
          next
            case False
            then have ?fails using kind RecordField VRecord Some
              by (auto simp: path_steps)
            then show ?thesis ..
          qed
        qed (use kind RecordField VRecord in \<open>simp add: path_steps\<close>)
      qed (use kind RecordField in \<open>simp_all add: path_steps\<close>)
    qed (use kind in \<open>simp_all add: path_steps\<close>)
  next
    case (TOption e)
    note kind = Some TOption
    show ?thesis
    proof (cases s)
      case OptionSome
      show ?thesis
      proof (cases v)
        case (VOptionSome x)
        then have ?step using intros(3)[OF TOption] unfolding OptionSome by blast
        then show ?thesis ..
      qed (use kind OptionSome in \<open>simp_all add: path_steps\<close>)
    qed (use kind in \<open>simp_all add: path_steps\<close>)
  next
    case (TResult a b)
    note kind = Some TResult
    show ?thesis
    proof (cases s)
      case ResultOk
      show ?thesis
      proof (cases v)
        case (VResultOk x)
        then have ?step using intros(4)[OF TResult] unfolding ResultOk by blast
        then show ?thesis ..
      qed (use kind ResultOk in \<open>simp_all add: path_steps\<close>)
    next
      case ResultError
      show ?thesis
      proof (cases v)
        case (VResultError x)
        then have ?step using intros(5)[OF TResult] unfolding ResultError by blast
        then show ?thesis ..
      qed (use kind ResultError in \<open>simp_all add: path_steps\<close>)
    qed (use kind in \<open>simp_all add: path_steps\<close>)
  qed (use Some in \<open>simp_all add: path_steps\<close>)
qed

text \<open>Replacement fails exactly where resolution does, with the same error.\<close>

lemma replace_error_iff:
  "replace_graph_value_at_path S t v p d r = Inl e \<longleftrightarrow> resolve_graph_value_path S t v p d = Inl e"
proof (induction p arbitrary: t v d)
  case (Cons s p)
  show ?case
    using resolve_step_or_error[of S t v s d]
    by (auto simp: resolve_child replace_child Cons.IH)
qed simp

lemma replace_ok_iff:
  "(\<exists>v'. replace_graph_value_at_path S t v p d r = Inr v') \<longleftrightarrow>
     (\<exists>x. resolve_graph_value_path S t v p d = Inr x)"
  using replace_error_iff[of S t v p d r] by (metis Inl_Inr_False sum.exhaust)

lemma step_cases:
  obtains (step) t' x C where "child_step S t v s t' x C"
  | (fails) e where "\<And>p. resolve_graph_value_path S t v (s # p) d = Inl e"
      and "\<And>p r. replace_graph_value_at_path S t v (s # p) d r = Inl e"
  using resolve_step_or_error[of S t v s d]
proof (elim disjE exE)
  fix t' x C assume "child_step S t v s t' x C"
  then show thesis by (rule step)
next
  fix e assume "\<forall>p r. resolve_graph_value_path S t v (s # p) d = Inl e
       \<and> replace_graph_value_at_path S t v (s # p) d r = Inl e"
  then show thesis by (intro fails[of e]) simp_all
qed

lemma resolve_Cons_Inr:
  "resolve_graph_value_path S t v (s # p) d = Inr res \<longleftrightarrow>
     (\<exists>t' x C. child_step S t v s t' x C \<and> resolve_graph_value_path S t' x p (Suc d) = Inr res)"
  (is "?l \<longleftrightarrow> ?r")
proof
  assume l: ?l
  show ?r
  proof (cases rule: step_cases[where S = S and t = t and v = v and s = s and d = d])
    case (step t' x C)
    with l show ?r by (metis resolve_child)
  qed (use l in simp)
qed (auto simp: resolve_child)

lemma replace_Cons_Inr:
  "replace_graph_value_at_path S t v (s # p) d r = Inr w \<longleftrightarrow>
     (\<exists>t' x C y. child_step S t v s t' x C
        \<and> replace_graph_value_at_path S t' x p (Suc d) r = Inr y \<and> w = C y)"
  (is "?l \<longleftrightarrow> ?r")
proof
  assume l: ?l
  show ?r
  proof (cases rule: step_cases[where S = S and t = t and v = v and s = s and d = d])
    case (step t' x C)
    from l obtain y where "replace_graph_value_at_path S t' x p (Suc d) r = Inr y" "w = C y"
      by (auto simp: replace_child[OF step])
    with step show ?r by blast
  qed (use l in simp)
next
  assume ?r
  then obtain t' x C y where step: "child_step S t v s t' x C"
    and "replace_graph_value_at_path S t' x p (Suc d) r = Inr y" "w = C y" by blast
  then show ?l by (simp add: replace_child[OF step])
qed

text \<open>The laws of one step.\<close>

lemma child_step_put:
  assumes "child_step S t v s t' x C"
  shows "child_step S t (C y) s t' y C"
  using assms
proof cases
  case (item D m i items)
  with child_step.item[of S t D t' m i "items[unat i := y]"] show ?thesis by simp
next
  case (field D fs f i vs)
  with child_step.field[of S t D fs f i "vs[i := (f, y)]"] show ?thesis by simp
qed (auto intro: child_step.intros)

lemma child_step_get:
  assumes "child_step S t v s t' x C"
  shows "C x = v"
  using assms
proof cases
  case (field D fs f i vs)
  then have "(f, snd (vs ! i)) = vs ! i" by (metis prod.collapse)
  with field show ?thesis by (metis list_update_id)
qed auto

text \<open>Storing what was read, reading what was stored, and storing twice.\<close>

lemma put_get:
  "replace_graph_value_at_path S t v p d r = Inr w \<Longrightarrow>
     resolve_graph_value_path S t v p d = Inr (t', x) \<Longrightarrow>
     resolve_graph_value_path S t w p d = Inr (t', r)"
proof (induction p arbitrary: t v w d)
  case (Cons s p)
  then obtain t1 x1 C y where step: "child_step S t v s t1 x1 C"
    and y: "replace_graph_value_at_path S t1 x1 p (Suc d) r = Inr y" and w: "w = C y"
    by (auto simp: replace_Cons_Inr)
  from Cons.prems(2) have "resolve_graph_value_path S t1 x1 p (Suc d) = Inr (t', x)"
    by (simp add: resolve_child[OF step])
  with Cons.IH[OF y] show ?case by (simp add: w resolve_child[OF child_step_put[OF step]])
qed simp

lemma get_put:
  "resolve_graph_value_path S t v p d = Inr (t', x) \<Longrightarrow>
     replace_graph_value_at_path S t v p d x = Inr v"
proof (induction p arbitrary: t v d)
  case (Cons s p)
  then obtain t1 x1 C where step: "child_step S t v s t1 x1 C"
    and "resolve_graph_value_path S t1 x1 p (Suc d) = Inr (t', x)"
    by (auto simp: resolve_Cons_Inr)
  with Cons.IH show ?case by (simp add: replace_child[OF step] child_step_get[OF step])
qed simp

lemma child_step_constructor_twice:
  assumes "child_step S t v s t' x C"
  shows "\<exists>C'. child_step S t (C y) s t' y C' \<and> (\<forall>z. C' z = C z)"
  using assms
proof cases
  case (item D m i items)
  with child_step.item[of S t D t' m i "items[unat i := y]"] show ?thesis by fastforce
next
  case (field D fs f i vs)
  with child_step.field[of S t D fs f i "vs[i := (f, y)]"] show ?thesis by fastforce
qed (auto intro: child_step.intros)

lemma put_put:
  "replace_graph_value_at_path S t v p d r = Inr w \<Longrightarrow>
     replace_graph_value_at_path S t w p d r' = replace_graph_value_at_path S t v p d r'"
proof (induction p arbitrary: t v w d)
  case (Cons s p)
  then obtain t1 x1 C y where step: "child_step S t v s t1 x1 C"
    and y: "replace_graph_value_at_path S t1 x1 p (Suc d) r = Inr y" and w: "w = C y"
    by (auto simp: replace_Cons_Inr)
  from child_step_constructor_twice[OF step] obtain C' where
    C': "child_step S t w s t1 y C'" and same: "\<And>z. C' z = C z" unfolding w by blast
  show ?case using Cons.IH[OF y] by (simp add: replace_child[OF C'] replace_child[OF step] same)
qed simp

section \<open>Typing along a path\<close>

lemma child_step_has_type:
  assumes "child_step S t v s t' x C" and "has_type R S t v"
  shows "has_type R S t' x"
  using assms
proof cases
  case (field D fs f i vs)
  with assms(2) have all: "list_all2 (\<lambda>f iv. rf_id f = fst iv \<and> has_type R S (rf_value_type f) (snd iv)) fs vs"
    by auto
  then have "i < length fs" using field list_all2_lengthD[OF all] by simp
  from list_all2_nthD[OF all this] field show ?thesis by simp
qed auto

lemma child_step_put_type:
  assumes "child_step S t v s t' x C" and "has_type R S t v" and y: "has_type R S t' y"
  shows "has_type R S t (C y)"
  using assms(1)
proof cases
  case (item D m i items)
  with assms(2) y show ?thesis by (auto dest!: subsetD[OF set_update_subset_insert])
next
  case (field D fs f i vs)
  with assms(2) have all: "list_all2 (\<lambda>f iv. rf_id f = fst iv \<and> has_type R S (rf_value_type f) (snd iv)) fs vs"
    by auto
  then have i: "i < length fs" using field list_all2_lengthD[OF all] by simp
  have "rf_id (fs ! i) = f" using field by (auto dest: binary_search_sound)
  with all i y field have
    "list_all2 (\<lambda>f iv. rf_id f = fst iv \<and> has_type R S (rf_value_type f) (snd iv)) fs (vs[i := (f, y)])"
    by (auto simp: list_all2_conv_all_nth nth_list_update)
  with field show ?thesis by simp
qed (use assms(2) y in auto)

lemma resolve_has_type:
  "resolve_graph_value_path S t v p d = Inr (t', x) \<Longrightarrow> has_type R S t v \<Longrightarrow> has_type R S t' x"
proof (induction p arbitrary: t v d)
  case (Cons s p)
  then show ?case by (auto simp: resolve_Cons_Inr dest: child_step_has_type)
qed simp

lemma replace_has_type:
  "resolve_graph_value_path S t v p d = Inr (t', x) \<Longrightarrow>
     replace_graph_value_at_path S t v p d r = Inr w \<Longrightarrow>
     has_type R S t v \<Longrightarrow> has_type R S t' r \<Longrightarrow> has_type R S t w"
proof (induction p arbitrary: t v w d)
  case (Cons s p)
  from Cons.prems(2) obtain t1 x1 C y where step: "child_step S t v s t1 x1 C"
    and y: "replace_graph_value_at_path S t1 x1 p (Suc d) r = Inr y" and w: "w = C y"
    by (auto simp: replace_Cons_Inr)
  from Cons.prems(1) have "resolve_graph_value_path S t1 x1 p (Suc d) = Inr (t', x)"
    by (simp add: resolve_child[OF step])
  from Cons.IH[OF this y child_step_has_type[OF step Cons.prems(3)] Cons.prems(4)]
  show ?case unfolding w by (rule child_step_put_type[OF step Cons.prems(3)])
qed simp

section \<open>Sizes along a path\<close>

lemma child_step_sizes:
  assumes "child_step S t v s t' x C"
  shows "value_depth x < value_depth v \<and> value_nodes x < value_nodes v"
  using assms
proof cases
  case (item D m i items)
  then have x: "x \<in> set items" by simp
  have "value_depth x \<le> Max (insert 0 (value_depth ` set items))"
    using x by (intro Max_ge) auto
  moreover have "value_nodes x \<le> (\<Sum>y \<leftarrow> items. value_nodes y)"
    using x by (intro member_le_sum_list) auto
  ultimately show ?thesis unfolding item(1) by simp
next
  case (field D fs f i vs)
  then have iv: "vs ! i \<in> set vs" by simp
  have "value_depth (snd (vs ! i)) \<le> Max (insert 0 ((\<lambda>iv. value_depth (snd iv)) ` set vs))"
    using iv by (intro Max_ge) auto
  moreover have "value_nodes (snd (vs ! i)) \<le> (\<Sum>iv \<leftarrow> vs. value_nodes (snd iv))"
    using iv by (intro member_le_sum_list) auto
  ultimately show ?thesis unfolding field(1,4) by simp
qed auto

lemma resolve_sizes:
  "resolve_graph_value_path S t v p d = Inr (t', x) \<Longrightarrow>
     value_depth x \<le> value_depth v \<and> value_nodes x \<le> value_nodes v"
proof (induction p arbitrary: t v d)
  case (Cons s p)
  then obtain t1 x1 C where step: "child_step S t v s t1 x1 C"
    and "resolve_graph_value_path S t1 x1 p (Suc d) = Inr (t', x)"
    by (auto simp: resolve_Cons_Inr)
  with Cons.IH[OF this(2)] child_step_sizes[OF step] show ?case by auto
qed simp

section \<open>Other leaves\<close>

lemma resolve_other_segment:
  assumes "child_step S t v s t' x C" and "s \<noteq> s'"
  shows "resolve_graph_value_path S t (C y) (s' # q) d = resolve_graph_value_path S t v (s' # q) d"
  using assms(1)
proof cases
  case (item D m i items)
  with assms(2) show ?thesis
    by (cases s') (auto simp: path_steps nth_list_update word_unat_eq_iff)
next
  case (field D fs f i vs)
  have "rf_id (fs ! i) = f" using field by (auto dest: binary_search_sound)
  then have other: "j \<noteq> i" if "binary_search_by_key g rf_id fs = Some j" "g \<noteq> f" for g j
    using binary_search_sound[OF that(1)] that(2) by auto
  show ?thesis
  proof (cases s')
    case (RecordField g)
    with field assms(2) other show ?thesis
      by (cases "binary_search_by_key g rf_id fs") (auto simp: path_steps nth_list_update)
  qed (use field in \<open>simp_all add: path_steps\<close>)
next
  case (some D)
  with assms(2) show ?thesis by (cases s') (auto simp: path_steps)
next
  case (ok D b)
  with assms(2) show ?thesis by (cases s') (auto simp: path_steps)
next
  case (error D a)
  with assms(2) show ?thesis by (cases s') (auto simp: path_steps)
qed

definition diverging :: "path_segment list \<Rightarrow> path_segment list \<Rightarrow> bool" where
  "diverging p q \<longleftrightarrow> (\<exists>i < min (length p) (length q). p ! i \<noteq> q ! i)"

lemma diverging_Cons [simp]:
  "diverging [] q = False" "diverging p [] = False"
  "diverging (a # p) (b # q) \<longleftrightarrow> a \<noteq> b \<or> diverging p q"
proof -
  show "diverging (a # p) (b # q) \<longleftrightarrow> a \<noteq> b \<or> diverging p q"
  proof
    assume "diverging (a # p) (b # q)"
    then obtain i where i: "i < Suc (min (length p) (length q))" "(a # p) ! i \<noteq> (b # q) ! i"
      by (auto simp: diverging_def)
    then show "a \<noteq> b \<or> diverging p q" by (cases i) (auto simp: diverging_def)
  next
    assume "a \<noteq> b \<or> diverging p q"
    then show "diverging (a # p) (b # q)"
    proof
      assume "diverging p q"
      then obtain i where "i < min (length p) (length q)" "p ! i \<noteq> q ! i" by (auto simp: diverging_def)
      then show ?thesis unfolding diverging_def by (intro exI[of _ "Suc i"]) auto
    qed (auto simp: diverging_def intro!: exI[of _ 0])
  qed
qed (simp_all add: diverging_def)

lemma resolve_diverging:
  "replace_graph_value_at_path S t v p d r = Inr w \<Longrightarrow> diverging p q \<Longrightarrow>
     resolve_graph_value_path S t w q d = resolve_graph_value_path S t v q d"
proof (induction p arbitrary: t v w q d)
  case (Cons s p)
  from Cons.prems(1) obtain t1 x1 C y where step: "child_step S t v s t1 x1 C"
    and y: "replace_graph_value_at_path S t1 x1 p (Suc d) r = Inr y" and w: "w = C y"
    by (auto simp: replace_Cons_Inr)
  from Cons.prems(2) obtain s' q' where q: "q = s' # q'" by (cases q) auto
  show ?case
  proof (cases "s = s'")
    case True
    with Cons.prems(2) q have "diverging p q'" by simp
    from Cons.IH[OF y this] show ?thesis
      unfolding q w True[symmetric] by (simp add: resolve_child[OF step] resolve_child[OF child_step_put[OF step]])
  next
    case False
    then show ?thesis unfolding q w by (rule resolve_other_segment[OF step])
  qed
qed simp

section \<open>The checked operations\<close>

lemma value_at_path_Inr:
  "value_at_path R S tv path = Inr tx \<longleftrightarrow>
     validate_typed_value R S tv = Inr ()
     \<and> length path \<le> maximum_value_depth (gs_limits S) - 1
     \<and> resolve_graph_value_path S (tv_value_type tv) (tv_value tv) path 0 = Inr tx"
  by (auto simp: value_at_path_def validate_graph_value_path_depth_def Let_def ex_unit split: if_splits)

lemma replacing_Inr:
  "replacing_value_at_path R S tv path r = Inr w \<longleftrightarrow>
     (\<exists>t x. value_at_path R S tv path = Inr (t, x) \<and> validate_value R S t r = Inr ()
       \<and> tv_value_type w = tv_value_type tv \<and> validate_typed_value R S w = Inr ()
       \<and> replace_graph_value_at_path S (tv_value_type tv) (tv_value tv) path 0 r = Inr (tv_value w))"
  by (auto simp: replacing_value_at_path_def try_new_typed_value_iff validate_typed_value_def ex_unit)

section \<open>Properties of the lens\<close>

text \<open>
  C34. A successful replacement keeps the declared type of the literal, its result
  passes validation, reading the result at the path gives the replacement at the same leaf type,
  and putting the old leaf back restores the original literal exactly.
\<close>

theorem replacing_value_round_trip:
  assumes "replacing_value_at_path R S tv path r = Inr w"
  shows "tv_value_type w = tv_value_type tv \<and> validate_typed_value R S w = Inr ()
    \<and> (\<exists>t x. value_at_path R S tv path = Inr (t, x) \<and> value_at_path R S w path = Inr (t, r)
        \<and> replacing_value_at_path R S w path x = Inr tv)"
proof -
  from assms obtain t x where at: "value_at_path R S tv path = Inr (t, x)"
    and r: "validate_value R S t r = Inr ()" and ty: "tv_value_type w = tv_value_type tv"
    and w: "validate_typed_value R S w = Inr ()"
    and put: "replace_graph_value_at_path S (tv_value_type tv) (tv_value tv) path 0 r = Inr (tv_value w)"
    by (auto simp: replacing_Inr)
  from at have get: "resolve_graph_value_path S (tv_value_type tv) (tv_value tv) path 0 = Inr (t, x)"
    and tv: "validate_typed_value R S tv = Inr ()"
    by (auto simp: value_at_path_Inr)
  have at': "value_at_path R S w path = Inr (t, r)"
    using at w put_get[OF put get] by (simp add: value_at_path_Inr ty)
  have "validate_value R S t x = Inr ()"
    using tv resolve_has_type[OF get, of R] resolve_sizes[OF get]
    by (auto simp: validate_typed_value_def validate_value_iff)
  moreover have "replace_graph_value_at_path S (tv_value_type w) (tv_value w) path 0 x = Inr (tv_value tv)"
    using put_put[OF put, of x] get_put[OF get] by (simp add: ty)
  ultimately have "replacing_value_at_path R S w path x = Inr tv"
    using at' tv ty by (auto simp: replacing_Inr)
  with ty w at at' show ?thesis by blast
qed

text \<open>
  Replacement is as total as it can be: at a path that resolves, a
  replacement that validates at the leaf's type is accepted unless the edited literal as a whole
  exceeds the depth or the node budget. No shape, type or path error is possible at that point.
\<close>

theorem replacing_value_complete:
  assumes "value_at_path R S tv path = Inr (t, x)" and "validate_value R S t r = Inr ()"
  shows "(\<exists>w. replacing_value_at_path R S tv path r = Inr w)
    \<or> (\<exists>e. replacing_value_at_path R S tv path r = Inl (PE_Schema e) \<and> budget_error e)"
proof -
  from assms(1) have get: "resolve_graph_value_path S (tv_value_type tv) (tv_value tv) path 0 = Inr (t, x)"
    and tv: "validate_typed_value R S tv = Inr ()"
    by (auto simp: value_at_path_Inr)
  then obtain v where v: "replace_graph_value_at_path S (tv_value_type tv) (tv_value tv) path 0 r = Inr v"
    using replace_ok_iff by metis
  have "has_type R S (tv_value_type tv) v"
    using replace_has_type[OF get v] tv assms(2) by (simp add: validate_typed_value_def validate_value_iff)
  note err = validate_value_budget_error[OF this]
  show ?thesis
  proof (cases "validate_value R S (tv_value_type tv) v")
    case (Inl e)
    with assms v err show ?thesis
      by (simp add: replacing_value_at_path_def try_new_typed_value_def)
  next
    case (Inr u)
    with assms v show ?thesis
      by (simp add: replacing_value_at_path_def try_new_typed_value_def)
  qed
qed

text \<open>
  Replacement edits exactly the addressed leaf: every path that
  diverges from it reads the same leaf, or fails with the same error, before and after.
\<close>

theorem replacing_value_frame:
  assumes "replacing_value_at_path R S tv path r = Inr w" and "diverging path other"
  shows "value_at_path R S w other = value_at_path R S tv other"
proof -
  from assms(1) have "tv_value_type w = tv_value_type tv" "validate_typed_value R S w = Inr ()"
    "validate_typed_value R S tv = Inr ()"
    and put: "replace_graph_value_at_path S (tv_value_type tv) (tv_value tv) path 0 r = Inr (tv_value w)"
    by (auto simp: replacing_Inr value_at_path_Inr)
  then show ?thesis using resolve_diverging[OF put assms(2)] by (simp add: value_at_path_def)
qed

section \<open>A concrete edit\<close>

text \<open>An array of at most two booleans, over the text bound of the interactive policy.\<close>

definition pair_schema :: "'q graph_schema" where
  "pair_schema = \<lparr>gs_limits = interactive_limits, gs_units = [],
     gs_types = [example_type 1 ''flag'' TBoolean, example_type 2 ''flags'' (TArray 1 2)]\<rparr>"

lemma pair_schema_types [simp]:
  "value_type pair_schema 1 = Some (example_type 1 ''flag'' TBoolean)"
  "value_type pair_schema 2 = Some (example_type 2 ''flags'' (TArray 1 2))"
  by (simp_all add: pair_schema_def value_type_def evaluate_types)

lemma pair_schema_limits: "gs_limits pair_schema = interactive_limits"
  by (simp add: pair_schema_def)

definition pair_value :: "bool \<Rightarrow> bool \<Rightarrow> 'q typed_graph_value" where
  "pair_value a b = \<lparr>tv_value_type = 2, tv_value = VArray [VBoolean a, VBoolean b]\<rparr>"

lemma pair_value_ok: "validate_typed_value R pair_schema (pair_value a b) = Inr ()"
  by (simp add: validate_typed_value_def pair_value_def validate_value_iff pair_schema_limits
      node_bound_def interactive_limits_def usize_max_def)

lemma pair_value_at:
  "value_at_path R pair_schema (pair_value a b) [ArrayIndex 1] = Inr (1, VBoolean b)"
  unfolding value_at_path_Inr pair_schema_limits pair_value_ok
  by (simp add: pair_value_def path_steps interactive_limits_def)

lemma pair_value_replaced:
  "replacing_value_at_path R pair_schema (pair_value a b) [ArrayIndex 1] (VBoolean c)
     = Inr (pair_value a c)"
  unfolding replacing_Inr pair_value_at pair_value_ok
  by (simp add: pair_value_def path_steps validate_value_iff pair_schema_limits node_bound_def
      interactive_limits_def usize_max_def)

theorem replacing_value_round_trip_witness:
  "value_at_path rat_api pair_schema (pair_value True False) [ArrayIndex 1] = Inr (1, VBoolean False)
   \<and> validate_typed_value rat_api pair_schema (pair_value True False :: rat typed_graph_value) = Inr ()"
  using replacing_value_round_trip[OF pair_value_replaced[of rat_api True True False]] pair_value_at by blast

theorem replacing_value_complete_witness:
  "\<not> (\<exists>e. replacing_value_at_path rat_api pair_schema (pair_value True False) [ArrayIndex 1]
          (VBoolean True) = Inl (PE_Schema e) \<and> \<not> budget_error e)"
proof -
  have "validate_value rat_api pair_schema 1 (VBoolean True) = Inr ()"
    by (simp add: validate_value_iff pair_schema_limits node_bound_def interactive_limits_def usize_max_def)
  from replacing_value_complete[OF pair_value_at[of rat_api True False] this] show ?thesis by auto
qed

theorem replacing_value_frame_witness:
  "value_at_path rat_api pair_schema (pair_value True True) [ArrayIndex 0]
     = value_at_path rat_api pair_schema (pair_value True False) [ArrayIndex 0]"
  by (rule replacing_value_frame[OF pair_value_replaced]) simp

end
