(* ===== verification/Graph_Document.thy ===== *)
theory Graph_Document
  imports Value_Path
begin

text \<open>
  Structural graph documents: \<^verbatim>\<open>crates/alumina-interface-core/src/graph/document.rs\<close>.
  \<^verbatim>\<open>GraphDocument::try_new\<close> sorts its collections and runs four validators; the
  theory proves that it accepts exactly the well-formed documents \<open>document_wf\<close>, a declarative
  description without loops, colours or search.
\<close>

section \<open>Data\<close>

type_synonym graph_node_id = u32
type_synonym graph_port_id = u32
type_synonym graph_wire_id = u32

datatype execution_domain =
    HostExact
  | Service device_id
  | Realtime device_id

datatype clock_kind =
    HostMonotonic u64
  | DeviceCycle device_id u64
  | Derived graph_clock_id u32 u32

record clock_definition =
  cd_id :: graph_clock_id
  cd_name :: rust_str
  cd_kind :: clock_kind

record node_kind =
  nk_name :: rust_str
  nk_version :: u16

record port_definition =
  pd_id :: graph_port_id
  pd_name :: rust_str
  pd_value_type :: graph_type_id

record 'q node_parameter =
  np_id :: u32
  np_name :: rust_str
  np_value :: "'q typed_graph_value"

record 'q node_definition =
  nd_id :: graph_node_id
  nd_kind :: node_kind
  nd_label :: rust_str
  nd_domain :: execution_domain
  nd_inputs :: "port_definition list"
  nd_outputs :: "port_definition list"
  nd_parameters :: "'q node_parameter list"

datatype wire_endpoint = WireEndpoint (we_node: graph_node_id) (we_port: graph_port_id)

text \<open>The derived \<^verbatim>\<open>Ord\<close>: by node, then by port.\<close>

instantiation wire_endpoint :: linorder
begin

definition less_eq_wire_endpoint :: "wire_endpoint \<Rightarrow> wire_endpoint \<Rightarrow> bool" where
  "less_eq_wire_endpoint a b \<longleftrightarrow> (we_node a, we_port a) \<le> (we_node b, we_port b)"

definition less_wire_endpoint :: "wire_endpoint \<Rightarrow> wire_endpoint \<Rightarrow> bool" where
  "less_wire_endpoint a b \<longleftrightarrow> (we_node a, we_port a) < (we_node b, we_port b)"

instance
  by standard (auto simp: less_eq_wire_endpoint_def less_wire_endpoint_def wire_endpoint.expand)

end

record wire_definition =
  wd_id :: graph_wire_id
  wd_source :: wire_endpoint
  wd_target :: wire_endpoint

record 'q graph_document =
  gd_revision :: u64
  gd_schema :: "'q graph_schema"
  gd_clocks :: "clock_definition list"
  gd_nodes :: "'q node_definition list"
  gd_wires :: "wire_definition list"

text \<open>\<^verbatim>\<open>GraphDocumentError\<close>, with \<open>DE_IndexPanic\<close> for an out-of-range index.\<close>

datatype document_error =
    DE_Schema schema_error
  | DE_LimitExceeded string
  | DE_ZeroIdentifier string
  | DE_DuplicateIdentifier string
  | DE_DuplicateName string
  | DE_InvalidName string
  | DE_InvalidDomain
  | DE_UnknownClock graph_clock_id
  | DE_InvalidClockRate graph_clock_id
  | DE_RecursiveClock graph_clock_id
  | DE_UnknownNode graph_node_id
  | DE_UnknownOutput wire_endpoint
  | DE_UnknownInput wire_endpoint
  | DE_WireTypeMismatch graph_type_id graph_type_id
  | DE_InputAlreadyConnected wire_endpoint
  | DE_DuplicateEndpoints
  | DE_IndexPanic

section \<open>Lookups and small validators\<close>

definition clock_index :: "'q graph_document \<Rightarrow> graph_clock_id \<Rightarrow> nat option" where
  "clock_index D i = binary_search_by_key i cd_id (gd_clocks D)"

definition document_clock :: "'q graph_document \<Rightarrow> graph_clock_id \<Rightarrow> clock_definition option" where
  "document_clock D i = map_option ((!) (gd_clocks D)) (clock_index D i)"

definition node_index :: "'q graph_document \<Rightarrow> graph_node_id \<Rightarrow> nat option" where
  "node_index D i = binary_search_by_key i nd_id (gd_nodes D)"

definition document_node :: "'q graph_document \<Rightarrow> graph_node_id \<Rightarrow> 'q node_definition option" where
  "document_node D i = map_option ((!) (gd_nodes D)) (node_index D i)"

definition require_clock :: "'q graph_document \<Rightarrow> graph_clock_id \<Rightarrow> document_error + nat" where
  "require_clock D i = ok_or (DE_UnknownClock i) (clock_index D i)"

definition find_port :: "port_definition list \<Rightarrow> graph_port_id \<Rightarrow> port_definition option" where
  "find_port ports i = lookup_by_key i pd_id ports"

definition validate_count :: "nat \<Rightarrow> nat \<Rightarrow> string \<Rightarrow> document_error + unit" where
  "validate_count received maximum name =
     (if received > maximum then Inl (DE_LimitExceeded name) else Inr ())"

definition valid_label :: "rust_str \<Rightarrow> nat \<Rightarrow> bool" where
  "valid_label value maximum \<longleftrightarrow>
     value \<noteq> [] \<and> length value \<le> maximum
     \<and> (case utf8_chars value of
          None \<Rightarrow> False
        | Some cs \<Rightarrow> \<forall>c \<in> set cs. \<not> char_is_control c)"

function gcd_u32 :: "u32 \<Rightarrow> u32 \<Rightarrow> u32" where
  "gcd_u32 left right = (if right \<noteq> 0 then gcd_u32 right (left mod right) else left)"
  by pat_completeness auto
termination
  by (relation "measure (\<lambda>(l, r). unat r)") (auto simp: unat_mod word_neq_0_conv word_less_nat_alt)

declare gcd_u32.simps [simp del]

fun validate_domain :: "execution_domain \<Rightarrow> document_error + unit" where
  "validate_domain HostExact = Inr ()"
| "validate_domain (Service d) = (if \<not> device_id_is_zero d then Inr () else Inl DE_InvalidDomain)"
| "validate_domain (Realtime d) = (if \<not> device_id_is_zero d then Inr () else Inl DE_InvalidDomain)"

section \<open>Clocks\<close>

definition validate_clock_kind ::
  "'q graph_document \<Rightarrow> graph_clock_id \<Rightarrow> clock_kind \<Rightarrow> document_error + unit" where
  "validate_clock_kind D i k = (case k of
     HostMonotonic ticks \<Rightarrow> if ticks = 0 then Inl (DE_InvalidClockRate i) else Inr ()
   | DeviceCycle device ticks \<Rightarrow>
       if device_id_is_zero device \<or> ticks = 0 then Inl (DE_InvalidClockRate i) else Inr ()
   | Derived source numerator denominator \<Rightarrow>
       if source = 0 \<or> numerator = 0 \<or> denominator = 0 \<or> gcd_u32 numerator denominator \<noteq> 1
       then Inl (DE_InvalidClockRate i)
       else and_then (require_clock D source) (\<lambda>_. Inr ()))"

definition validate_clock_step ::
  "'q graph_document \<Rightarrow> rust_str set \<times> graph_clock_id option \<Rightarrow> clock_definition
     \<Rightarrow> document_error + rust_str set \<times> graph_clock_id option" where
  "validate_clock_step D st c = (case st of (names, previous) \<Rightarrow>
     if cd_id c = 0 then Inl (DE_ZeroIdentifier ''clock'')
     else if previous = Some (cd_id c) then Inl (DE_DuplicateIdentifier ''clock'')
     else if \<not> valid_stable_name (cd_name c) then Inl (DE_InvalidName ''clock'')
     else if cd_name c \<in> names then Inl (DE_DuplicateName ''clock'')
     else and_then (validate_clock_kind D (cd_id c) (cd_kind c))
       (\<lambda>_. Inr (insert (cd_name c) names, Some (cd_id c))))"

text \<open>
  \<^verbatim>\<open>visit_clock\<close> follows one source per clock; every call colours a white clock, so the
  recursion ends.
\<close>

definition white_count :: "nat list \<Rightarrow> nat" where
  "white_count states = length (filter (\<lambda>s. s \<noteq> 1 \<and> s \<noteq> 2) states)"

lemma white_count_update:
  "i < length states \<Longrightarrow> states ! i \<noteq> 1 \<Longrightarrow> states ! i \<noteq> 2 \<Longrightarrow>
     white_count (states[i := Suc 0]) < white_count states"
proof (induction states arbitrary: i)
  case (Cons s states)
  then show ?case by (cases i) (auto simp: white_count_def)
qed simp

function visit_clock :: "'q graph_document \<Rightarrow> nat \<Rightarrow> nat list \<Rightarrow> document_error + nat list" where
  "visit_clock D i states =
     (if length (gd_clocks D) \<le> i \<or> length states \<le> i then Inl DE_IndexPanic
      else if states ! i = 2 then Inr states
      else if states ! i = 1 then Inl (DE_RecursiveClock (cd_id (gd_clocks D ! i)))
      else and_then
        (case cd_kind (gd_clocks D ! i) of
           Derived source _ _ \<Rightarrow>
             and_then (require_clock D source) (\<lambda>s. visit_clock D s (states[i := 1]))
         | _ \<Rightarrow> Inr (states[i := 1]))
        (\<lambda>states'. Inr (states'[i := 2])))"
  by pat_completeness auto
termination
  by (relation "measure (\<lambda>(D, i, states). white_count states)") (auto intro: white_count_update)

declare visit_clock.simps [simp del]

definition validate_clocks :: "'q graph_document \<Rightarrow> document_error + unit" where
  "validate_clocks D =
     and_then (try_fold (validate_clock_step D) ({}, None) (gd_clocks D)) (\<lambda>_.
     and_then (try_fold (\<lambda>states i. visit_clock D i states)
         (replicate (length (gd_clocks D)) 0) [0..<length (gd_clocks D)]) (\<lambda>_.
       Inr ()))"

fun type_clock :: "'q type_kind \<Rightarrow> graph_clock_id option" where
  "type_clock (TEvent _ clock) = Some clock"
| "type_clock (TStream _ clock _) = Some clock"
| "type_clock _ = None"

definition validate_type_clocks :: "'q graph_document \<Rightarrow> document_error + unit" where
  "validate_type_clocks D =
     try_each (\<lambda>d. case type_clock (td_kind d) of
         Some clock \<Rightarrow> and_then (require_clock D clock) (\<lambda>_. Inr ())
       | None \<Rightarrow> Inr ()) (gs_types (gd_schema D))"

section \<open>Nodes\<close>

definition validate_port_step ::
  "'q graph_schema \<Rightarrow> graph_port_id set \<times> rust_str set \<Rightarrow> port_definition
     \<Rightarrow> document_error + graph_port_id set \<times> rust_str set" where
  "validate_port_step S st p = (case st of (ids, names) \<Rightarrow>
     if pd_id p = 0 then Inl (DE_ZeroIdentifier ''port'')
     else if pd_id p \<in> ids then Inl (DE_DuplicateIdentifier ''port'')
     else if \<not> valid_stable_name (pd_name p) then Inl (DE_InvalidName ''port'')
     else if pd_name p \<in> names then Inl (DE_DuplicateName ''port'')
     else if value_type S (pd_value_type p) = None
       then Inl (DE_Schema (SE_UnknownType (pd_value_type p)))
     else Inr (insert (pd_id p) ids, insert (pd_name p) names))"

definition validate_parameter_step ::
  "'q external_api \<Rightarrow> 'q graph_schema \<Rightarrow> rust_str set \<times> u32 option \<Rightarrow> 'q node_parameter
     \<Rightarrow> document_error + rust_str set \<times> u32 option" where
  "validate_parameter_step R S st p = (case st of (names, prior) \<Rightarrow>
     if np_id p = 0 then Inl (DE_ZeroIdentifier ''parameter'')
     else if prior = Some (np_id p) then Inl (DE_DuplicateIdentifier ''parameter'')
     else if \<not> valid_stable_name (np_name p) then Inl (DE_InvalidName ''parameter'')
     else if np_name p \<in> names then Inl (DE_DuplicateName ''parameter'')
     else and_then (map_err DE_Schema (validate_typed_value R S (np_value p)))
       (\<lambda>_. Inr (insert (np_name p) names, Some (np_id p))))"

definition validate_node_step ::
  "'q external_api \<Rightarrow> 'q graph_schema \<Rightarrow> graph_node_id option \<Rightarrow> 'q node_definition
     \<Rightarrow> document_error + graph_node_id option" where
  "validate_node_step R S previous n =
     (let limits = gs_limits S in
      if nd_id n = 0 then Inl (DE_ZeroIdentifier ''node'')
      else if previous = Some (nd_id n) then Inl (DE_DuplicateIdentifier ''node'')
      else if \<not> valid_stable_name (nk_name (nd_kind n)) \<or> nk_version (nd_kind n) = 0
        then Inl (DE_InvalidName ''node kind'')
      else if \<not> valid_label (nd_label n) (maximum_label_bytes limits)
        then Inl (DE_InvalidName ''node label'')
      else and_then (validate_domain (nd_domain n)) (\<lambda>_.
        and_then (ok_or (DE_LimitExceeded ''node port count'')
          (checked_add_usize (length (nd_inputs n)) (length (nd_outputs n)))) (\<lambda>port_count.
        and_then (validate_count port_count (maximum_ports_per_node limits) ''node port count'') (\<lambda>_.
        and_then (validate_count (length (nd_parameters n)) (maximum_parameters_per_node limits)
          ''node parameter count'') (\<lambda>_.
        and_then (try_fold (validate_port_step S) ({}, {}) (nd_inputs n @ nd_outputs n)) (\<lambda>_.
        and_then (try_fold (validate_parameter_step R S) ({}, None) (nd_parameters n)) (\<lambda>_.
        Inr (Some (nd_id n)))))))))"

definition validate_nodes :: "'q external_api \<Rightarrow> 'q graph_document \<Rightarrow> document_error + unit" where
  "validate_nodes R D =
     and_then (try_fold (validate_node_step R (gd_schema D)) None (gd_nodes D)) (\<lambda>_. Inr ())"

section \<open>Wires\<close>

record wire_scan =
  ws_previous :: "graph_wire_id option"
  ws_targets :: "wire_endpoint set"
  ws_pairs :: "(wire_endpoint \<times> wire_endpoint) set"

definition validate_wire_step ::
  "'q graph_document \<Rightarrow> wire_scan \<Rightarrow> wire_definition \<Rightarrow> document_error + wire_scan" where
  "validate_wire_step D st w =
     (if wd_id w = 0 then Inl (DE_ZeroIdentifier ''wire'')
      else if ws_previous st = Some (wd_id w) then Inl (DE_DuplicateIdentifier ''wire'')
      else
        and_then (ok_or (DE_UnknownNode (we_node (wd_source w))) (document_node D (we_node (wd_source w))))
          (\<lambda>source_node.
        and_then (ok_or (DE_UnknownNode (we_node (wd_target w))) (document_node D (we_node (wd_target w))))
          (\<lambda>target_node.
        and_then (ok_or (DE_UnknownOutput (wd_source w))
          (find_port (nd_outputs source_node) (we_port (wd_source w)))) (\<lambda>source.
        and_then (ok_or (DE_UnknownInput (wd_target w))
          (find_port (nd_inputs target_node) (we_port (wd_target w)))) (\<lambda>target.
        if pd_value_type source \<noteq> pd_value_type target
          then Inl (DE_WireTypeMismatch (pd_value_type source) (pd_value_type target))
        else if (wd_source w, wd_target w) \<in> ws_pairs st then Inl DE_DuplicateEndpoints
        else if wd_target w \<in> ws_targets st then Inl (DE_InputAlreadyConnected (wd_target w))
        else Inr \<lparr>ws_previous = Some (wd_id w), ws_targets = insert (wd_target w) (ws_targets st),
                  ws_pairs = insert (wd_source w, wd_target w) (ws_pairs st)\<rparr>)))))"

definition validate_wires :: "'q graph_document \<Rightarrow> document_error + unit" where
  "validate_wires D =
     and_then (try_fold (validate_wire_step D)
       \<lparr>ws_previous = None, ws_targets = {}, ws_pairs = {}\<rparr> (gd_wires D)) (\<lambda>_. Inr ())"

section \<open>Construction\<close>

definition canonical_node :: "'q node_definition \<Rightarrow> 'q node_definition" where
  "canonical_node n = n\<lparr>nd_inputs := sort_key pd_id (nd_inputs n),
     nd_outputs := sort_key pd_id (nd_outputs n),
     nd_parameters := sort_key np_id (nd_parameters n)\<rparr>"

definition canonical_document ::
  "u64 \<Rightarrow> 'q graph_schema \<Rightarrow> clock_definition list \<Rightarrow> 'q node_definition list \<Rightarrow> wire_definition list
     \<Rightarrow> 'q graph_document" where
  "canonical_document revision schema clocks nodes wires =
     \<lparr>gd_revision = revision, gd_schema = schema, gd_clocks = sort_key cd_id clocks,
      gd_nodes = map canonical_node (sort_key nd_id nodes), gd_wires = sort_key wd_id wires\<rparr>"

definition try_new_document ::
  "'q external_api \<Rightarrow> u64 \<Rightarrow> 'q graph_schema \<Rightarrow> clock_definition list \<Rightarrow> 'q node_definition list
     \<Rightarrow> wire_definition list \<Rightarrow> document_error + 'q graph_document" where
  "try_new_document R revision schema clocks nodes wires =
     and_then (validate_count (length clocks) (maximum_clocks (gs_limits schema)) ''clock count'') (\<lambda>_.
     and_then (validate_count (length nodes) (maximum_nodes (gs_limits schema)) ''node count'') (\<lambda>_.
     and_then (validate_count (length wires) (maximum_wires (gs_limits schema)) ''wire count'') (\<lambda>_.
     let document = canonical_document revision schema clocks nodes wires in
     and_then (validate_clocks document) (\<lambda>_.
     and_then (validate_type_clocks document) (\<lambda>_.
     and_then (validate_nodes R document) (\<lambda>_.
     and_then (validate_wires document) (\<lambda>_.
     Inr document)))))))"

section \<open>What an accepted document is\<close>

text \<open>
  The fields of an id-keyed table and its relations to the other tables, with no loop or search.
  A derived clock refers to its source.
\<close>

definition clock_resolves :: "'q graph_document \<Rightarrow> graph_clock_id \<Rightarrow> bool" where
  "clock_resolves D i \<longleftrightarrow> i \<in> cd_id ` set (gd_clocks D)"

fun clock_kind_ok :: "'q graph_document \<Rightarrow> clock_kind \<Rightarrow> bool" where
  "clock_kind_ok D (HostMonotonic ticks) \<longleftrightarrow> ticks \<noteq> 0"
| "clock_kind_ok D (DeviceCycle d ticks) \<longleftrightarrow> \<not> device_id_is_zero d \<and> ticks \<noteq> 0"
| "clock_kind_ok D (Derived s n d) \<longleftrightarrow>
     s \<noteq> 0 \<and> n \<noteq> 0 \<and> d \<noteq> 0 \<and> coprime (unat n) (unat d) \<and> clock_resolves D s"

definition clock_ok :: "'q graph_document \<Rightarrow> clock_definition \<Rightarrow> bool" where
  "clock_ok D c \<longleftrightarrow> cd_id c \<noteq> 0 \<and> valid_stable_name (cd_name c) \<and> clock_kind_ok D (cd_kind c)"

definition clock_references :: "'q graph_document \<Rightarrow> (graph_clock_id \<times> graph_clock_id) set" where
  "clock_references D = {(a, b). \<exists>c \<in> set (gd_clocks D). \<exists>n d. a = cd_id c \<and> cd_kind c = Derived b n d}"

definition port_ok :: "'q graph_schema \<Rightarrow> port_definition \<Rightarrow> bool" where
  "port_ok S p \<longleftrightarrow> pd_id p \<noteq> 0 \<and> valid_stable_name (pd_name p) \<and> value_type S (pd_value_type p) \<noteq> None"

definition parameter_ok :: "'q external_api \<Rightarrow> 'q graph_schema \<Rightarrow> 'q node_parameter \<Rightarrow> bool" where
  "parameter_ok R S p \<longleftrightarrow> np_id p \<noteq> 0 \<and> valid_stable_name (np_name p)
     \<and> validate_typed_value R S (np_value p) = Inr ()"

fun domain_ok :: "execution_domain \<Rightarrow> bool" where
  "domain_ok HostExact \<longleftrightarrow> True"
| "domain_ok (Service d) \<longleftrightarrow> \<not> device_id_is_zero d"
| "domain_ok (Realtime d) \<longleftrightarrow> \<not> device_id_is_zero d"

definition node_ok :: "'q external_api \<Rightarrow> 'q graph_schema \<Rightarrow> 'q node_definition \<Rightarrow> bool" where
  "node_ok R S n \<longleftrightarrow>
     nd_id n \<noteq> 0 \<and> valid_stable_name (nk_name (nd_kind n)) \<and> nk_version (nd_kind n) \<noteq> 0
     \<and> valid_label (nd_label n) (maximum_label_bytes (gs_limits S)) \<and> domain_ok (nd_domain n)
     \<and> length (nd_inputs n) + length (nd_outputs n) \<le> min usize_max (maximum_ports_per_node (gs_limits S))
     \<and> length (nd_parameters n) \<le> maximum_parameters_per_node (gs_limits S)
     \<and> (\<forall>p \<in> set (nd_inputs n @ nd_outputs n). port_ok S p)
     \<and> distinct (map pd_id (nd_inputs n @ nd_outputs n))
     \<and> distinct (map pd_name (nd_inputs n @ nd_outputs n))
     \<and> sorted (map pd_id (nd_inputs n)) \<and> sorted (map pd_id (nd_outputs n))
     \<and> (\<forall>p \<in> set (nd_parameters n). parameter_ok R S p)
     \<and> canonical_table np_id (nd_parameters n) \<and> distinct (map np_name (nd_parameters n))"

definition wire_ok :: "'q graph_document \<Rightarrow> wire_definition \<Rightarrow> bool" where
  "wire_ok D w \<longleftrightarrow> wd_id w \<noteq> 0 \<and>
     (\<exists>sn \<in> set (gd_nodes D). \<exists>tn \<in> set (gd_nodes D).
        \<exists>src_port \<in> set (nd_outputs sn). \<exists>tgt_port \<in> set (nd_inputs tn).
          wd_source w = WireEndpoint (nd_id sn) (pd_id src_port)
          \<and> wd_target w = WireEndpoint (nd_id tn) (pd_id tgt_port)
          \<and> pd_value_type src_port = pd_value_type tgt_port)"

definition clocks_wf :: "'q graph_document \<Rightarrow> bool" where
  "clocks_wf D \<longleftrightarrow>
     length (gd_clocks D) \<le> maximum_clocks (gs_limits (gd_schema D))
     \<and> (\<forall>c \<in> set (gd_clocks D). clock_ok D c)
     \<and> canonical_table cd_id (gd_clocks D) \<and> distinct (map cd_name (gd_clocks D))
     \<and> acyclic (clock_references D)
     \<and> (\<forall>d \<in> set (gs_types (gd_schema D)). \<forall>c. type_clock (td_kind d) = Some c \<longrightarrow> clock_resolves D c)"

definition nodes_wf :: "'q external_api \<Rightarrow> 'q graph_document \<Rightarrow> bool" where
  "nodes_wf R D \<longleftrightarrow>
     length (gd_nodes D) \<le> maximum_nodes (gs_limits (gd_schema D))
     \<and> (\<forall>n \<in> set (gd_nodes D). node_ok R (gd_schema D) n) \<and> canonical_table nd_id (gd_nodes D)"

definition wires_wf :: "'q graph_document \<Rightarrow> bool" where
  "wires_wf D \<longleftrightarrow>
     length (gd_wires D) \<le> maximum_wires (gs_limits (gd_schema D))
     \<and> (\<forall>w \<in> set (gd_wires D). wire_ok D w)
     \<and> canonical_table wd_id (gd_wires D) \<and> distinct (map wd_target (gd_wires D))"

definition document_wf :: "'q external_api \<Rightarrow> 'q graph_document \<Rightarrow> bool" where
  "document_wf R D \<longleftrightarrow> clocks_wf D \<and> nodes_wf R D \<and> wires_wf D"

section \<open>Arithmetic of clock ratios\<close>

lemma gcd_u32_unat: "unat (gcd_u32 a b) = gcd (unat a) (unat b)"
proof (induction a b rule: gcd_u32.induct)
  case (1 a b)
  show ?case
  proof (cases "b = 0")
    case True
    then show ?thesis by (simp add: gcd_u32.simps)
  next
    case False
    with 1 have "unat (gcd_u32 a b) = gcd (unat b) (unat a mod unat b)"
      by (subst gcd_u32.simps) (simp add: unat_mod)
    then show ?thesis by (simp add: gcd_red_nat[symmetric])
  qed
qed

lemma gcd_u32_one: "gcd_u32 a b = 1 \<longleftrightarrow> coprime (unat a) (unat b)"
  by (metis coprime_iff_gcd_eq_1 gcd_u32_unat unat_1 word_unat_eq_iff)

section \<open>The clock validators decide it\<close>

lemma clock_index_Some:
  "clock_index D i = Some j \<Longrightarrow> j < length (gd_clocks D) \<and> cd_id (gd_clocks D ! j) = i"
  unfolding clock_index_def by (rule binary_search_sound)

lemma clock_index_None_iff:
  "sorted (map cd_id (gd_clocks D)) \<Longrightarrow> clock_index D i = None \<longleftrightarrow> \<not> clock_resolves D i"
  using lookup_by_key_None_iff[of cd_id "gd_clocks D" i]
  by (simp add: clock_index_def lookup_by_key_def clock_resolves_def)

lemma require_clock_ok_iff:
  assumes "sorted (map cd_id (gd_clocks D))"
  shows "(\<exists>j. require_clock D i = Inr j) \<longleftrightarrow> clock_resolves D i"
  using clock_index_None_iff[OF assms, of i] by (cases "clock_index D i") (auto simp: require_clock_def)

interpretation clock_scan: unique_scan "validate_clock_step D" cd_id cd_name
  "\<lambda>c. cd_id c \<noteq> 0 \<and> valid_stable_name (cd_name c)
      \<and> validate_clock_kind D (cd_id c) (cd_kind c) = Inr ()"
  for D :: "'q graph_document"
  by unfold_locales (auto simp: validate_clock_step_def ex_unit split: if_splits)

lemma validate_clock_kind_ok_iff:
  assumes "sorted (map cd_id (gd_clocks D))"
  shows "validate_clock_kind D i k = Inr () \<longleftrightarrow> clock_kind_ok D k"
  using require_clock_ok_iff[OF assms]
  by (cases k) (auto simp: validate_clock_kind_def gcd_u32_one ex_unit)

definition clock_succs :: "'q graph_document \<Rightarrow> nat \<Rightarrow> nat set" where
  "clock_succs D i = {j. \<exists>s n d. cd_kind (gd_clocks D ! i) = Derived s n d \<and> clock_index D s = Some j}"

lemma finite_clock_succs: "finite (clock_succs D i)"
proof -
  have "clock_succs D i \<subseteq> {the (clock_index D (case cd_kind (gd_clocks D ! i) of Derived s n d \<Rightarrow> s | _ \<Rightarrow> 0))}"
    by (auto simp: clock_succs_def)
  then show ?thesis by (rule finite_subset) simp
qed

text \<open>One call of the search, written over its successor set.\<close>

lemma visit_clock_cases [consumes 4]:
  assumes "i < length (gd_clocks D)" and "i < length st" and "st ! i \<noteq> 1" and "st ! i \<noteq> 2"
  obtains (source) s where "clock_succs D i = {s}" "s < length (gd_clocks D)"
      "visit_clock D i st = and_then (visit_clock D s (st[i := 1])) (\<lambda>st'. Inr (st'[i := 2]))"
    | (root) "clock_succs D i = {}" "visit_clock D i st = Inr (st[i := 2])"
    | (unknown) c n d where "cd_kind (gd_clocks D ! i) = Derived c n d" "clock_index D c = None"
        "visit_clock D i st = Inl (DE_UnknownClock c)"
proof (cases "cd_kind (gd_clocks D ! i)")
  case (Derived r n d)
  show thesis
  proof (cases "clock_index D r")
    case None
    with assms Derived have "visit_clock D i st = Inl (DE_UnknownClock r)"
      by (subst visit_clock.simps) (simp add: require_clock_def)
    with Derived None show thesis by (intro unknown)
  next
    case (Some s)
    with assms Derived have "visit_clock D i st = and_then (visit_clock D s (st[i := 1])) (\<lambda>st'. Inr (st'[i := 2]))"
      by (subst visit_clock.simps) (simp add: require_clock_def)
    with source Some Derived clock_index_Some[OF Some] show thesis by (auto simp: clock_succs_def)
  qed
next
  case (HostMonotonic x)
  with assms show thesis by (intro root) (auto simp: clock_succs_def visit_clock.simps[of D i])
next
  case (DeviceCycle x y)
  with assms show thesis by (intro root) (auto simp: clock_succs_def visit_clock.simps[of D i])
qed

text \<open>
  A successful visit keeps the ranking of the finished clocks and leaves the same clocks on the
  path. A reported recursion is a cycle, or the search ran into the path it started from.
\<close>

definition grey :: "nat list \<Rightarrow> nat set" where
  "grey states = {i. i < length states \<and> states ! i = 1}"

definition clock_edges :: "'q graph_document \<Rightarrow> (nat \<times> nat) set" where
  "clock_edges D = {(i, j). i < length (gd_clocks D) \<and> j \<in> clock_succs D i}"

lemma clock_succs_in_range: "j \<in> clock_succs D i \<Longrightarrow> j < length (gd_clocks D)"
  by (auto simp: clock_succs_def dest: clock_index_Some)

lemma visit_clock_post:
  assumes "visit_clock D i st = Inr st'" and "black_ranked (clock_succs D) st"
  shows "length st' = length st \<and> black_ranked (clock_succs D) st'
    \<and> insert i (black st) \<subseteq> black st' \<and> grey st' \<subseteq> grey st"
  using assms
proof (induction "white_count st" arbitrary: i st st' rule: less_induct)
  case less
  show ?case
  proof (cases "st ! i = 2")
    case True
    with less.prems show ?thesis
      by (auto simp: visit_clock.simps[of D i] black_def split: if_splits)
  next
    case False
    with less.prems(1) have i: "i < length (gd_clocks D)" "i < length st" "st ! i \<noteq> 1"
      by (auto simp: visit_clock.simps[of D i] split: if_splits)
    have finish: "length (s[i := 2]) = length st \<and> black_ranked (clock_succs D) (s[i := 2])
        \<and> insert i (black st) \<subseteq> black (s[i := 2]) \<and> grey (s[i := 2]) \<subseteq> grey st"
      if s: "length s = length st" "black_ranked (clock_succs D) s" "black st \<subseteq> black s"
        "grey s \<subseteq> insert i (grey st)" "clock_succs D i \<subseteq> black s" for s
    proof -
      have "black_ranked (clock_succs D) (s[i := 2])"
      proof (cases "s ! i = 2")
        case True
        then have "s[i := 2] = s" by (metis list_update_id)
        with s show ?thesis by simp
      next
        case False
        then show ?thesis using black_ranked_finish[OF s(2) _ False s(5) finite_clock_succs] i s(1) by simp
      qed
      moreover have "grey (s[i := 2]) \<subseteq> grey st"
        using s(1,4) i(2) by (auto simp: grey_def nth_list_update subset_iff split: if_splits)
      ultimately show ?thesis using s i by (auto simp: black_update_black)
    qed
    from i False show ?thesis
    proof (cases rule: visit_clock_cases)
      case (source c)
      with less.prems(1) obtain s where s: "visit_clock D c (st[i := 1]) = Inr s" "st' = s[i := 2]"
        by auto
      have "black_ranked (clock_succs D) (st[i := 1])"
        using less.prems(2) False by (simp add: black_ranked_def black_update_grey)
      with less.hyps[OF _ s(1)] i False have "length s = length st" "black_ranked (clock_succs D) s"
        "insert c (black st) \<subseteq> black s" "grey s \<subseteq> grey (st[i := 1])"
        by (auto simp: white_count_update black_update_grey)
      moreover have "grey (st[i := 1]) \<subseteq> insert i (grey st)"
        by (auto simp: grey_def nth_list_update split: if_splits)
      ultimately show ?thesis using finish[of s] s(2) source(1) by auto
    next
      case root
      with less.prems(1) finish[of st] less.prems(2) show ?thesis by auto
    next
      case unknown
      with less.prems(1) show ?thesis by simp
    qed
  qed
qed

lemma visit_clock_recursive:
  assumes "visit_clock D i st = Inl (DE_RecursiveClock c)"
  shows "\<not> acyclic (clock_edges D) \<or> (\<exists>j \<in> grey st. (i, j) \<in> (clock_edges D)\<^sup>*)"
  using assms
proof (induction "white_count st" arbitrary: i st rule: less_induct)
  case less
  show ?case
  proof (cases "st ! i = 1")
    case True
    with less.prems have "i \<in> grey st"
      by (auto simp: visit_clock.simps[of D i] grey_def split: if_splits)
    then show ?thesis by blast
  next
    case False
    with less.prems have i: "i < length (gd_clocks D)" "i < length st" "st ! i \<noteq> 2"
      by (auto simp: visit_clock.simps[of D i] split: if_splits)
    from i(1,2) False i(3) show ?thesis
    proof (cases rule: visit_clock_cases)
      case (source s)
      with less.prems have "visit_clock D s (st[i := 1]) = Inl (DE_RecursiveClock c)" by auto
      from less.hyps[OF _ this] i False consider
          "\<not> acyclic (clock_edges D)"
        | j where "j \<in> grey (st[i := 1])" "(s, j) \<in> (clock_edges D)\<^sup>*"
        by (auto simp: white_count_update)
      then show ?thesis
      proof cases
        case (2 j)
        have edge: "(i, s) \<in> clock_edges D" using i source by (simp add: clock_edges_def)
        show ?thesis
        proof (cases "j = i")
          case True
          with 2 edge have "(i, i) \<in> (clock_edges D)\<^sup>+" by (simp add: rtrancl_into_trancl2)
          then show ?thesis by (auto simp: acyclic_def)
        next
          case False
          with 2 have "j \<in> grey st" by (auto simp: grey_def nth_list_update)
          with 2 edge show ?thesis by (meson converse_rtrancl_into_rtrancl)
        qed
      qed blast
    qed (use less.prems in simp_all)
  qed
qed

interpretation clock_dfs: colour_dfs "length (gd_clocks D)" "clock_succs D"
  "\<lambda>states i. visit_clock D i states" for D :: "'q graph_document"
  by unfold_locales (drule visit_clock_post, assumption, simp)

text \<open>Without unknown sources and panics the search can only report a cycle.\<close>

lemma visit_clock_error:
  assumes "visit_clock D i st = Inl e" and "i < length (gd_clocks D)"
    and "length st = length (gd_clocks D)"
    and "\<And>s. s \<in> snd ` clock_references D \<Longrightarrow> clock_index D s \<noteq> None"
  shows "\<exists>c. e = DE_RecursiveClock c"
  using assms(1-3)
proof (induction "white_count st" arbitrary: i st rule: less_induct)
  case less
  consider "st ! i = 1" | "st ! i = 2" | "st ! i \<noteq> 1" "st ! i \<noteq> 2" by blast
  then show ?case
  proof cases
    case 3
    note i = less.prems(2) less.prems(2)[folded less.prems(3)] 3
    from i show ?thesis
    proof (cases rule: visit_clock_cases)
      case (source s)
      with less.prems have "visit_clock D s (st[i := 1]) = Inl e" by auto
      with less.hyps[OF _ this] source i show ?thesis by (simp add: white_count_update less.prems)
    next
      case root
      with less.prems show ?thesis by simp
    next
      case (unknown r n d)
      then have "r \<in> snd ` clock_references D"
        using i by (force simp: clock_references_def)
      with assms(4) unknown show ?thesis by blast
    qed
  qed (use less.prems in \<open>auto simp: visit_clock.simps[of D i]\<close>)
qed

text \<open>Edges between positions and references between identifiers are the same graph.\<close>

lemma trancl_inv_image:
  "(a, b) \<in> E\<^sup>+ \<Longrightarrow> (\<And>x y. (x, y) \<in> E \<Longrightarrow> (f x, f y) \<in> F) \<Longrightarrow> (f a, f b) \<in> F\<^sup>+"
  by (induction rule: trancl_induct) (auto intro: trancl_into_trancl)

lemma clock_edges_references:
  assumes "acyclic (clock_references D)"
  shows "acyclic (clock_edges D)"
proof -
  have "(cd_id (gd_clocks D ! i), cd_id (gd_clocks D ! j)) \<in> clock_references D"
    if ij: "(i, j) \<in> clock_edges D" for i j
  proof -
    from ij obtain s n d where i: "i < length (gd_clocks D)" "cd_kind (gd_clocks D ! i) = Derived s n d"
      and j: "clock_index D s = Some j" by (auto simp: clock_edges_def clock_succs_def)
    from clock_index_Some[OF j] i show ?thesis
      unfolding clock_references_def by force
  qed
  then have "(cd_id (gd_clocks D ! i), cd_id (gd_clocks D ! i)) \<in> (clock_references D)\<^sup>+"
    if "(i, i) \<in> (clock_edges D)\<^sup>+" for i
    using trancl_inv_image[OF that, of "\<lambda>i. cd_id (gd_clocks D ! i)"] by blast
  with assms show ?thesis by (auto simp: acyclic_def)
qed

lemma clock_references_ranked:
  assumes canon: "canonical_table cd_id (gd_clocks D)"
    and resolve: "\<And>s. s \<in> snd ` clock_references D \<Longrightarrow> clock_index D s \<noteq> None"
    and rank: "\<forall>i < length (gd_clocks D). \<forall>j \<in> clock_succs D i. j < length (gd_clocks D) \<and> rank j < (rank i :: nat)"
  shows "clock_references D \<subseteq> (measure (\<lambda>r. rank (the (clock_index D r))))\<inverse>"
proof
  fix ab assume ab: "ab \<in> clock_references D"
  then obtain c b n d where c: "c \<in> set (gd_clocks D)" "cd_kind c = Derived b n d"
    and eq: "ab = (cd_id c, b)" by (auto simp: clock_references_def)
  from c have "clock_resolves D (cd_id c)" by (simp add: clock_resolves_def)
  then obtain i where i: "clock_index D (cd_id c) = Some i"
    using clock_index_None_iff[of D "cd_id c"] canon by (auto simp: canonical_table_def)
  from clock_index_Some[OF i] have "i < length (gd_clocks D)" and ci: "gd_clocks D ! i = c"
    using canonical_table_key_inj[OF canon, of "gd_clocks D ! i" c] c by auto
  from resolve[of b] ab eq obtain j where j: "clock_index D b = Some j" by force
  then have "j \<in> clock_succs D i" using c ci by (auto simp: clock_succs_def)
  with rank \<open>i < _\<close> i j show "ab \<in> (measure (\<lambda>r. rank (the (clock_index D r))))\<inverse>"
    by (auto simp: eq)
qed

lemma acyclic_measure_converse: "acyclic ((measure f)\<inverse>)"
  by (simp add: acyclic_converse wf_acyclic)

definition visit_clocks :: "'q graph_document \<Rightarrow> document_error + nat list" where
  "visit_clocks D = try_fold (\<lambda>states i. visit_clock D i states)
     (replicate (length (gd_clocks D)) 0) [0..<length (gd_clocks D)]"

lemma visit_clocks_ok_iff:
  assumes canon: "canonical_table cd_id (gd_clocks D)"
    and resolve: "\<And>s. s \<in> snd ` clock_references D \<Longrightarrow> clock_index D s \<noteq> None"
  shows "(\<exists>st. visit_clocks D = Inr st) \<longleftrightarrow> acyclic (clock_references D)"
proof
  assume "\<exists>st. visit_clocks D = Inr st"
  then obtain st where "visit_clocks D = Inr st" ..
  from clock_dfs.search_ranked[OF this[unfolded visit_clocks_def]] obtain rank :: "nat \<Rightarrow> nat" where
    "\<forall>i < length (gd_clocks D). \<forall>j \<in> clock_succs D i. j < length (gd_clocks D) \<and> rank j < rank i"
    by blast
  then show "acyclic (clock_references D)"
    by (intro acyclic_subset[OF acyclic_measure_converse clock_references_ranked[OF canon resolve]])
next
  assume acyclic: "acyclic (clock_references D)"
  show "\<exists>st. visit_clocks D = Inr st"
  proof (cases "visit_clocks D")
    case (Inl e)
    let ?P = "\<lambda>st. length st = length (gd_clocks D) \<and> grey st = {} \<and> black_ranked (clock_succs D) st"
    have "?P (replicate (length (gd_clocks D)) 0)" by (auto simp: grey_def black_ranked_white)
    moreover have "?P st'" if "?P st" "visit_clock D i st = Inr st'" for i st st'
      using visit_clock_post[OF that(2)] that(1) by auto
    ultimately have "\<exists>st. \<exists>i \<in> set [0..<length (gd_clocks D)]. ?P st \<and> visit_clock D i st = Inl e"
      by (intro try_fold_Inl[OF Inl[unfolded visit_clocks_def], of ?P]) blast+
    then obtain st i where "i < length (gd_clocks D)" "length st = length (gd_clocks D)"
      "grey st = {}" and err: "visit_clock D i st = Inl e" by auto
    moreover from visit_clock_error[OF err] this resolve obtain c where "e = DE_RecursiveClock c" by blast
    ultimately have "\<not> acyclic (clock_edges D)" using visit_clock_recursive[of D i st c] by auto
    with clock_edges_references[OF acyclic] show ?thesis by blast
  qed blast
qed

lemma validate_clocks_iff:
  assumes sorted: "sorted (map cd_id (gd_clocks D))"
  shows "validate_clocks D = Inr () \<longleftrightarrow>
    (\<forall>c \<in> set (gd_clocks D). clock_ok D c) \<and> canonical_table cd_id (gd_clocks D)
    \<and> distinct (map cd_name (gd_clocks D)) \<and> acyclic (clock_references D)"
proof -
  have ok: "clock_ok D c \<longleftrightarrow> cd_id c \<noteq> 0 \<and> valid_stable_name (cd_name c)
      \<and> validate_clock_kind D (cd_id c) (cd_kind c) = Inr ()" for c
    by (simp add: clock_ok_def validate_clock_kind_ok_iff[OF sorted])
  have scan: "is_ok (try_fold (validate_clock_step D) ({}, None) (gd_clocks D)) \<longleftrightarrow>
    (\<forall>c \<in> set (gd_clocks D). clock_ok D c) \<and> canonical_table cd_id (gd_clocks D)
    \<and> distinct (map cd_name (gd_clocks D))"
    unfolding ok by (rule clock_scan.scan_ok_iff[OF sorted])
  have resolve: "clock_index D s \<noteq> None"
    if "\<forall>c \<in> set (gd_clocks D). clock_ok D c" "s \<in> snd ` clock_references D" for s
  proof -
    from that(2) obtain c n d where "c \<in> set (gd_clocks D)" "cd_kind c = Derived s n d"
      by (auto simp: clock_references_def)
    with that(1) have "clock_resolves D s" by (auto simp: clock_ok_def)
    then show ?thesis using clock_index_None_iff[OF sorted] by simp
  qed
  have search: "(\<exists>st. visit_clocks D = Inr st) \<longleftrightarrow> acyclic (clock_references D)"
    if "\<forall>c \<in> set (gd_clocks D). clock_ok D c" "canonical_table cd_id (gd_clocks D)"
    using visit_clocks_ok_iff[OF that(2) resolve[OF that(1)]] .
  have "validate_clocks D = Inr () \<longleftrightarrow> is_ok (try_fold (validate_clock_step D) ({}, None) (gd_clocks D))
    \<and> (\<exists>st. visit_clocks D = Inr st)"
    unfolding validate_clocks_def visit_clocks_def[symmetric] is_ok_iff by simp
  then show ?thesis unfolding scan using search by blast
qed

lemma validate_type_clocks_iff:
  assumes "sorted (map cd_id (gd_clocks D))"
  shows "validate_type_clocks D = Inr () \<longleftrightarrow>
    (\<forall>d \<in> set (gs_types (gd_schema D)). \<forall>c. type_clock (td_kind d) = Some c \<longrightarrow> clock_resolves D c)"
proof -
  have "(case k of Some clock \<Rightarrow> and_then (require_clock D clock) (\<lambda>_. Inr ()) | None \<Rightarrow> Inr ()) = Inr ()
    \<longleftrightarrow> (\<forall>c. k = Some c \<longrightarrow> clock_resolves D c)" for k
    by (cases k) (simp_all add: require_clock_ok_iff[OF assms])
  then show ?thesis by (simp add: validate_type_clocks_def)
qed

section \<open>The node validators decide it\<close>

lemma validate_count_ok [simp]: "validate_count n m name = Inr u \<longleftrightarrow> n \<le> m"
  by (auto simp: validate_count_def)

lemma validate_domain_ok [simp]: "validate_domain d = Inr u \<longleftrightarrow> domain_ok d"
  by (cases d) auto

interpretation parameter_scan: unique_scan "validate_parameter_step R S" np_id np_name "parameter_ok R S"
  for R :: "'q external_api" and S
  by unfold_locales (auto simp: validate_parameter_step_def parameter_ok_def ex_unit split: if_splits)

lemma validate_ports_ok:
  "(\<exists>st. try_fold (validate_port_step S) (ids, names) ps = Inr st) \<longleftrightarrow>
     (\<forall>p \<in> set ps. port_ok S p) \<and> distinct (map pd_id ps) \<and> distinct (map pd_name ps)
     \<and> pd_id ` set ps \<inter> ids = {} \<and> pd_name ` set ps \<inter> names = {}"
proof (induction ps arbitrary: ids names)
  case (Cons p ps)
  have step: "validate_port_step S (ids, names) p = Inr st \<longleftrightarrow>
    port_ok S p \<and> pd_id p \<notin> ids \<and> pd_name p \<notin> names
    \<and> st = (insert (pd_id p) ids, insert (pd_name p) names)" for st
    by (auto simp: validate_port_step_def port_ok_def)
  have "(\<exists>st. try_fold (validate_port_step S) (ids, names) (p # ps) = Inr st) \<longleftrightarrow>
    port_ok S p \<and> pd_id p \<notin> ids \<and> pd_name p \<notin> names
    \<and> (\<exists>st. try_fold (validate_port_step S) (insert (pd_id p) ids, insert (pd_name p) names) ps = Inr st)"
    by (simp add: step)
  then show ?case unfolding Cons.IH by auto
qed simp

fun node_sorted :: "'q node_definition \<Rightarrow> bool" where
  "node_sorted n \<longleftrightarrow> sorted (map pd_id (nd_inputs n)) \<and> sorted (map pd_id (nd_outputs n))
     \<and> sorted (map np_id (nd_parameters n))"

lemma validate_node_step_ok:
  assumes "node_sorted n"
  shows "validate_node_step R S previous n = Inr st \<longleftrightarrow>
    node_ok R S n \<and> previous \<noteq> Some (nd_id n) \<and> st = Some (nd_id n)"
proof -
  have parameters: "(\<exists>st. try_fold (validate_parameter_step R S) ({}, None) (nd_parameters n) = Inr st) \<longleftrightarrow>
    (\<forall>p \<in> set (nd_parameters n). parameter_ok R S p) \<and> canonical_table np_id (nd_parameters n)
    \<and> distinct (map np_name (nd_parameters n))"
    using parameter_scan.scan_ok_iff[of "nd_parameters n" R S] assms by (simp add: is_ok_iff)
  have "validate_node_step R S previous n = Inr st \<longleftrightarrow>
    nd_id n \<noteq> 0 \<and> previous \<noteq> Some (nd_id n)
    \<and> valid_stable_name (nk_name (nd_kind n)) \<and> nk_version (nd_kind n) \<noteq> 0
    \<and> valid_label (nd_label n) (maximum_label_bytes (gs_limits S)) \<and> domain_ok (nd_domain n)
    \<and> length (nd_inputs n) + length (nd_outputs n) \<le> usize_max
    \<and> length (nd_inputs n) + length (nd_outputs n) \<le> maximum_ports_per_node (gs_limits S)
    \<and> length (nd_parameters n) \<le> maximum_parameters_per_node (gs_limits S)
    \<and> (\<exists>st. try_fold (validate_port_step S) ({}, {}) (nd_inputs n @ nd_outputs n) = Inr st)
    \<and> (\<exists>st. try_fold (validate_parameter_step R S) ({}, None) (nd_parameters n) = Inr st)
    \<and> st = Some (nd_id n)"
    by (auto simp: validate_node_step_def Let_def ex_unit simp del: try_fold.simps)
  then show ?thesis
    unfolding validate_ports_ok parameters using assms
    by (auto simp: node_ok_def)
qed

interpretation node_scan: key_scan "validate_node_step R S" nd_id
  "\<lambda>n. is_ok (validate_node_step R S None n)" for R :: "'q external_api" and S
proof unfold_locales
  fix prev st' and n :: "'q node_definition"
  show "validate_node_step R S prev n = Inr st' \<longleftrightarrow>
    is_ok (validate_node_step R S None n) \<and> prev \<noteq> Some (nd_id n) \<and> st' = Some (nd_id n)"
    unfolding validate_node_step_def is_ok_iff Let_def
    by (auto simp del: try_fold.simps try_fold_append)
qed

lemma validate_nodes_iff:
  assumes "sorted (map nd_id (gd_nodes D))" and "\<forall>n \<in> set (gd_nodes D). node_sorted n"
  shows "validate_nodes R D = Inr () \<longleftrightarrow>
    (\<forall>n \<in> set (gd_nodes D). node_ok R (gd_schema D) n) \<and> canonical_table nd_id (gd_nodes D)"
proof -
  have "is_ok (validate_node_step R (gd_schema D) None n) \<longleftrightarrow> node_ok R (gd_schema D) n"
    if "n \<in> set (gd_nodes D)" for n
    using assms(2) that by (simp add: is_ok_iff validate_node_step_ok del: node_sorted.simps)
  then show ?thesis
    using node_scan.scan_ok_iff[OF assms(1), of R "gd_schema D"] by (simp add: validate_nodes_def)
qed

section \<open>The wire validator decides it\<close>

lemma document_node_lookup: "document_node D i = lookup_by_key i nd_id (gd_nodes D)"
  by (simp add: document_node_def node_index_def lookup_by_key_def)

lemma document_node_iff:
  "canonical_table nd_id (gd_nodes D) \<Longrightarrow> document_node D i = Some n \<longleftrightarrow> n \<in> set (gd_nodes D) \<and> nd_id n = i"
  unfolding document_node_lookup by (rule lookup_by_key_iff)

lemma node_ok_ports:
  assumes "node_ok R S n"
  shows "canonical_table pd_id (nd_inputs n)" and "canonical_table pd_id (nd_outputs n)"
  using assms by (auto simp: node_ok_def canonical_table_def)

lemma find_port_iff:
  "canonical_table pd_id ps \<Longrightarrow> find_port ps i = Some p \<longleftrightarrow> p \<in> set ps \<and> pd_id p = i"
  unfolding find_port_def by (rule lookup_by_key_iff)

definition wire_resolves :: "'q graph_document \<Rightarrow> wire_definition \<Rightarrow> bool" where
  "wire_resolves D w \<longleftrightarrow> wd_id w \<noteq> 0 \<and>
     (\<exists>sn tn src_port tgt_port. document_node D (we_node (wd_source w)) = Some sn
        \<and> document_node D (we_node (wd_target w)) = Some tn
        \<and> find_port (nd_outputs sn) (we_port (wd_source w)) = Some src_port
        \<and> find_port (nd_inputs tn) (we_port (wd_target w)) = Some tgt_port
        \<and> pd_value_type src_port = pd_value_type tgt_port)"

lemma wire_resolves_iff:
  assumes "canonical_table nd_id (gd_nodes D)" and "\<forall>n \<in> set (gd_nodes D). node_ok R S n"
  shows "wire_resolves D w \<longleftrightarrow> wire_ok D w"
proof -
  have ports: "find_port (nd_inputs n) i = Some p \<longleftrightarrow> p \<in> set (nd_inputs n) \<and> pd_id p = i"
    "find_port (nd_outputs n) i = Some p \<longleftrightarrow> p \<in> set (nd_outputs n) \<and> pd_id p = i"
    if "n \<in> set (gd_nodes D)" for n i p
    using that assms(2) node_ok_ports find_port_iff by blast+
  note node = document_node_iff[OF assms(1)]
  show ?thesis
  proof
    assume "wire_resolves D w"
    then obtain sn tn src_port tgt_port where w: "wd_id w \<noteq> 0"
      "document_node D (we_node (wd_source w)) = Some sn" "document_node D (we_node (wd_target w)) = Some tn"
      "find_port (nd_outputs sn) (we_port (wd_source w)) = Some src_port"
      "find_port (nd_inputs tn) (we_port (wd_target w)) = Some tgt_port"
      "pd_value_type src_port = pd_value_type tgt_port"
      unfolding wire_resolves_def by blast
    then have n: "sn \<in> set (gd_nodes D)" "tn \<in> set (gd_nodes D)"
      "we_node (wd_source w) = nd_id sn" "we_node (wd_target w) = nd_id tn"
      by (simp_all add: node)
    with w have p: "src_port \<in> set (nd_outputs sn)" "tgt_port \<in> set (nd_inputs tn)"
      "we_port (wd_source w) = pd_id src_port" "we_port (wd_target w) = pd_id tgt_port"
      by (simp_all add: ports)
    from n(3,4) p(3,4) have "wd_source w = WireEndpoint (nd_id sn) (pd_id src_port)"
      "wd_target w = WireEndpoint (nd_id tn) (pd_id tgt_port)"
      by (metis wire_endpoint.collapse)+
    with w(1,6) n(1,2) p(1,2) show "wire_ok D w" unfolding wire_ok_def by blast
  next
    assume "wire_ok D w"
    then obtain sn tn src_port tgt_port where w: "wd_id w \<noteq> 0" "sn \<in> set (gd_nodes D)" "tn \<in> set (gd_nodes D)"
      "src_port \<in> set (nd_outputs sn)" "tgt_port \<in> set (nd_inputs tn)"
      "wd_source w = WireEndpoint (nd_id sn) (pd_id src_port)"
      "wd_target w = WireEndpoint (nd_id tn) (pd_id tgt_port)" "pd_value_type src_port = pd_value_type tgt_port"
      unfolding wire_ok_def by blast
    then have "document_node D (we_node (wd_source w)) = Some sn"
      "document_node D (we_node (wd_target w)) = Some tn"
      "find_port (nd_outputs sn) (we_port (wd_source w)) = Some src_port"
      "find_port (nd_inputs tn) (we_port (wd_target w)) = Some tgt_port"
      by (simp_all add: node ports)
    with w(1,8) show "wire_resolves D w" unfolding wire_resolves_def by blast
  qed
qed

lemma validate_wire_step_Inr:
  "validate_wire_step D st w = Inr st' \<longleftrightarrow>
     wire_resolves D w \<and> ws_previous st \<noteq> Some (wd_id w)
     \<and> (wd_source w, wd_target w) \<notin> ws_pairs st \<and> wd_target w \<notin> ws_targets st
     \<and> st' = \<lparr>ws_previous = Some (wd_id w), ws_targets = insert (wd_target w) (ws_targets st),
              ws_pairs = insert (wd_source w, wd_target w) (ws_pairs st)\<rparr>"
  by (auto simp: validate_wire_step_def wire_resolves_def)

lemma validate_wires_from:
  "(\<exists>st'. try_fold (validate_wire_step D) st ws = Inr st') \<longleftrightarrow>
     (\<forall>w \<in> set ws. wire_resolves D w) \<and> adjacent_distinct (ws_previous st) (map wd_id ws)
     \<and> distinct (map wd_target ws) \<and> wd_target ` set ws \<inter> ws_targets st = {}
     \<and> (\<lambda>w. (wd_source w, wd_target w)) ` set ws \<inter> ws_pairs st = {}"
proof (induction ws arbitrary: st)
  case (Cons w ws)
  let ?st = "\<lparr>ws_previous = Some (wd_id w), ws_targets = insert (wd_target w) (ws_targets st),
              ws_pairs = insert (wd_source w, wd_target w) (ws_pairs st)\<rparr>"
  have "(\<exists>st'. try_fold (validate_wire_step D) st (w # ws) = Inr st') \<longleftrightarrow>
     wire_resolves D w \<and> ws_previous st \<noteq> Some (wd_id w)
     \<and> (wd_source w, wd_target w) \<notin> ws_pairs st \<and> wd_target w \<notin> ws_targets st
     \<and> (\<exists>st'. try_fold (validate_wire_step D) ?st ws = Inr st')"
    by (auto simp: validate_wire_step_Inr)
  then show ?case unfolding Cons.IH by auto
qed simp

lemma validate_wires_iff:
  assumes "sorted (map wd_id (gd_wires D))"
  shows "validate_wires D = Inr () \<longleftrightarrow>
    (\<forall>w \<in> set (gd_wires D). wire_resolves D w) \<and> canonical_table wd_id (gd_wires D)
    \<and> distinct (map wd_target (gd_wires D))"
  using validate_wires_from[of D "\<lparr>ws_previous = None, ws_targets = {}, ws_pairs = {}\<rparr>" "gd_wires D"]
    adjacent_distinct_sorted[OF assms, of None] distinct_adjacent_distinct[of "map wd_id (gd_wires D)" None] assms
  by (auto simp: validate_wires_def canonical_table_def)

section \<open>Construction decides well-formedness\<close>

definition document_sorted :: "'q graph_document \<Rightarrow> bool" where
  "document_sorted D \<longleftrightarrow> sorted (map cd_id (gd_clocks D)) \<and> sorted (map nd_id (gd_nodes D))
     \<and> sorted (map wd_id (gd_wires D)) \<and> (\<forall>n \<in> set (gd_nodes D). node_sorted n)"

lemma canonical_node_id [simp]: "nd_id (canonical_node n) = nd_id n"
  by (simp add: canonical_node_def)

lemma canonical_document_sorted: "document_sorted (canonical_document r S cs ns ws)"
  unfolding document_sorted_def canonical_document_def
  by (auto simp: comp_def) (auto simp: canonical_node_def)

lemma document_validators_iff:
  assumes "document_sorted D"
    and "length (gd_clocks D) \<le> maximum_clocks (gs_limits (gd_schema D))"
    and "length (gd_nodes D) \<le> maximum_nodes (gs_limits (gd_schema D))"
    and "length (gd_wires D) \<le> maximum_wires (gs_limits (gd_schema D))"
  shows "validate_clocks D = Inr () \<and> validate_type_clocks D = Inr () \<and> validate_nodes R D = Inr ()
     \<and> validate_wires D = Inr () \<longleftrightarrow> document_wf R D"
proof -
  from assms have sorted: "sorted (map cd_id (gd_clocks D))" "sorted (map nd_id (gd_nodes D))"
    "sorted (map wd_id (gd_wires D))" "\<forall>n \<in> set (gd_nodes D). node_sorted n"
    by (simp_all add: document_sorted_def)
  show ?thesis
    unfolding document_wf_def clocks_wf_def nodes_wf_def wires_wf_def
      validate_clocks_iff[OF sorted(1)] validate_type_clocks_iff[OF sorted(1)]
      validate_nodes_iff[OF sorted(2,4)] validate_wires_iff[OF sorted(3)]
    using assms(2-4) wire_resolves_iff[of D R "gd_schema D"] by blast
qed

lemma try_new_document_Inr:
  "try_new_document R r S cs ns ws = Inr D \<longleftrightarrow>
     D = canonical_document r S cs ns ws \<and> document_wf R D"
proof -
  let ?D = "canonical_document r S cs ns ws"
  have lengths: "length (gd_clocks ?D) = length cs" "length (gd_nodes ?D) = length ns"
    "length (gd_wires ?D) = length ws" "gd_schema ?D = S"
    by (simp_all add: canonical_document_def)
  have "try_new_document R r S cs ns ws = Inr D \<longleftrightarrow>
    D = ?D \<and> length cs \<le> maximum_clocks (gs_limits S) \<and> length ns \<le> maximum_nodes (gs_limits S)
    \<and> length ws \<le> maximum_wires (gs_limits S)
    \<and> validate_clocks ?D = Inr () \<and> validate_type_clocks ?D = Inr () \<and> validate_nodes R ?D = Inr ()
    \<and> validate_wires ?D = Inr ()"
    by (auto simp: try_new_document_def Let_def ex_unit)
  also have "\<dots> \<longleftrightarrow> D = ?D \<and> document_wf R ?D"
    using document_validators_iff[OF canonical_document_sorted, of r S cs ns ws R] lengths
    by (auto simp: document_wf_def clocks_wf_def nodes_wf_def wires_wf_def)
  finally show ?thesis by auto
qed

lemma try_new_documentD:
  "try_new_document R r S cs ns ws = Inr D \<Longrightarrow> D = canonical_document r S cs ns ws \<and> document_wf R D"
  by (rule try_new_document_Inr[THEN iffD1])

lemma validated_lookups:
  assumes "document_wf R D"
  shows "document_node D i = Some n \<longleftrightarrow> n \<in> set (gd_nodes D) \<and> nd_id n = i"
    and "n \<in> set (gd_nodes D) \<Longrightarrow> find_port (nd_inputs n) j = Some p \<longleftrightarrow> p \<in> set (nd_inputs n) \<and> pd_id p = j"
    and "n \<in> set (gd_nodes D) \<Longrightarrow> find_port (nd_outputs n) j = Some p \<longleftrightarrow> p \<in> set (nd_outputs n) \<and> pd_id p = j"
proof -
  from assms have wf: "canonical_table nd_id (gd_nodes D)"
    "n \<in> set (gd_nodes D) \<Longrightarrow> node_ok R (gd_schema D) n" by (auto simp: document_wf_def nodes_wf_def)
  from wf(1) show "document_node D i = Some n \<longleftrightarrow> n \<in> set (gd_nodes D) \<and> nd_id n = i"
    by (rule document_node_iff)
  assume "n \<in> set (gd_nodes D)"
  note ports = node_ok_ports[OF wf(2)[OF this]]
  from ports(1) show "find_port (nd_inputs n) j = Some p \<longleftrightarrow> p \<in> set (nd_inputs n) \<and> pd_id p = j"
    by (rule find_port_iff)
  from ports(2) show "find_port (nd_outputs n) j = Some p \<longleftrightarrow> p \<in> set (nd_outputs n) \<and> pd_id p = j"
    by (rule find_port_iff)
qed

lemma document_wf_wire_resolves:
  "document_wf R D \<Longrightarrow> w \<in> set (gd_wires D) \<Longrightarrow> wire_resolves D w"
  using wire_resolves_iff[of D R "gd_schema D" w] by (auto simp: document_wf_def nodes_wf_def wires_wf_def)

text \<open>An accepted document is a fixed point of the canonicalisation.\<close>

lemma canonical_node_fixed: "node_ok R S n \<Longrightarrow> canonical_node n = n"
  by (simp add: canonical_node_def node_ok_def canonical_table_def sort_key_id_if_sorted)

lemma canonical_document_fixed:
  assumes "document_wf R D"
  shows "canonical_document (gd_revision D) (gd_schema D) (gd_clocks D) (gd_nodes D) (gd_wires D) = D"
proof -
  have "map canonical_node (gd_nodes D) = gd_nodes D"
    using assms canonical_node_fixed by (intro map_idI) (auto simp: document_wf_def nodes_wf_def)
  then show ?thesis
    using assms by (simp add: canonical_document_def document_wf_def clocks_wf_def nodes_wf_def
        wires_wf_def canonical_table_sort_key)
qed

lemma canonical_document_permutation:
  assumes "document_wf R (canonical_document r S cs ns ws)"
    and "mset cs' = mset cs" and "mset ns' = mset ns" and "mset ws' = mset ws"
  shows "canonical_document r S cs' ns' ws' = canonical_document r S cs ns ws"
proof -
  have clocks: "canonical_table cd_id (sort_key cd_id cs)" and wires: "canonical_table wd_id (sort_key wd_id ws)"
    using assms(1) by (simp_all add: document_wf_def clocks_wf_def wires_wf_def canonical_document_def)
  have nodes: "canonical_table nd_id (sort_key nd_id ns)"
    using assms(1) by (simp add: document_wf_def nodes_wf_def canonical_document_def canonical_table_def comp_def)
  show ?thesis
    by (simp only: canonical_document_def sort_key_permutation[OF assms(2) clocks]
        sort_key_permutation[OF assms(3) nodes] sort_key_permutation[OF assms(4) wires])
qed

section \<open>No index is out of range\<close>

lemma visit_clock_in_range:
  assumes "i < length (gd_clocks D)" and "length st = length (gd_clocks D)"
  shows "visit_clock D i st \<noteq> Inl DE_IndexPanic
    \<and> (\<forall>st'. visit_clock D i st = Inr st' \<longrightarrow> length st' = length (gd_clocks D))"
  using assms
proof (induction "white_count st" arbitrary: i st rule: less_induct)
  case less
  consider "st ! i = 1" | "st ! i = 2" | "st ! i \<noteq> 1" "st ! i \<noteq> 2" by blast
  then show ?case
  proof cases
    case 3
    note i = less.prems(1) less.prems(1)[folded less.prems(2)] 3
    from i show ?thesis
    proof (cases rule: visit_clock_cases)
      case (source s)
      have "white_count (st[i := 1]) < white_count st" using i by (simp add: white_count_update)
      from less.hyps[OF this source(2)] less.prems(2) source(3) show ?thesis by auto
    qed (use less.prems in auto)
  qed (use less.prems in \<open>auto simp: visit_clock.simps[of D i]\<close>)
qed

lemma validate_clock_kind_errors:
  "validate_clock_kind D i k = Inl e \<Longrightarrow> e \<noteq> DE_IndexPanic \<and> (\<forall>c. e \<noteq> DE_RecursiveClock c)"
  by (cases k) (auto simp: validate_clock_kind_def require_clock_def split: if_splits)

lemma validate_clocks_errors:
  assumes "validate_clocks D = Inl e"
  shows "e \<noteq> DE_IndexPanic \<and> (\<forall>c. e = DE_RecursiveClock c \<longrightarrow>
    is_ok (try_fold (validate_clock_step D) ({}, None) (gd_clocks D)))"
proof -
  from assms consider
      "try_fold (validate_clock_step D) ({}, None) (gd_clocks D) = Inl e"
    | st where "try_fold (validate_clock_step D) ({}, None) (gd_clocks D) = Inr st" "visit_clocks D = Inl e"
    by (auto simp: validate_clocks_def visit_clocks_def)
  then show ?thesis
  proof cases
    case 1
    from try_fold_Inl[OF this, of "\<lambda>_. True"] show ?thesis
      by (auto simp: validate_clock_step_def dest: validate_clock_kind_errors split: if_splits)
  next
    case 2
    from try_fold_Inl[OF 2(2)[unfolded visit_clocks_def], of "\<lambda>st. length st = length (gd_clocks D)"]
    have "e \<noteq> DE_IndexPanic" using visit_clock_in_range[of _ D] by auto
    with 2(1) show ?thesis by simp
  qed
qed

lemma validate_nodes_no_panic: "validate_nodes R D \<noteq> Inl DE_IndexPanic"
proof
  assume "validate_nodes R D = Inl DE_IndexPanic"
  then have "try_fold (validate_node_step R (gd_schema D)) None (gd_nodes D) = Inl DE_IndexPanic"
    by (simp add: validate_nodes_def)
  from try_fold_Inl[OF this, of "\<lambda>_. True"] obtain prev n where
    "validate_node_step R (gd_schema D) prev n = Inl DE_IndexPanic" by auto
  then consider
      "validate_domain (nd_domain n) = Inl DE_IndexPanic"
    | "try_fold (validate_port_step (gd_schema D)) ({}, {}) (nd_inputs n @ nd_outputs n) = Inl DE_IndexPanic"
    | "try_fold (validate_parameter_step R (gd_schema D)) ({}, None) (nd_parameters n) = Inl DE_IndexPanic"
    by (auto simp: validate_node_step_def Let_def validate_count_def simp del: try_fold.simps split: if_splits)
  then show False
  proof cases
    case 1
    then show False by (cases "nd_domain n") (auto split: if_splits)
  next
    case 2
    from try_fold_Inl[OF this, of "\<lambda>_. True"] show False
      by (auto simp: validate_port_step_def split: if_splits)
  next
    case 3
    from try_fold_Inl[OF this, of "\<lambda>_. True"] show False
      by (auto simp: validate_parameter_step_def split: if_splits)
  qed
qed

lemma validate_wires_no_panic: "validate_wires D \<noteq> Inl DE_IndexPanic"
proof
  assume "validate_wires D = Inl DE_IndexPanic"
  then have "try_fold (validate_wire_step D) \<lparr>ws_previous = None, ws_targets = {}, ws_pairs = {}\<rparr>
    (gd_wires D) = Inl DE_IndexPanic"
    by (simp add: validate_wires_def)
  from try_fold_Inl[OF this, of "\<lambda>_. True"] show False
    by (auto simp: validate_wire_step_def split: if_splits)
qed

lemma validate_type_clocks_errors: "validate_type_clocks D = Inl e \<Longrightarrow> \<exists>c. e = DE_UnknownClock c"
proof -
  have "try_each f xs = Inl e \<Longrightarrow> \<exists>x \<in> set xs. f x = Inl e"
    for f :: "'q type_definition \<Rightarrow> document_error + unit" and xs
    by (induction xs) auto
  moreover assume "validate_type_clocks D = Inl e"
  ultimately show ?thesis
    by (fastforce simp: validate_type_clocks_def require_clock_def split: option.splits)
qed

section \<open>A concrete document\<close>

text \<open>A host clock at 1000 Hz, a second clock at half its rate, and one boolean wire.\<close>

definition example_clocks :: "clock_definition list" where
  "example_clocks = [\<lparr>cd_id = 1, cd_name = str ''host'', cd_kind = HostMonotonic 1000\<rparr>,
     \<lparr>cd_id = 2, cd_name = str ''half'', cd_kind = Derived 1 1 2\<rparr>]"

definition example_nodes :: "'q node_definition list" where
  "example_nodes = [
     \<lparr>nd_id = 1, nd_kind = \<lparr>nk_name = str ''source'', nk_version = 1\<rparr>, nd_label = str ''a'',
      nd_domain = HostExact, nd_inputs = [],
      nd_outputs = [\<lparr>pd_id = 1, pd_name = str ''out'', pd_value_type = 1\<rparr>],
      nd_parameters = [\<lparr>np_id = 1, np_name = str ''pair'', np_value = pair_value True False\<rparr>]\<rparr>,
     \<lparr>nd_id = 2, nd_kind = \<lparr>nk_name = str ''sink'', nk_version = 1\<rparr>, nd_label = str ''b'',
      nd_domain = HostExact, nd_inputs = [\<lparr>pd_id = 1, pd_name = str ''in'', pd_value_type = 1\<rparr>],
      nd_outputs = [], nd_parameters = []\<rparr>]"

definition example_wires :: "wire_definition list" where
  "example_wires = [\<lparr>wd_id = 1, wd_source = WireEndpoint 1 1, wd_target = WireEndpoint 2 1\<rparr>]"

definition example_document :: "'q graph_document" where
  "example_document = \<lparr>gd_revision = 7, gd_schema = pair_schema, gd_clocks = example_clocks,
     gd_nodes = example_nodes, gd_wires = example_wires\<rparr>"

lemmas evaluate_document = example_document_def example_clocks_def example_nodes_def example_wires_def

lemma example_clocks_wf: "clocks_wf (example_document :: 'q graph_document)"
proof -
  let ?D = "example_document :: 'q graph_document"
  have "clock_references ?D = {(2, 1)}"
    by (auto simp: clock_references_def evaluate_document)
  moreover have "acyclic {(2 :: u32, 1 :: u32)}"
    by (simp add: acyclic_insert wf_acyclic)
  ultimately have acyclic: "acyclic (clock_references ?D)" by (simp only:)
  show ?thesis
    unfolding clocks_wf_def
    by (intro conjI acyclic;
      simp add: evaluate_document clock_ok_def clock_resolves_def evaluate_names canonical_table_def
        pair_schema_def interactive_limits_def example_type_def)
qed

lemma example_labels: "valid_label (str ''a'') 256" "valid_label (str ''b'') 256"
  by (simp_all add: valid_label_def str_def utf8_chars.simps utf8_step_def char_is_control_def)

lemma example_nodes_wf: "nodes_wf R example_document"
proof -
  have 1: "node_ok R pair_schema n" if "n \<in> set (gd_nodes example_document)" for n
    using that example_labels pair_value_ok[of R True False]
    by (auto simp: evaluate_document node_ok_def port_ok_def parameter_ok_def pair_schema_limits
        interactive_limits_def canonical_table_def usize_max_def)
      (simp_all add: evaluate_names)
  have 2: "gd_schema example_document = pair_schema" by (simp add: evaluate_document)
  show ?thesis
    unfolding nodes_wf_def 2 using 1
    by (simp add: pair_schema_limits interactive_limits_def)
      (simp add: evaluate_document canonical_table_def)
qed

lemma example_document_wf: "document_wf R (example_document :: 'q graph_document)"
proof -
  have "wires_wf (example_document :: 'q graph_document)"
    by (simp add: wires_wf_def wire_ok_def evaluate_document canonical_table_def pair_schema_limits
        interactive_limits_def)
  then show ?thesis by (simp add: document_wf_def example_clocks_wf example_nodes_wf)
qed

lemma example_document_accepted:
  fixes R :: "'q external_api"
  shows "try_new_document R 7 pair_schema example_clocks example_nodes example_wires = Inr example_document"
  using canonical_document_fixed[OF example_document_wf[of R]] example_document_wf[of R]
  unfolding try_new_document_Inr by (simp add: example_document_def)

section \<open>Properties of construction\<close>

text \<open>
  C1. \<^verbatim>\<open>GraphDocument::try_new\<close> accepts its arguments exactly when the
  canonically sorted document is well formed, and then returns that document: clock, node, wire,
  port and parameter identifiers are non-zero, increasing and unique; names are valid and unique;
  derived clocks have reduced ratios over registered clocks and form no cycle; every clock used
  by a type is registered; parameters validate at their types; every wire joins an existing output
  to an existing input of the same type and no input has two wires.
\<close>

theorem document_try_new_decides:
  "try_new_document R r S cs ns ws = Inr D \<longleftrightarrow>
     D = canonical_document r S cs ns ws \<and> document_wf R D"
  by (rule try_new_document_Inr)

text \<open>
  In an accepted document the lookups that executors use succeed for
  every wire: its nodes are found, its ports are found among the outputs and the inputs, their
  types agree, and no other wire drives the same input.
\<close>

theorem document_wires_resolve:
  assumes "try_new_document R r S cs ns ws = Inr D" and "w \<in> set (gd_wires D)"
  shows "(\<exists>sn tn src tgt. document_node D (we_node (wd_source w)) = Some sn
      \<and> document_node D (we_node (wd_target w)) = Some tn
      \<and> find_port (nd_outputs sn) (we_port (wd_source w)) = Some src
      \<and> find_port (nd_inputs tn) (we_port (wd_target w)) = Some tgt
      \<and> pd_value_type src = pd_value_type tgt)
    \<and> (\<forall>w'. w' \<in> set (gd_wires D) \<and> wd_target w' = wd_target w \<longrightarrow> w' = w)"
proof -
  from try_new_documentD[OF assms(1)] have wf: "document_wf R D" ..
  then have "inj_on wd_target (set (gd_wires D))"
    by (simp add: document_wf_def wires_wf_def distinct_map)
  then show ?thesis
    using document_wf_wire_resolves[OF wf assms(2)] assms(2)
    by (auto simp: wire_resolves_def dest: inj_onD)
qed

theorem document_wires_resolve_witness:
  "\<exists>sn src. document_node (example_document :: rat graph_document) 1 = Some sn
     \<and> find_port (nd_outputs sn) 1 = Some src"
proof -
  let ?w = "\<lparr>wd_id = 1, wd_source = WireEndpoint 1 1, wd_target = WireEndpoint 2 1\<rparr>"
  have w: "?w \<in> set (gd_wires example_document)" by (simp add: evaluate_document)
  from document_wires_resolve[OF example_document_accepted[of rat_api] w] show ?thesis by auto
qed

text \<open>
  The order in which clocks, nodes and wires are supplied is
  irrelevant, and building an accepted document again from its own tables gives it back.
\<close>

theorem document_order_independent:
  assumes "try_new_document R r S cs ns ws = Inr D"
    and "mset cs' = mset cs" and "mset ns' = mset ns" and "mset ws' = mset ws"
  shows "try_new_document R r S cs' ns' ws' = Inr D
    \<and> try_new_document R (gd_revision D) (gd_schema D) (gd_clocks D) (gd_nodes D) (gd_wires D) = Inr D"
proof -
  from try_new_documentD[OF assms(1)] have D: "D = canonical_document r S cs ns ws"
    and wf: "document_wf R D" by blast+
  show ?thesis
    using canonical_document_permutation[OF wf[unfolded D] assms(2-4)] canonical_document_fixed[OF wf] wf D
    unfolding try_new_document_Inr by simp
qed

theorem document_order_independent_witness:
  "try_new_document rat_api 7 pair_schema (rev example_clocks) (rev example_nodes)
     example_wires = Inr example_document"
  by (rule document_order_independent[OF example_document_accepted, THEN conjunct1]) simp_all

text \<open>
  A document is rejected as having recursive clocks only if its
  derived clocks really form a cycle.
\<close>

theorem document_recursion_is_real:
  assumes "try_new_document R r S cs ns ws = Inl (DE_RecursiveClock c)"
  shows "\<exists>i. (i, i) \<in> (clock_references (canonical_document r S cs ns ws))\<^sup>+"
proof -
  let ?D = "canonical_document r S cs ns ws"
  have "validate_domain d \<noteq> Inl (DE_RecursiveClock c)" for d by (cases d) auto
  moreover have "try_fold (validate_port_step S) st ps \<noteq> Inl (DE_RecursiveClock c)" for st ps
    using try_fold_Inl[of "validate_port_step S" st ps "DE_RecursiveClock c" "\<lambda>_. True"]
    by (auto simp: validate_port_step_def split: if_splits)
  moreover have "try_fold (validate_parameter_step R S) st ps \<noteq> Inl (DE_RecursiveClock c)" for st ps
    using try_fold_Inl[of "validate_parameter_step R S" st ps "DE_RecursiveClock c" "\<lambda>_. True"]
    by (auto simp: validate_parameter_step_def split: if_splits)
  ultimately have "validate_node_step R S prev n \<noteq> Inl (DE_RecursiveClock c)" for prev n
    by (auto simp: validate_node_step_def Let_def validate_count_def simp del: try_fold.simps split: if_splits)
  then have "try_fold (validate_node_step R S) None (gd_nodes ?D) \<noteq> Inl (DE_RecursiveClock c)"
    using try_fold_Inl[of "validate_node_step R S" None "gd_nodes ?D" "DE_RecursiveClock c" "\<lambda>_. True"]
    by auto
  moreover have "try_fold (validate_wire_step ?D) st (gd_wires ?D) \<noteq> Inl (DE_RecursiveClock c)" for st
    using try_fold_Inl[of "validate_wire_step ?D" st "gd_wires ?D" "DE_RecursiveClock c" "\<lambda>_. True"]
    by (auto simp: validate_wire_step_def split: if_splits)
  moreover have "gd_schema ?D = S" by (simp add: canonical_document_def)
  ultimately have rejected: "validate_clocks ?D = Inl (DE_RecursiveClock c)"
    using assms validate_type_clocks_errors[of ?D]
    by (auto simp: try_new_document_def Let_def validate_count_def validate_nodes_def validate_wires_def
        split: if_splits)
  have sorted: "sorted (map cd_id (gd_clocks ?D))" by (simp add: canonical_document_def)
  have "\<not> acyclic (clock_references ?D)"
    using validate_clocks_iff[OF sorted] rejected validate_clocks_errors[OF rejected] clock_scan.scan_ok_iff[OF sorted]
    by (auto simp: clock_ok_def validate_clock_kind_ok_iff[OF sorted])
  then show ?thesis by (simp add: acyclic_def)
qed

definition mutual_clocks :: "clock_definition list" where
  "mutual_clocks = [\<lparr>cd_id = 1, cd_name = str ''a'', cd_kind = Derived 2 1 1\<rparr>,
     \<lparr>cd_id = 2, cd_name = str ''b'', cd_kind = Derived 1 1 1\<rparr>]"

lemma mutual_clocks_search:
  assumes "gd_clocks D = mutual_clocks"
  shows "validate_clocks D = Inl (DE_RecursiveClock 1)"
proof -
  note D = assms[unfolded mutual_clocks_def]
  have index: "clock_index D 1 = Some 0" "clock_index D 2 = Some 1"
    unfolding clock_index_def D by (simp_all add: evaluate_types)
  have "is_ok (try_fold (validate_clock_step D) ({}, None) (gd_clocks D))"
    unfolding D by (simp add: validate_clock_step_def validate_clock_kind_def evaluate_names
        require_clock_def index gcd_u32.simps ok_or_def cong: and_then_weak_cong)
  moreover have "visit_clock D 0 [0, 0] = Inl (DE_RecursiveClock 1)"
    by (simp add: visit_clock.simps[of D] D require_clock_def index)
  ultimately show ?thesis
    by (auto simp: validate_clocks_def is_ok_iff D upt_rec)
qed

lemma mutual_clocks_rejected:
  fixes R :: "'q external_api"
  shows "try_new_document R 1 pair_schema mutual_clocks [] [] = Inl (DE_RecursiveClock 1)"
proof -
  have "gd_clocks (canonical_document 1 pair_schema mutual_clocks [] [] :: 'q graph_document) = mutual_clocks"
    by (simp add: canonical_document_def mutual_clocks_def)
  from mutual_clocks_search[OF this] show ?thesis
    by (simp add: try_new_document_def validate_count_def pair_schema_limits interactive_limits_def Let_def)
      (simp add: mutual_clocks_def)
qed

theorem document_recursion_is_real_witness:
  "\<exists>i. (i, i) \<in> (clock_references (canonical_document 1 pair_schema mutual_clocks [] [] :: rat graph_document))\<^sup>+"
  by (rule document_recursion_is_real[OF mutual_clocks_rejected[of rat_api]])

text \<open>
  The Euclidean loop \<^verbatim>\<open>gcd_u32\<close> that decides whether a clock
  ratio is reduced ends for all 32-bit arguments and computes the greatest common divisor.
\<close>

theorem gcd_u32_correct: "unat (gcd_u32 left right) = gcd (unat left) (unat right)"
  by (rule gcd_u32_unat)

text \<open>
  No slice index of the document construction is out of range, whatever
  schema, clocks, nodes and wires are supplied.
\<close>

theorem document_no_panic: "try_new_document R r S cs ns ws \<noteq> Inl DE_IndexPanic"
  using validate_nodes_no_panic validate_wires_no_panic validate_clocks_errors validate_type_clocks_errors
  by (fastforce simp: try_new_document_def Let_def validate_count_def split: if_splits)

end
