(* ===== verification/Wire_Codec.thy ===== *)
theory Wire_Codec
  imports Graph_Document
begin

text \<open>
  The primitive readers and writers of
  \<^verbatim>\<open>crates/alumina-interface-core/src/graph/wire.rs\<close>: \<^verbatim>\<open>Encoder\<close> and
  \<^verbatim>\<open>Decoder\<close>. An encoder method appends to a buffer and is modelled by the bytes it
  appends; a decoder method takes the remaining input and returns a value and the rest. The locales
  \<open>wire_codec\<close> and \<open>exact_codec\<close> state what the composite codecs rely on, and lift it to
  counted collections once.
\<close>

section \<open>Errors\<close>

datatype wire_error =
    WE_InvalidMagic
  | WE_UnsupportedVersion u16
  | WE_UnsupportedFlags u16
  | WE_Truncated
  | WE_LimitExceeded string
  | WE_IntegerOverflow string
  | WE_InvalidUtf8 string
  | WE_InvalidTag string u8
  | WE_InvalidRational
  | WE_InvalidValue
  | WE_TrailingBytes
  | WE_NonCanonical
  | WE_Schema schema_error
  | WE_Document document_error

section \<open>Codec interfaces\<close>

text \<open>
  \<open>wire_codec\<close>: what is written is read back, whatever follows. \<open>exact_codec\<close>: in addition the
  reader accepts nothing but what the writer produces.
\<close>

fun write_each :: "('a \<Rightarrow> 'e + bytes) \<Rightarrow> 'a list \<Rightarrow> 'e + bytes" where
  "write_each w [] = Inr []"
| "write_each w (x # xs) = and_then (w x) (\<lambda>a. and_then (write_each w xs) (\<lambda>b. Inr (a @ b)))"

fun read_each :: "(bytes \<Rightarrow> 'e + 'a \<times> bytes) \<Rightarrow> nat \<Rightarrow> bytes \<Rightarrow> 'e + 'a list \<times> bytes" where
  "read_each r 0 bs = Inr ([], bs)"
| "read_each r (Suc n) bs =
     and_then (r bs) (\<lambda>(x, bs'). and_then (read_each r n bs') (\<lambda>(xs, bs''). Inr (x # xs, bs'')))"

lemma write_each_cong [fundef_cong]:
  "xs = ys \<Longrightarrow> (\<And>x. x \<in> set ys \<Longrightarrow> w x = w' x) \<Longrightarrow> write_each w xs = write_each w' ys"
  by (induction xs arbitrary: ys) auto

locale wire_codec =
  fixes enc :: "'a \<Rightarrow> 'e + bytes"
    and dec :: "bytes \<Rightarrow> 'e + 'a \<times> bytes"
    and ok :: "'a \<Rightarrow> bool"
  assumes decode_encode: "ok x \<Longrightarrow> enc x = Inr bs \<Longrightarrow> dec (bs @ rest) = Inr (x, rest)"
begin

lemma decode_encode_all: "ok x \<Longrightarrow> enc x = Inr bs \<Longrightarrow> dec bs = Inr (x, [])"
  using decode_encode[of x bs "[]"] by simp

lemma encode_prefix_free:
  "ok x \<Longrightarrow> ok y \<Longrightarrow> enc x = Inr bs \<Longrightarrow> enc y = Inr (bs @ extra) \<Longrightarrow> x = y \<and> extra = []"
  using decode_encode[of x bs extra] decode_encode[of y "bs @ extra" "[]"] by auto

lemma read_write_each:
  "\<forall>x \<in> set xs. ok x \<Longrightarrow> write_each enc xs = Inr bs \<Longrightarrow>
     read_each dec (length xs) (bs @ rest) = Inr (xs, rest)"
proof (induction xs arbitrary: bs)
  case (Cons x xs)
  from Cons.prems(2) obtain a b where ab: "enc x = Inr a" "write_each enc xs = Inr b" "bs = a @ b"
    by auto
  with Cons.prems(1) decode_encode[of x a "b @ rest"] Cons.IH[of b] show ?case by simp
qed simp

end

locale exact_codec = wire_codec +
  assumes encode_decode:
    "dec bs = Inr (x, rest) \<Longrightarrow> ok x \<and> (\<exists>used. enc x = Inr used \<and> bs = used @ rest)"
begin

lemma write_read_each:
  "read_each dec n bs = Inr (xs, rest) \<Longrightarrow>
     length xs = n \<and> (\<forall>x \<in> set xs. ok x) \<and> (\<exists>used. write_each enc xs = Inr used \<and> bs = used @ rest)"
proof (induction n arbitrary: bs xs)
  case (Suc n)
  from Suc.prems obtain x bs' ys where x: "dec bs = Inr (x, bs')"
    and ys: "read_each dec n bs' = Inr (ys, rest)" and xs: "xs = x # ys" by auto
  from encode_decode[OF x] obtain a where "ok x" "enc x = Inr a" "bs = a @ bs'" by blast
  with Suc.IH[OF ys] xs show ?case by auto
qed simp

lemma decode_iff: "dec bs = Inr (x, rest) \<longleftrightarrow> ok x \<and> (\<exists>used. enc x = Inr used \<and> bs = used @ rest)"
  using encode_decode decode_encode by blast

end

section \<open>Encoder\<close>

definition put_u8 :: "u8 \<Rightarrow> bytes" where
  "put_u8 v = [v]"

definition put_u16 :: "u16 \<Rightarrow> bytes" where
  "put_u16 v = nat_to_le 2 (unat v)"

definition put_u32 :: "u32 \<Rightarrow> bytes" where
  "put_u32 v = nat_to_le 4 (unat v)"

definition put_u64 :: "u64 \<Rightarrow> bytes" where
  "put_u64 v = nat_to_le 8 (unat v)"

definition put_i64 :: "i64 \<Rightarrow> bytes" where
  "put_i64 v = nat_to_le 8 (unat v)"

definition put_count :: "nat \<Rightarrow> string \<Rightarrow> wire_error + bytes" where
  "put_count v name = (if v \<le> u32_max then Inr (put_u32 (word_of_nat v)) else Inl (WE_IntegerOverflow name))"

definition put_text :: "rust_str \<Rightarrow> wire_error + bytes" where
  "put_text v = and_then (put_count (length v) ''string byte length'') (\<lambda>c. Inr (c @ v))"

definition rational_sign :: "'q external_api \<Rightarrow> 'q \<Rightarrow> u8" where
  "rational_sign R q = (if rq_is_zero R q then 0 else if rq_is_negative R q then 2 else 1)"

definition put_rational :: "'q external_api \<Rightarrow> 'q \<Rightarrow> nat \<Rightarrow> wire_error + bytes" where
  "put_rational R q maximum_digits =
     (let numerator = rq_numerator_text R q; denominator = rq_denominator_text R q in
      if length numerator > maximum_digits \<or> length denominator > maximum_digits
      then Inl (WE_LimitExceeded ''rational magnitude'')
      else and_then (put_text numerator) (\<lambda>n. and_then (put_text denominator) (\<lambda>d.
        Inr (put_u8 (rational_sign R q) @ n @ d))))"

section \<open>Decoder\<close>

definition get_take :: "nat \<Rightarrow> bytes \<Rightarrow> wire_error + bytes \<times> bytes" where
  "get_take n bs = (if n > length bs then Inl WE_Truncated else Inr (take n bs, drop n bs))"

definition get_u8 :: "bytes \<Rightarrow> wire_error + u8 \<times> bytes" where
  "get_u8 bs = and_then (get_take 1 bs) (\<lambda>(a, bs). Inr (hd a, bs))"

definition get_u16 :: "bytes \<Rightarrow> wire_error + u16 \<times> bytes" where
  "get_u16 bs = and_then (get_take 2 bs) (\<lambda>(a, bs). Inr (word_of_nat (nat_from_le a), bs))"

definition get_u32 :: "bytes \<Rightarrow> wire_error + u32 \<times> bytes" where
  "get_u32 bs = and_then (get_take 4 bs) (\<lambda>(a, bs). Inr (word_of_nat (nat_from_le a), bs))"

definition get_u64 :: "bytes \<Rightarrow> wire_error + u64 \<times> bytes" where
  "get_u64 bs = and_then (get_take 8 bs) (\<lambda>(a, bs). Inr (word_of_nat (nat_from_le a), bs))"

definition get_i64 :: "bytes \<Rightarrow> wire_error + i64 \<times> bytes" where
  "get_i64 bs = and_then (get_take 8 bs) (\<lambda>(a, bs). Inr (word_of_nat (nat_from_le a), bs))"

definition get_device_id :: "bytes \<Rightarrow> wire_error + device_id \<times> bytes" where
  "get_device_id = get_take 16"

definition get_digest :: "bytes \<Rightarrow> wire_error + digest \<times> bytes" where
  "get_digest = get_take 32"

definition get_count :: "nat \<Rightarrow> string \<Rightarrow> bytes \<Rightarrow> wire_error + nat \<times> bytes" where
  "get_count maximum name bs = and_then (get_u32 bs) (\<lambda>(v, bs).
     if unat v > usize_max then Inl (WE_IntegerOverflow name)
     else if unat v > maximum then Inl (WE_LimitExceeded name)
     else Inr (unat v, bs))"

definition get_bounded_bytes :: "nat \<Rightarrow> string \<Rightarrow> bytes \<Rightarrow> wire_error + bytes \<times> bytes" where
  "get_bounded_bytes maximum name bs =
     and_then (get_count maximum name bs) (\<lambda>(n, bs). get_take n bs)"

definition get_text :: "nat \<Rightarrow> string \<Rightarrow> bytes \<Rightarrow> wire_error + rust_str \<times> bytes" where
  "get_text maximum name bs = and_then (get_bounded_bytes maximum name bs) (\<lambda>(s, bs).
     if utf8_valid s then Inr (s, bs) else Inl (WE_InvalidUtf8 name))"

definition get_rational :: "'q external_api \<Rightarrow> nat \<Rightarrow> bytes \<Rightarrow> wire_error + 'q \<times> bytes" where
  "get_rational R maximum_digits bs =
     and_then (get_u8 bs) (\<lambda>(sign, bs).
     and_then (get_text maximum_digits ''rational numerator'' bs) (\<lambda>(numerator, bs).
     and_then (get_text maximum_digits ''rational denominator'' bs) (\<lambda>(denominator, bs).
     if \<not> canonical_digits numerator \<or> \<not> canonical_digits denominator \<or> denominator = [48]
     then Inl WE_InvalidRational
     else let numerator_is_zero = (numerator = [48]) in
     if \<not> (sign = 0 \<or> sign = 1 \<or> sign = 2) \<or> (sign = 0) \<noteq> numerator_is_zero
        \<or> (sign = 2 \<and> numerator_is_zero)
     then Inl WE_InvalidRational
     else if length numerator + length denominator + 2 > usize_max
     then Inl (WE_IntegerOverflow ''rational text'')
     else and_then (ok_or WE_InvalidRational
            (rq_parse R (rational_source (sign = 2) numerator denominator))) (\<lambda>value.
     if rq_numerator_text R value \<noteq> numerator \<or> rq_denominator_text R value \<noteq> denominator
        \<or> rq_is_zero R value \<noteq> (sign = 0) \<or> rq_is_negative R value \<noteq> (sign = 2)
     then Inl WE_InvalidRational
     else Inr (value, bs)))))"

section \<open>Laws of the primitives\<close>

lemma get_take_append [simp]: "length a = n \<Longrightarrow> get_take n (a @ bs) = Inr (a, bs)"
  by (simp add: get_take_def)

lemma get_take_Inr [simp]: "get_take n bs = Inr (a, rest) \<longleftrightarrow> length a = n \<and> bs = a @ rest"
  by (auto simp: get_take_def)

lemma get_take_error: "get_take n bs = Inl e \<longleftrightarrow> e = WE_Truncated \<and> length bs < n"
  by (auto simp: get_take_def)

lemma le_word_codec:
  fixes v :: "'l::len word"
  assumes "LENGTH('l) = 8 * n"
  shows "(word_of_nat (nat_from_le (nat_to_le n (unat v))) :: 'l word) = v"
    and "length a = n \<Longrightarrow> nat_to_le n (unat (word_of_nat (nat_from_le a) :: 'l word)) = a"
proof -
  have pow: "(256 :: nat) ^ n = 2 ^ LENGTH('l)"
    unfolding assms power_mult by simp
  have "unat v < 256 ^ n" unfolding pow by (rule unsigned_less)
  then show "(word_of_nat (nat_from_le (nat_to_le n (unat v))) :: 'l word) = v"
    by (simp add: nat_from_to_le)
  assume a: "length a = n"
  have "nat_from_le a < 2 ^ LENGTH('l)" using nat_from_le_bound[of a] unfolding a pow .
  then have "unat (word_of_nat (nat_from_le a) :: 'l word) = nat_from_le a"
    by (simp add: unat_of_nat)
  then show "nat_to_le n (unat (word_of_nat (nat_from_le a) :: 'l word)) = a"
    using nat_to_from_le[of a] by (simp add: a)
qed

named_theorems codec "readers undo writers, and only them"

lemma get_put_u8 [codec, simp]: "get_u8 (put_u8 v @ bs) = Inr (v, bs)"
  by (simp add: get_u8_def put_u8_def get_take_def)

lemma get_put_u16 [codec, simp]: "get_u16 (put_u16 v @ bs) = Inr (v, bs)"
  using le_word_codec(1)[of 2 v] by (simp add: get_u16_def put_u16_def)

lemma get_put_u32 [codec, simp]: "get_u32 (put_u32 v @ bs) = Inr (v, bs)"
  using le_word_codec(1)[of 4 v] by (simp add: get_u32_def put_u32_def)

lemma get_put_u64 [codec, simp]: "get_u64 (put_u64 v @ bs) = Inr (v, bs)"
  using le_word_codec(1)[of 8 v] by (simp add: get_u64_def put_u64_def)

lemma get_put_i64 [codec, simp]: "get_i64 (put_i64 v @ bs) = Inr (v, bs)"
  using le_word_codec(1)[of 8 v] by (simp add: get_i64_def put_i64_def)

lemma get_u8_Inr: "get_u8 bs = Inr (v, rest) \<longleftrightarrow> bs = put_u8 v @ rest"
  by (auto simp: get_u8_def put_u8_def length_Suc_conv)

lemma get_u16_Inr: "get_u16 bs = Inr (v, rest) \<longleftrightarrow> bs = put_u16 v @ rest"
  using le_word_codec(2)[where 'l = 16 and n = 2] get_put_u16[of v rest]
  by (auto simp: get_u16_def put_u16_def)

lemma get_u32_Inr: "get_u32 bs = Inr (v, rest) \<longleftrightarrow> bs = put_u32 v @ rest"
  using le_word_codec(2)[where 'l = 32 and n = 4] get_put_u32[of v rest]
  by (auto simp: get_u32_def put_u32_def)

lemma get_u64_Inr: "get_u64 bs = Inr (v, rest) \<longleftrightarrow> bs = put_u64 v @ rest"
  using le_word_codec(2)[where 'l = 64 and n = 8] get_put_u64[of v rest]
  by (auto simp: get_u64_def put_u64_def)

lemma get_i64_Inr: "get_i64 bs = Inr (v, rest) \<longleftrightarrow> bs = put_i64 v @ rest"
  using le_word_codec(2)[where 'l = 64 and n = 8] get_put_i64[of v rest]
  by (auto simp: get_i64_def put_i64_def)

text \<open>Counts, byte strings and text carry a 32-bit length.\<close>

lemma put_count_Inr [simp]: "put_count n name = Inr c \<longleftrightarrow> n \<le> u32_max \<and> c = put_u32 (word_of_nat n)"
  by (auto simp: put_count_def)

lemma unat_count: "n \<le> u32_max \<Longrightarrow> unat (word_of_nat n :: u32) = n"
  by (simp add: unat_of_nat u32_max_def)

lemma get_put_count [codec, simp]:
  "n \<le> u32_max \<Longrightarrow> n \<le> maximum \<Longrightarrow> get_count maximum name (put_u32 (word_of_nat n) @ bs) = Inr (n, bs)"
  using u32_max_le_usize_max by (simp add: get_count_def unat_count)

lemma get_count_Inr:
  "get_count maximum name bs = Inr (n, rest) \<longleftrightarrow>
     n \<le> u32_max \<and> n \<le> maximum \<and> bs = put_u32 (word_of_nat n) @ rest"
proof
  assume "get_count maximum name bs = Inr (n, rest)"
  then obtain v where "get_u32 bs = Inr (v, rest)" "unat v = n" "n \<le> maximum"
    by (auto simp: get_count_def split: if_splits)
  then show "n \<le> u32_max \<and> n \<le> maximum \<and> bs = put_u32 (word_of_nat n) @ rest"
    using unat_u32_le[of v] by (auto simp: get_u32_Inr)
qed auto

lemma put_text_Inr [simp]:
  "put_text s = Inr b \<longleftrightarrow> length s \<le> u32_max \<and> b = put_u32 (word_of_nat (length s)) @ s"
  by (auto simp: put_text_def)

lemma get_bounded_bytes_Inr:
  "get_bounded_bytes maximum name bs = Inr (s, rest) \<longleftrightarrow>
     length s \<le> u32_max \<and> length s \<le> maximum \<and> bs = put_u32 (word_of_nat (length s)) @ s @ rest"
  by (auto simp: get_bounded_bytes_def get_count_Inr)

lemma get_text_Inr:
  "get_text maximum name bs = Inr (s, rest) \<longleftrightarrow>
     utf8_valid s \<and> length s \<le> u32_max \<and> length s \<le> maximum
     \<and> bs = put_u32 (word_of_nat (length s)) @ s @ rest"
  by (auto simp: get_text_def get_bounded_bytes_Inr split: if_splits)

lemma get_put_bytes [codec, simp]:
  "length s \<le> u32_max \<Longrightarrow> length s \<le> maximum \<Longrightarrow>
     get_bounded_bytes maximum name (put_u32 (word_of_nat (length s)) @ s @ rest) = Inr (s, rest)"
  by (simp add: get_bounded_bytes_Inr)

lemma get_put_text [codec, simp]:
  "utf8_valid s \<Longrightarrow> length s \<le> u32_max \<Longrightarrow> length s \<le> maximum \<Longrightarrow>
     get_text maximum name (put_u32 (word_of_nat (length s)) @ s @ rest) = Inr (s, rest)"
  by (simp add: get_text_Inr)

lemma get_put_device_id [codec, simp]: "length d = 16 \<Longrightarrow> get_device_id (d @ rest) = Inr (d, rest)"
  by (simp add: get_device_id_def)

lemma get_put_digest [codec, simp]: "length d = 32 \<Longrightarrow> get_digest (d @ rest) = Inr (d, rest)"
  by (simp add: get_digest_def)

interpretation text_codec: exact_codec put_text "get_text maximum name"
  "\<lambda>s. utf8_valid s \<and> length s \<le> maximum" for maximum name
  by unfold_locales (auto simp: get_text_Inr)

text \<open>
  A rational is readable when its decimal text is canonical and parses back to it; every rational
  is, under the laws of \<open>rational_text_laws\<close>.
\<close>

definition rational_readable :: "'q external_api \<Rightarrow> 'q \<Rightarrow> bool" where
  "rational_readable R q \<longleftrightarrow>
     canonical_digits (rq_numerator_text R q) \<and> canonical_digits (rq_denominator_text R q)
     \<and> rq_denominator_text R q \<noteq> [48] \<and> (rq_is_zero R q \<longleftrightarrow> rq_numerator_text R q = [48])
     \<and> (rq_is_zero R q \<longrightarrow> \<not> rq_is_negative R q)
     \<and> rq_parse R (rational_source (rq_is_negative R q) (rq_numerator_text R q)
          (rq_denominator_text R q)) = Some q"

lemma rational_readable: "rational_text_laws R \<Longrightarrow> rational_readable R q"
  by (simp add: rational_text_laws_def rational_readable_def)

definition rational_bytes :: "'q external_api \<Rightarrow> 'q \<Rightarrow> bytes" where
  "rational_bytes R q = put_u8 (rational_sign R q)
     @ put_u32 (word_of_nat (length (rq_numerator_text R q))) @ rq_numerator_text R q
     @ put_u32 (word_of_nat (length (rq_denominator_text R q))) @ rq_denominator_text R q"

definition rational_length_ok :: "'q external_api \<Rightarrow> nat \<Rightarrow> 'q \<Rightarrow> bool" where
  "rational_length_ok R m q \<longleftrightarrow>
     length (rq_numerator_text R q) \<le> min m u32_max \<and> length (rq_denominator_text R q) \<le> min m u32_max"

lemma put_rational_Inr [simp]:
  "put_rational R q m = Inr b \<longleftrightarrow> rational_length_ok R m q \<and> b = rational_bytes R q"
  by (auto simp: put_rational_def Let_def rational_bytes_def rational_length_ok_def)

lemma rational_sign_simps:
  assumes "rational_readable R q"
  shows "rational_sign R q = 0 \<longleftrightarrow> rq_numerator_text R q = [48]"
    and "rational_sign R q = 2 \<longleftrightarrow> rq_is_negative R q"
    and "rational_sign R q = 0 \<or> rational_sign R q = 1 \<or> rational_sign R q = 2"
  using assms by (auto simp: rational_sign_def rational_readable_def)

lemma rational_texts_fit: "n \<le> u32_max \<Longrightarrow> d \<le> u32_max \<Longrightarrow> n + d + 2 \<le> usize_max"
  by (simp add: u32_max_def usize_max_def)

lemma get_rational_put:
  assumes "rational_readable R q" and "rational_length_ok R m q"
  shows "get_rational R m (rational_bytes R q @ rest) = Inr (q, rest)"
proof -
  let ?n = "rq_numerator_text R q" and ?d = "rq_denominator_text R q" and ?s = "rational_sign R q"
  have n: "get_text m ''rational numerator'' (put_u32 (word_of_nat (length ?n)) @ ?n @ bs) = Inr (?n, bs)"
    and d: "get_text m ''rational denominator'' (put_u32 (word_of_nat (length ?d)) @ ?d @ bs) = Inr (?d, bs)" for bs
    using assms canonical_digits_utf8 by (auto simp: get_text_Inr rational_readable_def rational_length_ok_def)
  have "length ?n + length ?d + 2 \<le> usize_max"
    using assms(2) by (intro rational_texts_fit) (auto simp: rational_length_ok_def)
  moreover note rational_sign_simps[OF assms(1)]
  ultimately show ?thesis
    using assms(1) by (simp add: get_rational_def rational_bytes_def n d rational_readable_def) blast
qed

lemma get_rational_Inr:
  assumes "get_rational R m bs = Inr (q, rest)"
  shows "rational_readable R q \<and> rational_length_ok R m q \<and> bs = rational_bytes R q @ rest"
proof -
  from assms obtain s n d b1 b2 where s: "get_u8 bs = Inr (s, b1)"
    and n: "get_text m ''rational numerator'' b1 = Inr (n, b2)"
    and d: "get_text m ''rational denominator'' b2 = Inr (d, rest)"
    and digits: "canonical_digits n" "canonical_digits d" "d \<noteq> [48]"
    and sign: "s = 0 \<or> s = 1 \<or> s = 2" "(s = 0) = (n = [48])" "\<not> (s = 2 \<and> n = [48])"
    and q: "rq_parse R (rational_source (s = 2) n d) = Some q"
    and same: "rq_numerator_text R q = n" "rq_denominator_text R q = d"
      "rq_is_zero R q = (s = 0)" "rq_is_negative R q = (s = 2)"
    by (auto simp: get_rational_def Let_def split: if_splits)
  from digits sign q same have "rational_readable R q"
    by (auto simp: rational_readable_def)
  moreover from n d same have "rational_length_ok R m q"
    by (auto simp: get_text_Inr rational_length_ok_def)
  moreover have "rational_sign R q = s"
    using sign same by (auto simp: rational_sign_def)
  then have "bs = rational_bytes R q @ rest"
    using s n d same by (auto simp: get_u8_Inr get_text_Inr rational_bytes_def)
  ultimately show ?thesis by blast
qed

interpretation rational_codec: exact_codec "\<lambda>q. put_rational R q m" "get_rational R m" "rational_readable R"
  for R :: "'q external_api" and m
  by unfold_locales (use get_rational_put get_rational_Inr in \<open>fastforce+\<close>)

text \<open>Collections with a leading count.\<close>

definition write_counted ::
  "string \<Rightarrow> ('a \<Rightarrow> wire_error + bytes) \<Rightarrow> 'a list \<Rightarrow> wire_error + bytes" where
  "write_counted name w xs =
     and_then (put_count (length xs) name) (\<lambda>c. and_then (write_each w xs) (\<lambda>b. Inr (c @ b)))"

definition read_counted ::
  "nat \<Rightarrow> string \<Rightarrow> (bytes \<Rightarrow> wire_error + 'a \<times> bytes) \<Rightarrow> bytes \<Rightarrow> wire_error + 'a list \<times> bytes" where
  "read_counted maximum name r bs =
     and_then (get_count maximum name bs) (\<lambda>(n, bs). read_each r n bs)"

context exact_codec
begin

lemma read_each_iff:
  "read_each dec n bs = Inr (xs, rest) \<longleftrightarrow>
     length xs = n \<and> (\<forall>x \<in> set xs. ok x) \<and> (\<exists>used. write_each enc xs = Inr used \<and> bs = used @ rest)"
  using write_read_each[of n bs xs rest] read_write_each[of xs _ rest] by blast

end

locale counted_codec = exact_codec enc dec ok
  for enc :: "'a \<Rightarrow> wire_error + bytes" and dec :: "bytes \<Rightarrow> wire_error + 'a \<times> bytes" and ok :: "'a \<Rightarrow> bool"
begin

lemma read_counted_iff:
  "read_counted maximum rname dec bs = Inr (xs, rest) \<longleftrightarrow>
     length xs \<le> maximum \<and> (\<forall>x \<in> set xs. ok x)
     \<and> (\<exists>used. write_counted wname enc xs = Inr used \<and> bs = used @ rest)"
  by (auto simp: read_counted_def write_counted_def read_each_iff get_count_Inr)

end

sublocale counted_codec \<subseteq> counted: exact_codec "write_counted wname enc" "read_counted maximum rname dec"
  "\<lambda>xs. length xs \<le> maximum \<and> (\<forall>x \<in> set xs. ok x)" for wname maximum rname
  by unfold_locales (simp_all add: read_counted_iff[where wname = wname])

end
