(* ===== verification/Wire_Value.thy ===== *)
theory Wire_Value
  imports Wire_Codec
begin

text \<open>
  The type-directed codec of graph literals, \<^verbatim>\<open>encode_value\<close> and
  \<^verbatim>\<open>decode_value\<close> of \<^verbatim>\<open>graph/wire.rs\<close>, and the schema-relative byte
  identity of a typed literal built on it. Over a well-formed schema the two are an exact codec.
\<close>

section \<open>Encoding\<close>

function (sequential) encode_value ::
  "'q external_api \<Rightarrow> 'q graph_schema \<Rightarrow> graph_type_id \<Rightarrow> 'q graph_value \<Rightarrow> wire_error + bytes" where
  "encode_value R S t v =
     and_then (ok_or (WE_Schema (SE_UnknownType t)) (value_type S t)) (\<lambda>definition.
     let digits = maximum_rational_digits (gs_limits S);
         invalid = Inl WE_InvalidValue in
     case td_kind definition of
       TBoolean \<Rightarrow> (case v of VBoolean b \<Rightarrow> Inr (put_u8 (if b then 1 else 0)) | _ \<Rightarrow> invalid)
     | TExactRational _ \<Rightarrow> (case v of VExactRational q \<Rightarrow> put_rational R q digits | _ \<Rightarrow> invalid)
     | TMeasurementInterval _ \<Rightarrow> (case v of
         VMeasurementInterval lower upper \<Rightarrow>
           and_then (put_rational R lower digits) (\<lambda>a.
           and_then (put_rational R upper digits) (\<lambda>b. Inr (a @ b)))
       | _ \<Rightarrow> invalid)
     | TCanonicalI64 _ _ \<Rightarrow> (case v of VCanonicalI64 i \<Rightarrow> Inr (put_i64 i) | _ \<Rightarrow> invalid)
     | TCanonicalU64 _ _ \<Rightarrow> (case v of VCanonicalU64 u \<Rightarrow> Inr (put_u64 u) | _ \<Rightarrow> invalid)
     | TText _ \<Rightarrow> (case v of VText s \<Rightarrow> put_text s | _ \<Rightarrow> invalid)
     | TBytes _ \<Rightarrow> (case v of
         VBytes s \<Rightarrow> and_then (put_count (length s) ''byte literal length'') (\<lambda>c. Inr (c @ s))
       | _ \<Rightarrow> invalid)
     | TArray element _ \<Rightarrow> (case v of
         VArray xs \<Rightarrow>
           and_then (put_count (length xs) ''array literal count'') (\<lambda>c.
           and_then (write_each (\<lambda>x. encode_value R S element x) xs) (\<lambda>b. Inr (c @ b)))
       | _ \<Rightarrow> invalid)
     | TRecord fs \<Rightarrow> (case v of
         VRecord vs \<Rightarrow>
           and_then (put_count (length vs) ''record literal count'') (\<lambda>c.
           and_then (write_each (\<lambda>fiv. and_then (encode_value R S (rf_value_type (fst fiv)) (snd (snd fiv)))
               (\<lambda>b. Inr (put_u32 (fst (snd fiv)) @ b))) (zip fs vs)) (\<lambda>b. Inr (c @ b)))
       | _ \<Rightarrow> invalid)
     | TOption inner \<Rightarrow> (case v of
         VOptionNone \<Rightarrow> Inr (put_u8 0)
       | VOptionSome x \<Rightarrow> and_then (encode_value R S inner x) (\<lambda>b. Inr (put_u8 1 @ b))
       | _ \<Rightarrow> invalid)
     | TResult ok error \<Rightarrow> (case v of
         VResultOk x \<Rightarrow> and_then (encode_value R S ok x) (\<lambda>b. Inr (put_u8 0 @ b))
       | VResultError x \<Rightarrow> and_then (encode_value R S error x) (\<lambda>b. Inr (put_u8 1 @ b))
       | _ \<Rightarrow> invalid)
     | TResourceHandle _ \<Rightarrow> (case v of
         VResourceHandle h \<Rightarrow> Inr (rh_device_id h @ rh_board_package_digest h
           @ put_u32 (rh_class h) @ put_u32 (rh_resource_selector h))
       | _ \<Rightarrow> invalid)
     | TJobHandle \<Rightarrow> (case v of
         VJobHandle h \<Rightarrow> Inr (jh_device_id h @ jh_global_job_digest h @ jh_partition_digest h)
       | _ \<Rightarrow> invalid)
     | TEvent _ _ \<Rightarrow> invalid
     | TStream _ _ _ \<Rightarrow> invalid)"
  by pat_completeness auto
termination
  by (relation "measure (\<lambda>(R, S, t, v). size v)")
    (auto dest!: set_zip_rightD simp: less_Suc_eq_le size_list_estimation'
      intro: size_list_estimation'[of "(a, b)" for a b])

declare encode_value.simps [simp del]

definition encode_typed_value ::
  "'q external_api \<Rightarrow> 'q graph_schema \<Rightarrow> 'q typed_graph_value \<Rightarrow> wire_error + bytes" where
  "encode_typed_value R S tv =
     and_then (map_err WE_Schema (validate_typed_value R S tv)) (\<lambda>_.
     and_then (encode_value R S (tv_value_type tv) (tv_value tv)) (\<lambda>b.
     Inr (put_u32 (tv_value_type tv) @ b)))"

definition encode_typed_value_bytes ::
  "'q external_api \<Rightarrow> 'q graph_schema \<Rightarrow> 'q typed_graph_value \<Rightarrow> wire_error + bytes" where
  "encode_typed_value_bytes R S tv = encode_typed_value R S tv"

record canonical_encoding =
  ce_bytes :: bytes
  ce_digest :: digest

definition encode_typed_graph_value ::
  "'q external_api \<Rightarrow> 'q graph_schema \<Rightarrow> 'q typed_graph_value \<Rightarrow> wire_error + canonical_encoding" where
  "encode_typed_graph_value R S tv =
     and_then (encode_typed_value_bytes R S tv) (\<lambda>bs.
     Inr \<lparr>ce_bytes = bs, ce_digest = ext_sha256 R bs\<rparr>)"

section \<open>Decoding\<close>

definition usize_from_u32 :: "string \<Rightarrow> u32 \<Rightarrow> wire_error + nat" where
  "usize_from_u32 name v = (if unat v \<le> usize_max then Inr (unat v) else Inl (WE_IntegerOverflow name))"

lemma usize_from_u32 [simp]: "usize_from_u32 name v = Inr (unat v)"
  using unat_u32_le[of v] u32_max_le_usize_max by (simp add: usize_from_u32_def)

text \<open>The node budget is passed in and returned, as in \<open>validate_value_inner\<close>.\<close>

function (sequential) decode_value ::
    "'q external_api \<Rightarrow> 'q graph_schema \<Rightarrow> graph_type_id \<Rightarrow> nat \<Rightarrow> nat \<Rightarrow> bytes
      \<Rightarrow> wire_error + 'q graph_value \<times> nat \<times> bytes"
  and decode_items ::
    "'q external_api \<Rightarrow> 'q graph_schema \<Rightarrow> graph_type_id \<Rightarrow> nat \<Rightarrow> nat \<Rightarrow> nat \<Rightarrow> bytes
      \<Rightarrow> wire_error + 'q graph_value list \<times> nat \<times> bytes"
  and decode_fields ::
    "'q external_api \<Rightarrow> 'q graph_schema \<Rightarrow> record_field list \<Rightarrow> nat \<Rightarrow> nat \<Rightarrow> bytes
      \<Rightarrow> wire_error + (record_field_id \<times> 'q graph_value) list \<times> nat \<times> bytes" where
  "decode_value R S t depth nodes0 bs =
     (let limits = gs_limits S in
      if depth > maximum_value_depth limits then Inl (WE_Schema SE_ValueDepthExceeded)
      else and_then (ok_or (WE_Schema SE_ValueNodeLimitExceeded) (checked_add_usize nodes0 1)) (\<lambda>nodes.
      if nodes > maximum_value_nodes limits then Inl (WE_Schema SE_ValueNodeLimitExceeded)
      else and_then (ok_or (WE_Schema (SE_UnknownType t)) (value_type S t)) (\<lambda>definition.
      case td_kind definition of
        TBoolean \<Rightarrow> and_then (get_u8 bs) (\<lambda>(tag, bs).
          if tag = 0 then Inr (VBoolean False, nodes, bs)
          else if tag = 1 then Inr (VBoolean True, nodes, bs)
          else Inl (WE_InvalidTag ''boolean'' tag))
      | TExactRational _ \<Rightarrow> and_then (get_rational R (maximum_rational_digits limits) bs) (\<lambda>(q, bs).
          Inr (VExactRational q, nodes, bs))
      | TMeasurementInterval _ \<Rightarrow>
          and_then (get_rational R (maximum_rational_digits limits) bs) (\<lambda>(lower, bs).
          and_then (get_rational R (maximum_rational_digits limits) bs) (\<lambda>(upper, bs).
          Inr (VMeasurementInterval lower upper, nodes, bs)))
      | TCanonicalI64 _ _ \<Rightarrow> and_then (get_i64 bs) (\<lambda>(i, bs). Inr (VCanonicalI64 i, nodes, bs))
      | TCanonicalU64 _ _ \<Rightarrow> and_then (get_u64 bs) (\<lambda>(u, bs). Inr (VCanonicalU64 u, nodes, bs))
      | TText maximum_bytes \<Rightarrow> and_then (usize_from_u32 ''text literal bound'' maximum_bytes) (\<lambda>m.
          and_then (get_text (min m (maximum_text_bytes limits)) ''text literal'' bs) (\<lambda>(s, bs).
          Inr (VText s, nodes, bs)))
      | TBytes maximum_bytes \<Rightarrow> and_then (usize_from_u32 ''byte literal bound'' maximum_bytes) (\<lambda>m.
          and_then (get_bounded_bytes (min m (maximum_blob_bytes limits)) ''byte literal length'' bs)
            (\<lambda>(s, bs). Inr (VBytes s, nodes, bs)))
      | TArray element maximum_items \<Rightarrow>
          and_then (usize_from_u32 ''array literal bound'' maximum_items) (\<lambda>m.
          and_then (get_count (min m (maximum_array_items limits)) ''array literal count'' bs) (\<lambda>(count, bs).
          and_then (decode_items R S element count (Suc depth) nodes bs) (\<lambda>(xs, nodes, bs).
          Inr (VArray xs, nodes, bs))))
      | TRecord fs \<Rightarrow>
          and_then (get_count (maximum_record_fields limits) ''record literal count'' bs) (\<lambda>(count, bs).
          if count \<noteq> length fs then Inl (WE_Schema SE_RecordShape)
          else and_then (decode_fields R S fs (Suc depth) nodes bs) (\<lambda>(vs, nodes, bs).
          Inr (VRecord vs, nodes, bs)))
      | TOption inner \<Rightarrow> and_then (get_u8 bs) (\<lambda>(tag, bs).
          if tag = 0 then Inr (VOptionNone, nodes, bs)
          else if tag = 1 then and_then (decode_value R S inner (Suc depth) nodes bs) (\<lambda>(x, nodes, bs).
            Inr (VOptionSome x, nodes, bs))
          else Inl (WE_InvalidTag ''option value'' tag))
      | TResult ok error \<Rightarrow> and_then (get_u8 bs) (\<lambda>(tag, bs).
          if tag = 0 then and_then (decode_value R S ok (Suc depth) nodes bs) (\<lambda>(x, nodes, bs).
            Inr (VResultOk x, nodes, bs))
          else if tag = 1 then and_then (decode_value R S error (Suc depth) nodes bs) (\<lambda>(x, nodes, bs).
            Inr (VResultError x, nodes, bs))
          else Inl (WE_InvalidTag ''result value'' tag))
      | TResourceHandle _ \<Rightarrow>
          and_then (get_device_id bs) (\<lambda>(device, bs).
          and_then (get_digest bs) (\<lambda>(package, bs).
          and_then (get_u32 bs) (\<lambda>(class, bs).
          and_then (get_u32 bs) (\<lambda>(selector, bs).
          Inr (VResourceHandle \<lparr>rh_device_id = device, rh_board_package_digest = package,
                 rh_class = class, rh_resource_selector = selector\<rparr>, nodes, bs)))))
      | TJobHandle \<Rightarrow>
          and_then (get_device_id bs) (\<lambda>(device, bs).
          and_then (get_digest bs) (\<lambda>(global_job, bs).
          and_then (get_digest bs) (\<lambda>(partition, bs).
          Inr (VJobHandle \<lparr>jh_device_id = device, jh_global_job_digest = global_job,
                 jh_partition_digest = partition\<rparr>, nodes, bs))))
      | TEvent _ _ \<Rightarrow> Inl (WE_Schema (SE_RuntimeOnlyType t))
      | TStream _ _ _ \<Rightarrow> Inl (WE_Schema (SE_RuntimeOnlyType t)))))"
| "decode_items R S element 0 depth nodes bs = Inr ([], nodes, bs)"
| "decode_items R S element (Suc n) depth nodes bs =
     and_then (decode_value R S element depth nodes bs) (\<lambda>(x, nodes, bs).
     and_then (decode_items R S element n depth nodes bs) (\<lambda>(xs, nodes, bs).
     Inr (x # xs, nodes, bs)))"
| "decode_fields R S [] depth nodes bs = Inr ([], nodes, bs)"
| "decode_fields R S (f # fs) depth nodes bs =
     and_then (get_u32 bs) (\<lambda>(i, bs).
     and_then (decode_value R S (rf_value_type f) depth nodes bs) (\<lambda>(x, nodes, bs).
     and_then (decode_fields R S fs depth nodes bs) (\<lambda>(vs, nodes, bs).
     Inr ((i, x) # vs, nodes, bs))))"
  by pat_completeness auto
termination
  by (relation "measures
      [\<lambda>x. case x of Inl (R, S, t, d, n, bs) \<Rightarrow> Suc (maximum_value_depth (gs_limits S)) - d
                   | Inr (Inl (R, S, e, k, d, n, bs)) \<Rightarrow> Suc (maximum_value_depth (gs_limits S)) - d
                   | Inr (Inr (R, S, fs, d, n, bs)) \<Rightarrow> Suc (maximum_value_depth (gs_limits S)) - d,
       \<lambda>x. case x of Inl _ \<Rightarrow> 0
                   | Inr (Inl (R, S, e, k, d, n, bs)) \<Rightarrow> Suc k
                   | Inr (Inr (R, S, fs, d, n, bs)) \<Rightarrow> Suc (length fs)]") auto

declare decode_value.simps(1) [simp del]

definition decode_typed_value ::
  "'q external_api \<Rightarrow> 'q graph_schema \<Rightarrow> bytes \<Rightarrow> wire_error + 'q typed_graph_value \<times> bytes" where
  "decode_typed_value R S bs =
     and_then (get_u32 bs) (\<lambda>(t, bs).
     and_then (decode_value R S t 1 0 bs) (\<lambda>(v, nodes, bs).
     and_then (map_err WE_Schema (try_new_typed_value R S t v)) (\<lambda>tv. Inr (tv, bs))))"

definition decode_typed_value_bytes ::
  "'q external_api \<Rightarrow> 'q graph_schema \<Rightarrow> bytes \<Rightarrow> wire_error + 'q typed_graph_value" where
  "decode_typed_value_bytes R S bs =
     and_then (decode_typed_value R S bs) (\<lambda>(tv, rest).
     if rest \<noteq> [] then Inl WE_TrailingBytes
     else and_then (encode_typed_value_bytes R S tv) (\<lambda>canonical.
     if canonical \<noteq> bs then Inl WE_NonCanonical else Inr tv))"

section \<open>The reader accepts only what the writer produces\<close>

text \<open>
  What the representation of a value guarantees in the source: a \<^verbatim>\<open>String\<close> is UTF-8,
  a \<^verbatim>\<open>DeviceId\<close> has 16 bytes, a \<^verbatim>\<open>Digest\<close> 32, and a rational prints as
  text that parses back to it.
\<close>

fun wire_value :: "'q external_api \<Rightarrow> 'q graph_value \<Rightarrow> bool" where
  "wire_value R (VExactRational q) \<longleftrightarrow> rational_readable R q"
| "wire_value R (VMeasurementInterval lo hi) \<longleftrightarrow> rational_readable R lo \<and> rational_readable R hi"
| "wire_value R (VText s) \<longleftrightarrow> utf8_valid s"
| "wire_value R (VArray xs) \<longleftrightarrow> (\<forall>x \<in> set xs. wire_value R x)"
| "wire_value R (VRecord vs) \<longleftrightarrow> (\<forall>iv \<in> set vs. wire_value R (snd iv))"
| "wire_value R (VOptionSome x) \<longleftrightarrow> wire_value R x"
| "wire_value R (VResultOk x) \<longleftrightarrow> wire_value R x"
| "wire_value R (VResultError x) \<longleftrightarrow> wire_value R x"
| "wire_value R (VResourceHandle h) \<longleftrightarrow> length (rh_device_id h) = 16 \<and> length (rh_board_package_digest h) = 32"
| "wire_value R (VJobHandle h) \<longleftrightarrow> length (jh_device_id h) = 16 \<and> length (jh_global_job_digest h) = 32
     \<and> length (jh_partition_digest h) = 32"
| "wire_value R v \<longleftrightarrow> True"

lemmas get_Inr = get_u8_Inr get_u16_Inr get_u32_Inr get_u64_Inr get_i64_Inr get_count_Inr
  get_text_Inr get_bounded_bytes_Inr

abbreviation put_record_entry ::
  "'q external_api \<Rightarrow> 'q graph_schema \<Rightarrow> record_field \<times> record_field_id \<times> 'q graph_value \<Rightarrow> wire_error + bytes" where
  "put_record_entry R S \<equiv> (\<lambda>fiv. and_then (encode_value R S (rf_value_type (fst fiv)) (snd (snd fiv)))
     (\<lambda>b. Inr (put_u32 (fst (snd fiv)) @ b)))"

lemma decode_value_step:
  assumes "decode_value R S t d n bs = Inr (v, n', rest)"
  obtains D where "value_type S t = Some D" and "d \<le> maximum_value_depth (gs_limits S)"
    and "Suc n \<le> node_bound S"
  using assms by (auto simp: decode_value.simps(1) Let_def node_bound_def split: if_splits)

lemma decode_value_exact:
  "decode_value R S t d n bs = Inr (v, n', rest) \<Longrightarrow>
     wire_value R v \<and> (\<exists>used. encode_value R S t v = Inr used \<and> bs = used @ rest)"
  and decode_items_exact:
  "decode_items R S e k d n bs = Inr (xs, n', rest) \<Longrightarrow>
     length xs = k \<and> (\<forall>x \<in> set xs. wire_value R x)
     \<and> (\<exists>used. write_each (encode_value R S e) xs = Inr used \<and> bs = used @ rest)"
  and decode_fields_exact:
  "decode_fields R S fs d n bs = Inr (vs, n', rest) \<Longrightarrow>
     length vs = length fs \<and> (\<forall>iv \<in> set vs. wire_value R (snd iv))
     \<and> (\<exists>used. write_each (put_record_entry R S) (zip fs vs) = Inr used \<and> bs = used @ rest)"
proof (induction R S t d n bs and R S e k d n bs and R S fs d n bs arbitrary: v n' rest and xs n' rest and vs n' rest
    rule: decode_value_decode_items_decode_fields.induct)
  case (1 R S t depth nodes0 bs)
  from 1(6) obtain D where D: "value_type S t = Some D" and d: "depth \<le> maximum_value_depth (gs_limits S)"
    and n: "Suc nodes0 \<le> node_bound S" by (rule decode_value_step)
  note run = 1(6)[unfolded decode_value.simps(1)[of R S t depth nodes0 bs]]
  show ?case
  proof (cases "td_kind D")
    case (TArray e m)
    from run D d n TArray obtain k bs' xs where k: "get_count (min (unat m) (maximum_array_items (gs_limits S)))
        ''array literal count'' bs = Inr (k, bs')"
      and xs: "decode_items R S e k (Suc depth) (Suc nodes0) bs' = Inr (xs, n', rest)" and v: "v = VArray xs"
      by (auto simp: Let_def node_bound_def)
    have "length xs = k \<and> (\<forall>x \<in> set xs. wire_value R x)
        \<and> (\<exists>used. write_each (encode_value R S e) xs = Inr used \<and> bs' = used @ rest)"
      by (rule 1(1)[OF refl _ _ _ _ TArray _ k _ xs]) (use D d n in \<open>auto simp: node_bound_def\<close>)
    with k v D TArray show ?thesis
      by (auto simp: Let_def encode_value.simps[of R S t] get_Inr)
  next
    case (TRecord fs)
    from run D d n TRecord obtain k bs' vs where k: "get_count (maximum_record_fields (gs_limits S))
        ''record literal count'' bs = Inr (k, bs')" and len: "\<not> k \<noteq> length fs"
      and vs: "decode_fields R S fs (Suc depth) (Suc nodes0) bs' = Inr (vs, n', rest)" and v: "v = VRecord vs"
      by (auto simp: Let_def node_bound_def split: if_splits)
    have "length vs = length fs \<and> (\<forall>iv \<in> set vs. wire_value R (snd iv))
        \<and> (\<exists>used. write_each (put_record_entry R S) (zip fs vs) = Inr used \<and> bs' = used @ rest)"
      by (rule 1(2)[OF refl _ _ _ _ TRecord k _ len vs]) (use D d n in \<open>auto simp: node_bound_def\<close>)
    with k len v D TRecord show ?thesis
      by (auto simp: Let_def encode_value.simps[of R S t] get_Inr)
  next
    case (TOption e)
    from run D d n TOption obtain tag bs' where tag: "get_u8 bs = Inr (tag, bs')"
      and cases: "tag = 0 \<and> v = VOptionNone \<and> bs' = rest \<or>
        tag \<noteq> 0 \<and> tag = 1 \<and> (\<exists>x. decode_value R S e (Suc depth) (Suc nodes0) bs' = Inr (x, n', rest) \<and> v = VOptionSome x)"
      by (auto simp: Let_def node_bound_def split: if_splits)
    have "wire_value R x \<and> (\<exists>used. encode_value R S e x = Inr used \<and> bs' = used @ rest)"
      if "decode_value R S e (Suc depth) (Suc nodes0) bs' = Inr (x, n', rest)" "tag \<noteq> 0" "tag = 1" for x
      by (rule 1(3)[OF refl _ _ _ _ TOption tag _ that(2,3,1)]) (use D d n in \<open>auto simp: node_bound_def\<close>)
    with tag cases D TOption show ?thesis
      by (auto simp: Let_def encode_value.simps[of R S t] get_Inr)
  next
    case (TResult a b)
    from run D d n TResult obtain tag bs' where tag: "get_u8 bs = Inr (tag, bs')"
      and cases: "tag = 0 \<and> (\<exists>x. decode_value R S a (Suc depth) (Suc nodes0) bs' = Inr (x, n', rest) \<and> v = VResultOk x) \<or>
        tag \<noteq> 0 \<and> tag = 1 \<and> (\<exists>x. decode_value R S b (Suc depth) (Suc nodes0) bs' = Inr (x, n', rest) \<and> v = VResultError x)"
      by (auto simp: Let_def node_bound_def split: if_splits)
    have "wire_value R x \<and> (\<exists>used. encode_value R S a x = Inr used \<and> bs' = used @ rest)"
      if "decode_value R S a (Suc depth) (Suc nodes0) bs' = Inr (x, n', rest)" "tag = 0" for x
      by (rule 1(4)[OF refl _ _ _ _ TResult tag _ that(2,1)]) (use D d n in \<open>auto simp: node_bound_def\<close>)
    moreover have "wire_value R x \<and> (\<exists>used. encode_value R S b x = Inr used \<and> bs' = used @ rest)"
      if "decode_value R S b (Suc depth) (Suc nodes0) bs' = Inr (x, n', rest)" "tag \<noteq> 0" "tag = 1" for x
      by (rule 1(5)[OF refl _ _ _ _ TResult tag _ that(2,3,1)]) (use D d n in \<open>auto simp: node_bound_def\<close>)
    ultimately show ?thesis
      using tag cases D TResult by (auto simp: Let_def encode_value.simps[of R S t] get_Inr)
  next
    case (TEvent a b)
    with run D d n show ?thesis by (auto simp: Let_def node_bound_def)
  next
    case (TStream a b c)
    with run D d n show ?thesis by (auto simp: Let_def node_bound_def)
  qed (use run D d n in \<open>auto simp: Let_def node_bound_def encode_value.simps[of R S t] get_Inr
      get_device_id_def get_digest_def dest!: get_rational_Inr split: if_splits\<close>)
next
  case (2 R S element depth nodes bs)
  then show ?case by simp
next
  case (3 R S element n depth nodes bs)
  then show ?case by fastforce
next
  case (4 R S depth nodes bs)
  then show ?case by simp
next
  case (5 R S f fs depth nodes bs)
  then show ?case by (fastforce simp: get_Inr)
qed

section \<open>The reader undoes the writer\<close>

text \<open>Schemas come from \<^verbatim>\<open>GraphSchema::try_new\<close>, so the clients may assume one is well formed.\<close>

locale wf_schema =
  fixes R :: "'q external_api" and S :: "'q graph_schema"
  assumes wf: "schema_wf R S"
begin

lemma record_fields_bound:
  "value_type S t = Some D \<Longrightarrow> td_kind D = TRecord fs \<Longrightarrow> length fs \<le> maximum_record_fields (gs_limits S)"
  using wf value_type_iff[OF wf, of t D] by (auto simp: schema_wf_def type_ok_def)

definition reads_back :: "'q graph_value \<Rightarrow> bool" where
  "reads_back v \<longleftrightarrow> (\<forall>t d n bs rest.
     has_type R S t v \<longrightarrow> encode_value R S t v = Inr bs \<longrightarrow>
     d + value_depth v \<le> Suc (maximum_value_depth (gs_limits S)) \<longrightarrow> n + value_nodes v \<le> node_bound S \<longrightarrow>
     decode_value R S t d n (bs @ rest) = Inr (v, n + value_nodes v, rest))"

lemma reads_backI:
  assumes "\<And>t D d n bs rest. has_type R S t v \<Longrightarrow> encode_value R S t v = Inr bs \<Longrightarrow>
     value_type S t = Some D \<Longrightarrow> d \<le> maximum_value_depth (gs_limits S) \<Longrightarrow> Suc n \<le> node_bound S \<Longrightarrow>
     d + value_depth v \<le> Suc (maximum_value_depth (gs_limits S)) \<Longrightarrow> n + value_nodes v \<le> node_bound S \<Longrightarrow>
     decode_value R S t d n (bs @ rest) = Inr (v, n + value_nodes v, rest)"
  shows "reads_back v"
  unfolding reads_back_def
proof (intro allI impI)
  fix t d n bs rest
  assume *: "has_type R S t v" "encode_value R S t v = Inr bs"
    "d + value_depth v \<le> Suc (maximum_value_depth (gs_limits S))" "n + value_nodes v \<le> node_bound S"
  moreover obtain D where "value_type S t = Some D" using has_type_registered[OF *(1)] ..
  moreover have "d \<le> maximum_value_depth (gs_limits S)" "Suc n \<le> node_bound S"
    using *(3,4) value_depth_positive[of v] value_nodes_positive[of v] by simp_all
  ultimately show "decode_value R S t d n (bs @ rest) = Inr (v, n + value_nodes v, rest)"
    using assms by blast
qed

lemma read_items:
  assumes "\<forall>x \<in> set xs. reads_back x \<and> has_type R S e x
      \<and> d + value_depth x \<le> Suc (maximum_value_depth (gs_limits S))"
    and "write_each (encode_value R S e) xs = Inr bs" and "n + (\<Sum>x \<leftarrow> xs. value_nodes x) \<le> node_bound S"
  shows "decode_items R S e (length xs) d n (bs @ rest) = Inr (xs, n + (\<Sum>x \<leftarrow> xs. value_nodes x), rest)"
  using assms
proof (induction xs arbitrary: n bs)
  case (Cons x xs)
  from Cons.prems(2) obtain a b where ab: "encode_value R S e x = Inr a"
    "write_each (encode_value R S e) xs = Inr b" "bs = a @ b" by auto
  have "decode_value R S e d n (a @ b @ rest) = Inr (x, n + value_nodes x, b @ rest)"
    using Cons.prems(1,3) ab(1) by (auto simp: reads_back_def)
  with Cons.IH[of b "n + value_nodes x"] Cons.prems ab show ?case by (simp add: add.assoc)
qed simp

lemma read_fields:
  assumes "list_all2 (\<lambda>f iv. rf_id f = fst iv \<and> has_type R S (rf_value_type f) (snd iv)) fs vs"
    and "\<forall>iv \<in> set vs. reads_back (snd iv) \<and> d + value_depth (snd iv) \<le> Suc (maximum_value_depth (gs_limits S))"
    and "write_each (put_record_entry R S) (zip fs vs) = Inr bs"
    and "n + (\<Sum>iv \<leftarrow> vs. value_nodes (snd iv)) \<le> node_bound S"
  shows "decode_fields R S fs d n (bs @ rest) = Inr (vs, n + (\<Sum>iv \<leftarrow> vs. value_nodes (snd iv)), rest)"
  using assms
proof (induction fs vs arbitrary: n bs rule: list_all2_induct)
  case (Cons f fs iv vs)
  from Cons.prems(2) obtain a b where ab: "encode_value R S (rf_value_type f) (snd iv) = Inr a"
    "write_each (put_record_entry R S) (zip fs vs) = Inr b" "bs = (put_u32 (fst iv) @ a) @ b" by auto
  have "decode_value R S (rf_value_type f) d n (a @ b @ rest) = Inr (snd iv, n + value_nodes (snd iv), b @ rest)"
    using Cons.hyps Cons.prems(1,3) ab(1) by (auto simp: reads_back_def)
  with Cons.IH[of b "n + value_nodes (snd iv)"] Cons.prems ab show ?case by (simp add: add.assoc)
qed simp

lemma reads_back_wrapped:
  assumes "reads_back x" and "v \<in> {VOptionSome x, VResultOk x, VResultError x}"
  shows "reads_back v"
proof (rule reads_backI)
  fix t D d n bs rest
  assume *: "has_type R S t v" "encode_value R S t v = Inr bs" "value_type S t = Some D"
    "d \<le> maximum_value_depth (gs_limits S)" "Suc n \<le> node_bound S"
    "d + value_depth v \<le> Suc (maximum_value_depth (gs_limits S))" "n + value_nodes v \<le> node_bound S"
  then show "decode_value R S t d n (bs @ rest) = Inr (v, n + value_nodes v, rest)"
    using assms
    by (elim insertE emptyE; clarsimp simp: encode_value.simps[of R S t] Let_def;
      simp add: decode_value.simps(1)[of R S t] Let_def node_bound_def reads_back_def)
qed

fun leaf_value :: "'q graph_value \<Rightarrow> bool" where
  "leaf_value (VArray _) = False"
| "leaf_value (VRecord _) = False"
| "leaf_value (VOptionSome _) = False"
| "leaf_value (VResultOk _) = False"
| "leaf_value (VResultError _) = False"
| "leaf_value _ = True"

lemma reads_back_leaf:
  assumes "wire_value R v" and "leaf_value v"
  shows "reads_back v"
proof (rule reads_backI)
  fix t D d n bs rest
  assume *: "has_type R S t v" "encode_value R S t v = Inr bs" "value_type S t = Some D"
    "d \<le> maximum_value_depth (gs_limits S)" "Suc n \<le> node_bound S"
  then show "decode_value R S t d n (bs @ rest) = Inr (v, n + value_nodes v, rest)"
    using assms
    by (cases v; clarsimp simp: encode_value.simps[of R S t] Let_def;
      simp add: decode_value.simps(1)[of R S t] Let_def node_bound_def get_rational_put)
qed

lemma reads_back_array:
  assumes "\<forall>x \<in> set xs. reads_back x"
  shows "reads_back (VArray xs)"
proof (rule reads_backI)
  fix t D d n bs rest
  assume ty: "has_type R S t (VArray xs)" and enc: "encode_value R S t (VArray xs) = Inr bs"
    and S: "value_type S t = Some D" "d \<le> maximum_value_depth (gs_limits S)" "Suc n \<le> node_bound S"
    and depth: "d + value_depth (VArray xs) \<le> Suc (maximum_value_depth (gs_limits S))"
    and nodes: "n + value_nodes (VArray xs) \<le> node_bound S"
  from ty S(1) obtain e m where D: "td_kind D = TArray e m" and xs: "length xs \<le> unat m"
    "length xs \<le> maximum_array_items (gs_limits S)" "\<forall>x \<in> set xs. has_type R S e x" by auto
  from enc S(1) D obtain b where b: "write_each (encode_value R S e) xs = Inr b"
    and len: "length xs \<le> u32_max" and bs: "bs = put_u32 (word_of_nat (length xs)) @ b"
    by (auto simp: encode_value.simps[of R S t] Let_def)
  have "\<forall>x \<in> set xs. Suc d + value_depth x \<le> Suc (maximum_value_depth (gs_limits S))"
    using depth depth_of_children[of "value_depth ` set xs" d] by simp
  with assms xs(3) have "\<forall>x \<in> set xs. reads_back x \<and> has_type R S e x
    \<and> Suc d + value_depth x \<le> Suc (maximum_value_depth (gs_limits S))" by auto
  from read_items[OF this b, of "Suc n" rest] nodes have
    "decode_items R S e (length xs) (Suc d) (Suc n) (b @ rest) = Inr (xs, n + value_nodes (VArray xs), rest)"
    by simp
  with S D xs(1,2) len show "decode_value R S t d n (bs @ rest) = Inr (VArray xs, n + value_nodes (VArray xs), rest)"
    unfolding bs by (simp add: decode_value.simps(1)[of R S t] Let_def node_bound_def)
qed

lemma reads_back_record:
  assumes "\<forall>iv \<in> set vs. reads_back (snd iv)"
  shows "reads_back (VRecord vs)"
proof (rule reads_backI)
  fix t D d n bs rest
  assume ty: "has_type R S t (VRecord vs)" and enc: "encode_value R S t (VRecord vs) = Inr bs"
    and S: "value_type S t = Some D" "d \<le> maximum_value_depth (gs_limits S)" "Suc n \<le> node_bound S"
    and depth: "d + value_depth (VRecord vs) \<le> Suc (maximum_value_depth (gs_limits S))"
    and nodes: "n + value_nodes (VRecord vs) \<le> node_bound S"
  from ty S(1) obtain fs where D: "td_kind D = TRecord fs"
    and fs: "list_all2 (\<lambda>f iv. rf_id f = fst iv \<and> has_type R S (rf_value_type f) (snd iv)) fs vs" by auto
  note bound = record_fields_bound[OF S(1) D] list_all2_lengthD[OF fs]
  from enc S(1) D obtain b where b: "write_each (put_record_entry R S) (zip fs vs) = Inr b"
    and len: "length vs \<le> u32_max" and bs: "bs = put_u32 (word_of_nat (length vs)) @ b"
    by (auto simp: encode_value.simps[of R S t] Let_def)
  have "\<forall>iv \<in> set vs. Suc d + value_depth (snd iv) \<le> Suc (maximum_value_depth (gs_limits S))"
    using depth depth_of_children[of "(\<lambda>iv. value_depth (snd iv)) ` set vs" d] by simp
  with assms have "\<forall>iv \<in> set vs. reads_back (snd iv)
    \<and> Suc d + value_depth (snd iv) \<le> Suc (maximum_value_depth (gs_limits S))" by blast
  from read_fields[OF fs this b, of "Suc n" rest] nodes have
    "decode_fields R S fs (Suc d) (Suc n) (b @ rest) = Inr (vs, n + value_nodes (VRecord vs), rest)"
    by simp
  with S D bound len show "decode_value R S t d n (bs @ rest) = Inr (VRecord vs, n + value_nodes (VRecord vs), rest)"
    unfolding bs by (simp add: decode_value.simps(1)[of R S t] Let_def node_bound_def)
qed

lemma reads_back: "wire_value R v \<Longrightarrow> reads_back v"
proof (induction v)
  case (VArray xs)
  show ?case by (rule reads_back_array) (use VArray in simp)
next
  case (VRecord vs)
  have "reads_back (snd iv)" if "iv \<in> set vs" for iv
    using VRecord(1)[OF that snds.intros] VRecord(2) that by simp
  then have "\<forall>iv \<in> set vs. reads_back (snd iv)" ..
  then show ?case by (rule reads_back_record)
next
  case (VOptionSome x)
  show ?case by (rule reads_back_wrapped[of x]) (use VOptionSome in simp_all)
next
  case (VResultOk x)
  show ?case by (rule reads_back_wrapped[of x]) (use VResultOk in simp_all)
next
  case (VResultError x)
  show ?case by (rule reads_back_wrapped[of x]) (use VResultError in simp_all)
qed (simp_all add: reads_back_leaf)

lemma decode_encode_typed:
  assumes "wire_value R (tv_value tv)" and "encode_typed_value R S tv = Inr bs"
  shows "decode_typed_value R S (bs @ rest) = Inr (tv, rest)"
proof -
  from assms(2) obtain b where valid: "validate_typed_value R S tv = Inr ()"
    and b: "encode_value R S (tv_value_type tv) (tv_value tv) = Inr b"
    and bs: "bs = put_u32 (tv_value_type tv) @ b"
    by (auto simp: encode_typed_value_def)
  from valid have ty: "has_type R S (tv_value_type tv) (tv_value tv)"
    "1 + value_depth (tv_value tv) \<le> Suc (maximum_value_depth (gs_limits S))"
    "0 + value_nodes (tv_value tv) \<le> node_bound S"
    and new: "try_new_typed_value R S (tv_value_type tv) (tv_value tv) = Inr tv"
    by (simp_all add: validate_typed_value_def validate_value_iff try_new_typed_value_iff)
  have "decode_value R S (tv_value_type tv) 1 0 (b @ rest) = Inr (tv_value tv, 0 + value_nodes (tv_value tv), rest)"
    using reads_back[OF assms(1)] ty b unfolding reads_back_def by blast
  with new show ?thesis by (simp add: decode_typed_value_def bs)
qed

end

lemma decode_typed_value_exact:
  assumes "decode_typed_value R S bs = Inr (tv, rest)"
  shows "wire_value R (tv_value tv) \<and> (\<exists>used. encode_typed_value R S tv = Inr used \<and> bs = used @ rest)"
proof -
  from assms obtain t b1 v n where t: "get_u32 bs = Inr (t, b1)"
    and v: "decode_value R S t 1 0 b1 = Inr (v, n, rest)" and new: "try_new_typed_value R S t v = Inr tv"
    by (auto simp: decode_typed_value_def)
  from decode_value_exact[OF v] obtain used where "wire_value R v" "encode_value R S t v = Inr used"
    "b1 = used @ rest" by blast
  with t new show ?thesis
    by (auto simp: encode_typed_value_def try_new_typed_value_iff validate_typed_value_def get_u32_Inr)
qed

sublocale wf_schema \<subseteq> typed: exact_codec "encode_typed_value R S" "decode_typed_value R S"
  "\<lambda>tv. wire_value R (tv_value tv)"
  by unfold_locales (use decode_encode_typed decode_typed_value_exact in blast)+

text \<open>Schemas that the constructor accepts, and the two concrete ones.\<close>

lemma wf_schema_try_new: "try_new_schema R l us ts = Inr S \<Longrightarrow> wf_schema R S"
  by unfold_locales (rule try_new_schema_wf)

interpretation chain: wf_schema R chain_schema for R :: "'q external_api"
  by unfold_locales (rule chain_schema_wf)

section \<open>When encoding succeeds\<close>

text \<open>On a well-typed literal the writer fails only where a length does not fit 32 bits.\<close>

fun fits_wire :: "'q external_api \<Rightarrow> 'q graph_value \<Rightarrow> bool" where
  "fits_wire R (VExactRational q) \<longleftrightarrow> rational_length_ok R u32_max q"
| "fits_wire R (VMeasurementInterval lo hi) \<longleftrightarrow> rational_length_ok R u32_max lo \<and> rational_length_ok R u32_max hi"
| "fits_wire R (VArray xs) \<longleftrightarrow> (\<forall>x \<in> set xs. fits_wire R x)"
| "fits_wire R (VRecord vs) \<longleftrightarrow> length vs \<le> u32_max \<and> (\<forall>iv \<in> set vs. fits_wire R (snd iv))"
| "fits_wire R (VOptionSome x) \<longleftrightarrow> fits_wire R x"
| "fits_wire R (VResultOk x) \<longleftrightarrow> fits_wire R x"
| "fits_wire R (VResultError x) \<longleftrightarrow> fits_wire R x"
| "fits_wire R v \<longleftrightarrow> True"

lemma write_each_total: "\<forall>x \<in> set xs. \<exists>b. w x = Inr b \<Longrightarrow> \<exists>b. write_each w xs = Inr b"
  by (induction xs) auto

lemma encode_value_total:
  "has_type R S t v \<Longrightarrow> fits_wire R v \<Longrightarrow> \<exists>b. encode_value R S t v = Inr b"
proof (induction v arbitrary: t)
  case (VArray xs)
  then obtain D e m where D: "value_type S t = Some D" "td_kind D = TArray e m" and len: "length xs \<le> unat m"
    and xs: "\<forall>x \<in> set xs. \<exists>b. encode_value R S e x = Inr b" by auto
  from write_each_total[OF xs] D len unat_u32_le[of m] show ?case
    by (auto simp: encode_value.simps[of R S t] Let_def intro: le_trans)
next
  case (VRecord vs)
  then obtain D fs where D: "value_type S t = Some D" "td_kind D = TRecord fs"
    and fs: "list_all2 (\<lambda>f iv. rf_id f = fst iv \<and> has_type R S (rf_value_type f) (snd iv)) fs vs" by auto
  have "\<exists>b. put_record_entry R S fiv = Inr b" if "fiv \<in> set (zip fs vs)" for fiv
  proof -
    obtain f iv where fiv: "fiv = (f, iv)" by (cases fiv)
    with that have "iv \<in> set vs" "has_type R S (rf_value_type f) (snd iv)"
      using fs by (auto simp: list_all2_iff dest: set_zip_rightD)
    moreover have "fits_wire R (snd iv)" using VRecord.prems(2) \<open>iv \<in> set vs\<close> by simp
    ultimately have "\<exists>b. encode_value R S (rf_value_type f) (snd iv) = Inr b"
      using VRecord.IH[OF _ snds.intros] by blast
    then show ?thesis by (auto simp: fiv)
  qed
  then have "\<exists>b. write_each (put_record_entry R S) (zip fs vs) = Inr b"
    by (intro write_each_total ballI)
  with D VRecord.prems(2) show ?case by (auto simp: encode_value.simps[of R S t] Let_def)
next
  case (VOptionSome x)
  then show ?case by (fastforce simp: encode_value.simps[of R S t] Let_def)
next
  case (VResultOk x)
  then show ?case by (fastforce simp: encode_value.simps[of R S t] Let_def)
next
  case (VResultError x)
  then show ?case by (fastforce simp: encode_value.simps[of R S t] Let_def)
next
  case (VText s)
  then obtain D m where "value_type S t = Some D" "td_kind D = TText m" "length s \<le> unat m" by auto
  with unat_u32_le[of m] show ?case by (simp add: encode_value.simps[of R S t] Let_def)
next
  case (VBytes s)
  then obtain D m where "value_type S t = Some D" "td_kind D = TBytes m" "length s \<le> unat m" by auto
  with unat_u32_le[of m] show ?case by (simp add: encode_value.simps[of R S t] Let_def)
qed (auto simp: encode_value.simps Let_def rational_length_ok_def rational_fits_def)

section \<open>The byte identity of a typed value\<close>

lemma decode_typed_value_bytes_Inr:
  "decode_typed_value_bytes R S bs = Inr tv \<longleftrightarrow> decode_typed_value R S bs = Inr (tv, [])"
  using decode_typed_value_exact[of R S bs tv "[]"]
  by (auto simp: decode_typed_value_bytes_def encode_typed_value_bytes_def split: if_splits)

context wf_schema
begin

lemma decode_bytes_iff:
  "decode_typed_value_bytes R S bs = Inr tv \<longleftrightarrow>
     wire_value R (tv_value tv) \<and> encode_typed_value_bytes R S tv = Inr bs"
  using typed.decode_iff[of bs tv "[]"]
  by (simp add: decode_typed_value_bytes_Inr encode_typed_value_bytes_def)

lemma encoding_injective:
  "wire_value R (tv_value a) \<Longrightarrow> wire_value R (tv_value b) \<Longrightarrow>
     encode_typed_value_bytes R S a = Inr bs \<Longrightarrow> encode_typed_value_bytes R S b = Inr (bs @ extra) \<Longrightarrow>
     a = b \<and> extra = []"
  using typed.encode_prefix_free by (simp add: encode_typed_value_bytes_def)

end

lemma pair_schema_wf: "schema_wf R (pair_schema :: 'q graph_schema)"
proof -
  let ?S = "pair_schema :: 'q graph_schema"
  have "acyclic {(2 :: u32, 1 :: u32)}" by (simp add: acyclic_insert wf_acyclic)
  moreover have "type_references ?S = {(2, 1)}"
    by (auto simp: type_references_def pair_schema_def example_type_def)
  ultimately have "acyclic (type_references ?S)" by (simp only:)
  then show ?thesis
    by (simp add: schema_wf_def)
      (simp add: pair_schema_def type_ok_def type_resolves_def u32_within_def canonical_table_def
        example_type_def evaluate_names evaluate_limits)
qed

lemma put_small_u32: "put_u32 1 = [1, 0, 0, 0]" "put_u32 2 = [2, 0, 0, 0]"
  by code_simp+

lemma pair_value_encoded:
  "encode_typed_value_bytes R pair_schema (pair_value True False) = Inr [2, 0, 0, 0, 2, 0, 0, 0, 1, 0]"
proof -
  have "encode_value R pair_schema 2 (VArray [VBoolean True, VBoolean False]) = Inr [2, 0, 0, 0, 1, 0]"
    by (simp add: encode_value.simps Let_def put_small_u32 put_count_def u32_max_def put_u8_def)
  then show ?thesis
    by (simp add: encode_typed_value_bytes_def encode_typed_value_def pair_value_ok)
      (simp add: pair_value_def put_small_u32)
qed

section \<open>Properties of the typed-value codec\<close>

text \<open>
  C22. Over a well-formed schema decoding is the exact inverse of encoding:
  bytes decode to a value if and only if they are its encoding. Every encoded value is read
  back identically, every accepted byte string is the one encoding of its value, and no other
  byte string (padded, reordered, with a denormal rational, a wide tag) is accepted.
\<close>

theorem typed_value_codec_inverse:
  assumes "schema_wf R S"
  shows "decode_typed_value_bytes R S bs = Inr tv \<longleftrightarrow>
     wire_value R (tv_value tv) \<and> encode_typed_value_bytes R S tv = Inr bs"
  by (rule wf_schema.decode_bytes_iff[OF wf_schema.intro[OF assms]])

theorem typed_value_codec_inverse_witness:
  "decode_typed_value_bytes rat_api pair_schema [2, 0, 0, 0, 2, 0, 0, 0, 1, 0] = Inr (pair_value True False)"
  unfolding typed_value_codec_inverse[OF pair_schema_wf] pair_value_encoded by (simp add: pair_value_def)

text \<open>
  Whatever the schema, the final comparison of
  \<^verbatim>\<open>decode_typed_value_bytes\<close> with the re-encoding rejects nothing: a byte string that
  the decoder consumes completely is already canonical.
\<close>

theorem typed_value_check_redundant:
  "decode_typed_value_bytes R S bs = Inr tv \<longleftrightarrow> decode_typed_value R S bs = Inr (tv, [])"
  by (rule decode_typed_value_bytes_Inr)

text \<open>
  The encodings of a schema's values form a prefix-free code: no encoding is a
  proper prefix of another, and two values with the same bytes are equal, so comparing
  bytes compares values.
\<close>

theorem typed_value_prefix_free:
  assumes "schema_wf R S" and "wire_value R (tv_value a)" and "wire_value R (tv_value b)"
    and "encode_typed_value_bytes R S a = Inr bs" and "encode_typed_value_bytes R S b = Inr (bs @ extra)"
  shows "a = b \<and> extra = []"
  by (rule wf_schema.encoding_injective[OF wf_schema.intro[OF assms(1)] assms(2-5)])

theorem typed_value_prefix_free_witness:
  "encode_typed_value_bytes rat_api pair_schema (pair_value True False :: rat typed_graph_value)
     \<noteq> Inr ([2, 0, 0, 0, 2, 0, 0, 0, 1, 0] @ [1])"
proof
  assume "encode_typed_value_bytes rat_api pair_schema (pair_value True False) =
    Inr ([2, 0, 0, 0, 2, 0, 0, 0, 1, 0] @ [1])"
  from typed_value_prefix_free[OF pair_schema_wf _ _ pair_value_encoded this]
  show False by (simp add: pair_value_def)
qed

text \<open>
  A value that validates is encoded whenever its record lengths
  and its rationals fit the 32-bit counts of the format. No other error is possible.
\<close>

theorem typed_value_encodes:
  assumes "validate_typed_value R S tv = Inr ()" and "fits_wire R (tv_value tv)"
  shows "\<exists>bs. encode_typed_graph_value R S tv = Inr \<lparr>ce_bytes = bs, ce_digest = ext_sha256 R bs\<rparr>"
  using encode_value_total[of R S "tv_value_type tv" "tv_value tv"] assms
  by (auto simp: encode_typed_graph_value_def encode_typed_value_bytes_def encode_typed_value_def
      validate_typed_value_def validate_value_iff)

theorem typed_value_encodes_witness:
  "\<exists>bs. encode_typed_graph_value rat_api pair_schema (pair_value True False)
     = Inr \<lparr>ce_bytes = bs, ce_digest = ext_sha256 rat_api bs\<rparr>"
  by (rule typed_value_encodes[OF pair_value_ok]) (simp add: pair_value_def)

end
