(* ===== verification/Wire_Document.thy ===== *)
theory Wire_Document
  imports Wire_Value
begin

text \<open>
  Canonical documents on the wire: the codecs of limits, registry, clocks, nodes and wires of
  \<^verbatim>\<open>graph/wire.rs\<close>, \<^verbatim>\<open>encode_graph_document\<close> and
  \<^verbatim>\<open>replay_graph_document\<close>. Every component codec is exact, so replay accepts precisely
  the encodings of the documents the constructors build.
\<close>

section \<open>Limits\<close>

definition stable_name_bytes :: nat where
  "stable_name_bytes = 64"

definition unit_symbol_bytes :: nat where
  "unit_symbol_bytes = 32"

definition put_limit :: "nat \<Rightarrow> wire_error + bytes" where
  "put_limit v = (if v \<le> u64_max then Inr (put_u64 (word_of_nat v)) else Inl (WE_IntegerOverflow ''limit value''))"

definition get_limit :: "bytes \<Rightarrow> wire_error + nat \<times> bytes" where
  "get_limit bs = and_then (get_u64 bs) (\<lambda>(v, bs).
     if unat v \<le> usize_max then Inr (unat v, bs) else Inl (WE_IntegerOverflow ''limit value''))"

definition encode_limits :: "graph_limits \<Rightarrow> wire_error + bytes" where
  "encode_limits l = write_each put_limit (limit_values l)"

definition limits_of :: "nat list \<Rightarrow> graph_limits" where
  "limits_of values =
     \<lparr> maximum_document_bytes = values ! 0, maximum_rational_digits = values ! 1,
       maximum_units = values ! 2, maximum_types = values ! 3, maximum_record_fields = values ! 4,
       maximum_value_depth = values ! 5, maximum_value_nodes = values ! 6,
       maximum_array_items = values ! 7, maximum_text_bytes = values ! 8,
       maximum_blob_bytes = values ! 9, maximum_stream_capacity = values ! 10,
       maximum_clocks = values ! 11, maximum_nodes = values ! 12, maximum_wires = values ! 13,
       maximum_ports_per_node = values ! 14, maximum_parameters_per_node = values ! 15,
       maximum_label_bytes = values ! 16 \<rparr>"

definition decode_limits :: "bytes \<Rightarrow> wire_error + graph_limits \<times> bytes" where
  "decode_limits bs = and_then (read_each get_limit 17 bs) (\<lambda>(values, bs). Inr (limits_of values, bs))"

definition limits_within :: "graph_limits \<Rightarrow> graph_limits \<Rightarrow> bool" where
  "limits_within received admission \<longleftrightarrow>
     (\<forall>(r, a) \<in> set (zip (limit_values received) (limit_values admission)). r \<le> a)"

section \<open>Registry\<close>

text \<open>\<^verbatim>\<open>i8::cast_unsigned\<close> keeps the bits, so an exponent is its byte.\<close>

definition encode_unit :: "'q external_api \<Rightarrow> nat \<Rightarrow> 'q unit_definition \<Rightarrow> wire_error + bytes" where
  "encode_unit R digits u =
     and_then (put_text (ud_symbol u)) (\<lambda>s.
     and_then (put_rational R (ud_scale u) digits) (\<lambda>q.
     Inr (put_u32 (ud_id u) @ s @ concat (map put_u8 (exponents (ud_dimensions u))) @ q)))"

fun dimensions_of :: "i8 list \<Rightarrow> base_dimensions" where
  "dimensions_of es = BaseDimensions (es ! 0) (es ! 1) (es ! 2) (es ! 3) (es ! 4) (es ! 5) (es ! 6)"

definition decode_unit :: "'q external_api \<Rightarrow> nat \<Rightarrow> bytes \<Rightarrow> wire_error + 'q unit_definition \<times> bytes" where
  "decode_unit R digits bs =
     and_then (get_u32 bs) (\<lambda>(i, bs).
     and_then (get_text unit_symbol_bytes ''unit symbol'' bs) (\<lambda>(symbol, bs).
     and_then (read_each get_u8 7 bs) (\<lambda>(es, bs).
     and_then (get_rational R digits bs) (\<lambda>(scale, bs).
     Inr (\<lparr>ud_id = i, ud_symbol = symbol, ud_dimensions = dimensions_of es, ud_scale = scale\<rparr>, bs)))))"

definition encode_record_field :: "record_field \<Rightarrow> wire_error + bytes" where
  "encode_record_field f =
     and_then (put_text (rf_name f)) (\<lambda>n. Inr (put_u32 (rf_id f) @ n @ put_u32 (rf_value_type f)))"

definition decode_record_field :: "bytes \<Rightarrow> wire_error + record_field \<times> bytes" where
  "decode_record_field bs =
     and_then (get_u32 bs) (\<lambda>(i, bs).
     and_then (get_text stable_name_bytes ''record field name'' bs) (\<lambda>(n, bs).
     and_then (get_u32 bs) (\<lambda>(t, bs).
     Inr (\<lparr>rf_id = i, rf_name = n, rf_value_type = t\<rparr>, bs))))"

fun encode_type_kind :: "'q external_api \<Rightarrow> graph_limits \<Rightarrow> 'q type_kind \<Rightarrow> wire_error + bytes" where
  "encode_type_kind R l TBoolean = Inr (put_u8 0)"
| "encode_type_kind R l (TExactRational u) = Inr (put_u8 1 @ put_u32 u)"
| "encode_type_kind R l (TMeasurementInterval u) = Inr (put_u8 2 @ put_u32 u)"
| "encode_type_kind R l (TCanonicalI64 u q) =
     and_then (put_rational R q (maximum_rational_digits l)) (\<lambda>b. Inr (put_u8 3 @ put_u32 u @ b))"
| "encode_type_kind R l (TCanonicalU64 u q) =
     and_then (put_rational R q (maximum_rational_digits l)) (\<lambda>b. Inr (put_u8 4 @ put_u32 u @ b))"
| "encode_type_kind R l (TText n) = Inr (put_u8 5 @ put_u32 n)"
| "encode_type_kind R l (TBytes n) = Inr (put_u8 6 @ put_u32 n)"
| "encode_type_kind R l (TArray e n) = Inr (put_u8 7 @ put_u32 e @ put_u32 n)"
| "encode_type_kind R l (TRecord fs) =
     and_then (write_counted ''record field count'' encode_record_field fs) (\<lambda>b. Inr (put_u8 8 @ b))"
| "encode_type_kind R l (TOption v) = Inr (put_u8 9 @ put_u32 v)"
| "encode_type_kind R l (TResult a b) = Inr (put_u8 10 @ put_u32 a @ put_u32 b)"
| "encode_type_kind R l (TEvent p c) = Inr (put_u8 11 @ put_u32 p @ put_u32 c)"
| "encode_type_kind R l (TStream s c n) = Inr (put_u8 12 @ put_u32 s @ put_u32 c @ put_u32 n)"
| "encode_type_kind R l (TResourceHandle c) = Inr (put_u8 13 @ put_u32 c)"
| "encode_type_kind R l TJobHandle = Inr (put_u8 14)"

definition decode_type_kind ::
  "'q external_api \<Rightarrow> graph_limits \<Rightarrow> bytes \<Rightarrow> wire_error + 'q type_kind \<times> bytes" where
  "decode_type_kind R l bs =
     and_then (get_u8 bs) (\<lambda>(tag, bs).
     if tag = 0 then Inr (TBoolean, bs)
     else if tag = 1 then and_then (get_u32 bs) (\<lambda>(u, bs). Inr (TExactRational u, bs))
     else if tag = 2 then and_then (get_u32 bs) (\<lambda>(u, bs). Inr (TMeasurementInterval u, bs))
     else if tag = 3 then and_then (get_u32 bs) (\<lambda>(u, bs).
       and_then (get_rational R (maximum_rational_digits l) bs) (\<lambda>(q, bs). Inr (TCanonicalI64 u q, bs)))
     else if tag = 4 then and_then (get_u32 bs) (\<lambda>(u, bs).
       and_then (get_rational R (maximum_rational_digits l) bs) (\<lambda>(q, bs). Inr (TCanonicalU64 u q, bs)))
     else if tag = 5 then and_then (get_u32 bs) (\<lambda>(n, bs). Inr (TText n, bs))
     else if tag = 6 then and_then (get_u32 bs) (\<lambda>(n, bs). Inr (TBytes n, bs))
     else if tag = 7 then and_then (get_u32 bs) (\<lambda>(e, bs). and_then (get_u32 bs) (\<lambda>(n, bs). Inr (TArray e n, bs)))
     else if tag = 8 then
       and_then (read_counted (maximum_record_fields l) ''record field count'' decode_record_field bs)
         (\<lambda>(fs, bs). Inr (TRecord fs, bs))
     else if tag = 9 then and_then (get_u32 bs) (\<lambda>(v, bs). Inr (TOption v, bs))
     else if tag = 10 then and_then (get_u32 bs) (\<lambda>(a, bs). and_then (get_u32 bs) (\<lambda>(b, bs). Inr (TResult a b, bs)))
     else if tag = 11 then and_then (get_u32 bs) (\<lambda>(p, bs). and_then (get_u32 bs) (\<lambda>(c, bs). Inr (TEvent p c, bs)))
     else if tag = 12 then and_then (get_u32 bs) (\<lambda>(s, bs). and_then (get_u32 bs) (\<lambda>(c, bs).
       and_then (get_u32 bs) (\<lambda>(n, bs). Inr (TStream s c n, bs))))
     else if tag = 13 then and_then (get_u32 bs) (\<lambda>(c, bs). Inr (TResourceHandle c, bs))
     else if tag = 14 then Inr (TJobHandle, bs)
     else Inl (WE_InvalidTag ''type'' tag))"

definition encode_type :: "'q external_api \<Rightarrow> graph_limits \<Rightarrow> 'q type_definition \<Rightarrow> wire_error + bytes" where
  "encode_type R l d =
     and_then (put_text (td_name d)) (\<lambda>n.
     and_then (encode_type_kind R l (td_kind d)) (\<lambda>k. Inr (put_u32 (td_id d) @ n @ k)))"

definition decode_type :: "'q external_api \<Rightarrow> graph_limits \<Rightarrow> bytes \<Rightarrow> wire_error + 'q type_definition \<times> bytes" where
  "decode_type R l bs =
     and_then (get_u32 bs) (\<lambda>(i, bs).
     and_then (get_text stable_name_bytes ''type name'' bs) (\<lambda>(n, bs).
     and_then (decode_type_kind R l bs) (\<lambda>(k, bs).
     Inr (\<lparr>td_id = i, td_name = n, td_kind = k\<rparr>, bs))))"

definition encode_schema :: "'q external_api \<Rightarrow> 'q graph_schema \<Rightarrow> wire_error + bytes" where
  "encode_schema R S =
     and_then (write_counted ''unit count'' (encode_unit R (maximum_rational_digits (gs_limits S))) (gs_units S)) (\<lambda>us.
     and_then (write_counted ''type count'' (encode_type R (gs_limits S)) (gs_types S)) (\<lambda>ts.
     Inr (us @ ts)))"

definition decode_schema :: "'q external_api \<Rightarrow> graph_limits \<Rightarrow> bytes \<Rightarrow> wire_error + 'q graph_schema \<times> bytes" where
  "decode_schema R l bs =
     and_then (read_counted (maximum_units l) ''unit count'' (decode_unit R (maximum_rational_digits l)) bs) (\<lambda>(us, bs).
     and_then (read_counted (maximum_types l) ''type count'' (decode_type R l) bs) (\<lambda>(ts, bs).
     and_then (map_err WE_Schema (try_new_schema R l us ts)) (\<lambda>S. Inr (S, bs))))"

section \<open>Clocks, nodes and wires\<close>

fun encode_clock_kind :: "clock_kind \<Rightarrow> bytes" where
  "encode_clock_kind (HostMonotonic ticks) = put_u8 0 @ put_u64 ticks"
| "encode_clock_kind (DeviceCycle device ticks) = put_u8 1 @ device @ put_u64 ticks"
| "encode_clock_kind (Derived s n d) = put_u8 2 @ put_u32 s @ put_u32 n @ put_u32 d"

definition decode_clock_kind :: "bytes \<Rightarrow> wire_error + clock_kind \<times> bytes" where
  "decode_clock_kind bs =
     and_then (get_u8 bs) (\<lambda>(tag, bs).
     if tag = 0 then and_then (get_u64 bs) (\<lambda>(n, bs). Inr (HostMonotonic n, bs))
     else if tag = 1 then and_then (get_device_id bs) (\<lambda>(d, bs).
       and_then (get_u64 bs) (\<lambda>(n, bs). Inr (DeviceCycle d n, bs)))
     else if tag = 2 then and_then (get_u32 bs) (\<lambda>(s, bs). and_then (get_u32 bs) (\<lambda>(n, bs).
       and_then (get_u32 bs) (\<lambda>(d, bs). Inr (Derived s n d, bs))))
     else Inl (WE_InvalidTag ''clock'' tag))"

definition encode_clock :: "clock_definition \<Rightarrow> wire_error + bytes" where
  "encode_clock c =
     and_then (put_text (cd_name c)) (\<lambda>n. Inr (put_u32 (cd_id c) @ n @ encode_clock_kind (cd_kind c)))"

definition decode_clock :: "bytes \<Rightarrow> wire_error + clock_definition \<times> bytes" where
  "decode_clock bs =
     and_then (get_u32 bs) (\<lambda>(i, bs).
     and_then (get_text stable_name_bytes ''clock name'' bs) (\<lambda>(n, bs).
     and_then (decode_clock_kind bs) (\<lambda>(k, bs).
     Inr (\<lparr>cd_id = i, cd_name = n, cd_kind = k\<rparr>, bs))))"

fun encode_domain :: "execution_domain \<Rightarrow> bytes" where
  "encode_domain HostExact = put_u8 0"
| "encode_domain (Service d) = put_u8 1 @ d"
| "encode_domain (Realtime d) = put_u8 2 @ d"

definition decode_domain :: "bytes \<Rightarrow> wire_error + execution_domain \<times> bytes" where
  "decode_domain bs =
     and_then (get_u8 bs) (\<lambda>(tag, bs).
     if tag = 0 then Inr (HostExact, bs)
     else if tag = 1 then and_then (get_device_id bs) (\<lambda>(d, bs). Inr (Service d, bs))
     else if tag = 2 then and_then (get_device_id bs) (\<lambda>(d, bs). Inr (Realtime d, bs))
     else Inl (WE_InvalidTag ''execution domain'' tag))"

definition encode_port :: "port_definition \<Rightarrow> wire_error + bytes" where
  "encode_port p =
     and_then (put_text (pd_name p)) (\<lambda>n. Inr (put_u32 (pd_id p) @ n @ put_u32 (pd_value_type p)))"

definition decode_port :: "bytes \<Rightarrow> wire_error + port_definition \<times> bytes" where
  "decode_port bs =
     and_then (get_u32 bs) (\<lambda>(i, bs).
     and_then (get_text stable_name_bytes ''port name'' bs) (\<lambda>(n, bs).
     and_then (get_u32 bs) (\<lambda>(t, bs).
     Inr (\<lparr>pd_id = i, pd_name = n, pd_value_type = t\<rparr>, bs))))"

definition encode_ports :: "port_definition list \<Rightarrow> wire_error + bytes" where
  "encode_ports = write_counted ''port count'' encode_port"

definition decode_ports :: "nat \<Rightarrow> bytes \<Rightarrow> wire_error + port_definition list \<times> bytes" where
  "decode_ports maximum = read_counted maximum ''port count'' decode_port"

definition encode_parameter ::
  "'q external_api \<Rightarrow> 'q graph_schema \<Rightarrow> 'q node_parameter \<Rightarrow> wire_error + bytes" where
  "encode_parameter R S p =
     and_then (put_text (np_name p)) (\<lambda>n.
     and_then (encode_typed_value R S (np_value p)) (\<lambda>v. Inr (put_u32 (np_id p) @ n @ v)))"

definition decode_parameter ::
  "'q external_api \<Rightarrow> 'q graph_schema \<Rightarrow> bytes \<Rightarrow> wire_error + 'q node_parameter \<times> bytes" where
  "decode_parameter R S bs =
     and_then (get_u32 bs) (\<lambda>(i, bs).
     and_then (get_text stable_name_bytes ''parameter name'' bs) (\<lambda>(n, bs).
     and_then (decode_typed_value R S bs) (\<lambda>(v, bs).
     Inr (\<lparr>np_id = i, np_name = n, np_value = v\<rparr>, bs))))"

definition encode_node ::
  "'q external_api \<Rightarrow> 'q graph_schema \<Rightarrow> 'q node_definition \<Rightarrow> wire_error + bytes" where
  "encode_node R S n =
     and_then (put_text (nk_name (nd_kind n))) (\<lambda>kind.
     and_then (put_text (nd_label n)) (\<lambda>label.
     and_then (encode_ports (nd_inputs n)) (\<lambda>inputs.
     and_then (encode_ports (nd_outputs n)) (\<lambda>outputs.
     and_then (write_counted ''parameter count'' (encode_parameter R S) (nd_parameters n)) (\<lambda>parameters.
     Inr (put_u32 (nd_id n) @ kind @ put_u16 (nk_version (nd_kind n)) @ label
       @ encode_domain (nd_domain n) @ inputs @ outputs @ parameters))))))"

definition decode_node ::
  "'q external_api \<Rightarrow> 'q graph_schema \<Rightarrow> bytes \<Rightarrow> wire_error + 'q node_definition \<times> bytes" where
  "decode_node R S bs =
     (let limits = gs_limits S in
     and_then (get_u32 bs) (\<lambda>(i, bs).
     and_then (get_text stable_name_bytes ''node kind'' bs) (\<lambda>(kind_name, bs).
     and_then (get_u16 bs) (\<lambda>(kind_version, bs).
     and_then (get_text (maximum_label_bytes limits) ''node label'' bs) (\<lambda>(label, bs).
     and_then (decode_domain bs) (\<lambda>(domain, bs).
     and_then (decode_ports (maximum_ports_per_node limits) bs) (\<lambda>(inputs, bs).
     and_then (decode_ports (maximum_ports_per_node limits) bs) (\<lambda>(outputs, bs).
     and_then (read_counted (maximum_parameters_per_node limits) ''node parameter count''
       (decode_parameter R S) bs) (\<lambda>(parameters, bs).
     Inr (\<lparr>nd_id = i, nd_kind = \<lparr>nk_name = kind_name, nk_version = kind_version\<rparr>, nd_label = label,
       nd_domain = domain, nd_inputs = inputs, nd_outputs = outputs, nd_parameters = parameters\<rparr>,
       bs))))))))))"

definition encode_endpoint :: "wire_endpoint \<Rightarrow> bytes" where
  "encode_endpoint e = put_u32 (we_node e) @ put_u32 (we_port e)"

definition decode_endpoint :: "bytes \<Rightarrow> wire_error + wire_endpoint \<times> bytes" where
  "decode_endpoint bs =
     and_then (get_u32 bs) (\<lambda>(n, bs). and_then (get_u32 bs) (\<lambda>(p, bs). Inr (WireEndpoint n p, bs)))"

definition encode_wire :: "wire_definition \<Rightarrow> wire_error + bytes" where
  "encode_wire w = Inr (put_u32 (wd_id w) @ encode_endpoint (wd_source w) @ encode_endpoint (wd_target w))"

definition decode_wire :: "bytes \<Rightarrow> wire_error + wire_definition \<times> bytes" where
  "decode_wire bs =
     and_then (get_u32 bs) (\<lambda>(i, bs).
     and_then (decode_endpoint bs) (\<lambda>(s, bs).
     and_then (decode_endpoint bs) (\<lambda>(t, bs).
     Inr (\<lparr>wd_id = i, wd_source = s, wd_target = t\<rparr>, bs))))"

section \<open>Documents\<close>

definition document_magic :: bytes where
  "document_magic = [65, 76, 71, 82]"

definition document_version :: u16 where
  "document_version = 1"

definition document_flags :: u16 where
  "document_flags = 0"

text \<open>The body between the fixed header and the end: everything the embedded limits govern.\<close>

definition encode_graph_document :: "'q external_api \<Rightarrow> 'q graph_document \<Rightarrow> wire_error + canonical_encoding" where
  "encode_graph_document R D =
     (let S = gd_schema D in
     and_then (encode_limits (gs_limits S)) (\<lambda>limits.
     and_then (encode_schema R S) (\<lambda>schema.
     and_then (write_counted ''clock count'' encode_clock (gd_clocks D)) (\<lambda>clocks.
     and_then (write_counted ''node count'' (encode_node R S) (gd_nodes D)) (\<lambda>nodes.
     and_then (write_counted ''wire count'' encode_wire (gd_wires D)) (\<lambda>wires.
     let bs = document_magic @ put_u16 document_version @ put_u16 document_flags @ limits
       @ put_u64 (gd_revision D) @ schema @ clocks @ nodes @ wires in
     if length bs > maximum_document_bytes (gs_limits S)
     then Inl (WE_LimitExceeded ''document byte length'')
     else Inr \<lparr>ce_bytes = bs, ce_digest = ext_sha256 R bs\<rparr>))))))"

record 'q graph_replay =
  gr_document :: "'q graph_document"
  gr_encoding :: canonical_encoding

definition replay_graph_document ::
  "'q external_api \<Rightarrow> bytes \<Rightarrow> graph_limits \<Rightarrow> wire_error + 'q graph_replay" where
  "replay_graph_document R bytes admission =
     and_then (map_err WE_Schema (validate_limits admission)) (\<lambda>_.
     if length bytes > maximum_document_bytes admission
     then Inl (WE_LimitExceeded ''admitted document byte length'')
     else and_then (get_take (length document_magic) bytes) (\<lambda>(magic, bs).
     if magic \<noteq> document_magic then Inl WE_InvalidMagic
     else and_then (get_u16 bs) (\<lambda>(version, bs).
     if version \<noteq> document_version then Inl (WE_UnsupportedVersion version)
     else and_then (get_u16 bs) (\<lambda>(flags, bs).
     if flags \<noteq> document_flags then Inl (WE_UnsupportedFlags flags)
     else and_then (decode_limits bs) (\<lambda>(limits, bs).
     if \<not> limits_within limits admission then Inl (WE_LimitExceeded ''embedded admission limit'')
     else and_then (map_err WE_Schema (validate_limits limits)) (\<lambda>_.
     if length bytes > maximum_document_bytes limits
     then Inl (WE_LimitExceeded ''embedded document byte length'')
     else and_then (get_u64 bs) (\<lambda>(revision, bs).
     and_then (decode_schema R limits bs) (\<lambda>(schema, bs).
     and_then (read_counted (maximum_clocks limits) ''clock count'' decode_clock bs) (\<lambda>(clocks, bs).
     and_then (read_counted (maximum_nodes (gs_limits schema)) ''node count'' (decode_node R schema) bs) (\<lambda>(nodes, bs).
     and_then (read_counted (maximum_wires limits) ''wire count'' decode_wire bs) (\<lambda>(wires, bs).
     if bs \<noteq> [] then Inl WE_TrailingBytes
     else and_then (map_err WE_Document (try_new_document R revision schema clocks nodes wires)) (\<lambda>document.
     and_then (encode_graph_document R document) (\<lambda>encoding.
     if ce_bytes encoding \<noteq> bytes then Inl WE_NonCanonical
     else Inr \<lparr>gr_document = document, gr_encoding = encoding\<rparr>)))))))))))))"

section \<open>The component codecs are exact\<close>

lemma put_limit_Inr [simp]: "put_limit v = Inr b \<longleftrightarrow> v \<le> u64_max \<and> b = put_u64 (word_of_nat v)"
  by (auto simp: put_limit_def)

lemma unat_limit: "v \<le> u64_max \<Longrightarrow> unat (word_of_nat v :: u64) = v"
  by (simp add: unat_of_nat u64_max_def)

interpretation limit_codec: exact_codec put_limit get_limit "\<lambda>v. v \<le> usize_max"
proof unfold_locales
  fix v b rest
  assume "v \<le> usize_max" and "put_limit v = Inr b"
  then show "get_limit (b @ rest) = Inr (v, rest)" by (simp add: get_limit_def unat_limit)
next
  fix bs v rest
  assume "get_limit bs = Inr (v, rest)"
  then obtain w where "get_u64 bs = Inr (w, rest)" "unat w = v" "v \<le> usize_max"
    by (auto simp: get_limit_def split: if_splits)
  then show "v \<le> usize_max \<and> (\<exists>used. put_limit v = Inr used \<and> bs = used @ rest)"
    using unat_u64_le[of w] by (auto simp: get_u64_Inr)
qed

lemma limit_values_of: "length vs = 17 \<Longrightarrow> limit_values (limits_of vs) = vs"
  by (auto simp: limit_values_def limits_of_def numeral_eq_Suc length_Suc_conv)

lemma limits_of_values [simp]: "limits_of (limit_values l) = l"
  by (simp add: limit_values_def limits_of_def)

lemma length_limit_values [simp]: "length (limit_values l) = 17"
  by (simp add: limit_values_def)

interpretation limits_codec: exact_codec encode_limits decode_limits
  "\<lambda>l. \<forall>v \<in> set (limit_values l). v \<le> usize_max"
proof unfold_locales
  fix l b rest
  assume "\<forall>v \<in> set (limit_values l). v \<le> usize_max" and "encode_limits l = Inr b"
  then show "decode_limits (b @ rest) = Inr (l, rest)"
    using limit_codec.read_write_each[of "limit_values l" b rest]
    by (simp add: encode_limits_def decode_limits_def)
next
  fix bs l rest
  assume "decode_limits bs = Inr (l, rest)"
  then obtain vs where "read_each get_limit 17 bs = Inr (vs, rest)" "l = limits_of vs"
    by (auto simp: decode_limits_def)
  with limit_codec.write_read_each[of 17 bs vs rest] limit_values_of[of vs]
  show "(\<forall>v \<in> set (limit_values l). v \<le> usize_max)
    \<and> (\<exists>used. encode_limits l = Inr used \<and> bs = used @ rest)"
    by (simp add: encode_limits_def)
qed

definition name_wire :: "nat \<Rightarrow> rust_str \<Rightarrow> bool" where
  "name_wire m s \<longleftrightarrow> utf8_valid s \<and> length s \<le> m"

lemma put_name [simp]:
  "name_wire m s \<Longrightarrow> length s \<le> u32_max \<Longrightarrow>
     get_text m name (put_u32 (word_of_nat (length s)) @ s @ rest) = Inr (s, rest)"
  by (simp add: name_wire_def)

lemma get_name_Inr:
  "get_text m name bs = Inr (s, rest) \<longleftrightarrow>
     name_wire m s \<and> length s \<le> u32_max \<and> bs = put_u32 (word_of_nat (length s)) @ s @ rest"
  by (auto simp: get_text_Inr name_wire_def)

lemmas get_document_Inr = get_u8_Inr get_u16_Inr get_u32_Inr get_u64_Inr get_name_Inr

definition unit_wire :: "'q external_api \<Rightarrow> 'q unit_definition \<Rightarrow> bool" where
  "unit_wire R u \<longleftrightarrow> name_wire unit_symbol_bytes (ud_symbol u) \<and> rational_readable R (ud_scale u)"

lemma read_exponents: "read_each get_u8 7 (concat (map put_u8 (exponents d)) @ bs) = Inr (exponents d, bs)"
  by (cases d) (simp add: numeral_eq_Suc)

lemma read_bytes_exact:
  "read_each get_u8 n bs = Inr (es, rest) \<Longrightarrow> length es = n \<and> bs = concat (map put_u8 es) @ rest"
  by (induction n arbitrary: bs es) (auto simp: get_u8_Inr)

lemma exponents_dimensions_of: "length es = 7 \<Longrightarrow> exponents (dimensions_of es) = es"
  by (auto simp: numeral_eq_Suc length_Suc_conv)

lemma dimensions_of_exponents [simp]: "dimensions_of (exponents d) = d"
  by (cases d) simp

interpretation unit_codec: counted_codec "encode_unit R digits" "decode_unit R digits" "unit_wire R"
  for R :: "'q external_api" and digits
proof unfold_locales
  fix u b rest
  assume "unit_wire R u" and "encode_unit R digits u = Inr b"
  then show "decode_unit R digits (b @ rest) = Inr (u, rest)"
    by (clarsimp simp: encode_unit_def unit_wire_def)
      (simp add: decode_unit_def read_exponents get_rational_put del: dimensions_of.simps)
next
  fix bs u rest
  assume "decode_unit R digits bs = Inr (u, rest)"
  then show "unit_wire R u \<and> (\<exists>used. encode_unit R digits u = Inr used \<and> bs = used @ rest)"
    by (clarsimp simp: decode_unit_def get_document_Inr dest!: read_bytes_exact get_rational_Inr
        simp del: dimensions_of.simps)
      (simp add: encode_unit_def unit_wire_def exponents_dimensions_of del: dimensions_of.simps)
qed

interpretation field_codec: counted_codec encode_record_field decode_record_field
  "\<lambda>f. name_wire stable_name_bytes (rf_name f)"
proof unfold_locales
  fix f b rest
  assume "name_wire stable_name_bytes (rf_name f)" and "encode_record_field f = Inr b"
  then show "decode_record_field (b @ rest) = Inr (f, rest)"
    by (clarsimp simp: encode_record_field_def) (simp add: decode_record_field_def)
next
  fix bs f rest
  assume "decode_record_field bs = Inr (f, rest)"
  then show "name_wire stable_name_bytes (rf_name f)
    \<and> (\<exists>used. encode_record_field f = Inr used \<and> bs = used @ rest)"
    by (clarsimp simp: decode_record_field_def get_document_Inr) (simp add: encode_record_field_def)
qed

interpretation port_codec: counted_codec encode_port decode_port
  "\<lambda>p. name_wire stable_name_bytes (pd_name p)"
proof unfold_locales
  fix p b rest
  assume "name_wire stable_name_bytes (pd_name p)" and "encode_port p = Inr b"
  then show "decode_port (b @ rest) = Inr (p, rest)"
    by (clarsimp simp: encode_port_def) (simp add: decode_port_def)
next
  fix bs p rest
  assume "decode_port bs = Inr (p, rest)"
  then show "name_wire stable_name_bytes (pd_name p) \<and> (\<exists>used. encode_port p = Inr used \<and> bs = used @ rest)"
    by (clarsimp simp: decode_port_def get_document_Inr) (simp add: encode_port_def)
qed

interpretation wire_definition_codec: counted_codec encode_wire decode_wire "\<lambda>_. True"
proof unfold_locales
  fix w b rest
  assume "encode_wire w = Inr b"
  then show "decode_wire (b @ rest) = Inr (w, rest)"
    by (clarsimp simp: encode_wire_def encode_endpoint_def) (simp add: decode_wire_def decode_endpoint_def)
next
  fix bs w rest
  assume "decode_wire bs = Inr (w, rest)"
  then show "True \<and> (\<exists>used. encode_wire w = Inr used \<and> bs = used @ rest)"
    by (clarsimp simp: decode_wire_def decode_endpoint_def get_document_Inr)
      (simp add: encode_wire_def encode_endpoint_def)
qed

fun kind_wire :: "'q external_api \<Rightarrow> graph_limits \<Rightarrow> 'q type_kind \<Rightarrow> bool" where
  "kind_wire R l (TCanonicalI64 _ q) \<longleftrightarrow> rational_readable R q"
| "kind_wire R l (TCanonicalU64 _ q) \<longleftrightarrow> rational_readable R q"
| "kind_wire R l (TRecord fs) \<longleftrightarrow>
     length fs \<le> maximum_record_fields l \<and> (\<forall>f \<in> set fs. name_wire stable_name_bytes (rf_name f))"
| "kind_wire R l _ \<longleftrightarrow> True"

lemmas fields_read = field_codec.counted.decode_encode[where wname = "''record field count''"]
lemmas fields_written = field_codec.counted.encode_decode[where wname = "''record field count''"]

lemma decode_encode_type_kind:
  assumes "kind_wire R l k" and "encode_type_kind R l k = Inr b"
  shows "decode_type_kind R l (b @ rest) = Inr (k, rest)"
proof (cases k)
  case (TRecord fs)
  with assms obtain c where "write_counted ''record field count'' encode_record_field fs = Inr c" "b = put_u8 8 @ c"
    by auto
  with assms(1) TRecord fields_read[of fs _ c] show ?thesis by (simp add: decode_type_kind_def)
qed (use assms in \<open>clarsimp; simp add: decode_type_kind_def get_rational_put\<close>)+

lemma encode_decode_type_kind:
  assumes "decode_type_kind R l bs = Inr (k, rest)"
  shows "kind_wire R l k \<and> (\<exists>used. encode_type_kind R l k = Inr used \<and> bs = used @ rest)"
proof -
  from assms obtain tag b1 where tag: "get_u8 bs = Inr (tag, b1)" by (auto simp: decode_type_kind_def)
  show ?thesis
  proof (cases "tag = 8")
    case True
    with assms tag obtain fs where fs: "read_counted (maximum_record_fields l) ''record field count''
        decode_record_field b1 = Inr (fs, rest)" and k: "k = TRecord fs"
      by (auto simp: decode_type_kind_def)
    from fields_written[OF fs] obtain c where "write_counted ''record field count'' encode_record_field fs = Inr c"
      "b1 = c @ rest" "kind_wire R l k" by (auto simp: k)
    with tag True k show ?thesis by (simp add: get_u8_Inr)
  qed (use assms tag in \<open>auto simp: decode_type_kind_def get_document_Inr dest!: get_rational_Inr split: if_splits\<close>)
qed

interpretation kind_codec: exact_codec "encode_type_kind R l" "decode_type_kind R l" "kind_wire R l"
  for R :: "'q external_api" and l
  by unfold_locales (use decode_encode_type_kind encode_decode_type_kind in blast)+

interpretation type_codec: counted_codec "encode_type R l" "decode_type R l"
  "\<lambda>d. name_wire stable_name_bytes (td_name d) \<and> kind_wire R l (td_kind d)"
  for R :: "'q external_api" and l
proof unfold_locales
  fix d b rest
  assume "name_wire stable_name_bytes (td_name d) \<and> kind_wire R l (td_kind d)" and "encode_type R l d = Inr b"
  then show "decode_type R l (b @ rest) = Inr (d, rest)"
    by (clarsimp simp: encode_type_def) (simp add: decode_type_def kind_codec.decode_encode)
next
  fix bs d rest
  assume "decode_type R l bs = Inr (d, rest)"
  then show "(name_wire stable_name_bytes (td_name d) \<and> kind_wire R l (td_kind d))
    \<and> (\<exists>used. encode_type R l d = Inr used \<and> bs = used @ rest)"
    by (clarsimp simp: decode_type_def get_document_Inr dest!: kind_codec.encode_decode)
      (auto simp: encode_type_def)
qed

fun clock_kind_wire :: "clock_kind \<Rightarrow> bool" where
  "clock_kind_wire (DeviceCycle d _) \<longleftrightarrow> length d = 16"
| "clock_kind_wire _ \<longleftrightarrow> True"

fun domain_wire :: "execution_domain \<Rightarrow> bool" where
  "domain_wire HostExact \<longleftrightarrow> True"
| "domain_wire (Service d) \<longleftrightarrow> length d = 16"
| "domain_wire (Realtime d) \<longleftrightarrow> length d = 16"

lemma get_device_id_Inr: "get_device_id bs = Inr (d, rest) \<longleftrightarrow> length d = 16 \<and> bs = d @ rest"
  by (simp add: get_device_id_def)

lemma decode_clock_kind_iff:
  "decode_clock_kind bs = Inr (k, rest) \<longleftrightarrow> clock_kind_wire k \<and> bs = encode_clock_kind k @ rest"
proof
  assume "decode_clock_kind bs = Inr (k, rest)"
  then show "clock_kind_wire k \<and> bs = encode_clock_kind k @ rest"
    by (auto simp: decode_clock_kind_def get_document_Inr get_device_id_Inr split: if_splits)
next
  assume "clock_kind_wire k \<and> bs = encode_clock_kind k @ rest"
  then show "decode_clock_kind bs = Inr (k, rest)"
    by (cases k; clarsimp; simp add: decode_clock_kind_def)
qed

lemma decode_domain_iff:
  "decode_domain bs = Inr (k, rest) \<longleftrightarrow> domain_wire k \<and> bs = encode_domain k @ rest"
proof
  assume "decode_domain bs = Inr (k, rest)"
  then show "domain_wire k \<and> bs = encode_domain k @ rest"
    by (auto simp: decode_domain_def get_document_Inr get_device_id_Inr split: if_splits)
next
  assume "domain_wire k \<and> bs = encode_domain k @ rest"
  then show "decode_domain bs = Inr (k, rest)"
    by (cases k; clarsimp; simp add: decode_domain_def)
qed

lemma decode_encode_domain [codec, simp]: "domain_wire k \<Longrightarrow> decode_domain (encode_domain k @ rest) = Inr (k, rest)"
  by (simp add: decode_domain_iff)

lemma decode_encode_clock_kind [codec, simp]:
  "clock_kind_wire k \<Longrightarrow> decode_clock_kind (encode_clock_kind k @ rest) = Inr (k, rest)"
  by (simp add: decode_clock_kind_iff)

interpretation clock_codec: counted_codec encode_clock decode_clock
  "\<lambda>c. name_wire stable_name_bytes (cd_name c) \<and> clock_kind_wire (cd_kind c)"
proof unfold_locales
  fix c b rest
  assume "name_wire stable_name_bytes (cd_name c) \<and> clock_kind_wire (cd_kind c)" and "encode_clock c = Inr b"
  then show "decode_clock (b @ rest) = Inr (c, rest)"
    by (clarsimp simp: encode_clock_def)
      (simp add: decode_clock_def)
next
  fix bs c rest
  assume "decode_clock bs = Inr (c, rest)"
  then show "(name_wire stable_name_bytes (cd_name c) \<and> clock_kind_wire (cd_kind c))
    \<and> (\<exists>used. encode_clock c = Inr used \<and> bs = used @ rest)"
    by (clarsimp simp: decode_clock_def get_document_Inr decode_clock_kind_iff) (simp add: encode_clock_def)
qed

definition parameter_wire :: "'q external_api \<Rightarrow> 'q node_parameter \<Rightarrow> bool" where
  "parameter_wire R p \<longleftrightarrow> name_wire stable_name_bytes (np_name p) \<and> wire_value R (tv_value (np_value p))"

definition node_wire :: "'q external_api \<Rightarrow> graph_limits \<Rightarrow> 'q node_definition \<Rightarrow> bool" where
  "node_wire R l n \<longleftrightarrow>
     name_wire stable_name_bytes (nk_name (nd_kind n)) \<and> name_wire (maximum_label_bytes l) (nd_label n)
     \<and> domain_wire (nd_domain n)
     \<and> length (nd_inputs n) \<le> maximum_ports_per_node l \<and> length (nd_outputs n) \<le> maximum_ports_per_node l
     \<and> (\<forall>p \<in> set (nd_inputs n @ nd_outputs n). name_wire stable_name_bytes (pd_name p))
     \<and> length (nd_parameters n) \<le> maximum_parameters_per_node l
     \<and> (\<forall>p \<in> set (nd_parameters n). parameter_wire R p)"

lemmas ports_read = port_codec.counted.decode_encode[where wname = "''port count''"]
lemmas ports_written = port_codec.counted.encode_decode[where wname = "''port count''"]

context wf_schema
begin

lemma decode_encode_parameter:
  assumes "parameter_wire R p" and "encode_parameter R S p = Inr b"
  shows "decode_parameter R S (b @ rest) = Inr (p, rest)"
  using assms by (clarsimp simp: encode_parameter_def parameter_wire_def)
    (simp add: decode_parameter_def typed.decode_encode)

lemma encode_decode_parameter:
  assumes "decode_parameter R S bs = Inr (p, rest)"
  shows "parameter_wire R p \<and> (\<exists>used. encode_parameter R S p = Inr used \<and> bs = used @ rest)"
  using assms by (clarsimp simp: decode_parameter_def get_document_Inr dest!: typed.encode_decode)
    (auto simp: encode_parameter_def parameter_wire_def)

end

sublocale wf_schema \<subseteq> parameters: counted_codec "encode_parameter R S" "decode_parameter R S" "parameter_wire R"
  by unfold_locales (use decode_encode_parameter encode_decode_parameter in blast)+

context wf_schema
begin

lemma decode_encode_node:
  assumes ok: "node_wire R (gs_limits S) n" and enc: "encode_node R S n = Inr b"
  shows "decode_node R S (b @ rest) = Inr (n, rest)"
proof -
  from enc obtain i out ps where kind: "length (nk_name (nd_kind n)) \<le> u32_max"
    and label: "length (nd_label n) \<le> u32_max"
    and i: "write_counted ''port count'' encode_port (nd_inputs n) = Inr i"
    and out: "write_counted ''port count'' encode_port (nd_outputs n) = Inr out"
    and ps: "write_counted ''parameter count'' (encode_parameter R S) (nd_parameters n) = Inr ps"
    and b: "b = put_u32 (nd_id n) @ (put_u32 (word_of_nat (length (nk_name (nd_kind n)))) @ nk_name (nd_kind n))
      @ put_u16 (nk_version (nd_kind n)) @ (put_u32 (word_of_nat (length (nd_label n))) @ nd_label n)
      @ encode_domain (nd_domain n) @ i @ out @ ps"
    by (auto simp: encode_node_def encode_ports_def)
  note reads = ports_read[OF _ i] ports_read[OF _ out] parameters.counted.decode_encode[OF _ ps]
  from ok kind label show ?thesis
    unfolding b by (simp add: decode_node_def Let_def decode_ports_def node_wire_def reads)
qed

lemma encode_decode_node:
  assumes dec: "decode_node R S bs = Inr (n, rest)"
  shows "node_wire R (gs_limits S) n \<and> (\<exists>used. encode_node R S n = Inr used \<and> bs = used @ rest)"
  using dec
  by (clarsimp simp: decode_node_def Let_def get_document_Inr decode_ports_def decode_domain_iff
      dest!: ports_written parameters.counted.encode_decode[where wname = "''parameter count''"])
    (auto simp: encode_node_def encode_ports_def node_wire_def)

end

sublocale wf_schema \<subseteq> nodes: counted_codec "encode_node R S" "decode_node R S" "node_wire R (gs_limits S)"
  by unfold_locales (use decode_encode_node encode_decode_node in blast)+

section \<open>Documents the constructors build\<close>

definition constructed :: "'q external_api \<Rightarrow> 'q graph_document \<Rightarrow> bool" where
  "constructed R D \<longleftrightarrow>
     (\<exists>l us ts. try_new_schema R l us ts = Inr (gd_schema D))
     \<and> (\<exists>r cs ns ws. try_new_document R r (gd_schema D) cs ns ws = Inr D)"

text \<open>
  What the field types of the source guarantee: a \<^verbatim>\<open>usize\<close> is bounded, a
  \<^verbatim>\<open>DeviceId\<close> has 16 bytes, values and rationals are readable.
\<close>

fun kind_readable :: "'q external_api \<Rightarrow> 'q type_kind \<Rightarrow> bool" where
  "kind_readable R (TCanonicalI64 _ q) \<longleftrightarrow> rational_readable R q"
| "kind_readable R (TCanonicalU64 _ q) \<longleftrightarrow> rational_readable R q"
| "kind_readable R _ \<longleftrightarrow> True"

definition node_representable :: "'q external_api \<Rightarrow> 'q node_definition \<Rightarrow> bool" where
  "node_representable R n \<longleftrightarrow> domain_wire (nd_domain n)
     \<and> (\<forall>p \<in> set (nd_parameters n). wire_value R (tv_value (np_value p)))"

definition representable :: "'q external_api \<Rightarrow> 'q graph_document \<Rightarrow> bool" where
  "representable R D \<longleftrightarrow>
     (\<forall>v \<in> set (limit_values (gs_limits (gd_schema D))). v \<le> usize_max)
     \<and> (\<forall>u \<in> set (gs_units (gd_schema D)). rational_readable R (ud_scale u))
     \<and> (\<forall>d \<in> set (gs_types (gd_schema D)). kind_readable R (td_kind d))
     \<and> (\<forall>c \<in> set (gd_clocks D). clock_kind_wire (cd_kind c))
     \<and> (\<forall>n \<in> set (gd_nodes D). node_representable R n)"

lemma constructed_wf:
  assumes "constructed R D"
  shows "schema_wf R (gd_schema D)" and "document_wf R D"
    and "try_new_schema R (gs_limits (gd_schema D)) (gs_units (gd_schema D)) (gs_types (gd_schema D))
      = Inr (gd_schema D)"
    and "try_new_document R (gd_revision D) (gd_schema D) (gd_clocks D) (gd_nodes D) (gd_wires D) = Inr D"
proof -
  from assms obtain l us ts r cs ns ws where S: "try_new_schema R l us ts = Inr (gd_schema D)"
    and D: "try_new_document R r (gd_schema D) cs ns ws = Inr D" by (auto simp: constructed_def)
  show "schema_wf R (gd_schema D)" by (rule try_new_schema_wf[OF S])
  show "try_new_schema R (gs_limits (gd_schema D)) (gs_units (gd_schema D)) (gs_types (gd_schema D))
      = Inr (gd_schema D)" by (rule try_new_schema_again[OF S])
  show wf: "document_wf R D" using try_new_documentD[OF D] ..
  show "try_new_document R (gd_revision D) (gd_schema D) (gd_clocks D) (gd_nodes D) (gd_wires D) = Inr D"
    unfolding try_new_document_Inr using canonical_document_fixed[OF wf] wf by simp
qed

text \<open>Validated names are within the bounds of the decoder.\<close>

lemma stable_name_wire: "valid_stable_name s \<Longrightarrow> name_wire stable_name_bytes s"
  by (auto simp: valid_stable_name_def name_wire_def stable_name_bytes_def is_ascii_alphanumeric_def
      is_ascii_alphabetic_def is_ascii_digit_def intro!: utf8_valid_ascii)

lemma symbol_wire: "valid_symbol s \<Longrightarrow> name_wire unit_symbol_bytes s"
  by (auto simp: valid_symbol_def name_wire_def unit_symbol_bytes_def utf8_valid_def split: option.splits)

lemma label_wire: "valid_label s m \<Longrightarrow> name_wire m s"
  by (auto simp: valid_label_def name_wire_def utf8_valid_def split: option.splits)

lemma kind_wire_ok:
  assumes "type_kind_ok R S k" and "kind_readable R k"
  shows "kind_wire R (gs_limits S) k"
  using assms by (cases k) (auto simp: field_ok_def stable_name_wire)

lemma schema_wire_ok:
  assumes "schema_wf R S"
  shows "\<forall>u \<in> set (gs_units S). rational_readable R (ud_scale u) \<longrightarrow> unit_wire R u"
    and "\<forall>d \<in> set (gs_types S). kind_readable R (td_kind d) \<longrightarrow>
      name_wire stable_name_bytes (td_name d) \<and> kind_wire R (gs_limits S) (td_kind d)"
  using assms kind_wire_ok[of R S]
  by (auto simp: schema_wf_def unit_ok_def unit_wire_def type_ok_def symbol_wire stable_name_wire)

lemma node_wire_ok:
  assumes "node_ok R S n" and "node_representable R n"
  shows "node_wire R (gs_limits S) n"
  using assms
  by (auto simp: node_ok_def node_representable_def node_wire_def port_ok_def parameter_ok_def parameter_wire_def
      intro: stable_name_wire label_wire)

lemma document_wire_ok:
  assumes "document_wf R D" and "representable R D"
  shows "\<forall>c \<in> set (gd_clocks D). name_wire stable_name_bytes (cd_name c) \<and> clock_kind_wire (cd_kind c)"
    and "\<forall>n \<in> set (gd_nodes D). node_wire R (gs_limits (gd_schema D)) n"
  using assms node_wire_ok[of R "gd_schema D"]
  by (auto simp: document_wf_def clocks_wf_def nodes_wf_def clock_ok_def representable_def stable_name_wire)

section \<open>The registry codec\<close>

context wf_schema
begin

lemma read_nodes:
  "write_counted ''node count'' (encode_node R S) ns = Inr b \<Longrightarrow> length ns \<le> maximum \<Longrightarrow>
     \<forall>n \<in> set ns. node_wire R (gs_limits S) n \<Longrightarrow>
     read_counted maximum name (decode_node R S) (b @ rest) = Inr (ns, rest)"
  using nodes.counted.decode_encode by blast

lemma read_nodes_Inr:
  "read_counted maximum name (decode_node R S) bs = Inr (ns, rest) \<Longrightarrow>
     \<forall>n \<in> set ns. node_wire R (gs_limits S) n"
  using nodes.counted.encode_decode by blast

end

lemma decode_encode_schema:
  assumes "schema_wf R S" and S: "try_new_schema R (gs_limits S) (gs_units S) (gs_types S) = Inr S"
    and "\<forall>u \<in> set (gs_units S). rational_readable R (ud_scale u)"
    and "\<forall>d \<in> set (gs_types S). kind_readable R (td_kind d)" and enc: "encode_schema R S = Inr b"
  shows "decode_schema R (gs_limits S) (b @ rest) = Inr (S, rest)"
proof -
  from enc obtain us ts where
    us: "write_counted ''unit count'' (encode_unit R (maximum_rational_digits (gs_limits S))) (gs_units S) = Inr us"
    and ts: "write_counted ''type count'' (encode_type R (gs_limits S)) (gs_types S) = Inr ts"
    and b: "b = us @ ts"
    by (auto simp: encode_schema_def)
  have "length (gs_units S) \<le> maximum_units (gs_limits S)" "length (gs_types S) \<le> maximum_types (gs_limits S)"
    using assms(1) by (simp_all add: schema_wf_def)
  with schema_wire_ok[OF assms(1)] assms(3,4) show ?thesis
    by (simp add: decode_schema_def b unit_codec.counted.decode_encode[OF _ us]
        type_codec.counted.decode_encode[OF _ ts] S)
qed

lemma decode_schema_Inr:
  assumes "decode_schema R l bs = Inr (S, rest)"
  shows "gs_limits S = l \<and> (\<exists>us ts. try_new_schema R l us ts = Inr S)
    \<and> (\<forall>u \<in> set (gs_units S). rational_readable R (ud_scale u))
    \<and> (\<forall>d \<in> set (gs_types S). kind_readable R (td_kind d))"
proof -
  from assms obtain us ts b1 where
    us: "read_counted (maximum_units l) ''unit count'' (decode_unit R (maximum_rational_digits l)) bs = Inr (us, b1)"
    and ts: "read_counted (maximum_types l) ''type count'' (decode_type R l) b1 = Inr (ts, rest)"
    and S: "try_new_schema R l us ts = Inr S"
    by (auto simp: decode_schema_def)
  have "\<forall>u \<in> set us. rational_readable R (ud_scale u)"
    using unit_codec.counted.encode_decode[OF us] by (simp add: unit_wire_def)
  moreover have "\<forall>d \<in> set ts. kind_readable R (td_kind d)"
  proof
    fix d assume "d \<in> set ts"
    then have "kind_wire R l (td_kind d)" using type_codec.counted.encode_decode[OF ts] by simp
    then show "kind_readable R (td_kind d)" by (cases "td_kind d") auto
  qed
  moreover have "kind_readable R (sort_record_fields k) \<longleftrightarrow> kind_readable R k" for k
    by (cases k) auto
  moreover have "S = canonical_schema l us ts" using S by (simp add: try_new_schema_Inr)
  ultimately show ?thesis using S by (auto simp: set_gs_types_canonical)
qed

section \<open>Replay\<close>

lemma encode_graph_document_Inr:
  "encode_graph_document R D = Inr e \<longleftrightarrow>
     (\<exists>limits schema clocks nodes wires.
        encode_limits (gs_limits (gd_schema D)) = Inr limits \<and> encode_schema R (gd_schema D) = Inr schema
        \<and> write_counted ''clock count'' encode_clock (gd_clocks D) = Inr clocks
        \<and> write_counted ''node count'' (encode_node R (gd_schema D)) (gd_nodes D) = Inr nodes
        \<and> write_counted ''wire count'' encode_wire (gd_wires D) = Inr wires
        \<and> ce_bytes e = document_magic @ put_u16 document_version @ put_u16 document_flags @ limits
            @ put_u64 (gd_revision D) @ schema @ clocks @ nodes @ wires
        \<and> length (ce_bytes e) \<le> maximum_document_bytes (gs_limits (gd_schema D))
        \<and> ce_digest e = ext_sha256 R (ce_bytes e))"
proof -
  have eq: "\<lparr>ce_bytes = b, ce_digest = ext_sha256 R b\<rparr> = e \<longleftrightarrow> ce_bytes e = b \<and> ce_digest e = ext_sha256 R (ce_bytes e)"
    for b by (cases e) auto
  show ?thesis by (auto simp: encode_graph_document_def Let_def eq not_less)
qed

lemma limits_within_document_bytes:
  "limits_within l a \<Longrightarrow> maximum_document_bytes l \<le> maximum_document_bytes a"
  by (simp add: limits_within_def limit_values_def)

lemma replay_encoded:
  assumes con: "constructed R D" and rep: "representable R D" and enc: "encode_graph_document R D = Inr e"
    and adm: "0 \<notin> set (limit_values admission)" and within: "limits_within (gs_limits (gd_schema D)) admission"
  shows "replay_graph_document R (ce_bytes e) admission = Inr \<lparr>gr_document = D, gr_encoding = e\<rparr>"
proof -
  let ?S = "gd_schema D"
  note wf = constructed_wf[OF con]
  have doc: "length (gd_clocks D) \<le> maximum_clocks (gs_limits ?S)"
    "length (gd_nodes D) \<le> maximum_nodes (gs_limits ?S)" "length (gd_wires D) \<le> maximum_wires (gs_limits ?S)"
    using wf(2) by (simp_all add: document_wf_def clocks_wf_def nodes_wf_def wires_wf_def)
  from enc obtain limits schema clocks nodes wires where
    limits: "encode_limits (gs_limits ?S) = Inr limits" and schema: "encode_schema R ?S = Inr schema"
    and clocks: "write_counted ''clock count'' encode_clock (gd_clocks D) = Inr clocks"
    and nodes: "write_counted ''node count'' (encode_node R ?S) (gd_nodes D) = Inr nodes"
    and wires: "write_counted ''wire count'' encode_wire (gd_wires D) = Inr wires"
    and bytes: "ce_bytes e = document_magic @ put_u16 document_version @ put_u16 document_flags @ limits
      @ put_u64 (gd_revision D) @ schema @ clocks @ nodes @ wires"
    and len: "length (ce_bytes e) \<le> maximum_document_bytes (gs_limits ?S)"
    unfolding encode_graph_document_Inr by blast
  have l: "decode_limits (limits @ b) = Inr (gs_limits ?S, b)" for b
    using limits_codec.decode_encode[OF _ limits] rep by (simp add: representable_def)
  have s: "decode_schema R (gs_limits ?S) (schema @ b) = Inr (?S, b)" for b
    using decode_encode_schema[OF wf(1,3) _ _ schema] rep by (simp add: representable_def)
  have c: "read_counted (maximum_clocks (gs_limits ?S)) ''clock count'' decode_clock (clocks @ b)
      = Inr (gd_clocks D, b)" for b
    using clock_codec.counted.decode_encode[OF _ clocks] document_wire_ok(1)[OF wf(2) rep] doc by simp
  have n: "read_counted (maximum_nodes (gs_limits ?S)) ''node count'' (decode_node R ?S) (nodes @ b)
      = Inr (gd_nodes D, b)" for b
    using wf_schema.read_nodes[OF wf_schema.intro[OF wf(1)] nodes] document_wire_ok(2)[OF wf(2) rep] doc by simp
  have w: "read_counted (maximum_wires (gs_limits ?S)) ''wire count'' decode_wire wires = Inr (gd_wires D, [])"
    using wire_definition_codec.counted.decode_encode[OF _ wires, of _ _ "[]"] doc by simp
  have valid: "validate_limits (gs_limits ?S) = Inr ()" using wf(1) by (simp add: schema_wf_def)
  have "length (ce_bytes e) \<le> maximum_document_bytes admission"
    using len limits_within_document_bytes[OF within] by simp
  with len have lengths: "\<not> maximum_document_bytes admission < length (ce_bytes e)"
    "\<not> maximum_document_bytes (gs_limits ?S) < length (ce_bytes e)" by simp_all
  have "validate_limits admission = Inr ()" using adm by simp
  then show ?thesis
    using lengths within valid enc wf(4) bytes unfolding bytes replay_graph_document_def
    by (simp add: bytes l s c n w del: and_then_Inr length_append validate_limits_ok)
qed

text \<open>What an accepted input must be.\<close>

lemma canonical_document_sets:
  "set (gd_clocks (canonical_document r S cs ns ws)) = set cs"
  "set (gd_nodes (canonical_document r S cs ns ws)) = canonical_node ` set ns"
  "gd_schema (canonical_document r S cs ns ws) = S"
  by (simp_all add: canonical_document_def)

lemma node_wire_representable: "node_wire R l n \<Longrightarrow> node_representable R (canonical_node n)"
  by (simp add: node_wire_def node_representable_def canonical_node_def parameter_wire_def)

lemma replay_accepts:
  assumes "replay_graph_document R bytes admission = Inr rep"
  shows "constructed R (gr_document rep) \<and> representable R (gr_document rep)
    \<and> encode_graph_document R (gr_document rep) = Inr (gr_encoding rep) \<and> ce_bytes (gr_encoding rep) = bytes
    \<and> 0 \<notin> set (limit_values admission) \<and> limits_within (gs_limits (gd_schema (gr_document rep))) admission"
proof -
  from assms obtain l b1 b2 S b3 cs b4 ns b5 ws r D e where
    adm: "0 \<notin> set (limit_values admission)" and l: "decode_limits b1 = Inr (l, b2)"
    and within: "limits_within l admission" and S: "decode_schema R l b3 = Inr (S, b4)"
    and cs: "read_counted (maximum_clocks l) ''clock count'' decode_clock b4 = Inr (cs, b5)"
    and ns: "\<exists>b6. read_counted (maximum_nodes (gs_limits S)) ''node count'' (decode_node R S) b5 = Inr (ns, b6)"
    and D: "try_new_document R r S cs ns ws = Inr D"
    and e: "encode_graph_document R D = Inr e" "ce_bytes e = bytes" "rep = \<lparr>gr_document = D, gr_encoding = e\<rparr>"
    unfolding replay_graph_document_def by (auto split: if_splits)
  from decode_schema_Inr[OF S] obtain us ts where lim: "gs_limits S = l" and new: "try_new_schema R l us ts = Inr S"
    and readable: "\<forall>u \<in> set (gs_units S). rational_readable R (ud_scale u)"
      "\<forall>d \<in> set (gs_types S). kind_readable R (td_kind d)" by blast
  have doc: "D = canonical_document r S cs ns ws" using try_new_documentD[OF D] ..
  have schema: "gd_schema D = S" by (simp add: doc canonical_document_sets)
  have "constructed R D" unfolding constructed_def schema using new D by blast
  moreover have "\<forall>v \<in> set (limit_values l). v \<le> usize_max" using limits_codec.encode_decode[OF l] by blast
  moreover have "\<forall>c \<in> set cs. clock_kind_wire (cd_kind c)" using clock_codec.counted.encode_decode[OF cs] by simp
  moreover have "\<forall>n \<in> set ns. node_representable R (canonical_node n)"
    using wf_schema.read_nodes_Inr[OF wf_schema_try_new[OF new]] ns node_wire_representable by blast
  ultimately show ?thesis
    using adm within e readable lim
    by (simp add: representable_def schema) (simp add: doc canonical_document_sets)
qed

lemma replay_iff:
  "replay_graph_document R bytes admission = Inr rep \<longleftrightarrow>
     constructed R (gr_document rep) \<and> representable R (gr_document rep)
     \<and> encode_graph_document R (gr_document rep) = Inr (gr_encoding rep) \<and> ce_bytes (gr_encoding rep) = bytes
     \<and> 0 \<notin> set (limit_values admission) \<and> limits_within (gs_limits (gd_schema (gr_document rep))) admission"
proof
  assume "constructed R (gr_document rep) \<and> representable R (gr_document rep)
     \<and> encode_graph_document R (gr_document rep) = Inr (gr_encoding rep) \<and> ce_bytes (gr_encoding rep) = bytes
     \<and> 0 \<notin> set (limit_values admission) \<and> limits_within (gs_limits (gd_schema (gr_document rep))) admission"
  then show "replay_graph_document R bytes admission = Inr rep"
    using replay_encoded[of R "gr_document rep" "gr_encoding rep" admission] by (cases rep) auto
qed (rule replay_accepts)

section \<open>Content identity\<close>

text \<open>An admission policy that no representable document exceeds.\<close>

definition widest_limits :: graph_limits where
  "widest_limits = limits_of (replicate 17 usize_max)"

lemma widest_limits_values: "limit_values widest_limits = replicate 17 usize_max"
  unfolding widest_limits_def by (rule limit_values_of) simp

lemma within_widest: "\<forall>v \<in> set (limit_values l). v \<le> usize_max \<Longrightarrow> limits_within l widest_limits"
  unfolding limits_within_def widest_limits_values by (auto simp: set_zip)

lemma widest_admissible: "0 \<notin> set (limit_values widest_limits)"
  unfolding widest_limits_values by (simp add: usize_max_def)

lemma encoding_determines_document:
  assumes "constructed R A" and "representable R A" and "encode_graph_document R A = Inr a"
    and "constructed R B" and "representable R B" and "encode_graph_document R B = Inr b"
    and "ce_bytes a = ce_bytes b"
  shows "A = B"
proof -
  have within: "limits_within (gs_limits (gd_schema D)) widest_limits" if "representable R D" for D
    using that by (intro within_widest) (simp add: representable_def)
  note a = replay_encoded[OF assms(1-3) widest_admissible within[OF assms(2)]]
  note b = replay_encoded[OF assms(4-6) widest_admissible within[OF assms(5)]]
  from a b show ?thesis unfolding assms(7) by simp
qed

definition empty_document :: "u64 \<Rightarrow> 'q graph_document" where
  "empty_document r = \<lparr>gd_revision = r,
     gd_schema = \<lparr>gs_limits = interactive_limits, gs_units = [], gs_types = []\<rparr>,
     gd_clocks = [], gd_nodes = [], gd_wires = []\<rparr>"

lemma empty_document_constructed: "constructed R (empty_document r)"
proof -
  have "try_new_schema R interactive_limits [] [] = Inr \<lparr>gs_limits = interactive_limits, gs_units = [], gs_types = []\<rparr>"
    by (simp add: try_new_schema_Inr canonical_schema_def validate_units_def validate_types_def evaluate_limits)
  moreover have "try_new_document R r \<lparr>gs_limits = interactive_limits, gs_units = [], gs_types = []\<rparr> [] [] []
      = Inr (empty_document r)"
    by (simp add: try_new_document_Inr canonical_document_def empty_document_def document_wf_def clocks_wf_def
        nodes_wf_def wires_wf_def clock_references_def wf_acyclic)
  ultimately show ?thesis by (auto simp: constructed_def empty_document_def)
qed

lemma empty_document_representable: "representable R (empty_document r)"
  by (simp add: representable_def empty_document_def evaluate_limits usize_max_def)

lemma empty_document_encoded: "\<exists>e. encode_graph_document R (empty_document r) = Inr e"
proof -
  have "\<exists>b. encode_limits interactive_limits = Inr b \<and> length b = 136"
    by (simp add: encode_limits_def put_limit_def evaluate_limits u64_max_def put_u64_def)
  then show ?thesis
    by (auto simp: encode_graph_document_def encode_schema_def write_counted_def empty_document_def put_u16_def
        put_u32_def put_u64_def document_magic_def)
      (simp_all add: interactive_limits_def u32_max_def Let_def)
qed

section \<open>Properties of documents on the wire\<close>

text \<open>
  C4. \<^verbatim>\<open>replay_graph_document\<close> accepts an untrusted byte string exactly when it
  is the encoding of a document that the constructors build, with field values of the source's
  types, under an admissible policy that no embedded limit exceeds. It then returns that document with its
  encoding. So replay inverts encoding, and nothing else is accepted: no truncated or padded
  input, no permuted table, no rational in another form.
\<close>

theorem replay_decides:
  "replay_graph_document R bytes admission = Inr rep \<longleftrightarrow>
     constructed R (gr_document rep) \<and> representable R (gr_document rep)
     \<and> encode_graph_document R (gr_document rep) = Inr (gr_encoding rep) \<and> ce_bytes (gr_encoding rep) = bytes
     \<and> 0 \<notin> set (limit_values admission) \<and> limits_within (gs_limits (gd_schema (gr_document rep))) admission"
  by (rule replay_iff)

text \<open>
  The canonical bytes identify the document: two documents that the constructors
  build, and whose encodings agree, are equal in every field.
\<close>

theorem document_content_identity:
  assumes "constructed R A" and "representable R A" and "encode_graph_document R A = Inr a"
    and "constructed R B" and "representable R B" and "encode_graph_document R B = Inr b"
    and "ce_bytes a = ce_bytes b"
  shows "A = B"
  by (rule encoding_determines_document[OF assms])

theorem document_content_identity_witness:
  "encode_graph_document rat_api (empty_document 1 :: rat graph_document) \<noteq> encode_graph_document rat_api (empty_document 2)"
proof
  assume same: "encode_graph_document rat_api (empty_document 1 :: rat graph_document)
    = encode_graph_document rat_api (empty_document 2)"
  obtain e where e: "encode_graph_document rat_api (empty_document 1 :: rat graph_document) = Inr e"
    using empty_document_encoded by blast
  have "(empty_document 1 :: rat graph_document) = empty_document 2"
    by (rule document_content_identity[OF empty_document_constructed empty_document_representable e
          empty_document_constructed empty_document_representable e[unfolded same] refl])
  then show False by (simp add: empty_document_def)
qed

end
