(* ===== verification/Type_Storage.thy ===== *)
theory Type_Storage
  imports Wire_Document
begin

text \<open>
  Storage ceilings of registered types:
  \<^verbatim>\<open>crates/alumina-interface-core/src/graph/storage.rs\<close>. A memoised walk over the type
  references computes for each type the largest number of bytes a canonical value of it can take,
  in checked 64-bit arithmetic. It is proved to compute the exact unbounded ceiling, to bound
  every encoding the wire codec produces, and to fail only for the two reasons a well-formed schema allows.
\<close>

section \<open>Data\<close>

datatype type_storage_kind =
    StoreLiteral u64
  | StoreEventPayload graph_clock_id u64
  | StoreStreamSample graph_clock_id u64 u32

record type_storage_bound =
  sb_value_type :: graph_type_id
  sb_kind :: type_storage_kind

fun maximum_literal_bytes :: "type_storage_kind \<Rightarrow> u64 option" where
  "maximum_literal_bytes (StoreLiteral b) = Some b"
| "maximum_literal_bytes (StoreEventPayload _ _) = None"
| "maximum_literal_bytes (StoreStreamSample _ _ _) = None"

datatype storage_error =
    ST_UnknownType graph_type_id
  | ST_RecursiveType graph_type_id
  | ST_RuntimeTypeNested graph_type_id graph_type_id
  | ST_SizeOverflow graph_type_id

datatype type_shape =
    LiteralBody u64
  | EventPayload graph_clock_id u64
  | StreamSample graph_clock_id u64 u32

section \<open>The walk\<close>

definition storage_add :: "graph_type_id \<Rightarrow> u64 \<Rightarrow> u64 \<Rightarrow> storage_error + u64" where
  "storage_add owner left right = ok_or (ST_SizeOverflow owner) (checked_add_u64 left right)"

definition storage_mul :: "graph_type_id \<Rightarrow> u64 \<Rightarrow> u64 \<Rightarrow> storage_error + u64" where
  "storage_mul owner left right = ok_or (ST_SizeOverflow owner) (checked_mul_u64 left right)"

text \<open>\<^verbatim>\<open>TYPE_ID_BYTES\<close>, \<^verbatim>\<open>LENGTH_BYTES\<close> and \<^verbatim>\<open>VARIANT_TAG_BYTES\<close>
  are the literals 4, 4 and 1; \<open>rational_body\<close> is the closure of that name.\<close>

definition rational_body :: "'q graph_schema \<Rightarrow> graph_type_id \<Rightarrow> storage_error + u64" where
  "rational_body S t =
     (let digits = maximum_rational_digits (gs_limits S) in
      if digits > u64_max then Inl (ST_SizeOverflow t)
      else and_then (storage_add t 4 (word_of_nat digits)) (\<lambda>one_magnitude.
        and_then (storage_mul t one_magnitude 2) (\<lambda>both. storage_add t 1 both)))"

type_synonym storage_memo = "graph_type_id \<rightharpoonup> type_shape"

type_synonym 'a storage_run = "storage_error + 'a \<times> storage_memo \<times> graph_type_id set"

text \<open>
  \<^verbatim>\<open>memo\<close> and \<^verbatim>\<open>visiting\<close> are mutated in place: they are passed in and
  returned. \<open>storage_of_kind\<close> is the match on the kind of the definition, \<open>storage_fields\<close>
  its loop over the fields of a record.
\<close>

function (sequential) storage_shape ::
    "'q graph_schema \<Rightarrow> graph_type_id \<Rightarrow> storage_memo \<Rightarrow> graph_type_id set \<Rightarrow> type_shape storage_run"
  and storage_of_kind ::
    "'q graph_schema \<Rightarrow> graph_type_id \<Rightarrow> 'q type_kind \<Rightarrow> storage_memo \<Rightarrow> graph_type_id set
      \<Rightarrow> type_shape storage_run"
  and require_literal_body ::
    "'q graph_schema \<Rightarrow> graph_type_id \<Rightarrow> graph_type_id \<Rightarrow> storage_memo \<Rightarrow> graph_type_id set
      \<Rightarrow> u64 storage_run"
  and storage_fields ::
    "'q graph_schema \<Rightarrow> graph_type_id \<Rightarrow> record_field list \<Rightarrow> u64 \<Rightarrow> storage_memo \<Rightarrow> graph_type_id set
      \<Rightarrow> u64 storage_run" where
  "storage_shape S t memo visiting =
     (case memo t of
        Some shape \<Rightarrow> Inr (shape, memo, visiting)
      | None \<Rightarrow>
        if t \<in> visiting then Inl (ST_RecursiveType t)
        else and_then (ok_or (ST_UnknownType t) (value_type S t)) (\<lambda>definition.
          and_then (storage_of_kind S t (td_kind definition) memo (insert t visiting))
            (\<lambda>(shape, memo, visiting). Inr (shape, memo(t \<mapsto> shape), visiting - {t}))))"
| "storage_of_kind S t TBoolean memo visiting = Inr (LiteralBody 1, memo, visiting)"
| "storage_of_kind S t (TExactRational _) memo visiting =
     and_then (rational_body S t) (\<lambda>b. Inr (LiteralBody b, memo, visiting))"
| "storage_of_kind S t (TMeasurementInterval _) memo visiting =
     and_then (rational_body S t) (\<lambda>b. and_then (storage_mul t b 2) (\<lambda>b.
       Inr (LiteralBody b, memo, visiting)))"
| "storage_of_kind S t (TCanonicalI64 _ _) memo visiting = Inr (LiteralBody 8, memo, visiting)"
| "storage_of_kind S t (TCanonicalU64 _ _) memo visiting = Inr (LiteralBody 8, memo, visiting)"
| "storage_of_kind S t (TText m) memo visiting =
     and_then (storage_add t 4 (ucast m)) (\<lambda>b. Inr (LiteralBody b, memo, visiting))"
| "storage_of_kind S t (TBytes m) memo visiting =
     and_then (storage_add t 4 (ucast m)) (\<lambda>b. Inr (LiteralBody b, memo, visiting))"
| "storage_of_kind S t (TArray element m) memo visiting =
     and_then (require_literal_body S t element memo visiting) (\<lambda>(e, memo, visiting).
     and_then (storage_mul t e (ucast m)) (\<lambda>items.
     and_then (storage_add t 4 items) (\<lambda>b. Inr (LiteralBody b, memo, visiting))))"
| "storage_of_kind S t (TRecord fs) memo visiting =
     and_then (storage_fields S t fs 4 memo visiting) (\<lambda>(b, memo, visiting).
       Inr (LiteralBody b, memo, visiting))"
| "storage_of_kind S t (TOption v) memo visiting =
     and_then (require_literal_body S t v memo visiting) (\<lambda>(body, memo, visiting).
     and_then (storage_add t 1 body) (\<lambda>b. Inr (LiteralBody b, memo, visiting)))"
| "storage_of_kind S t (TResult ok error) memo visiting =
     and_then (require_literal_body S t ok memo visiting) (\<lambda>(ok_body, memo, visiting).
     and_then (require_literal_body S t error memo visiting) (\<lambda>(error_body, memo, visiting).
     and_then (storage_add t 1 (max ok_body error_body)) (\<lambda>b. Inr (LiteralBody b, memo, visiting))))"
| "storage_of_kind S t (TEvent payload clock) memo visiting =
     and_then (require_literal_body S t payload memo visiting) (\<lambda>(b, memo, visiting).
       Inr (EventPayload clock b, memo, visiting))"
| "storage_of_kind S t (TStream sample clock capacity) memo visiting =
     and_then (require_literal_body S t sample memo visiting) (\<lambda>(b, memo, visiting).
       Inr (StreamSample clock b capacity, memo, visiting))"
| "storage_of_kind S t (TResourceHandle _) memo visiting = Inr (LiteralBody (16 + 32 + 4 + 4), memo, visiting)"
| "storage_of_kind S t TJobHandle memo visiting = Inr (LiteralBody (16 + 32 + 32), memo, visiting)"
| "require_literal_body S container referenced memo visiting =
     and_then (storage_shape S referenced memo visiting) (\<lambda>(shape, memo, visiting).
       case shape of
         LiteralBody b \<Rightarrow> Inr (b, memo, visiting)
       | _ \<Rightarrow> Inl (ST_RuntimeTypeNested container referenced))"
| "storage_fields S t [] subtotal memo visiting = Inr (subtotal, memo, visiting)"
| "storage_fields S t (f # fs) subtotal memo visiting =
     and_then (require_literal_body S t (rf_value_type f) memo visiting) (\<lambda>(field_body, memo, visiting).
     and_then (storage_add t 4 field_body) (\<lambda>entry.
     and_then (storage_add t subtotal entry) (\<lambda>subtotal.
       storage_fields S t fs subtotal memo visiting)))"
  by pat_completeness auto

text \<open>
  A call that returns leaves \<^verbatim>\<open>visiting\<close> as it found it: a type is taken out again
  when it is finished. So every nested call has one more type in the set, and there are finitely many.
\<close>

lemma storage_keeps_visiting:
  "storage_shape_storage_of_kind_require_literal_body_storage_fields_dom (Inl (Inl (S, t, memo, visiting))) \<Longrightarrow>
     storage_shape S t memo visiting = Inr (shape, memo', visiting') \<Longrightarrow> visiting' = visiting"
  "storage_shape_storage_of_kind_require_literal_body_storage_fields_dom (Inl (Inr (S, t, k, memo, visiting))) \<Longrightarrow>
     storage_of_kind S t k memo visiting = Inr (shape, memo', visiting') \<Longrightarrow> visiting' = visiting"
  "storage_shape_storage_of_kind_require_literal_body_storage_fields_dom (Inr (Inl (S, t, r, memo, visiting))) \<Longrightarrow>
     require_literal_body S t r memo visiting = Inr (b, memo', visiting') \<Longrightarrow> visiting' = visiting"
  "storage_shape_storage_of_kind_require_literal_body_storage_fields_dom (Inr (Inr (S, t, fs, n, memo, visiting))) \<Longrightarrow>
     storage_fields S t fs n memo visiting = Inr (b, memo', visiting') \<Longrightarrow> visiting' = visiting"
proof (induction S t memo visiting and S t k memo visiting and S t r memo visiting and S t fs n memo visiting
    arbitrary: shape memo' visiting' and shape memo' visiting' and b memo' visiting' and b memo' visiting'
    rule: storage_shape_storage_of_kind_require_literal_body_storage_fields.pinduct)
  case (1 S t memo visiting)
  show ?case
  proof (cases "memo t")
    case None
    with 1 obtain m v where "storage_of_kind S t (td_kind (the (value_type S t))) memo (insert t visiting) = Inr (shape, m, v)"
      "visiting' = v - {t}" "t \<notin> visiting" "value_type S t \<noteq> None"
      by (auto simp: storage_shape.psimps split: if_splits)
    with 1(2)[OF None, of "the (value_type S t)" shape m v] show ?thesis by auto
  next
    case (Some a)
    with 1 show ?thesis by (simp add: storage_shape.psimps)
  qed
next
  case (17 S t r memo visiting)
  from 17(3) obtain sh m v where sh: "storage_shape S r memo visiting = Inr (sh, m, v)"
    and "visiting' = v" by (cases "storage_shape S r memo visiting")
      (auto simp: require_literal_body.psimps[OF 17(1)] split: type_shape.split_asm)
  with 17(2) show ?case by simp
next
  case (19 S t f fs n memo visiting)
  from 19(4) obtain a m v e s where r: "require_literal_body S t (rf_value_type f) memo visiting = Inr (a, m, v)"
    "storage_add t 4 a = Inr e" "storage_add t n e = Inr s" "storage_fields S t fs s m v = Inr (b, memo', visiting')"
    by (auto simp: storage_fields.psimps(2)[OF 19(1)])
  from 19(2)[OF r(1)] 19(3)[OF r(1) refl refl r(2,3,4)] show ?case by simp
next
  case (12 S t ok er memo visiting)
  from 12(4) obtain a m v c m' v' where r: "require_literal_body S t ok memo visiting = Inr (a, m, v)"
    "require_literal_body S t er m v = Inr (c, m', v')" "visiting' = v'"
    by (auto simp: storage_of_kind.psimps(11)[OF 12(1)])
  from 12(2)[OF r(1)] 12(3)[OF r(1) refl refl r(2)] r(3) show ?case by simp
next
  case (9 S t e m memo visiting)
  show ?case
    using 9(3) by (auto simp: storage_of_kind.psimps(8)[OF 9(1)] dest: 9(2))
next
  case (10 S t fs memo visiting)
  show ?case
    using 10(3) by (auto simp: storage_of_kind.psimps(9)[OF 10(1)] dest: 10(2))
next
  case (11 S t v memo visiting)
  show ?case
    using 11(3) by (auto simp: storage_of_kind.psimps(10)[OF 11(1)] dest: 11(2))
next
  case (13 S t p c memo visiting)
  show ?case
    using 13(3) by (auto simp: storage_of_kind.psimps(12)[OF 13(1)] dest: 13(2))
next
  case (14 S t p c n memo visiting)
  show ?case
    using 14(3) by (auto simp: storage_of_kind.psimps(13)[OF 14(1)] dest: 14(2))
qed (auto simp: storage_of_kind.psimps storage_fields.psimps)

lemma storage_total: "All storage_shape_storage_of_kind_require_literal_body_storage_fields_dom"
  by (relation "measures
      [\<lambda>x. case x of Inl (Inl (S, t, memo, visiting)) \<Rightarrow> Suc (card (- visiting))
          | Inl (Inr (S, t, k, memo, visiting)) \<Rightarrow> Suc (card (- visiting))
          | Inr (Inl (S, t, r, memo, visiting)) \<Rightarrow> Suc (card (- visiting))
          | Inr (Inr (S, t, fs, n, memo, visiting)) \<Rightarrow> Suc (card (- visiting)),
       \<lambda>x. case x of Inl (Inl _) \<Rightarrow> 0 | Inl (Inr _) \<Rightarrow> 3 | Inr (Inl _) \<Rightarrow> 1 | Inr (Inr _) \<Rightarrow> 2,
       \<lambda>x. case x of Inr (Inr (S, t, fs, n, memo, visiting)) \<Rightarrow> length fs | _ \<Rightarrow> 0]")
    (auto dest!: storage_keeps_visiting intro!: psubset_card_mono)

termination storage_shape
  by (rule storage_total)

lemmas storage_visiting = storage_keeps_visiting[OF storage_total[rule_format]]


declare storage_shape.simps [simp del]
declare require_literal_body.simps [simp del]

section \<open>Operations\<close>

text \<open>The complete typed literal adds the type identifier: the match of the loop body of
  \<^verbatim>\<open>analyze_type_storage\<close>, then the loop body, whose variables are
  \<^verbatim>\<open>memo\<close>, \<^verbatim>\<open>visiting\<close> and \<^verbatim>\<open>bounds\<close>.\<close>

fun storage_kind :: "graph_type_id \<Rightarrow> type_shape \<Rightarrow> storage_error + type_storage_kind" where
  "storage_kind t (LiteralBody body) = and_then (storage_add t 4 body) (\<lambda>b. Inr (StoreLiteral b))"
| "storage_kind t (EventPayload clock body) =
     and_then (storage_add t 4 body) (\<lambda>b. Inr (StoreEventPayload clock b))"
| "storage_kind t (StreamSample clock body capacity) =
     and_then (storage_add t 4 body) (\<lambda>b. Inr (StoreStreamSample clock b capacity))"

definition analyze_type_step ::
  "'q graph_schema \<Rightarrow> storage_memo \<times> graph_type_id set \<times> type_storage_bound list \<Rightarrow> 'q type_definition
     \<Rightarrow> storage_error + storage_memo \<times> graph_type_id set \<times> type_storage_bound list" where
  "analyze_type_step S st definition = (case st of (memo, visiting, bounds) \<Rightarrow>
     let t = td_id definition in
     and_then (storage_shape S t memo visiting) (\<lambda>(shape, memo, visiting).
     and_then (storage_kind t shape) (\<lambda>kind.
       Inr (memo, visiting, bounds @ [\<lparr>sb_value_type = t, sb_kind = kind\<rparr>]))))"

definition analyze_type_storage :: "'q graph_schema \<Rightarrow> storage_error + type_storage_bound list" where
  "analyze_type_storage S =
     and_then (try_fold (analyze_type_step S) (Map.empty, {}, []) (gs_types S))
       (\<lambda>(memo, visiting, bounds). Inr bounds)"

definition literal_storage_bytes ::
  "type_storage_bound list \<Rightarrow> graph_type_id \<Rightarrow> storage_error + u64" where
  "literal_storage_bytes bounds t =
     and_then (ok_or (ST_UnknownType t) (lookup_by_key t sb_value_type bounds)) (\<lambda>bound.
     ok_or (ST_RuntimeTypeNested t t) (maximum_literal_bytes (sb_kind bound)))"

section \<open>The ceiling it should compute\<close>

text \<open>
  The largest body of a canonical value, without the type identifier, in unbounded arithmetic and
  with no memo: one rule per kind of type that a literal can have.
\<close>

definition rational_ceiling :: "'q graph_schema \<Rightarrow> nat" where
  "rational_ceiling S = 1 + 2 * (4 + maximum_rational_digits (gs_limits S))"

inductive body_ceiling :: "'q graph_schema \<Rightarrow> graph_type_id \<Rightarrow> nat \<Rightarrow> bool"
  and kind_ceiling :: "'q graph_schema \<Rightarrow> 'q type_kind \<Rightarrow> nat \<Rightarrow> bool" for S :: "'q graph_schema" where
  registered: "value_type S t = Some d \<Longrightarrow> kind_ceiling S (td_kind d) n \<Longrightarrow> body_ceiling S t n"
| boolean: "kind_ceiling S TBoolean 1"
| exact_rational: "kind_ceiling S (TExactRational u) (rational_ceiling S)"
| measurement: "kind_ceiling S (TMeasurementInterval u) (2 * rational_ceiling S)"
| canonical_i64: "kind_ceiling S (TCanonicalI64 u q) 8"
| canonical_u64: "kind_ceiling S (TCanonicalU64 u q) 8"
| text_literal: "kind_ceiling S (TText m) (4 + unat m)"
| bytes_literal: "kind_ceiling S (TBytes m) (4 + unat m)"
| array: "body_ceiling S e n \<Longrightarrow> kind_ceiling S (TArray e m) (4 + n * unat m)"
| record_literal: "list_all2 (\<lambda>f n. body_ceiling S (rf_value_type f) n) fs ns \<Longrightarrow>
    kind_ceiling S (TRecord fs) (4 + sum_list (map ((+) 4) ns))"
| option_literal: "body_ceiling S v n \<Longrightarrow> kind_ceiling S (TOption v) (1 + n)"
| result_literal: "body_ceiling S a m \<Longrightarrow> body_ceiling S b n \<Longrightarrow> kind_ceiling S (TResult a b) (1 + max m n)"
| resource_handle: "kind_ceiling S (TResourceHandle c) 56"
| job_handle: "kind_ceiling S TJobHandle 80"

inductive_simps kind_ceiling_simps [simp]:
  "kind_ceiling S TBoolean n"
  "kind_ceiling S (TExactRational u) n"
  "kind_ceiling S (TMeasurementInterval u) n"
  "kind_ceiling S (TCanonicalI64 u q) n"
  "kind_ceiling S (TCanonicalU64 u q) n"
  "kind_ceiling S (TText m) n"
  "kind_ceiling S (TBytes m) n"
  "kind_ceiling S (TArray e m) n"
  "kind_ceiling S (TRecord fs) n"
  "kind_ceiling S (TOption v) n"
  "kind_ceiling S (TResult a b) n"
  "kind_ceiling S (TEvent p c) n"
  "kind_ceiling S (TStream p c k) n"
  "kind_ceiling S (TResourceHandle c) n"
  "kind_ceiling S TJobHandle n"

inductive_simps body_ceiling_iff: "body_ceiling S t n"

lemma ceiling_unique:
  "body_ceiling S t m \<Longrightarrow> \<forall>n. body_ceiling S t n \<longleftrightarrow> n = m"
  "kind_ceiling S k m \<Longrightarrow> \<forall>n. kind_ceiling S k n \<longleftrightarrow> n = m"
proof (induction rule: body_ceiling_kind_ceiling.inducts)
  case (registered t d n)
  then show ?case by (simp add: body_ceiling_iff[of S t])
next
  case (record_literal fs ns)
  have "ns' = ns" if "list_all2 (\<lambda>f n. body_ceiling S (rf_value_type f) n) fs ns'" for ns'
  proof (rule nth_equalityI)
    show "length ns' = length ns"
      using list_all2_lengthD[OF that] list_all2_lengthD[OF record_literal.IH] by simp
    show "ns' ! i = ns ! i" if "i < length ns'" for i
      using list_all2_nthD2[OF \<open>list_all2 _ fs ns'\<close> that] list_all2_lengthD[OF \<open>list_all2 _ fs ns'\<close>] that
        list_all2_nthD[OF record_literal.IH, of i] by simp
  qed
  moreover have "list_all2 (\<lambda>f n. body_ceiling S (rf_value_type f) n) fs ns"
    using record_literal.IH by (rule list_all2_mono) simp
  ultimately show ?case by (metis kind_ceiling_simps(9))
qed simp_all

text \<open>What a finished type is recorded with.\<close>

fun kind_shape :: "'q graph_schema \<Rightarrow> 'q type_kind \<Rightarrow> type_shape \<Rightarrow> bool" where
  "kind_shape S (TEvent p c) (EventPayload c' b) \<longleftrightarrow> c' = c \<and> body_ceiling S p (unat b)"
| "kind_shape S (TStream p c k) (StreamSample c' b k') \<longleftrightarrow> c' = c \<and> k' = k \<and> body_ceiling S p (unat b)"
| "kind_shape S k (LiteralBody b) \<longleftrightarrow> kind_ceiling S k (unat b)"
| "kind_shape S k _ \<longleftrightarrow> False"

definition type_shape_ok :: "'q graph_schema \<Rightarrow> graph_type_id \<Rightarrow> type_shape \<Rightarrow> bool" where
  "type_shape_ok S t shape \<longleftrightarrow> (\<exists>d. value_type S t = Some d \<and> kind_shape S (td_kind d) shape)"

definition memo_ok :: "'q graph_schema \<Rightarrow> storage_memo \<Rightarrow> bool" where
  "memo_ok S memo \<longleftrightarrow> (\<forall>t shape. memo t = Some shape \<longrightarrow> type_shape_ok S t shape)"

lemma unat_widened: "unat (ucast (w :: u32) :: u64) = unat w"
proof -
  have "unat w < 2 ^ LENGTH(32)" by (rule unsigned_less)
  then show ?thesis by (simp add: unsigned_ucast_eq unsigned_take_bit_eq take_bit_nat_eq_self)
qed

lemma storage_add_Inr [simp]: "storage_add t a b = Inr c \<longleftrightarrow> unat c = unat a + unat b"
  by (simp add: storage_add_def checked_add_u64_Some)

lemma storage_mul_Inr [simp]: "storage_mul t a b = Inr c \<longleftrightarrow> unat c = unat a * unat b"
  by (simp add: storage_mul_def checked_mul_u64_Some)

lemma rational_body_Inr [simp]: "rational_body S t = Inr b \<longleftrightarrow> unat b = rational_ceiling S"
proof -
  have digits: "unat (word_of_nat d :: u64) = d" if "d \<le> u64_max" for d
    using that by (simp add: unat_of_nat u64_max_def)
  have four: "unat (4 :: u64) = 4" "unat (2 :: u64) = 2" "unat (1 :: u64) = 1" by simp_all
  have "\<exists>(x :: u64) (y :: u64). unat x = 4 + maximum_rational_digits (gs_limits S) \<and> unat y = unat x * 2"
    if "rational_ceiling S \<le> u64_max"
  proof -
    let ?x = "4 + maximum_rational_digits (gs_limits S)"
    have x: "unat (word_of_nat ?x :: u64) = ?x"
      and "unat (word_of_nat (?x * 2) :: u64) = ?x * 2"
      using that by (intro digits; simp add: rational_ceiling_def)+
    then have "unat (word_of_nat (?x * 2) :: u64) = unat (word_of_nat ?x :: u64) * 2" by (simp only:)
    with x show ?thesis by blast
  qed
  moreover have "unat b \<le> u64_max" by (rule unat_u64_le)
  ultimately show ?thesis
    by (auto simp: rational_body_def Let_def rational_ceiling_def digits four not_le) (fastforce simp: mult.commute)
qed

lemma type_shape_ok_literal [simp]:
  "type_shape_ok S t (LiteralBody b) \<longleftrightarrow> body_ceiling S t (unat b)"
  by (auto simp: type_shape_ok_def body_ceiling_iff) 

lemma storage_walk_sound:
  "storage_shape S t memo visiting = Inr (shape, memo', visiting') \<Longrightarrow> memo_ok S memo \<Longrightarrow>
     type_shape_ok S t shape \<and> memo_ok S memo'"
  "storage_of_kind S t k memo visiting = Inr (shape, memo', visiting') \<Longrightarrow> memo_ok S memo \<Longrightarrow>
     kind_shape S k shape \<and> memo_ok S memo'"
  "require_literal_body S t r memo visiting = Inr (b, memo', visiting') \<Longrightarrow> memo_ok S memo \<Longrightarrow>
     body_ceiling S r (unat b) \<and> memo_ok S memo'"
  "storage_fields S t fs n memo visiting = Inr (b, memo', visiting') \<Longrightarrow> memo_ok S memo \<Longrightarrow>
     (\<exists>ns. list_all2 (\<lambda>f n. body_ceiling S (rf_value_type f) n) fs ns
        \<and> unat b = unat n + sum_list (map ((+) 4) ns)) \<and> memo_ok S memo'"
proof (induction S t memo visiting and S t k memo visiting and S t r memo visiting and S t fs n memo visiting
    arbitrary: shape memo' visiting' and shape memo' visiting' and b memo' visiting' and b memo' visiting'
    rule: storage_shape_storage_of_kind_require_literal_body_storage_fields.induct)
  case (1 S t memo visiting)
  show ?case
  proof (cases "memo t")
    case None
    with 1(2) obtain d m v where d: "value_type S t = Some d" "t \<notin> visiting"
      and k: "storage_of_kind S t (td_kind d) memo (insert t visiting) = Inr (shape, m, v)"
      and memo': "memo' = m(t \<mapsto> shape)"
      by (auto simp: storage_shape.simps[of S t] split: if_splits)
    from 1(1)[OF None d(2) _ k 1(3)] d have "kind_shape S (td_kind d) shape" "memo_ok S m" by auto
    with d memo' show ?thesis by (auto simp: memo_ok_def type_shape_ok_def)
  next
    case (Some a)
    with 1(2,3) show ?thesis by (auto simp: storage_shape.simps[of S t] memo_ok_def)
  qed
next
  case (9 S t e m memo visiting)
  from 9(2) obtain a m' v c where r: "require_literal_body S t e memo visiting = Inr (a, m', v)"
    "unat c = 4 + unat a * unat m" "shape = LiteralBody c" "memo' = m'"
    by (auto simp: unat_widened)
  with 9(1)[OF r(1) 9(3)] show ?case by auto
next
  case (10 S t fs memo visiting)
  from 10(2) obtain a m' v where r: "storage_fields S t fs 4 memo visiting = Inr (a, m', v)"
    "shape = LiteralBody a" "memo' = m'" by auto
  with 10(1)[OF r(1) 10(3)] show ?case by auto
next
  case (11 S t v memo visiting)
  from 11(2) obtain a m' u c where r: "require_literal_body S t v memo visiting = Inr (a, m', u)"
    "unat c = 1 + unat a" "shape = LiteralBody c" "memo' = m'" by auto
  with 11(1)[OF r(1) 11(3)] show ?case by auto
next
  case (12 S t ok er memo visiting)
  from 12(3) obtain a m v c m' v' b where r: "require_literal_body S t ok memo visiting = Inr (a, m, v)"
    "require_literal_body S t er m v = Inr (c, m', v')" "unat b = 1 + unat (max a c)"
    "shape = LiteralBody b" "memo' = m'"
    by auto
  have "unat (max a c) = max (unat a) (unat c)" by (simp add: max_def word_le_nat_alt)
  with r 12(1)[OF r(1) 12(4)] 12(2)[OF r(1) refl refl r(2)] show ?case by auto
next
  case (13 S t p c memo visiting)
  from 13(2) obtain a m' v where r: "require_literal_body S t p memo visiting = Inr (a, m', v)"
    "shape = EventPayload c a" "memo' = m'" by auto
  with 13(1)[OF r(1) 13(3)] show ?case by simp
next
  case (14 S t p c k memo visiting)
  from 14(2) obtain a m' v where r: "require_literal_body S t p memo visiting = Inr (a, m', v)"
    "shape = StreamSample c a k" "memo' = m'" by auto
  with 14(1)[OF r(1) 14(3)] show ?case by simp
next
  case (17 S t r memo visiting)
  from 17(2) obtain v where r: "storage_shape S r memo visiting = Inr (LiteralBody b, memo', v)"
    by (cases "storage_shape S r memo visiting")
      (auto simp: require_literal_body.simps[of S t r] split: type_shape.split_asm)
  from 17(1)[OF r 17(3)] show ?case by simp
next
  case (19 S t f fs n memo visiting)
  from 19(3) obtain a m v e s where r: "require_literal_body S t (rf_value_type f) memo visiting = Inr (a, m, v)"
    "storage_add t 4 a = Inr e" "storage_add t n e = Inr s" "storage_fields S t fs s m v = Inr (b, memo', visiting')"
    by (auto simp del: storage_add_Inr)
  from 19(1)[OF r(1) 19(4)] have a: "body_ceiling S (rf_value_type f) (unat a)" "memo_ok S m" by auto
  from 19(2)[OF r(1) refl refl r(2,3,4) a(2)] obtain ns where
    ns: "list_all2 (\<lambda>f n. body_ceiling S (rf_value_type f) n) fs ns" "memo_ok S memo'"
      "unat b = unat s + sum_list (map ((+) 4) ns)" by blast
  with a r(2,3) show ?case by (intro conjI exI[of _ "unat a # ns"]) auto
qed (auto simp: unat_widened)

section \<open>The walk fails only for a reason\<close>

text \<open>The ceiling of what a type stores: its literal, or the payload of an event or stream.\<close>

fun kind_stored :: "'q graph_schema \<Rightarrow> 'q type_kind \<Rightarrow> nat \<Rightarrow> bool" where
  "kind_stored S (TEvent p c) n \<longleftrightarrow> body_ceiling S p n"
| "kind_stored S (TStream p c k) n \<longleftrightarrow> body_ceiling S p n"
| "kind_stored S k n \<longleftrightarrow> kind_ceiling S k n"

fun runtime_kind :: "'q type_kind \<Rightarrow> bool" where
  "runtime_kind (TEvent _ _) = True"
| "runtime_kind (TStream _ _ _) = True"
| "runtime_kind _ = False"

fun genuine_storage_error :: "'q graph_schema \<Rightarrow> storage_error \<Rightarrow> bool" where
  "genuine_storage_error S (ST_RuntimeTypeNested c r) \<longleftrightarrow>
     (\<exists>d d'. value_type S c = Some d \<and> r \<in> set (referenced_types (td_kind d))
        \<and> value_type S r = Some d' \<and> runtime_kind (td_kind d'))"
| "genuine_storage_error S (ST_SizeOverflow t) \<longleftrightarrow>
     (\<exists>d. value_type S t = Some d \<and> (\<forall>n. kind_stored S (td_kind d) n \<longrightarrow> u64_max < n + 4))"
| "genuine_storage_error S e \<longleftrightarrow> False"

definition overflows :: "graph_type_id \<Rightarrow> (nat \<Rightarrow> bool) \<Rightarrow> storage_error \<Rightarrow> bool" where
  "overflows t P e \<longleftrightarrow> e = ST_SizeOverflow t \<and> (\<forall>n. P n \<longrightarrow> u64_max < n)"

lemma checked_None:
  "checked_add_u64 a b = None \<longleftrightarrow> u64_max < unat a + unat b"
  "checked_mul_u64 a b = None \<longleftrightarrow> u64_max < unat a * unat b"
  by (auto simp: checked_add_u64_def checked_mul_u64_def)

lemma storage_add_Inl [simp]:
  "storage_add t a b = Inl e \<longleftrightarrow> e = ST_SizeOverflow t \<and> u64_max < unat a + unat b"
  by (auto simp: storage_add_def checked_None)

lemma storage_mul_Inl [simp]:
  "storage_mul t a b = Inl e \<longleftrightarrow> e = ST_SizeOverflow t \<and> u64_max < unat a * unat b"
  by (auto simp: storage_mul_def checked_None)

lemma rational_body_Inl:
  "rational_body S t = Inl e \<Longrightarrow> e = ST_SizeOverflow t \<and> u64_max < rational_ceiling S"
proof -
  have "unat (word_of_nat d :: u64) = d" if "\<not> u64_max < d" for d
    using that by (simp add: unat_of_nat u64_max_def)
  then show "rational_body S t = Inl e \<Longrightarrow> e = ST_SizeOverflow t \<and> u64_max < rational_ceiling S"
    by (auto simp: rational_body_def Let_def rational_ceiling_def split: if_splits)
qed

lemma type_kind_of_wf:
  "schema_wf R S \<Longrightarrow> value_type S t = Some d \<Longrightarrow> r \<in> set (referenced_types (td_kind d)) \<Longrightarrow>
     (\<exists>d'. value_type S r = Some d') \<and> (t, r) \<in> type_references S"
proof -
  assume wf: "schema_wf R S" and d: "value_type S t = Some d" and r: "r \<in> set (referenced_types (td_kind d))"
  from d wf have "d \<in> set (gs_types S)" "td_id d = t" by (auto simp: value_type_iff)
  moreover from this wf r have "type_resolves S r"
    by (auto simp: schema_wf_def type_ok_def dest: referenced_types_resolve)
  ultimately show ?thesis
    using r wf by (auto simp: type_references_def type_resolves_def value_type_iff)
qed

lemma body_ceiling_literal:
  "body_ceiling S t n \<Longrightarrow> value_type S t = Some d \<Longrightarrow> \<not> runtime_kind (td_kind d) \<and> kind_stored S (td_kind d) n"
  by (cases "td_kind d") (auto simp: body_ceiling_iff)

definition on_path :: "'q external_api \<Rightarrow> 'q graph_schema \<Rightarrow> graph_type_id \<Rightarrow> graph_type_id set \<Rightarrow> bool" where
  "on_path R S t visiting \<longleftrightarrow> schema_wf R S \<and> (\<forall>v \<in> visiting. (v, t) \<in> (type_references S)\<^sup>+)"

lemma storage_walk_errors:
  "storage_shape S t memo visiting = Inl e \<Longrightarrow> memo_ok S memo \<Longrightarrow> on_path R S t visiting \<Longrightarrow>
     value_type S t = Some d \<Longrightarrow> genuine_storage_error S e"
  "storage_of_kind S t k memo visiting = Inl e \<Longrightarrow> memo_ok S memo \<Longrightarrow>
     value_type S t = Some d \<Longrightarrow> td_kind d = k \<Longrightarrow> on_path R S t (visiting - {t}) \<Longrightarrow>
     genuine_storage_error S e \<or> overflows t (kind_stored S k) e"
  "require_literal_body S t r memo visiting = Inl e \<Longrightarrow> memo_ok S memo \<Longrightarrow>
     value_type S t = Some d \<Longrightarrow> r \<in> set (referenced_types (td_kind d)) \<Longrightarrow> on_path R S t (visiting - {t}) \<Longrightarrow>
     genuine_storage_error S e"
  "storage_fields S t fs n memo visiting = Inl e \<Longrightarrow> memo_ok S memo \<Longrightarrow>
     value_type S t = Some d \<Longrightarrow> rf_value_type ` set fs \<subseteq> set (referenced_types (td_kind d)) \<Longrightarrow>
     on_path R S t (visiting - {t}) \<Longrightarrow>
     genuine_storage_error S e
     \<or> overflows t (\<lambda>m. \<exists>ns. list_all2 (\<lambda>f n. body_ceiling S (rf_value_type f) n) fs ns
         \<and> m = unat n + sum_list (map ((+) 4) ns)) e"
proof (induction S t memo visiting and S t k memo visiting and S t r memo visiting and S t fs n memo visiting
    arbitrary: d and d and d and d
    rule: storage_shape_storage_of_kind_require_literal_body_storage_fields.induct)
  case (1 S t memo visiting)
  have "acyclic (type_references S)" using 1(4) by (simp add: on_path_def schema_wf_def)
  then have "(t, t) \<notin> (type_references S)\<^sup>+" by (simp add: acyclic_def)
  with 1(4) have t: "t \<notin> visiting" by (auto simp: on_path_def)
  have path: "on_path R S t (insert t visiting - {t})"
    using 1(4) by (simp add: on_path_def)
  from 1(2) 1(5) t have none: "memo t = None"
    and k: "storage_of_kind S t (td_kind d) memo (insert t visiting) = Inl e"
    by (auto simp: storage_shape.simps[of S t] split: option.splits)
  from 1(1)[OF none t _ k 1(3) 1(5) refl path] 1(5)
  have "genuine_storage_error S e \<or> overflows t (kind_stored S (td_kind d)) e" by simp
  then show ?case using 1(5) by (fastforce simp: overflows_def)
next
  case (9 S t el m memo visiting)
  show ?case
  proof (cases "require_literal_body S t el memo visiting")
    case (Inl er)
    with 9(2) have "require_literal_body S t el memo visiting = Inl e" by simp
    from 9(1)[OF this 9(3,4) _ 9(6)] 9(5) show ?thesis by auto
  next
    case (Inr r)
    obtain b m' v where r: "r = (b, m', v)" by (cases r)
    with storage_walk_sound(3)[of S t el memo visiting b m' v] Inr 9(3) have "body_ceiling S el (unat b)" by simp
    from ceiling_unique(1)[OF this] 9(2) Inr r show ?thesis
      by (auto simp: overflows_def unat_widened)
  qed
next
  case (10 S t fs memo visiting)
  from 10(2) have "storage_fields S t fs 4 memo visiting = Inl e" by auto
  from 10(1)[OF this 10(3,4) _ 10(6)] 10(5) show ?case by (auto simp: overflows_def)
next
  case (11 S t v memo visiting)
  show ?case
  proof (cases "require_literal_body S t v memo visiting")
    case (Inl er)
    with 11(2) have "require_literal_body S t v memo visiting = Inl e" by simp
    from 11(1)[OF this 11(3,4) _ 11(6)] 11(5) show ?thesis by auto
  next
    case (Inr r)
    obtain b m' u where r: "r = (b, m', u)" by (cases r)
    with storage_walk_sound(3)[of S t v memo visiting b m' u] Inr 11(3) have "body_ceiling S v (unat b)" by simp
    from ceiling_unique(1)[OF this] 11(2) Inr r show ?thesis by (auto simp: overflows_def)
  qed
next
  case (12 S t ok er memo visiting)
  have refs: "ok \<in> set (referenced_types (td_kind d))" "er \<in> set (referenced_types (td_kind d))"
    using 12(6) by auto
  show ?case
  proof (cases "require_literal_body S t ok memo visiting")
    case (Inl x)
    with 12(3) have "require_literal_body S t ok memo visiting = Inl e" by simp
    from 12(1)[OF this 12(4,5) refs(1) 12(7)] show ?thesis by simp
  next
    case (Inr r)
    obtain a m v where r: "r = (a, m, v)" by (cases r)
    note ok = Inr[unfolded r]
    from storage_walk_sound(3)[OF ok 12(4)] have a: "body_ceiling S ok (unat a)" and m: "memo_ok S m" by auto
    have v: "v = visiting" by (rule storage_visiting(3)[OF ok])
    show ?thesis
    proof (cases "require_literal_body S t er m v")
      case (Inl x)
      with 12(3) ok have e: "require_literal_body S t er m v = Inl e" by simp
      from 12(2)[OF ok refl refl e m 12(5) refs(2)] 12(7) v show ?thesis by simp
    next
      case (Inr r)
      obtain c m' v' where r: "r = (c, m', v')" by (cases r)
      note error = Inr[unfolded r]
      from storage_walk_sound(3)[OF error m] have "body_ceiling S er (unat c)" by auto
      note unique = ceiling_unique(1)[OF this] ceiling_unique(1)[OF a]
      have "unat (max a c) = max (unat a) (unat c)" by (simp add: max_def word_le_nat_alt)
      with unique 12(3) ok error show ?thesis by (auto simp: overflows_def)
    qed
  qed
next
  case (13 S t p c memo visiting)
  then show ?case by auto
next
  case (14 S t p c k memo visiting)
  then show ?case by auto
next
  case (17 S t r memo visiting)
  have wf: "schema_wf R S" using 17(6) by (simp add: on_path_def)
  with 17(4,5) obtain d' where d': "value_type S r = Some d'" and edge: "(t, r) \<in> type_references S"
    by (blast dest: type_kind_of_wf)
  then have path: "on_path R S r visiting"
    using 17(6) by (auto simp: on_path_def intro: trancl_into_trancl)
  show ?case
  proof (cases "storage_shape S r memo visiting")
    case (Inl x)
    with 17(2) have "storage_shape S r memo visiting = Inl e" by (simp add: require_literal_body.simps[of S t])
    from 17(1)[OF this 17(3) path d'] show ?thesis .
  next
    case (Inr x)
    obtain shape m v where x: "x = (shape, m, v)" by (cases x)
    from storage_walk_sound(1)[of S r memo visiting shape m v] Inr x 17(3) d'
    have "kind_shape S (td_kind d') shape" by (auto simp: type_shape_ok_def)
    moreover have "\<forall>b. shape \<noteq> LiteralBody b" "e = ST_RuntimeTypeNested t r"
      using Inr x 17(2) by (auto simp: require_literal_body.simps[of S t] split: type_shape.split_asm)
    ultimately have "runtime_kind (td_kind d')" by (cases "td_kind d'"; cases shape) auto
    with \<open>e = _\<close> 17(4,5) d' show ?thesis by auto
  qed
next
  case (19 S t f fs n memo visiting)
  show ?case
  proof (cases "require_literal_body S t (rf_value_type f) memo visiting")
    case (Inl x)
    with 19(3) have "require_literal_body S t (rf_value_type f) memo visiting = Inl e" by simp
    from 19(1)[OF this 19(4,5) _ 19(7)] 19(6) show ?thesis by simp
  next
    case (Inr r)
    obtain a m v where r: "r = (a, m, v)" by (cases r)
    note body = Inr[unfolded r]
    from storage_walk_sound(3)[OF body 19(4)] have "body_ceiling S (rf_value_type f) (unat a)" and m: "memo_ok S m"
      by auto
    note unique = ceiling_unique(1)[OF this(1)]
    have v: "v = visiting" by (rule storage_visiting(3)[OF body])
    show ?thesis
    proof (cases "\<exists>x y. storage_add t 4 a = Inr x \<and> storage_add t n x = Inr y")
      case True
      then obtain x y where xy: "storage_add t 4 a = Inr x" "storage_add t n x = Inr y" by blast
      with 19(3) body have e: "storage_fields S t fs y m v = Inl e" by simp
      have "rf_value_type ` set fs \<subseteq> set (referenced_types (td_kind d))" using 19(6) by simp
      from 19(2)[OF body refl refl xy e m 19(5) this] 19(7) v xy show ?thesis
        by (auto simp: overflows_def list_all2_Cons1 unique)
    next
      case False
      with 19(3) body have "e = ST_SizeOverflow t \<and> u64_max < unat n + (4 + unat a)"
        by (cases "storage_add t 4 a"; cases "storage_add t n (projr (storage_add t 4 a))") auto
      then show ?thesis by (auto simp: overflows_def list_all2_Cons1 unique)
    qed
  qed
qed (auto simp: overflows_def unat_widened dest: rational_body_Inl)


section \<open>The analysis as a whole\<close>

fun kind_bound :: "'q graph_schema \<Rightarrow> 'q type_kind \<Rightarrow> type_storage_kind \<Rightarrow> bool" where
  "kind_bound S (TEvent p c) (StoreEventPayload c' b) \<longleftrightarrow> c' = c \<and> (\<exists>n. body_ceiling S p n \<and> unat b = 4 + n)"
| "kind_bound S (TStream p c k) (StoreStreamSample c' b k') \<longleftrightarrow>
     c' = c \<and> k' = k \<and> (\<exists>n. body_ceiling S p n \<and> unat b = 4 + n)"
| "kind_bound S k (StoreLiteral b) \<longleftrightarrow> (\<exists>n. kind_ceiling S k n \<and> unat b = 4 + n)"
| "kind_bound S k _ \<longleftrightarrow> False"

abbreviation exact_bound :: "'q graph_schema \<Rightarrow> 'q type_definition \<Rightarrow> type_storage_bound \<Rightarrow> bool" where
  "exact_bound S d b \<equiv> sb_value_type b = td_id d \<and> kind_bound S (td_kind d) (sb_kind b)"

lemma ceiling_eq:
  "body_ceiling S t m \<Longrightarrow> body_ceiling S t n \<Longrightarrow> n = m"
  "kind_ceiling S k m \<Longrightarrow> kind_ceiling S k n \<Longrightarrow> n = m"
  using ceiling_unique by blast+

lemma kind_shape_bound: "kind_shape S k shape \<Longrightarrow> storage_kind t shape = Inr b \<Longrightarrow> kind_bound S k b"
  by (cases k; cases shape) (auto simp del: kind_ceiling_simps)

lemma kind_shape_overflow:
  "kind_shape S k shape \<Longrightarrow> storage_kind t shape = Inl e \<Longrightarrow>
     e = ST_SizeOverflow t \<and> (\<forall>n. kind_stored S k n \<longrightarrow> u64_max < n + 4)"
  by (cases k; cases shape) (auto simp del: kind_ceiling_simps(1-11,14-15) dest: ceiling_eq)

lemma analyze_type_step_Inr:
  assumes step: "analyze_type_step S (memo, visiting, bounds) d = Inr st" and memo: "memo_ok S memo"
    and d: "value_type S (td_id d) = Some d"
  shows "\<exists>memo' b. st = (memo', visiting, bounds @ [b]) \<and> memo_ok S memo' \<and> exact_bound S d b"
proof -
  from step obtain shape m v where shape: "storage_shape S (td_id d) memo visiting = Inr (shape, m, v)"
    by (auto simp: analyze_type_step_def Let_def)
  have "v = visiting" by (rule storage_visiting(1)[OF shape])
  moreover from storage_walk_sound(1)[OF shape memo] d have "memo_ok S m" "kind_shape S (td_kind d) shape"
    by (auto simp: type_shape_ok_def)
  ultimately show ?thesis
    using step shape by (auto simp: analyze_type_step_def Let_def intro: kind_shape_bound)
qed

lemma analyze_types_Inr:
  assumes "try_fold (analyze_type_step S) (memo, visiting, bounds) ds = Inr (memo', visiting', bounds')"
    and "memo_ok S memo" and "\<forall>d \<in> set ds. value_type S (td_id d) = Some d"
  shows "\<exists>bs. bounds' = bounds @ bs \<and> list_all2 (exact_bound S) ds bs"
  using assms
proof (induction ds arbitrary: memo bounds)
  case (Cons d ds)
  from Cons.prems(1) obtain st where step: "analyze_type_step S (memo, visiting, bounds) d = Inr st"
    and rest: "try_fold (analyze_type_step S) st ds = Inr (memo', visiting', bounds')" by auto
  from analyze_type_step_Inr[OF step Cons.prems(2)] Cons.prems(3) obtain m b where
    b: "st = (m, visiting, bounds @ [b])" "memo_ok S m" "exact_bound S d b" by auto
  with Cons.IH[OF rest[unfolded b(1)]] Cons.prems(3) obtain bs where
    "bounds' = bounds @ b # bs" "list_all2 (exact_bound S) ds bs" by auto
  with b show ?case by auto
qed simp

lemma analyze_type_step_Inl:
  assumes wf: "schema_wf R S"
    and step: "analyze_type_step S (memo, {}, bounds) d = Inl e" and memo: "memo_ok S memo"
    and d: "value_type S (td_id d) = Some d"
  shows "genuine_storage_error S e"
proof (cases "storage_shape S (td_id d) memo {}")
  case (Inl x)
  with step have "storage_shape S (td_id d) memo {} = Inl e" by (simp add: analyze_type_step_def Let_def)
  from storage_walk_errors(1)[OF this memo _ d] wf show ?thesis by (simp add: on_path_def)
next
  case (Inr r)
  obtain shape m v where "r = (shape, m, v)" by (cases r)
  with Inr have shape: "storage_shape S (td_id d) memo {} = Inr (shape, m, v)" by simp
  from storage_walk_sound(1)[OF shape memo] d have "kind_shape S (td_kind d) shape"
    by (auto simp: type_shape_ok_def)
  moreover from step shape have "storage_kind (td_id d) shape = Inl e"
    by (simp add: analyze_type_step_def Let_def)
  ultimately show ?thesis using d by (auto dest: kind_shape_overflow)
qed

lemma analyze_types_Inl:
  assumes wf: "schema_wf R S"
    and "try_fold (analyze_type_step S) (memo, {}, bounds) ds = Inl e"
    and "memo_ok S memo" and "\<forall>d \<in> set ds. value_type S (td_id d) = Some d"
  shows "genuine_storage_error S e"
  using assms(2-)
proof (induction ds arbitrary: memo bounds)
  case (Cons d ds)
  show ?case
  proof (cases "analyze_type_step S (memo, {}, bounds) d")
    case (Inl x)
    with Cons.prems have "analyze_type_step S (memo, {}, bounds) d = Inl e" by simp
    from analyze_type_step_Inl[OF wf this Cons.prems(2)] Cons.prems(3) show ?thesis by simp
  next
    case (Inr st)
    from analyze_type_step_Inr[OF Inr Cons.prems(2)] Cons.prems(3) obtain m b where
      "st = (m, {}, bounds @ [b])" "memo_ok S m" by auto
    with Cons.IH[of m "bounds @ [b]"] Inr Cons.prems show ?thesis by simp
  qed
qed simp

lemma wf_value_types: "schema_wf R S \<Longrightarrow> \<forall>d \<in> set (gs_types S). value_type S (td_id d) = Some d"
  by (auto simp: value_type_iff)

lemma memo_ok_empty [simp]: "memo_ok S Map.empty"
  by (simp add: memo_ok_def)

lemma analyze_type_storage_sound:
  assumes "schema_wf R S" and "analyze_type_storage S = Inr bounds"
  shows "list_all2 (exact_bound S) (gs_types S) bounds"
proof -
  from assms(2) obtain memo visiting where
    "try_fold (analyze_type_step S) (Map.empty, {}, []) (gs_types S) = Inr (memo, visiting, bounds)"
    by (auto simp: analyze_type_storage_def)
  from analyze_types_Inr[OF this] wf_value_types[OF assms(1)] show ?thesis by auto
qed

lemma analyze_type_storage_genuine:
  assumes "schema_wf R S" and "analyze_type_storage S = Inl e"
  shows "genuine_storage_error S e"
  using assms analyze_types_Inl[OF assms(1) _ memo_ok_empty wf_value_types[OF assms(1)]]
  by (auto simp: analyze_type_storage_def)

lemma kind_bound_stored: "kind_bound S k b \<Longrightarrow> \<exists>n. kind_stored S k n \<and> n + 4 \<le> u64_max"
proof -
  have "4 + n \<le> u64_max" if "unat (w :: u64) = 4 + n" for w n
    using that unat_u64_le[of w] by simp
  then show "kind_bound S k b \<Longrightarrow> ?thesis"
    by (cases k; cases b) (auto simp: add.commute simp del: kind_ceiling_simps(1-11,14-15))
qed

lemma kind_bound_unique: "kind_bound S k a \<Longrightarrow> kind_bound S k b \<Longrightarrow> a = b"
  by (cases k; cases a; cases b)
    (auto simp: word_unat_eq_iff simp del: kind_ceiling_simps(1-11,14-15) dest: ceiling_eq)

lemma list_all2_set1_ceiling:
  "list_all2 (\<lambda>f. body_ceiling S (rf_value_type f)) fs ns \<Longrightarrow> \<forall>f \<in> set fs. \<exists>m. body_ceiling S (rf_value_type f) m"
  by (induction rule: list_all2_induct) auto

lemma kind_stored_references:
  "kind_stored S k n \<Longrightarrow> r \<in> set (referenced_types k) \<Longrightarrow> \<exists>m. body_ceiling S r m"
  by (cases k) (auto dest!: list_all2_set1_ceiling)

lemma bounds_refute_errors:
  assumes "list_all2 (exact_bound S) (gs_types S) bounds" and "schema_wf R S"
  shows "\<not> genuine_storage_error S e"
proof
  assume e: "genuine_storage_error S e"
  have stored: "\<exists>n. kind_stored S (td_kind d) n \<and> n + 4 \<le> u64_max" if "value_type S t = Some d" for t d
  proof -
    have "d \<in> set (gs_types S)" using that assms(2) by (simp add: value_type_iff)
    with assms(1) obtain b where "kind_bound S (td_kind d) b"
      by (auto simp: list_all2_conv_all_nth in_set_conv_nth)
    then show ?thesis by (rule kind_bound_stored)
  qed
  show False
  proof (cases e)
    case (ST_RuntimeTypeNested c r)
    with e obtain d d' where "value_type S c = Some d" "r \<in> set (referenced_types (td_kind d))"
      and d': "value_type S r = Some d'" "runtime_kind (td_kind d')" by auto
    with stored kind_stored_references obtain m where "body_ceiling S r m" by blast
    with d' body_ceiling_literal show False by blast
  next
    case (ST_SizeOverflow t)
    with e stored show False by fastforce
  qed (use e in simp_all)
qed

lemma exact_bounds_unique:
  "list_all2 (exact_bound S) ds a \<Longrightarrow> list_all2 (exact_bound S) ds b \<Longrightarrow> a = b"
proof (induction ds arbitrary: a b)
  case (Cons d ds)
  then obtain x xs y ys where "a = x # xs" "b = y # ys" "exact_bound S d x" "exact_bound S d y"
    "list_all2 (exact_bound S) ds xs" "list_all2 (exact_bound S) ds ys"
    by (auto simp: list_all2_Cons1)
  with Cons.IH[of xs ys] show ?case by (auto dest: kind_bound_unique)
qed simp

lemma analyze_type_storage_iff:
  assumes "schema_wf R S"
  shows "analyze_type_storage S = Inr bounds \<longleftrightarrow> list_all2 (exact_bound S) (gs_types S) bounds"
proof
  assume exact: "list_all2 (exact_bound S) (gs_types S) bounds"
  show "analyze_type_storage S = Inr bounds"
  proof (cases "analyze_type_storage S")
    case (Inl e)
    with analyze_type_storage_genuine[OF assms] bounds_refute_errors[OF exact assms] show ?thesis by blast
  next
    case (Inr bounds')
    from analyze_type_storage_sound[OF assms Inr] exact Inr show ?thesis
      by (simp add: exact_bounds_unique)
  qed
qed (rule analyze_type_storage_sound[OF assms])

section \<open>The bound holds for every encoding\<close>

lemma length_put [simp]:
  "length (put_u8 a) = 1" "length (put_u32 b) = 4" "length (put_u64 c) = 8" "length (put_i64 i) = 8"
  by (simp_all add: put_u8_def put_u32_def put_u64_def put_i64_def)

lemma length_put_rational:
  "put_rational R q (maximum_rational_digits (gs_limits S)) = Inr b \<Longrightarrow> length b \<le> rational_ceiling S"
  by (auto simp: put_rational_def Let_def rational_ceiling_def put_text_def put_count_def split: if_splits)

lemma length_write_each:
  assumes "write_each w xs = Inr b" and "\<forall>x \<in> set xs. \<forall>b. w x = Inr b \<longrightarrow> length b \<le> n"
  shows "length b \<le> length xs * n"
  using assms
proof (induction xs arbitrary: b)
  case (Cons x xs)
  then obtain a c where "w x = Inr a" "write_each w xs = Inr c" "b = a @ c" by auto
  with Cons show ?case by (fastforce intro: add_mono)
qed simp

lemma length_write_fields:
  assumes "list_all2 (\<lambda>f iv. rf_id f = fst iv \<and> has_type R S (rf_value_type f) (snd iv)) fs vs"
    and "list_all2 (\<lambda>f n. body_ceiling S (rf_value_type f) n) fs ns"
    and "write_each (put_record_entry R S) (zip fs vs) = Inr b"
    and "\<And>iv (f :: record_field) n b. iv \<in> set vs \<Longrightarrow> has_type R S (rf_value_type f) (snd iv) \<Longrightarrow> body_ceiling S (rf_value_type f) n \<Longrightarrow>
      encode_value R S (rf_value_type f) (snd iv) = Inr b \<Longrightarrow> length b \<le> n"
  shows "length b \<le> sum_list (map ((+) 4) ns)"
  using assms
proof (induction fs arbitrary: vs ns b)
  case (Cons f fs)
  from Cons.prems(1,2) obtain iv vs' n ns' where vs: "vs = iv # vs'" "ns = n # ns'"
    and f: "has_type R S (rf_value_type f) (snd iv)" "body_ceiling S (rf_value_type f) n"
    and rest: "list_all2 (\<lambda>f iv. rf_id f = fst iv \<and> has_type R S (rf_value_type f) (snd iv)) fs vs'"
      "list_all2 (\<lambda>f n. body_ceiling S (rf_value_type f) n) fs ns'"
    by (auto simp: list_all2_Cons1)
  from Cons.prems(3) vs obtain a c where b: "b = put_u32 (fst iv) @ a @ c"
    and a: "encode_value R S (rf_value_type f) (snd iv) = Inr a"
    and c: "write_each (put_record_entry R S) (zip fs vs') = Inr c" by auto
  have "length a \<le> n" using Cons.prems(4)[of iv f n a] f a vs by simp
  moreover have "length c \<le> sum_list (map ((+) 4) ns')"
    by (rule Cons.IH[OF rest c], rule Cons.prems(4)) (simp_all add: vs)
  ultimately show ?case using b vs by simp
qed simp

lemma encode_value_ceiling:
  "has_type R S t v \<Longrightarrow> wire_value R v \<Longrightarrow> body_ceiling S t n \<Longrightarrow> encode_value R S t v = Inr b \<Longrightarrow> length b \<le> n"
proof (induction v arbitrary: t n b)
  case (VArray xs)
  from VArray.prems(1) obtain D e m where D: "value_type S t = Some D" "td_kind D = TArray e m"
    and len: "length xs \<le> unat m" and typed: "\<forall>x \<in> set xs. has_type R S e x" by auto
  from VArray.prems(3) D obtain k where n: "n = 4 + k * unat m" and k: "body_ceiling S e k"
    by (auto simp: body_ceiling_iff[of S t])
  from VArray.prems(4) D obtain c where c: "write_each (encode_value R S e) xs = Inr c" "length b = 4 + length c"
    by (auto simp: encode_value.simps[of R S t] Let_def)
  have "length c \<le> length xs * k"
    using VArray.IH VArray.prems(2) typed k by (intro length_write_each[OF c(1)]) auto
  also have "\<dots> \<le> k * unat m" using len by (simp add: mult.commute)
  finally show ?case using c n by simp
next
  case (VRecord vs)
  from VRecord.prems(1) obtain D fs where D: "value_type S t = Some D" "td_kind D = TRecord fs"
    and fs: "list_all2 (\<lambda>f iv. rf_id f = fst iv \<and> has_type R S (rf_value_type f) (snd iv)) fs vs" by auto
  from VRecord.prems(3) D obtain ns where n: "n = 4 + sum_list (map ((+) 4) ns)"
    and ns: "list_all2 (\<lambda>f n. body_ceiling S (rf_value_type f) n) fs ns"
    by (auto simp: body_ceiling_iff[of S t])
  from VRecord.prems(4) D obtain c where c: "write_each (put_record_entry R S) (zip fs vs) = Inr c"
    "length b = 4 + length c" by (auto simp: encode_value.simps[of R S t] Let_def)
  have "length c \<le> sum_list (map ((+) 4) ns)"
  proof (rule length_write_fields[OF fs ns c(1)])
    fix iv n b and f :: record_field
    assume "iv \<in> set vs" "has_type R S (rf_value_type f) (snd iv)" "body_ceiling S (rf_value_type f) n"
      "encode_value R S (rf_value_type f) (snd iv) = Inr b"
    with VRecord.IH[OF _ snds.intros] VRecord.prems(2) show "length b \<le> n" by simp
  qed
  with c n show ?case by simp
next
  case (VMeasurementInterval lo hi)
  then show ?case
    by (auto simp: body_ceiling_iff[of S t] encode_value.simps[of R S t] Let_def simp del: put_rational_Inr
        dest!: length_put_rational)
next
  case (VExactRational q)
  then show ?case
    by (auto simp: body_ceiling_iff[of S t] encode_value.simps[of R S t] Let_def simp del: put_rational_Inr
        dest!: length_put_rational)
next
  case (VOptionSome x)
  then show ?case
    by (fastforce simp: body_ceiling_iff[of S t] encode_value.simps[of R S t] Let_def)
next
  case (VResultOk x)
  then show ?case
    by (fastforce simp: body_ceiling_iff[of S t] encode_value.simps[of R S t] Let_def)
next
  case (VResultError x)
  then show ?case
    by (fastforce simp: body_ceiling_iff[of S t] encode_value.simps[of R S t] Let_def)
qed (auto simp: body_ceiling_iff encode_value.simps Let_def)

lemma maximum_literal_bytes_Some: "maximum_literal_bytes k = Some b \<longleftrightarrow> k = StoreLiteral b"
  by (cases k) auto

lemma kind_bound_literal: "kind_bound S k (StoreLiteral b) \<Longrightarrow> \<exists>n. kind_ceiling S k n \<and> unat b = 4 + n"
  by (cases k) (auto simp del: kind_ceiling_simps(1-11,14-15))

lemma literal_bound:
  assumes "schema_wf R S" and "analyze_type_storage S = Inr bounds" and "literal_storage_bytes bounds t = Inr most"
  shows "\<exists>n. body_ceiling S t n \<and> unat most = 4 + n"
proof -
  from assms(3) obtain i where i: "i < length bounds" "sb_value_type (bounds ! i) = t"
    "sb_kind (bounds ! i) = StoreLiteral most"
    by (auto simp: maximum_literal_bytes_Some literal_storage_bytes_def lookup_by_key_def dest!: binary_search_sound)
  note exact = analyze_type_storage_sound[OF assms(1,2)]
  let ?d = "gs_types S ! i"
  from i(1) list_all2_lengthD[OF exact] have "?d \<in> set (gs_types S)" by simp
  moreover from list_all2_nthD2[OF exact i(1)] i have "td_id ?d = t" "kind_bound S (td_kind ?d) (StoreLiteral most)"
    by simp_all
  ultimately show ?thesis
    using wf_value_types[OF assms(1)] kind_bound_literal by (blast intro: body_ceiling_kind_ceiling.registered)
qed

section \<open>Concrete schemas\<close>

text \<open>The pair schema of the literal paths, and one the registry accepts but storage does not: an
  option around an event.\<close>

definition pair_bounds :: "type_storage_bound list" where
  "pair_bounds = [\<lparr>sb_value_type = 1, sb_kind = StoreLiteral 5\<rparr>, \<lparr>sb_value_type = 2, sb_kind = StoreLiteral 10\<rparr>]"

lemma pair_bounds_exact: "list_all2 (exact_bound (pair_schema :: 'q graph_schema)) (gs_types pair_schema) pair_bounds"
proof -
  let ?S = "pair_schema :: 'q graph_schema"
  have "body_ceiling ?S 1 1" by (simp add: body_ceiling_iff)
  from ceiling_unique(1)[OF this] show ?thesis
    by (simp add: pair_bounds_def pair_schema_def[of] example_type_def)
qed

definition nested_event_schema :: "'q graph_schema" where
  "nested_event_schema = \<lparr>gs_limits = interactive_limits, gs_units = [],
     gs_types = [example_type 1 ''flag'' TBoolean, example_type 2 ''pulse'' (TEvent 1 7),
       example_type 3 ''maybe'' (TOption 2)]\<rparr>"

lemma nested_event_schema_wf: "schema_wf R (nested_event_schema :: 'q graph_schema)"
proof -
  let ?S = "nested_event_schema :: 'q graph_schema"
  have "acyclic {(3 :: u32, 2 :: u32), (2, 1)}" by (simp add: acyclic_insert wf_acyclic rtrancl_insert)
  moreover have "type_references ?S = {(3, 2), (2, 1)}"
    by (auto simp: type_references_def nested_event_schema_def example_type_def)
  ultimately have "acyclic (type_references ?S)" by (simp only:)
  then show ?thesis
    by (simp add: schema_wf_def)
      (simp add: nested_event_schema_def type_ok_def type_resolves_def u32_within_def canonical_table_def
        example_type_def evaluate_names evaluate_limits)
qed

lemma nested_event_rejected:
  "analyze_type_storage (nested_event_schema :: 'q graph_schema) = Inl (ST_RuntimeTypeNested 3 2)"
proof -
  let ?S = "nested_event_schema :: 'q graph_schema"
  have types: "value_type ?S 1 = Some (example_type 1 ''flag'' TBoolean)"
    "value_type ?S 2 = Some (example_type 2 ''pulse'' (TEvent 1 7))"
    "value_type ?S 3 = Some (example_type 3 ''maybe'' (TOption 2))"
    by (simp_all add: nested_event_schema_def value_type_def evaluate_types)
  let ?m1 = "[1 \<mapsto> LiteralBody 1]" and ?m2 = "[1 \<mapsto> LiteralBody 1, 2 \<mapsto> EventPayload 7 1]"
  have one: "storage_shape ?S 1 Map.empty {} = Inr (LiteralBody 1, ?m1, {})"
    by (simp add: storage_shape.simps types)
  have two: "storage_shape ?S 2 ?m1 {} = Inr (EventPayload 7 1, ?m2, {})"
    by (simp add: storage_shape.simps[of ?S 2] storage_shape.simps[of ?S 1] require_literal_body.simps types)
  have three: "storage_shape ?S 3 ?m2 {} = Inl (ST_RuntimeTypeNested 3 2)"
    by (simp add: storage_shape.simps[of ?S 3] storage_shape.simps[of ?S 2] require_literal_body.simps types)
  have add: "storage_add t 4 1 = Inr 5" for t by simp
  have kinds: "gs_types ?S = [example_type 1 ''flag'' TBoolean, example_type 2 ''pulse'' (TEvent 1 7),
      example_type 3 ''maybe'' (TOption 2)]" by (simp add: nested_event_schema_def)
  have ids: "td_id (example_type i n k) = i" for i n and k :: "'q type_kind" by (simp add: example_type_def)
  show ?thesis
    by (simp add: analyze_type_storage_def kinds analyze_type_step_def Let_def ids one two three add
        del: and_then_Inl and_then_Inr)
qed

section \<open>Properties of the storage analysis\<close>

text \<open>
  C20. On a well-formed schema the memoised, checked 64-bit analysis refines the unbounded
  specification: it returns a list of bounds if and only if that list gives, type by type, the
  exact ceiling plus four. In particular it succeeds as soon as such a list exists, whatever
  order the types are in.
\<close>

theorem storage_analysis_exact:
  assumes "schema_wf R S"
  shows "analyze_type_storage S = Inr bounds \<longleftrightarrow>
    list_all2 (\<lambda>d b. sb_value_type b = td_id d \<and> kind_bound S (td_kind d) (sb_kind b)) (gs_types S) bounds"
  by (rule analyze_type_storage_iff[OF assms])

theorem storage_analysis_exact_witness:
  "analyze_type_storage (pair_schema :: rat graph_schema) = Inr pair_bounds"
  using storage_analysis_exact[OF pair_schema_wf[of rat_api]] pair_bounds_exact by blast

text \<open>
  C35. The analysed literal ceiling of a type bounds the canonical bytes of every
  value of the type, type identifier included.
\<close>

theorem storage_bounds_every_encoding:
  assumes "schema_wf R S" and "analyze_type_storage S = Inr bounds"
    and "literal_storage_bytes bounds (tv_value_type tv) = Inr most"
    and "wire_value R (tv_value tv)" and "encode_typed_value_bytes R S tv = Inr bs"
  shows "length bs \<le> unat most"
proof -
  let ?t = "tv_value_type tv"
  from assms(5) obtain b where typed: "has_type R S ?t (tv_value tv)"
    and b: "encode_value R S ?t (tv_value tv) = Inr b" "bs = put_u32 ?t @ b"
    by (auto simp: encode_typed_value_bytes_def encode_typed_value_def validate_typed_value_def validate_value_iff)
  from literal_bound[OF assms(1-3)] obtain n where "body_ceiling S ?t n" "unat most = 4 + n" by blast
  with encode_value_ceiling[OF typed assms(4) _ b(1)] b(2) show ?thesis by simp
qed

theorem storage_bounds_every_encoding_witness:
  "length ([2, 0, 0, 0, 2, 0, 0, 0, 1, 0] :: bytes) \<le> unat (10 :: u64)"
proof -
  have "analyze_type_storage (pair_schema :: rat graph_schema) = Inr pair_bounds"
    using analyze_type_storage_iff[OF pair_schema_wf[of rat_api]] pair_bounds_exact by blast
  moreover have "literal_storage_bytes pair_bounds 2 = Inr 10"
    by (simp add: literal_storage_bytes_def pair_bounds_def lookup_by_key_def binary_search_by_key_def
        bsearch_loop_step bsearch_loop_done)
  ultimately show ?thesis
    using storage_bounds_every_encoding[OF pair_schema_wf[of rat_api] _ _ _ pair_value_encoded[of rat_api]]
    by (simp add: pair_value_def)
qed

text \<open>
  On a well-formed schema the analysis never reports an unknown or a recursive type.
  It reports a nested runtime type only where a type really refers to an event or a stream, and an
  overflow only for a type whose exact ceiling plus four does not fit 64 bits.
\<close>

theorem storage_errors_genuine:
  assumes "schema_wf R S" and "analyze_type_storage S = Inl e"
  shows "genuine_storage_error S e"
  by (rule analyze_type_storage_genuine[OF assms])

theorem storage_errors_genuine_witness:
  "genuine_storage_error (nested_event_schema :: rat graph_schema) (ST_RuntimeTypeNested 3 2)"
  using storage_errors_genuine[OF nested_event_schema_wf[of rat_api] nested_event_rejected] .

end
