(* ===== verification/Node_Registry.thy ===== *)
theory Node_Registry
  imports Type_Storage
begin

text \<open>
  The audited node-schema registry of \<^verbatim>\<open>crates/alumina-interface-core/src/graph/analysis.rs\<close>:
  execution-domain sets, node contracts and \<^verbatim>\<open>GraphNodeRegistry::try_new\<close>. The
  validator is proved to accept exactly the well-formed registries \<open>registry_wf\<close>, which
  determine every lookup that the graph analysis makes afterwards.
\<close>

unbundle bit_operations_syntax

section \<open>Execution-domain sets\<close>

text \<open>\<^verbatim>\<open>ExecutionDomainSet\<close> wraps a byte: bit 0 host, bit 1 service, bit 2 realtime.\<close>

type_synonym execution_domain_set = u8

definition host_bit :: u8 where "host_bit = push_bit 0 1"
definition service_bit :: u8 where "service_bit = push_bit 1 1"
definition realtime_bit :: u8 where "realtime_bit = push_bit 2 1"

definition domain_set :: "bool \<Rightarrow> bool \<Rightarrow> bool \<Rightarrow> execution_domain_set" where
  "domain_set host_exact service realtime =
     (let bits = 0;
          bits = (if host_exact then bits OR host_bit else bits);
          bits = (if service then bits OR service_bit else bits)
      in if realtime then bits OR realtime_bit else bits)"

fun domain_bit :: "execution_domain \<Rightarrow> u8" where
  "domain_bit HostExact = host_bit"
| "domain_bit (Service _) = service_bit"
| "domain_bit (Realtime _) = realtime_bit"

definition domain_contains :: "execution_domain_set \<Rightarrow> execution_domain \<Rightarrow> bool" where
  "domain_contains s d \<longleftrightarrow> s AND domain_bit d \<noteq> 0"

definition domain_is_empty :: "execution_domain_set \<Rightarrow> bool" where
  "domain_is_empty s \<longleftrightarrow> s = 0"

section \<open>Limits and contracts\<close>

record analysis_limits =
  maximum_registered_kinds :: nat
  maximum_dependency_links :: nat
  maximum_cycle_witness_links :: nat
  maximum_state_bytes_per_node :: nat
  maximum_total_state_bytes :: nat
  maximum_queue_items_per_input :: nat
  maximum_channel_bytes_per_input :: u64
  maximum_total_channel_bytes :: u64
  maximum_rate_transitions :: nat
  maximum_rate_pattern_ticks :: u64
  maximum_total_rate_transition_state_bytes :: u64

definition interactive_analysis :: analysis_limits where
  "interactive_analysis =
     \<lparr> maximum_registered_kinds = 1024,
       maximum_dependency_links = 65536,
       maximum_cycle_witness_links = 4096,
       maximum_state_bytes_per_node = 1024 * 1024,
       maximum_total_state_bytes = 16 * 1024 * 1024,
       maximum_queue_items_per_input = 4096,
       maximum_channel_bytes_per_input = 64 * 1024 * 1024,
       maximum_total_channel_bytes = 256 * 1024 * 1024,
       maximum_rate_transitions = 8192,
       maximum_rate_pattern_ticks = 1000000,
       maximum_total_rate_transition_state_bytes = 64 * 1024 * 1024 \<rparr>"

record parameter_contract =
  pc_id :: u32
  pc_name :: rust_str
  pc_value_type :: graph_type_id

datatype connection_requirement = Required | Optional

datatype channel_full_policy = Backpressure | Fault | DropNewest | DropOldest

datatype input_channel_kind =
    Synchronous
  | EventQueue u32 channel_full_policy
  | StreamQueue u32 channel_full_policy

record input_channel_contract =
  ic_port :: graph_port_id
  ic_requirement :: connection_requirement
  ic_kind :: input_channel_kind

datatype rate_transition_kind = LatestAtOrBeforeSourceFirst

record rate_transition_contract =
  rc_input :: graph_port_id
  rc_output :: graph_port_id
  rc_kind :: rate_transition_kind

record output_dependency =
  od_output :: graph_port_id
  od_inputs :: "graph_port_id list"

record state_contract =
  sc_clock :: graph_clock_id
  sc_value_type :: graph_type_id
  sc_initial_parameter :: u32
  sc_next_input :: graph_port_id
  sc_current_output :: graph_port_id
  sc_declared_storage_bytes :: u32

record node_schema =
  ns_kind :: node_kind
  ns_allowed_domains :: execution_domain_set
  ns_inputs :: "port_definition list"
  ns_input_channels :: "input_channel_contract list"
  ns_outputs :: "port_definition list"
  ns_parameters :: "parameter_contract list"
  ns_output_dependencies :: "output_dependency list"
  ns_rate_transitions :: "rate_transition_contract list"
  ns_state :: "state_contract option"

record 'q node_registry =
  nr_limits :: analysis_limits
  nr_context_schema :: "'q graph_schema"
  nr_context_clocks :: "clock_definition list"
  nr_schemas :: "node_schema list"

datatype registry_error =
    RE_ZeroLimit
  | RE_LimitExceeded string
  | RE_DuplicateKind node_kind
  | RE_InvalidSchema node_kind string

definition validate_analysis_limits :: "analysis_limits \<Rightarrow> registry_error + unit" where
  "validate_analysis_limits l =
     (if 0 \<in> set [maximum_registered_kinds l, maximum_dependency_links l, maximum_cycle_witness_links l,
            maximum_state_bytes_per_node l, maximum_total_state_bytes l,
            maximum_queue_items_per_input l, maximum_rate_transitions l]
         \<or> maximum_channel_bytes_per_input l = 0 \<or> maximum_total_channel_bytes l = 0
         \<or> maximum_rate_pattern_ticks l = 0 \<or> maximum_total_rate_transition_state_bytes l = 0
      then Inl RE_ZeroLimit else Inr ())"

section \<open>Validating one node schema\<close>

definition invalid_schema :: "node_schema \<Rightarrow> string \<Rightarrow> registry_error" where
  "invalid_schema ns aspect = RE_InvalidSchema (ns_kind ns) aspect"

text \<open>\<^verbatim>\<open>compare_kind\<close>: by name, then by version.\<close>

definition kind_key :: "node_kind \<Rightarrow> rust_str \<times> u16" where
  "kind_key k = (nk_name k, nk_version k)"

definition schema_key :: "node_schema \<Rightarrow> rust_str \<times> u16" where
  "schema_key ns = kind_key (ns_kind ns)"

definition validate_queue_capacity :: "node_schema \<Rightarrow> u32 \<Rightarrow> nat \<Rightarrow> registry_error + unit" where
  "validate_queue_capacity ns capacity maximum =
     (if capacity = 0 \<or> unat capacity > maximum then Inl (invalid_schema ns ''queue capacity'') else Inr ())"

definition validate_contract_port ::
  "'q graph_schema \<Rightarrow> node_schema \<Rightarrow> graph_port_id set \<times> rust_str set \<Rightarrow> port_definition
     \<Rightarrow> registry_error + graph_port_id set \<times> rust_str set" where
  "validate_contract_port S ns st p = (case st of (ids, names) \<Rightarrow>
     if pd_id p = 0 \<or> pd_value_type p = 0 \<or> \<not> valid_stable_name (pd_name p)
        \<or> pd_id p \<in> ids \<or> pd_name p \<in> names
     then Inl (invalid_schema ns ''port contract'')
     else if value_type S (pd_value_type p) = None then Inl (invalid_schema ns ''port value type'')
     else Inr (insert (pd_id p) ids, insert (pd_name p) names))"

definition validate_input_channel ::
  "analysis_limits \<Rightarrow> 'q graph_schema \<Rightarrow> node_schema \<Rightarrow> port_definition \<times> input_channel_contract
     \<Rightarrow> registry_error + unit" where
  "validate_input_channel l S ns pc = (case pc of (p, channel) \<Rightarrow>
     if pd_id p \<noteq> ic_port channel then Inl (invalid_schema ns ''input channel coverage'')
     else and_then (ok_or (invalid_schema ns ''input channel type'') (value_type S (pd_value_type p)))
       (\<lambda>definition.
       let mismatch = Inl (invalid_schema ns ''input channel type'') in
       case td_kind definition of
         TEvent _ _ \<Rightarrow> (case ic_kind channel of
           EventQueue capacity _ \<Rightarrow> validate_queue_capacity ns capacity (maximum_queue_items_per_input l)
         | _ \<Rightarrow> mismatch)
       | TStream _ _ type_capacity \<Rightarrow> (case ic_kind channel of
           StreamQueue capacity _ \<Rightarrow>
             and_then (validate_queue_capacity ns capacity (maximum_queue_items_per_input l)) (\<lambda>_.
             if capacity > type_capacity then Inl (invalid_schema ns ''stream queue capacity'') else Inr ())
         | _ \<Rightarrow> mismatch)
       | _ \<Rightarrow> (case ic_kind channel of Synchronous \<Rightarrow> Inr () | _ \<Rightarrow> mismatch)))"

definition validate_parameter_contract ::
  "'q graph_schema \<Rightarrow> node_schema \<Rightarrow> rust_str set \<times> u32 option \<Rightarrow> parameter_contract
     \<Rightarrow> registry_error + rust_str set \<times> u32 option" where
  "validate_parameter_contract S ns st p = (case st of (names, previous) \<Rightarrow>
     if pc_id p = 0 \<or> pc_value_type p = 0 \<or> previous = Some (pc_id p)
        \<or> \<not> valid_stable_name (pc_name p) \<or> pc_name p \<in> names
     then Inl (invalid_schema ns ''parameter contract'')
     else if value_type S (pc_value_type p) = None then Inl (invalid_schema ns ''parameter value type'')
     else Inr (insert (pc_name p) names, Some (pc_id p)))"

definition validate_dependency_input ::
  "node_schema \<Rightarrow> graph_port_id option \<Rightarrow> graph_port_id \<Rightarrow> registry_error + graph_port_id option" where
  "validate_dependency_input ns previous i =
     (if previous = Some i \<or> i \<notin> pd_id ` set (ns_inputs ns)
      then Inl (invalid_schema ns ''output dependency input'') else Inr (Some i))"

definition validate_output_dependency ::
  "node_schema \<Rightarrow> port_definition \<times> output_dependency \<Rightarrow> registry_error + unit" where
  "validate_output_dependency ns pd = (case pd of (p, dependency) \<Rightarrow>
     if pd_id p \<noteq> od_output dependency then Inl (invalid_schema ns ''output dependency coverage'')
     else and_then (try_fold (validate_dependency_input ns) None (od_inputs dependency)) (\<lambda>_. Inr ()))"

datatype runtime_port_kind = RuntimeEvent | RuntimeStream

record runtime_port_facts =
  rp_kind :: runtime_port_kind
  rp_payload :: graph_type_id
  rp_clock :: graph_clock_id

definition runtime_port :: "'q graph_schema \<Rightarrow> port_definition \<Rightarrow> runtime_port_facts option" where
  "runtime_port S p = (case value_type S (pd_value_type p) of
     None \<Rightarrow> None
   | Some d \<Rightarrow> (case td_kind d of
       TEvent payload clock \<Rightarrow> Some \<lparr>rp_kind = RuntimeEvent, rp_payload = payload, rp_clock = clock\<rparr>
     | TStream sample clock _ \<Rightarrow> Some \<lparr>rp_kind = RuntimeStream, rp_payload = sample, rp_clock = clock\<rparr>
     | _ \<Rightarrow> None))"

definition state_path_value_type ::
  "'q graph_schema \<Rightarrow> graph_clock_id \<Rightarrow> port_definition \<Rightarrow> graph_type_id option" where
  "state_path_value_type S state_clock p = (case value_type S (pd_value_type p) of
     None \<Rightarrow> None
   | Some d \<Rightarrow> (case td_kind d of
       TStream sample clock _ \<Rightarrow> if clock = state_clock then Some sample else None
     | TEvent _ _ \<Rightarrow> None
     | _ \<Rightarrow> Some (pd_value_type p)))"

text \<open>The first loop of \<^verbatim>\<open>validate_rate_transition_contracts\<close>, over the declared
  transitions; \<^verbatim>\<open>pairs\<close> is its loop variable.\<close>

definition validate_rate_contract ::
  "'q graph_schema \<Rightarrow> node_schema \<Rightarrow> (graph_port_id \<times> graph_port_id) set \<Rightarrow> rate_transition_contract
     \<Rightarrow> registry_error + (graph_port_id \<times> graph_port_id) set" where
  "validate_rate_contract S ns pairs t =
     (if rc_input t = 0 \<or> rc_output t = 0 \<or> (rc_output t, rc_input t) \<in> pairs
      then Inl (invalid_schema ns ''rate transition identity'')
      else
        and_then (ok_or (invalid_schema ns ''rate transition input'')
          (find (\<lambda>p. pd_id p = rc_input t) (ns_inputs ns))) (\<lambda>inp.
        and_then (ok_or (invalid_schema ns ''rate transition output'')
          (find (\<lambda>p. pd_id p = rc_output t) (ns_outputs ns))) (\<lambda>outp.
        and_then (ok_or (invalid_schema ns ''rate transition input type'') (runtime_port S inp)) (\<lambda>source.
        and_then (ok_or (invalid_schema ns ''rate transition output type'') (runtime_port S outp)) (\<lambda>target.
        if rp_kind source \<noteq> RuntimeStream \<or> rp_kind target \<noteq> RuntimeStream
           \<or> rp_payload source \<noteq> rp_payload target \<or> rp_clock source = rp_clock target
        then Inl (invalid_schema ns ''rate transition type'')
        else if \<not> (case find (\<lambda>c. ic_port c = rc_input t) (ns_input_channels ns) of
                Some c \<Rightarrow> ic_requirement c = Required \<and> (\<exists>n p. ic_kind c = StreamQueue n p)
              | None \<Rightarrow> False)
        then Inl (invalid_schema ns ''rate transition input delivery'')
        else if \<not> (case find (\<lambda>d. od_output d = rc_output t) (ns_output_dependencies ns) of
                Some d \<Rightarrow> rc_input t \<in> set (od_inputs d) | None \<Rightarrow> False)
        then Inl (invalid_schema ns ''rate transition dependency'')
        else Inr (insert (rc_output t, rc_input t) pairs))))))"

text \<open>The second loop: every feedthrough that crosses clocks needs a declared transition.\<close>

definition validate_cross_clock ::
  "'q graph_schema \<Rightarrow> node_schema \<Rightarrow> (graph_port_id \<times> graph_port_id) set \<Rightarrow> output_dependency
     \<Rightarrow> runtime_port_facts \<Rightarrow> graph_port_id \<Rightarrow> registry_error + unit" where
  "validate_cross_clock S ns pairs dependency target i =
     and_then (ok_or (invalid_schema ns ''output dependency input'')
       (find (\<lambda>p. pd_id p = i) (ns_inputs ns))) (\<lambda>inp.
     case runtime_port S inp of
       None \<Rightarrow> Inr ()
     | Some source \<Rightarrow>
         if rp_clock source = rp_clock target then Inr ()
         else if rp_kind source \<noteq> RuntimeStream \<or> rp_kind target \<noteq> RuntimeStream
            \<or> rp_payload source \<noteq> rp_payload target \<or> (od_output dependency, i) \<notin> pairs
         then Inl (invalid_schema ns ''cross-clock dependency'')
         else Inr ())"

definition validate_rate_dependency ::
  "'q graph_schema \<Rightarrow> node_schema \<Rightarrow> (graph_port_id \<times> graph_port_id) set \<Rightarrow> output_dependency
     \<Rightarrow> registry_error + unit" where
  "validate_rate_dependency S ns pairs dependency =
     and_then (ok_or (invalid_schema ns ''output dependency coverage'')
       (find (\<lambda>p. pd_id p = od_output dependency) (ns_outputs ns))) (\<lambda>outp.
     case runtime_port S outp of
       None \<Rightarrow> Inr ()
     | Some target \<Rightarrow> try_each (validate_cross_clock S ns pairs dependency target) (od_inputs dependency))"

definition validate_rate_transition_contracts ::
  "'q graph_schema \<Rightarrow> node_schema \<Rightarrow> registry_error + unit" where
  "validate_rate_transition_contracts S ns =
     and_then (try_fold (validate_rate_contract S ns) {} (ns_rate_transitions ns)) (\<lambda>pairs.
     try_each (validate_rate_dependency S ns pairs) (ns_output_dependencies ns))"

definition validate_state_contract ::
  "analysis_limits \<Rightarrow> 'q graph_schema \<Rightarrow> clock_definition list \<Rightarrow> node_schema \<Rightarrow> state_contract
     \<Rightarrow> registry_error + unit" where
  "validate_state_contract l S clocks ns state =
     (let storage = unat (sc_declared_storage_bytes state) in
      if sc_clock state = 0 \<or> sc_value_type state = 0 \<or> sc_initial_parameter state = 0 \<or> storage = 0
         \<or> storage > maximum_state_bytes_per_node l
      then Inl (invalid_schema ns ''state contract'')
      else if value_type S (sc_value_type state) = None then Inl (invalid_schema ns ''state value type'')
      else if \<not> (\<exists>c \<in> set clocks. cd_id c = sc_clock state) then Inl (invalid_schema ns ''state clock'')
      else let initial = find (\<lambda>p. pc_id p = sc_initial_parameter state) (ns_parameters ns);
               next_port = find (\<lambda>p. pd_id p = sc_next_input state) (ns_inputs ns);
               current_port = find (\<lambda>p. pd_id p = sc_current_output state) (ns_outputs ns) in
      if map_option pc_value_type initial \<noteq> Some (sc_value_type state)
         \<or> Option.bind next_port (state_path_value_type S (sc_clock state)) \<noteq> Some (sc_value_type state)
         \<or> Option.bind current_port (state_path_value_type S (sc_clock state)) \<noteq> Some (sc_value_type state)
      then Inl (invalid_schema ns ''state value path'')
      else if \<not> (case find (\<lambda>d. od_output d = sc_current_output state) (ns_output_dependencies ns) of
              Some d \<Rightarrow> od_inputs d = [] | None \<Rightarrow> False)
      then Inl (invalid_schema ns ''state output feedthrough'')
      else Inr ())"

definition validate_node_schema ::
  "analysis_limits \<Rightarrow> 'q graph_schema \<Rightarrow> clock_definition list \<Rightarrow> node_schema \<Rightarrow> registry_error + unit" where
  "validate_node_schema l S clocks ns =
     (if \<not> valid_stable_name (nk_name (ns_kind ns)) \<or> nk_version (ns_kind ns) = 0
      then Inl (invalid_schema ns ''kind identity'')
      else if domain_is_empty (ns_allowed_domains ns) then Inl (invalid_schema ns ''allowed domains'')
      else and_then (try_fold (validate_contract_port S ns) ({}, {}) (ns_inputs ns @ ns_outputs ns)) (\<lambda>_.
      if length (ns_input_channels ns) \<noteq> length (ns_inputs ns)
      then Inl (invalid_schema ns ''input channel coverage'')
      else and_then (try_each (validate_input_channel l S ns) (zip (ns_inputs ns) (ns_input_channels ns))) (\<lambda>_.
      and_then (try_fold (validate_parameter_contract S ns) ({}, None) (ns_parameters ns)) (\<lambda>_.
      if length (ns_output_dependencies ns) \<noteq> length (ns_outputs ns)
      then Inl (invalid_schema ns ''output dependency coverage'')
      else and_then (try_each (validate_output_dependency ns) (zip (ns_outputs ns) (ns_output_dependencies ns))) (\<lambda>_.
      and_then (validate_rate_transition_contracts S ns) (\<lambda>_.
      case ns_state ns of
        None \<Rightarrow> Inr ()
      | Some state \<Rightarrow> validate_state_contract l S clocks ns state))))))"

section \<open>The registry\<close>

definition validate_registry_step ::
  "analysis_limits \<Rightarrow> 'q graph_schema \<Rightarrow> clock_definition list \<Rightarrow> (rust_str \<times> u16) option \<Rightarrow> node_schema
     \<Rightarrow> registry_error + (rust_str \<times> u16) option" where
  "validate_registry_step l S clocks previous ns =
     (if previous = Some (schema_key ns) then Inl (RE_DuplicateKind (ns_kind ns))
      else and_then (validate_node_schema l S clocks ns) (\<lambda>_. Inr (Some (schema_key ns))))"

definition validate_registry :: "'q node_registry \<Rightarrow> registry_error + unit" where
  "validate_registry N =
     and_then (try_fold (validate_registry_step (nr_limits N) (nr_context_schema N) (nr_context_clocks N))
       None (nr_schemas N)) (\<lambda>_. Inr ())"

definition canonical_node_schema :: "node_schema \<Rightarrow> node_schema" where
  "canonical_node_schema ns = ns
     \<lparr>ns_inputs := sort_key pd_id (ns_inputs ns),
      ns_input_channels := sort_key ic_port (ns_input_channels ns),
      ns_outputs := sort_key pd_id (ns_outputs ns),
      ns_parameters := sort_key pc_id (ns_parameters ns),
      ns_output_dependencies := map (\<lambda>d. d\<lparr>od_inputs := sort (od_inputs d)\<rparr>)
        (sort_key od_output (ns_output_dependencies ns)),
      ns_rate_transitions := sort_key (\<lambda>t. (rc_output t, rc_input t)) (ns_rate_transitions ns)\<rparr>"

definition canonical_registry ::
  "analysis_limits \<Rightarrow> 'q graph_document \<Rightarrow> node_schema list \<Rightarrow> 'q node_registry" where
  "canonical_registry l D schemas =
     \<lparr>nr_limits = l, nr_context_schema = gd_schema D, nr_context_clocks = gd_clocks D,
      nr_schemas = map canonical_node_schema (sort_key schema_key schemas)\<rparr>"

definition try_new_registry ::
  "analysis_limits \<Rightarrow> 'q graph_document \<Rightarrow> node_schema list \<Rightarrow> registry_error + 'q node_registry" where
  "try_new_registry l D schemas =
     and_then (validate_analysis_limits l) (\<lambda>_.
     if length schemas > maximum_registered_kinds l then Inl (RE_LimitExceeded ''registered kind count'')
     else let N = canonical_registry l D schemas in
       and_then (validate_registry N) (\<lambda>_. Inr N))"

definition registry_schema :: "'q node_registry \<Rightarrow> node_kind \<Rightarrow> node_schema option" where
  "registry_schema N k = lookup_by_key (kind_key k) schema_key (nr_schemas N)"

section \<open>Well-formed registries\<close>

fun channel_fits :: "analysis_limits \<Rightarrow> 'q type_kind \<Rightarrow> input_channel_kind \<Rightarrow> bool" where
  "channel_fits l (TEvent _ _) (EventQueue n _) \<longleftrightarrow> n \<noteq> 0 \<and> unat n \<le> maximum_queue_items_per_input l"
| "channel_fits l (TEvent _ _) _ \<longleftrightarrow> False"
| "channel_fits l (TStream _ _ m) (StreamQueue n _) \<longleftrightarrow>
     n \<noteq> 0 \<and> unat n \<le> maximum_queue_items_per_input l \<and> n \<le> m"
| "channel_fits l (TStream _ _ _) _ \<longleftrightarrow> False"
| "channel_fits l _ Synchronous \<longleftrightarrow> True"
| "channel_fits l _ _ \<longleftrightarrow> False"

definition channel_ok :: "analysis_limits \<Rightarrow> 'q graph_schema \<Rightarrow> port_definition \<Rightarrow> input_channel_contract \<Rightarrow> bool" where
  "channel_ok l S p c \<longleftrightarrow> ic_port c = pd_id p
     \<and> (\<exists>d. value_type S (pd_value_type p) = Some d \<and> channel_fits l (td_kind d) (ic_kind c))"

definition contract_port_ok :: "'q graph_schema \<Rightarrow> port_definition \<Rightarrow> bool" where
  "contract_port_ok S p \<longleftrightarrow> pd_id p \<noteq> 0 \<and> pd_value_type p \<noteq> 0 \<and> valid_stable_name (pd_name p)
     \<and> (\<exists>d. value_type S (pd_value_type p) = Some d)"

definition parameter_contract_ok :: "'q graph_schema \<Rightarrow> parameter_contract \<Rightarrow> bool" where
  "parameter_contract_ok S p \<longleftrightarrow> pc_id p \<noteq> 0 \<and> pc_value_type p \<noteq> 0 \<and> valid_stable_name (pc_name p)
     \<and> (\<exists>d. value_type S (pc_value_type p) = Some d)"

definition dependency_ok :: "node_schema \<Rightarrow> port_definition \<Rightarrow> output_dependency \<Rightarrow> bool" where
  "dependency_ok ns p d \<longleftrightarrow> od_output d = pd_id p \<and> set (od_inputs d) \<subseteq> pd_id ` set (ns_inputs ns)
     \<and> distinct (od_inputs d)"

definition stream_port :: "'q graph_schema \<Rightarrow> port_definition \<Rightarrow> graph_type_id \<Rightarrow> graph_clock_id \<Rightarrow> bool" where
  "stream_port S p sample clock \<longleftrightarrow>
     (\<exists>d n. value_type S (pd_value_type p) = Some d \<and> td_kind d = TStream sample clock n)"

definition rate_ok :: "'q graph_schema \<Rightarrow> node_schema \<Rightarrow> rate_transition_contract \<Rightarrow> bool" where
  "rate_ok S ns t \<longleftrightarrow> rc_input t \<noteq> 0 \<and> rc_output t \<noteq> 0
     \<and> (\<exists>i \<in> set (ns_inputs ns). \<exists>out \<in> set (ns_outputs ns). \<exists>sample a b.
          pd_id i = rc_input t \<and> pd_id out = rc_output t \<and> stream_port S i sample a \<and> stream_port S out sample b
          \<and> a \<noteq> b)
     \<and> (\<exists>c \<in> set (ns_input_channels ns). ic_port c = rc_input t \<and> ic_requirement c = Required
          \<and> (\<exists>n policy. ic_kind c = StreamQueue n policy))
     \<and> (\<exists>d \<in> set (ns_output_dependencies ns). od_output d = rc_output t \<and> rc_input t \<in> set (od_inputs d))"

text \<open>Every feedthrough that crosses clocks is one of the declared rate transitions.\<close>

definition crossings_declared :: "'q graph_schema \<Rightarrow> node_schema \<Rightarrow> bool" where
  "crossings_declared S ns \<longleftrightarrow>
     (\<forall>d \<in> set (ns_output_dependencies ns). \<forall>out \<in> set (ns_outputs ns). \<forall>i \<in> set (ns_inputs ns). \<forall>s t.
        pd_id out = od_output d \<longrightarrow> pd_id i \<in> set (od_inputs d) \<longrightarrow>
        runtime_port S i = Some s \<longrightarrow> runtime_port S out = Some t \<longrightarrow> rp_clock s \<noteq> rp_clock t \<longrightarrow>
        (pd_id out, pd_id i) \<in> (\<lambda>r. (rc_output r, rc_input r)) ` set (ns_rate_transitions ns))"

definition state_ok ::
  "analysis_limits \<Rightarrow> 'q graph_schema \<Rightarrow> clock_definition list \<Rightarrow> node_schema \<Rightarrow> state_contract \<Rightarrow> bool" where
  "state_ok l S clocks ns st \<longleftrightarrow>
     sc_clock st \<noteq> 0 \<and> sc_value_type st \<noteq> 0 \<and> sc_initial_parameter st \<noteq> 0
     \<and> sc_declared_storage_bytes st \<noteq> 0
     \<and> unat (sc_declared_storage_bytes st) \<le> maximum_state_bytes_per_node l
     \<and> (\<exists>d. value_type S (sc_value_type st) = Some d) \<and> (\<exists>c \<in> set clocks. cd_id c = sc_clock st)
     \<and> (\<exists>p \<in> set (ns_parameters ns). pc_id p = sc_initial_parameter st \<and> pc_value_type p = sc_value_type st)
     \<and> (\<exists>p \<in> set (ns_inputs ns). pd_id p = sc_next_input st
          \<and> state_path_value_type S (sc_clock st) p = Some (sc_value_type st))
     \<and> (\<exists>p \<in> set (ns_outputs ns). pd_id p = sc_current_output st
          \<and> state_path_value_type S (sc_clock st) p = Some (sc_value_type st))
     \<and> (\<exists>d \<in> set (ns_output_dependencies ns). od_output d = sc_current_output st \<and> od_inputs d = [])"

definition node_schema_wf ::
  "analysis_limits \<Rightarrow> 'q graph_schema \<Rightarrow> clock_definition list \<Rightarrow> node_schema \<Rightarrow> bool" where
  "node_schema_wf l S clocks ns \<longleftrightarrow>
     valid_stable_name (nk_name (ns_kind ns)) \<and> nk_version (ns_kind ns) \<noteq> 0 \<and> ns_allowed_domains ns \<noteq> 0
     \<and> (\<forall>p \<in> set (ns_inputs ns @ ns_outputs ns). contract_port_ok S p)
     \<and> distinct (map pd_id (ns_inputs ns @ ns_outputs ns))
     \<and> distinct (map pd_name (ns_inputs ns @ ns_outputs ns))
     \<and> list_all2 (channel_ok l S) (ns_inputs ns) (ns_input_channels ns)
     \<and> (\<forall>p \<in> set (ns_parameters ns). parameter_contract_ok S p)
     \<and> distinct (map pc_id (ns_parameters ns)) \<and> distinct (map pc_name (ns_parameters ns))
     \<and> list_all2 (dependency_ok ns) (ns_outputs ns) (ns_output_dependencies ns)
     \<and> (\<forall>t \<in> set (ns_rate_transitions ns). rate_ok S ns t)
     \<and> distinct (map (\<lambda>t. (rc_output t, rc_input t)) (ns_rate_transitions ns))
     \<and> crossings_declared S ns
     \<and> (\<forall>st. ns_state ns = Some st \<longrightarrow> state_ok l S clocks ns st)"

definition analysis_limits_ok :: "analysis_limits \<Rightarrow> bool" where
  "analysis_limits_ok l \<longleftrightarrow>
     0 < maximum_registered_kinds l \<and> 0 < maximum_dependency_links l \<and> 0 < maximum_cycle_witness_links l
     \<and> 0 < maximum_state_bytes_per_node l \<and> 0 < maximum_total_state_bytes l
     \<and> 0 < maximum_queue_items_per_input l \<and> 0 < maximum_rate_transitions l
     \<and> 0 < maximum_channel_bytes_per_input l \<and> 0 < maximum_total_channel_bytes l
     \<and> 0 < maximum_rate_pattern_ticks l \<and> 0 < maximum_total_rate_transition_state_bytes l"

definition registry_wf :: "'q node_registry \<Rightarrow> bool" where
  "registry_wf N \<longleftrightarrow> analysis_limits_ok (nr_limits N)
     \<and> length (nr_schemas N) \<le> maximum_registered_kinds (nr_limits N)
     \<and> canonical_table schema_key (nr_schemas N)
     \<and> (\<forall>ns \<in> set (nr_schemas N).
          node_schema_wf (nr_limits N) (nr_context_schema N) (nr_context_clocks N) ns)"

section \<open>The validators decide it\<close>

lemma find_key_iff:
  assumes "distinct (map key xs)"
  shows "find (\<lambda>x. key x = k) xs = Some x \<longleftrightarrow> x \<in> set xs \<and> key x = k"
  using assms by (induction xs) (auto simp: image_iff)

lemma find_key_None: "find (\<lambda>x. key x = k) xs = None \<longleftrightarrow> k \<notin> key ` set xs"
  by (induction xs) auto

text \<open>A scan that keeps the set of keys it has seen.\<close>

lemma set_scan_Inr:
  assumes "\<And>seen x seen'. step seen x = Inr seen' \<longleftrightarrow> good x \<and> key x \<notin> seen \<and> seen' = insert (key x) seen"
  shows "try_fold step seen xs = Inr seen' \<longleftrightarrow>
     (\<forall>x \<in> set xs. good x) \<and> distinct (map key xs) \<and> key ` set xs \<inter> seen = {}
     \<and> seen' = seen \<union> key ` set xs"
proof (induction xs arbitrary: seen)
  case (Cons x xs)
  then show ?case by (auto simp: assms)
qed auto

lemma validate_contract_ports:
  "(\<exists>st. try_fold (validate_contract_port S ns) (ids, names) ps = Inr st) \<longleftrightarrow>
     (\<forall>p \<in> set ps. contract_port_ok S p) \<and> distinct (map pd_id ps) \<and> distinct (map pd_name ps)
     \<and> pd_id ` set ps \<inter> ids = {} \<and> pd_name ` set ps \<inter> names = {}"
proof (induction ps arbitrary: ids names)
  case (Cons p ps)
  have "(\<exists>st. try_fold (validate_contract_port S ns) (ids, names) (p # ps) = Inr st) \<longleftrightarrow>
    contract_port_ok S p \<and> pd_id p \<notin> ids \<and> pd_name p \<notin> names \<and>
    (\<exists>st. try_fold (validate_contract_port S ns) (insert (pd_id p) ids, insert (pd_name p) names) ps = Inr st)"
    by (auto simp: validate_contract_port_def contract_port_ok_def)
  then show ?case unfolding Cons.IH by auto
qed simp

interpretation contract_parameter_scan: unique_scan "validate_parameter_contract S ns" pc_id pc_name
  "parameter_contract_ok S" for S :: "'q graph_schema" and ns
  by unfold_locales (auto simp: validate_parameter_contract_def parameter_contract_ok_def split: if_splits)

interpretation dependency_input_scan: key_scan "validate_dependency_input ns" "\<lambda>i. i"
  "\<lambda>i. i \<in> pd_id ` set (ns_inputs ns)" for ns
  by unfold_locales (auto simp: validate_dependency_input_def)

interpretation registry_scan: key_scan "validate_registry_step l S clocks" schema_key
  "\<lambda>ns. validate_node_schema l S clocks ns = Inr ()" for l and S :: "'q graph_schema" and clocks
  by unfold_locales (auto simp: validate_registry_step_def ex_unit)

lemma validate_input_channel_iff:
  "validate_input_channel l S ns (p, c) = Inr () \<longleftrightarrow> channel_ok l S p c"
proof (cases "value_type S (pd_value_type p)")
  case (Some d)
  then show ?thesis
    by (cases "td_kind d"; cases "ic_kind c")
      (auto simp: validate_input_channel_def channel_ok_def validate_queue_capacity_def Let_def ex_unit not_less)
qed (auto simp: validate_input_channel_def channel_ok_def)

lemma validate_output_dependency_iff:
  assumes "sorted (od_inputs d)"
  shows "validate_output_dependency ns (p, d) = Inr () \<longleftrightarrow> dependency_ok ns p d"
  using dependency_input_scan.scan_ok_iff[of "od_inputs d" ns] assms
  by (auto simp: validate_output_dependency_def dependency_ok_def canonical_table_def)

lemma runtime_port_stream:
  "runtime_port S p = Some r \<and> rp_kind r = RuntimeStream \<longleftrightarrow>
     (\<exists>sample clock. stream_port S p sample clock
        \<and> r = \<lparr>rp_kind = RuntimeStream, rp_payload = sample, rp_clock = clock\<rparr>)"
  by (auto simp: runtime_port_def stream_port_def split: option.splits type_kind.splits)

lemma stream_port_unique:
  "stream_port S p a c \<Longrightarrow> stream_port S p a' c' \<Longrightarrow> a' = a \<and> c' = c"
  by (auto simp: stream_port_def)
text \<open>The tables of a schema whose ports have passed: identifiers are distinct, so
  \<^verbatim>\<open>iter().find\<close> finds the one entry.\<close>

definition tables_distinct :: "node_schema \<Rightarrow> bool" where
  "tables_distinct ns \<longleftrightarrow> distinct (map pd_id (ns_inputs ns)) \<and> distinct (map pd_id (ns_outputs ns))
     \<and> map ic_port (ns_input_channels ns) = map pd_id (ns_inputs ns)
     \<and> map od_output (ns_output_dependencies ns) = map pd_id (ns_outputs ns)
     \<and> distinct (map pc_id (ns_parameters ns))"

lemma tables_distinct_find:
  assumes "tables_distinct ns"
  shows "find (\<lambda>p. pd_id p = k) (ns_inputs ns) = Some p \<longleftrightarrow> p \<in> set (ns_inputs ns) \<and> pd_id p = k"
    and "find (\<lambda>p. pd_id p = k) (ns_outputs ns) = Some p \<longleftrightarrow> p \<in> set (ns_outputs ns) \<and> pd_id p = k"
    and "find (\<lambda>p. pc_id p = k) (ns_parameters ns) = Some q \<longleftrightarrow> q \<in> set (ns_parameters ns) \<and> pc_id q = k"
    and "find (\<lambda>c. ic_port c = k) (ns_input_channels ns) = Some c \<longleftrightarrow> c \<in> set (ns_input_channels ns) \<and> ic_port c = k"
    and "find (\<lambda>d. od_output d = k) (ns_output_dependencies ns) = Some d \<longleftrightarrow>
      d \<in> set (ns_output_dependencies ns) \<and> od_output d = k"
  using assms by (auto simp: tables_distinct_def find_key_iff)

lemma find_case_iff:
  assumes "\<And>x. find P xs = Some x \<longleftrightarrow> x \<in> set xs \<and> P x"
  shows "(case find P xs of Some x \<Rightarrow> Q x | None \<Rightarrow> False) \<longleftrightarrow> (\<exists>x \<in> set xs. P x \<and> Q x)"
proof (cases "find P xs")
  case None
  then show ?thesis using assms find_None_iff[of P xs] by auto
next
  case (Some x)
  then have "y = x" if "y \<in> set xs" "P y" for y using assms[of y] that by simp
  with Some assms[of x] show ?thesis by auto
qed

lemma validate_rate_contract_Inr:
  assumes "tables_distinct ns"
  shows "validate_rate_contract S ns pairs t = Inr pairs' \<longleftrightarrow>
    rate_ok S ns t \<and> (rc_output t, rc_input t) \<notin> pairs \<and> pairs' = insert (rc_output t, rc_input t) pairs"
proof -
  note find = tables_distinct_find[OF assms]
  have channel: "(case find (\<lambda>c. ic_port c = rc_input t) (ns_input_channels ns) of
        Some c \<Rightarrow> ic_requirement c = Required \<and> (\<exists>n p. ic_kind c = StreamQueue n p) | None \<Rightarrow> False) \<longleftrightarrow>
      (\<exists>c \<in> set (ns_input_channels ns). ic_port c = rc_input t \<and> ic_requirement c = Required
        \<and> (\<exists>n p. ic_kind c = StreamQueue n p))"
    by (rule find_case_iff) (rule find)
  have dependency: "(case find (\<lambda>d. od_output d = rc_output t) (ns_output_dependencies ns) of
        Some d \<Rightarrow> rc_input t \<in> set (od_inputs d) | None \<Rightarrow> False) \<longleftrightarrow>
      (\<exists>d \<in> set (ns_output_dependencies ns). od_output d = rc_output t \<and> rc_input t \<in> set (od_inputs d))"
    by (rule find_case_iff) (rule find)
  have streams: "(\<exists>i \<in> set (ns_inputs ns). \<exists>out \<in> set (ns_outputs ns). \<exists>s u.
        pd_id i = rc_input t \<and> pd_id out = rc_output t \<and> runtime_port S i = Some s \<and> runtime_port S out = Some u
        \<and> rp_kind s = RuntimeStream \<and> rp_kind u = RuntimeStream
        \<and> rp_payload s = rp_payload u \<and> rp_clock s \<noteq> rp_clock u) \<longleftrightarrow>
      (\<exists>i \<in> set (ns_inputs ns). \<exists>out \<in> set (ns_outputs ns). \<exists>sample a b.
        pd_id i = rc_input t \<and> pd_id out = rc_output t \<and> stream_port S i sample a \<and> stream_port S out sample b
        \<and> a \<noteq> b)"
    (is "?runtime \<longleftrightarrow> ?streams")
  proof
    assume ?runtime
    then show ?streams using runtime_port_stream[of S] by (metis runtime_port_facts.select_convs(2,3))
  next
    assume ?streams
    then show ?runtime using runtime_port_stream[of S] by (metis runtime_port_facts.select_convs(2,3))
  qed
  have "validate_rate_contract S ns pairs t = Inr pairs' \<longleftrightarrow>
      rc_input t \<noteq> 0 \<and> rc_output t \<noteq> 0 \<and> (rc_output t, rc_input t) \<notin> pairs
      \<and> ?runtime
      \<and> (\<exists>c \<in> set (ns_input_channels ns). ic_port c = rc_input t \<and> ic_requirement c = Required
          \<and> (\<exists>n p. ic_kind c = StreamQueue n p))
      \<and> (\<exists>d \<in> set (ns_output_dependencies ns). od_output d = rc_output t \<and> rc_input t \<in> set (od_inputs d))
      \<and> pairs' = insert (rc_output t, rc_input t) pairs"
    unfolding validate_rate_contract_def channel dependency by (auto simp: find)
  then show ?thesis unfolding streams rate_ok_def by blast
qed

lemma validate_cross_clock_iff:
  assumes "tables_distinct ns" and "\<forall>t \<in> set (ns_rate_transitions ns). rate_ok S ns t"
    and "pairs = (\<lambda>t. (rc_output t, rc_input t)) ` set (ns_rate_transitions ns)"
    and d: "d \<in> set (ns_output_dependencies ns)" and out: "out \<in> set (ns_outputs ns)" "pd_id out = od_output d"
    and i: "i \<in> pd_id ` set (ns_inputs ns)" and t: "runtime_port S out = Some t"
  shows "validate_cross_clock S ns pairs d t i = Inr () \<longleftrightarrow>
    (\<forall>p \<in> set (ns_inputs ns). \<forall>s. pd_id p = i \<longrightarrow> runtime_port S p = Some s \<longrightarrow> rp_clock s \<noteq> rp_clock t \<longrightarrow>
       (pd_id out, i) \<in> pairs)"
proof -
  note find = tables_distinct_find[OF assms(1)]
  from i obtain p where p: "p \<in> set (ns_inputs ns)" "pd_id p = i" by auto
  then have found: "find (\<lambda>p. pd_id p = i) (ns_inputs ns) = Some p" by (simp add: find)
  then have unique: "q = p" if "q \<in> set (ns_inputs ns)" "pd_id q = i" for q
    using find(1)[of i q] that by simp
  have streams: "rp_kind s = RuntimeStream \<and> rp_kind t = RuntimeStream \<and> rp_payload s = rp_payload t"
    if "(pd_id out, i) \<in> pairs" and s: "runtime_port S p = Some s" for s
  proof -
    from that(1) assms(2,3) obtain r where "rate_ok S ns r" "rc_output r = pd_id out" "rc_input r = i" by auto
    then obtain q o' sample a b where "q \<in> set (ns_inputs ns)" "pd_id q = i" "o' \<in> set (ns_outputs ns)"
      "pd_id o' = pd_id out" "stream_port S q sample a" "stream_port S o' sample b"
      by (auto simp: rate_ok_def)
    moreover from this unique have "q = p" by blast
    moreover have "o' = out" using find(2)[of "pd_id out" o'] find(2)[of "pd_id out" out] out \<open>o' \<in> _\<close> \<open>pd_id o' = _\<close>
      by simp
    ultimately show ?thesis using s t by (auto simp: runtime_port_def stream_port_def)
  qed
  have "(\<forall>q \<in> set (ns_inputs ns). \<forall>s. pd_id q = i \<longrightarrow> runtime_port S q = Some s \<longrightarrow> rp_clock s \<noteq> rp_clock t \<longrightarrow>
      (pd_id out, i) \<in> pairs) \<longleftrightarrow>
    (\<forall>s. runtime_port S p = Some s \<longrightarrow> rp_clock s \<noteq> rp_clock t \<longrightarrow> (pd_id out, i) \<in> pairs)"
    using p unique by blast
  moreover have "validate_cross_clock S ns pairs d t i = Inr () \<longleftrightarrow>
    (\<forall>s. runtime_port S p = Some s \<longrightarrow> rp_clock s \<noteq> rp_clock t \<longrightarrow> (pd_id out, i) \<in> pairs)"
  proof (cases "runtime_port S p")
    case (Some s)
    with streams[of s] out show ?thesis by (auto simp: validate_cross_clock_def found)
  qed (simp add: validate_cross_clock_def found)
  ultimately show ?thesis by simp
qed

lemma validate_rate_dependency_iff:
  assumes tables: "tables_distinct ns" and rates: "\<forall>t \<in> set (ns_rate_transitions ns). rate_ok S ns t"
    and pairs: "pairs = (\<lambda>t. (rc_output t, rc_input t)) ` set (ns_rate_transitions ns)"
    and d: "d \<in> set (ns_output_dependencies ns)" and inputs: "set (od_inputs d) \<subseteq> pd_id ` set (ns_inputs ns)"
  shows "validate_rate_dependency S ns pairs d = Inr () \<longleftrightarrow>
    (\<forall>out \<in> set (ns_outputs ns). \<forall>i \<in> set (ns_inputs ns). \<forall>s t. pd_id out = od_output d \<longrightarrow>
       pd_id i \<in> set (od_inputs d) \<longrightarrow> runtime_port S i = Some s \<longrightarrow> runtime_port S out = Some t \<longrightarrow>
       rp_clock s \<noteq> rp_clock t \<longrightarrow> (pd_id out, pd_id i) \<in> pairs)"
proof -
  note find = tables_distinct_find[OF tables]
  have "od_output d \<in> set (map pd_id (ns_outputs ns))"
    using tables d unfolding tables_distinct_def by (metis image_eqI list.set_map)
  then obtain out where out: "out \<in> set (ns_outputs ns)" "pd_id out = od_output d" by auto
  then have found: "find (\<lambda>p. pd_id p = od_output d) (ns_outputs ns) = Some out" by (simp add: find)
  have unique: "q = out" if "q \<in> set (ns_outputs ns)" "pd_id q = od_output d" for q
    using find(2)[of "od_output d" q] found that by simp
  have outs: "(\<forall>q \<in> set (ns_outputs ns). pd_id q = od_output d \<longrightarrow> P q) \<longleftrightarrow> P out" for P
    using unique out by blast
  let ?crossing = "\<lambda>q. \<forall>i \<in> set (ns_inputs ns). \<forall>s t. pd_id i \<in> set (od_inputs d) \<longrightarrow> runtime_port S i = Some s \<longrightarrow>
    runtime_port S q = Some t \<longrightarrow> rp_clock s \<noteq> rp_clock t \<longrightarrow> (pd_id q, pd_id i) \<in> pairs"
  have "validate_rate_dependency S ns pairs d = Inr () \<longleftrightarrow> ?crossing out"
  proof (cases "runtime_port S out")
    case None
    then show ?thesis by (simp add: validate_rate_dependency_def found)
  next
    case (Some t)
    note cross = validate_cross_clock_iff[OF tables rates pairs d out _ Some]
    have "validate_rate_dependency S ns pairs d = Inr () \<longleftrightarrow>
      (\<forall>i \<in> set (od_inputs d). validate_cross_clock S ns pairs d t i = Inr ())"
      by (simp add: validate_rate_dependency_def found Some)
    also have "\<dots> \<longleftrightarrow> (\<forall>i \<in> set (od_inputs d). \<forall>p \<in> set (ns_inputs ns). \<forall>s. pd_id p = i \<longrightarrow>
        runtime_port S p = Some s \<longrightarrow> rp_clock s \<noteq> rp_clock t \<longrightarrow> (pd_id out, i) \<in> pairs)"
      using inputs by (intro ball_cong refl cross) blast
    finally show ?thesis by (simp only: Some option.inject) blast
  qed
  also have "?crossing out \<longleftrightarrow> (\<forall>q \<in> set (ns_outputs ns). pd_id q = od_output d \<longrightarrow> ?crossing q)"
    by (rule outs[symmetric])
  also have "\<dots> \<longleftrightarrow> (\<forall>out \<in> set (ns_outputs ns). \<forall>i \<in> set (ns_inputs ns). \<forall>s t. pd_id out = od_output d \<longrightarrow>
       pd_id i \<in> set (od_inputs d) \<longrightarrow> runtime_port S i = Some s \<longrightarrow> runtime_port S out = Some t \<longrightarrow>
       rp_clock s \<noteq> rp_clock t \<longrightarrow> (pd_id out, pd_id i) \<in> pairs)"
    by blast
  finally show ?thesis .
qed

lemma validate_rate_transition_contracts_iff:
  assumes tables: "tables_distinct ns"
    and inputs: "\<forall>d \<in> set (ns_output_dependencies ns). set (od_inputs d) \<subseteq> pd_id ` set (ns_inputs ns)"
  shows "validate_rate_transition_contracts S ns = Inr () \<longleftrightarrow>
    (\<forall>t \<in> set (ns_rate_transitions ns). rate_ok S ns t)
    \<and> distinct (map (\<lambda>t. (rc_output t, rc_input t)) (ns_rate_transitions ns)) \<and> crossings_declared S ns"
proof -
  let ?pair = "\<lambda>t. (rc_output t, rc_input t)"
  have scan: "try_fold (validate_rate_contract S ns) {} (ns_rate_transitions ns) = Inr pairs \<longleftrightarrow>
    (\<forall>t \<in> set (ns_rate_transitions ns). rate_ok S ns t) \<and> distinct (map ?pair (ns_rate_transitions ns))
    \<and> pairs = ?pair ` set (ns_rate_transitions ns)" for pairs
    using set_scan_Inr[where step = "validate_rate_contract S ns" and good = "rate_ok S ns" and key = ?pair
        and seen = "{}" and xs = "ns_rate_transitions ns" and seen' = pairs,
        OF validate_rate_contract_Inr[OF tables]] by auto
  show ?thesis
  proof (cases "\<forall>t \<in> set (ns_rate_transitions ns). rate_ok S ns t")
    case True
    note step = validate_rate_dependency_iff[OF tables True refl _ inputs[rule_format]]
    have "try_each (validate_rate_dependency S ns (?pair ` set (ns_rate_transitions ns))) (ns_output_dependencies ns) = Inr ()
      \<longleftrightarrow> crossings_declared S ns"
      unfolding try_each_Inr crossings_declared_def by (intro ball_cong refl) (simp only: step)
    with True show ?thesis
      by (auto simp: validate_rate_transition_contracts_def scan simp del: try_each_Inr)
  qed (auto simp: validate_rate_transition_contracts_def scan simp del: try_each_Inr)
qed

lemma validate_state_contract_iff:
  assumes "tables_distinct ns"
  shows "validate_state_contract l S clocks ns st = Inr () \<longleftrightarrow> state_ok l S clocks ns st"
proof -
  note find = tables_distinct_find[OF assms]
  have feedthrough: "(case find (\<lambda>d. od_output d = sc_current_output st) (ns_output_dependencies ns) of
        Some d \<Rightarrow> od_inputs d = [] | None \<Rightarrow> False) \<longleftrightarrow>
      (\<exists>d \<in> set (ns_output_dependencies ns). od_output d = sc_current_output st \<and> od_inputs d = [])"
    by (rule find_case_iff) (rule find)
  have initial: "map_option pc_value_type (find (\<lambda>p. pc_id p = sc_initial_parameter st) (ns_parameters ns))
      = Some v \<longleftrightarrow> (\<exists>p \<in> set (ns_parameters ns). pc_id p = sc_initial_parameter st \<and> pc_value_type p = v)" for v
    by (auto simp: find)
  have path: "Option.bind (find (\<lambda>p. pd_id p = k) ps) f = Some v \<longleftrightarrow>
      (\<exists>p \<in> set ps. pd_id p = k \<and> f p = Some v)"
    if "\<And>p. find (\<lambda>p. pd_id p = k) ps = Some p \<longleftrightarrow> p \<in> set ps \<and> pd_id p = k"
    for k ps v and f :: "port_definition \<Rightarrow> graph_type_id option"
    by (auto simp: that bind_eq_Some_conv)
  show ?thesis
    unfolding validate_state_contract_def state_ok_def Let_def feedthrough initial
      path[OF find(1)] path[OF find(2)]
    by (auto simp: unat_eq_zero not_less)
qed

lemma validate_node_schema_iff:
  assumes "\<forall>d \<in> set (ns_output_dependencies ns). sorted (od_inputs d)" and "sorted (map pc_id (ns_parameters ns))"
  shows "validate_node_schema l S clocks ns = Inr () \<longleftrightarrow> node_schema_wf l S clocks ns"
proof -
  let ?ports = "(\<forall>p \<in> set (ns_inputs ns @ ns_outputs ns). contract_port_ok S p)
     \<and> distinct (map pd_id (ns_inputs ns @ ns_outputs ns)) \<and> distinct (map pd_name (ns_inputs ns @ ns_outputs ns))"
  let ?channels = "list_all2 (channel_ok l S) (ns_inputs ns) (ns_input_channels ns)"
  let ?parameters = "(\<forall>p \<in> set (ns_parameters ns). parameter_contract_ok S p)
     \<and> distinct (map pc_id (ns_parameters ns)) \<and> distinct (map pc_name (ns_parameters ns))"
  let ?dependencies = "list_all2 (dependency_ok ns) (ns_outputs ns) (ns_output_dependencies ns)"
  have ports: "(\<exists>st. try_fold (validate_contract_port S ns) ({}, {}) (ns_inputs ns @ ns_outputs ns) = Inr st) \<longleftrightarrow> ?ports"
    unfolding validate_contract_ports by simp
  have channels: "(length (ns_input_channels ns) = length (ns_inputs ns)
      \<and> try_each (validate_input_channel l S ns) (zip (ns_inputs ns) (ns_input_channels ns)) = Inr ()) \<longleftrightarrow> ?channels"
    by (auto simp: list_all2_iff validate_input_channel_iff)
  have parameters: "(\<exists>st. try_fold (validate_parameter_contract S ns) ({}, None) (ns_parameters ns) = Inr st) \<longleftrightarrow> ?parameters"
    using contract_parameter_scan.scan_ok_iff[OF assms(2)] assms(2) by (simp add: is_ok_iff canonical_table_def)
  have dependencies: "(length (ns_output_dependencies ns) = length (ns_outputs ns)
      \<and> try_each (validate_output_dependency ns) (zip (ns_outputs ns) (ns_output_dependencies ns)) = Inr ()) \<longleftrightarrow> ?dependencies"
    using assms(1) validate_output_dependency_iff by (fastforce simp: list_all2_iff dest: set_zip_rightD)
  have tables: "tables_distinct ns" if ?ports ?channels ?parameters ?dependencies
    using that by (auto simp: tables_distinct_def list_all2_conv_all_nth channel_ok_def dependency_ok_def
        intro!: nth_equalityI)
  have inputs: "\<forall>d \<in> set (ns_output_dependencies ns). set (od_inputs d) \<subseteq> pd_id ` set (ns_inputs ns)" if ?dependencies
  proof
    fix d
    assume "d \<in> set (ns_output_dependencies ns)"
    with that obtain p where "dependency_ok ns p d" by (auto simp: list_all2_conv_all_nth in_set_conv_nth)
    then show "set (od_inputs d) \<subseteq> pd_id ` set (ns_inputs ns)" by (simp add: dependency_ok_def)
  qed
  have "validate_node_schema l S clocks ns = Inr () \<longleftrightarrow>
     valid_stable_name (nk_name (ns_kind ns)) \<and> nk_version (ns_kind ns) \<noteq> 0 \<and> ns_allowed_domains ns \<noteq> 0
     \<and> ?ports \<and> ?channels \<and> ?parameters \<and> ?dependencies
     \<and> validate_rate_transition_contracts S ns = Inr ()
     \<and> (\<forall>st. ns_state ns = Some st \<longrightarrow> validate_state_contract l S clocks ns st = Inr ())"
    unfolding ports[symmetric] channels[symmetric] parameters[symmetric] dependencies[symmetric]
      validate_node_schema_def domain_is_empty_def
    by (auto simp: ex_unit split: option.splits simp del: try_fold.simps try_fold_append try_each_Inr)
  also have "\<dots> \<longleftrightarrow> node_schema_wf l S clocks ns"
    unfolding node_schema_wf_def
    using validate_rate_transition_contracts_iff[OF tables inputs, of S] validate_state_contract_iff[OF tables]
    by blast
  finally show ?thesis .
qed

lemma validate_analysis_limits_iff: "validate_analysis_limits l = Inr () \<longleftrightarrow> analysis_limits_ok l"
  by (auto simp: validate_analysis_limits_def analysis_limits_ok_def word_gt_0)

lemma canonical_node_schema_sorted:
  "\<forall>d \<in> set (ns_output_dependencies (canonical_node_schema ns)). sorted (od_inputs d)"
  "sorted (map pc_id (ns_parameters (canonical_node_schema ns)))"
  "schema_key (canonical_node_schema ns) = schema_key ns"
  by (auto simp: canonical_node_schema_def schema_key_def)

lemma canonical_registry_sorted: "sorted (map schema_key (nr_schemas (canonical_registry l D schemas)))"
  by (simp add: canonical_registry_def comp_def canonical_node_schema_sorted)

lemma validate_registry_iff:
  assumes "N = canonical_registry l D schemas"
  shows "validate_registry N = Inr () \<longleftrightarrow> canonical_table schema_key (nr_schemas N)
    \<and> (\<forall>ns \<in> set (nr_schemas N). node_schema_wf (nr_limits N) (nr_context_schema N) (nr_context_clocks N) ns)"
proof -
  have "validate_registry N = Inr () \<longleftrightarrow>
    (\<exists>st. try_fold (validate_registry_step (nr_limits N) (nr_context_schema N) (nr_context_clocks N)) None (nr_schemas N) = Inr st)"
    by (simp add: validate_registry_def)
  also have "\<dots> \<longleftrightarrow> (\<forall>ns \<in> set (nr_schemas N).
      validate_node_schema (nr_limits N) (nr_context_schema N) (nr_context_clocks N) ns = Inr ())
    \<and> canonical_table schema_key (nr_schemas N)"
    using canonical_registry_sorted[of l D schemas] by (intro registry_scan.scan_ok_iff) (simp add: assms)
  also have "(\<forall>ns \<in> set (nr_schemas N).
      validate_node_schema (nr_limits N) (nr_context_schema N) (nr_context_clocks N) ns = Inr ()) \<longleftrightarrow>
    (\<forall>ns \<in> set (nr_schemas N). node_schema_wf (nr_limits N) (nr_context_schema N) (nr_context_clocks N) ns)"
    by (intro ball_cong refl validate_node_schema_iff)
      (auto simp: assms canonical_registry_def canonical_node_schema_sorted)
  finally show ?thesis by blast
qed

lemma try_new_registry_Inr:
  "try_new_registry l D schemas = Inr N \<longleftrightarrow> N = canonical_registry l D schemas \<and> registry_wf N"
proof -
  let ?N = "canonical_registry l D schemas"
  have "nr_limits ?N = l" "length (nr_schemas ?N) = length schemas" by (simp_all add: canonical_registry_def)
  then show ?thesis
    unfolding try_new_registry_def registry_wf_def Let_def
    using validate_registry_iff[of ?N l D schemas] by (auto simp: validate_analysis_limits_iff ex_unit not_less)
qed

lemma registry_schema_iff:
  assumes "registry_wf N"
  shows "registry_schema N k = Some ns \<longleftrightarrow> ns \<in> set (nr_schemas N) \<and> ns_kind ns = k"
proof -
  have "kind_key a = kind_key b \<longleftrightarrow> a = b" for a b
    by (auto simp: kind_key_def)
  with lookup_by_key_iff[of schema_key "nr_schemas N" "kind_key k" ns] assms show ?thesis
    by (simp add: registry_schema_def registry_wf_def schema_key_def)
qed

text \<open>The order in which schemas are registered is irrelevant.\<close>

lemma canonical_registry_permutation:
  assumes "registry_wf (canonical_registry l D schemas)" and "mset schemas' = mset schemas"
  shows "canonical_registry l D schemas' = canonical_registry l D schemas"
proof -
  have "map schema_key (nr_schemas (canonical_registry l D schemas)) = map schema_key (sort_key schema_key schemas)"
    by (simp add: canonical_registry_def comp_def canonical_node_schema_sorted)
  with assms(1) have "canonical_table schema_key (sort_key schema_key schemas)"
    by (simp only: registry_wf_def canonical_table_def)
  from sort_key_permutation[OF assms(2) this] show ?thesis by (simp add: canonical_registry_def)
qed

lemma domain_set_contains:
  "domain_contains (domain_set h s r) HostExact \<longleftrightarrow> h"
  "domain_contains (domain_set h s r) (Service d) \<longleftrightarrow> s"
  "domain_contains (domain_set h s r) (Realtime d) \<longleftrightarrow> r"
  by (cases h; cases s; cases r;
    simp add: domain_contains_def domain_set_def host_bit_def service_bit_def realtime_bit_def)+

section \<open>A concrete registry\<close>

text \<open>The two kinds of the example document, a pure feedthrough and a unit delay: a boolean
  state that is read before it is written.\<close>

definition plain_schema ::
  "string \<Rightarrow> port_definition list \<Rightarrow> port_definition list \<Rightarrow> output_dependency list \<Rightarrow> node_schema" where
  "plain_schema name inputs outputs dependencies =
     \<lparr>ns_kind = \<lparr>nk_name = str name, nk_version = 1\<rparr>, ns_allowed_domains = domain_set True True True,
      ns_inputs = inputs,
      ns_input_channels = map (\<lambda>p. \<lparr>ic_port = pd_id p, ic_requirement = Required, ic_kind = Synchronous\<rparr>) inputs,
      ns_outputs = outputs, ns_parameters = [], ns_output_dependencies = dependencies,
      ns_rate_transitions = [], ns_state = None\<rparr>"

definition example_port :: "u32 \<Rightarrow> string \<Rightarrow> port_definition" where
  "example_port i name = \<lparr>pd_id = i, pd_name = str name, pd_value_type = 1\<rparr>"

definition buffer_schema :: node_schema where
  "buffer_schema = plain_schema ''buffer'' [example_port 1 ''in''] [example_port 2 ''out'']
     [\<lparr>od_output = 2, od_inputs = [1]\<rparr>]"

definition delay_schema :: node_schema where
  "delay_schema = (plain_schema ''delay'' [example_port 1 ''in''] [example_port 2 ''out'']
     [\<lparr>od_output = 2, od_inputs = []\<rparr>])
     \<lparr>ns_parameters := [\<lparr>pc_id = 1, pc_name = str ''initial'', pc_value_type = 1\<rparr>],
      ns_state := Some \<lparr>sc_clock = 1, sc_value_type = 1, sc_initial_parameter = 1, sc_next_input = 1,
        sc_current_output = 2, sc_declared_storage_bytes = 8\<rparr>\<rparr>"

definition sink_schema :: node_schema where
  "sink_schema = plain_schema ''sink'' [example_port 1 ''in''] [] []"

definition source_schema :: node_schema where
  "source_schema = (plain_schema ''source'' [] [example_port 1 ''out''] [\<lparr>od_output = 1, od_inputs = []\<rparr>])
     \<lparr>ns_parameters := [\<lparr>pc_id = 1, pc_name = str ''pair'', pc_value_type = 2\<rparr>]\<rparr>"

definition example_schemas :: "node_schema list" where
  "example_schemas = [buffer_schema, delay_schema, sink_schema, source_schema]"

definition example_registry :: "'q node_registry" where
  "example_registry = \<lparr>nr_limits = interactive_analysis, nr_context_schema = pair_schema,
     nr_context_clocks = example_clocks, nr_schemas = example_schemas\<rparr>"

lemmas evaluate_schemas = example_schemas_def buffer_schema_def delay_schema_def sink_schema_def
  source_schema_def plain_schema_def example_port_def

lemma example_schema_keys:
  "map schema_key example_schemas =
     [(str ''buffer'', 1), (str ''delay'', 1), (str ''sink'', 1), (str ''source'', 1)]"
  by (simp add: evaluate_schemas schema_key_def kind_key_def)

lemma example_schemas_table: "canonical_table schema_key example_schemas"
  unfolding canonical_table_def example_schema_keys by code_simp

lemma interactive_analysis_ok: "analysis_limits_ok interactive_analysis"
  by (simp add: analysis_limits_ok_def interactive_analysis_def)

lemma example_schema_parts:
  "valid_stable_name (str ''buffer'')" "valid_stable_name (str ''delay'')" "valid_stable_name (str ''sink'')"
  "valid_stable_name (str ''source'')" "valid_stable_name (str ''in'')" "valid_stable_name (str ''out'')"
  "valid_stable_name (str ''initial'')" "valid_stable_name (str ''pair'')"
  "str ''in'' \<noteq> str ''out''" "domain_set True True True \<noteq> 0"
  by (simp_all add: evaluate_names domain_set_def host_bit_def service_bit_def realtime_bit_def)

lemmas evaluate_schema_wf = node_schema_wf_def plain_schema_def example_port_def contract_port_ok_def
  parameter_contract_ok_def channel_ok_def dependency_ok_def crossings_declared_def runtime_port_def
  state_path_value_type_def example_schema_parts

lemma example_schemas_wf:
  "\<forall>ns \<in> set example_schemas. node_schema_wf interactive_analysis (pair_schema :: 'q graph_schema) example_clocks ns"
proof -
  let ?wf = "node_schema_wf interactive_analysis (pair_schema :: 'q graph_schema) example_clocks"
  have "?wf buffer_schema" by (simp add: buffer_schema_def evaluate_schema_wf)
  moreover have "?wf sink_schema" by (simp add: sink_schema_def evaluate_schema_wf)
  moreover have "?wf source_schema" by (simp add: source_schema_def evaluate_schema_wf)
  moreover have "?wf delay_schema"
    by (simp add: delay_schema_def evaluate_schema_wf state_ok_def example_clocks_def interactive_analysis_def)
  ultimately show ?thesis by (simp add: example_schemas_def)
qed

lemma example_registry_wf: "registry_wf example_registry"
  by (simp add: registry_wf_def example_registry_def interactive_analysis_ok example_schemas_table
      example_schemas_wf) (simp add: example_schemas_def interactive_analysis_def)

lemma example_registry_canonical:
  "canonical_registry interactive_analysis (example_document :: 'q graph_document) example_schemas = example_registry"
proof -
  have "canonical_node_schema ns = ns" if "ns \<in> set example_schemas" for ns
    using that by (auto simp: evaluate_schemas canonical_node_schema_def)
  then have "map canonical_node_schema example_schemas = example_schemas" by (simp add: map_idI)
  then show ?thesis
    by (simp add: canonical_registry_def canonical_table_sort_key[OF example_schemas_table] example_registry_def
        example_document_def)
qed

lemma example_registry_accepted:
  "try_new_registry interactive_analysis (example_document :: 'q graph_document) example_schemas = Inr example_registry"
  by (simp add: try_new_registry_Inr example_registry_wf example_registry_canonical)

section \<open>Properties of the registry\<close>

text \<open>
  C21. \<^verbatim>\<open>GraphNodeRegistry::try_new\<close> accepts exactly the well-formed registries
  and returns them in canonical order: kinds form a table, each schema's ports, parameters and dependencies
  are distinct and resolve in the context schema, every input has exactly one channel whose kind fits
  its type and whose capacity is within policy, every feedthrough that crosses clocks is a declared
  stream-to-stream transition, and a state output has no feedthrough.
\<close>

theorem registry_try_new_decides:
  "try_new_registry l D schemas = Inr N \<longleftrightarrow> N = canonical_registry l D schemas \<and> registry_wf N"
  by (rule try_new_registry_Inr)

text \<open>
  Every registered schema is found by its kind, whatever order the schemas were
  supplied in, and nothing else is found.
\<close>

theorem registry_lookup:
  assumes "try_new_registry l D schemas = Inr N" and "mset schemas' = mset schemas"
  shows "try_new_registry l D schemas' = Inr N
    \<and> (registry_schema N k = Some ns \<longleftrightarrow> ns_kind ns = k \<and> ns \<in> canonical_node_schema ` set schemas)"
proof -
  from assms(1) have N: "N = canonical_registry l D schemas" "registry_wf N"
    unfolding try_new_registry_Inr by blast+
  then have "canonical_registry l D schemas' = N" using canonical_registry_permutation[OF _ assms(2)] by simp
  moreover have "set (nr_schemas N) = canonical_node_schema ` set schemas" by (simp add: N(1) canonical_registry_def)
  ultimately show ?thesis using N(2) registry_schema_iff[OF N(2), of k ns] by (auto simp: try_new_registry_Inr)
qed

theorem registry_lookup_witness:
  "try_new_registry interactive_analysis (example_document :: rat graph_document) (rev example_schemas) = Inr example_registry
   \<and> registry_schema (example_registry :: rat node_registry) (ns_kind delay_schema) = Some (canonical_node_schema delay_schema)"
  using registry_lookup[OF example_registry_accepted, of "rev example_schemas" "ns_kind delay_schema"
      "canonical_node_schema delay_schema"]
  by (simp add: canonical_node_schema_def example_schemas_def)

end
