(* ===== verification/Dependency_Cycle.thy ===== *)
theory Dependency_Cycle
  imports Node_Registry
begin

text \<open>
  Combinational cycles: \<^verbatim>\<open>dependency_graph\<close> and \<^verbatim>\<open>find_cycle\<close> of
  \<^verbatim>\<open>crates/alumina-interface-core/src/graph/analysis.rs\<close>. The search keeps an explicit
  stack of vertices with the index of the next edge, a colour and a parent link per vertex. It is
  total; it is proved to return a closed chain of links exactly when there is one within the witness
  bound, and nothing else.
\<close>

section \<open>Data\<close>

datatype dependency_link =
    WireLink graph_wire_id
  | Feedthrough graph_node_id graph_port_id graph_port_id

text \<open>The derived \<^verbatim>\<open>Ord\<close>: wires first, then by fields in order.\<close>

fun link_key :: "dependency_link \<Rightarrow> nat \<times> u32 \<times> u32 \<times> u32" where
  "link_key (WireLink w) = (0, w, 0, 0)"
| "link_key (Feedthrough n i out) = (1, n, i, out)"

lemma link_key_inject: "link_key a = link_key b \<longleftrightarrow> a = b"
  by (cases a; cases b) auto

instantiation dependency_link :: linorder
begin

definition less_eq_dependency_link :: "dependency_link \<Rightarrow> dependency_link \<Rightarrow> bool" where
  "less_eq_dependency_link a b \<longleftrightarrow> link_key a \<le> link_key b"

definition less_dependency_link :: "dependency_link \<Rightarrow> dependency_link \<Rightarrow> bool" where
  "less_dependency_link a b \<longleftrightarrow> link_key a < link_key b"

instance
  by standard (auto simp: less_eq_dependency_link_def less_dependency_link_def link_key_inject[symmetric])

end

record dependency_edge =
  de_target :: nat
  de_link :: dependency_link

type_synonym combinational_cycle = "dependency_link list"

text \<open>\<^verbatim>\<open>GraphAnalysisError\<close>, with \<open>AE_IndexPanic\<close> for an out-of-range index or a missing map key.\<close>

datatype analysis_error =
    AE_SemanticContextMismatch
  | AE_UnresolvedNode graph_node_id node_kind
  | AE_NodeShape graph_node_id string
  | AE_DomainNotAllowed graph_node_id execution_domain
  | AE_Storage storage_error
  | AE_StateStorageTooSmall graph_node_id u32 u64
  | AE_RequiredInputUnconnected wire_endpoint
  | AE_CrossDomainSynchronous graph_wire_id execution_domain execution_domain
  | AE_ChannelStorageMismatch wire_endpoint
  | AE_RateTransitionRootMismatch graph_node_id graph_port_id graph_port_id graph_clock_id graph_clock_id
  | AE_RateTransitionPatternTooLarge graph_node_id graph_port_id graph_port_id
  | AE_RateTransitionQueueTooSmall graph_node_id graph_port_id u32 u64
  | AE_ClockResolution graph_clock_id
  | AE_LimitExceeded string
  | AE_InvalidCycleWitness
  | AE_CombinationalCycle combinational_cycle
  | AE_IndexPanic

type_synonym adjacency = "dependency_edge list list"

type_synonym parent_links = "(nat \<times> dependency_link) option list"

section \<open>The search\<close>

text \<open>
  The loop that walks the parent links from the source of a closing edge back to its target.
  \<open>links\<close> grows with every step and is bounded, so the walk ends whatever the links are.
\<close>

function witness_links ::
  "parent_links \<Rightarrow> nat \<Rightarrow> nat \<Rightarrow> nat \<Rightarrow> dependency_link list \<Rightarrow> analysis_error + dependency_link list" where
  "witness_links parents target maximum cursor links =
     (if cursor = target then Inr links
      else if length parents \<le> cursor then Inl AE_IndexPanic
      else case parents ! cursor of
        None \<Rightarrow> Inl AE_InvalidCycleWitness
      | Some (parent, link) \<Rightarrow>
          if length (links @ [link]) \<ge> maximum then Inl (AE_LimitExceeded ''cycle witness link count'')
          else witness_links parents target maximum parent (links @ [link]))"
  by pat_completeness auto
termination
  by (relation "measure (\<lambda>(parents, target, maximum, cursor, links). maximum - length links)") auto

declare witness_links.simps [simp del]

definition close_cycle ::
  "parent_links \<Rightarrow> nat \<Rightarrow> nat \<Rightarrow> dependency_edge \<Rightarrow> analysis_error + combinational_cycle" where
  "close_cycle parents maximum source edge =
     and_then (witness_links parents (de_target edge) maximum source []) (\<lambda>links.
     let links = rev links @ [de_link edge] in
     if length links > maximum then Inl (AE_LimitExceeded ''cycle witness link count'') else Inr links)"

text \<open>
  The loop over the stack, top first. It returns the cycle, or none with the colours and parents
  it leaves. White vertices only decrease, and every other iteration consumes an edge or pops.
\<close>

definition unvisited :: "nat list \<Rightarrow> nat" where
  "unvisited states = length (filter (\<lambda>s. s = 0) states)"

lemma unvisited_update:
  "unvisited (states[i := Suc n]) \<le> unvisited states"
  "i < length states \<Longrightarrow> states ! i = 0 \<Longrightarrow> unvisited (states[i := Suc n]) < unvisited states"
proof (induction states arbitrary: i)
  case (Cons s states)
  { case 1 then show ?case using Cons.IH(1) by (cases i) (auto simp: unvisited_def) }
  { case 2 then show ?case using Cons.IH(2) by (cases i) (auto simp: unvisited_def) }
qed (simp_all add: unvisited_def)

definition stack_work :: "adjacency \<Rightarrow> (nat \<times> nat) list \<Rightarrow> nat" where
  "stack_work adjacency stack = (\<Sum>(v, n) \<leftarrow> stack. Suc (length (adjacency ! v) - n))"

type_synonym search_result = "analysis_error + combinational_cycle option \<times> nat list \<times> parent_links"

function search_stack ::
  "adjacency \<Rightarrow> nat \<Rightarrow> nat list \<Rightarrow> parent_links \<Rightarrow> (nat \<times> nat) list \<Rightarrow> search_result" where
  "search_stack adjacency maximum states parents [] = Inr (None, states, parents)"
| "search_stack adjacency maximum states parents ((vertex, next_edge) # stack) =
     (if length adjacency \<le> vertex \<or> length states \<le> vertex then Inl AE_IndexPanic
      else if next_edge = length (adjacency ! vertex)
      then search_stack adjacency maximum (states[vertex := 2]) parents stack
      else if length (adjacency ! vertex) < next_edge then Inl AE_IndexPanic
      else let edge = adjacency ! vertex ! next_edge; stack = (vertex, Suc next_edge) # stack in
        if length states \<le> de_target edge \<or> length parents \<le> de_target edge then Inl AE_IndexPanic
        else if states ! de_target edge = 0
        then search_stack adjacency maximum (states[de_target edge := 1])
          (parents[de_target edge := Some (vertex, de_link edge)]) ((de_target edge, 0) # stack)
        else if states ! de_target edge = 1
        then and_then (close_cycle parents maximum vertex edge) (\<lambda>cycle. Inr (Some cycle, states, parents))
        else search_stack adjacency maximum states parents stack)"
  by pat_completeness auto
termination
  by (relation "measures
      [\<lambda>(adjacency, maximum, states, parents, stack). unvisited states,
       \<lambda>(adjacency, maximum, states, parents, stack). stack_work adjacency stack]")
    (auto simp: stack_work_def not_less le_imp_less_or_eq numeral_2_eq_2 dest: le_neq_implies_less
      intro!: unvisited_update(2) simp: le_less[symmetric] unvisited_update(1))

declare search_stack.simps(2) [simp del]

fun search_from ::
  "adjacency \<Rightarrow> nat \<Rightarrow> nat list \<Rightarrow> parent_links \<Rightarrow> nat list \<Rightarrow> analysis_error + combinational_cycle option" where
  "search_from adjacency maximum states parents [] = Inr None"
| "search_from adjacency maximum states parents (start # starts) =
     (if length states \<le> start then Inl AE_IndexPanic
      else if states ! start \<noteq> 0 then search_from adjacency maximum states parents starts
      else and_then (search_stack adjacency maximum (states[start := 1]) parents [(start, 0)])
        (\<lambda>(cycle, states, parents). case cycle of
            Some c \<Rightarrow> Inr (Some c)
          | None \<Rightarrow> search_from adjacency maximum states parents starts))"

definition find_cycle :: "adjacency \<Rightarrow> nat \<Rightarrow> analysis_error + combinational_cycle option" where
  "find_cycle adjacency maximum =
     search_from adjacency maximum (replicate (length adjacency) 0) (replicate (length adjacency) None)
       [0..<length adjacency]"

section \<open>Chains of dependencies\<close>

inductive dependency_chain :: "adjacency \<Rightarrow> nat \<Rightarrow> dependency_link list \<Rightarrow> nat \<Rightarrow> bool" for A :: adjacency where
  stop: "dependency_chain A v [] v"
| step: "v < length A \<Longrightarrow> e \<in> set (A ! v) \<Longrightarrow> dependency_chain A (de_target e) links w \<Longrightarrow>
    dependency_chain A v (de_link e # links) w"

inductive_cases dependency_chain_ConsE: "dependency_chain A v (l # links) w"

lemma chain_append: "dependency_chain A u a v \<Longrightarrow> dependency_chain A v b w \<Longrightarrow> dependency_chain A u (a @ b) w"
  by (induction rule: dependency_chain.induct) (auto intro: dependency_chain.intros)

lemma chain_snoc:
  "dependency_chain A u a v \<Longrightarrow> v < length A \<Longrightarrow> e \<in> set (A ! v) \<Longrightarrow> dependency_chain A u (a @ [de_link e]) (de_target e)"
  by (erule chain_append) (auto intro: dependency_chain.intros)

text \<open>A closed chain and the relation between vertices it lives in.\<close>

definition cyclic_links :: "adjacency \<Rightarrow> dependency_link list \<Rightarrow> bool" where
  "cyclic_links A links \<longleftrightarrow> links \<noteq> [] \<and> (\<exists>v. dependency_chain A v links v)"

definition dependency_succs :: "adjacency \<Rightarrow> nat \<Rightarrow> nat set" where
  "dependency_succs A v = de_target ` set (A ! v)"

definition dependency_relation :: "adjacency \<Rightarrow> (nat \<times> nat) set" where
  "dependency_relation A = {(v, w). v < length A \<and> w \<in> dependency_succs A v}"

lemma chain_trancl: "dependency_chain A v links w \<Longrightarrow> links \<noteq> [] \<Longrightarrow> (v, w) \<in> (dependency_relation A)\<^sup>+"
proof (induction rule: dependency_chain.induct)
  case (step v e links w)
  then have edge: "(v, de_target e) \<in> dependency_relation A"
    by (simp add: dependency_relation_def dependency_succs_def)
  show ?case
  proof (cases "links = []")
    case True
    with step(3) have "w = de_target e" by (auto elim: dependency_chain.cases)
    with edge show ?thesis by auto
  next
    case False
    with step edge show ?thesis by (meson trancl_into_trancl2)
  qed
qed simp

lemma trancl_chain: "(v, w) \<in> (dependency_relation A)\<^sup>+ \<Longrightarrow> \<exists>links. links \<noteq> [] \<and> dependency_chain A v links w"
proof (induction rule: trancl_induct)
  case (base w)
  then obtain e where "v < length A" "e \<in> set (A ! v)" "de_target e = w"
    by (auto simp: dependency_relation_def dependency_succs_def)
  then have "dependency_chain A v [de_link e] w" by (auto intro: dependency_chain.intros)
  then show ?case by (intro exI[of _ "[de_link e]"]) simp
next
  case (step u w)
  then obtain links e where "dependency_chain A v links u" "u < length A" "e \<in> set (A ! u)" "de_target e = w"
    by (auto simp: dependency_relation_def dependency_succs_def)
  then have "dependency_chain A v (links @ [de_link e]) w" using chain_snoc[of A v links u e] by simp
  then show ?case by (intro exI[of _ "links @ [de_link e]"]) simp
qed

lemma cyclic_iff: "(\<exists>links. cyclic_links A links) \<longleftrightarrow> \<not> acyclic (dependency_relation A)"
  unfolding cyclic_links_def acyclic_def using chain_trancl[of A] trancl_chain[of _ _ A] by metis

section \<open>The invariant of the stack\<close>

text \<open>
  \<open>frames_ok A states parents upper stack\<close>: every vertex on the stack is grey; the edges a
  frame has consumed lead to black vertices, except the one to the frame above it, which the parent
  link of that frame records.
\<close>

fun frames_ok :: "adjacency \<Rightarrow> nat list \<Rightarrow> parent_links \<Rightarrow> nat option \<Rightarrow> (nat \<times> nat) list \<Rightarrow> bool" where
  "frames_ok A states parents upper [] = True"
| "frames_ok A states parents upper ((v, n) # stack) =
     (v < length A \<and> states ! v = 1 \<and> n \<le> length (A ! v)
      \<and> (\<forall>k < n. states ! de_target (A ! v ! k) = 2 \<or> upper = Some (de_target (A ! v ! k)))
      \<and> (\<forall>w. upper = Some w \<longrightarrow> (\<exists>e \<in> set (A ! v). de_target e = w \<and> parents ! w = Some (v, de_link e)))
      \<and> frames_ok A states parents (Some v) stack)"

definition targets_in_range :: "adjacency \<Rightarrow> bool" where
  "targets_in_range A \<longleftrightarrow> (\<forall>v < length A. \<forall>e \<in> set (A ! v). de_target e < length A)"

definition search_invariant :: "adjacency \<Rightarrow> nat list \<Rightarrow> parent_links \<Rightarrow> (nat \<times> nat) list \<Rightarrow> bool" where
  "search_invariant A states parents stack \<longleftrightarrow>
     targets_in_range A \<and> length states = length A \<and> length parents = length A
     \<and> distinct (map fst stack) \<and> {v. v < length A \<and> states ! v = 1} = set (map fst stack)
     \<and> (\<forall>v < length A. states ! v \<le> 2)
     \<and> frames_ok A states parents None stack \<and> black_ranked (dependency_succs A) states"

lemma frames_ok_mono:
  assumes "frames_ok A states parents upper stack"
    and "\<forall>v \<in> set (map fst stack). states' ! v = 1"
    and "\<forall>v. states ! v = 2 \<longrightarrow> states' ! v = 2"
    and "\<forall>v \<in> set (map fst stack) \<union> set_option upper. parents' ! v = parents ! v"
  shows "frames_ok A states' parents' upper stack"
  using assms by (induction A states parents upper stack rule: frames_ok.induct) auto

lemma frames_ok_top_done:
  "frames_ok A states parents (Some v) stack \<Longrightarrow> states ! v = 2 \<Longrightarrow> frames_ok A states parents None stack"
  by (cases stack) (auto, metis)

text \<open>Walking the parent links from the top of the stack reaches every vertex on it.\<close>

lemma witness_on_stack:
  assumes "frames_ok A states parents upper ((v, n) # stack)" and "x \<in> set (map fst ((v, n) # stack))"
    and "distinct (map fst ((v, n) # stack))" and "length A \<le> length parents"
  shows "\<exists>found. dependency_chain A x (rev found) v \<and> length found \<le> length stack
    \<and> witness_links parents x maximum v links =
       (if found \<noteq> [] \<and> maximum \<le> length links + length found
        then Inl (AE_LimitExceeded ''cycle witness link count'') else Inr (links @ found))"
  using assms
proof (induction stack arbitrary: v n upper links)
  case Nil
  then show ?case by (intro exI[of _ "[]"]) (auto intro: dependency_chain.intros simp: witness_links.simps)
next
  case (Cons frame stack)
  obtain u m where frame: "frame = (u, m)" by (cases frame)
  show ?case
  proof (cases "x = v")
    case True
    then show ?thesis by (intro exI[of _ "[]"]) (auto intro: dependency_chain.intros simp: witness_links.simps)
  next
    case False
    from Cons.prems(1) frame obtain e where e: "e \<in> set (A ! u)" "de_target e = v"
      and parent: "parents ! v = Some (u, de_link e)"
      and rest: "frames_ok A states parents (Some v) ((u, m) # stack)" and u: "u < length A" and v: "v < length A"
      by auto
    from Cons.IH[OF rest, of "links @ [de_link e]"] Cons.prems(2-4) False frame obtain found where
      chain: "dependency_chain A x (rev found) u" and len: "length found \<le> length stack"
      and walk: "witness_links parents x maximum u (links @ [de_link e]) =
        (if found \<noteq> [] \<and> maximum \<le> length (links @ [de_link e]) + length found
         then Inl (AE_LimitExceeded ''cycle witness link count'') else Inr ((links @ [de_link e]) @ found))"
      by auto
    have "dependency_chain A x (rev (de_link e # found)) v"
      using chain_snoc[OF chain u e(1)] e(2) by simp
    moreover have "witness_links parents x maximum v links =
        (if maximum \<le> length links + length (de_link e # found)
         then Inl (AE_LimitExceeded ''cycle witness link count'') else Inr (links @ de_link e # found))"
      using False parent v Cons.prems(4) walk by (subst witness_links.simps) auto
    ultimately show ?thesis
      using len frame by (intro exI[of _ "de_link e # found"]) auto
  qed
qed

lemma close_cycle_on_stack:
  assumes "frames_ok A states parents None ((v, n) # stack)" and "de_target e \<in> set (map fst ((v, n) # stack))"
    and "distinct (map fst ((v, n) # stack))" and "length A \<le> length parents" and "e \<in> set (A ! v)"
  shows "\<exists>links. cyclic_links A links \<and> length links \<le> Suc (length stack)
    \<and> close_cycle parents maximum v e =
        (if length links \<le> maximum then Inr links else Inl (AE_LimitExceeded ''cycle witness link count''))"
proof -
  from witness_on_stack[OF assms(1-4), of maximum "[]"] obtain found where
    chain: "dependency_chain A (de_target e) (rev found) v" and len: "length found \<le> length stack"
    and walk: "witness_links parents (de_target e) maximum v [] =
       (if found \<noteq> [] \<and> maximum \<le> length found
        then Inl (AE_LimitExceeded ''cycle witness link count'') else Inr found)"
    by auto
  have "v < length A" using assms(1) by simp
  then have "dependency_chain A (de_target e) (rev found @ [de_link e]) (de_target e)"
    using chain_snoc[OF chain _ assms(5)] by simp
  then have "cyclic_links A (rev found @ [de_link e])" by (auto simp: cyclic_links_def)
  then show ?thesis
    using len walk by (intro exI[of _ "rev found @ [de_link e]"]) (auto simp: close_cycle_def)
qed

section \<open>The search returns exactly the cycles\<close>

text \<open>What a run of the stack loop is allowed to return, from a state that satisfies the invariant.\<close>

definition search_outcome :: "adjacency \<Rightarrow> nat \<Rightarrow> nat list \<Rightarrow> (nat \<times> nat) list \<Rightarrow> search_result \<Rightarrow> bool" where
  "search_outcome A maximum states stack r \<longleftrightarrow> (case r of
     Inl e \<Rightarrow> e = AE_LimitExceeded ''cycle witness link count''
       \<and> (\<exists>links. cyclic_links A links \<and> maximum < length links \<and> length links \<le> length A)
   | Inr (Some links, _, _) \<Rightarrow> cyclic_links A links \<and> length links \<le> maximum
   | Inr (None, states', parents') \<Rightarrow> search_invariant A states' parents' []
       \<and> black states \<union> set (map fst stack) \<subseteq> black states')"

lemma search_invariantD:
  assumes "search_invariant A states parents stack"
  shows "targets_in_range A" "length states = length A" "length parents = length A"
    "distinct (map fst stack)" "\<And>u. u \<in> set (map fst stack) \<longleftrightarrow> u < length A \<and> states ! u = 1"
    "\<And>u. u < length A \<Longrightarrow> states ! u \<le> 2" "frames_ok A states parents None stack"
    "black_ranked (dependency_succs A) states"
  using assms unfolding search_invariant_def by blast+

lemma search_invariant_top:
  assumes "search_invariant A states parents ((v, n) # stack)"
  shows "v < length A" "states ! v = 1" "n \<le> length (A ! v)"
    "v \<notin> set (map fst stack)" "\<forall>k < n. states ! de_target (A ! v ! k) = 2"
    "frames_ok A states parents (Some v) stack" "length ((v, n) # stack) \<le> length A"
proof -
  note inv = search_invariantD[OF assms]
  have "set (map fst ((v, n) # stack)) \<subseteq> {..<length A}" using inv(5) by blast
  from card_mono[OF _ this] distinct_card[OF inv(4)] show "length ((v, n) # stack) \<le> length A" by simp
  show "v < length A" "states ! v = 1" "n \<le> length (A ! v)" "v \<notin> set (map fst stack)"
    "\<forall>k < n. states ! de_target (A ! v ! k) = 2" "frames_ok A states parents (Some v) stack"
    using inv(4,7) by simp_all
qed

lemma target_in_range: "targets_in_range A \<Longrightarrow> v < length A \<Longrightarrow> k < length (A ! v) \<Longrightarrow> de_target (A ! v ! k) < length A"
  by (simp add: targets_in_range_def)

lemma search_invariant_pop:
  assumes "search_invariant A states parents ((v, length (A ! v)) # stack)"
  shows "search_invariant A (states[v := 2]) parents stack"
proof -
  note inv = search_invariantD[OF assms] and top = search_invariant_top[OF assms]
  have grey: "u \<in> set (map fst stack) \<longleftrightarrow> u < length A \<and> states[v := 2] ! u = 1" for u
    using inv(2) inv(5)[of u] top(1,4) by (cases "u = v") auto
  have "frames_ok A (states[v := 2]) parents (Some v) stack"
    using grey top(1) inv(2) by (intro frames_ok_mono[OF top(6)]) (auto simp: nth_list_update)
  then have frames: "frames_ok A (states[v := 2]) parents None stack"
    using top(1) inv(2) by (intro frames_ok_top_done[of A _ _ v]) simp_all
  have "w \<in> black states" if "w \<in> dependency_succs A v" for w
  proof -
    from that obtain k where k: "k < length (A ! v)" "w = de_target (A ! v ! k)"
      by (auto simp: dependency_succs_def in_set_conv_nth)
    with top(5) target_in_range[OF inv(1) top(1) k(1)] inv(2) show ?thesis by (simp add: black_def)
  qed
  then have "black_ranked (dependency_succs A) (states[v := 2])"
    using top(1,2) inv(2) by (intro black_ranked_finish[OF inv(8)]) (auto simp: dependency_succs_def)
  moreover have "\<forall>u < length A. states[v := 2] ! u \<le> 2"
    using inv(2) inv(6) top(1) by (simp add: nth_list_update)
  ultimately show ?thesis
    using inv(1-4) grey frames unfolding search_invariant_def by auto
qed

lemma search_invariant_push:
  assumes "search_invariant A states parents ((v, n) # stack)" and n: "n < length (A ! v)"
    and w: "w = de_target (A ! v ! n)" and white: "states ! w = 0"
  shows "search_invariant A (states[w := 1]) (parents[w := Some (v, de_link (A ! v ! n))]) ((w, 0) # (v, Suc n) # stack)"
proof -
  note inv = search_invariantD[OF assms(1)] and top = search_invariant_top[OF assms(1)]
  let ?states = "states[w := 1]" and ?parents = "parents[w := Some (v, de_link (A ! v ! n))]"
  have range: "w < length A" using target_in_range[OF inv(1) top(1) n] w by simp
  have fresh: "w \<notin> set (map fst ((v, n) # stack))" using inv(5)[of w] white by simp
  have grey: "u \<in> set (map fst ((w, 0) # (v, Suc n) # stack)) \<longleftrightarrow> u < length A \<and> ?states ! u = 1" for u
    using inv(2) inv(5)[of u] range by (cases "u = w") auto
  have rest: "frames_ok A ?states ?parents (Some v) stack"
  proof (rule frames_ok_mono[OF top(6)])
    show "\<forall>u \<in> set (map fst stack). ?states ! u = 1"
    proof
      fix u
      assume "u \<in> set (map fst stack)"
      then have "u \<in> set (map fst ((w, 0) # (v, Suc n) # stack))" by simp
      then show "?states ! u = 1" unfolding grey by blast
    qed
    show "\<forall>u. states ! u = 2 \<longrightarrow> ?states ! u = 2" using white by (metis nth_list_update_neq zero_neq_numeral)
    show "\<forall>u \<in> set (map fst stack) \<union> set_option (Some v). ?parents ! u = parents ! u"
    proof
      fix u
      assume "u \<in> set (map fst stack) \<union> set_option (Some v)"
      then have "u \<noteq> w" using fresh by auto
      then show "?parents ! u = parents ! u" by simp
    qed
  qed
  have "?states ! de_target (A ! v ! k) = 2" if "k < n" for k
    using that top(5) white by (metis nth_list_update_neq zero_neq_numeral)
  moreover have "A ! v ! n \<in> set (A ! v)" using n by simp
  ultimately have "frames_ok A ?states ?parents (Some w) ((v, Suc n) # stack)"
    using rest top(1,2) n w fresh inv(2,3) range by (auto simp: less_Suc_eq)
  then have frames: "frames_ok A ?states ?parents None ((w, 0) # (v, Suc n) # stack)"
    using range inv(2) by simp
  have "black ?states = black states" using white by (simp add: black_update_grey)
  then have "black_ranked (dependency_succs A) ?states" using inv(8) by (simp add: black_ranked_def)
  moreover have "\<forall>u < length A. ?states ! u \<le> 2" using inv(2) inv(6) range by (simp add: nth_list_update)
  ultimately show ?thesis
    using inv(1-4) fresh grey frames unfolding search_invariant_def by auto
qed

lemma search_invariant_advance:
  assumes "search_invariant A states parents ((v, n) # stack)" and "n < length (A ! v)"
    and "states ! de_target (A ! v ! n) = 2"
  shows "search_invariant A states parents ((v, Suc n) # stack)"
  using assms search_invariant_top[OF assms(1)] unfolding search_invariant_def by (auto simp: less_Suc_eq)

lemma search_outcome_weaken:
  assumes r: "search_outcome A maximum states' stack' r"
    and sub: "black states \<union> set (map fst stack) \<subseteq> black states' \<union> set (map fst stack')"
  shows "search_outcome A maximum states stack r"
proof (cases r)
  case (Inl e)
  with r show ?thesis by (simp add: search_outcome_def)
next
  case (Inr x)
  obtain c st pa where x: "x = (c, st, pa)" by (cases x)
  show ?thesis
  proof (cases c)
    case None
    with r Inr x have "search_invariant A st pa []" "black states' \<union> set (map fst stack') \<subseteq> black st"
      by (simp_all add: search_outcome_def)
    with order_trans[OF sub] None Inr x show ?thesis by (simp add: search_outcome_def)
  next
    case (Some links)
    with r Inr x show ?thesis by (simp add: search_outcome_def)
  qed
qed

lemma search_stack_outcome:
  "search_invariant A states parents stack \<Longrightarrow>
     search_outcome A maximum states stack (search_stack A maximum states parents stack)"
proof (induction A maximum states parents stack rule: search_stack.induct)
  case (1 A maximum states parents)
  then show ?case by (simp add: search_outcome_def)
next
  case (2 A maximum states parents v n stack)
  note inv = search_invariantD[OF 2(4)] and top = search_invariant_top[OF 2(4)]
  have range: "\<not> (length A \<le> v \<or> length states \<le> v)" using top(1) inv(2) by simp
  show ?case
  proof (cases "n = length (A ! v)")
    case True
    have "search_invariant A (states[v := 2]) parents stack"
      using 2(4) unfolding True by (rule search_invariant_pop)
    from 2(1)[OF range True this]
    have "search_outcome A maximum states ((v, n) # stack) (search_stack A maximum (states[v := 2]) parents stack)"
      by (rule search_outcome_weaken) (use top(1) inv(2) in \<open>auto simp: black_update_black\<close>)
    moreover have "search_stack A maximum states parents ((v, n) # stack) = search_stack A maximum (states[v := 2]) parents stack"
      using range True by (subst search_stack.simps(2)) simp
    ultimately show ?thesis by simp
  next
    case False
    with top(3) have n: "n < length (A ! v)" "\<not> length (A ! v) < n" by simp_all
    let ?e = "A ! v ! n"
    have target: "de_target ?e < length A" by (rule target_in_range[OF inv(1) top(1) n(1)])
    then have in_range: "\<not> (length states \<le> de_target ?e \<or> length parents \<le> de_target ?e)" using inv(2,3) by simp
    consider (white) "states ! de_target ?e = 0" | (grey) "states ! de_target ?e = 1" | (black) "states ! de_target ?e = 2"
      using inv(6)[OF target] by linarith
    then show ?thesis
    proof cases
      case white
      let ?states = "states[de_target ?e := 1]" and ?parents = "parents[de_target ?e := Some (v, de_link ?e)]"
      let ?stack = "(de_target ?e, 0) # (v, Suc n) # stack"
      from 2(2)[OF range False n(2) refl refl in_range white search_invariant_push[OF 2(4) n(1) refl white]]
      have "search_outcome A maximum states ((v, n) # stack) (search_stack A maximum ?states ?parents ?stack)"
        by (rule search_outcome_weaken) (use white in \<open>auto simp: black_update_grey\<close>)
      moreover have "search_stack A maximum states parents ((v, n) # stack) = search_stack A maximum ?states ?parents ?stack"
        using range False n in_range white by (subst search_stack.simps(2)) (simp add: Let_def)
      ultimately show ?thesis by simp
    next
      case grey
      have "de_target ?e \<in> set (map fst ((v, n) # stack))" using inv(5)[of "de_target ?e"] grey target by blast
      moreover have "?e \<in> set (A ! v)" "length A \<le> length parents" using n(1) inv(3) by simp_all
      ultimately obtain links where
        links: "cyclic_links A links" "length links \<le> Suc (length stack)" and
        close: "close_cycle parents maximum v ?e =
           (if length links \<le> maximum then Inr links else Inl (AE_LimitExceeded ''cycle witness link count''))"
        using close_cycle_on_stack[OF inv(7) _ inv(4)] by blast
      have "search_stack A maximum states parents ((v, n) # stack) =
        and_then (close_cycle parents maximum v ?e) (\<lambda>cycle. Inr (Some cycle, states, parents))"
        using range False n in_range grey by (subst search_stack.simps(2)) (simp add: Let_def)
      moreover have "length links \<le> length A" using links(2) top(7) by simp
      ultimately show ?thesis
        using links(1) by (cases "length links \<le> maximum") (auto simp: close search_outcome_def not_le)
    next
      case black
      from 2(3)[OF range False n(2) refl refl in_range _ _ search_invariant_advance[OF 2(4) n(1) black]] black
      have "search_outcome A maximum states ((v, Suc n) # stack)
          (search_stack A maximum states parents ((v, Suc n) # stack))" by simp
      then have "search_outcome A maximum states ((v, n) # stack)
          (search_stack A maximum states parents ((v, Suc n) # stack))"
        by (rule search_outcome_weaken) simp
      moreover have "search_stack A maximum states parents ((v, n) # stack) =
          search_stack A maximum states parents ((v, Suc n) # stack)"
        using range False n in_range black by (subst search_stack.simps(2)) (simp add: Let_def)
      ultimately show ?thesis by simp
    qed
  qed
qed

lemma search_invariant_start:
  assumes "search_invariant A states parents []" and "start < length A" and "states ! start = 0"
  shows "search_invariant A (states[start := 1]) parents [(start, 0)]"
proof -
  note inv = search_invariantD[OF assms(1)]
  have "black (states[start := 1]) = black states" using assms(3) by (simp add: black_update_grey)
  then have "black_ranked (dependency_succs A) (states[start := 1])" using inv(8) by (simp add: black_ranked_def)
  moreover have "u < length A \<and> states[start := 1] ! u = 1 \<longleftrightarrow> u = start" for u
    using inv(2) inv(5)[of u] assms(2) by (cases "u = start") auto
  moreover have "\<forall>u < length A. states[start := 1] ! u \<le> 2"
    using inv(2) inv(6) assms(2) by (simp add: nth_list_update)
  ultimately show ?thesis using inv(1-3) assms(2) unfolding search_invariant_def by auto
qed

lemma search_from_outcome:
  assumes "search_invariant A states parents []" and "set starts \<subseteq> {..<length A}"
    and "{..<length A} \<subseteq> black states \<union> set starts"
  shows "case search_from A maximum states parents starts of
      Inl e \<Rightarrow> e = AE_LimitExceeded ''cycle witness link count''
        \<and> (\<exists>links. cyclic_links A links \<and> maximum < length links \<and> length links \<le> length A)
    | Inr (Some links) \<Rightarrow> cyclic_links A links \<and> length links \<le> maximum
    | Inr None \<Rightarrow> \<exists>states'. black_ranked (dependency_succs A) states' \<and> black states' = {..<length A}"
  using assms
proof (induction starts arbitrary: states parents)
  case Nil
  then have "{..<length A} \<subseteq> black states" "length states = length A" "black_ranked (dependency_succs A) states"
    by (auto simp: search_invariant_def)
  then show ?case by (auto simp: black_def intro!: exI[of _ states])
next
  case (Cons start starts)
  note inv = search_invariantD[OF Cons.prems(1)]
  have start: "start < length A" "\<not> length states \<le> start" using Cons.prems(2) inv(2) by auto
  show ?case
  proof (cases "states ! start = 0")
    case False
    have "start \<in> black states"
      using inv(2) inv(5)[of start] inv(6)[OF start(1)] False start by (auto simp: black_def)
    with Cons.IH[OF Cons.prems(1)] Cons.prems(2,3) False start show ?thesis by auto
  next
    case True
    from search_stack_outcome[OF search_invariant_start[OF Cons.prems(1) start(1) True], of maximum]
    have outcome: "search_outcome A maximum (states[start := 1]) [(start, 0)]
        (search_stack A maximum (states[start := 1]) parents [(start, 0)])" .
    show ?thesis
    proof (cases "search_stack A maximum (states[start := 1]) parents [(start, 0)]")
      case (Inl e)
      with outcome start True show ?thesis by (simp add: search_outcome_def)
    next
      case (Inr r)
      obtain c st pa where r: "r = (c, st, pa)" by (cases r)
      show ?thesis
      proof (cases c)
        case (Some links)
        with Inr r outcome start True show ?thesis by (simp add: search_outcome_def)
      next
        case None
        with Inr r outcome have finished: "search_invariant A st pa []" "black (states[start := 1]) \<union> {start} \<subseteq> black st"
          by (simp_all add: search_outcome_def)
        have "black states \<subseteq> black st" using finished(2) True by (simp add: black_update_grey)
        with Cons.IH[OF finished(1)] finished(2) Cons.prems(2,3) Inr r None start True show ?thesis by auto
      qed
    qed
  qed
qed

lemma search_invariant_white:
  "targets_in_range A \<Longrightarrow>
     search_invariant A (replicate (length A) 0) (replicate (length A) None) []"
  by (simp add: search_invariant_def black_ranked_white)

lemma all_black_acyclic:
  assumes "black_ranked (dependency_succs A) states" and "black states = {..<length A}"
  shows "acyclic (dependency_relation A)"
proof -
  from assms obtain rank :: "nat \<Rightarrow> nat" where
    "\<forall>v < length A. \<forall>w \<in> dependency_succs A v. rank w < rank v" by (auto simp: black_ranked_def)
  then have "dependency_relation A \<subseteq> (measure rank)\<inverse>" by (auto simp: dependency_relation_def)
  moreover have "acyclic ((measure rank)\<inverse>)" by (simp add: acyclic_converse wf_acyclic)
  ultimately show ?thesis by (rule acyclic_subset[rotated])
qed

lemma find_cycle_outcome:
  assumes "targets_in_range A"
  shows "find_cycle A maximum = Inl e \<Longrightarrow> e = AE_LimitExceeded ''cycle witness link count''
      \<and> (\<exists>links. cyclic_links A links \<and> maximum < length links \<and> length links \<le> length A)"
    and "find_cycle A maximum = Inr (Some links) \<Longrightarrow> cyclic_links A links \<and> length links \<le> maximum"
    and "find_cycle A maximum = Inr None \<Longrightarrow> acyclic (dependency_relation A)"
  using search_from_outcome[OF search_invariant_white[OF assms], of "[0..<length A]" maximum] all_black_acyclic
  by (auto simp: find_cycle_def atLeast0LessThan)

lemma cycle_found_or_bounded:
  assumes "targets_in_range A" and "cyclic_links A links"
  shows "(\<exists>found. find_cycle A maximum = Inr (Some found))
    \<or> find_cycle A maximum = Inl (AE_LimitExceeded ''cycle witness link count'')"
proof (cases "find_cycle A maximum")
  case (Inl e)
  with find_cycle_outcome(1)[OF assms(1) Inl] show ?thesis by simp
next
  case (Inr c)
  with find_cycle_outcome(3)[OF assms(1), of maximum] assms(2) cyclic_iff[of A] show ?thesis
    by (cases c) auto
qed

section \<open>Concrete graphs\<close>

text \<open>A three-vertex ring with a tail, and the same without the closing edge.\<close>

definition ring :: adjacency where
  "ring = [[\<lparr>de_target = 1, de_link = WireLink 1\<rparr>], [\<lparr>de_target = 2, de_link = WireLink 2\<rparr>],
     [\<lparr>de_target = 1, de_link = Feedthrough 7 1 2\<rparr>]]"

definition open_ring :: adjacency where
  "open_ring = [[\<lparr>de_target = 1, de_link = WireLink 1\<rparr>], [\<lparr>de_target = 2, de_link = WireLink 2\<rparr>], []]"

lemma ring_in_range: "targets_in_range ring" "targets_in_range open_ring"
  by (auto simp: targets_in_range_def ring_def open_ring_def less_Suc_eq nth_Cons')

lemma ring_found: "find_cycle ring 2 = Inr (Some [WireLink 2, Feedthrough 7 1 2])"
  by (simp add: find_cycle_def ring_def search_stack.simps upt_rec close_cycle_def witness_links.simps
      numeral_2_eq_2 Let_def nth_Cons')

lemma ring_cyclic: "cyclic_links ring [WireLink 2, Feedthrough 7 1 2]"
  by (rule find_cycle_outcome(2)[OF ring_in_range(1) ring_found, THEN conjunct1])

section \<open>Properties of the search\<close>

text \<open>
  C6. With a witness bound no smaller than the number of endpoints the search decides
  acyclicity: it never fails, and it returns no cycle exactly when the dependency relation is acyclic.
\<close>

theorem find_cycle_decides:
  assumes "targets_in_range A" and "length A \<le> maximum"
  shows "find_cycle A maximum \<noteq> Inl e
    \<and> (find_cycle A maximum = Inr None \<longleftrightarrow> acyclic (dependency_relation A))"
proof -
  have "find_cycle A maximum \<noteq> Inl e" for e using find_cycle_outcome(1)[OF assms(1), of maximum e] assms(2) by auto
  moreover have "find_cycle A maximum \<noteq> Inr (Some links)" if "acyclic (dependency_relation A)" for links
    using find_cycle_outcome(2)[OF assms(1), of maximum links] cyclic_iff[of A] that by auto
  ultimately show ?thesis
    using find_cycle_outcome(3)[OF assms(1), of maximum]
    by (cases "find_cycle A maximum") (auto, metis option.exhaust)
qed

theorem find_cycle_decides_witness:
  "(find_cycle open_ring 3 = Inr None) = acyclic (dependency_relation open_ring)"
  using find_cycle_decides[OF ring_in_range(2), of 3] by (simp add: open_ring_def)

text \<open>
  Whatever the bound, a reported cycle is real: its links form a closed
  chain of dependencies no longer than the bound, in order. The only error is the bound itself, and only
  for a graph with a cycle longer than the bound. The parent links are never broken and no index is out of
  range.
\<close>

theorem find_cycle_sound:
  assumes "targets_in_range A"
  shows "case find_cycle A maximum of
      Inl e \<Rightarrow> e = AE_LimitExceeded ''cycle witness link count''
        \<and> (\<exists>links. cyclic_links A links \<and> maximum < length links)
    | Inr (Some links) \<Rightarrow> cyclic_links A links \<and> length links \<le> maximum
    | Inr None \<Rightarrow> \<not> (\<exists>links. cyclic_links A links)"
proof (cases "find_cycle A maximum")
  case (Inl e)
  from find_cycle_outcome(1)[OF assms Inl] show ?thesis by (auto simp: Inl)
next
  case (Inr c)
  with find_cycle_outcome(2,3)[OF assms, of maximum] cyclic_iff[of A] show ?thesis by (cases c) auto
qed

theorem find_cycle_sound_witness:
  "cyclic_links ring [WireLink 2, Feedthrough 7 1 2]"
  using find_cycle_sound[OF ring_in_range(1), of 2] by (simp add: ring_found)

text \<open>
  If the graph has a cycle at all, the search ends by reporting one or by
  exceeding the witness bound: it never runs on and never misses it.
\<close>

theorem find_cycle_progress:
  assumes "targets_in_range A" and "cyclic_links A links"
  shows "(\<exists>found. find_cycle A maximum = Inr (Some found) \<and> cyclic_links A found)
    \<or> find_cycle A maximum = Inl (AE_LimitExceeded ''cycle witness link count'')"
  using cycle_found_or_bounded[OF assms, of maximum] find_cycle_outcome(2)[OF assms(1)] by blast

theorem find_cycle_progress_witness:
  "(\<exists>found. find_cycle ring 1 = Inr (Some found) \<and> cyclic_links ring found)
    \<or> find_cycle ring 1 = Inl (AE_LimitExceeded ''cycle witness link count'')"
  by (rule find_cycle_progress[OF ring_in_range(1) ring_cyclic])

end
