(* ===== verification/Dependency_Graph.thy ===== *)
theory Dependency_Graph
  imports Dependency_Cycle
begin

text \<open>
  The dependency graph of \<^verbatim>\<open>crates/alumina-interface-core/src/graph/analysis.rs\<close>:
  \<^verbatim>\<open>dependency_graph\<close> numbers the port endpoints of a document and collects feedthroughs
  and wires as adjacency lists. It is proved to refine the endpoint-level dependencies, so the cycles that
  \<^verbatim>\<open>find_cycle\<close> reports are cycles of the document.
\<close>

section \<open>The dependency graph of a document\<close>

text \<open>
  \<^verbatim>\<open>endpoints\<close> is a \<^verbatim>\<open>BTreeSet\<close>, so enumerating it numbers the endpoints in
  increasing order; \<^verbatim>\<open>endpoint_indices\<close> is the map from an endpoint to its number.
\<close>

definition graph_endpoints :: "'q graph_document \<Rightarrow> wire_endpoint list" where
  "graph_endpoints D = sort (remdups (concat (map (\<lambda>n.
     map (\<lambda>p. WireEndpoint (nd_id n) (pd_id p)) (nd_inputs n @ nd_outputs n)) (gd_nodes D))))"

definition endpoint_indices :: "'q graph_document \<Rightarrow> wire_endpoint \<rightharpoonup> nat" where
  "endpoint_indices D = map_of (zip (graph_endpoints D) [0..<length (graph_endpoints D)])"

definition endpoint_index :: "(wire_endpoint \<rightharpoonup> nat) \<Rightarrow> wire_endpoint \<Rightarrow> analysis_error + nat" where
  "endpoint_index indices e = ok_or AE_IndexPanic (indices e)"

definition add_dependency ::
  "adjacency \<Rightarrow> nat \<Rightarrow> dependency_edge \<Rightarrow> nat \<Rightarrow> nat \<Rightarrow> analysis_error + adjacency \<times> nat" where
  "add_dependency adjacency source edge links maximum =
     and_then (ok_or (AE_LimitExceeded ''dependency link count'') (checked_add_usize links 1)) (\<lambda>links.
     if links > maximum then Inl (AE_LimitExceeded ''dependency link count'')
     else if length adjacency \<le> source then Inl AE_IndexPanic
     else Inr (adjacency[source := adjacency ! source @ [edge]], links))"

definition add_feedthrough ::
  "(wire_endpoint \<rightharpoonup> nat) \<Rightarrow> nat \<Rightarrow> graph_node_id \<Rightarrow> adjacency \<times> nat \<Rightarrow> output_dependency
     \<Rightarrow> analysis_error + adjacency \<times> nat" where
  "add_feedthrough indices maximum node st dependency =
     and_then (endpoint_index indices (WireEndpoint node (od_output dependency))) (\<lambda>target.
     try_fold (\<lambda>(adjacency, links) i.
       and_then (endpoint_index indices (WireEndpoint node i)) (\<lambda>source.
       add_dependency adjacency source
         \<lparr>de_target = target, de_link = Feedthrough node i (od_output dependency)\<rparr> links maximum))
       st (od_inputs dependency))"

definition add_wire ::
  "(wire_endpoint \<rightharpoonup> nat) \<Rightarrow> nat \<Rightarrow> adjacency \<times> nat \<Rightarrow> wire_definition \<Rightarrow> analysis_error + adjacency \<times> nat" where
  "add_wire indices maximum st w = (case st of (adjacency, links) \<Rightarrow>
     and_then (endpoint_index indices (wd_source w)) (\<lambda>source.
     and_then (endpoint_index indices (wd_target w)) (\<lambda>target.
     add_dependency adjacency source \<lparr>de_target = target, de_link = WireLink (wd_id w)\<rparr> links maximum)))"

definition dependency_graph ::
  "'q graph_document \<Rightarrow> node_schema list \<Rightarrow> nat \<Rightarrow> analysis_error + adjacency \<times> nat" where
  "dependency_graph D schemas maximum =
     (let indices = endpoint_indices D in
      and_then (try_fold (\<lambda>st (n, schema).
          try_fold (add_feedthrough indices maximum (nd_id n)) st (ns_output_dependencies schema))
        (replicate (length (graph_endpoints D)) [], 0) (zip (gd_nodes D) schemas)) (\<lambda>st.
      and_then (try_fold (add_wire indices maximum) st (gd_wires D)) (\<lambda>(adjacency, links).
      Inr (map (sort_key (\<lambda>e. (de_target e, de_link e))) adjacency, links))))"

section \<open>What the graph contains\<close>

text \<open>The current-tick dependencies of a document, independent of any numbering: from an input to an
  output of the same node by a declared feedthrough, and from a source to a target by a wire.\<close>

type_synonym tick_dependency = "wire_endpoint \<times> dependency_link \<times> wire_endpoint"

definition feedthroughs :: "graph_node_id \<Rightarrow> output_dependency \<Rightarrow> tick_dependency list" where
  "feedthroughs node d = map (\<lambda>i. (WireEndpoint node i, Feedthrough node i (od_output d),
     WireEndpoint node (od_output d))) (od_inputs d)"

definition tick_dependencies :: "'q graph_document \<Rightarrow> node_schema list \<Rightarrow> tick_dependency list" where
  "tick_dependencies D schemas =
     concat (map (\<lambda>(n, schema). concat (map (feedthroughs (nd_id n)) (ns_output_dependencies schema)))
       (zip (gd_nodes D) schemas))
     @ map (\<lambda>w. (wd_source w, WireLink (wd_id w), wd_target w)) (gd_wires D)"

inductive tick_chain :: "tick_dependency list \<Rightarrow> wire_endpoint \<Rightarrow> dependency_link list \<Rightarrow> wire_endpoint \<Rightarrow> bool"
  for ts :: "tick_dependency list" where
  stop: "tick_chain ts e [] e"
| step: "(e, l, f) \<in> set ts \<Longrightarrow> tick_chain ts f links g \<Longrightarrow> tick_chain ts e (l # links) g"

definition tick_cycle :: "tick_dependency list \<Rightarrow> dependency_link list \<Rightarrow> bool" where
  "tick_cycle ts links \<longleftrightarrow> links \<noteq> [] \<and> (\<exists>e. tick_chain ts e links e)"

text \<open>Every endpoint that a dependency names exists, and every output dependency has its output.\<close>

definition endpoints_known :: "'q graph_document \<Rightarrow> node_schema list \<Rightarrow> bool" where
  "endpoints_known D schemas \<longleftrightarrow>
     (\<forall>(n, schema) \<in> set (zip (gd_nodes D) schemas). \<forall>d \<in> set (ns_output_dependencies schema).
        WireEndpoint (nd_id n) (od_output d) \<in> set (graph_endpoints D)
        \<and> (\<forall>i \<in> set (od_inputs d). WireEndpoint (nd_id n) i \<in> set (graph_endpoints D)))
     \<and> (\<forall>w \<in> set (gd_wires D). wd_source w \<in> set (graph_endpoints D) \<and> wd_target w \<in> set (graph_endpoints D))"

lemma distinct_graph_endpoints: "distinct (graph_endpoints D)"
  by (simp add: graph_endpoints_def)

lemma endpoint_indices_iff:
  "endpoint_indices D e = Some i \<longleftrightarrow> i < length (graph_endpoints D) \<and> graph_endpoints D ! i = e"
proof -
  have "map fst (zip (graph_endpoints D) [0..<length (graph_endpoints D)]) = graph_endpoints D" by simp
  then have "endpoint_indices D e = Some i \<longleftrightarrow> (e, i) \<in> set (zip (graph_endpoints D) [0..<length (graph_endpoints D)])"
    unfolding endpoint_indices_def by (metis distinct_graph_endpoints map_of_eq_Some_iff)
  then show ?thesis by (auto simp: in_set_zip)
qed

lemma endpoint_indices_known: "e \<in> set (graph_endpoints D) \<Longrightarrow> \<exists>i. endpoint_indices D e = Some i"
  unfolding endpoint_indices_iff by (simp add: in_set_conv_nth)

lemma endpoint_indices_inj: "endpoint_indices D e = Some i \<Longrightarrow> endpoint_indices D f = Some i \<Longrightarrow> e = f"
  unfolding endpoint_indices_iff by auto

text \<open>The edge of a dependency, and the loop over all dependencies at once.\<close>

definition indexed_edge :: "(wire_endpoint \<rightharpoonup> nat) \<Rightarrow> tick_dependency \<Rightarrow> dependency_edge" where
  "indexed_edge indices t = \<lparr>de_target = the (indices (snd (snd t))), de_link = fst (snd t)\<rparr>"

definition add_indexed ::
  "(wire_endpoint \<rightharpoonup> nat) \<Rightarrow> nat \<Rightarrow> adjacency \<times> nat \<Rightarrow> tick_dependency \<Rightarrow> analysis_error + adjacency \<times> nat" where
  "add_indexed indices maximum st t =
     add_dependency (fst st) (the (indices (fst t))) (indexed_edge indices t) (snd st) maximum"

lemma try_fold_concat: "try_fold f s (concat xss) = try_fold (try_fold f) s xss"
  by (induction xss arbitrary: s) (simp_all add: try_fold_append)

lemma try_fold_map: "try_fold f s (map g xs) = try_fold (\<lambda>s x. f s (g x)) s xs"
  by (induction xs arbitrary: s) (auto intro: and_then_cong)

lemma add_feedthrough_indexed:
  assumes "indices (WireEndpoint node (od_output d)) = Some target"
    and "\<forall>i \<in> set (od_inputs d). \<exists>k. indices (WireEndpoint node i) = Some k"
  shows "add_feedthrough indices maximum node st d = try_fold (add_indexed indices maximum) st (feedthroughs node d)"
  unfolding add_feedthrough_def feedthroughs_def try_fold_map
  using assms by (auto simp: endpoint_index_def add_indexed_def indexed_edge_def intro!: try_fold_cong split: prod.splits)

lemma dependency_graph_indexed:
  assumes "endpoints_known D schemas"
  shows "dependency_graph D schemas maximum =
    and_then (try_fold (add_indexed (endpoint_indices D) maximum) (replicate (length (graph_endpoints D)) [], 0)
        (tick_dependencies D schemas)) (\<lambda>(adjacency, links).
      Inr (map (sort_key (\<lambda>e. (de_target e, de_link e))) adjacency, links))"
proof -
  let ?indices = "endpoint_indices D"
  have "try_fold (\<lambda>st (n, schema).
          try_fold (add_feedthrough ?indices maximum (nd_id n)) st (ns_output_dependencies schema)) s (zip (gd_nodes D) schemas)
    = try_fold (add_indexed ?indices maximum) s (concat (map (\<lambda>(n, schema).
        concat (map (feedthroughs (nd_id n)) (ns_output_dependencies schema))) (zip (gd_nodes D) schemas)))" for s
    unfolding try_fold_concat try_fold_map
  proof (rule try_fold_cong[OF refl refl])
    fix st ns
    assume ns: "ns \<in> set (zip (gd_nodes D) schemas)"
    obtain n schema where pair: "ns = (n, schema)" by (cases ns)
    have "add_feedthrough ?indices maximum (nd_id n) t d = try_fold (add_indexed ?indices maximum) t (feedthroughs (nd_id n) d)"
      if "d \<in> set (ns_output_dependencies schema)" for t d
    proof -
      from that ns pair assms have "WireEndpoint (nd_id n) (od_output d) \<in> set (graph_endpoints D)"
        "\<forall>i \<in> set (od_inputs d). WireEndpoint (nd_id n) i \<in> set (graph_endpoints D)"
        by (auto simp: endpoints_known_def)
      then show ?thesis using endpoint_indices_known by (metis add_feedthrough_indexed)
    qed
    then show "(case ns of (n, schema) \<Rightarrow>
        try_fold (add_feedthrough ?indices maximum (nd_id n)) st (ns_output_dependencies schema)) =
      try_fold (add_indexed ?indices maximum) st (case ns of (n, schema) \<Rightarrow>
        concat (map (feedthroughs (nd_id n)) (ns_output_dependencies schema)))"
      by (simp add: pair try_fold_concat try_fold_map cong: try_fold_cong)
  qed
  moreover have "try_fold (add_wire ?indices maximum) s (gd_wires D) =
      try_fold (add_indexed ?indices maximum) s (map (\<lambda>w. (wd_source w, WireLink (wd_id w), wd_target w)) (gd_wires D))" for s
    unfolding try_fold_map
  proof (rule try_fold_cong[OF refl refl])
    fix st w
    assume "w \<in> set (gd_wires D)"
    with assms have "wd_source w \<in> set (graph_endpoints D)" "wd_target w \<in> set (graph_endpoints D)"
      by (auto simp: endpoints_known_def)
    then obtain i j where "?indices (wd_source w) = Some i" "?indices (wd_target w) = Some j"
      using endpoint_indices_known by metis
    then show "add_wire ?indices maximum st w =
        add_indexed ?indices maximum st (wd_source w, WireLink (wd_id w), wd_target w)"
      by (cases st) (simp add: add_wire_def endpoint_index_def add_indexed_def indexed_edge_def)
  qed
  ultimately show ?thesis
    by (simp only: dependency_graph_def Let_def tick_dependencies_def try_fold_append)
      (cases "try_fold (add_indexed ?indices maximum) (replicate (length (graph_endpoints D)) [], 0)
        (concat (map (\<lambda>(n, schema). concat (map (feedthroughs (nd_id n)) (ns_output_dependencies schema)))
           (zip (gd_nodes D) schemas)))"; simp del: and_then_Inl and_then_Inr)
qed

section \<open>The indexed graph refines the dependencies\<close>

definition push_edge :: "(wire_endpoint \<rightharpoonup> nat) \<Rightarrow> adjacency \<Rightarrow> tick_dependency \<Rightarrow> adjacency" where
  "push_edge indices A t = A[the (indices (fst t)) := A ! the (indices (fst t)) @ [indexed_edge indices t]]"

lemma add_all_indexed:
  assumes "\<forall>t \<in> set ts. the (indices (fst t)) < length A"
  shows "try_fold (add_indexed indices maximum) (A, n) ts =
    (if ts = [] \<or> n + length ts \<le> min maximum usize_max then Inr (foldl (push_edge indices) A ts, n + length ts)
     else Inl (AE_LimitExceeded ''dependency link count''))"
  using assms
proof (induction ts arbitrary: A n)
  case (Cons t ts)
  show ?case
  proof (cases "Suc n \<le> min maximum usize_max")
    case True
    then have "add_indexed indices maximum (A, n) t = Inr (push_edge indices A t, Suc n)"
      using Cons.prems by (simp add: add_indexed_def add_dependency_def push_edge_def checked_add_usize_def)
    moreover have "length (push_edge indices A t) = length A" by (simp add: push_edge_def)
    ultimately show ?thesis
      using Cons.IH[of "push_edge indices A t" "Suc n"] Cons.prems True
      by (auto simp del: and_then_Inr and_then_Inl)
  next
    case False
    then have "add_indexed indices maximum (A, n) t = Inl (AE_LimitExceeded ''dependency link count'')"
      by (auto simp: add_indexed_def add_dependency_def checked_add_usize_def)
    moreover have "\<not> n + length (t # ts) \<le> min maximum usize_max" using False by simp linarith
    ultimately show ?thesis by simp
  qed
qed simp

lemma length_push_edges [simp]: "length (foldl (push_edge indices) A ts) = length A"
  by (induction ts arbitrary: A) (simp_all add: push_edge_def)

lemma set_push_edges:
  assumes "u < length A"
  shows "set (foldl (push_edge indices) A ts ! u) =
    set (A ! u) \<union> indexed_edge indices ` {t \<in> set ts. the (indices (fst t)) = u}"
  using assms
proof (induction ts arbitrary: A)
  case (Cons t ts)
  have "set (push_edge indices A t ! u) =
      set (A ! u) \<union> indexed_edge indices ` {s \<in> {t}. the (indices (fst s)) = u}"
    using Cons.prems by (cases "the (indices (fst t)) = u") (auto simp: push_edge_def)
  moreover have "length (push_edge indices A t) = length A" by (simp add: push_edge_def)
  ultimately show ?case using Cons.IH[of "push_edge indices A t"] Cons.prems by auto
qed simp

lemma dependencies_known:
  assumes "endpoints_known D schemas" and "(e, l, f) \<in> set (tick_dependencies D schemas)"
  shows "e \<in> set (graph_endpoints D) \<and> f \<in> set (graph_endpoints D)"
  using assms by (fastforce simp: tick_dependencies_def feedthroughs_def endpoints_known_def)

text \<open>What \<^verbatim>\<open>dependency_graph\<close> returns: as many links as dependencies, and at each
  endpoint exactly the edges of the dependencies that leave it.\<close>

lemma dependency_graph_result:
  assumes known: "endpoints_known D schemas"
  shows "dependency_graph D schemas maximum = Inr (A, n) \<Longrightarrow>
      n = length (tick_dependencies D schemas) \<and> n \<le> maximum \<and> length A = length (graph_endpoints D)
      \<and> (\<forall>u < length A. set (A ! u) = indexed_edge (endpoint_indices D) `
           {t \<in> set (tick_dependencies D schemas). endpoint_indices D (fst t) = Some u})"
    and "dependency_graph D schemas maximum = Inl e \<Longrightarrow>
      e = AE_LimitExceeded ''dependency link count''
      \<and> min maximum usize_max < length (tick_dependencies D schemas)"
proof -
  let ?ts = "tick_dependencies D schemas" and ?indices = "endpoint_indices D"
  let ?white = "replicate (length (graph_endpoints D)) ([] :: dependency_edge list)"
  have some: "\<exists>k. ?indices (fst t) = Some k" if "t \<in> set ?ts" for t
    using that dependencies_known[OF known, of "fst t" "fst (snd t)" "snd (snd t)"] endpoint_indices_known[of "fst t" D]
    by simp
  have sources: "\<forall>t \<in> set ?ts. the (?indices (fst t)) < length ?white"
  proof
    fix t
    assume "t \<in> set ?ts"
    from some[OF this] obtain k where "?indices (fst t) = Some k" ..
    then show "the (?indices (fst t)) < length ?white"
      using endpoint_indices_iff[of D "fst t" k] by simp
  qed
  note fold = add_all_indexed[OF sources, of maximum 0]
  have eq: "{t \<in> set ?ts. the (?indices (fst t)) = u} = {t \<in> set ?ts. ?indices (fst t) = Some u}" for u
    using some by force
  {
    assume "dependency_graph D schemas maximum = Inr (A, n)"
    then show "n = length ?ts \<and> n \<le> maximum \<and> length A = length (graph_endpoints D)
      \<and> (\<forall>u < length A. set (A ! u) = indexed_edge ?indices ` {t \<in> set ?ts. ?indices (fst t) = Some u})"
      unfolding dependency_graph_indexed[OF known] fold
      by (auto simp: set_push_edges eq split: if_splits)
  next
    assume "dependency_graph D schemas maximum = Inl e"
    then show "e = AE_LimitExceeded ''dependency link count'' \<and> min maximum usize_max < length ?ts"
      unfolding dependency_graph_indexed[OF known] fold by (auto split: if_splits)
  }
qed

lemma dependency_graph_in_range:
  assumes "endpoints_known D schemas" and "dependency_graph D schemas maximum = Inr (A, n)"
  shows "targets_in_range A"
proof -
  have "de_target e < length A" if v: "v < length A" and e: "e \<in> set (A ! v)" for v e
  proof -
    from dependency_graph_result(1)[OF assms] v e obtain s l f where
      "e = indexed_edge (endpoint_indices D) (s, l, f)" "(s, l, f) \<in> set (tick_dependencies D schemas)"
      and len: "length A = length (graph_endpoints D)" by auto
    moreover from this dependencies_known[OF assms(1)] obtain k where "endpoint_indices D f = Some k"
      using endpoint_indices_known by metis
    ultimately show ?thesis by (simp add: indexed_edge_def endpoint_indices_iff)
  qed
  then show ?thesis by (simp add: targets_in_range_def)
qed

lemma chain_iff_tick_chain:
  assumes known: "endpoints_known D schemas" and graph: "dependency_graph D schemas maximum = Inr (A, n)"
  shows "endpoint_indices D e = Some i \<Longrightarrow> endpoint_indices D g = Some j \<Longrightarrow>
    dependency_chain A i links j \<longleftrightarrow> tick_chain (tick_dependencies D schemas) e links g"
proof (induction links arbitrary: e i)
  case Nil
  have "dependency_chain A i [] j \<longleftrightarrow> i = j"
    by (auto elim: dependency_chain.cases intro: dependency_chain.intros)
  moreover have "tick_chain (tick_dependencies D schemas) e [] g \<longleftrightarrow> e = g"
    by (auto elim: tick_chain.cases intro: tick_chain.intros)
  ultimately show ?case using Nil endpoint_indices_inj by auto
next
  case (Cons l links)
  let ?ts = "tick_dependencies D schemas" and ?indices = "endpoint_indices D"
  note result = dependency_graph_result(1)[OF known graph]
  have i: "i < length A" using Cons.prems(1) result by (simp add: endpoint_indices_iff)
  have edge: "(\<exists>x \<in> set (A ! i). de_link x = l \<and> de_target x = k) \<longleftrightarrow> (\<exists>f. (e, l, f) \<in> set ?ts \<and> ?indices f = Some k)" for k
  proof
    assume "\<exists>x \<in> set (A ! i). de_link x = l \<and> de_target x = k"
    then obtain s f where t: "(s, l, f) \<in> set ?ts" "?indices s = Some i" "the (?indices f) = k"
      using result i by (auto simp: indexed_edge_def)
    moreover have "s = e" using t(2) Cons.prems(1) by (rule endpoint_indices_inj)
    moreover obtain m where "?indices f = Some m"
      using dependencies_known[OF known t(1)] endpoint_indices_known by metis
    ultimately show "\<exists>f. (e, l, f) \<in> set ?ts \<and> ?indices f = Some k" by auto
  next
    assume "\<exists>f. (e, l, f) \<in> set ?ts \<and> ?indices f = Some k"
    then show "\<exists>x \<in> set (A ! i). de_link x = l \<and> de_target x = k"
      using result i Cons.prems(1) by (force simp: indexed_edge_def)
  qed
  have "dependency_chain A i (l # links) j \<longleftrightarrow>
    (\<exists>k. (\<exists>x \<in> set (A ! i). de_link x = l \<and> de_target x = k) \<and> dependency_chain A k links j)"
    using i by (auto elim!: dependency_chain_ConsE intro: dependency_chain.intros)
  also have "\<dots> \<longleftrightarrow> (\<exists>k f. (e, l, f) \<in> set ?ts \<and> ?indices f = Some k \<and> dependency_chain A k links j)"
    using edge by blast
  also have "\<dots> \<longleftrightarrow> (\<exists>f. (e, l, f) \<in> set ?ts \<and> tick_chain ?ts f links g)"
    using Cons.IH[OF _ Cons.prems(2)] dependencies_known[OF known] endpoint_indices_known by metis
  also have "\<dots> \<longleftrightarrow> tick_chain ?ts e (l # links) g"
    by (auto elim: tick_chain.cases intro: tick_chain.intros)
  finally show ?case .
qed

lemma cyclic_iff_tick_cycle:
  assumes known: "endpoints_known D schemas" and graph: "dependency_graph D schemas maximum = Inr (A, n)"
  shows "cyclic_links A links \<longleftrightarrow> tick_cycle (tick_dependencies D schemas) links"
proof -
  let ?ts = "tick_dependencies D schemas" and ?indices = "endpoint_indices D"
  note iff = chain_iff_tick_chain[OF known graph]
  have "(\<exists>v. dependency_chain A v links v) \<longleftrightarrow> (\<exists>e. tick_chain ?ts e links e)" if "links \<noteq> []"
  proof
    assume "\<exists>v. dependency_chain A v links v"
    then obtain v where v: "dependency_chain A v links v" ..
    with that have "v < length A" by (auto elim: dependency_chain.cases)
    then have "?indices (graph_endpoints D ! v) = Some v"
      using dependency_graph_result(1)[OF known graph] by (simp add: endpoint_indices_iff)
    with iff v show "\<exists>e. tick_chain ?ts e links e" by blast
  next
    assume "\<exists>e. tick_chain ?ts e links e"
    then obtain e where e: "tick_chain ?ts e links e" ..
    with that obtain l f where "(e, l, f) \<in> set ?ts" by (auto elim: tick_chain.cases)
    with dependencies_known[OF known] endpoint_indices_known obtain i where "?indices e = Some i" by metis
    with iff e show "\<exists>v. dependency_chain A v links v" by blast
  qed
  then show ?thesis by (auto simp: cyclic_links_def tick_cycle_def)
qed

section \<open>Properties of the dependency graph\<close>

text \<open>
  C8. The numbered adjacency lists refine the endpoint-level dependencies
  of the document: one link per dependency, all targets in range, and a list of links is a closed chain of
  the graph exactly when it is a current-tick cycle of the document. The construction fails only when
  there are more dependencies than the limit.
\<close>

theorem dependency_graph_refines:
  assumes "endpoints_known D schemas"
  shows "case dependency_graph D schemas maximum of
      Inr (A, n) \<Rightarrow> n = length (tick_dependencies D schemas) \<and> n \<le> maximum \<and> targets_in_range A
        \<and> (\<forall>links. cyclic_links A links \<longleftrightarrow> tick_cycle (tick_dependencies D schemas) links)
    | Inl e \<Rightarrow> e = AE_LimitExceeded ''dependency link count''
        \<and> min maximum usize_max < length (tick_dependencies D schemas)"
proof (cases "dependency_graph D schemas maximum")
  case (Inl e)
  from dependency_graph_result(2)[OF assms Inl] show ?thesis by (simp add: Inl)
next
  case (Inr r)
  obtain A n where r: "r = (A, n)" by (cases r)
  note graph = Inr[unfolded r]
  from dependency_graph_result(1)[OF assms graph] dependency_graph_in_range[OF assms graph]
    cyclic_iff_tick_cycle[OF assms graph]
  show ?thesis by (simp add: graph)
qed

lemma example_endpoints_known: "endpoints_known (example_document :: 'q graph_document) [source_schema, sink_schema]"
  by (simp add: endpoints_known_def graph_endpoints_def evaluate_document evaluate_schemas)

lemma example_dependencies:
  "tick_dependencies (example_document :: 'q graph_document) [source_schema, sink_schema]
     = [(WireEndpoint 1 1, WireLink 1, WireEndpoint 2 1)]"
  by (simp add: tick_dependencies_def feedthroughs_def evaluate_document evaluate_schemas)

theorem dependency_graph_refines_witness:
  "case dependency_graph (example_document :: rat graph_document) [source_schema, sink_schema] 8 of
     Inr (A, n) \<Rightarrow> n = 1 \<and> targets_in_range A | Inl e \<Rightarrow> False"
  using dependency_graph_refines[OF example_endpoints_known, where maximum = 8 and ?'a = rat]
  by (auto simp: example_dependencies usize_max_def split: sum.splits)

end
