(* ===== verification/Clock_Rates.thy ===== *)
theory Clock_Rates
  imports Dependency_Graph
begin

text \<open>
  Exact clock rates and rate transitions of
  \<^verbatim>\<open>crates/alumina-interface-core/src/graph/analysis.rs\<close>:
  \<^verbatim>\<open>resolve_clock_rates\<close> follows each derived clock to its root and multiplies the exact
  ratios, \<^verbatim>\<open>analyze_rate_transition\<close> reduces the ratio of two rates to the smallest
  repeating tick pattern and sizes the input queue from it. Both are proved against rational arithmetic.
\<close>

section \<open>Clock rates\<close>

record 'q graph_clock_rate =
  cr_clock :: graph_clock_id
  cr_root :: graph_clock_id
  cr_ticks_per_second :: 'q

text \<open>The inner loop: \<open>remaining\<close> is the counter of the source, which bounds it.\<close>

fun follow_clock ::
  "'q external_api \<Rightarrow> 'q graph_document \<Rightarrow> graph_clock_id \<Rightarrow> graph_clock_id \<Rightarrow> 'q \<Rightarrow> nat
     \<Rightarrow> analysis_error + graph_clock_id \<times> 'q" where
  "follow_clock R D clock current multiplier 0 = Inl (AE_ClockResolution clock)"
| "follow_clock R D clock current multiplier (Suc remaining) =
     and_then (ok_or (AE_ClockResolution current) (document_clock D current)) (\<lambda>definition.
     case cd_kind definition of
       HostMonotonic ticks \<Rightarrow> Inr (current, rq_mul R (rq_from R (unat ticks)) multiplier)
     | DeviceCycle _ ticks \<Rightarrow> Inr (current, rq_mul R (rq_from R (unat ticks)) multiplier)
     | Derived source numerator denominator \<Rightarrow>
         follow_clock R D clock source
           (rq_div R (rq_mul R multiplier (rq_from R (unat numerator))) (rq_from R (unat denominator))) remaining)"

definition resolve_clock_rate ::
  "'q external_api \<Rightarrow> 'q graph_document \<Rightarrow> clock_definition \<Rightarrow> analysis_error + 'q graph_clock_rate" where
  "resolve_clock_rate R D c =
     and_then (follow_clock R D (cd_id c) (cd_id c) (rq_one R) (min usize_max (length (gd_clocks D) + 1)))
       (\<lambda>(base, ticks). Inr \<lparr>cr_clock = cd_id c, cr_root = base, cr_ticks_per_second = ticks\<rparr>)"

definition resolve_clock_rates ::
  "'q external_api \<Rightarrow> 'q graph_document \<Rightarrow> analysis_error + 'q graph_clock_rate list" where
  "resolve_clock_rates R D =
     try_fold (\<lambda>rates c. and_then (resolve_clock_rate R D c) (\<lambda>r. Inr (rates @ [r]))) [] (gd_clocks D)"

definition clock_rate ::
  "'q graph_clock_rate list \<Rightarrow> graph_clock_id \<Rightarrow> analysis_error + 'q graph_clock_rate" where
  "clock_rate rates clock = ok_or (AE_ClockResolution clock) (lookup_by_key clock cr_clock rates)"

section \<open>Rate transitions\<close>

record graph_rate_transition =
  rt_node :: graph_node_id
  rt_input :: graph_port_id
  rt_output :: graph_port_id
  rt_kind :: rate_transition_kind
  rt_source_clock :: graph_clock_id
  rt_target_clock :: graph_clock_id
  rt_root_clock :: graph_clock_id
  rt_source_ticks_per_pattern :: u64
  rt_target_ticks_per_pattern :: u64
  rt_required_input_capacity :: u64
  rt_retained_sample_bytes :: u64

text \<open>\<^verbatim>\<open>u64::try_from\<close> of an unbounded magnitude.\<close>

definition u64_try_from :: "nat \<Rightarrow> u64 option" where
  "u64_try_from n = (if n \<le> u64_max then Some (word_of_nat n) else None)"

fun stream_queue_capacity :: "input_channel_kind \<Rightarrow> u32 option" where
  "stream_queue_capacity (StreamQueue capacity _) = Some capacity"
| "stream_queue_capacity Synchronous = None"
| "stream_queue_capacity (EventQueue _ _) = None"

fun stream_sample_bytes :: "type_storage_kind \<Rightarrow> u64 option" where
  "stream_sample_bytes (StoreStreamSample _ b _) = Some b"
| "stream_sample_bytes (StoreLiteral _) = None"
| "stream_sample_bytes (StoreEventPayload _ _) = None"

text \<open>The queue has to hold the samples of one target period: the ticks ratio rounded up. A
  division by zero panics.\<close>

definition required_capacity :: "u64 \<Rightarrow> u64 \<Rightarrow> analysis_error + u64" where
  "required_capacity source_ticks target_ticks =
     (if target_ticks = 0 then Inl AE_IndexPanic
      else Inr (source_ticks div target_ticks + (if source_ticks mod target_ticks \<noteq> 0 then 1 else 0)))"

definition analyze_rate_transition ::
  "'q external_api \<Rightarrow> 'q graph_document \<Rightarrow> graph_node_id \<Rightarrow> node_schema \<Rightarrow> rate_transition_contract
     \<Rightarrow> 'q graph_clock_rate list \<Rightarrow> type_storage_bound list \<Rightarrow> u64 \<Rightarrow> analysis_error + graph_rate_transition" where
  "analyze_rate_transition R D node ns t rates bounds maximum_pattern_ticks =
     (let too_large = AE_RateTransitionPatternTooLarge node (rc_input t) (rc_output t) in
     and_then (ok_or (AE_NodeShape node ''rate transition input'')
       (find (\<lambda>p. pd_id p = rc_input t) (ns_inputs ns))) (\<lambda>inp.
     and_then (ok_or (AE_NodeShape node ''rate transition output'')
       (find (\<lambda>p. pd_id p = rc_output t) (ns_outputs ns))) (\<lambda>outp.
     and_then (ok_or (AE_NodeShape node ''rate transition input type'') (runtime_port (gd_schema D) inp)) (\<lambda>source.
     and_then (ok_or (AE_NodeShape node ''rate transition output type'') (runtime_port (gd_schema D) outp)) (\<lambda>target.
     and_then (clock_rate rates (rp_clock source)) (\<lambda>source_rate.
     and_then (clock_rate rates (rp_clock target)) (\<lambda>target_rate.
     if cr_root source_rate \<noteq> cr_root target_rate
     then Inl (AE_RateTransitionRootMismatch node (rc_input t) (rc_output t) (cr_root source_rate) (cr_root target_rate))
     else let ratio = rq_div R (cr_ticks_per_second source_rate) (cr_ticks_per_second target_rate) in
     and_then (ok_or too_large (u64_try_from (rq_numerator R ratio))) (\<lambda>source_ticks.
     and_then (ok_or too_large (u64_try_from (rq_denominator R ratio))) (\<lambda>target_ticks.
     if source_ticks > maximum_pattern_ticks \<or> target_ticks > maximum_pattern_ticks then Inl too_large
     else and_then (required_capacity source_ticks target_ticks) (\<lambda>required.
     and_then (ok_or (AE_ChannelStorageMismatch (WireEndpoint node (rc_input t)))
       (Option.bind (find (\<lambda>c. ic_port c = rc_input t) (ns_input_channels ns))
         (\<lambda>c. stream_queue_capacity (ic_kind c)))) (\<lambda>declared.
     if (ucast declared :: u64) < required
     then Inl (AE_RateTransitionQueueTooSmall node (rc_input t) declared required)
     else and_then (ok_or (AE_ChannelStorageMismatch (WireEndpoint node (rc_input t)))
       (Option.bind (lookup_by_key (pd_value_type inp) sb_value_type bounds)
         (\<lambda>bound. stream_sample_bytes (sb_kind bound)))) (\<lambda>retained.
     Inr \<lparr>rt_node = node, rt_input = rc_input t, rt_output = rc_output t, rt_kind = rc_kind t,
       rt_source_clock = rp_clock source, rt_target_clock = rp_clock target, rt_root_clock = cr_root source_rate,
       rt_source_ticks_per_pattern = source_ticks, rt_target_ticks_per_pattern = target_ticks,
       rt_required_input_capacity = required, rt_retained_sample_bytes = retained\<rparr>))))))))))))"

section \<open>The rate of a clock\<close>

text \<open>The exact rate: the ticks of the root clock times the ratios on the way down.\<close>

inductive clock_ticks :: "'q graph_document \<Rightarrow> graph_clock_id \<Rightarrow> graph_clock_id \<Rightarrow> rat \<Rightarrow> bool"
  for D :: "'q graph_document" where
  host: "document_clock D c = Some d \<Longrightarrow> cd_kind d = HostMonotonic ticks \<Longrightarrow> clock_ticks D c c (of_nat (unat ticks))"
| device: "document_clock D c = Some d \<Longrightarrow> cd_kind d = DeviceCycle device ticks \<Longrightarrow>
    clock_ticks D c c (of_nat (unat ticks))"
| derived: "document_clock D c = Some d \<Longrightarrow> cd_kind d = Derived source n m \<Longrightarrow> clock_ticks D source base q \<Longrightarrow>
    clock_ticks D c base (q * of_nat (unat n) / of_nat (unat m))"

inductive_cases clock_ticksE: "clock_ticks D c base q"

lemma clock_ticks_unique: "clock_ticks D c base q \<Longrightarrow> clock_ticks D c base' q' \<Longrightarrow> base' = base \<and> q' = q"
proof (induction arbitrary: base' q' rule: clock_ticks.induct)
  case (host c d ticks)
  from host(3,1,2) show ?case by (cases rule: clock_ticks.cases) auto
next
  case (device c d device ticks)
  from device(3,1,2) show ?case by (cases rule: clock_ticks.cases) auto
next
  case (derived c d source n m base q)
  from derived(5) show ?case
  proof (cases rule: clock_ticks.cases)
    case (derived d' source' n' m' q'')
    with derived.hyps derived.IH[of base' q''] show ?thesis by simp
  qed (use derived.hyps in simp_all)
qed

lemma word_rat_pos [simp]: "(0 :: rat) < unsigned (w :: 'a::len word) \<longleftrightarrow> w \<noteq> 0"
proof -
  have "(0 :: rat) < unsigned w \<longleftrightarrow> rat_of_nat 0 < rat_of_nat (unat w)" by simp
  also have "\<dots> \<longleftrightarrow> w \<noteq> 0" by (simp only: of_nat_less_iff unat_gt_0)
  finally show ?thesis .
qed

lemma word_rat_zero [simp]: "unsigned (w :: 'a::len word) = (0 :: rat) \<longleftrightarrow> w = 0"
proof -
  have "unsigned w = (0 :: rat) \<longleftrightarrow> rat_of_nat (unat w) = rat_of_nat 0" by simp
  also have "\<dots> \<longleftrightarrow> w = 0" by (simp only: of_nat_eq_iff unat_eq_zero)
  finally show ?thesis .
qed

lemma clocks_wf_lookup:
  assumes "clocks_wf D"
  shows "document_clock D c = Some d \<longleftrightarrow> d \<in> set (gd_clocks D) \<and> cd_id d = c"
proof -
  have "document_clock D c = lookup_by_key c cd_id (gd_clocks D)"
    by (simp add: document_clock_def clock_index_def lookup_by_key_def)
  then show ?thesis using assms by (simp add: lookup_by_key_iff clocks_wf_def)
qed

text \<open>The clocks that have been followed are distinct, so the counter cannot run out first.\<close>

lemma follow_clock_exact:
  assumes wf: "clocks_wf D" and R: "rational_arithmetic R v"
  shows "visited \<subseteq> cd_id ` set (gd_clocks D) \<Longrightarrow> \<forall>u \<in> visited. (u, current) \<in> (clock_references D)\<^sup>+ \<Longrightarrow>
    current \<in> cd_id ` set (gd_clocks D) \<Longrightarrow> length (gd_clocks D) < remaining + card visited \<Longrightarrow>
    \<exists>base ticks q. follow_clock R D clock current multiplier remaining = Inr (base, ticks)
      \<and> clock_ticks D current base q \<and> 0 < q \<and> v ticks = q * v multiplier"
proof (induction remaining arbitrary: current multiplier visited)
  case 0
  from card_mono[OF _ 0(1)] card_image_le[of "set (gd_clocks D)" cd_id] card_length[of "gd_clocks D"] 0(4)
  show ?case by simp
next
  case (Suc remaining)
  note arith = rational_arithmeticD[OF R]
  from Suc.prems(3) obtain d where d: "d \<in> set (gd_clocks D)" "cd_id d = current" by auto
  with wf have found: "document_clock D current = Some d" by (simp add: clocks_wf_lookup)
  from wf d have ok: "clock_kind_ok D (cd_kind d)" by (auto simp: clocks_wf_def clock_ok_def)
  show ?case
  proof (cases "cd_kind d")
    case (HostMonotonic ticks)
    then have pos: "0 < rat_of_nat (unat ticks)" using ok by simp
    have "follow_clock R D clock current multiplier (Suc remaining)
        = Inr (current, rq_mul R (rq_from R (unat ticks)) multiplier)"
      using HostMonotonic found by simp
    moreover have "v (rq_mul R (rq_from R (unat ticks)) multiplier) = rat_of_nat (unat ticks) * v multiplier"
      by (simp only: arith)
    ultimately show ?thesis using clock_ticks.host[OF found HostMonotonic] pos by blast
  next
    case (DeviceCycle device ticks)
    then have pos: "0 < rat_of_nat (unat ticks)" using ok by simp
    have "follow_clock R D clock current multiplier (Suc remaining)
        = Inr (current, rq_mul R (rq_from R (unat ticks)) multiplier)"
      using DeviceCycle found by simp
    moreover have "v (rq_mul R (rq_from R (unat ticks)) multiplier) = rat_of_nat (unat ticks) * v multiplier"
      by (simp only: arith)
    ultimately show ?thesis using clock_ticks.device[OF found DeviceCycle] pos by blast
  next
    case (Derived source n m)
    with ok have nonzero: "n \<noteq> 0" "m \<noteq> 0" and source: "source \<in> cd_id ` set (gd_clocks D)"
      by (simp_all add: clock_resolves_def)
    have edge: "(current, source) \<in> clock_references D" using d Derived by (auto simp: clock_references_def)
    have "acyclic (clock_references D)" using wf by (simp add: clocks_wf_def)
    then have "(current, current) \<notin> (clock_references D)\<^sup>+" by (simp add: acyclic_def)
    with Suc.prems(2) have fresh: "current \<notin> visited" by blast
    have fin: "finite visited" using Suc.prems(1) by (rule finite_subset) simp
    have paths: "\<forall>u \<in> insert current visited. (u, source) \<in> (clock_references D)\<^sup>+"
      using Suc.prems(2) edge by (auto intro: trancl_into_trancl)
    have known: "insert current visited \<subseteq> cd_id ` set (gd_clocks D)" using Suc.prems(1,3) by blast
    have fuel: "length (gd_clocks D) < remaining + card (insert current visited)"
      using Suc.prems(4) fresh fin by simp
    obtain base ticks q where rec: "follow_clock R D clock source
        (rq_div R (rq_mul R multiplier (rq_from R (unat n))) (rq_from R (unat m))) remaining = Inr (base, ticks)"
      "clock_ticks D source base q" "0 < q"
      "v ticks = q * v (rq_div R (rq_mul R multiplier (rq_from R (unat n))) (rq_from R (unat m)))"
      using Suc.IH[OF known paths source fuel] by blast
    have m: "(of_nat (unat m) :: rat) \<noteq> 0" using nonzero(2) by simp
    have "v (rq_div R (rq_mul R multiplier (rq_from R (unat n))) (rq_from R (unat m)))
        = v multiplier * of_nat (unat n) / of_nat (unat m)"
      by (simp only: arith(2,3) arith(4)[of "rq_from R (unat m)", unfolded arith(2), OF m])
    then have "v ticks = (q * of_nat (unat n) / of_nat (unat m)) * v multiplier" using rec(4) by simp
    moreover have "clock_ticks D current base (q * of_nat (unat n) / of_nat (unat m))"
      by (rule clock_ticks.derived[OF found Derived rec(2)])
    moreover have "0 < q * of_nat (unat n) / of_nat (unat m)"
      using rec(3) nonzero by (intro divide_pos_pos mult_pos_pos) simp_all
    ultimately show ?thesis using found Derived rec(1) by auto
  qed
qed

lemma try_collect:
  "try_fold (\<lambda>acc x. and_then (f x) (\<lambda>y. Inr (acc @ [y]))) acc xs = Inr out \<longleftrightarrow>
     (\<exists>ys. out = acc @ ys \<and> list_all2 (\<lambda>x y. f x = Inr y) xs ys)"
proof (induction xs arbitrary: acc)
  case (Cons x xs)
  show ?case
  proof (cases "f x")
    case (Inr y)
    with Cons[of "acc @ [y]"] show ?thesis by (auto simp: list_all2_Cons1)
  qed (auto simp: list_all2_Cons1)
qed auto

definition exact_rate :: "('q \<Rightarrow> rat) \<Rightarrow> 'q graph_document \<Rightarrow> clock_definition \<Rightarrow> 'q graph_clock_rate \<Rightarrow> bool" where
  "exact_rate v D c r \<longleftrightarrow> cr_clock r = cd_id c \<and> clock_ticks D (cd_id c) (cr_root r) (v (cr_ticks_per_second r))
     \<and> 0 < v (cr_ticks_per_second r)"

lemma list_all2_choose: "\<forall>x \<in> set xs. \<exists>y. P x y \<Longrightarrow> \<exists>ys. list_all2 P xs ys"
  by (induction xs) (auto simp: list_all2_Cons1)

lemma resolve_clock_rates_exact:
  assumes "clocks_wf D" and R: "rational_arithmetic R v" and "length (gd_clocks D) < usize_max"
  shows "\<exists>rates. resolve_clock_rates R D = Inr rates \<and> list_all2 (exact_rate v D) (gd_clocks D) rates"
proof -
  have "\<exists>r. resolve_clock_rate R D c = Inr r \<and> exact_rate v D c r" if "c \<in> set (gd_clocks D)" for c
    using follow_clock_exact[OF assms(1,2), of "{}" "cd_id c" "length (gd_clocks D) + 1" "cd_id c" "rq_one R"]
      that assms(3) rational_arithmeticD(1)[OF R]
    by (auto simp: resolve_clock_rate_def exact_rate_def)
  then obtain rates where
    "list_all2 (\<lambda>c r. resolve_clock_rate R D c = Inr r \<and> exact_rate v D c r) (gd_clocks D) rates"
    using list_all2_choose[of "gd_clocks D" "\<lambda>c r. resolve_clock_rate R D c = Inr r \<and> exact_rate v D c r"] by blast
  then have "list_all2 (\<lambda>c r. resolve_clock_rate R D c = Inr r) (gd_clocks D) rates"
    "list_all2 (exact_rate v D) (gd_clocks D) rates"
    by (auto elim: list_all2_mono)
  then show ?thesis by (auto simp: resolve_clock_rates_def try_collect)
qed

section \<open>The pattern of a rate transition\<close>

lemma rounded_up_least:
  assumes "0 < (b :: nat)"
  shows "a \<le> n * b \<longleftrightarrow> a div b + (if a mod b \<noteq> 0 then 1 else 0) \<le> n"
proof
  assume le: "a \<le> n * b"
  show "a div b + (if a mod b \<noteq> 0 then 1 else 0) \<le> n"
  proof (cases "a mod b = 0")
    case True
    have "a div b \<le> n * b div b" using le by (rule div_le_mono)
    with True assms show ?thesis by simp
  next
    case False
    then have "a div b * b < a" by (metis div_mult_mod_eq le_add1 le_neq_implies_less add_cancel_left_right)
    with le have "a div b * b < n * b" by linarith
    with False show ?thesis by simp
  qed
next
  assume le: "a div b + (if a mod b \<noteq> 0 then 1 else 0) \<le> n"
  have "a div b * b + a mod b \<le> (a div b + (if a mod b \<noteq> 0 then 1 else 0)) * b"
    using mod_less_divisor[OF assms, of a]
    by (cases "a mod b = 0") (simp_all only: add_mult_distrib if_True if_False not_False_eq_True mult_1 add_0_right
      mult_0 add_le_cancel_left less_imp_le)
  then have "a \<le> (a div b + (if a mod b \<noteq> 0 then 1 else 0)) * b" by (simp only: div_mult_mod_eq)
  also have "\<dots> \<le> n * b" using le by (rule mult_le_mono1)
  finally show "a \<le> n * b" .
qed

lemma required_capacity_least:
  assumes "required_capacity a b = Inr c"
  shows "b \<noteq> 0" and "unat a \<le> n * unat b \<longleftrightarrow> unat c \<le> n"
proof -
  from assms show b: "b \<noteq> 0" by (auto simp: required_capacity_def split: if_splits)
  then have pos: "0 < unat b" by (simp add: unat_gt_0)
  have c: "c = a div b + (if a mod b \<noteq> 0 then 1 else 0)"
    using assms b by (auto simp: required_capacity_def)
  have zero: "a mod b = 0 \<longleftrightarrow> unat a mod unat b = 0"
    by (simp flip: unat_mod add: unat_eq_zero)
  have "unat c = unat a div unat b + (if unat a mod unat b \<noteq> 0 then 1 else 0)"
  proof (cases "a mod b = 0")
    case True
    then show ?thesis using zero by (simp add: c unat_div)
  next
    case False
    then have "unat b \<noteq> 1" using zero by auto
    with pos have "unat a div unat b < unat a \<or> unat a = 0" by (cases "unat a = 0") auto
    then have "Suc (unat (a div b)) \<le> u64_max"
      using unat_u64_le[of a] by (auto simp: unat_div u64_max_def)
    then have "unat (a div b + 1) = unat (a div b) + 1" by (simp add: unat_word_ariths u64_max_def)
    with False show ?thesis using zero by (simp add: c unat_div)
  qed
  with rounded_up_least[OF pos] show "unat a \<le> n * unat b \<longleftrightarrow> unat c \<le> n" by simp
qed

lemma reduced_ratio:
  assumes "0 < (q :: rat)"
  shows "0 < nat \<bar>fst (quotient_of q)\<bar>" "0 < nat (snd (quotient_of q))"
    "q = of_nat (nat \<bar>fst (quotient_of q)\<bar>) / of_nat (nat (snd (quotient_of q)))"
    "coprime (nat \<bar>fst (quotient_of q)\<bar>) (nat (snd (quotient_of q)))"
proof -
  obtain a b where ab: "quotient_of q = (a, b)" by fastforce
  then have q: "q = of_int a / of_int b" and b: "0 < b" and cop: "coprime a b"
    by (auto simp: quotient_of_div dest: quotient_of_denom_pos quotient_of_coprime)
  from assms q b have a: "0 < a" by (simp add: zero_less_divide_iff)
  show "0 < nat \<bar>fst (quotient_of q)\<bar>" "0 < nat (snd (quotient_of q))" using a b ab by simp_all
  show "q = of_nat (nat \<bar>fst (quotient_of q)\<bar>) / of_nat (nat (snd (quotient_of q)))"
    using a b by (simp add: ab) (simp add: q)
  show "coprime (nat \<bar>fst (quotient_of q)\<bar>) (nat (snd (quotient_of q)))"
    using a b cop ab by (simp add: coprime_int_iff[symmetric])
qed

text \<open>What a successful rate transition says about the exact rates \<open>p\<close> and \<open>q\<close> of its two clocks.\<close>

definition exact_pattern :: "rat \<Rightarrow> rat \<Rightarrow> u64 \<Rightarrow> graph_rate_transition \<Rightarrow> bool" where
  "exact_pattern p q maximum x \<longleftrightarrow>
     (let a = unat (rt_source_ticks_per_pattern x); b = unat (rt_target_ticks_per_pattern x) in
      0 < b \<and> coprime a b \<and> of_nat a * q = of_nat b * p \<and> a \<le> unat maximum \<and> b \<le> unat maximum
      \<and> (\<forall>n. p \<le> of_nat n * q \<longleftrightarrow> unat (rt_required_input_capacity x) \<le> n))"

lemma exact_rate_lookup:
  assumes "clocks_wf D" and exact: "list_all2 (exact_rate v D) (gd_clocks D) rates"
    and "clock_rate rates c = Inr r"
  shows "clock_ticks D c (cr_root r) (v (cr_ticks_per_second r)) \<and> 0 < v (cr_ticks_per_second r)"
proof -
  from assms(3) have "r \<in> set rates" "cr_clock r = c"
    by (auto simp: clock_rate_def dest: lookup_by_key_Some)
  with exact show ?thesis by (auto simp: list_all2_conv_all_nth in_set_conv_nth exact_rate_def)
qed

lemma u64_try_from_Some: "u64_try_from n = Some w \<Longrightarrow> unat w = n"
  by (auto simp: u64_try_from_def u64_max_def unat_of_nat split: if_splits)

text \<open>The input queue that the node declares has room for \<open>n\<close> items.\<close>

definition queue_holds :: "node_schema \<Rightarrow> graph_port_id \<Rightarrow> u64 \<Rightarrow> bool" where
  "queue_holds ns p n \<longleftrightarrow> (\<exists>c capacity. find (\<lambda>c. ic_port c = p) (ns_input_channels ns) = Some c
     \<and> stream_queue_capacity (ic_kind c) = Some capacity \<and> unat n \<le> unat capacity)"

lemma if_Inl_Inr: "(if b then Inl e else m) = Inr y \<longleftrightarrow> \<not> b \<and> m = Inr y"
  by simp

lemma rate_transition_facts:
  assumes "analyze_rate_transition R D node ns t rates bounds maximum = Inr x"
  obtains (facts) source target :: runtime_port_facts and source_rate target_rate source_ticks target_ticks required
  where "clock_rate rates (rp_clock source) = Inr source_rate" "clock_rate rates (rp_clock target) = Inr target_rate"
    and "cr_root target_rate = cr_root source_rate"
    and "u64_try_from (rq_numerator R (rq_div R (cr_ticks_per_second source_rate) (cr_ticks_per_second target_rate)))
      = Some source_ticks"
    and "u64_try_from (rq_denominator R (rq_div R (cr_ticks_per_second source_rate) (cr_ticks_per_second target_rate)))
      = Some target_ticks"
    and "source_ticks \<le> maximum" "target_ticks \<le> maximum"
    and "required_capacity source_ticks target_ticks = Inr required"
    and "rt_source_clock x = rp_clock source" "rt_target_clock x = rp_clock target"
    and "rt_root_clock x = cr_root source_rate" "rt_source_ticks_per_pattern x = source_ticks"
    and "rt_target_ticks_per_pattern x = target_ticks" "rt_required_input_capacity x = required"
    and "queue_holds ns (rc_input t) required"
  using assms unfolding analyze_rate_transition_def Let_def
  apply (simp only: and_then_Inr ok_or_Inr if_Inl_Inr not_not)
  apply (elim exE conjE)
  subgoal premises prems for inp outp source target source_rate target_rate source_ticks target_ticks required
    by (rule facts[where source = source and source_rate = source_rate and target = target
          and target_rate = target_rate and source_ticks = source_ticks and target_ticks = target_ticks
          and required = required])
       (use prems(2-) in \<open>auto simp: queue_holds_def unat_widen_u32 word_less_nat_alt word_le_nat_alt
          bind_eq_Some_conv not_less\<close>)
  done

lemma rate_transition_exact_pattern:
  assumes wf: "clocks_wf D" and R: "rational_arithmetic R v" and exact: "list_all2 (exact_rate v D) (gd_clocks D) rates"
    and x: "analyze_rate_transition R D node ns t rates bounds maximum = Inr x"
  shows "\<exists>p q. clock_ticks D (rt_source_clock x) (rt_root_clock x) p
    \<and> clock_ticks D (rt_target_clock x) (rt_root_clock x) q \<and> 0 < q \<and> exact_pattern p q maximum x
    \<and> queue_holds ns (rc_input t) (rt_required_input_capacity x)"
proof -
  from x obtain source target :: runtime_port_facts and source_rate target_rate source_ticks target_ticks required where
    rates: "clock_rate rates (rp_clock source) = Inr source_rate" "clock_rate rates (rp_clock target) = Inr target_rate"
      "cr_root target_rate = cr_root source_rate"
    and ratio': "u64_try_from (rq_numerator R (rq_div R (cr_ticks_per_second source_rate) (cr_ticks_per_second target_rate)))
        = Some source_ticks"
      "u64_try_from (rq_denominator R (rq_div R (cr_ticks_per_second source_rate) (cr_ticks_per_second target_rate)))
        = Some target_ticks"
    and limit: "source_ticks \<le> maximum" "target_ticks \<le> maximum"
    and required: "required_capacity source_ticks target_ticks = Inr required"
    and x': "rt_source_clock x = rp_clock source" "rt_target_clock x = rp_clock target"
      "rt_root_clock x = cr_root source_rate" "rt_source_ticks_per_pattern x = source_ticks"
      "rt_target_ticks_per_pattern x = target_ticks" "rt_required_input_capacity x = required"
    and queue: "queue_holds ns (rc_input t) required"
    by (rule rate_transition_facts)
  define ratio where "ratio = rq_div R (cr_ticks_per_second source_rate) (cr_ticks_per_second target_rate)"
  note ratio = ratio_def ratio'[folded ratio_def]
  let ?p = "v (cr_ticks_per_second source_rate)" and ?q = "v (cr_ticks_per_second target_rate)"
  from exact_rate_lookup[OF wf exact rates(1)] exact_rate_lookup[OF wf exact rates(2)]
  have p: "clock_ticks D (rp_clock source) (cr_root source_rate) ?p" "0 < ?p"
    and q: "clock_ticks D (rp_clock target) (cr_root target_rate) ?q" "0 < ?q" by simp_all
  then have "v ratio = ?p / ?q" by (simp add: ratio(1) rational_arithmeticD[OF R])
  then have pos: "0 < v ratio" using p q by simp
  have ticks: "unat source_ticks = nat \<bar>fst (quotient_of (v ratio))\<bar>" "unat target_ticks = nat (snd (quotient_of (v ratio)))"
    using ratio(2,3) u64_try_from_Some by (simp_all add: rational_arithmeticD(5,6)[OF R])
  note reduced = reduced_ratio[OF pos, folded ticks]
  have cross: "of_nat (unat source_ticks) * ?q = of_nat (unat target_ticks) * ?p"
  proof -
    have "0 < rat_of_nat (unat target_ticks)" using reduced(2) by (simp only: of_nat_0_less_iff)
    moreover have "?p / ?q = of_nat (unat source_ticks) / of_nat (unat target_ticks)"
      using reduced(3) \<open>v ratio = ?p / ?q\<close> by (simp only:)
    ultimately show ?thesis using q(2) by (simp only: divide_eq_eq eq_divide_eq) (simp add: field_simps)
  qed
  have "?p \<le> of_nat n * ?q \<longleftrightarrow> unat required \<le> n" for n
  proof -
    have b: "0 < rat_of_nat (unat target_ticks)" using reduced(2) by (simp only: of_nat_0_less_iff)
    have "?p \<le> of_nat n * ?q \<longleftrightarrow> of_nat (unat target_ticks) * ?p \<le> of_nat (unat target_ticks) * (of_nat n * ?q)"
      using b by (simp only: mult_le_cancel_left_pos)
    also have "\<dots> \<longleftrightarrow> of_nat (unat source_ticks) * ?q \<le> (of_nat n * of_nat (unat target_ticks)) * ?q"
      using cross by (simp only: mult.commute mult.left_commute)
    also have "\<dots> \<longleftrightarrow> rat_of_nat (unat source_ticks) \<le> of_nat (n * unat target_ticks)"
      using q(2) by (simp only: mult_le_cancel_right_pos of_nat_mult)
    also have "\<dots> \<longleftrightarrow> unat source_ticks \<le> n * unat target_ticks" by (rule of_nat_le_iff)
    also have "\<dots> \<longleftrightarrow> unat required \<le> n" by (rule required_capacity_least(2)[OF required])
    finally show ?thesis .
  qed
  moreover have "unat source_ticks \<le> unat maximum" "unat target_ticks \<le> unat maximum"
    using limit by (simp_all add: word_le_nat_alt)
  ultimately have "exact_pattern ?p ?q maximum x"
    using reduced(2,4) cross by (simp only: exact_pattern_def Let_def x') blast
  then show ?thesis using p(1) q x' rates(3) queue by auto
qed

section \<open>Properties of clock rates and rate transitions\<close>

text \<open>
  C33. Resolving the rates of a well-formed set of clocks always ends in a rate for every clock:
  the counter is never exhausted, and each rate is exactly the frequency of the clock's root times the ratios
  of the derivations between them, a positive number.
\<close>

theorem clock_rates_exact:
  assumes "clocks_wf D" and "rational_arithmetic R v" and "length (gd_clocks D) < usize_max"
  shows "\<exists>rates. resolve_clock_rates R D = Inr rates \<and> list_all2 (exact_rate v D) (gd_clocks D) rates"
  by (rule resolve_clock_rates_exact[OF assms])

theorem clock_rates_exact_witness:
  "\<exists>rates. resolve_clock_rates rat_api (example_document :: rat graph_document) = Inr rates
     \<and> length rates = length (gd_clocks (example_document :: rat graph_document))"
proof -
  have "length (gd_clocks (example_document :: rat graph_document)) < usize_max"
    by (simp add: evaluate_document usize_max_def)
  from clock_rates_exact[OF example_clocks_wf rat_api_arithmetic this] show ?thesis
    by (auto dest: list_all2_lengthD)
qed

text \<open>
  C32. A rate transition is accepted only between clocks with one root, and its report is
  exact: the two tick counts are coprime, have the ratio of the two clock rates and are within the
  policy, and the required capacity is the least number of source samples that covers one target
  period; the declared queue holds at least that many.
\<close>

theorem rate_transition_exact:
  assumes "clocks_wf D" and "rational_arithmetic R v" and "resolve_clock_rates R D = Inr rates"
    and "length (gd_clocks D) < usize_max"
    and "analyze_rate_transition R D node ns t rates bounds maximum = Inr x"
  shows "\<exists>p q. clock_ticks D (rt_source_clock x) (rt_root_clock x) p
    \<and> clock_ticks D (rt_target_clock x) (rt_root_clock x) q \<and> 0 < q \<and> exact_pattern p q maximum x
    \<and> queue_holds ns (rc_input t) (rt_required_input_capacity x)"
proof -
  from resolve_clock_rates_exact[OF assms(1,2,4)] assms(3)
  have "list_all2 (exact_rate v D) (gd_clocks D) rates" by simp
  from rate_transition_exact_pattern[OF assms(1,2) this assms(5)] show ?thesis .
qed

definition rate_document :: "'q graph_document" where
  "rate_document = example_document \<lparr>gd_schema := pair_schema \<lparr>gs_types :=
     [example_type 1 ''flag'' TBoolean, example_type 2 ''fast'' (TStream 1 1 4), example_type 3 ''slow'' (TStream 1 2 4)]\<rparr>\<rparr>"

definition resampler_schema :: node_schema where
  "resampler_schema = (plain_schema ''resampler'' [\<lparr>pd_id = 1, pd_name = str ''in'', pd_value_type = 2\<rparr>]
     [\<lparr>pd_id = 2, pd_name = str ''out'', pd_value_type = 3\<rparr>] [\<lparr>od_output = 2, od_inputs = [1]\<rparr>])
     \<lparr>ns_input_channels := [\<lparr>ic_port = 1, ic_requirement = Required, ic_kind = StreamQueue 2 Backpressure\<rparr>],
      ns_rate_transitions := [\<lparr>rc_input = 1, rc_output = 2, rc_kind = LatestAtOrBeforeSourceFirst\<rparr>]\<rparr>"

definition resampler_transition :: rate_transition_contract where
  "resampler_transition = \<lparr>rc_input = 1, rc_output = 2, rc_kind = LatestAtOrBeforeSourceFirst\<rparr>"

definition rate_bounds :: "type_storage_bound list" where
  "rate_bounds = [\<lparr>sb_value_type = 2, sb_kind = StoreStreamSample 1 5 4\<rparr>]"

definition example_rates :: "rat graph_clock_rate list" where
  "example_rates = [\<lparr>cr_clock = 1, cr_root = 1, cr_ticks_per_second = 1000\<rparr>,
     \<lparr>cr_clock = 2, cr_root = 1, cr_ticks_per_second = 500\<rparr>]"

definition example_transition :: graph_rate_transition where
  "example_transition = \<lparr>rt_node = 1, rt_input = 1, rt_output = 2, rt_kind = LatestAtOrBeforeSourceFirst,
     rt_source_clock = 1, rt_target_clock = 2, rt_root_clock = 1, rt_source_ticks_per_pattern = 2,
     rt_target_ticks_per_pattern = 1, rt_required_input_capacity = 2, rt_retained_sample_bytes = 5\<rparr>"

lemma rate_document_types:
  "value_type (gd_schema rate_document) 2 = Some (example_type 2 ''fast'' (TStream 1 1 4))"
  "value_type (gd_schema rate_document) 3 = Some (example_type 3 ''slow'' (TStream 1 2 4))"
  by (simp_all add: rate_document_def value_type_def evaluate_types)

lemma rate_document_clocks_wf: "clocks_wf (rate_document :: 'q graph_document)"
proof -
  let ?D = "rate_document :: 'q graph_document" and ?E = "example_document :: 'q graph_document"
  have clocks: "gd_clocks ?D = gd_clocks ?E" "gs_limits (gd_schema ?D) = gs_limits (gd_schema ?E)"
    by (simp_all add: rate_document_def example_document_def)
  have resolves: "clock_resolves ?D = clock_resolves ?E"
    by (rule ext) (simp add: clock_resolves_def clocks)
  have "clock_kind_ok ?D k = clock_kind_ok ?E k" for k by (cases k) (simp_all add: resolves)
  then have "clock_ok ?D = clock_ok ?E" by (intro ext) (simp add: clock_ok_def)
  moreover have "clock_references ?D = clock_references ?E" by (simp add: clock_references_def clocks)
  moreover have "clock_resolves ?D 1" "clock_resolves ?D 2"
    by (simp_all add: clock_resolves_def rate_document_def evaluate_document)
  then have "\<forall>d \<in> set (gs_types (gd_schema ?D)). \<forall>c. type_clock (td_kind d) = Some c \<longrightarrow> clock_resolves ?D c"
    by (simp add: rate_document_def example_type_def)
  ultimately show ?thesis using example_clocks_wf[where ?'q = 'q] clocks
    by (simp add: clocks_wf_def)
qed

lemma rate_document_clocks:
  "gd_clocks rate_document = example_clocks"
  "document_clock rate_document 1 = Some \<lparr>cd_id = 1, cd_name = str ''host'', cd_kind = HostMonotonic 1000\<rparr>"
  "document_clock rate_document 2 = Some \<lparr>cd_id = 2, cd_name = str ''half'', cd_kind = Derived 1 1 2\<rparr>"
  unfolding clocks_wf_lookup[OF rate_document_clocks_wf] by (simp_all add: rate_document_def evaluate_document)

lemma example_rate_lookups:
  "clock_rate example_rates 1 = Inr \<lparr>cr_clock = 1, cr_root = 1, cr_ticks_per_second = 1000\<rparr>"
  "clock_rate example_rates 2 = Inr \<lparr>cr_clock = 2, cr_root = 1, cr_ticks_per_second = 500\<rparr>"
  by (simp_all add: clock_rate_def example_rates_def lookup_by_key_iff canonical_table_def)

lemma rate_bounds_lookup:
  "lookup_by_key 2 sb_value_type rate_bounds = Some \<lparr>sb_value_type = 2, sb_kind = StoreStreamSample 1 5 4\<rparr>"
  by (simp add: rate_bounds_def lookup_by_key_iff canonical_table_def)

lemma rate_document_rates: "resolve_clock_rates rat_api rate_document = Inr example_rates"
proof -
  have 1: "follow_clock rat_api rate_document 1 1 1 3 = Inr (1, 1000)"
    by (simp add: numeral_3_eq_3 rate_document_clocks rat_api_def)
  have 2: "follow_clock rat_api rate_document 2 2 1 3 = Inr (1, 500)"
    by (simp add: numeral_3_eq_3 rate_document_clocks rat_api_def)
  have "resolve_clock_rates rat_api rate_document = try_fold
      (\<lambda>rates c. and_then (resolve_clock_rate rat_api rate_document c) (\<lambda>r. Inr (rates @ [r]))) [] example_clocks"
    by (simp add: resolve_clock_rates_def rate_document_clocks)
  also have "\<dots> = Inr example_rates"
    using 1 2 by (simp add: example_clocks_def resolve_clock_rate_def example_rates_def rate_document_clocks usize_max_def rat_api_def
      numeral_3_eq_3 del: follow_clock.simps)
  finally show ?thesis .
qed

lemma resampler_accepted:
  "analyze_rate_transition rat_api rate_document 1 resampler_schema resampler_transition example_rates rate_bounds 100
     = Inr example_transition"
proof -
  have "quotient_of 2 = (2, 1)" by code_simp
  then show ?thesis
  by (simp add: analyze_rate_transition_def resampler_transition_def resampler_schema_def plain_schema_def
      runtime_port_def rate_document_types example_type_def example_rate_lookups rate_bounds_lookup
      Let_def ok_or_def rat_api_def u64_try_from_def u64_max_def required_capacity_def example_transition_def
      del: and_then_Inr and_then_Inl)
qed

theorem rate_transition_exact_witness:
  "\<exists>(p :: rat) (q :: rat). clock_ticks (rate_document :: rat graph_document) 1 1 p \<and> clock_ticks (rate_document :: rat graph_document) 2 1 q \<and> 0 < q
     \<and> 2 * q = p \<and> queue_holds resampler_schema 1 2"
proof -
  have "length (gd_clocks (rate_document :: rat graph_document)) < usize_max"
    by (simp add: rate_document_clocks example_clocks_def usize_max_def)
  from rate_transition_exact[OF rate_document_clocks_wf rat_api_arithmetic rate_document_rates this resampler_accepted]
  show ?thesis by (auto simp: example_transition_def exact_pattern_def Let_def resampler_transition_def)
qed

end
