(* ===== verification/Graph_Analysis.thy ===== *)
theory Graph_Analysis
  imports Clock_Rates
begin

text \<open>
  The analysis of a whole document against a registry, the last part of
  \<^verbatim>\<open>crates/alumina-interface-core/src/graph/analysis.rs\<close>:
  \<^verbatim>\<open>analyze_graph\<close>, \<^verbatim>\<open>analyze_graph_draft\<close> and
  \<^verbatim>\<open>analyze_graph_with_supplied_inputs\<close> with the scan over the nodes they share. The accumulators of the
  scan are a record; the three loops of the source over a node's inputs, rate transitions and state
  are a definition each.
\<close>

section \<open>Reports\<close>

record state_allocation =
  sa_node :: graph_node_id
  sa_domain :: execution_domain
  sa_clock :: graph_clock_id
  sa_value_type :: graph_type_id
  sa_declared_storage_bytes :: u32
  sa_required_canonical_bytes :: u64

record channel_allocation =
  ca_source :: wire_endpoint
  ca_target :: wire_endpoint
  ca_kind :: input_channel_kind
  ca_maximum_item_bytes :: u64
  ca_maximum_total_bytes :: u64

record 'q graph_analysis =
  ga_admitted_nodes :: nat
  ga_dependency_links :: nat
  ga_total_declared_state_bytes :: nat
  ga_total_required_state_bytes :: u64
  ga_state_allocations :: "state_allocation list"
  ga_type_storage_bounds :: "type_storage_bound list"
  ga_total_channel_bytes :: u64
  ga_channel_allocations :: "channel_allocation list"
  ga_clock_rates :: "'q graph_clock_rate list"
  ga_rate_transitions :: "graph_rate_transition list"
  ga_total_rate_transition_state_bytes :: u64

record draft_analysis =
  da_required_unconnected_inputs :: "wire_endpoint list"

definition is_complete :: "draft_analysis \<Rightarrow> bool" where
  "is_complete d \<longleftrightarrow> da_required_unconnected_inputs d = []"

datatype required_input_policy = Reject | Retain

section \<open>The storage of one channel\<close>

definition channel_envelope_bytes :: u64 where
  "channel_envelope_bytes = 16"

fun channel_shape :: "type_storage_kind \<Rightarrow> input_channel_kind \<Rightarrow> (u64 \<times> u64 \<times> bool) option" where
  "channel_shape (StoreLiteral b) Synchronous = Some (b, 1, False)"
| "channel_shape (StoreEventPayload _ b) (EventQueue capacity _) = Some (b, ucast capacity, True)"
| "channel_shape (StoreStreamSample _ b _) (StreamQueue capacity _) = Some (b, ucast capacity, True)"
| "channel_shape _ _ = None"

definition channel_storage ::
  "type_storage_bound list \<Rightarrow> graph_type_id \<Rightarrow> input_channel_kind \<Rightarrow> wire_endpoint \<Rightarrow> analysis_error + u64 \<times> u64" where
  "channel_storage bounds t channel target =
     and_then (ok_or (AE_Storage (ST_UnknownType t)) (lookup_by_key t sb_value_type bounds)) (\<lambda>bound.
     and_then (ok_or (AE_ChannelStorageMismatch target) (channel_shape (sb_kind bound) channel))
       (\<lambda>(payload, capacity, queued).
     and_then (if queued then ok_or (AE_LimitExceeded ''channel item bytes'')
         (checked_add_u64 payload channel_envelope_bytes) else Inr payload) (\<lambda>item.
     and_then (ok_or (AE_LimitExceeded ''channel byte count'') (checked_mul_u64 item capacity)) (\<lambda>bytes.
     Inr (item, bytes)))))"

section \<open>Matching a node with its schema\<close>

definition validate_instance_ports ::
  "graph_node_id \<Rightarrow> string \<Rightarrow> port_definition list \<Rightarrow> port_definition list \<Rightarrow> analysis_error + unit" where
  "validate_instance_ports node aspect actual expected =
     (if length actual \<noteq> length expected
        \<or> list_ex (\<lambda>(a, e). pd_id a \<noteq> pd_id e \<or> pd_name a \<noteq> pd_name e \<or> pd_value_type a \<noteq> pd_value_type e)
            (zip actual expected)
      then Inl (AE_NodeShape node aspect) else Inr ())"

definition validate_instance_parameter ::
  "graph_node_id \<Rightarrow> 'q node_parameter \<times> parameter_contract \<Rightarrow> analysis_error + unit" where
  "validate_instance_parameter node = (\<lambda>(actual, expected).
     if np_id actual \<noteq> pc_id expected \<or> np_name actual \<noteq> pc_name expected
       \<or> tv_value_type (np_value actual) \<noteq> pc_value_type expected
     then Inl (AE_NodeShape node ''parameter contract'') else Inr ())"

definition validate_instance :: "'q node_definition \<Rightarrow> node_schema \<Rightarrow> analysis_error + unit" where
  "validate_instance n ns =
     (if \<not> domain_contains (ns_allowed_domains ns) (nd_domain n)
      then Inl (AE_DomainNotAllowed (nd_id n) (nd_domain n))
      else and_then (validate_instance_ports (nd_id n) ''input contract'' (nd_inputs n) (ns_inputs ns)) (\<lambda>_.
      and_then (validate_instance_ports (nd_id n) ''output contract'' (nd_outputs n) (ns_outputs ns)) (\<lambda>_.
      if length (nd_parameters n) \<noteq> length (ns_parameters ns)
      then Inl (AE_NodeShape (nd_id n) ''parameter contract'')
      else try_each (validate_instance_parameter (nd_id n)) (zip (nd_parameters n) (ns_parameters ns)))))"

section \<open>The scan over the nodes\<close>

record analysis_scan =
  sn_missing :: "wire_endpoint list"
  sn_schemas :: "node_schema list"
  sn_states :: "state_allocation list"
  sn_declared_state :: nat
  sn_required_state :: u64
  sn_channels :: "channel_allocation list"
  sn_channel_bytes :: u64
  sn_transitions :: "graph_rate_transition list"
  sn_transition_bytes :: u64

definition empty_scan :: analysis_scan where
  "empty_scan = \<lparr>sn_missing = [], sn_schemas = [], sn_states = [], sn_declared_state = 0, sn_required_state = 0,
     sn_channels = [], sn_channel_bytes = 0, sn_transitions = [], sn_transition_bytes = 0\<rparr>"

text \<open>The map from targets to wires. Collecting a sequence with one key twice keeps the last entry.\<close>

definition wire_connections :: "'q graph_document \<Rightarrow> wire_endpoint \<Rightarrow> (wire_endpoint \<times> graph_wire_id) option" where
  "wire_connections D = map_of (rev (map (\<lambda>w. (wd_target w, (wd_source w, wd_id w))) (gd_wires D)))"

definition admit_channel ::
  "'q graph_document \<Rightarrow> analysis_limits \<Rightarrow> type_storage_bound list \<Rightarrow> 'q node_definition \<Rightarrow> analysis_scan
     \<Rightarrow> port_definition \<Rightarrow> input_channel_contract \<Rightarrow> wire_endpoint \<Rightarrow> graph_wire_id \<Rightarrow> analysis_error + analysis_scan" where
  "admit_channel D l bounds n st p c source wire =
     (let target = WireEndpoint (nd_id n) (pd_id p) in
     and_then (ok_or (AE_ChannelStorageMismatch target)
       (map_option nd_domain (document_node D (we_node source)))) (\<lambda>source_domain.
     if ic_kind c = Synchronous \<and> source_domain \<noteq> nd_domain n
     then Inl (AE_CrossDomainSynchronous wire source_domain (nd_domain n))
     else and_then (channel_storage bounds (pd_value_type p) (ic_kind c) target) (\<lambda>(item, bytes).
     if bytes > maximum_channel_bytes_per_input l then Inl (AE_LimitExceeded ''per-input channel bytes'')
     else and_then (ok_or (AE_LimitExceeded ''total channel bytes'')
       (checked_add_u64 (sn_channel_bytes st) bytes)) (\<lambda>channel_bytes.
     if channel_bytes > maximum_total_channel_bytes l then Inl (AE_LimitExceeded ''total channel bytes'')
     else Inr (st \<lparr>sn_channel_bytes := channel_bytes,
       sn_channels := sn_channels st @ [\<lparr>ca_source = source, ca_target = target, ca_kind = ic_kind c,
         ca_maximum_item_bytes = item, ca_maximum_total_bytes = bytes\<rparr>]\<rparr>)))))"

definition analyze_input ::
  "'q graph_document \<Rightarrow> analysis_limits \<Rightarrow> required_input_policy \<Rightarrow> type_storage_bound list
     \<Rightarrow> (wire_endpoint \<Rightarrow> (wire_endpoint \<times> graph_wire_id) option) \<Rightarrow> 'q node_definition \<Rightarrow> analysis_scan
     \<Rightarrow> port_definition \<times> input_channel_contract \<Rightarrow> analysis_error + analysis_scan" where
  "analyze_input D l policy bounds connections n st = (\<lambda>(p, c).
     let target = WireEndpoint (nd_id n) (pd_id p) in
     case connections target of
       None \<Rightarrow>
         (if ic_requirement c = Required
          then (case policy of
              Reject \<Rightarrow> Inl (AE_RequiredInputUnconnected target)
            | Retain \<Rightarrow> Inr (st \<lparr>sn_missing := sn_missing st @ [target]\<rparr>))
          else Inr st)
     | Some (source, wire) \<Rightarrow> admit_channel D l bounds n st p c source wire)"

definition analyze_transition ::
  "'q external_api \<Rightarrow> 'q graph_document \<Rightarrow> analysis_limits \<Rightarrow> type_storage_bound list \<Rightarrow> 'q graph_clock_rate list
     \<Rightarrow> graph_node_id \<Rightarrow> node_schema \<Rightarrow> analysis_scan \<Rightarrow> rate_transition_contract \<Rightarrow> analysis_error + analysis_scan" where
  "analyze_transition R D l bounds rates node ns st t =
     (if length (sn_transitions st) \<ge> maximum_rate_transitions l
      then Inl (AE_LimitExceeded ''rate transition count'')
      else and_then (analyze_rate_transition R D node ns t rates bounds (maximum_rate_pattern_ticks l)) (\<lambda>x.
      and_then (ok_or (AE_LimitExceeded ''rate transition state bytes'')
        (checked_add_u64 (sn_transition_bytes st) (rt_retained_sample_bytes x))) (\<lambda>bytes.
      if bytes > maximum_total_rate_transition_state_bytes l
      then Inl (AE_LimitExceeded ''rate transition state bytes'')
      else Inr (st \<lparr>sn_transition_bytes := bytes, sn_transitions := sn_transitions st @ [x]\<rparr>))))"

definition analyze_state ::
  "analysis_limits \<Rightarrow> type_storage_bound list \<Rightarrow> 'q node_definition \<Rightarrow> analysis_scan \<Rightarrow> state_contract option
     \<Rightarrow> analysis_error + analysis_scan" where
  "analyze_state l bounds n st state = (case state of None \<Rightarrow> Inr st | Some s \<Rightarrow>
     and_then (ok_or (AE_LimitExceeded ''total state bytes'')
       (checked_add_usize (sn_declared_state st) (unat (sc_declared_storage_bytes s)))) (\<lambda>declared.
     if declared > maximum_total_state_bytes l then Inl (AE_LimitExceeded ''total state bytes'')
     else and_then (map_err AE_Storage (literal_storage_bytes bounds (sc_value_type s))) (\<lambda>required.
     if (ucast (sc_declared_storage_bytes s) :: u64) < required
     then Inl (AE_StateStorageTooSmall (nd_id n) (sc_declared_storage_bytes s) required)
     else and_then (ok_or (AE_LimitExceeded ''required state byte count'')
       (checked_add_u64 (sn_required_state st) required)) (\<lambda>total_required.
     Inr (st \<lparr>sn_declared_state := declared, sn_required_state := total_required,
       sn_states := sn_states st @ [\<lparr>sa_node = nd_id n, sa_domain = nd_domain n, sa_clock = sc_clock s,
         sa_value_type = sc_value_type s, sa_declared_storage_bytes = sc_declared_storage_bytes s,
         sa_required_canonical_bytes = required\<rparr>]\<rparr>)))))"

definition analyze_node ::
  "'q external_api \<Rightarrow> 'q graph_document \<Rightarrow> 'q node_registry \<Rightarrow> required_input_policy \<Rightarrow> type_storage_bound list
     \<Rightarrow> 'q graph_clock_rate list \<Rightarrow> analysis_scan \<Rightarrow> 'q node_definition \<Rightarrow> analysis_error + analysis_scan" where
  "analyze_node R D N policy bounds rates st n =
     and_then (ok_or (AE_UnresolvedNode (nd_id n) (nd_kind n)) (registry_schema N (nd_kind n))) (\<lambda>ns.
     and_then (validate_instance n ns) (\<lambda>_.
     and_then (try_fold (analyze_input D (nr_limits N) policy bounds (wire_connections D) n) st
       (zip (nd_inputs n) (ns_input_channels ns))) (\<lambda>st.
     and_then (try_fold (analyze_transition R D (nr_limits N) bounds rates (nd_id n) ns) st
       (ns_rate_transitions ns)) (\<lambda>st.
     and_then (analyze_state (nr_limits N) bounds n st (ns_state ns)) (\<lambda>st.
     Inr (st \<lparr>sn_schemas := sn_schemas st @ [ns]\<rparr>))))))"

definition analyze_with_policy ::
  "'q external_api \<Rightarrow> 'q graph_document \<Rightarrow> 'q node_registry \<Rightarrow> required_input_policy
     \<Rightarrow> analysis_error + 'q graph_analysis \<times> wire_endpoint list" where
  "analyze_with_policy R D N policy =
     (if gd_schema D \<noteq> nr_context_schema N \<or> gd_clocks D \<noteq> nr_context_clocks N
      then Inl AE_SemanticContextMismatch
      else and_then (map_err AE_Storage (analyze_type_storage (gd_schema D))) (\<lambda>bounds.
      and_then (resolve_clock_rates R D) (\<lambda>rates.
      and_then (try_fold (analyze_node R D N policy bounds rates) empty_scan (gd_nodes D)) (\<lambda>st.
      and_then (dependency_graph D (sn_schemas st) (maximum_dependency_links (nr_limits N))) (\<lambda>(adjacency, links).
      and_then (find_cycle adjacency (maximum_cycle_witness_links (nr_limits N))) (\<lambda>found.
      case found of
        Some cycle \<Rightarrow> Inl (AE_CombinationalCycle cycle)
      | None \<Rightarrow> Inr (\<lparr>ga_admitted_nodes = length (gd_nodes D), ga_dependency_links = links,
          ga_total_declared_state_bytes = sn_declared_state st, ga_total_required_state_bytes = sn_required_state st,
          ga_state_allocations = sn_states st, ga_type_storage_bounds = bounds,
          ga_total_channel_bytes = sn_channel_bytes st, ga_channel_allocations = sn_channels st,
          ga_clock_rates = rates, ga_rate_transitions = sn_transitions st,
          ga_total_rate_transition_state_bytes = sn_transition_bytes st\<rparr>, sn_missing st)))))))"

definition analyze_graph ::
  "'q external_api \<Rightarrow> 'q graph_document \<Rightarrow> 'q node_registry \<Rightarrow> analysis_error + 'q graph_analysis" where
  "analyze_graph R D N = and_then (analyze_with_policy R D N Reject) (\<lambda>(a, _). Inr a)"

definition analyze_graph_with_supplied_inputs ::
  "'q external_api \<Rightarrow> 'q graph_document \<Rightarrow> 'q node_registry \<Rightarrow> wire_endpoint set \<Rightarrow> analysis_error + 'q graph_analysis" where
  "analyze_graph_with_supplied_inputs R D N supplied =
     and_then (analyze_with_policy R D N Retain) (\<lambda>(a, missing).
     case find (\<lambda>e. e \<notin> supplied) missing of
       Some e \<Rightarrow> Inl (AE_RequiredInputUnconnected e)
     | None \<Rightarrow> Inr a)"

definition analyze_graph_draft ::
  "'q external_api \<Rightarrow> 'q graph_document \<Rightarrow> 'q node_registry \<Rightarrow> analysis_error + draft_analysis" where
  "analyze_graph_draft R D N =
     and_then (analyze_with_policy R D N Retain) (\<lambda>(_, missing). Inr \<lparr>da_required_unconnected_inputs = missing\<rparr>)"

section \<open>Matching a node with its schema, declaratively\<close>

definition instance_ok :: "'q node_definition \<Rightarrow> node_schema \<Rightarrow> bool" where
  "instance_ok n ns \<longleftrightarrow> domain_contains (ns_allowed_domains ns) (nd_domain n)
     \<and> nd_inputs n = ns_inputs ns \<and> nd_outputs n = ns_outputs ns
     \<and> list_all2 (\<lambda>a e. np_id a = pc_id e \<and> np_name a = pc_name e \<and> tv_value_type (np_value a) = pc_value_type e)
         (nd_parameters n) (ns_parameters ns)"

lemma port_eq_iff:
  "a = e \<longleftrightarrow> pd_id a = pd_id e \<and> pd_name a = pd_name e \<and> pd_value_type a = pd_value_type (e :: port_definition)"
  by (auto intro: port_definition.equality)

lemma validate_instance_ports_iff:
  "validate_instance_ports node aspect actual expected = Inr () \<longleftrightarrow> actual = expected"
proof -
  have "validate_instance_ports node aspect actual expected = Inr () \<longleftrightarrow> list_all2 (=) actual expected"
    by (simp add: validate_instance_ports_def list_all2_iff list_ex_iff port_eq_iff split_def)
  then show ?thesis by (simp add: list.rel_eq)
qed

lemma validate_instance_iff: "validate_instance n ns = Inr () \<longleftrightarrow> instance_ok n ns"
  by (auto simp: validate_instance_def instance_ok_def validate_instance_ports_iff list_all2_iff
      validate_instance_parameter_def split: if_splits)

section \<open>Draft runs and strict runs\<close>

text \<open>
  A draft run keeps the missing inputs that a strict run rejects. \<open>runs_agree\<close> relates one draft result with one
  strict result from the same state: they are the same when nothing new is missing, and otherwise the
  strict run fails at the first input that the draft run records. The relation is closed under
  sequencing and under loops, whatever else the two runs do.
\<close>

definition runs_agree :: "('s \<Rightarrow> 'm list) \<Rightarrow> ('m \<Rightarrow> 'e) \<Rightarrow> 's \<Rightarrow> 'e + 's \<Rightarrow> 'e + 's \<Rightarrow> bool" where
  "runs_agree missing blocked s draft strict \<longleftrightarrow> (case draft of
     Inl e \<Rightarrow> \<exists>e'. strict = Inl e'
   | Inr s' \<Rightarrow> \<exists>new. missing s' = missing s @ new \<and>
       strict = (case new of [] \<Rightarrow> Inr s' | m # _ \<Rightarrow> Inl (blocked m)))"

lemma runs_agree_same:
  "(\<And>s'. run = Inr s' \<Longrightarrow> missing s' = missing s) \<Longrightarrow> runs_agree missing blocked s run run"
  by (auto simp: runs_agree_def split: sum.splits)

lemma runs_agree_and_then:
  assumes "runs_agree missing blocked s draft strict"
    and next_step: "\<And>s'. draft = Inr s' \<Longrightarrow> runs_agree missing blocked s' (f s') (g s')"
  shows "runs_agree missing blocked s (and_then draft f) (and_then strict g)"
proof (cases draft)
  case (Inr s')
  with assms(1) obtain new where new: "missing s' = missing s @ new"
    "strict = (case new of [] \<Rightarrow> Inr s' | m # _ \<Rightarrow> Inl (blocked m))"
    by (auto simp: runs_agree_def)
  from next_step[OF Inr] show ?thesis
  proof (cases "f s'")
    case (Inl e)
    with next_step[OF Inr] new Inr show ?thesis by (cases new) (auto simp: runs_agree_def)
  next
    case (Inr s'')
    with next_step[OF \<open>draft = Inr s'\<close>] obtain later where "missing s'' = missing s' @ later"
      "g s' = (case later of [] \<Rightarrow> Inr s'' | m # _ \<Rightarrow> Inl (blocked m))"
      by (auto simp: runs_agree_def)
    with new Inr \<open>draft = Inr s'\<close> show ?thesis
      by (cases new) (auto simp: runs_agree_def intro!: exI[of _ "new @ later"])
  qed
qed (use assms(1) in \<open>auto simp: runs_agree_def\<close>)

locale draft_scan =
  fixes missing :: "'s \<Rightarrow> 'm list" and blocked :: "'m \<Rightarrow> 'e"
    and draft strict :: "'s \<Rightarrow> 'a \<Rightarrow> 'e + 's"
  assumes step: "runs_agree missing blocked s (draft s x) (strict s x)"
begin

lemma loop: "runs_agree missing blocked s (try_fold draft s xs) (try_fold strict s xs)"
  by (induction xs arbitrary: s) (auto intro: runs_agree_same runs_agree_and_then step)

end

lemma admit_channel_missing:
  "admit_channel D l bounds n s p c source wire = Inr s' \<Longrightarrow> sn_missing s' = sn_missing s \<and> sn_schemas s' = sn_schemas s"
  by (auto simp: admit_channel_def Let_def split: if_splits)

interpretation input_scan: draft_scan sn_missing AE_RequiredInputUnconnected
  "analyze_input D l Retain bounds connections n" "analyze_input D l Reject bounds connections n"
proof
  show "runs_agree sn_missing AE_RequiredInputUnconnected s (analyze_input D l Retain bounds connections n s x)
      (analyze_input D l Reject bounds connections n s x)" for s x
  proof (cases "connections (WireEndpoint (nd_id n) (pd_id (fst x)))")
    case None
    then show ?thesis
      by (auto simp: analyze_input_def Let_def runs_agree_def split_def)
  next
    case (Some c)
    then have "analyze_input D l policy bounds connections n s x
        = admit_channel D l bounds n s (fst x) (snd x) (fst c) (snd c)" for policy
      by (simp add: analyze_input_def split_def)
    then show ?thesis by (auto intro: runs_agree_same dest: admit_channel_missing)
  qed
qed

lemma analyze_transition_missing:
  "analyze_transition R D l bounds rates node ns s t = Inr s' \<Longrightarrow> sn_missing s' = sn_missing s \<and> sn_schemas s' = sn_schemas s"
  by (auto simp: analyze_transition_def split: if_splits)

lemma analyze_state_missing:
  "analyze_state l bounds n s state = Inr s' \<Longrightarrow> sn_missing s' = sn_missing s \<and> sn_schemas s' = sn_schemas s"
  by (auto simp: analyze_state_def split: option.splits if_splits)

lemma transitions_missing:
  "try_fold (analyze_transition R D l bounds rates node ns) s ts = Inr s'
     \<Longrightarrow> sn_missing s' = sn_missing s \<and> sn_schemas s' = sn_schemas s"
  by (rule try_fold_invariant[where P = "\<lambda>t. sn_missing t = sn_missing s \<and> sn_schemas t = sn_schemas s"])
    (auto dest: analyze_transition_missing)

interpretation node_scan: draft_scan sn_missing AE_RequiredInputUnconnected
  "analyze_node R D N Retain bounds rates" "analyze_node R D N Reject bounds rates"
proof
  show "runs_agree sn_missing AE_RequiredInputUnconnected s (analyze_node R D N Retain bounds rates s n)
      (analyze_node R D N Reject bounds rates s n)" for s n
  proof (cases "registry_schema N (nd_kind n)")
    case (Some ns)
    show ?thesis
    proof (cases "validate_instance n ns")
      case (Inr u)
      show ?thesis unfolding analyze_node_def Some Inr ok_or_def option.case and_then.simps
        by (intro runs_agree_and_then input_scan.loop runs_agree_same)
          (auto dest: transitions_missing analyze_state_missing)
    qed (simp add: analyze_node_def Some runs_agree_def)
  qed (simp add: analyze_node_def runs_agree_def)
qed

section \<open>What a successful scan has admitted\<close>

lemma try_fold_each:
  assumes "try_fold f s xs = Inr s'" and "x \<in> set xs"
  shows "\<exists>t t'. f t x = Inr t'"
  using assms by (induction xs arbitrary: s) auto

lemma wire_connections_iff:
  assumes "wires_wf D"
  shows "wire_connections D target = Some (source, wire) \<longleftrightarrow>
    (\<exists>w \<in> set (gd_wires D). wd_id w = wire \<and> wd_source w = source \<and> wd_target w = target)"
proof -
  have "distinct (map fst (rev (map (\<lambda>w. (wd_target w, (wd_source w, wd_id w))) (gd_wires D))))"
    using assms by (simp add: wires_wf_def rev_map[symmetric] comp_def)
  then show ?thesis by (auto simp: wire_connections_def)
qed

text \<open>The rules for one connected or unconnected input.\<close>

definition input_admitted ::
  "'q graph_document \<Rightarrow> 'q node_definition \<Rightarrow> port_definition \<Rightarrow> input_channel_contract \<Rightarrow> bool" where
  "input_admitted D n p c \<longleftrightarrow> (case wire_connections D (WireEndpoint (nd_id n) (pd_id p)) of
     None \<Rightarrow> ic_requirement c \<noteq> Required
   | Some (source, wire) \<Rightarrow> \<exists>sn. document_node D (we_node source) = Some sn
       \<and> (ic_kind c = Synchronous \<longrightarrow> nd_domain sn = nd_domain n))"

lemma analyze_input_admitted:
  "analyze_input D l Reject bounds (wire_connections D) n s (p, c) = Inr s' \<Longrightarrow> input_admitted D n p c"
  by (auto simp: analyze_input_def input_admitted_def admit_channel_def Let_def split: option.splits if_splits)

definition node_admitted :: "'q graph_document \<Rightarrow> 'q node_registry \<Rightarrow> 'q node_definition \<Rightarrow> node_schema \<Rightarrow> bool" where
  "node_admitted D N n ns \<longleftrightarrow> registry_schema N (nd_kind n) = Some ns \<and> instance_ok n ns"

definition inputs_admitted :: "'q graph_document \<Rightarrow> 'q node_definition \<Rightarrow> node_schema \<Rightarrow> bool" where
  "inputs_admitted D n ns \<longleftrightarrow> (\<forall>(p, c) \<in> set (zip (nd_inputs n) (ns_input_channels ns)). input_admitted D n p c)"

lemma analyze_input_schemas:
  assumes "analyze_input D l policy bounds connections n s x = Inr s'"
  shows "sn_schemas s' = sn_schemas s"
proof (cases "connections (WireEndpoint (nd_id n) (pd_id (fst x)))")
  case (Some c)
  with assms have "admit_channel D l bounds n s (fst x) (snd x) (fst c) (snd c) = Inr s'"
    by (simp add: analyze_input_def split_def)
  then show ?thesis by (simp add: admit_channel_missing)
qed (use assms in \<open>auto simp: analyze_input_def split_def Let_def split: if_splits required_input_policy.splits\<close>)

lemma inputs_schemas:
  "try_fold (analyze_input D l policy bounds connections n) s xs = Inr s' \<Longrightarrow> sn_schemas s' = sn_schemas s"
  by (rule try_fold_invariant[where P = "\<lambda>t. sn_schemas t = sn_schemas s"]) (auto dest: analyze_input_schemas)

lemma analyze_node_admitted:
  assumes "analyze_node R D N policy bounds rates s n = Inr s'"
  shows "\<exists>ns. sn_schemas s' = sn_schemas s @ [ns] \<and> node_admitted D N n ns
    \<and> (policy = Reject \<longrightarrow> inputs_admitted D n ns)"
proof -
  from assms obtain ns s1 s2 s3 where ns: "registry_schema N (nd_kind n) = Some ns" "validate_instance n ns = Inr ()"
    and inputs: "try_fold (analyze_input D (nr_limits N) policy bounds (wire_connections D) n) s
      (zip (nd_inputs n) (ns_input_channels ns)) = Inr s1"
    and transitions: "try_fold (analyze_transition R D (nr_limits N) bounds rates (nd_id n) ns) s1 (ns_rate_transitions ns) = Inr s2"
    and state: "analyze_state (nr_limits N) bounds n s2 (ns_state ns) = Inr s3"
    and s': "s' = s3 \<lparr>sn_schemas := sn_schemas s3 @ [ns]\<rparr>"
    by (auto simp: analyze_node_def)
  from inputs_schemas[OF inputs] transitions_missing[OF transitions] analyze_state_missing[OF state] s'
  have "sn_schemas s' = sn_schemas s @ [ns]" by simp
  moreover have "inputs_admitted D n ns" if "policy = Reject"
    using that try_fold_each[OF inputs] by (auto simp: inputs_admitted_def dest: analyze_input_admitted)
  ultimately show ?thesis using ns by (auto simp: node_admitted_def validate_instance_iff)
qed

lemma nodes_admitted:
  "try_fold (analyze_node R D N policy bounds rates) s nodes = Inr s' \<Longrightarrow>
     \<exists>schemas. sn_schemas s' = sn_schemas s @ schemas
       \<and> list_all2 (\<lambda>n ns. node_admitted D N n ns \<and> (policy = Reject \<longrightarrow> inputs_admitted D n ns)) nodes schemas"
proof (induction nodes arbitrary: s)
  case (Cons n nodes)
  then obtain t where t: "analyze_node R D N policy bounds rates s n = Inr t"
    "try_fold (analyze_node R D N policy bounds rates) t nodes = Inr s'" by auto
  from analyze_node_admitted[OF t(1)] Cons.IH[OF t(2)] obtain ns schemas where
    "sn_schemas t = sn_schemas s @ [ns]" "node_admitted D N n ns \<and> (policy = Reject \<longrightarrow> inputs_admitted D n ns)"
    "sn_schemas s' = sn_schemas t @ schemas"
    "list_all2 (\<lambda>n ns. node_admitted D N n ns \<and> (policy = Reject \<longrightarrow> inputs_admitted D n ns)) nodes schemas"
    by blast
  then show ?case by (intro exI[of _ "ns # schemas"]) simp
qed simp

definition resolved_schemas :: "'q graph_document \<Rightarrow> 'q node_registry \<Rightarrow> node_schema list \<Rightarrow> bool" where
  "resolved_schemas D N schemas \<longleftrightarrow> list_all2 (node_admitted D N) (gd_nodes D) schemas"

lemma list_all2_right: "list_all2 P xs ys \<Longrightarrow> y \<in> set ys \<Longrightarrow> \<exists>x \<in> set xs. P x y"
  by (induction rule: list_all2_induct) auto

lemma registry_schema_member: "registry_schema N k = Some ns \<Longrightarrow> ns \<in> set (nr_schemas N)"
  by (auto simp: registry_schema_def dest: lookup_by_key_Some)

lemma graph_endpoint_member:
  "n \<in> set (gd_nodes D) \<Longrightarrow> p \<in> set (nd_inputs n @ nd_outputs n) \<Longrightarrow>
     WireEndpoint (nd_id n) (pd_id p) \<in> set (graph_endpoints D)"
  by (auto simp: graph_endpoints_def)

lemma resolved_endpoints_known:
  assumes "wires_wf D" and "registry_wf N" and "resolved_schemas D N schemas"
  shows "endpoints_known D schemas"
proof -
  have "WireEndpoint (nd_id n) (od_output d) \<in> set (graph_endpoints D)
      \<and> (\<forall>i \<in> set (od_inputs d). WireEndpoint (nd_id n) i \<in> set (graph_endpoints D))"
    if member: "(n, ns) \<in> set (zip (gd_nodes D) schemas)" and d: "d \<in> set (ns_output_dependencies ns)" for n ns d
  proof -
    from member assms(3) have "node_admitted D N n ns" and n: "n \<in> set (gd_nodes D)"
      by (auto simp: resolved_schemas_def list_all2_iff dest: set_zip_leftD)
    then have ns: "ns \<in> set (nr_schemas N)" and ports: "nd_inputs n = ns_inputs ns" "nd_outputs n = ns_outputs ns"
      by (auto simp: node_admitted_def instance_ok_def dest: registry_schema_member)
    from ns assms(2) have "list_all2 (dependency_ok ns) (ns_outputs ns) (ns_output_dependencies ns)"
      by (auto simp: registry_wf_def node_schema_wf_def)
    with d obtain p where "p \<in> set (ns_outputs ns)" "dependency_ok ns p d"
      using list_all2_right[OF _ d] by blast
    with ports graph_endpoint_member[OF n] show ?thesis by (auto simp: dependency_ok_def)
  qed
  moreover have "wd_source w \<in> set (graph_endpoints D) \<and> wd_target w \<in> set (graph_endpoints D)"
    if "w \<in> set (gd_wires D)" for w
  proof -
    from that assms(1) have "wire_ok D w" by (simp add: wires_wf_def)
    then show ?thesis using graph_endpoint_member by (fastforce simp: wire_ok_def)
  qed
  ultimately show ?thesis by (auto simp: endpoints_known_def)
qed

text \<open>The stages of an analysis that succeeds, and of one that ends in the cycle search.\<close>

lemma scan_resolved:
  assumes "try_fold (analyze_node R D N policy bounds rates) empty_scan (gd_nodes D) = Inr st"
  shows "resolved_schemas D N (sn_schemas st)
    \<and> (policy = Reject \<longrightarrow> list_all2 (inputs_admitted D) (gd_nodes D) (sn_schemas st))"
  using nodes_admitted[OF assms] by (auto simp: empty_scan_def resolved_schemas_def elim: list_all2_mono)

lemma analyze_with_policy_Inr:
  assumes "analyze_with_policy R D N policy = Inr (a, missing)"
  obtains (stages) bounds rates st adjacency where
    "gd_schema D = nr_context_schema N" "gd_clocks D = nr_context_clocks N"
    and "analyze_type_storage (gd_schema D) = Inr bounds" "resolve_clock_rates R D = Inr rates"
    and "try_fold (analyze_node R D N policy bounds rates) empty_scan (gd_nodes D) = Inr st"
    and "dependency_graph D (sn_schemas st) (maximum_dependency_links (nr_limits N)) = Inr (adjacency, ga_dependency_links a)"
    and "find_cycle adjacency (maximum_cycle_witness_links (nr_limits N)) = Inr None"
    and "a = \<lparr>ga_admitted_nodes = length (gd_nodes D), ga_dependency_links = ga_dependency_links a,
          ga_total_declared_state_bytes = sn_declared_state st, ga_total_required_state_bytes = sn_required_state st,
          ga_state_allocations = sn_states st, ga_type_storage_bounds = bounds,
          ga_total_channel_bytes = sn_channel_bytes st, ga_channel_allocations = sn_channels st,
          ga_clock_rates = rates, ga_rate_transitions = sn_transitions st,
          ga_total_rate_transition_state_bytes = sn_transition_bytes st\<rparr>"
    and "missing = sn_missing st"
  using assms by (auto simp: analyze_with_policy_def split: if_splits option.splits prod.splits)

section \<open>Which errors a scan can end in\<close>

definition is_cycle_error :: "analysis_error \<Rightarrow> bool" where
  "is_cycle_error e \<longleftrightarrow> e = AE_InvalidCycleWitness \<or> (\<exists>c. e = AE_CombinationalCycle c)"

definition is_walk_error :: "analysis_error \<Rightarrow> bool" where
  "is_walk_error e \<longleftrightarrow> e = AE_IndexPanic \<or> e = AE_InvalidCycleWitness \<or> (\<exists>c. e = AE_ClockResolution c)"

text \<open>
  The errors that contradict what the schema and the registry have validated: a channel whose type is
  stored as another class, a type that is unknown or refers to itself, and a rate transition
  whose ports are missing or are no runtime ports.
\<close>

definition is_contradiction :: "analysis_error \<Rightarrow> bool" where
  "is_contradiction e \<longleftrightarrow> (case e of
     AE_ChannelStorageMismatch _ \<Rightarrow> True
   | AE_Storage x \<Rightarrow> (\<exists>t. x = ST_UnknownType t \<or> x = ST_RecursiveType t)
   | AE_NodeShape _ aspect \<Rightarrow> aspect \<in> {''rate transition input'', ''rate transition output'',
       ''rate transition input type'', ''rate transition output type''}
   | _ \<Rightarrow> False)"

text \<open>All errors that no input accepted by the constructors should produce.\<close>

definition is_internal_error :: "analysis_error \<Rightarrow> bool" where
  "is_internal_error e \<longleftrightarrow> is_walk_error e \<or> is_contradiction e"

text \<open>The errors of the scan that are neither about cycles nor internal, except inside a rate transition.\<close>

definition is_scan_error :: "analysis_error \<Rightarrow> bool" where
  "is_scan_error e \<longleftrightarrow> \<not> is_cycle_error e \<and> \<not> is_walk_error e"

lemmas scan_error_defs = is_scan_error_def is_cycle_error_def is_walk_error_def

lemma admit_channel_error: "admit_channel D l bounds n s p c source wire = Inl e \<Longrightarrow> is_scan_error e"
  by (auto simp: admit_channel_def Let_def channel_storage_def scan_error_defs split: if_splits)

lemma analyze_input_error: "analyze_input D l policy bounds connections n s x = Inl e \<Longrightarrow> is_scan_error e"
  by (cases "connections (WireEndpoint (nd_id n) (pd_id (fst x)))")
    (auto simp: analyze_input_def split_def Let_def scan_error_defs split: if_splits required_input_policy.splits
      dest: admit_channel_error[unfolded scan_error_defs])

lemma analyze_state_error: "analyze_state l bounds n s state = Inl e \<Longrightarrow> is_scan_error e"
  by (auto simp: analyze_state_def scan_error_defs split: option.splits if_splits)

lemma validate_instance_error: "validate_instance n ns = Inl e \<Longrightarrow> is_scan_error e"
proof -
  have "try_each (validate_instance_parameter node) xs = Inl e \<Longrightarrow> is_scan_error e" for node xs
    by (induction xs) (auto simp: validate_instance_parameter_def scan_error_defs split: if_splits)
  then show "validate_instance n ns = Inl e \<Longrightarrow> is_scan_error e"
    by (auto simp: validate_instance_def validate_instance_ports_def scan_error_defs split: if_splits)
qed

text \<open>Inside a rate transition the internal errors need a rate that is missing or zero ticks.\<close>

lemma analyze_rate_transition_error:
  assumes "analyze_rate_transition R D node ns t rates bounds maximum = Inl e"
  shows "is_scan_error e
    \<or> (\<exists>p r. runtime_port (gd_schema D) p = Some r \<and> clock_rate rates (rp_clock r) = Inl e)
    \<or> (\<exists>source target source_rate target_rate target_ticks.
        clock_rate rates source = Inr source_rate \<and> clock_rate rates target = Inr target_rate
        \<and> u64_try_from (rq_denominator R (rq_div R (cr_ticks_per_second source_rate) (cr_ticks_per_second target_rate)))
          = Some target_ticks \<and> target_ticks = 0 \<and> e = AE_IndexPanic)"
  using assms
  by (auto simp: analyze_rate_transition_def Let_def scan_error_defs required_capacity_def split: if_splits)

lemma clock_rate_error: "clock_rate rates c = Inl e \<Longrightarrow> e = AE_ClockResolution c"
  by (simp add: clock_rate_def)

lemma exact_rates_resolve:
  assumes "clocks_wf D" and "list_all2 (exact_rate v D) (gd_clocks D) rates" and "clock_resolves D c"
  shows "clock_rate rates c \<noteq> Inl e"
proof -
  from assms(2) have keys: "map cr_clock rates = map cd_id (gd_clocks D)"
    by (auto simp: list_all2_conv_all_nth exact_rate_def intro: nth_equalityI)
  then have "canonical_table cr_clock rates" using assms(1) by (simp add: clocks_wf_def canonical_table_def)
  moreover from assms(3) keys obtain r where "r \<in> set rates" "cr_clock r = c"
    by (metis clock_resolves_def image_iff list.set_map)
  ultimately have "lookup_by_key c cr_clock rates = Some r" by (simp add: lookup_by_key_iff)
  then show ?thesis by (simp add: clock_rate_def)
qed

lemma runtime_port_clock_resolves:
  assumes "clocks_wf D" and "runtime_port (gd_schema D) p = Some r"
  shows "clock_resolves D (rp_clock r)"
proof -
  from assms(2) obtain d where d: "value_type (gd_schema D) (pd_value_type p) = Some d"
    "type_clock (td_kind d) = Some (rp_clock r)"
    by (auto simp: runtime_port_def split: option.splits type_kind.splits)
  then have "d \<in> set (gs_types (gd_schema D))" by (auto simp: value_type_lookup dest: lookup_by_key_Some)
  with assms(1) d(2) show ?thesis by (simp add: clocks_wf_def)
qed

lemma exact_target_ticks:
  assumes wf: "clocks_wf D" and R: "rational_arithmetic R v" and exact: "list_all2 (exact_rate v D) (gd_clocks D) rates"
    and "clock_rate rates source = Inr x" and "clock_rate rates target = Inr y"
    and "u64_try_from (rq_denominator R (rq_div R (cr_ticks_per_second x) (cr_ticks_per_second y))) = Some ticks"
  shows "ticks \<noteq> 0"
proof -
  have "0 < v (cr_ticks_per_second x)" "0 < v (cr_ticks_per_second y)"
    using exact_rate_lookup[OF wf exact] assms(4,5) by blast+
  then have "0 < v (rq_div R (cr_ticks_per_second x) (cr_ticks_per_second y))"
    by (simp add: rational_arithmeticD[OF R])
  from reduced_ratio(2)[OF this] u64_try_from_Some[OF assms(6)] rational_arithmeticD(6)[OF R]
  show ?thesis by (auto simp: unat_eq_zero)
qed

lemma exact_transition_error:
  assumes "clocks_wf D" and "rational_arithmetic R v" and "list_all2 (exact_rate v D) (gd_clocks D) rates"
    and "analyze_rate_transition R D node ns t rates bounds maximum = Inl e"
  shows "is_scan_error e"
  using analyze_rate_transition_error[OF assms(4)] runtime_port_clock_resolves[OF assms(1)]
    exact_rates_resolve[OF assms(1,3)] exact_target_ticks[OF assms(1-3)]
  by blast

lemma analyze_node_error:
  assumes "analyze_node R D N policy bounds rates s n = Inl e"
  shows "is_scan_error e
    \<or> (\<exists>ns t. analyze_rate_transition R D (nd_id n) ns t rates bounds (maximum_rate_pattern_ticks (nr_limits N)) = Inl e)"
proof -
  have inputs: "is_scan_error e" if "try_fold (analyze_input D l policy bounds connections n) s xs = Inl e" for l connections s xs
    using try_fold_Inl[OF that, of "\<lambda>_. True"] analyze_input_error by blast
  have transitions: "is_scan_error e \<or> (\<exists>t. analyze_rate_transition R D (nd_id n) ns t rates bounds
      (maximum_rate_pattern_ticks (nr_limits N)) = Inl e)"
    if "try_fold (analyze_transition R D (nr_limits N) bounds rates (nd_id n) ns) s ts = Inl e" for ns s ts
  proof -
    from try_fold_Inl[OF that, of "\<lambda>_. True"] obtain s' t where
      "analyze_transition R D (nr_limits N) bounds rates (nd_id n) ns s' t = Inl e" by blast
    then show ?thesis by (auto simp: analyze_transition_def scan_error_defs split: if_splits)
  qed
  from assms show ?thesis
    unfolding analyze_node_def
    apply (simp only: and_then_Inl ok_or_Inl)
    apply (elim disjE exE conjE)
    subgoal by (simp add: scan_error_defs)
    subgoal by (blast dest: validate_instance_error)
    subgoal by (blast dest: inputs)
    subgoal by (blast dest: transitions)
    subgoal by (blast dest: analyze_state_error)
    subgoal by simp
    done
qed

lemma analyze_node_no_cycle_error:
  assumes "analyze_node R D N policy bounds rates s n = Inl e"
  shows "\<not> is_cycle_error e"
  using analyze_node_error[OF assms]
  by (auto dest!: analyze_rate_transition_error clock_rate_error simp: scan_error_defs)

lemma follow_clock_error:
  "follow_clock R D clock current multiplier remaining = Inl e \<Longrightarrow> \<exists>c. e = AE_ClockResolution c"
proof (induction remaining arbitrary: current multiplier)
  case (Suc remaining)
  show ?case
  proof (cases "document_clock D current")
    case (Some d)
    with Suc show ?thesis by (cases "cd_kind d") auto
  qed (use Suc.prems in auto)
qed auto

lemma resolve_clock_rates_error:
  assumes "resolve_clock_rates R D = Inl e"
  shows "\<exists>c. e = AE_ClockResolution c"
proof -
  from try_fold_Inl[OF assms[unfolded resolve_clock_rates_def], of "\<lambda>_. True"] obtain c where
    "resolve_clock_rate R D c = Inl e" by auto
  then show ?thesis by (auto simp: resolve_clock_rate_def dest: follow_clock_error)
qed

text \<open>An analysis that fails with a cycle error fails in the cycle search, which ran on the resolved schemas.\<close>

lemma analyze_with_policy_cycle_error:
  assumes "analyze_with_policy R D N policy = Inl e" and cyc: "is_cycle_error e" and "wires_wf D" and "registry_wf N"
  shows "\<exists>schemas cycle. e = AE_CombinationalCycle cycle \<and> resolved_schemas D N schemas
    \<and> tick_cycle (tick_dependencies D schemas) cycle
    \<and> length cycle \<le> maximum_cycle_witness_links (nr_limits N)"
proof (cases "\<exists>bounds rates st. try_fold (analyze_node R D N policy bounds rates) empty_scan (gd_nodes D) = Inl e")
  case True
  then obtain bounds rates where "try_fold (analyze_node R D N policy bounds rates) empty_scan (gd_nodes D) = Inl e" by blast
  from try_fold_Inl[OF this, of "\<lambda>_. True"] analyze_node_no_cycle_error cyc show ?thesis by blast
next
  case False
  have other: "\<not> is_cycle_error AE_SemanticContextMismatch" "\<not> is_cycle_error (AE_Storage x)"
    "\<not> is_cycle_error (AE_ClockResolution c)" "\<not> is_cycle_error (AE_LimitExceeded what)" for x c what
    by (simp_all add: is_cycle_error_def)
  note ends = assms(1)[unfolded analyze_with_policy_def]
  have "\<exists>bounds rates st. try_fold (analyze_node R D N policy bounds rates) empty_scan (gd_nodes D) = Inr st
    \<and> (dependency_graph D (sn_schemas st) (maximum_dependency_links (nr_limits N)) = Inl e
      \<or> (\<exists>A n. dependency_graph D (sn_schemas st) (maximum_dependency_links (nr_limits N)) = Inr (A, n)
          \<and> (find_cycle A (maximum_cycle_witness_links (nr_limits N)) = Inl e
            \<or> (\<exists>c. find_cycle A (maximum_cycle_witness_links (nr_limits N)) = Inr (Some c) \<and> e = AE_CombinationalCycle c))))"
    using ends False cyc other resolve_clock_rates_error[of R D e]
    by (auto split: if_splits prod.splits option.splits) blast+
  then obtain bounds rates st where
    st: "try_fold (analyze_node R D N policy bounds rates) empty_scan (gd_nodes D) = Inr st"
    and last: "dependency_graph D (sn_schemas st) (maximum_dependency_links (nr_limits N)) = Inl e
      \<or> (\<exists>A n. dependency_graph D (sn_schemas st) (maximum_dependency_links (nr_limits N)) = Inr (A, n)
          \<and> (find_cycle A (maximum_cycle_witness_links (nr_limits N)) = Inl e
            \<or> (\<exists>c. find_cycle A (maximum_cycle_witness_links (nr_limits N)) = Inr (Some c) \<and> e = AE_CombinationalCycle c)))"
    by blast
  from scan_resolved[OF st] have resolved: "resolved_schemas D N (sn_schemas st)" ..
  note known = resolved_endpoints_known[OF assms(3,4) resolved]
  from last dependency_graph_result(2)[OF known] other(4) cyc obtain A n where
    graph: "dependency_graph D (sn_schemas st) (maximum_dependency_links (nr_limits N)) = Inr (A, n)"
    and found: "find_cycle A (maximum_cycle_witness_links (nr_limits N)) = Inl e
      \<or> (\<exists>c. find_cycle A (maximum_cycle_witness_links (nr_limits N)) = Inr (Some c) \<and> e = AE_CombinationalCycle c)"
    by blast
  note range = dependency_graph_in_range[OF known graph]
  from found find_cycle_outcome(1)[OF range] other(4) cyc obtain c where
    c: "find_cycle A (maximum_cycle_witness_links (nr_limits N)) = Inr (Some c)" "e = AE_CombinationalCycle c" by blast
  with find_cycle_outcome(2)[OF range] cyclic_iff_tick_cycle[OF known graph] resolved show ?thesis by blast
qed

section \<open>No error contradicts the validators\<close>

text \<open>
  Over an exact table of storage ceilings every channel, transition and state of a well-formed
  registry finds the class of storage it needs, so what the scan of the nodes rejects it
  blames on the document or the limits.
\<close>

lemma exact_bounds_lookup:
  assumes "schema_wf R S" and "list_all2 (exact_bound S) (gs_types S) bounds" and "value_type S t = Some d"
  shows "\<exists>b. lookup_by_key t sb_value_type bounds = Some b \<and> kind_bound S (td_kind d) (sb_kind b)"
proof -
  from assms(2) have keys: "map sb_value_type bounds = map td_id (gs_types S)"
    by (auto simp: list_all2_conv_all_nth intro: nth_equalityI)
  then have table: "canonical_table sb_value_type bounds"
    using assms(1) by (simp add: canonical_table_def schema_wf_def)
  from assms(1,3) have "d \<in> set (gs_types S)" "td_id d = t" by (simp_all add: value_type_iff)
  then obtain i where i: "i < length (gs_types S)" "gs_types S ! i = d" by (auto simp: in_set_conv_nth)
  with assms(2) have "exact_bound S d (bounds ! i)" "i < length bounds"
    by (auto simp: list_all2_conv_all_nth)
  with \<open>td_id d = t\<close> show ?thesis by (intro exI[of _ "bounds ! i"]) (simp add: lookup_by_key_iff[OF table])
qed

lemma channel_shape_exists:
  "channel_fits l k channel \<Longrightarrow> kind_bound S k b \<Longrightarrow> \<exists>s. channel_shape b channel = Some s"
  by (cases k; cases channel; cases b) auto

lemma channel_storage_error:
  assumes "schema_wf R S" and "list_all2 (exact_bound S) (gs_types S) bounds" and "channel_ok l S p c"
    and "channel_storage bounds (pd_value_type p) (ic_kind c) target = Inl e"
  shows "\<exists>what. e = AE_LimitExceeded what"
proof -
  from assms(3) obtain d where d: "value_type S (pd_value_type p) = Some d" "channel_fits l (td_kind d) (ic_kind c)"
    by (auto simp: channel_ok_def)
  from exact_bounds_lookup[OF assms(1,2) d(1)] obtain b where
    b: "lookup_by_key (pd_value_type p) sb_value_type bounds = Some b" "kind_bound S (td_kind d) (sb_kind b)" by blast
  from channel_shape_exists[OF d(2) b(2)] obtain s where "channel_shape (sb_kind b) (ic_kind c) = Some s" by blast
  with assms(4) b(1) show ?thesis
    by (auto simp: channel_storage_def split: prod.split_asm if_splits)
qed


definition blames_request :: "analysis_error \<Rightarrow> bool" where
  "blames_request e \<longleftrightarrow> \<not> is_contradiction e \<and> (\<forall>x. e \<noteq> AE_Storage x)"

lemmas blames_defs = blames_request_def is_contradiction_def

lemma admit_channel_blames:
  assumes "document_wf R D" and "schema_wf R (gd_schema D)" and "list_all2 (exact_bound (gd_schema D)) (gs_types (gd_schema D)) bounds"
    and "channel_ok l' (gd_schema D) p c" and "wire_connections D (WireEndpoint (nd_id n) (pd_id p)) = Some (source, wire)"
    and "admit_channel D l bounds n s p c source wire = Inl e"
  shows "blames_request e"
proof -
  from assms(1) have wires: "wires_wf D" by (simp add: document_wf_def)
  with assms(5) obtain w where w: "w \<in> set (gd_wires D)" "wd_source w = source" by (auto simp: wire_connections_iff)
  with wires obtain sn where "sn \<in> set (gd_nodes D)" "we_node source = nd_id sn"
    by (fastforce simp: wires_wf_def wire_ok_def)
  moreover from assms(1) have "canonical_table nd_id (gd_nodes D)" by (simp add: document_wf_def nodes_wf_def)
  ultimately have "document_node D (we_node source) = Some sn" by (simp add: document_node_lookup lookup_by_key_iff)
  with assms(6) show ?thesis
    by (auto simp: admit_channel_def Let_def blames_defs split: if_splits
        dest!: channel_storage_error[OF assms(2-4)])
qed

lemma kind_ceiling_literal: "kind_ceiling S k n \<Longrightarrow> kind_bound S k b \<Longrightarrow> \<exists>m. b = StoreLiteral m"
  by (cases k; cases b) (auto simp del: kind_ceiling_simps(1-11,14-15))

lemma state_path_literal:
  assumes "schema_wf R S" and bounds: "list_all2 (exact_bound S) (gs_types S) bounds"
    and "value_type S (pd_value_type p) = Some d" and path: "state_path_value_type S clock p = Some t"
  shows "\<exists>b. literal_storage_bytes bounds t = Inr b"
proof -
  note at = exact_bounds_lookup[OF assms(1) bounds]
  from at[OF assms(3)] obtain b where b: "lookup_by_key (pd_value_type p) sb_value_type bounds = Some b"
    "kind_bound S (td_kind d) (sb_kind b)" by blast
  show ?thesis
  proof (cases "\<exists>sample c k. td_kind d = TStream sample c k")
    case True
    with path assms(3) obtain c k where kind: "td_kind d = TStream t c k"
      by (auto simp: state_path_value_type_def split: if_splits)
    with b(2) obtain n where "body_ceiling S t n" by (cases "sb_kind b") auto
    then obtain d' where d': "value_type S t = Some d'" "kind_ceiling S (td_kind d') n" by (auto simp: body_ceiling_iff)
    from at[OF d'(1)] kind_ceiling_literal[OF d'(2)] obtain b' m where
      "lookup_by_key t sb_value_type bounds = Some b'" "sb_kind b' = StoreLiteral m" by blast
    then show ?thesis by (simp add: literal_storage_bytes_def)
  next
    case False
    with path assms(3) have "t = pd_value_type p" "\<exists>m. sb_kind b = StoreLiteral m"
      using b(2) by (cases "td_kind d"; cases "sb_kind b"; auto simp: state_path_value_type_def)+
    with b(1) show ?thesis by (auto simp: literal_storage_bytes_def)
  qed
qed

lemma analyze_state_blames:
  assumes "schema_wf R S" and "list_all2 (exact_bound S) (gs_types S) bounds"
    and wf: "node_schema_wf l' S clocks ns" and rejected: "analyze_state l bounds n s (ns_state ns) = Inl e"
  shows "blames_request e"
proof (cases "ns_state ns")
  case (Some st)
  with wf obtain p where p: "p \<in> set (ns_inputs ns)" "state_path_value_type S (sc_clock st) p = Some (sc_value_type st)"
    by (auto simp: node_schema_wf_def state_ok_def)
  from wf p(1) have "contract_port_ok S p" by (simp add: node_schema_wf_def)
  then obtain d where "value_type S (pd_value_type p) = Some d" by (auto simp: contract_port_ok_def)
  from state_path_literal[OF assms(1,2) this p(2)] obtain b where "literal_storage_bytes bounds (sc_value_type st) = Inr b" by blast
  with rejected Some show ?thesis by (auto simp: analyze_state_def blames_defs split: if_splits)
qed (use rejected in \<open>simp add: analyze_state_def\<close>)

lemma validate_instance_blames: "validate_instance n ns = Inl e \<Longrightarrow> blames_request e"
proof -
  have "try_each (validate_instance_parameter node) xs = Inl e \<Longrightarrow> blames_request e" for node xs
    by (induction xs) (auto simp: validate_instance_parameter_def blames_defs split: if_splits)
  then show "validate_instance n ns = Inl e \<Longrightarrow> blames_request e"
    by (auto simp: validate_instance_def validate_instance_ports_def blames_defs split: if_splits)
qed

lemma and_then_InlE:
  assumes "and_then m f = Inl e"
  obtains "m = Inl e" | x where "m = Inr x" "f x = Inl e"
  using assms by auto

lemma if_InlE:
  assumes "(if P then a else b) = Inl e"
  obtains "P" "a = Inl e" | "\<not> P" "b = Inl e"
  using assms by (cases P) auto

lemma analyze_rate_transition_blames:
  assumes "schema_wf R' (gd_schema D)" and "list_all2 (exact_bound (gd_schema D)) (gs_types (gd_schema D)) bounds"
    and wf: "node_schema_wf l (gd_schema D) clocks ns" and t: "t \<in> set (ns_rate_transitions ns)"
    and rejected: "analyze_rate_transition R D node ns t rates bounds most = Inl e"
  shows "blames_request e"
proof -
  let ?S = "gd_schema D"
  from wf t have ok: "rate_ok ?S ns t" by (simp add: node_schema_wf_def)
  from wf have distinct: "distinct (map pd_id (ns_inputs ns))" "distinct (map pd_id (ns_outputs ns))"
    by (simp_all add: node_schema_wf_def)
  from wf have "map ic_port (ns_input_channels ns) = map pd_id (ns_inputs ns)"
    by (auto simp: node_schema_wf_def channel_ok_def list_all2_conv_all_nth intro: nth_equalityI)
  with distinct have channels: "distinct (map ic_port (ns_input_channels ns))" by simp
  from ok obtain i out sample a b where ports: "i \<in> set (ns_inputs ns)" "out \<in> set (ns_outputs ns)"
    "pd_id i = rc_input t" "pd_id out = rc_output t" "stream_port ?S i sample a" "stream_port ?S out sample b"
    unfolding rate_ok_def by blast
  then have found: "find (\<lambda>p. pd_id p = rc_input t) (ns_inputs ns) = Some i"
    "find (\<lambda>p. pd_id p = rc_output t) (ns_outputs ns) = Some out"
    by (simp_all add: find_key_iff distinct)
  from ports(5,6) obtain d k d' k' where kinds: "value_type ?S (pd_value_type i) = Some d" "td_kind d = TStream sample a k"
    "value_type ?S (pd_value_type out) = Some d'" "td_kind d' = TStream sample b k'"
    by (auto simp: stream_port_def)
  then have runtime: "\<exists>r. runtime_port ?S i = Some r" "\<exists>r. runtime_port ?S out = Some r"
    by (simp_all add: runtime_port_def)
  from ok obtain c q policy where "c \<in> set (ns_input_channels ns)" "ic_port c = rc_input t" "ic_kind c = StreamQueue q policy"
    unfolding rate_ok_def by blast
  then have channel: "find (\<lambda>c. ic_port c = rc_input t) (ns_input_channels ns) = Some c" "ic_kind c = StreamQueue q policy"
    by (simp_all add: find_key_iff channels)
  from exact_bounds_lookup[OF assms(1,2) kinds(1)] obtain bound where
    bound: "lookup_by_key (pd_value_type i) sb_value_type bounds = Some bound" "kind_bound ?S (TStream sample a k) (sb_kind bound)"
    by (auto simp: kinds(2))
  from bound(2) obtain m where m: "stream_sample_bytes (sb_kind bound) = Some m" by (cases "sb_kind bound") auto
  from runtime obtain r r' where r: "runtime_port ?S i = Some r" "runtime_port ?S out = Some r'" by blast
  have sample: "Option.bind (lookup_by_key (pd_value_type i) sb_value_type bounds) (\<lambda>bound. stream_sample_bytes (sb_kind bound)) = Some m"
    "Option.bind (find (\<lambda>c. ic_port c = rc_input t) (ns_input_channels ns)) (\<lambda>c. stream_queue_capacity (ic_kind c)) = Some q"
    by (simp_all add: bound(1) m channel)
  have blamed: "blames_request (AE_RateTransitionPatternTooLarge n i j)" "blames_request AE_IndexPanic"
    "blames_request (AE_RateTransitionRootMismatch n i j x y)" "blames_request (AE_RateTransitionQueueTooSmall n i z w)"
    "blames_request (AE_ClockResolution x)" for n i j x y z w
    by (simp_all add: blames_defs)
  from rejected[unfolded analyze_rate_transition_def Let_def found r sample ok_or_Some and_then.simps(2)] show ?thesis
    by (elim and_then_InlE if_InlE) (auto simp: clock_rate_def required_capacity_def blamed split: if_split_asm)
qed

lemma analyze_node_blames:
  assumes "document_wf R' D" and "schema_wf R' (gd_schema D)" and "registry_wf N" and "gd_schema D = nr_context_schema N"
    and "list_all2 (exact_bound (gd_schema D)) (gs_types (gd_schema D)) bounds"
    and rejected: "analyze_node R D N policy bounds rates s n = Inl e"
  shows "blames_request e"
proof -
  have node: "node_schema_wf (nr_limits N) (gd_schema D) (nr_context_clocks N) ns" if "registry_schema N (nd_kind n) = Some ns" for ns
    using registry_schema_member[OF that] assms(3,4) by (simp add: registry_wf_def)
  have inputs: "blames_request e" if ns: "registry_schema N (nd_kind n) = Some ns" "validate_instance n ns = Inr ()"
    and fold: "try_fold (analyze_input D l policy bounds (wire_connections D) n) s (zip (nd_inputs n) (ns_input_channels ns)) = Inl e" for ns l s
  proof -
    from try_fold_Inl[OF fold, of "\<lambda>_. True"] obtain s' p c where
      pc: "(p, c) \<in> set (zip (nd_inputs n) (ns_input_channels ns))"
        "analyze_input D l policy bounds (wire_connections D) n s' (p, c) = Inl e" by auto
    from node[OF ns(1)] ns(2) pc(1) have ok: "channel_ok (nr_limits N) (gd_schema D) p c"
      by (auto simp: node_schema_wf_def validate_instance_iff instance_ok_def list_all2_iff)
    show ?thesis
    proof (cases "wire_connections D (WireEndpoint (nd_id n) (pd_id p))")
      case None
      then have "e = AE_RequiredInputUnconnected (WireEndpoint (nd_id n) (pd_id p))"
        using pc(2) by (auto simp: analyze_input_def Let_def split: if_split_asm required_input_policy.split_asm)
      then show ?thesis by (simp add: blames_defs)
    next
      case (Some cw)
      with pc(2) have "admit_channel D l bounds n s' p c (fst cw) (snd cw) = Inl e"
        by (simp add: analyze_input_def split_def)
      from admit_channel_blames[OF assms(1,2,5) ok _ this] Some show ?thesis by simp
    qed
  qed
  have transitions: "blames_request e" if ns: "registry_schema N (nd_kind n) = Some ns"
    and fold: "try_fold (analyze_transition R D (nr_limits N) bounds rates (nd_id n) ns) s (ns_rate_transitions ns) = Inl e" for ns s
  proof -
    from try_fold_Inl[OF fold, of "\<lambda>_. True"] obtain s' t where
      t: "t \<in> set (ns_rate_transitions ns)" "analyze_transition R D (nr_limits N) bounds rates (nd_id n) ns s' t = Inl e" by blast
    from t(2) analyze_rate_transition_blames[OF assms(2,5) node[OF ns] t(1)] show ?thesis
      by (auto simp: analyze_transition_def blames_defs split: if_splits)
  qed
  have unresolved: "blames_request (AE_UnresolvedNode i k)" for i k by (simp add: blames_defs)
  from rejected show ?thesis
    unfolding analyze_node_def
    apply (simp only: and_then_Inl ok_or_Inl)
    apply (elim disjE exE conjE)
    subgoal by (simp add: unresolved)
    subgoal by (blast dest: validate_instance_blames)
    subgoal using inputs by auto
    subgoal using transitions by auto
    subgoal by (erule analyze_state_blames[OF assms(2,5) node, rotated]) simp
    subgoal by simp
    done
qed

section \<open>Totals of the scan\<close>

text \<open>The totals of the source are running 64-bit sums. The invariant relates each to the unbounded sum
  over the allocations it reports.\<close>

definition channels_within :: "analysis_limits \<Rightarrow> u64 \<Rightarrow> channel_allocation list \<Rightarrow> bool" where
  "channels_within l bytes channels \<longleftrightarrow> unat bytes = sum_list (map (unat \<circ> ca_maximum_total_bytes) channels)
     \<and> bytes \<le> maximum_total_channel_bytes l
     \<and> (\<forall>c \<in> set channels. ca_maximum_total_bytes c \<le> maximum_channel_bytes_per_input l)"

definition transitions_within :: "analysis_limits \<Rightarrow> u64 \<Rightarrow> graph_rate_transition list \<Rightarrow> bool" where
  "transitions_within l bytes transitions \<longleftrightarrow>
     unat bytes = sum_list (map (unat \<circ> rt_retained_sample_bytes) transitions)
     \<and> bytes \<le> maximum_total_rate_transition_state_bytes l \<and> length transitions \<le> maximum_rate_transitions l"

definition states_within :: "analysis_limits \<Rightarrow> nat \<Rightarrow> u64 \<Rightarrow> state_allocation list \<Rightarrow> bool" where
  "states_within l declared required states \<longleftrightarrow>
     declared = sum_list (map (unat \<circ> sa_declared_storage_bytes) states) \<and> declared \<le> maximum_total_state_bytes l
     \<and> unat required = sum_list (map (unat \<circ> sa_required_canonical_bytes) states)
     \<and> (\<forall>s \<in> set states. unat (sa_required_canonical_bytes s) \<le> unat (sa_declared_storage_bytes s))"

definition scan_within :: "analysis_limits \<Rightarrow> analysis_scan \<Rightarrow> bool" where
  "scan_within l st \<longleftrightarrow> channels_within l (sn_channel_bytes st) (sn_channels st)
     \<and> transitions_within l (sn_transition_bytes st) (sn_transitions st)
     \<and> states_within l (sn_declared_state st) (sn_required_state st) (sn_states st)"

lemma empty_scan_within: "scan_within l empty_scan"
  by (simp add: scan_within_def channels_within_def transitions_within_def states_within_def empty_scan_def)

lemma analyze_input_within:
  assumes "analyze_input D l policy bounds connections n s x = Inr s'" and "scan_within l s"
  shows "scan_within l s'"
proof (cases "connections (WireEndpoint (nd_id n) (pd_id (fst x)))")
  case None
  with assms show ?thesis
    by (auto simp: analyze_input_def split_def Let_def scan_within_def split: if_splits required_input_policy.splits)
next
  case (Some c)
  with assms(1) have "admit_channel D l bounds n s (fst x) (snd x) (fst c) (snd c) = Inr s'"
    by (simp add: analyze_input_def split_def)
  with assms(2) show ?thesis
    by (auto simp: admit_channel_def Let_def scan_within_def channels_within_def checked_add_u64_Some not_less
        split: if_splits)
qed

lemma analyze_transition_within:
  assumes "analyze_transition R D l bounds rates node ns s t = Inr s'" and "scan_within l s"
  shows "scan_within l s'"
  using assms by (auto simp: analyze_transition_def scan_within_def transitions_within_def checked_add_u64_Some not_less
      not_le split: if_splits)

lemma analyze_state_within:
  assumes "analyze_state l bounds n s state = Inr s'" and "scan_within l s"
  shows "scan_within l s'"
  using assms by (auto simp: analyze_state_def scan_within_def states_within_def checked_add_u64_Some not_less
      checked_add_usize_def unat_widen_u32 word_le_nat_alt split: if_splits option.splits)

lemma analyze_node_within:
  assumes "analyze_node R D N policy bounds rates s n = Inr s'" and within: "scan_within (nr_limits N) s"
  shows "scan_within (nr_limits N) s'"
proof -
  from assms(1) obtain ns s1 s2 s3 where
    inputs: "try_fold (analyze_input D (nr_limits N) policy bounds (wire_connections D) n) s
      (zip (nd_inputs n) (ns_input_channels ns)) = Inr s1"
    and transitions: "try_fold (analyze_transition R D (nr_limits N) bounds rates (nd_id n) ns) s1 (ns_rate_transitions ns) = Inr s2"
    and state: "analyze_state (nr_limits N) bounds n s2 (ns_state ns) = Inr s3"
    and s': "s' = s3 \<lparr>sn_schemas := sn_schemas s3 @ [ns]\<rparr>"
    by (auto simp: analyze_node_def)
  have "scan_within (nr_limits N) s1"
    using try_fold_invariant[of _ _ _ _ "scan_within (nr_limits N)", OF inputs within] analyze_input_within by blast
  then have "scan_within (nr_limits N) s2"
    using try_fold_invariant[of _ _ _ _ "scan_within (nr_limits N)", OF transitions] analyze_transition_within by blast
  then have "scan_within (nr_limits N) s3" by (rule analyze_state_within[OF state])
  with s' show ?thesis by (simp add: scan_within_def)
qed

lemma nodes_within:
  assumes "try_fold (analyze_node R D N policy bounds rates) empty_scan nodes = Inr st"
  shows "scan_within (nr_limits N) st"
  using try_fold_invariant[of _ _ _ _ "scan_within (nr_limits N)", OF assms empty_scan_within] analyze_node_within by blast

section \<open>One channel per wire\<close>

definition input_ends :: "'q node_definition \<Rightarrow> wire_endpoint list" where
  "input_ends n = map (\<lambda>p. WireEndpoint (nd_id n) (pd_id p)) (nd_inputs n)"

definition connected_ends :: "'q graph_document \<Rightarrow> wire_endpoint list \<Rightarrow> (wire_endpoint \<times> wire_endpoint) list" where
  "connected_ends D targets = map (\<lambda>t. (fst (the (wire_connections D t)), t))
     (filter (\<lambda>t. wire_connections D t \<noteq> None) targets)"

lemma connected_ends_simps [simp]:
  "connected_ends D [] = []"
  "connected_ends D (xs @ ys) = connected_ends D xs @ connected_ends D ys"
  "connected_ends D (t # ts) = (case wire_connections D t of None \<Rightarrow> [] | Some c \<Rightarrow> [(fst c, t)]) @ connected_ends D ts"
  by (simp_all add: connected_ends_def split: option.splits)

definition channel_ends :: "channel_allocation list \<Rightarrow> (wire_endpoint \<times> wire_endpoint) list" where
  "channel_ends = map (\<lambda>c. (ca_source c, ca_target c))"

lemma analyze_input_channels:
  assumes "analyze_input D l policy bounds (wire_connections D) n s x = Inr s'"
  shows "channel_ends (sn_channels s') = channel_ends (sn_channels s) @ connected_ends D [WireEndpoint (nd_id n) (pd_id (fst x))]"
proof (cases "wire_connections D (WireEndpoint (nd_id n) (pd_id (fst x)))")
  case None
  with assms show ?thesis
    by (auto simp: analyze_input_def split_def Let_def
        split: if_splits required_input_policy.splits)
next
  case (Some c)
  with assms have "admit_channel D l bounds n s (fst x) (snd x) (fst c) (snd c) = Inr s'"
    by (simp add: analyze_input_def split_def)
  with Some show ?thesis
    by (auto simp: admit_channel_def Let_def channel_ends_def split_def
        split: if_splits)
qed

lemma inputs_channels:
  "try_fold (analyze_input D l policy bounds (wire_connections D) n) s xs = Inr s' \<Longrightarrow>
     channel_ends (sn_channels s') = channel_ends (sn_channels s) @ connected_ends D (map (\<lambda>x. WireEndpoint (nd_id n) (pd_id (fst x))) xs)"
proof (induction xs arbitrary: s)
  case (Cons x xs)
  then obtain t where "analyze_input D l policy bounds (wire_connections D) n s x = Inr t"
    "try_fold (analyze_input D l policy bounds (wire_connections D) n) t xs = Inr s'" by auto
  with Cons.IH[of t] analyze_input_channels[of D l policy bounds n s x t] show ?case by simp
qed simp

lemma transitions_channels:
  "try_fold (analyze_transition R D l bounds rates node ns) s ts = Inr s' \<Longrightarrow> sn_channels s' = sn_channels s"
  by (rule try_fold_invariant[where P = "\<lambda>t. sn_channels t = sn_channels s"])
    (auto simp: analyze_transition_def split: if_splits)

lemma analyze_state_channels: "analyze_state l bounds n s state = Inr s' \<Longrightarrow> sn_channels s' = sn_channels s"
  by (auto simp: analyze_state_def split: option.splits if_splits)

lemma analyze_node_channels:
  assumes "registry_wf N" and "analyze_node R D N policy bounds rates s n = Inr s'"
  shows "channel_ends (sn_channels s') = channel_ends (sn_channels s) @ connected_ends D (input_ends n)"
proof -
  from assms(2) obtain ns s1 s2 s3 where ns: "registry_schema N (nd_kind n) = Some ns" "instance_ok n ns"
    and inputs: "try_fold (analyze_input D (nr_limits N) policy bounds (wire_connections D) n) s
      (zip (nd_inputs n) (ns_input_channels ns)) = Inr s1"
    and transitions: "try_fold (analyze_transition R D (nr_limits N) bounds rates (nd_id n) ns) s1 (ns_rate_transitions ns) = Inr s2"
    and state: "analyze_state (nr_limits N) bounds n s2 (ns_state ns) = Inr s3"
    and s': "s' = s3 \<lparr>sn_schemas := sn_schemas s3 @ [ns]\<rparr>"
    by (auto simp: analyze_node_def validate_instance_iff)
  from ns assms(1) have "length (nd_inputs n) = length (ns_input_channels ns)"
    by (auto simp: registry_wf_def node_schema_wf_def instance_ok_def dest!: registry_schema_member dest: list_all2_lengthD)
  then have "map (\<lambda>x. WireEndpoint (nd_id n) (pd_id (fst x))) (zip (nd_inputs n) (ns_input_channels ns)) = input_ends n"
    by (simp add: input_ends_def flip: map_map[of "\<lambda>p. WireEndpoint (nd_id n) (pd_id p)" fst, unfolded comp_def])
  with inputs_channels[OF inputs] transitions_channels[OF transitions] analyze_state_channels[OF state] s'
  show ?thesis by simp
qed

lemma nodes_channels:
  assumes "registry_wf N"
  shows "try_fold (analyze_node R D N policy bounds rates) s nodes = Inr s' \<Longrightarrow>
     channel_ends (sn_channels s') = channel_ends (sn_channels s) @ connected_ends D (concat (map input_ends nodes))"
proof (induction nodes arbitrary: s)
  case (Cons n nodes)
  then obtain t where "analyze_node R D N policy bounds rates s n = Inr t"
    "try_fold (analyze_node R D N policy bounds rates) t nodes = Inr s'" by auto
  with Cons.IH[of t] analyze_node_channels[OF assms, of R D policy bounds rates s n t] show ?case by simp
qed simp

lemma connected_ends_iff:
  "(source, target) \<in> set (connected_ends D targets) \<longleftrightarrow>
     target \<in> set targets \<and> (\<exists>wire. wire_connections D target = Some (source, wire))"
  by (induction targets) (auto split: option.splits intro: sym)

lemma connected_ends_members:
  assumes "wires_wf D"
  shows "set (connected_ends D (concat (map input_ends (gd_nodes D)))) = (\<lambda>w. (wd_source w, wd_target w)) ` set (gd_wires D)"
proof (rule set_eqI, clarify)
  fix source target
  have "wd_target w \<in> set (concat (map input_ends (gd_nodes D)))" if "w \<in> set (gd_wires D)" for w
  proof -
    from assms that have "wire_ok D w" by (simp add: wires_wf_def)
    then show ?thesis by (fastforce simp: wire_ok_def input_ends_def)
  qed
  then show "(source, target) \<in> set (connected_ends D (concat (map input_ends (gd_nodes D)))) \<longleftrightarrow>
      (source, target) \<in> (\<lambda>w. (wd_source w, wd_target w)) ` set (gd_wires D)"
    unfolding connected_ends_iff wire_connections_iff[OF assms] by blast
qed

lemma connected_ends_distinct:
  assumes "nodes_wf R D"
  shows "distinct (map snd (connected_ends D (concat (map input_ends (gd_nodes D)))))"
proof -
  have one: "distinct (input_ends n)" if "n \<in> set (gd_nodes D)" for n
    using assms that by (auto simp: nodes_wf_def node_ok_def input_ends_def distinct_map inj_on_def)
  have "distinct (map nd_id nodes) \<Longrightarrow> set nodes \<subseteq> set (gd_nodes D) \<Longrightarrow> distinct (concat (map input_ends nodes))" for nodes
  proof (induction nodes)
    case (Cons n nodes)
    then have "set (input_ends n) \<inter> set (concat (map input_ends nodes)) = {}"
      by (auto simp: input_ends_def)
    with Cons one[of n] show ?case by simp
  qed simp
  moreover have "distinct (map nd_id (gd_nodes D))"
    using assms by (simp add: nodes_wf_def canonical_table_def)
  ultimately have "distinct (concat (map input_ends (gd_nodes D)))" by blast
  then show ?thesis by (simp add: connected_ends_def comp_def)
qed

section \<open>Draft analysis and analysis\<close>

lemma policies_agree:
  "case analyze_with_policy R D N Retain of
     Inr (a, new) \<Rightarrow> analyze_with_policy R D N Reject
       = (case new of [] \<Rightarrow> Inr (a, []) | m # _ \<Rightarrow> Inl (AE_RequiredInputUnconnected m))
   | Inl _ \<Rightarrow> \<exists>e. analyze_with_policy R D N Reject = Inl e"
proof (cases "gd_schema D \<noteq> nr_context_schema N \<or> gd_clocks D \<noteq> nr_context_clocks N")
  case False
  show ?thesis
  proof (cases "\<exists>bounds rates. analyze_type_storage (gd_schema D) = Inr bounds \<and> resolve_clock_rates R D = Inr rates")
    case True
    then obtain bounds rates where stages: "analyze_type_storage (gd_schema D) = Inr bounds" "resolve_clock_rates R D = Inr rates"
      by blast
    let ?draft = "try_fold (analyze_node R D N Retain bounds rates) empty_scan (gd_nodes D)"
    let ?strict = "try_fold (analyze_node R D N Reject bounds rates) empty_scan (gd_nodes D)"
    have agree: "runs_agree sn_missing AE_RequiredInputUnconnected empty_scan ?draft ?strict"
      by (rule node_scan.loop)
    show ?thesis
    proof (cases ?draft)
      case (Inl e)
      with agree obtain e' where "?strict = Inl e'" by (auto simp: runs_agree_def)
      with False stages Inl show ?thesis by (simp add: analyze_with_policy_def)
    next
      case (Inr st)
      with agree have strict: "?strict = (case sn_missing st of [] \<Rightarrow> Inr st | m # _ \<Rightarrow> Inl (AE_RequiredInputUnconnected m))"
        by (auto simp: runs_agree_def empty_scan_def)
      then have reject: "analyze_with_policy R D N Reject = (case sn_missing st of
          [] \<Rightarrow> analyze_with_policy R D N Retain | m # _ \<Rightarrow> Inl (AE_RequiredInputUnconnected m))"
        using False stages Inr by (cases "sn_missing st") (simp_all add: analyze_with_policy_def)
      have retain: "new = sn_missing st" if "analyze_with_policy R D N Retain = Inr (a, new)" for a new
        using that stages Inr by (auto elim!: analyze_with_policy_Inr)
      show ?thesis
      proof (cases "analyze_with_policy R D N Retain")
        case (Inl e)
        with reject show ?thesis by (cases "sn_missing st") auto
      next
        case (Inr r)
        with retain[of "fst r" "snd r"] obtain a where r: "r = (a, sn_missing st)" by (cases r) auto
        from reject Inr show ?thesis unfolding r by (cases "sn_missing st") simp_all
      qed
    qed
  next
    case no_stage: False
    then show ?thesis
      by (cases "analyze_type_storage (gd_schema D)"; cases "resolve_clock_rates R D")
        (use False in \<open>auto simp: analyze_with_policy_def simp del: and_then_Inr and_then_Inl\<close>)
  qed
qed (auto simp: analyze_with_policy_def)

lemma strict_nothing_missing:
  assumes "analyze_with_policy R D N Reject = Inr (a, missing)"
  shows "missing = [] \<and> analyze_with_policy R D N Retain = Inr (a, [])"
  using policies_agree[of R D N] assms by (auto split: sum.splits prod.splits list.splits)

section \<open>Concrete analyses\<close>

lemma example_clock_lookups:
  "document_clock (example_document :: 'q graph_document) 1 = Some \<lparr>cd_id = 1, cd_name = str ''host'', cd_kind = HostMonotonic 1000\<rparr>"
  "document_clock (example_document :: 'q graph_document) 2 = Some \<lparr>cd_id = 2, cd_name = str ''half'', cd_kind = Derived 1 1 2\<rparr>"
  unfolding clocks_wf_lookup[OF example_clocks_wf] by (simp_all add: evaluate_document)

lemma example_document_rates: "resolve_clock_rates rat_api example_document = Inr example_rates"
proof -
  have 1: "follow_clock rat_api example_document 1 1 1 3 = Inr (1, 1000)"
    "follow_clock rat_api example_document 2 2 1 3 = Inr (1, 500)"
    by (simp_all add: numeral_3_eq_3 example_clock_lookups rat_api_def)
  have "resolve_clock_rates rat_api example_document = try_fold
      (\<lambda>rates c. and_then (resolve_clock_rate rat_api example_document c) (\<lambda>r. Inr (rates @ [r]))) [] example_clocks"
    by (simp add: resolve_clock_rates_def example_document_def)
  also have "\<dots> = Inr example_rates"
    using 1 by (simp add: example_clocks_def resolve_clock_rate_def example_rates_def usize_max_def rat_api_def
      example_document_def numeral_3_eq_3 del: follow_clock.simps)
  finally show ?thesis .
qed

lemma example_storage: "analyze_type_storage (pair_schema :: rat graph_schema) = Inr pair_bounds"
  using analyze_type_storage_iff[OF pair_schema_wf[of rat_api]] pair_bounds_exact by blast

lemma pair_bounds_lookup:
  "lookup_by_key 1 sb_value_type pair_bounds = Some \<lparr>sb_value_type = 1, sb_kind = StoreLiteral 5\<rparr>"
  by (simp add: pair_bounds_def lookup_by_key_iff canonical_table_def)

lemma registry_schema_example:
  "ns \<in> set example_schemas \<Longrightarrow> registry_schema (example_registry :: 'q node_registry) (ns_kind ns) = Some ns"
  by (simp add: registry_schema_def example_registry_def lookup_by_key_iff[OF example_schemas_table] schema_key_def)

lemma example_schema_lookups:
  "registry_schema (example_registry :: 'q node_registry) \<lparr>nk_name = str ''source'', nk_version = 1\<rparr> = Some source_schema"
  "registry_schema (example_registry :: 'q node_registry) \<lparr>nk_name = str ''sink'', nk_version = 1\<rparr> = Some sink_schema"
  "registry_schema (example_registry :: 'q node_registry) \<lparr>nk_name = str ''buffer'', nk_version = 1\<rparr> = Some buffer_schema"
  using registry_schema_example[of source_schema] registry_schema_example[of sink_schema] registry_schema_example[of buffer_schema]
  by (simp_all add: evaluate_schemas)

definition example_channel :: channel_allocation where
  "example_channel = \<lparr>ca_source = WireEndpoint 1 1, ca_target = WireEndpoint 2 1, ca_kind = Synchronous,
     ca_maximum_item_bytes = 5, ca_maximum_total_bytes = 5\<rparr>"

definition example_scan :: analysis_scan where
  "example_scan = empty_scan \<lparr>sn_schemas := [source_schema, sink_schema], sn_channels := [example_channel],
     sn_channel_bytes := 5\<rparr>"

lemma example_node_lookup:
  "document_node (example_document :: 'q graph_document) 1 = Some (hd example_nodes)"
  by (simp add: document_node_def node_index_def evaluate_document binary_search_by_key_def bsearch_loop_step bsearch_loop_done)

lemma example_nodes_analyzed:
  "try_fold (analyze_node rat_api example_document example_registry policy pair_bounds example_rates) empty_scan example_nodes
     = Inr example_scan"
proof -
  let ?n1 = "hd example_nodes :: rat node_definition" and ?n2 = "last example_nodes :: rat node_definition"
  let ?step = "analyze_node rat_api (example_document :: rat graph_document) example_registry policy pair_bounds example_rates"
  have valid: "validate_instance ?n1 source_schema = Inr ()" "validate_instance ?n2 sink_schema = Inr ()"
    by (simp_all add: validate_instance_iff instance_ok_def example_nodes_def evaluate_schemas pair_value_def
        domain_set_contains)
  have kinds: "nd_kind ?n1 = \<lparr>nk_name = str ''source'', nk_version = 1\<rparr>" "nd_kind ?n2 = \<lparr>nk_name = str ''sink'', nk_version = 1\<rparr>"
    by (simp_all add: example_nodes_def)
  let ?p = "\<lparr>pd_id = 1, pd_name = str ''in'', pd_value_type = 1\<rparr>"
  let ?c = "\<lparr>ic_port = 1, ic_requirement = Required, ic_kind = Synchronous\<rparr>"
  have parts: "nd_inputs ?n1 = []" "nd_inputs ?n2 = [?p]" "nd_id ?n2 = 2" "nd_domain ?n2 = HostExact"
      "nd_domain ?n1 = HostExact" "nr_limits example_registry = interactive_analysis"
    and schemas: "ns_input_channels source_schema = []" "ns_input_channels sink_schema = [?c]"
      "ns_rate_transitions source_schema = []" "ns_rate_transitions sink_schema = []"
      "ns_state source_schema = None" "ns_state sink_schema = None"
    by (simp_all add: example_nodes_def evaluate_schemas example_registry_def)
  have first: "?step empty_scan ?n1 = Inr (empty_scan \<lparr>sn_schemas := [source_schema]\<rparr>)"
    unfolding analyze_node_def kinds example_schema_lookups
    by (simp add: ok_or_def valid parts schemas analyze_state_def empty_scan_def del: list.sel)
  have wire: "wire_connections (example_document :: rat graph_document) (WireEndpoint 2 1) = Some (WireEndpoint 1 1, 1)"
    by (simp add: wire_connections_def evaluate_document)
  have channel: "channel_storage pair_bounds 1 Synchronous target = Inr (5, 5)" for target
    by (simp add: channel_storage_def pair_bounds_lookup ok_or_def checked_mul_u64_def u64_max_def)
  have "analyze_input example_document interactive_analysis policy pair_bounds
      (wire_connections (example_document :: rat graph_document)) ?n2 (empty_scan \<lparr>sn_schemas := [source_schema]\<rparr>)
      (?p, ?c) = Inr (example_scan \<lparr>sn_schemas := [source_schema]\<rparr>)"
    by (simp add: analyze_input_def wire admit_channel_def ok_or_def example_node_lookup channel checked_add_u64_def u64_max_def
        example_scan_def empty_scan_def example_channel_def interactive_analysis_def parts
        del: and_then_Inr and_then_Inl)
  then have second: "?step (empty_scan \<lparr>sn_schemas := [source_schema]\<rparr>) ?n2 = Inr example_scan"
    unfolding analyze_node_def kinds example_schema_lookups
    by (simp add: ok_or_def valid parts schemas analyze_state_def del: and_then_Inr and_then_Inl)
      (simp add: example_scan_def)
  have "example_nodes = [?n1, ?n2]" by (simp add: example_nodes_def)
  then show ?thesis using first second by (metis try_fold.simps and_then.simps(2))
qed

definition example_analysis :: "rat graph_analysis" where
  "example_analysis = \<lparr>ga_admitted_nodes = 2, ga_dependency_links = 1, ga_total_declared_state_bytes = 0,
     ga_total_required_state_bytes = 0, ga_state_allocations = [], ga_type_storage_bounds = pair_bounds,
     ga_total_channel_bytes = 5, ga_channel_allocations = [example_channel], ga_clock_rates = example_rates,
     ga_rate_transitions = [], ga_total_rate_transition_state_bytes = 0\<rparr>"

lemma example_endpoints:
  "endpoint_indices (example_document :: 'q graph_document) (WireEndpoint 1 1) = Some 0"
  "endpoint_indices (example_document :: 'q graph_document) (WireEndpoint 2 1) = Some 1"
  "length (graph_endpoints (example_document :: 'q graph_document)) = 2"
  by (simp_all add: endpoint_indices_iff graph_endpoints_def evaluate_document less_eq_wire_endpoint_def)

lemma small_sums [simp]: "checked_add_usize 0 1 = Some 1" "checked_add_usize 1 1 = Some 2" "replicate 2 x = [x, x]"
  by (simp_all add: checked_add_usize_def usize_max_def numeral_2_eq_2[THEN arg_cong, of "\<lambda>n. replicate n x"])

lemma example_graph:
  "dependency_graph (example_document :: rat graph_document) [source_schema, sink_schema] 65536
     = Inr ([[\<lparr>de_target = 1, de_link = WireLink 1\<rparr>], []], 1)"
proof -
  have parts: "map nd_id (gd_nodes (example_document :: rat graph_document)) = [1, 2]"
    "gd_wires (example_document :: rat graph_document) = [\<lparr>wd_id = 1, wd_source = WireEndpoint 1 1, wd_target = WireEndpoint 2 1\<rparr>]"
    "ns_output_dependencies source_schema = [\<lparr>od_output = 1, od_inputs = []\<rparr>]" "ns_output_dependencies sink_schema = []"
    by (simp_all add: evaluate_document evaluate_schemas)
  then obtain n m where nodes: "gd_nodes (example_document :: rat graph_document) = [n, m]" "nd_id n = 1" "nd_id m = 2"
    by auto
  show ?thesis
    by (simp add: dependency_graph_def example_endpoints nodes parts add_feedthrough_def add_wire_def
        Let_def endpoint_index_def ok_or_def add_dependency_def del: and_then_Inr and_then_Inl One_nat_def)
qed

lemma example_search: "find_cycle [[\<lparr>de_target = 1, de_link = WireLink 1\<rparr>], []] 4096 = Inr None"
  by (simp add: find_cycle_def search_stack.simps upt_rec Let_def nth_Cons')

lemma example_analyzed:
  "analyze_with_policy rat_api example_document example_registry policy = Inr (example_analysis, [])"
proof -
  have parts: "gd_schema (example_document :: rat graph_document) = pair_schema" "gd_clocks (example_document :: rat graph_document) = example_clocks"
    "gd_nodes (example_document :: rat graph_document) = example_nodes"
    "nr_context_schema (example_registry :: rat node_registry) = pair_schema" "nr_context_clocks (example_registry :: rat node_registry) = example_clocks"
    "maximum_dependency_links (nr_limits (example_registry :: rat node_registry)) = 65536"
    "maximum_cycle_witness_links (nr_limits (example_registry :: rat node_registry)) = 4096"
    by (simp_all add: example_document_def example_registry_def interactive_analysis_def)
  have "sn_schemas example_scan = [source_schema, sink_schema]" by (simp add: example_scan_def)
  then show ?thesis
    unfolding analyze_with_policy_def parts example_storage example_document_rates map_err.simps and_then.simps example_nodes_analyzed
    by (simp add: example_graph example_search example_analysis_def example_scan_def empty_scan_def example_nodes_def
        del: and_then_Inr and_then_Inl One_nat_def)
qed

text \<open>A document whose only wire closes a cycle through the feedthrough of its only node.\<close>

definition loop_node :: "'q node_definition" where
  "loop_node = \<lparr>nd_id = 1, nd_kind = \<lparr>nk_name = str ''buffer'', nk_version = 1\<rparr>, nd_label = str ''a'',
     nd_domain = HostExact, nd_inputs = [example_port 1 ''in''], nd_outputs = [example_port 2 ''out''], nd_parameters = []\<rparr>"

definition loop_document :: "'q graph_document" where
  "loop_document = example_document \<lparr>gd_nodes := [loop_node],
     gd_wires := [\<lparr>wd_id = 1, wd_source = WireEndpoint 1 2, wd_target = WireEndpoint 1 1\<rparr>]\<rparr>"

lemma clock_kind_ok_nodes:
  "clock_kind_ok (D \<lparr>gd_nodes := nodes, gd_wires := wires\<rparr>) k = clock_kind_ok D k"
  by (cases k) (simp_all add: clock_resolves_def)

lemma clocks_wf_nodes: "clocks_wf (D \<lparr>gd_nodes := nodes, gd_wires := wires\<rparr>) = clocks_wf D"
  by (simp add: clocks_wf_def clock_ok_def clock_kind_ok_nodes clock_references_def clock_resolves_def)

lemma loop_parts:
  "gd_schema (loop_document :: 'q graph_document) = pair_schema"
  "gd_clocks (loop_document :: 'q graph_document) = example_clocks"
  "gd_nodes (loop_document :: 'q graph_document) = [loop_node]"
  "gd_wires (loop_document :: 'q graph_document) = [\<lparr>wd_id = 1, wd_source = WireEndpoint 1 2, wd_target = WireEndpoint 1 1\<rparr>]"
  by (simp_all add: loop_document_def example_document_def)

lemma loop_document_wf: "document_wf R (loop_document :: 'q graph_document)"
proof -
  have clocks: "clocks_wf (loop_document :: 'q graph_document)"
    unfolding loop_document_def clocks_wf_nodes by (rule example_clocks_wf)
  have "node_ok R (pair_schema :: 'q graph_schema) loop_node"
    using example_labels
    by (simp add: node_ok_def loop_node_def example_port_def port_ok_def pair_schema_limits interactive_limits_def
        usize_max_def)
      (simp add: evaluate_names)
  then have nodes: "nodes_wf R (loop_document :: 'q graph_document)"
    by (simp add: nodes_wf_def loop_parts pair_schema_limits interactive_limits_def canonical_table_def)
  have "wires_wf (loop_document :: 'q graph_document)"
    by (simp add: wires_wf_def wire_ok_def loop_parts canonical_table_def pair_schema_limits interactive_limits_def
        loop_node_def example_port_def)
  with clocks nodes show ?thesis by (simp add: document_wf_def)
qed

lemma loop_document_rates: "resolve_clock_rates rat_api loop_document = Inr example_rates"
proof -
  have lookups: "document_clock (loop_document :: rat graph_document) = document_clock (example_document :: rat graph_document)"
    by (rule ext) (simp add: document_clock_def clock_index_def loop_parts example_document_def)
  have "follow_clock rat_api loop_document c current m n = follow_clock rat_api example_document c current m n" for c current m n
    by (induction n arbitrary: current m) (simp_all only: follow_clock.simps lookups)
  then have "resolve_clock_rate rat_api loop_document = resolve_clock_rate rat_api example_document"
    by (intro ext) (simp add: resolve_clock_rate_def loop_parts example_document_def)
  then show ?thesis
    using example_document_rates by (simp add: resolve_clock_rates_def loop_parts example_document_def)
qed

lemma loop_node_analyzed:
  "\<exists>st. sn_schemas st = [buffer_schema] \<and>
     analyze_node rat_api loop_document example_registry policy pair_bounds example_rates empty_scan loop_node = Inr st"
proof -
  let ?p = "\<lparr>pd_id = 1, pd_name = str ''in'', pd_value_type = 1\<rparr>"
  let ?c = "\<lparr>ic_port = 1, ic_requirement = Required, ic_kind = Synchronous\<rparr>"
  have valid: "validate_instance (loop_node :: rat node_definition) buffer_schema = Inr ()"
    by (simp add: validate_instance_iff instance_ok_def loop_node_def evaluate_schemas domain_set_contains)
  have parts: "nd_inputs (loop_node :: rat node_definition) = [?p]" "nd_id (loop_node :: rat node_definition) = 1"
    "nd_domain (loop_node :: rat node_definition) = HostExact" "nr_limits (example_registry :: rat node_registry) = interactive_analysis"
    "nd_kind (loop_node :: rat node_definition) = \<lparr>nk_name = str ''buffer'', nk_version = 1\<rparr>"
    by (simp_all add: loop_node_def example_port_def example_registry_def)
  have schemas: "ns_input_channels buffer_schema = [?c]" "ns_rate_transitions buffer_schema = []" "ns_state buffer_schema = None"
    by (simp_all add: evaluate_schemas)
  have wire: "wire_connections (loop_document :: rat graph_document) (WireEndpoint 1 1) = Some (WireEndpoint 1 2, 1)"
    by (simp add: wire_connections_def loop_parts)
  have channel: "channel_storage pair_bounds 1 Synchronous target = Inr (5, 5)" for target
    by (simp add: channel_storage_def pair_bounds_lookup ok_or_def checked_mul_u64_def u64_max_def)
  have node: "document_node (loop_document :: rat graph_document) 1 = Some loop_node"
    by (simp add: document_node_def node_index_def loop_parts binary_search_by_key_def bsearch_loop_done parts)
  have "\<exists>st. sn_schemas st = [] \<and> analyze_input (loop_document :: rat graph_document) interactive_analysis policy pair_bounds
      (wire_connections (loop_document :: rat graph_document)) loop_node empty_scan (?p, ?c) = Inr st"
    by (simp add: analyze_input_def wire admit_channel_def ok_or_def node channel checked_add_u64_def u64_max_def
        empty_scan_def interactive_analysis_def parts Let_def del: and_then_Inr and_then_Inl)
  then show ?thesis
    by (auto simp: analyze_node_def parts example_schema_lookups ok_or_def valid schemas analyze_state_def)
qed

lemma loop_endpoints:
  "endpoint_indices (loop_document :: 'q graph_document) (WireEndpoint 1 1) = Some 0"
  "endpoint_indices (loop_document :: 'q graph_document) (WireEndpoint 1 2) = Some 1"
  "length (graph_endpoints (loop_document :: 'q graph_document)) = 2"
  by (simp_all add: endpoint_indices_iff graph_endpoints_def loop_parts loop_node_def example_port_def less_eq_wire_endpoint_def)

definition loop_edges :: adjacency where
  "loop_edges = [[\<lparr>de_target = 1, de_link = Feedthrough 1 1 2\<rparr>], [\<lparr>de_target = 0, de_link = WireLink 1\<rparr>]]"

lemma loop_graph: "dependency_graph (loop_document :: rat graph_document) [buffer_schema] 65536 = Inr (loop_edges, 2)"
proof -
  have parts: "nd_id (loop_node :: rat node_definition) = 1"
    "ns_output_dependencies buffer_schema = [\<lparr>od_output = 2, od_inputs = [1]\<rparr>]"
    by (simp_all add: loop_node_def evaluate_schemas)
  show ?thesis
    by (simp add: dependency_graph_def loop_endpoints loop_parts parts add_feedthrough_def add_wire_def
        Let_def endpoint_index_def ok_or_def add_dependency_def loop_edges_def
        del: and_then_Inr and_then_Inl One_nat_def) simp
qed

lemma loop_search: "find_cycle loop_edges 4096 = Inr (Some [Feedthrough 1 1 2, WireLink 1])"
  by (simp add: find_cycle_def loop_edges_def search_stack.simps upt_rec close_cycle_def witness_links.simps
      numeral_2_eq_2 Let_def nth_Cons')

lemma loop_rejected:
  "analyze_with_policy rat_api loop_document example_registry policy
     = Inl (AE_CombinationalCycle [Feedthrough 1 1 2, WireLink 1])"
proof -
  have parts: "nr_context_schema (example_registry :: rat node_registry) = pair_schema"
    "nr_context_clocks (example_registry :: rat node_registry) = example_clocks"
    "maximum_dependency_links (nr_limits (example_registry :: rat node_registry)) = 65536"
    "maximum_cycle_witness_links (nr_limits (example_registry :: rat node_registry)) = 4096"
    by (simp_all add: example_registry_def interactive_analysis_def)
  from loop_node_analyzed[of policy] obtain st where st: "sn_schemas st = [buffer_schema]"
    "analyze_node rat_api loop_document example_registry policy pair_bounds example_rates empty_scan loop_node = Inr st" by blast
  show ?thesis
    unfolding analyze_with_policy_def parts loop_parts example_storage loop_document_rates map_err.simps and_then.simps
    by (simp add: st loop_graph loop_search del: and_then_Inr and_then_Inl)
qed

section \<open>Properties of the analysis\<close>

text \<open>
  C3. A validated document that a validated registry admits is executable: every node
  instantiates the registered schema of its kind in a domain the schema allows, every required input is
  connected, no synchronous wire crosses domains, and the current-tick dependencies have no cycle.
\<close>

theorem analysis_admits:
  assumes "document_wf R D" and "registry_wf N" and "analyze_graph R D N = Inr a"
  shows "\<exists>schemas. resolved_schemas D N schemas \<and> list_all2 (inputs_admitted D) (gd_nodes D) schemas
    \<and> \<not> (\<exists>links. tick_cycle (tick_dependencies D schemas) links)
    \<and> ga_dependency_links a = length (tick_dependencies D schemas)"
proof -
  from assms(3) obtain missing where "analyze_with_policy R D N Reject = Inr (a, missing)"
    by (auto simp: analyze_graph_def)
  then obtain bounds rates st adjacency where
    st: "try_fold (analyze_node R D N Reject bounds rates) empty_scan (gd_nodes D) = Inr st"
    and graph: "dependency_graph D (sn_schemas st) (maximum_dependency_links (nr_limits N)) = Inr (adjacency, ga_dependency_links a)"
    and none: "find_cycle adjacency (maximum_cycle_witness_links (nr_limits N)) = Inr None"
    by (rule analyze_with_policy_Inr)
  from scan_resolved[OF st] have resolved: "resolved_schemas D N (sn_schemas st)"
    and inputs: "list_all2 (inputs_admitted D) (gd_nodes D) (sn_schemas st)" by simp_all
  have known: "endpoints_known D (sn_schemas st)"
    using assms(1,2) resolved by (auto simp: document_wf_def intro: resolved_endpoints_known)
  note range = dependency_graph_in_range[OF known graph]
  from find_cycle_outcome(3)[OF range none] have "\<not> (\<exists>links. cyclic_links adjacency links)"
    by (simp add: cyclic_iff)
  then have "\<not> (\<exists>links. tick_cycle (tick_dependencies D (sn_schemas st)) links)"
    using cyclic_iff_tick_cycle[OF known graph] by blast
  with resolved inputs dependency_graph_result(1)[OF known graph] show ?thesis by blast
qed

lemma example_analyze_graph: "analyze_graph rat_api example_document example_registry = Inr example_analysis"
  by (simp add: analyze_graph_def example_analyzed)

theorem analysis_admits_witness:
  "\<exists>schemas. resolved_schemas (example_document :: rat graph_document) example_registry schemas
    \<and> \<not> (\<exists>links. tick_cycle (tick_dependencies (example_document :: rat graph_document) schemas) links)
    \<and> length (tick_dependencies (example_document :: rat graph_document) schemas) = 1"
  using analysis_admits[OF example_document_wf example_registry_wf example_analyze_graph]
  by (auto simp: example_analysis_def)

text \<open>
  An analysis of a validated document that ends in a cycle error reports a genuine
  current-tick cycle of the document under its resolved schemas, no longer than the witness limit; the internal error of
  the search never occurs.
\<close>

theorem analysis_cycle_genuine:
  assumes "document_wf R D" and "registry_wf N" and "analyze_with_policy R D N policy = Inl e" and "is_cycle_error e"
  shows "\<exists>schemas cycle. e = AE_CombinationalCycle cycle \<and> resolved_schemas D N schemas
    \<and> tick_cycle (tick_dependencies D schemas) cycle \<and> length cycle \<le> maximum_cycle_witness_links (nr_limits N)"
  using analyze_with_policy_cycle_error[OF assms(3,4) _ assms(2)] assms(1) by (simp add: document_wf_def)

theorem analysis_cycle_genuine_witness:
  "\<exists>schemas. resolved_schemas (loop_document :: rat graph_document) example_registry schemas
    \<and> tick_cycle (tick_dependencies (loop_document :: rat graph_document) schemas) [Feedthrough 1 1 2, WireLink 1]"
  using analysis_cycle_genuine[OF loop_document_wf example_registry_wf loop_rejected] by (auto simp: is_cycle_error_def)

text \<open>
  C37. On a well-formed document over a well-formed schema and a validated registry, given exact rational
  arithmetic and a clock count that a \<^verbatim>\<open>usize\<close> can exceed, the analysis never panics and
  never meets an internal error: every indexed endpoint exists, every clock resolves, no tick count
  is zero, the search reproduces every cycle it closes, every channel, rate transition and state finds
  the storage class of its type, and no type is unknown or recursive. A storage error it does report is genuine: the
  named type really holds a runtime type, or its ceiling really exceeds 64 bits.
\<close>

theorem analysis_never_internal:
  assumes "document_wf R D" and "schema_wf R (gd_schema D)" and "registry_wf N" and "rational_arithmetic R v"
    and "length (gd_clocks D) < usize_max" and "analyze_with_policy R D N policy = Inl e"
  shows "\<not> is_internal_error e \<and> (\<forall>x. e = AE_Storage x \<longrightarrow> genuine_storage_error (gd_schema D) x)"
proof -
  let ?sound = "\<lambda>e. \<not> is_internal_error e \<and> (\<forall>x. e = AE_Storage x \<longrightarrow> genuine_storage_error (gd_schema D) x)"
  from assms(1) have wf: "clocks_wf D" "wires_wf D" by (simp_all add: document_wf_def)
  from resolve_clock_rates_exact[OF wf(1) assms(4,5)] obtain rates where
    rates: "resolve_clock_rates R D = Inr rates" "list_all2 (exact_rate v D) (gd_clocks D) rates" by blast
  have limits: "?sound AE_SemanticContextMismatch" "?sound (AE_LimitExceeded what)" "?sound (AE_CombinationalCycle c)" for what c
    by (simp_all add: is_internal_error_def is_walk_error_def is_contradiction_def)
  have storage: "?sound (AE_Storage x)" if "analyze_type_storage (gd_schema D) = Inl x" for x
    using analyze_type_storage_genuine[OF assms(2) that]
    by (cases x) (simp_all add: is_internal_error_def is_walk_error_def is_contradiction_def)
  have nodes: "?sound e"
    if "analyze_type_storage (nr_context_schema N) = Inr bounds" and "gd_schema D = nr_context_schema N"
      and "try_fold (analyze_node R D N policy bounds rates) empty_scan (gd_nodes D) = Inl e" for bounds
  proof -
    from try_fold_Inl[OF that(3), of "\<lambda>_. True"] obtain s n where
      node: "analyze_node R D N policy bounds rates s n = Inl e" by blast
    have "\<not> is_walk_error e"
      using analyze_node_error[OF node] exact_transition_error[OF wf(1) assms(4) rates(2)] by (auto simp: is_scan_error_def)
    then show ?thesis
      using analyze_node_blames[OF assms(1-3) that(2) analyze_type_storage_sound[OF assms(2), unfolded that(2), OF that(1), folded that(2)] node]
      by (simp add: is_internal_error_def blames_request_def)
  qed
  have known: "endpoints_known D (sn_schemas st)"
    if "try_fold (analyze_node R D N policy bounds rates) empty_scan (gd_nodes D) = Inr st" for bounds st
  proof -
    from scan_resolved[OF that] have "resolved_schemas D N (sn_schemas st)" ..
    then show ?thesis by (rule resolved_endpoints_known[OF wf(2) assms(3)])
  qed
  have graph_failed: "?sound e"
    if "try_fold (analyze_node R D N policy bounds rates) empty_scan (gd_nodes D) = Inr st"
      and "dependency_graph D (sn_schemas st) maximum = Inl e" for bounds st maximum
    using dependency_graph_result(2)[OF known[OF that(1)] that(2)] limits(2) by simp
  have search_failed: "?sound e"
    if "try_fold (analyze_node R D N policy bounds rates) empty_scan (gd_nodes D) = Inr st"
      and "dependency_graph D (sn_schemas st) maximum = Inr (A, n)" and "find_cycle A most = Inl e"
    for bounds st maximum A n most
    using find_cycle_outcome(1)[OF dependency_graph_in_range[OF known[OF that(1)] that(2)] that(3)] limits(2) by simp
  have "e = AE_SemanticContextMismatch \<or> (\<exists>x. analyze_type_storage (gd_schema D) = Inl x \<and> e = AE_Storage x)
    \<or> (\<exists>c. e = AE_CombinationalCycle c) \<or> ?sound e"
    using assms(6) unfolding analyze_with_policy_def
    by (auto simp: rates(1) dest: nodes graph_failed search_failed split: if_split_asm option.split_asm)
  with limits storage show ?thesis by blast
qed

theorem analysis_never_internal_witness:
  "analyze_graph_draft rat_api loop_document example_registry = Inl (AE_CombinationalCycle [Feedthrough 1 1 2, WireLink 1])
   \<and> \<not> is_internal_error (AE_CombinationalCycle [Feedthrough 1 1 2, WireLink 1])"
proof -
  have clocks: "length (gd_clocks (loop_document :: rat graph_document)) < usize_max"
    by (simp add: loop_parts example_clocks_def usize_max_def)
  have "schema_wf rat_api (gd_schema (loop_document :: rat graph_document))" by (simp add: loop_parts pair_schema_wf)
  from analysis_never_internal[OF loop_document_wf this example_registry_wf rat_api_arithmetic clocks loop_rejected]
  show ?thesis by (simp add: analyze_graph_draft_def loop_rejected)
qed

text \<open>
  The totals of a report are the exact sums over its allocations, with no wrap-around, and
  keep within the policy: channels per input and in total, retained samples, declared state; and
  no state needs more bytes than its node declares.
\<close>

theorem analysis_within_budget:
  assumes "analyze_graph R D N = Inr a"
  shows "channels_within (nr_limits N) (ga_total_channel_bytes a) (ga_channel_allocations a)
    \<and> transitions_within (nr_limits N) (ga_total_rate_transition_state_bytes a) (ga_rate_transitions a)
    \<and> states_within (nr_limits N) (ga_total_declared_state_bytes a) (ga_total_required_state_bytes a)
        (ga_state_allocations a)"
proof -
  from assms obtain missing where "analyze_with_policy R D N Reject = Inr (a, missing)" by (auto simp: analyze_graph_def)
  then obtain bounds rates st where
    st: "try_fold (analyze_node R D N Reject bounds rates) empty_scan (gd_nodes D) = Inr st"
    and "ga_total_channel_bytes a = sn_channel_bytes st \<and> ga_channel_allocations a = sn_channels st
      \<and> ga_total_rate_transition_state_bytes a = sn_transition_bytes st \<and> ga_rate_transitions a = sn_transitions st
      \<and> ga_total_declared_state_bytes a = sn_declared_state st \<and> ga_total_required_state_bytes a = sn_required_state st
      \<and> ga_state_allocations a = sn_states st"
    by (rule analyze_with_policy_Inr) (metis graph_analysis.select_convs)
  with nodes_within[OF st] show ?thesis by (simp add: scan_within_def)
qed

theorem analysis_within_budget_witness:
  "channels_within interactive_analysis 5 [example_channel]"
  using analysis_within_budget[OF example_analyze_graph] by (simp add: example_analysis_def example_registry_def)

text \<open>
  C38. The report allocates exactly one channel per wire of the document: the ends of the
  allocations are the ends of the wires, and no input has two.
\<close>

theorem analysis_channels_match_wires:
  assumes "document_wf R D" and "registry_wf N" and "analyze_graph R D N = Inr a"
  shows "set (channel_ends (ga_channel_allocations a)) = (\<lambda>w. (wd_source w, wd_target w)) ` set (gd_wires D)
    \<and> distinct (map ca_target (ga_channel_allocations a)) \<and> length (ga_channel_allocations a) = length (gd_wires D)"
proof -
  from assms(3) obtain missing where "analyze_with_policy R D N Reject = Inr (a, missing)" by (auto simp: analyze_graph_def)
  then obtain bounds rates st where
    st: "try_fold (analyze_node R D N Reject bounds rates) empty_scan (gd_nodes D) = Inr st"
    and a: "ga_channel_allocations a = sn_channels st"
    by (rule analyze_with_policy_Inr) (metis graph_analysis.select_convs)
  have ends: "channel_ends (ga_channel_allocations a) = connected_ends D (concat (map input_ends (gd_nodes D)))"
    using nodes_channels[OF assms(2) st] by (simp add: a empty_scan_def channel_ends_def)
  have wf: "wires_wf D" "nodes_wf R D" using assms(1) by (simp_all add: document_wf_def)
  have members: "set (channel_ends (ga_channel_allocations a)) = (\<lambda>w. (wd_source w, wd_target w)) ` set (gd_wires D)"
    by (simp add: ends connected_ends_members[OF wf(1)])
  have targets: "map snd (channel_ends (ga_channel_allocations a)) = map ca_target (ga_channel_allocations a)"
    by (simp add: channel_ends_def)
  have distinct: "distinct (map ca_target (ga_channel_allocations a))"
    using connected_ends_distinct[OF wf(2)] by (simp add: ends flip: targets)
  have "set (map ca_target (ga_channel_allocations a)) = set (map wd_target (gd_wires D))"
    using members by (simp add: image_image flip: targets)
  moreover have "distinct (map wd_target (gd_wires D))" using wf(1) by (simp add: wires_wf_def)
  ultimately have "length (map ca_target (ga_channel_allocations a)) = length (map wd_target (gd_wires D))"
    using distinct by (metis distinct_card)
  with members distinct show ?thesis by simp
qed

theorem analysis_channels_match_wires_witness:
  "set (channel_ends [example_channel]) = {(WireEndpoint 1 1, WireEndpoint 2 1)}
   \<and> length [example_channel] = length (gd_wires (example_document :: rat graph_document))"
  using analysis_channels_match_wires[OF example_document_wf example_registry_wf example_analyze_graph]
  by (simp add: example_analysis_def evaluate_document)

text \<open>
  C39. A draft analysis decides the full analysis: a complete draft passes it, an incomplete
  one is rejected at its first missing input, and what a draft rejects the full analysis rejects too.
\<close>

theorem draft_predicts_analysis:
  "case analyze_graph_draft R D N of
     Inr d \<Rightarrow> (if is_complete d then is_ok (analyze_graph R D N)
       else analyze_graph R D N = Inl (AE_RequiredInputUnconnected (hd (da_required_unconnected_inputs d))))
   | Inl e \<Rightarrow> \<not> is_ok (analyze_graph R D N)"
proof (cases "analyze_with_policy R D N Retain")
  case (Inl e)
  with policies_agree[of R D N] show ?thesis by (auto simp: analyze_graph_draft_def analyze_graph_def)
next
  case (Inr r)
  obtain a new where r: "r = (a, new)" by (cases r)
  from policies_agree[of R D N] Inr show ?thesis
    by (cases new) (simp_all add: r analyze_graph_draft_def analyze_graph_def is_complete_def)
qed

end
