(* ===== verification/Workspace.thy ===== *)
theory Workspace
  imports Wire_Document
begin

text \<open>
  The editor workspace: \<^verbatim>\<open>crates/alumina-interface-core/src/graph/workspace.rs\<close>. A
  workspace owns one graph document, one canvas placement per node and two identity cursors;
  \<^verbatim>\<open>try_new\<close> validates it and nine edits replace it as a whole or not at all. The theory
  proves that the edits keep the workspace well formed, refine updates of three finite maps, and never
  hand out an identity twice.
\<close>

section \<open>Data\<close>

type_synonym i32 = "32 word"

text \<open>
  \<^verbatim>\<open>GraphWorkspaceError\<close>. The boundary of the byte format and the edits share it.
\<close>

datatype workspace_error =
    WS_ZeroLimit
  | WS_LimitExceeded string
  | WS_InvalidMagic
  | WS_UnsupportedVersion u16
  | WS_UnsupportedFlags u16
  | WS_Truncated
  | WS_IntegerOverflow string
  | WS_TrailingBytes
  | WS_NonCanonical
  | WS_InvalidPlacementIdentity
  | WS_MissingPlacement graph_node_id
  | WS_UnknownNode graph_node_id
  | WS_InvalidIdentifierCursor string
  | WS_IdentifierExhausted string
  | WS_UnknownWire graph_wire_id
  | WS_UnknownParameter graph_node_id u32
  | WS_ParameterTypeMismatch graph_type_id graph_type_id
  | WS_RevisionOverflow string
  | WS_GraphWire wire_error
  | WS_GraphDocument document_error

record workspace_limits =
  wl_bytes :: nat
  wl_placements :: nat
  wl_coordinate :: u32

definition interactive_workspace_limits :: workspace_limits where
  "interactive_workspace_limits = \<lparr>wl_bytes = 20 * 1024 * 1024, wl_placements = 256, wl_coordinate = 1000000\<rparr>"

definition validate_workspace_limits :: "workspace_limits \<Rightarrow> workspace_error + unit" where
  "validate_workspace_limits l =
     (if wl_bytes l = 0 \<or> wl_placements l = 0 \<or> wl_coordinate l = 0 then Inl WS_ZeroLimit else Inr ())"

record node_placement =
  pl_node :: graph_node_id
  pl_x :: i32
  pl_y :: i32

record 'q node_prototype =
  pt_kind :: node_kind
  pt_label :: rust_str
  pt_domain :: execution_domain
  pt_inputs :: "port_definition list"
  pt_outputs :: "port_definition list"
  pt_parameters :: "'q node_parameter list"

definition into_node :: "'q node_prototype \<Rightarrow> graph_node_id \<Rightarrow> 'q node_definition" where
  "into_node p i = \<lparr>nd_id = i, nd_kind = pt_kind p, nd_label = pt_label p, nd_domain = pt_domain p,
     nd_inputs = pt_inputs p, nd_outputs = pt_outputs p, nd_parameters = pt_parameters p\<rparr>"

record 'q graph_workspace =
  gw_limits :: workspace_limits
  gw_revision :: u64
  gw_next_node :: u64
  gw_next_wire :: u64
  gw_graph :: "'q graph_document"
  gw_digest :: digest
  gw_placements :: "node_placement list"

section \<open>Validation\<close>

definition exhausted_cursor :: u64 where
  "exhausted_cursor = 4294967296"

definition unsigned_abs :: "i32 \<Rightarrow> u32" where
  "unsigned_abs v = (if sint v < 0 then - v else v)"

definition validate_coordinate :: "i32 \<Rightarrow> workspace_limits \<Rightarrow> workspace_error + unit" where
  "validate_coordinate v l =
     (if unsigned_abs v > wl_coordinate l then Inl (WS_LimitExceeded ''canvas coordinate'') else Inr ())"

definition placement_index :: "node_placement list \<Rightarrow> graph_node_id \<Rightarrow> nat option" where
  "placement_index placements i = binary_search_by_key i pl_node placements"

definition validate_placement_step ::
  "'q graph_document \<Rightarrow> workspace_limits \<Rightarrow> graph_node_id option \<Rightarrow> node_placement
     \<Rightarrow> workspace_error + graph_node_id option" where
  "validate_placement_step D l previous p =
     (if pl_node p = 0 \<or> previous = Some (pl_node p) then Inl WS_InvalidPlacementIdentity
      else if document_node D (pl_node p) = None then Inl (WS_UnknownNode (pl_node p))
      else and_then (validate_coordinate (pl_x p) l) (\<lambda>_.
           and_then (validate_coordinate (pl_y p) l) (\<lambda>_.
           Inr (Some (pl_node p)))))"

definition validate_placements ::
  "'q graph_document \<Rightarrow> node_placement list \<Rightarrow> workspace_limits \<Rightarrow> workspace_error + unit" where
  "validate_placements D placements l =
     and_then (try_fold (validate_placement_step D l) None placements) (\<lambda>_.
     try_each (\<lambda>n. if placement_index placements (nd_id n) = None
       then Inl (WS_MissingPlacement (nd_id n)) else Inr ()) (gd_nodes D))"

text \<open>\<^verbatim>\<open>retained.max().unwrap_or(0)\<close>.\<close>

fun retained_max :: "u64 list \<Rightarrow> u64" where
  "retained_max [] = 0"
| "retained_max (i # ids) = fold max ids i"

definition validate_identity_cursor :: "u64 \<Rightarrow> u64 list \<Rightarrow> string \<Rightarrow> workspace_error + unit" where
  "validate_identity_cursor cursor retained kind =
     and_then (ok_or (WS_InvalidIdentifierCursor kind) (checked_add_u64 (retained_max retained) 1)) (\<lambda>minimum.
     if cursor < minimum \<or> cursor = 0 \<or> cursor > exhausted_cursor
     then Inl (WS_InvalidIdentifierCursor kind) else Inr ())"

definition try_new_workspace ::
  "'q external_api \<Rightarrow> workspace_limits \<Rightarrow> u64 \<Rightarrow> u64 \<Rightarrow> u64 \<Rightarrow> 'q graph_document \<Rightarrow> node_placement list
     \<Rightarrow> workspace_error + 'q graph_workspace" where
  "try_new_workspace R l revision next_node next_wire graph placements =
     and_then (validate_workspace_limits l) (\<lambda>_.
     if length (gd_nodes graph) > wl_placements l \<or> length placements > wl_placements l
     then Inl (WS_LimitExceeded ''placement count'')
     else let placements = sort_key pl_node placements in
     and_then (validate_placements graph placements l) (\<lambda>_.
     and_then (validate_identity_cursor next_node (map (\<lambda>n. ucast (nd_id n)) (gd_nodes graph)) ''node'') (\<lambda>_.
     and_then (validate_identity_cursor next_wire (map (\<lambda>w. ucast (wd_id w)) (gd_wires graph)) ''wire'') (\<lambda>_.
     and_then (map_err WS_GraphWire (encode_graph_document R graph)) (\<lambda>encoding.
     Inr \<lparr>gw_limits = l, gw_revision = revision, gw_next_node = next_node, gw_next_wire = next_wire,
          gw_graph = graph, gw_digest = ce_digest encoding, gw_placements = placements\<rparr>)))))"

definition placement_of :: "'q graph_workspace \<Rightarrow> graph_node_id \<Rightarrow> node_placement option" where
  "placement_of W i = map_option ((!) (gw_placements W)) (placement_index (gw_placements W) i)"

section \<open>Transactional edits\<close>

text \<open>
  Every edit builds a complete candidate and assigns it at its last statement, so an edit returns
  either an error or the new workspace with the result of the call. The two revision checks
  and the two constructor calls that end every edit of the graph are \<open>next_revisions\<close> and
  \<open>commit_graph\<close>.
\<close>

definition next_revisions :: "'q graph_workspace \<Rightarrow> workspace_error + u64 \<times> u64" where
  "next_revisions W =
     and_then (ok_or (WS_RevisionOverflow ''graph'') (checked_add_u64 (gd_revision (gw_graph W)) 1)) (\<lambda>g.
     and_then (ok_or (WS_RevisionOverflow ''workspace'') (checked_add_u64 (gw_revision W) 1)) (\<lambda>w.
     Inr (g, w)))"

definition commit_graph ::
  "'q external_api \<Rightarrow> 'q graph_workspace \<Rightarrow> u64 \<times> u64 \<Rightarrow> u64 \<Rightarrow> u64 \<Rightarrow> 'q node_definition list
     \<Rightarrow> wire_definition list \<Rightarrow> node_placement list \<Rightarrow> workspace_error + 'q graph_workspace" where
  "commit_graph R W revisions next_node next_wire nodes wires placements =
     and_then (map_err WS_GraphDocument (try_new_document R (fst revisions) (gd_schema (gw_graph W))
       (gd_clocks (gw_graph W)) nodes wires)) (\<lambda>graph.
     try_new_workspace R (gw_limits W) (snd revisions) next_node next_wire graph placements)"

text \<open>\<^verbatim>\<open>u32::try_from(cursor)\<close> and the following cursor value.\<close>

definition allocate_identity :: "u64 \<Rightarrow> string \<Rightarrow> workspace_error + u32 \<times> u64" where
  "allocate_identity cursor kind =
     (if unat cursor > u32_max then Inl (WS_IdentifierExhausted kind)
      else and_then (ok_or (WS_IdentifierExhausted kind)
        (case checked_add_u64 cursor 1 of
           Some v \<Rightarrow> if v \<le> exhausted_cursor then Some v else None
         | None \<Rightarrow> None)) (\<lambda>following. Inr (ucast cursor, following)))"

definition move_node ::
  "'q external_api \<Rightarrow> 'q graph_workspace \<Rightarrow> graph_node_id \<Rightarrow> i32 \<Rightarrow> i32 \<Rightarrow> workspace_error + 'q graph_workspace \<times> unit" where
  "move_node R W i x y =
     and_then (validate_coordinate x (gw_limits W)) (\<lambda>_.
     and_then (validate_coordinate y (gw_limits W)) (\<lambda>_.
     and_then (ok_or (WS_UnknownNode i) (placement_index (gw_placements W) i)) (\<lambda>index.
     if pl_x (gw_placements W ! index) = x \<and> pl_y (gw_placements W ! index) = y then Inr (W, ())
     else and_then (ok_or (WS_RevisionOverflow ''workspace'') (checked_add_u64 (gw_revision W) 1)) (\<lambda>revision.
     and_then (try_new_workspace R (gw_limits W) revision (gw_next_node W) (gw_next_wire W) (gw_graph W)
       ((gw_placements W)[index := \<lparr>pl_node = i, pl_x = x, pl_y = y\<rparr>])) (\<lambda>candidate.
     Inr (candidate, ()))))))"

definition create_node ::
  "'q external_api \<Rightarrow> 'q graph_workspace \<Rightarrow> 'q node_prototype \<Rightarrow> i32 \<Rightarrow> i32
     \<Rightarrow> workspace_error + 'q graph_workspace \<times> graph_node_id" where
  "create_node R W prototype x y =
     and_then (validate_coordinate x (gw_limits W)) (\<lambda>_.
     and_then (validate_coordinate y (gw_limits W)) (\<lambda>_.
     and_then (allocate_identity (gw_next_node W) ''node'') (\<lambda>(i, following).
     and_then (next_revisions W) (\<lambda>revisions.
     and_then (commit_graph R W revisions following (gw_next_wire W)
       (gd_nodes (gw_graph W) @ [into_node prototype i]) (gd_wires (gw_graph W))
       (gw_placements W @ [\<lparr>pl_node = i, pl_x = x, pl_y = y\<rparr>])) (\<lambda>candidate.
     Inr (candidate, i))))))"

definition delete_node ::
  "'q external_api \<Rightarrow> 'q graph_workspace \<Rightarrow> graph_node_id \<Rightarrow> workspace_error + 'q graph_workspace \<times> nat" where
  "delete_node R W i =
     (if document_node (gw_graph W) i = None then Inl (WS_UnknownNode i)
      else and_then (next_revisions W) (\<lambda>revisions.
      let nodes = filter (\<lambda>n. nd_id n \<noteq> i) (gd_nodes (gw_graph W));
          wires = filter (\<lambda>w. we_node (wd_source w) \<noteq> i \<and> we_node (wd_target w) \<noteq> i) (gd_wires (gw_graph W));
          removed_wires = length (gd_wires (gw_graph W)) - length wires;
          placements = filter (\<lambda>p. pl_node p \<noteq> i) (gw_placements W) in
      and_then (commit_graph R W revisions (gw_next_node W) (gw_next_wire W) nodes wires placements) (\<lambda>candidate.
      Inr (candidate, removed_wires))))"

definition replace_node ::
  "'q external_api \<Rightarrow> 'q graph_workspace \<Rightarrow> 'q node_definition \<Rightarrow> workspace_error + 'q graph_workspace \<times> unit" where
  "replace_node R W replacement =
     (if document_node (gw_graph W) (nd_id replacement) = None then Inl (WS_UnknownNode (nd_id replacement))
      else and_then (next_revisions W) (\<lambda>revisions.
      let nodes = map (\<lambda>n. if nd_id n = nd_id replacement then replacement else n) (gd_nodes (gw_graph W)) in
      and_then (commit_graph R W revisions (gw_next_node W) (gw_next_wire W) nodes (gd_wires (gw_graph W))
        (gw_placements W)) (\<lambda>candidate.
      Inr (candidate, ()))))"

definition set_node_label ::
  "'q external_api \<Rightarrow> 'q graph_workspace \<Rightarrow> graph_node_id \<Rightarrow> rust_str \<Rightarrow> workspace_error + 'q graph_workspace \<times> unit" where
  "set_node_label R W i label =
     and_then (ok_or (WS_UnknownNode i) (document_node (gw_graph W) i)) (\<lambda>n.
     if nd_label n = label then Inr (W, ())
     else replace_node R W (n\<lparr>nd_label := label\<rparr>))"

definition set_node_domain ::
  "'q external_api \<Rightarrow> 'q graph_workspace \<Rightarrow> graph_node_id \<Rightarrow> execution_domain
     \<Rightarrow> workspace_error + 'q graph_workspace \<times> unit" where
  "set_node_domain R W i domain =
     and_then (ok_or (WS_UnknownNode i) (document_node (gw_graph W) i)) (\<lambda>n.
     if nd_domain n = domain then Inr (W, ())
     else replace_node R W (n\<lparr>nd_domain := domain\<rparr>))"

text \<open>\<^verbatim>\<open>iter_mut().find(p)\<close> followed by an assignment: the first match is replaced.\<close>

fun replace_first :: "('a \<Rightarrow> bool) \<Rightarrow> 'a \<Rightarrow> 'a list \<Rightarrow> 'a list" where
  "replace_first P y [] = []"
| "replace_first P y (x # xs) = (if P x then y # xs else x # replace_first P y xs)"

definition set_parameter ::
  "'q external_api \<Rightarrow> 'q graph_workspace \<Rightarrow> graph_node_id \<Rightarrow> u32 \<Rightarrow> 'q typed_graph_value
     \<Rightarrow> workspace_error + 'q graph_workspace \<times> unit" where
  "set_parameter R W i parameter_id v =
     and_then (ok_or (WS_UnknownNode i) (document_node (gw_graph W) i)) (\<lambda>n.
     and_then (ok_or (WS_UnknownParameter i parameter_id)
       (List.find (\<lambda>p. np_id p = parameter_id) (nd_parameters n))) (\<lambda>parameter.
     if tv_value_type (np_value parameter) \<noteq> tv_value_type v
     then Inl (WS_ParameterTypeMismatch (tv_value_type (np_value parameter)) (tv_value_type v))
     else if np_value parameter = v then Inr (W, ())
     else replace_node R W (n\<lparr>nd_parameters :=
       replace_first (\<lambda>p. np_id p = parameter_id)
         \<lparr>np_id = np_id parameter, np_name = np_name parameter, np_value = v\<rparr> (nd_parameters n)\<rparr>)))"

definition connect ::
  "'q external_api \<Rightarrow> 'q graph_workspace \<Rightarrow> wire_endpoint \<Rightarrow> wire_endpoint
     \<Rightarrow> workspace_error + 'q graph_workspace \<times> graph_wire_id" where
  "connect R W source target =
     and_then (allocate_identity (gw_next_wire W) ''wire'') (\<lambda>(i, following).
     and_then (next_revisions W) (\<lambda>revisions.
     and_then (commit_graph R W revisions (gw_next_node W) following (gd_nodes (gw_graph W))
       (gd_wires (gw_graph W) @ [\<lparr>wd_id = i, wd_source = source, wd_target = target\<rparr>])
       (gw_placements W)) (\<lambda>candidate.
     Inr (candidate, i))))"

definition disconnect ::
  "'q external_api \<Rightarrow> 'q graph_workspace \<Rightarrow> graph_wire_id \<Rightarrow> workspace_error + 'q graph_workspace \<times> unit" where
  "disconnect R W i =
     (if \<not> list_ex (\<lambda>w. wd_id w = i) (gd_wires (gw_graph W)) then Inl (WS_UnknownWire i)
      else and_then (next_revisions W) (\<lambda>revisions.
      let wires = filter (\<lambda>w. wd_id w \<noteq> i) (gd_wires (gw_graph W)) in
      and_then (commit_graph R W revisions (gw_next_node W) (gw_next_wire W) (gd_nodes (gw_graph W)) wires
        (gw_placements W)) (\<lambda>candidate.
      Inr (candidate, ()))))"

section \<open>What an accepted workspace is\<close>

definition coordinate_ok :: "workspace_limits \<Rightarrow> i32 \<Rightarrow> bool" where
  "coordinate_ok l v \<longleftrightarrow> \<bar>sint v\<bar> \<le> uint (wl_coordinate l)"

definition placement_ok :: "workspace_limits \<Rightarrow> node_placement \<Rightarrow> bool" where
  "placement_ok l p \<longleftrightarrow> coordinate_ok l (pl_x p) \<and> coordinate_ok l (pl_y p)"

text \<open>The cursor is beyond every identity in use, up to the exhausted one.\<close>

definition cursor_ok :: "u64 \<Rightarrow> u32 set \<Rightarrow> bool" where
  "cursor_ok c ids \<longleftrightarrow> 0 < unat c \<and> unat c \<le> 2 ^ 32 \<and> (\<forall>i \<in> ids. unat i < unat c)"

definition limits_ok :: "workspace_limits \<Rightarrow> bool" where
  "limits_ok l \<longleftrightarrow> 0 < wl_bytes l \<and> 0 < wl_placements l \<and> 0 < wl_coordinate l"

definition node_ids :: "'q graph_workspace \<Rightarrow> graph_node_id set" where
  "node_ids W = nd_id ` set (gd_nodes (gw_graph W))"

definition wire_ids :: "'q graph_workspace \<Rightarrow> graph_wire_id set" where
  "wire_ids W = wd_id ` set (gd_wires (gw_graph W))"

definition workspace_wf :: "'q external_api \<Rightarrow> 'q graph_workspace \<Rightarrow> bool" where
  "workspace_wf R W \<longleftrightarrow>
     document_wf R (gw_graph W) \<and> limits_ok (gw_limits W)
     \<and> length (gw_placements W) \<le> wl_placements (gw_limits W)
     \<and> canonical_table pl_node (gw_placements W)
     \<and> pl_node ` set (gw_placements W) = node_ids W
     \<and> (\<forall>p \<in> set (gw_placements W). placement_ok (gw_limits W) p)
     \<and> cursor_ok (gw_next_node W) (node_ids W) \<and> cursor_ok (gw_next_wire W) (wire_ids W)
     \<and> (\<exists>e. encode_graph_document R (gw_graph W) = Inr e \<and> gw_digest W = ce_digest e)"

text \<open>Coordinates: the source compares the absolute value, which is right even at \<^verbatim>\<open>i32::MIN\<close>.\<close>

lemma uint_of_int_u32: "uint (word_of_int k :: u32) = k mod 2 ^ 32"
  by (simp add: uint_word_of_int)

lemma uint_unsigned_abs: "uint (unsigned_abs v) = \<bar>sint v\<bar>"
proof (cases "sint v < 0")
  case True
  have "- (2 ^ 31) \<le> sint v" using sint_greater_eq[of v] by simp
  moreover have "uint (- v) = (- sint v) mod 2 ^ 32" using uint_of_int_u32[of "- sint v"] by simp
  ultimately show ?thesis using True by (simp add: unsigned_abs_def)
next
  case False
  moreover have "sint v < 2 ^ 31" using sint_less[of v] by simp
  moreover have "uint v = sint v mod 2 ^ 32" using uint_of_int_u32[of "sint v"] by simp
  ultimately show ?thesis by (simp add: unsigned_abs_def)
qed

lemma validate_coordinate_ok [simp]: "validate_coordinate v l = Inr u \<longleftrightarrow> coordinate_ok l v"
  by (simp add: validate_coordinate_def coordinate_ok_def word_less_def not_less uint_unsigned_abs)

lemma validate_workspace_limits_ok [simp]: "validate_workspace_limits l = Inr u \<longleftrightarrow> limits_ok l"
  by (auto simp: validate_workspace_limits_def limits_ok_def word_neq_0_conv)

text \<open>Cursors.\<close>

lemma retained_max_Max: "retained_max (i # ids) = Max (set (i # ids))"
  unfolding Max.set_eq_fold by simp

lemma unat_retained_max:
  "unat (retained_max ids) < unat (c :: u64) \<longleftrightarrow> 0 < unat c \<and> (\<forall>i \<in> set ids. unat i < unat c)"
proof (cases ids)
  case (Cons i js)
  have "unat (retained_max ids) < unat c \<longleftrightarrow> (\<forall>i \<in> set ids. i < c)"
    unfolding Cons retained_max_Max word_less_nat_alt[symmetric] by (subst Max_less_iff) auto
  then show ?thesis by (auto simp: word_less_nat_alt Cons)
qed simp

lemma cursor_minimum:
  assumes "unat (m :: u64) < u64_max"
  shows "and_then (ok_or e (checked_add_u64 m 1)) (\<lambda>minimum.
      if c < minimum \<or> c = 0 \<or> c > exhausted_cursor then Inl e else Inr ()) = Inr u
    \<longleftrightarrow> unat m < unat c \<and> unat c \<le> 2 ^ 32"
proof -
  obtain n where n: "checked_add_u64 m 1 = Some n" "unat n = unat m + 1"
    using assms by (simp add: checked_add_u64_def) (metis checked_add_u64_Some checked_add_u64_def unat_1 Suc_eq_plus1 less_eq_Suc_le)
  have "c > exhausted_cursor \<longleftrightarrow> unat c > 2 ^ 32" "c < n \<longleftrightarrow> unat c < unat m + 1" "c = 0 \<longleftrightarrow> unat c = 0"
    by (simp_all add: exhausted_cursor_def word_less_nat_alt n(2) unat_eq_0)
  then show ?thesis by (auto simp: n(1))
qed

lemma retained_max_ucast: "unat (retained_max (map (\<lambda>x. ucast (f x :: u32)) xs)) < u64_max"
proof (cases xs)
  case (Cons y ys)
  let ?ids = "map (\<lambda>x. ucast (f x :: u32) :: u64) xs"
  have "retained_max ?ids \<in> set ?ids"
    unfolding Cons list.map(2) retained_max_Max by (rule Max_in) simp_all
  then obtain i where "retained_max ?ids = ucast (i :: u32)" by auto
  then show ?thesis using unat_u32_le[of i] by (simp add: u64_max_def u32_max_def unat_widen_u32)
qed (simp add: u64_max_def)

lemma validate_cursor_ids:
  "validate_identity_cursor c (map (\<lambda>x. ucast (f x :: u32)) xs) kind = Inr u \<longleftrightarrow> cursor_ok c (f ` set xs)"
  unfolding validate_identity_cursor_def cursor_minimum[OF retained_max_ucast] unat_retained_max cursor_ok_def
  by (auto simp: unat_widen_u32)

text \<open>Placements.\<close>

interpretation placement_scan: key_scan "validate_placement_step D l" pl_node
  "\<lambda>p. pl_node p \<noteq> 0 \<and> document_node D (pl_node p) \<noteq> None \<and> placement_ok l p" for D l
  by unfold_locales (auto simp: validate_placement_step_def placement_ok_def)

lemma placement_index_None:
  "sorted (map pl_node pls) \<Longrightarrow> placement_index pls i = None \<longleftrightarrow> i \<notin> pl_node ` set pls"
  using lookup_by_key_None_iff[of pl_node pls i] by (simp add: placement_index_def lookup_by_key_def)

lemma document_node_None:
  "document_wf R D \<Longrightarrow> document_node D i = None \<longleftrightarrow> i \<notin> nd_id ` set (gd_nodes D)"
  unfolding document_node_lookup
  by (rule lookup_by_key_None_iff) (simp add: document_wf_def nodes_wf_def canonical_table_def)

lemma document_node_nonzero: "document_wf R D \<Longrightarrow> i \<in> nd_id ` set (gd_nodes D) \<Longrightarrow> i \<noteq> 0"
  by (auto simp: document_wf_def nodes_wf_def node_ok_def)

lemma validate_placements_ok:
  assumes "document_wf R D" and sorted: "sorted (map pl_node pls)"
  shows "validate_placements D pls l = Inr u \<longleftrightarrow>
    canonical_table pl_node pls \<and> pl_node ` set pls = nd_id ` set (gd_nodes D) \<and> (\<forall>p \<in> set pls. placement_ok l p)"
proof -
  have "validate_placements D pls l = Inr u \<longleftrightarrow>
    (\<exists>st. try_fold (validate_placement_step D l) None pls = Inr st)
    \<and> nd_id ` set (gd_nodes D) \<subseteq> pl_node ` set pls"
    by (auto simp: validate_placements_def placement_index_None[OF sorted] split: if_splits)
  then show ?thesis
    unfolding placement_scan.scan_ok_iff[OF sorted] document_node_None[OF assms(1)]
    using document_node_nonzero[OF assms(1)] by blast
qed

lemma try_new_workspace_Inr:
  assumes "document_wf R D"
  shows "try_new_workspace R l r nn nw D pls = Inr W \<longleftrightarrow>
    workspace_wf R W \<and> gw_limits W = l \<and> gw_revision W = r \<and> gw_next_node W = nn \<and> gw_next_wire W = nw
    \<and> gw_graph W = D \<and> gw_placements W = sort_key pl_node pls"
proof -
  have count: "length (gd_nodes D) \<le> length pls" if "pl_node ` set (sort_key pl_node pls) = nd_id ` set (gd_nodes D)"
  proof -
    have "length (gd_nodes D) = card (nd_id ` set (gd_nodes D))"
      using assms distinct_card[of "map nd_id (gd_nodes D)"] by (simp add: document_wf_def nodes_wf_def canonical_table_def)
    also have "\<dots> = card (pl_node ` set pls)" using that by simp
    also have "\<dots> \<le> length pls" by (meson card_image_le card_length finite_set le_trans)
    finally show ?thesis .
  qed
  show ?thesis
    using count assms
    by (cases W)
      (auto simp: try_new_workspace_def workspace_wf_def Let_def validate_cursor_ids not_less ex_unit
        validate_placements_ok[OF assms] node_ids_def wire_ids_def dest: le_trans)
qed

section \<open>Edits as one operation\<close>

datatype 'q workspace_edit =
    MoveNode graph_node_id i32 i32
  | CreateNode "'q node_prototype" i32 i32
  | DeleteNode graph_node_id
  | SetNodeLabel graph_node_id rust_str
  | SetNodeDomain graph_node_id execution_domain
  | SetParameter graph_node_id u32 "'q typed_graph_value"
  | Connect wire_endpoint wire_endpoint
  | Disconnect graph_wire_id

datatype edit_result = Done | CreatedNode graph_node_id | RemovedWires nat | CreatedWire graph_wire_id

definition with_result :: "('a \<Rightarrow> edit_result) \<Rightarrow> workspace_error + 'w \<times> 'a \<Rightarrow> workspace_error + 'w \<times> edit_result" where
  "with_result f m = and_then m (\<lambda>(W, a). Inr (W, f a))"

fun apply_edit ::
  "'q external_api \<Rightarrow> 'q graph_workspace \<Rightarrow> 'q workspace_edit \<Rightarrow> workspace_error + 'q graph_workspace \<times> edit_result" where
  "apply_edit R W (MoveNode i x y) = with_result (\<lambda>_. Done) (move_node R W i x y)"
| "apply_edit R W (CreateNode p x y) = with_result CreatedNode (create_node R W p x y)"
| "apply_edit R W (DeleteNode i) = with_result RemovedWires (delete_node R W i)"
| "apply_edit R W (SetNodeLabel i l) = with_result (\<lambda>_. Done) (set_node_label R W i l)"
| "apply_edit R W (SetNodeDomain i d) = with_result (\<lambda>_. Done) (set_node_domain R W i d)"
| "apply_edit R W (SetParameter i p v) = with_result (\<lambda>_. Done) (set_parameter R W i p v)"
| "apply_edit R W (Connect s t) = with_result CreatedWire (connect R W s t)"
| "apply_edit R W (Disconnect i) = with_result (\<lambda>_. Done) (disconnect R W i)"

lemma with_result_Inr [simp]: "with_result f m = Inr (W, r) \<longleftrightarrow> (\<exists>a. m = Inr (W, a) \<and> r = f a)"
  by (auto simp: with_result_def)

text \<open>A session of edits, with its log; a rejected edit leaves the workspace.\<close>

inductive edit_run ::
  "'q external_api \<Rightarrow> 'q graph_workspace \<Rightarrow> ('q workspace_edit \<times> (workspace_error + edit_result)) list
     \<Rightarrow> 'q graph_workspace \<Rightarrow> bool" for R W where
  started: "edit_run R W [] W"
| accepted: "edit_run R W done_edits W' \<Longrightarrow> apply_edit R W' e = Inr (W'', r) \<Longrightarrow> edit_run R W (done_edits @ [(e, Inr r)]) W''"
| rejected: "edit_run R W done_edits W' \<Longrightarrow> apply_edit R W' e = Inl err \<Longrightarrow> edit_run R W (done_edits @ [(e, Inl err)]) W'"

section \<open>What an accepted edit does\<close>

lemma next_revisions_Inr:
  "next_revisions W = Inr (g, w) \<longleftrightarrow>
     unat g = unat (gd_revision (gw_graph W)) + 1 \<and> unat w = unat (gw_revision W) + 1"
  by (auto simp: next_revisions_def checked_add_u64_Some)

lemma allocate_identity_Inr:
  "allocate_identity c kind = Inr (i, f) \<longleftrightarrow> unat i = unat c \<and> unat f = unat c + 1"
proof
  assume "allocate_identity c kind = Inr (i, f)"
  then have "unat c \<le> u32_max" "i = ucast c" "checked_add_u64 c 1 = Some f"
    by (auto simp: allocate_identity_def split: if_splits option.splits)
  then show "unat i = unat c \<and> unat f = unat c + 1"
    by (simp add: checked_add_u64_Some unsigned_ucast_eq take_bit_nat_eq_self u32_max_def)
next
  assume if_: "unat i = unat c \<and> unat f = unat c + 1"
  then have c: "unat c \<le> u32_max" using unat_u32_le[of i] by simp
  then have "unat (ucast c :: u32) = unat i"
    using if_ by (simp add: unsigned_ucast_eq take_bit_nat_eq_self u32_max_def)
  then have "ucast c = i" by (simp only: word_unat_eq_iff)
  moreover have "checked_add_u64 c 1 = Some f" using if_ by (simp add: checked_add_u64_Some)
  moreover have "f \<le> exhausted_cursor" using if_ c by (simp add: word_le_nat_alt exhausted_cursor_def u32_max_def)
  ultimately show "allocate_identity c kind = Inr (i, f)" using c by (simp add: allocate_identity_def)
qed

lemma workspace_wf_document: "workspace_wf R W \<Longrightarrow> document_wf R (gw_graph W)"
  by (simp add: workspace_wf_def)

lemma commit_graph_Inr:
  "commit_graph R W (g, w) nn nw nodes wires pls = Inr W' \<longleftrightarrow>
     workspace_wf R W' \<and> gw_limits W' = gw_limits W \<and> gw_revision W' = w \<and> gw_next_node W' = nn
     \<and> gw_next_wire W' = nw \<and> gw_placements W' = sort_key pl_node pls
     \<and> gw_graph W' = canonical_document g (gd_schema (gw_graph W)) (gd_clocks (gw_graph W)) nodes wires"
proof -
  let ?D = "canonical_document g (gd_schema (gw_graph W)) (gd_clocks (gw_graph W)) nodes wires"
  have "document_wf R ?D" if "workspace_wf R W'" "gw_graph W' = ?D" using workspace_wf_document[OF that(1)] that(2) by simp
  then show ?thesis
    using try_new_workspace_Inr[of R ?D "gw_limits W" w nn nw pls W']
    by (auto simp: commit_graph_def try_new_document_Inr)
qed

text \<open>The tables of a well-formed workspace, and their canonical form after an edit.\<close>

lemma canonical_table_filter: "canonical_table key xs \<Longrightarrow> canonical_table key (filter P xs)"
  by (simp add: canonical_table_def sorted_filter distinct_map_filter)

lemma sort_key_filter: "canonical_table key xs \<Longrightarrow> sort_key key (filter P xs) = filter P xs"
  by (rule canonical_table_sort_key[OF canonical_table_filter])

lemma sort_key_same_keys:
  "canonical_table key xs \<Longrightarrow> map key ys = map key xs \<Longrightarrow> sort_key key ys = ys"
  by (rule canonical_table_sort_key) (simp add: canonical_table_def)

lemma workspace_tables:
  assumes "workspace_wf R W"
  shows "canonical_table cd_id (gd_clocks (gw_graph W))" "canonical_table nd_id (gd_nodes (gw_graph W))"
    "canonical_table wd_id (gd_wires (gw_graph W))" "canonical_table pl_node (gw_placements W)"
  using assms by (auto simp: workspace_wf_def document_wf_def clocks_wf_def nodes_wf_def wires_wf_def)

lemma workspace_node_ok: "workspace_wf R W \<Longrightarrow> n \<in> set (gd_nodes (gw_graph W)) \<Longrightarrow> node_ok R (gd_schema (gw_graph W)) n"
  by (auto simp: workspace_wf_def document_wf_def nodes_wf_def)

lemma canonical_nodes_fixed:
  "workspace_wf R W \<Longrightarrow> set ns \<subseteq> set (gd_nodes (gw_graph W)) \<Longrightarrow> map canonical_node ns = ns"
  by (rule map_idI) (use workspace_node_ok canonical_node_fixed in blast)

lemma placement_index_Some:
  "placement_index pls i = Some k \<Longrightarrow> k < length pls \<and> pl_node (pls ! k) = i"
  unfolding placement_index_def by (rule binary_search_sound)

lemma sort_key_snoc:
  assumes "canonical_table key xs" and "\<And>x. x \<in> set xs \<Longrightarrow> key x < key y"
  shows "sort_key key (xs @ [y]) = xs @ [y]"
  using assms by (intro canonical_table_sort_key) (force simp: canonical_table_def sorted_append)

text \<open>
  What an edit of the graph leaves behind: a well-formed workspace with both revisions advanced,
  the policy, registry and clocks of before, and the given tables and cursors.
\<close>

definition graph_edited ::
  "'q external_api \<Rightarrow> 'q graph_workspace \<Rightarrow> 'q graph_workspace \<Rightarrow> u64 \<Rightarrow> u64 \<Rightarrow> 'q node_definition list
     \<Rightarrow> wire_definition list \<Rightarrow> node_placement list \<Rightarrow> bool" where
  "graph_edited R W W' nn nw nodes wires pls \<longleftrightarrow>
     workspace_wf R W' \<and> gw_limits W' = gw_limits W
     \<and> unat (gw_revision W') = unat (gw_revision W) + 1
     \<and> unat (gd_revision (gw_graph W')) = unat (gd_revision (gw_graph W)) + 1
     \<and> gd_schema (gw_graph W') = gd_schema (gw_graph W) \<and> gd_clocks (gw_graph W') = gd_clocks (gw_graph W)
     \<and> gw_next_node W' = nn \<and> gw_next_wire W' = nw
     \<and> gd_nodes (gw_graph W') = nodes \<and> gd_wires (gw_graph W') = wires \<and> gw_placements W' = pls"

lemma commit_graph_edited:
  assumes wf: "workspace_wf R W" and next_: "next_revisions W = Inr revisions"
    and tables: "map canonical_node (sort_key nd_id nodes) = nodes'" "sort_key wd_id wires = wires'"
      "sort_key pl_node pls = pls'"
  shows "commit_graph R W revisions nn nw nodes wires pls = Inr W' \<longleftrightarrow> graph_edited R W W' nn nw nodes' wires' pls'"
proof -
  obtain g w where r: "revisions = (g, w)" by (cases revisions)
  with next_ have revs: "unat g = unat (gd_revision (gw_graph W)) + 1" "unat w = unat (gw_revision W) + 1"
    by (simp_all add: next_revisions_Inr)
  have eq: "gw_revision W' = w \<longleftrightarrow> unat (gw_revision W') = unat (gw_revision W) + 1"
    "gd_revision (gw_graph W') = g \<longleftrightarrow> unat (gd_revision (gw_graph W')) = unat (gd_revision (gw_graph W)) + 1"
    by (simp_all add: word_unat_eq_iff revs)
  have clocks: "sort_key cd_id (gd_clocks (gw_graph W)) = gd_clocks (gw_graph W)"
    by (rule canonical_table_sort_key[OF workspace_tables(1)[OF wf]])
  have "gw_graph W' = canonical_document g (gd_schema (gw_graph W)) (gd_clocks (gw_graph W)) nodes wires \<longleftrightarrow>
    gd_revision (gw_graph W') = g \<and> gd_schema (gw_graph W') = gd_schema (gw_graph W)
    \<and> gd_clocks (gw_graph W') = gd_clocks (gw_graph W) \<and> gd_nodes (gw_graph W') = nodes' \<and> gd_wires (gw_graph W') = wires'"
    unfolding canonical_document_def clocks tables by (cases "gw_graph W'") simp
  then show ?thesis
    unfolding r commit_graph_Inr graph_edited_def tables eq[symmetric] by auto
qed

text \<open>The edits, each reduced to its guard and the candidate it builds.\<close>

lemma move_node_Inr:
  assumes wf: "workspace_wf R W" and ok: "move_node R W i x y = Inr (W', u)"
  obtains (same) "W' = W" "\<lparr>pl_node = i, pl_x = x, pl_y = y\<rparr> \<in> set (gw_placements W)"
  | (moved) k where "k < length (gw_placements W)" "pl_node (gw_placements W ! k) = i" "workspace_wf R W'"
      "unat (gw_revision W') = unat (gw_revision W) + 1" "gw_limits W' = gw_limits W" "gw_graph W' = gw_graph W"
      "gw_next_node W' = gw_next_node W" "gw_next_wire W' = gw_next_wire W"
      "gw_placements W' = (gw_placements W)[k := \<lparr>pl_node = i, pl_x = x, pl_y = y\<rparr>]"
proof -
  from ok obtain k where index: "placement_index (gw_placements W) i = Some k"
    by (auto simp: move_node_def)
  note k = placement_index_Some[OF index]
  show ?thesis
  proof (cases "pl_x (gw_placements W ! k) = x \<and> pl_y (gw_placements W ! k) = y")
    case True
    then have "gw_placements W ! k = \<lparr>pl_node = i, pl_x = x, pl_y = y\<rparr>" using k by simp
    then have "\<lparr>pl_node = i, pl_x = x, pl_y = y\<rparr> \<in> set (gw_placements W)" using k nth_mem by metis
    moreover have "W' = W" using ok True by (auto simp: move_node_def index)
    ultimately show ?thesis by (rule same[rotated])
  next
    case False
    let ?pls = "(gw_placements W)[k := \<lparr>pl_node = i, pl_x = x, pl_y = y\<rparr>]"
    from ok False obtain r where r: "checked_add_u64 (gw_revision W) 1 = Some r"
      and new: "try_new_workspace R (gw_limits W) r (gw_next_node W) (gw_next_wire W) (gw_graph W) ?pls = Inr W'"
      by (auto simp: move_node_def index)
    have "map pl_node ?pls = map pl_node (gw_placements W)" using k by (simp add: map_update list_update_same_conv)
    with workspace_tables(4)[OF wf] have "sort_key pl_node ?pls = ?pls" by (rule sort_key_same_keys)
    then show ?thesis
      using moved[of k] k new r
      by (simp add: try_new_workspace_Inr[OF workspace_wf_document[OF wf]] checked_add_u64_Some)
  qed
qed

lemma cursor_fresh:
  "cursor_ok c ids \<Longrightarrow> unat i = unat c \<Longrightarrow> j \<in> ids \<Longrightarrow> j < i"
  by (simp add: cursor_ok_def word_less_nat_alt)

lemma workspace_cursors:
  "workspace_wf R W \<Longrightarrow> cursor_ok (gw_next_node W) (node_ids W)"
  "workspace_wf R W \<Longrightarrow> cursor_ok (gw_next_wire W) (wire_ids W)"
  "workspace_wf R W \<Longrightarrow> pl_node ` set (gw_placements W) = node_ids W"
  by (simp_all add: workspace_wf_def)

lemma create_node_Inr:
  assumes wf: "workspace_wf R W"
  shows "create_node R W p x y = Inr (W', i) \<longleftrightarrow>
    coordinate_ok (gw_limits W) x \<and> coordinate_ok (gw_limits W) y \<and> unat i = unat (gw_next_node W)
    \<and> (\<exists>following. unat following = unat (gw_next_node W) + 1
      \<and> graph_edited R W W' following (gw_next_wire W) (gd_nodes (gw_graph W) @ [canonical_node (into_node p i)])
          (gd_wires (gw_graph W)) (gw_placements W @ [\<lparr>pl_node = i, pl_x = x, pl_y = y\<rparr>]))"
proof -
  have step: "commit_graph R W revisions f (gw_next_wire W) (gd_nodes (gw_graph W) @ [into_node p i])
      (gd_wires (gw_graph W)) (gw_placements W @ [\<lparr>pl_node = i, pl_x = x, pl_y = y\<rparr>]) = Inr W'
    \<longleftrightarrow> graph_edited R W W' f (gw_next_wire W) (gd_nodes (gw_graph W) @ [canonical_node (into_node p i)])
          (gd_wires (gw_graph W)) (gw_placements W @ [\<lparr>pl_node = i, pl_x = x, pl_y = y\<rparr>])"
    if next_: "next_revisions W = Inr revisions" and i: "unat i = unat (gw_next_node W)" for revisions f
  proof (rule commit_graph_edited[OF wf next_])
    have fresh: "j < i" if "j \<in> node_ids W" for j using cursor_fresh[OF workspace_cursors(1)[OF wf] i that] .
    have "sort_key nd_id (gd_nodes (gw_graph W) @ [into_node p i]) = gd_nodes (gw_graph W) @ [into_node p i]"
      by (rule sort_key_snoc[OF workspace_tables(2)[OF wf]]) (use fresh in \<open>simp add: node_ids_def into_node_def\<close>)
    then show "map canonical_node (sort_key nd_id (gd_nodes (gw_graph W) @ [into_node p i]))
      = gd_nodes (gw_graph W) @ [canonical_node (into_node p i)]"
      by (simp add: canonical_nodes_fixed[OF wf])
    show "sort_key wd_id (gd_wires (gw_graph W)) = gd_wires (gw_graph W)"
      by (rule canonical_table_sort_key[OF workspace_tables(3)[OF wf]])
    show "sort_key pl_node (gw_placements W @ [\<lparr>pl_node = i, pl_x = x, pl_y = y\<rparr>])
      = gw_placements W @ [\<lparr>pl_node = i, pl_x = x, pl_y = y\<rparr>]"
      by (rule sort_key_snoc[OF workspace_tables(4)[OF wf]])
        (use fresh workspace_cursors(3)[OF wf] in auto)
  qed
  have some: "\<exists>revisions. next_revisions W = Inr revisions" if "graph_edited R W W' f nw ns ws ps" for f nw ns ws ps
    using that by (auto simp: graph_edited_def next_revisions_Inr intro!: exI)
  show ?thesis
    using step some by (auto simp: create_node_def allocate_identity_Inr split_beta) blast+
qed

lemma graph_edited_revisions: "graph_edited R W W' nn nw ns ws ps \<Longrightarrow> \<exists>revisions. next_revisions W = Inr revisions"
  by (auto simp: graph_edited_def next_revisions_Inr intro!: exI)

lemma workspace_node_None: "workspace_wf R W \<Longrightarrow> document_node (gw_graph W) i = None \<longleftrightarrow> i \<notin> node_ids W"
  unfolding node_ids_def by (rule document_node_None[OF workspace_wf_document])

lemma workspace_node_Some:
  "workspace_wf R W \<Longrightarrow> document_node (gw_graph W) i = Some n \<longleftrightarrow> n \<in> set (gd_nodes (gw_graph W)) \<and> nd_id n = i"
  by (rule document_node_iff[OF workspace_tables(2)])

lemma workspace_sorted:
  assumes "workspace_wf R W"
  shows "sort_key nd_id (filter P (gd_nodes (gw_graph W))) = filter P (gd_nodes (gw_graph W))"
    and "sort_key wd_id (filter Q (gd_wires (gw_graph W))) = filter Q (gd_wires (gw_graph W))"
    and "sort_key pl_node (filter S (gw_placements W)) = filter S (gw_placements W)"
    and "map canonical_node (filter P (gd_nodes (gw_graph W))) = filter P (gd_nodes (gw_graph W))"
  using workspace_tables[OF assms] canonical_nodes_fixed[OF assms] by (simp_all add: sort_key_filter)

lemma workspace_sorted_all:
  assumes "workspace_wf R W"
  shows "sort_key nd_id (gd_nodes (gw_graph W)) = gd_nodes (gw_graph W)"
    and "sort_key wd_id (gd_wires (gw_graph W)) = gd_wires (gw_graph W)"
    and "sort_key pl_node (gw_placements W) = gw_placements W"
    and "map canonical_node (gd_nodes (gw_graph W)) = gd_nodes (gw_graph W)"
  using workspace_sorted[OF assms, of "\<lambda>_. True"] by simp_all

definition incident :: "graph_node_id \<Rightarrow> wire_definition \<Rightarrow> bool" where
  "incident i w \<longleftrightarrow> we_node (wd_source w) = i \<or> we_node (wd_target w) = i"

lemma delete_node_Inr:
  assumes wf: "workspace_wf R W"
  shows "delete_node R W i = Inr (W', removed) \<longleftrightarrow>
    i \<in> node_ids W \<and> removed = length (filter (incident i) (gd_wires (gw_graph W)))
    \<and> graph_edited R W W' (gw_next_node W) (gw_next_wire W) (filter (\<lambda>n. nd_id n \<noteq> i) (gd_nodes (gw_graph W)))
        (filter (\<lambda>w. \<not> incident i w) (gd_wires (gw_graph W))) (filter (\<lambda>p. pl_node p \<noteq> i) (gw_placements W))"
proof -
  let ?ws = "filter (\<lambda>w. \<not> incident i w) (gd_wires (gw_graph W))"
  have count: "length (gd_wires (gw_graph W)) - length ?ws = length (filter (incident i) (gd_wires (gw_graph W)))"
    using sum_length_filter_compl[of "incident i" "gd_wires (gw_graph W)"] by simp
  have commit: "next_revisions W = Inr revisions \<Longrightarrow>
    commit_graph R W revisions (gw_next_node W) (gw_next_wire W) (filter (\<lambda>n. nd_id n \<noteq> i) (gd_nodes (gw_graph W)))
      ?ws (filter (\<lambda>p. pl_node p \<noteq> i) (gw_placements W)) = Inr W'
    \<longleftrightarrow> graph_edited R W W' (gw_next_node W) (gw_next_wire W) (filter (\<lambda>n. nd_id n \<noteq> i) (gd_nodes (gw_graph W)))
      ?ws (filter (\<lambda>p. pl_node p \<noteq> i) (gw_placements W))" for revisions
    by (rule commit_graph_edited[OF wf]) (simp_all add: workspace_sorted[OF wf])
  have filter_eq: "filter (\<lambda>w. we_node (wd_source w) \<noteq> i \<and> we_node (wd_target w) \<noteq> i) (gd_wires (gw_graph W)) = ?ws"
    by (simp add: incident_def)
  have "delete_node R W i = Inr (W', removed) \<longleftrightarrow> i \<in> node_ids W
    \<and> (\<exists>revisions. next_revisions W = Inr revisions
      \<and> commit_graph R W revisions (gw_next_node W) (gw_next_wire W) (filter (\<lambda>n. nd_id n \<noteq> i) (gd_nodes (gw_graph W)))
        ?ws (filter (\<lambda>p. pl_node p \<noteq> i) (gw_placements W)) = Inr W')
    \<and> removed = length (gd_wires (gw_graph W)) - length ?ws"
    by (auto simp: delete_node_def Let_def filter_eq workspace_node_None[OF wf])
  then show ?thesis using commit graph_edited_revisions unfolding count by blast
qed

lemma replace_node_Inr:
  assumes wf: "workspace_wf R W"
  shows "replace_node R W n = Inr (W', u) \<longleftrightarrow>
    nd_id n \<in> node_ids W
    \<and> graph_edited R W W' (gw_next_node W) (gw_next_wire W)
        (map (\<lambda>m. if nd_id m = nd_id n then canonical_node n else m) (gd_nodes (gw_graph W)))
        (gd_wires (gw_graph W)) (gw_placements W)"
proof -
  let ?ns = "map (\<lambda>m. if nd_id m = nd_id n then n else m) (gd_nodes (gw_graph W))"
  have "map nd_id ?ns = map nd_id (gd_nodes (gw_graph W))" by auto
  with workspace_tables(2)[OF wf] have sorted: "sort_key nd_id ?ns = ?ns" by (rule sort_key_same_keys)
  have "map canonical_node ?ns = map (\<lambda>m. if nd_id m = nd_id n then canonical_node n else m) (gd_nodes (gw_graph W))"
    using workspace_node_ok[OF wf] canonical_node_fixed by auto
  with sorted have commit: "next_revisions W = Inr revisions \<Longrightarrow>
    commit_graph R W revisions (gw_next_node W) (gw_next_wire W) ?ns (gd_wires (gw_graph W)) (gw_placements W) = Inr W'
    \<longleftrightarrow> graph_edited R W W' (gw_next_node W) (gw_next_wire W)
        (map (\<lambda>m. if nd_id m = nd_id n then canonical_node n else m) (gd_nodes (gw_graph W)))
        (gd_wires (gw_graph W)) (gw_placements W)" for revisions
    by (intro commit_graph_edited[OF wf]) (simp_all add: workspace_sorted_all[OF wf])
  have "replace_node R W n = Inr (W', u) \<longleftrightarrow> nd_id n \<in> node_ids W
    \<and> (\<exists>revisions. next_revisions W = Inr revisions
      \<and> commit_graph R W revisions (gw_next_node W) (gw_next_wire W) ?ns (gd_wires (gw_graph W)) (gw_placements W) = Inr W')"
    by (auto simp: replace_node_def Let_def workspace_node_None[OF wf])
  then show ?thesis using commit graph_edited_revisions by blast
qed

lemma connect_Inr:
  assumes wf: "workspace_wf R W"
  shows "connect R W s t = Inr (W', i) \<longleftrightarrow>
    unat i = unat (gw_next_wire W)
    \<and> (\<exists>following. unat following = unat (gw_next_wire W) + 1
      \<and> graph_edited R W W' (gw_next_node W) following (gd_nodes (gw_graph W))
          (gd_wires (gw_graph W) @ [\<lparr>wd_id = i, wd_source = s, wd_target = t\<rparr>]) (gw_placements W))"
proof -
  let ?ws = "gd_wires (gw_graph W) @ [\<lparr>wd_id = i, wd_source = s, wd_target = t\<rparr>]"
  have commit: "commit_graph R W revisions (gw_next_node W) f (gd_nodes (gw_graph W)) ?ws (gw_placements W) = Inr W'
    \<longleftrightarrow> graph_edited R W W' (gw_next_node W) f (gd_nodes (gw_graph W)) ?ws (gw_placements W)"
    if next_: "next_revisions W = Inr revisions" and i: "unat i = unat (gw_next_wire W)" for revisions f
  proof (rule commit_graph_edited[OF wf next_])
    show "sort_key wd_id ?ws = ?ws"
      by (rule sort_key_snoc[OF workspace_tables(3)[OF wf]])
        (use cursor_fresh[OF workspace_cursors(2)[OF wf] i] in \<open>simp add: wire_ids_def\<close>)
  qed (simp_all add: workspace_sorted_all[OF wf])
  have "connect R W s t = Inr (W', i) \<longleftrightarrow> unat i = unat (gw_next_wire W)
    \<and> (\<exists>f revisions. unat f = unat (gw_next_wire W) + 1 \<and> next_revisions W = Inr revisions
      \<and> commit_graph R W revisions (gw_next_node W) f (gd_nodes (gw_graph W)) ?ws (gw_placements W) = Inr W')"
    by (auto simp: connect_def allocate_identity_Inr split_beta)
  then show ?thesis using commit graph_edited_revisions by blast
qed

lemma disconnect_Inr:
  assumes wf: "workspace_wf R W"
  shows "disconnect R W i = Inr (W', u) \<longleftrightarrow>
    i \<in> wire_ids W
    \<and> graph_edited R W W' (gw_next_node W) (gw_next_wire W) (gd_nodes (gw_graph W))
        (filter (\<lambda>w. wd_id w \<noteq> i) (gd_wires (gw_graph W))) (gw_placements W)"
proof -
  let ?ws = "filter (\<lambda>w. wd_id w \<noteq> i) (gd_wires (gw_graph W))"
  have commit: "next_revisions W = Inr revisions \<Longrightarrow>
    commit_graph R W revisions (gw_next_node W) (gw_next_wire W) (gd_nodes (gw_graph W)) ?ws (gw_placements W) = Inr W'
    \<longleftrightarrow> graph_edited R W W' (gw_next_node W) (gw_next_wire W) (gd_nodes (gw_graph W)) ?ws (gw_placements W)" for revisions
    by (rule commit_graph_edited[OF wf]) (simp_all add: workspace_sorted[OF wf] workspace_sorted_all[OF wf])
  have "disconnect R W i = Inr (W', u) \<longleftrightarrow> i \<in> wire_ids W
    \<and> (\<exists>revisions. next_revisions W = Inr revisions
      \<and> commit_graph R W revisions (gw_next_node W) (gw_next_wire W) (gd_nodes (gw_graph W)) ?ws (gw_placements W) = Inr W')"
    by (auto simp: disconnect_def Let_def list_ex_iff wire_ids_def)
  then show ?thesis using commit graph_edited_revisions by blast
qed

section \<open>The abstract canvas\<close>

text \<open>
  What a workspace means to its user: nodes, wires and positions by identity. The abstract edits
  update these three finite maps.
\<close>

definition table_map :: "('a \<Rightarrow> 'k) \<Rightarrow> ('a \<Rightarrow> 'v) \<Rightarrow> 'a list \<Rightarrow> 'k \<rightharpoonup> 'v" where
  "table_map key val xs = map_of (map (\<lambda>x. (key x, val x)) xs)"

record 'q canvas =
  cv_nodes :: "graph_node_id \<rightharpoonup> 'q node_definition"
  cv_wires :: "graph_wire_id \<rightharpoonup> wire_endpoint \<times> wire_endpoint"
  cv_places :: "graph_node_id \<rightharpoonup> i32 \<times> i32"

definition canvas_of :: "'q graph_workspace \<Rightarrow> 'q canvas" where
  "canvas_of W = \<lparr>cv_nodes = table_map nd_id (\<lambda>n. n) (gd_nodes (gw_graph W)),
     cv_wires = table_map wd_id (\<lambda>w. (wd_source w, wd_target w)) (gd_wires (gw_graph W)),
     cv_places = table_map pl_node (\<lambda>p. (pl_x p, pl_y p)) (gw_placements W)\<rparr>"

definition without_node :: "graph_node_id \<Rightarrow> (graph_wire_id \<rightharpoonup> wire_endpoint \<times> wire_endpoint)
     \<Rightarrow> (graph_wire_id \<rightharpoonup> wire_endpoint \<times> wire_endpoint)" where
  "without_node i wires j = (case wires j of
     Some (s, t) \<Rightarrow> if we_node s = i \<or> we_node t = i then None else Some (s, t)
   | None \<Rightarrow> None)"

fun canvas_edit :: "'q workspace_edit \<Rightarrow> edit_result \<Rightarrow> 'q canvas \<Rightarrow> 'q canvas" where
  "canvas_edit (MoveNode i x y) _ c = c\<lparr>cv_places := (cv_places c)(i \<mapsto> (x, y))\<rparr>"
| "canvas_edit (CreateNode p x y) (CreatedNode i) c =
     c\<lparr>cv_nodes := (cv_nodes c)(i \<mapsto> canonical_node (into_node p i)), cv_places := (cv_places c)(i \<mapsto> (x, y))\<rparr>"
| "canvas_edit (DeleteNode i) _ c =
     c\<lparr>cv_nodes := (cv_nodes c)(i := None), cv_wires := without_node i (cv_wires c),
       cv_places := (cv_places c)(i := None)\<rparr>"
| "canvas_edit (SetNodeLabel i l) _ c =
     c\<lparr>cv_nodes := (cv_nodes c)(i := map_option (\<lambda>n. n\<lparr>nd_label := l\<rparr>) (cv_nodes c i))\<rparr>"
| "canvas_edit (SetNodeDomain i d) _ c =
     c\<lparr>cv_nodes := (cv_nodes c)(i := map_option (\<lambda>n. n\<lparr>nd_domain := d\<rparr>) (cv_nodes c i))\<rparr>"
| "canvas_edit (SetParameter i p v) _ c =
     c\<lparr>cv_nodes := (cv_nodes c)(i := map_option (\<lambda>n. n\<lparr>nd_parameters :=
         map (\<lambda>q. if np_id q = p then q\<lparr>np_value := v\<rparr> else q) (nd_parameters n)\<rparr>) (cv_nodes c i))\<rparr>"
| "canvas_edit (Connect s t) (CreatedWire j) c = c\<lparr>cv_wires := (cv_wires c)(j \<mapsto> (s, t))\<rparr>"
| "canvas_edit (Disconnect j) _ c = c\<lparr>cv_wires := (cv_wires c)(j := None)\<rparr>"
| "canvas_edit _ _ c = c"

lemma table_map_Some:
  "distinct (map key xs) \<Longrightarrow> table_map key val xs k = Some v \<longleftrightarrow> (\<exists>x \<in> set xs. key x = k \<and> val x = v)"
  unfolding table_map_def by (subst map_of_eq_Some_iff) (auto simp: comp_def)

lemma map_eqI_Some: "(\<And>k v. f k = Some v \<longleftrightarrow> g k = Some v) \<Longrightarrow> f = g"
  by (rule ext) (metis option.exhaust)

lemma table_map_snoc:
  "key y \<notin> key ` set xs \<Longrightarrow> table_map key val (xs @ [y]) = (table_map key val xs)(key y \<mapsto> val y)"
  by (induction xs) (auto simp: table_map_def)

lemma table_map_remove:
  "table_map key val (filter (\<lambda>x. key x \<noteq> i) xs) = (table_map key val xs)(i := None)"
  by (induction xs) (auto simp: table_map_def)

lemma table_map_replace:
  assumes "distinct (map key xs)" and "\<And>x. x \<in> set xs \<Longrightarrow> key x = i \<Longrightarrow> key (f x) = i"
  shows "table_map key (\<lambda>x. x) (map (\<lambda>x. if key x = i then f x else x) xs)
    = (table_map key (\<lambda>x. x) xs)(i := map_option f (table_map key (\<lambda>x. x) xs i))"
  using assms by (induction xs) (auto simp: table_map_def)

lemma table_map_update:
  assumes "distinct (map key xs)" and "k < length xs" and "key (xs ! k) = key y"
  shows "table_map key val (xs[k := y]) = (table_map key val xs)(key y \<mapsto> val y)"
  using assms
proof (induction xs arbitrary: k)
  case (Cons x xs)
  show ?case
  proof (cases k)
    case 0
    with Cons.prems show ?thesis by (auto simp: table_map_def)
  next
    case (Suc j)
    with Cons.prems have "key y \<in> key ` set xs" by (metis Suc_less_eq image_eqI length_Cons nth_Cons_Suc nth_mem)
    with Cons.prems have "key x \<noteq> key y" by auto
    with Suc Cons show ?thesis by (auto simp: table_map_def)
  qed
qed simp

lemma table_map_without_node:
  "distinct (map wd_id ws) \<Longrightarrow>
     table_map wd_id (\<lambda>w. (wd_source w, wd_target w)) (filter (\<lambda>w. \<not> incident i w) ws)
       = without_node i (table_map wd_id (\<lambda>w. (wd_source w, wd_target w)) ws)"
proof (induction ws)
  case (Cons w ws)
  let ?m = "table_map wd_id (\<lambda>w. (wd_source w, wd_target w))"
  from Cons.prems have "?m ws (wd_id w) = None" "?m (filter (\<lambda>w. \<not> incident i w) ws) (wd_id w) = None"
    by (auto simp: table_map_def map_of_eq_None_iff)
  with Cons show ?case by (auto simp: table_map_def without_node_def incident_def fun_eq_iff)
qed (simp add: table_map_def without_node_def fun_eq_iff)

lemma canvas_keys:
  assumes "workspace_wf R W"
  shows "distinct (map nd_id (gd_nodes (gw_graph W)))" "distinct (map wd_id (gd_wires (gw_graph W)))"
    "distinct (map pl_node (gw_placements W))"
  using workspace_tables[OF assms] by (simp_all add: canonical_table_def)

lemma canvas_edited:
  assumes "graph_edited R W W' nn nw ns ws ps"
  shows "canvas_of W' = \<lparr>cv_nodes = table_map nd_id (\<lambda>n. n) ns,
     cv_wires = table_map wd_id (\<lambda>w. (wd_source w, wd_target w)) ws,
     cv_places = table_map pl_node (\<lambda>p. (pl_x p, pl_y p)) ps\<rparr>"
  using assms by (simp add: canvas_of_def graph_edited_def)

text \<open>A node whose port and parameter identities did not change is already canonical.\<close>

lemma canonical_node_kept:
  assumes "node_ok R S n" and "nd_inputs m = nd_inputs n" "nd_outputs m = nd_outputs n"
    "map np_id (nd_parameters m) = map np_id (nd_parameters n)"
  shows "canonical_node m = m"
  using assms
  by (simp add: canonical_node_def node_ok_def canonical_table_def sort_key_id_if_sorted)

lemma find_key_Some:
  "distinct (map key xs) \<Longrightarrow> List.find (\<lambda>x. key x = k) xs = Some x \<longleftrightarrow> x \<in> set xs \<and> key x = k"
  by (induction xs) auto

lemma replace_first_keyed:
  "distinct (map key xs) \<Longrightarrow> replace_first (\<lambda>x. key x = k) y xs = map (\<lambda>x. if key x = k then y else x) xs"
proof (induction xs)
  case (Cons x xs)
  then have "key x \<notin> key ` set xs" by simp
  then have "map (\<lambda>z. if key z = key x then y else z) xs = xs" by (intro map_idI) (auto simp: rev_image_eqI)
  with Cons show ?case by auto
qed simp

section \<open>The edits refine the abstract ones\<close>

text \<open>\<open>edit_sound R e\<close> of a result: the new workspace is well formed and its canvas is the edited one.\<close>

definition edit_sound ::
  "'q external_api \<Rightarrow> 'q workspace_edit \<Rightarrow> 'q graph_workspace \<Rightarrow> 'q graph_workspace \<Rightarrow> edit_result \<Rightarrow> bool" where
  "edit_sound R e W W' r \<longleftrightarrow> workspace_wf R W' \<and> canvas_of W' = canvas_edit e r (canvas_of W)"

lemma graph_edited_wf: "graph_edited R W W' nn nw ns ws ps \<Longrightarrow> workspace_wf R W'"
  by (simp add: graph_edited_def)

lemma move_node_sound:
  assumes wf: "workspace_wf R W" and "move_node R W i x y = Inr (W', u)"
  shows "edit_sound R (MoveNode i x y) W W' Done"
  using assms
proof (cases rule: move_node_Inr)
  case same
  then have "table_map pl_node (\<lambda>p. (pl_x p, pl_y p)) (gw_placements W) i = Some (x, y)"
    by (subst table_map_Some[OF canvas_keys(3)[OF wf]]) (auto intro!: bexI)
  then show ?thesis using same wf by (simp add: edit_sound_def canvas_of_def fun_upd_idem)
next
  case (moved k)
  have "table_map pl_node (\<lambda>p. (pl_x p, pl_y p)) ((gw_placements W)[k := \<lparr>pl_node = i, pl_x = x, pl_y = y\<rparr>])
      = (table_map pl_node (\<lambda>p. (pl_x p, pl_y p)) (gw_placements W))(i \<mapsto> (x, y))"
    using table_map_update[OF canvas_keys(3)[OF wf] moved(1), of "\<lparr>pl_node = i, pl_x = x, pl_y = y\<rparr>"
        "\<lambda>p. (pl_x p, pl_y p)"] moved(2) by simp
  then show ?thesis using moved by (simp add: edit_sound_def canvas_of_def)
qed

lemma create_node_sound:
  assumes wf: "workspace_wf R W" and ok: "create_node R W p x y = Inr (W', i)"
  shows "edit_sound R (CreateNode p x y) W W' (CreatedNode i)"
proof -
  from ok[unfolded create_node_Inr[OF wf]] obtain f where i: "unat i = unat (gw_next_node W)"
    and edited: "graph_edited R W W' f (gw_next_wire W) (gd_nodes (gw_graph W) @ [canonical_node (into_node p i)])
      (gd_wires (gw_graph W)) (gw_placements W @ [\<lparr>pl_node = i, pl_x = x, pl_y = y\<rparr>])" by blast
  have fresh: "i \<notin> node_ids W" using cursor_fresh[OF workspace_cursors(1)[OF wf] i] by auto
  have id: "nd_id (canonical_node (into_node p i)) = i" by (simp add: into_node_def)
  have "i \<notin> pl_node ` set (gw_placements W)" using fresh workspace_cursors(3)[OF wf] by simp
  then show ?thesis
    using fresh graph_edited_wf[OF edited] id
      table_map_snoc[of nd_id "canonical_node (into_node p i)" "gd_nodes (gw_graph W)" "\<lambda>n. n"]
      table_map_snoc[of pl_node "\<lparr>pl_node = i, pl_x = x, pl_y = y\<rparr>" "gw_placements W" "\<lambda>p. (pl_x p, pl_y p)"]
    unfolding edit_sound_def canvas_edited[OF edited] node_ids_def by (simp add: canvas_of_def)
qed

lemma delete_node_sound:
  assumes wf: "workspace_wf R W" and ok: "delete_node R W i = Inr (W', removed)"
  shows "edit_sound R (DeleteNode i) W W' (RemovedWires removed)"
  using ok[unfolded delete_node_Inr[OF wf]] table_map_without_node[OF canvas_keys(2)[OF wf], of i]
  by (auto simp: edit_sound_def canvas_of_def table_map_remove graph_edited_def)

lemma replace_node_sound:
  assumes wf: "workspace_wf R W" and ok: "replace_node R W n = Inr (W', u)"
  shows "workspace_wf R W' \<and> canvas_of W' = (canvas_of W)\<lparr>cv_nodes := (cv_nodes (canvas_of W))
    (nd_id n := Some (canonical_node n))\<rparr>"
proof -
  from ok[unfolded replace_node_Inr[OF wf]] have known: "nd_id n \<in> node_ids W"
    and edited: "graph_edited R W W' (gw_next_node W) (gw_next_wire W)
      (map (\<lambda>m. if nd_id m = nd_id n then canonical_node n else m) (gd_nodes (gw_graph W)))
      (gd_wires (gw_graph W)) (gw_placements W)" by blast+
  from known obtain m where "m \<in> set (gd_nodes (gw_graph W))" "nd_id m = nd_id n" by (auto simp: node_ids_def)
  then have "table_map nd_id (\<lambda>n. n) (gd_nodes (gw_graph W)) (nd_id n) = Some m"
    by (simp add: table_map_Some[OF canvas_keys(1)[OF wf]])
  then show ?thesis
    using graph_edited_wf[OF edited] table_map_replace[OF canvas_keys(1)[OF wf], of "nd_id n" "\<lambda>_. canonical_node n"]
    unfolding canvas_edited[OF edited] by (simp add: canvas_of_def)
qed

text \<open>The three edits of one node.\<close>

lemma update_node_sound:
  assumes wf: "workspace_wf R W" and n: "document_node (gw_graph W) i = Some n"
    and ok: "(if unchanged then Inr (W, ()) else replace_node R W (f n)) = Inr (W', u)"
    and f: "nd_id (f n) = nd_id n" "canonical_node (f n) = f n" "unchanged \<Longrightarrow> f n = n"
  shows "workspace_wf R W' \<and> canvas_of W' = (canvas_of W)\<lparr>cv_nodes := (cv_nodes (canvas_of W))
    (i := map_option f (cv_nodes (canvas_of W) i))\<rparr>"
proof -
  from n workspace_node_Some[OF wf] have "n \<in> set (gd_nodes (gw_graph W))" "nd_id n = i" by blast+
  then have at: "cv_nodes (canvas_of W) i = Some n"
    by (simp add: canvas_of_def table_map_Some[OF canvas_keys(1)[OF wf]])
  show ?thesis
  proof (cases unchanged)
    case True
    then have "f n = n" by (rule f(3))
    with at have "(cv_nodes (canvas_of W))(i := map_option f (cv_nodes (canvas_of W) i)) = cv_nodes (canvas_of W)"
      by (simp add: fun_upd_idem)
    then show ?thesis using ok True wf by simp
  next
    case False
    then show ?thesis using replace_node_sound[OF wf, of "f n" W' u] ok f at \<open>nd_id n = i\<close> by simp
  qed
qed

lemma set_node_label_sound:
  assumes wf: "workspace_wf R W" and ok: "set_node_label R W i l = Inr (W', u)"
  shows "edit_sound R (SetNodeLabel i l) W W' Done"
proof -
  from ok obtain n where n: "document_node (gw_graph W) i = Some n" by (auto simp: set_node_label_def)
  with workspace_node_Some[OF wf] workspace_node_ok[OF wf] have "node_ok R (gd_schema (gw_graph W)) n" by blast
  then have "canonical_node (n\<lparr>nd_label := l\<rparr>) = n\<lparr>nd_label := l\<rparr>" by (rule canonical_node_kept) simp_all
  then show ?thesis
    using update_node_sound[OF wf n, of "nd_label n = l" "\<lambda>n. n\<lparr>nd_label := l\<rparr>" W' u] ok n
    by (auto simp: set_node_label_def edit_sound_def)
qed

lemma set_node_domain_sound:
  assumes wf: "workspace_wf R W" and ok: "set_node_domain R W i d = Inr (W', u)"
  shows "edit_sound R (SetNodeDomain i d) W W' Done"
proof -
  from ok obtain n where n: "document_node (gw_graph W) i = Some n" by (auto simp: set_node_domain_def)
  with workspace_node_Some[OF wf] workspace_node_ok[OF wf] have "node_ok R (gd_schema (gw_graph W)) n" by blast
  then have "canonical_node (n\<lparr>nd_domain := d\<rparr>) = n\<lparr>nd_domain := d\<rparr>" by (rule canonical_node_kept) simp_all
  then show ?thesis
    using update_node_sound[OF wf n, of "nd_domain n = d" "\<lambda>n. n\<lparr>nd_domain := d\<rparr>" W' u] ok n
    by (auto simp: set_node_domain_def edit_sound_def)
qed

lemma replace_parameter:
  assumes ids: "distinct (map np_id ps)" and q: "List.find (\<lambda>q. np_id q = p) ps = Some q"
  shows "replace_first (\<lambda>q. np_id q = p) \<lparr>np_id = np_id q, np_name = np_name q, np_value = v\<rparr> ps
    = map (\<lambda>q. if np_id q = p then q\<lparr>np_value := v\<rparr> else q) ps"
  unfolding replace_first_keyed[OF ids]
proof (rule map_cong[OF refl])
  fix z assume "z \<in> set ps"
  with q ids have "np_id z = p \<Longrightarrow> z = q" by (auto simp: find_key_Some[OF ids] distinct_map dest: inj_onD)
  then show "(if np_id z = p then \<lparr>np_id = np_id q, np_name = np_name q, np_value = v\<rparr> else z)
    = (if np_id z = p then z\<lparr>np_value := v\<rparr> else z)" by simp
qed

lemma set_parameter_sound:
  assumes wf: "workspace_wf R W" and ok: "set_parameter R W i p v = Inr (W', u)"
  shows "edit_sound R (SetParameter i p v) W W' Done"
proof -
  let ?f = "\<lambda>n. n\<lparr>nd_parameters := map (\<lambda>q. if np_id q = p then q\<lparr>np_value := v\<rparr> else q) (nd_parameters n)\<rparr>"
  from ok obtain n where n: "document_node (gw_graph W) i = Some n" by (auto simp: set_parameter_def)
  with workspace_node_Some[OF wf] workspace_node_ok[OF wf] have node: "node_ok R (gd_schema (gw_graph W)) n" by blast
  then have ids: "distinct (map np_id (nd_parameters n))" by (simp add: node_ok_def canonical_table_def)
  from ok n obtain q where "List.find (\<lambda>q. np_id q = p) (nd_parameters n) = Some q"
    by (auto simp: set_parameter_def)
  then have q: "List.find (\<lambda>q. np_id q = p) (nd_parameters n) = Some q" "q \<in> set (nd_parameters n)" "np_id q = p"
    by (simp_all add: find_key_Some[OF ids])
  have unique: "z = q" if "z \<in> set (nd_parameters n)" "np_id z = p" for z
    using ids q that by (auto simp: distinct_map dest: inj_onD)
  have "map np_id (nd_parameters (?f n)) = map np_id (nd_parameters n)" by simp
  then have kept: "canonical_node (?f n) = ?f n" by (rule canonical_node_kept[OF node, rotated 2]) simp_all
  have same: "?f n = n" if "np_value q = v"
  proof -
    have "map (\<lambda>q. if np_id q = p then q\<lparr>np_value := v\<rparr> else q) (nd_parameters n) = nd_parameters n"
      using that unique by (intro map_idI) auto
    then show ?thesis by simp
  qed
  have replaced: "replace_first (\<lambda>q. np_id q = p) \<lparr>np_id = np_id q, np_name = np_name q, np_value = v\<rparr> (nd_parameters n)
    = nd_parameters (?f n)" by (simp add: replace_parameter[OF ids q(1)])
  have "(if np_value q = v then Inr (W, ()) else replace_node R W (?f n)) = Inr (W', u)"
    using ok unfolding set_parameter_def n q(1) ok_or_Some and_then.simps replaced
    by (simp split: if_split_asm)
  from update_node_sound[where f = ?f, OF wf n this _ kept same]
  have "workspace_wf R W' \<and> canvas_of W' = (canvas_of W)\<lparr>cv_nodes := (cv_nodes (canvas_of W))
    (i := map_option ?f (cv_nodes (canvas_of W) i))\<rparr>" by simp
  then show ?thesis unfolding edit_sound_def canvas_edit.simps .
qed

lemma connect_sound:
  assumes wf: "workspace_wf R W" and ok: "connect R W s t = Inr (W', i)"
  shows "edit_sound R (Connect s t) W W' (CreatedWire i)"
proof -
  from ok[unfolded connect_Inr[OF wf]] obtain f where i: "unat i = unat (gw_next_wire W)"
    and edited: "graph_edited R W W' (gw_next_node W) f (gd_nodes (gw_graph W))
      (gd_wires (gw_graph W) @ [\<lparr>wd_id = i, wd_source = s, wd_target = t\<rparr>]) (gw_placements W)" by blast
  have "i \<notin> wd_id ` set (gd_wires (gw_graph W))"
    using cursor_fresh[OF workspace_cursors(2)[OF wf] i] by (auto simp: wire_ids_def)
  then show ?thesis
    using graph_edited_wf[OF edited]
      table_map_snoc[of wd_id "\<lparr>wd_id = i, wd_source = s, wd_target = t\<rparr>" "gd_wires (gw_graph W)"
        "\<lambda>w. (wd_source w, wd_target w)"]
    unfolding edit_sound_def canvas_edited[OF edited] by (simp add: canvas_of_def)
qed

lemma disconnect_sound:
  assumes wf: "workspace_wf R W" and ok: "disconnect R W i = Inr (W', u)"
  shows "edit_sound R (Disconnect i) W W' Done"
  using ok[unfolded disconnect_Inr[OF wf]]
  by (auto simp: edit_sound_def canvas_of_def table_map_remove graph_edited_def)

lemma apply_edit_sound:
  "workspace_wf R W \<Longrightarrow> apply_edit R W e = Inr (W', r) \<Longrightarrow> edit_sound R e W W' r"
  by (cases e)
    (auto dest: move_node_sound create_node_sound delete_node_sound set_node_label_sound set_node_domain_sound
      set_parameter_sound connect_sound disconnect_sound)

section \<open>Identities\<close>

definition created_nodes :: "('q workspace_edit \<times> (workspace_error + edit_result)) list \<Rightarrow> graph_node_id list" where
  "created_nodes = concat \<circ> map (\<lambda>(e, r). case r of Inr (CreatedNode i) \<Rightarrow> [i] | _ \<Rightarrow> [])"

definition created_wires :: "('q workspace_edit \<times> (workspace_error + edit_result)) list \<Rightarrow> graph_wire_id list" where
  "created_wires = concat \<circ> map (\<lambda>(e, r). case r of Inr (CreatedWire i) \<Rightarrow> [i] | _ \<Rightarrow> [])"

text \<open>How one edit moves an identity cursor: it allocates the identity at the cursor or none.\<close>

definition cursor_moves :: "u32 option \<Rightarrow> u64 \<Rightarrow> u64 \<Rightarrow> u32 set \<Rightarrow> u32 set \<Rightarrow> bool" where
  "cursor_moves new c c' ids ids' \<longleftrightarrow> (case new of
     Some i \<Rightarrow> unat i = unat c \<and> unat c' = unat c + 1 \<and> ids' = insert i ids
   | None \<Rightarrow> c' = c \<and> ids' \<subseteq> ids)"

definition identities_move :: "'q graph_workspace \<Rightarrow> 'q graph_workspace \<Rightarrow> edit_result \<Rightarrow> bool" where
  "identities_move W W' r \<longleftrightarrow>
     cursor_moves (case r of CreatedNode i \<Rightarrow> Some i | _ \<Rightarrow> None) (gw_next_node W) (gw_next_node W') (node_ids W) (node_ids W')
     \<and> cursor_moves (case r of CreatedWire i \<Rightarrow> Some i | _ \<Rightarrow> None) (gw_next_wire W) (gw_next_wire W') (wire_ids W) (wire_ids W')"

lemma identities_unmoved [intro]: "identities_move W W Done"
  by (simp add: identities_move_def cursor_moves_def)

lemma replace_node_identities:
  assumes wf: "workspace_wf R W" and ok: "replace_node R W n = Inr (W', u)"
  shows "identities_move W W' Done"
proof -
  have "nd_id (if nd_id m = nd_id n then canonical_node n else m) = nd_id m" for m by simp
  then have "nd_id ` (\<lambda>m. if nd_id m = nd_id n then canonical_node n else m) ` A = nd_id ` A" for A
    unfolding image_image by simp
  then show ?thesis
    using ok[unfolded replace_node_Inr[OF wf]]
    by (auto simp: identities_move_def cursor_moves_def graph_edited_def node_ids_def wire_ids_def)
qed

lemma apply_edit_identities:
  assumes wf: "workspace_wf R W" and ok: "apply_edit R W e = Inr (W', r)"
  shows "identities_move W W' r"
proof (cases e)
  case (MoveNode i x y)
  with ok have "move_node R W i x y = Inr (W', ())" "r = Done" by auto
  from wf this(1) show ?thesis
  proof (cases rule: move_node_Inr)
    case (moved k)
    with \<open>r = Done\<close> show ?thesis by (simp add: identities_move_def cursor_moves_def node_ids_def wire_ids_def)
  qed (use \<open>r = Done\<close> in auto)
next
  case (CreateNode p x y)
  with ok obtain i where r: "create_node R W p x y = Inr (W', i)" "r = CreatedNode i" by auto
  from r(1) show ?thesis unfolding create_node_Inr[OF wf] r(2)
    by (auto simp: identities_move_def cursor_moves_def graph_edited_def node_ids_def wire_ids_def into_node_def)
next
  case (DeleteNode i)
  with ok obtain n where r: "delete_node R W i = Inr (W', n)" "r = RemovedWires n" by auto
  from r(1) show ?thesis unfolding delete_node_Inr[OF wf] r(2)
    by (auto simp: identities_move_def cursor_moves_def graph_edited_def node_ids_def wire_ids_def)
next
  case (Connect s t)
  with ok obtain i where r: "connect R W s t = Inr (W', i)" "r = CreatedWire i" by auto
  from r(1) show ?thesis unfolding connect_Inr[OF wf] r(2)
    by (auto simp: identities_move_def cursor_moves_def graph_edited_def node_ids_def wire_ids_def)
next
  case (Disconnect i)
  with ok have r: "disconnect R W i = Inr (W', ())" "r = Done" by auto
  from r(1) show ?thesis unfolding disconnect_Inr[OF wf] r(2)
    by (auto simp: identities_move_def cursor_moves_def graph_edited_def node_ids_def wire_ids_def)
qed (use ok replace_node_identities[OF wf] in
    \<open>auto simp: set_node_label_def set_node_domain_def set_parameter_def split: if_split_asm\<close>)

text \<open>What holds of the identities handed out so far, at every point of a run.\<close>

definition cursor_history :: "u32 list \<Rightarrow> u64 \<Rightarrow> u64 \<Rightarrow> u32 set \<Rightarrow> u32 set \<Rightarrow> bool" where
  "cursor_history created c c' ids ids' \<longleftrightarrow>
     unat c \<le> unat c' \<and> distinct created \<and> (\<forall>i \<in> set created. unat c \<le> unat i \<and> unat i < unat c')
     \<and> ids' \<subseteq> ids \<union> set created"

lemma cursor_history_step:
  assumes "cursor_history created c c' ids ids'" and "cursor_moves new c' c'' ids' ids''"
  shows "cursor_history (created @ (case new of Some i \<Rightarrow> [i] | None \<Rightarrow> [])) c c'' ids ids''"
  using assms by (cases new) (auto simp: cursor_history_def cursor_moves_def)

lemma edit_run_histories:
  assumes "edit_run R W done_edits W'" and "workspace_wf R W"
  shows "workspace_wf R W'
    \<and> cursor_history (created_nodes done_edits) (gw_next_node W) (gw_next_node W') (node_ids W) (node_ids W')
    \<and> cursor_history (created_wires done_edits) (gw_next_wire W) (gw_next_wire W') (wire_ids W) (wire_ids W')"
  using assms
proof (induction rule: edit_run.induct)
  case started
  then show ?case by (simp add: cursor_history_def created_nodes_def created_wires_def)
next
  case (accepted done_edits W' e W'' r)
  then have wf: "workspace_wf R W'" by blast
  have "workspace_wf R W''" using apply_edit_sound[OF wf accepted.hyps(2)] by (simp add: edit_sound_def)
  moreover note moves = apply_edit_identities[OF wf accepted.hyps(2), unfolded identities_move_def]
  have "created_nodes (done_edits @ [(e, Inr r)]) = created_nodes done_edits
      @ (case case r of CreatedNode i \<Rightarrow> Some i | _ \<Rightarrow> None of Some i \<Rightarrow> [i] | None \<Rightarrow> [])"
    "created_wires (done_edits @ [(e, Inr r)]) = created_wires done_edits
      @ (case case r of CreatedWire i \<Rightarrow> Some i | _ \<Rightarrow> None of Some i \<Rightarrow> [i] | None \<Rightarrow> [])"
    by (simp_all add: created_nodes_def created_wires_def split: edit_result.split)
  ultimately show ?case
    using cursor_history_step moves accepted.IH accepted.prems by metis
next
  case (rejected done_edits W' e err)
  then show ?case by (simp add: created_nodes_def created_wires_def)
qed

section \<open>Removals never fail\<close>

text \<open>A document with some nodes and wires removed is encodable when the whole one is.\<close>

lemma write_each_filter:
  "write_each w xs = Inr b \<Longrightarrow> \<exists>b'. write_each w (filter P xs) = Inr b' \<and> length b' \<le> length b"
proof (induction xs arbitrary: b)
  case (Cons x xs)
  then obtain a c where "w x = Inr a" "write_each w xs = Inr c" "b = a @ c" by auto
  with Cons.IH[of c] show ?case by fastforce
qed simp

lemma write_counted_filter:
  assumes "write_counted name w xs = Inr b"
  shows "\<exists>b'. write_counted name w (filter P xs) = Inr b' \<and> length b' \<le> length b"
proof -
  from assms obtain a where a: "write_each w xs = Inr a" and b: "length xs \<le> u32_max" "length b = 4 + length a"
    by (auto simp: write_counted_def put_u32_def)
  from write_each_filter[OF a, of P] obtain a' where a': "write_each w (filter P xs) = Inr a'" "length a' \<le> length a"
    by blast
  have "length (filter P xs) \<le> u32_max" using b(1) length_filter_le[of P xs] by linarith
  then show ?thesis using a' b by (auto simp: write_counted_def put_u32_def)
qed

lemma encode_restricted:
  assumes "encode_graph_document R D = Inr e"
  shows "\<exists>e'. encode_graph_document R (D\<lparr>gd_revision := r, gd_nodes := filter P (gd_nodes D),
    gd_wires := filter Q (gd_wires D)\<rparr>) = Inr e'"
proof -
  from assms[unfolded encode_graph_document_Inr] obtain limits schema clocks nodes wires where
    parts: "encode_limits (gs_limits (gd_schema D)) = Inr limits" "encode_schema R (gd_schema D) = Inr schema"
      "write_counted ''clock count'' encode_clock (gd_clocks D) = Inr clocks"
    and nodes: "write_counted ''node count'' (encode_node R (gd_schema D)) (gd_nodes D) = Inr nodes"
    and wires: "write_counted ''wire count'' encode_wire (gd_wires D) = Inr wires"
    and len: "length (document_magic @ put_u16 document_version @ put_u16 document_flags @ limits
        @ put_u64 (gd_revision D) @ schema @ clocks @ nodes @ wires) \<le> maximum_document_bytes (gs_limits (gd_schema D))"
    by fastforce
  from write_counted_filter[OF nodes, of P] write_counted_filter[OF wires, of Q] obtain nodes' wires' where
    smaller: "write_counted ''node count'' (encode_node R (gd_schema D)) (filter P (gd_nodes D)) = Inr nodes'"
      "write_counted ''wire count'' encode_wire (filter Q (gd_wires D)) = Inr wires'"
      "length nodes' \<le> length nodes" "length wires' \<le> length wires" by blast
  let ?b = "document_magic @ put_u16 document_version @ put_u16 document_flags @ limits
        @ put_u64 r @ schema @ clocks @ nodes' @ wires'"
  have "length ?b \<le> maximum_document_bytes (gs_limits (gd_schema D))"
    using len smaller(3,4) by (simp add: put_u64_def)
  then have "encode_graph_document R (D\<lparr>gd_revision := r, gd_nodes := filter P (gd_nodes D),
    gd_wires := filter Q (gd_wires D)\<rparr>) = Inr \<lparr>ce_bytes = ?b, ce_digest = ext_sha256 R ?b\<rparr>"
    unfolding encode_graph_document_Inr using parts smaller(1,2) by simp
  then show ?thesis by blast
qed

lemma document_wf_restricted:
  assumes wf: "document_wf R D"
    and ends: "\<And>w. w \<in> set (gd_wires D) \<Longrightarrow> Q w \<Longrightarrow> P (we_node (wd_source w)) \<and> P (we_node (wd_target w))"
  shows "document_wf R (D\<lparr>gd_revision := r, gd_nodes := filter (\<lambda>n. P (nd_id n)) (gd_nodes D),
    gd_wires := filter Q (gd_wires D)\<rparr>)"
proof -
  let ?D = "D\<lparr>gd_revision := r, gd_nodes := filter (\<lambda>n. P (nd_id n)) (gd_nodes D), gd_wires := filter Q (gd_wires D)\<rparr>"
  have kind: "clock_kind_ok ?D k = clock_kind_ok D k" for k by (cases k) (simp_all add: clock_resolves_def)
  have clocks: "clocks_wf ?D"
    using wf by (simp add: document_wf_def clocks_wf_def clock_ok_def kind clock_references_def clock_resolves_def)
  have "length (filter P' xs) \<le> m" if "length xs \<le> m" for P' m and xs :: "'x list"
    using that length_filter_le[of P' xs] by linarith
  then have nodes: "nodes_wf R ?D"
    using wf by (auto simp: document_wf_def nodes_wf_def canonical_table_filter)
  have "wire_ok ?D w" if "w \<in> set (gd_wires D)" "Q w" for w
  proof -
    from wf that(1) have "wire_ok D w" by (simp add: document_wf_def wires_wf_def)
    then show ?thesis using ends[OF that] by (fastforce simp: wire_ok_def)
  qed
  moreover have "length (filter Q (gd_wires D)) \<le> maximum_wires (gs_limits (gd_schema D))"
    using wf by (intro le_trans[OF length_filter_le]) (simp add: document_wf_def wires_wf_def)
  ultimately have "wires_wf ?D"
    using wf by (auto simp: document_wf_def wires_wf_def canonical_table_filter distinct_map_filter)
  with clocks nodes show ?thesis by (simp add: document_wf_def)
qed

definition revisions_left :: "'q graph_workspace \<Rightarrow> bool" where
  "revisions_left W \<longleftrightarrow> unat (gw_revision W) < u64_max \<and> unat (gd_revision (gw_graph W)) < u64_max"

lemma next_u64:
  assumes "unat (v :: u64) < u64_max"
  shows "unat (v + 1) = unat v + 1"
proof -
  have "checked_add_u64 v 1 = Some (v + 1)" using assms by (simp add: checked_add_u64_def)
  then show ?thesis by (simp add: checked_add_u64_Some)
qed

lemma cursor_ok_mono: "cursor_ok c ids \<Longrightarrow> ids' \<subseteq> ids \<Longrightarrow> cursor_ok c ids'"
  by (auto simp: cursor_ok_def)

lemma image_filter_keys: "key ` set (filter (\<lambda>x. P (key x)) xs) = {k \<in> key ` set xs. P k}"
  by auto

lemma restricted_edit:
  assumes wf: "workspace_wf R W" and left: "revisions_left W"
    and ends: "\<And>w. w \<in> set (gd_wires (gw_graph W)) \<Longrightarrow> Q w \<Longrightarrow> P (we_node (wd_source w)) \<and> P (we_node (wd_target w))"
  shows "\<exists>W'. graph_edited R W W' (gw_next_node W) (gw_next_wire W) (filter (\<lambda>n. P (nd_id n)) (gd_nodes (gw_graph W)))
    (filter Q (gd_wires (gw_graph W))) (filter (\<lambda>p. P (pl_node p)) (gw_placements W))"
proof -
  let ?D = "(gw_graph W)\<lparr>gd_revision := gd_revision (gw_graph W) + 1,
    gd_nodes := filter (\<lambda>n. P (nd_id n)) (gd_nodes (gw_graph W)), gd_wires := filter Q (gd_wires (gw_graph W))\<rparr>"
  from wf obtain e where "encode_graph_document R (gw_graph W) = Inr e" by (auto simp: workspace_wf_def)
  from encode_restricted[OF this] obtain e' where e': "encode_graph_document R ?D = Inr e'" by blast
  let ?W = "W\<lparr>gw_revision := gw_revision W + 1, gw_graph := ?D, gw_digest := ce_digest e',
    gw_placements := filter (\<lambda>p. P (pl_node p)) (gw_placements W)\<rparr>"
  have "length (filter (\<lambda>p. P (pl_node p)) (gw_placements W)) \<le> wl_placements (gw_limits W)"
    using wf by (intro le_trans[OF length_filter_le]) (simp add: workspace_wf_def)
  moreover have "pl_node ` set (filter (\<lambda>p. P (pl_node p)) (gw_placements W)) = node_ids ?W"
    using workspace_cursors(3)[OF wf] image_filter_keys[of pl_node P "gw_placements W"]
      image_filter_keys[of nd_id P "gd_nodes (gw_graph W)"] by (simp add: node_ids_def)
  moreover have "cursor_ok (gw_next_node W) (node_ids ?W)" "cursor_ok (gw_next_wire W) (wire_ids ?W)"
    by (rule cursor_ok_mono[OF workspace_cursors(1)[OF wf]]; auto simp: node_ids_def)
      (rule cursor_ok_mono[OF workspace_cursors(2)[OF wf]]; auto simp: wire_ids_def)
  ultimately have "workspace_wf R ?W"
    using wf e' document_wf_restricted[where r = "gd_revision (gw_graph W) + 1", OF workspace_wf_document[OF wf] ends]
    by (auto simp: workspace_wf_def canonical_table_filter)
  then have "graph_edited R W ?W (gw_next_node W) (gw_next_wire W) (filter (\<lambda>n. P (nd_id n)) (gd_nodes (gw_graph W)))
    (filter Q (gd_wires (gw_graph W))) (filter (\<lambda>p. P (pl_node p)) (gw_placements W))"
    using left by (simp add: graph_edited_def next_u64 revisions_left_def)
  then show ?thesis by blast
qed

lemma delete_node_succeeds:
  assumes wf: "workspace_wf R W" and left: "revisions_left W" and known: "i \<in> node_ids W"
  shows "\<exists>W' removed. delete_node R W i = Inr (W', removed)"
  using restricted_edit[OF wf left, of "\<lambda>w. \<not> incident i w" "\<lambda>j. j \<noteq> i"] known
  by (auto simp: delete_node_Inr[OF wf] incident_def)

lemma disconnect_succeeds:
  assumes wf: "workspace_wf R W" and left: "revisions_left W" and known: "i \<in> wire_ids W"
  shows "\<exists>W'. disconnect R W i = Inr (W', ())"
  using restricted_edit[OF wf left, of "\<lambda>w. wd_id w \<noteq> i" "\<lambda>_. True"] known
  by (auto simp: disconnect_Inr[OF wf])

section \<open>Why an edit is rejected\<close>

text \<open>
  The graph an edit asks for, said without running it: the nodes and wires of the workspace with the
  one change, under the next revision. A move keeps the graph.
\<close>

fun requested_nodes :: "'q graph_workspace \<Rightarrow> 'q workspace_edit \<Rightarrow> 'q node_definition list" where
  "requested_nodes W (CreateNode p x y) = gd_nodes (gw_graph W) @ [into_node p (ucast (gw_next_node W))]"
| "requested_nodes W (DeleteNode i) = filter (\<lambda>n. nd_id n \<noteq> i) (gd_nodes (gw_graph W))"
| "requested_nodes W (SetNodeLabel i l) =
     map (\<lambda>n. if nd_id n = i then n\<lparr>nd_label := l\<rparr> else n) (gd_nodes (gw_graph W))"
| "requested_nodes W (SetNodeDomain i d) =
     map (\<lambda>n. if nd_id n = i then n\<lparr>nd_domain := d\<rparr> else n) (gd_nodes (gw_graph W))"
| "requested_nodes W (SetParameter i p v) =
     map (\<lambda>n. if nd_id n = i then n\<lparr>nd_parameters :=
         map (\<lambda>q. if np_id q = p then q\<lparr>np_value := v\<rparr> else q) (nd_parameters n)\<rparr> else n) (gd_nodes (gw_graph W))"
| "requested_nodes W _ = gd_nodes (gw_graph W)"

fun requested_wires :: "'q graph_workspace \<Rightarrow> 'q workspace_edit \<Rightarrow> wire_definition list" where
  "requested_wires W (DeleteNode i) = filter (\<lambda>w. \<not> incident i w) (gd_wires (gw_graph W))"
| "requested_wires W (Connect s t) =
     gd_wires (gw_graph W) @ [\<lparr>wd_id = ucast (gw_next_wire W), wd_source = s, wd_target = t\<rparr>]"
| "requested_wires W (Disconnect i) = filter (\<lambda>w. wd_id w \<noteq> i) (gd_wires (gw_graph W))"
| "requested_wires W _ = gd_wires (gw_graph W)"

fun requested_graph :: "'q graph_workspace \<Rightarrow> 'q workspace_edit \<Rightarrow> 'q graph_document" where
  "requested_graph W (MoveNode i x y) = gw_graph W"
| "requested_graph W e = canonical_document (gd_revision (gw_graph W) + 1) (gd_schema (gw_graph W))
     (gd_clocks (gw_graph W)) (requested_nodes W e) (requested_wires W e)"

fun edit_target :: "'q workspace_edit \<Rightarrow> graph_node_id option" where
  "edit_target (MoveNode i x y) = Some i"
| "edit_target (DeleteNode i) = Some i"
| "edit_target (SetNodeLabel i l) = Some i"
| "edit_target (SetNodeDomain i d) = Some i"
| "edit_target (SetParameter i p v) = Some i"
| "edit_target _ = None"

fun edit_position :: "'q workspace_edit \<Rightarrow> (i32 \<times> i32) option" where
  "edit_position (MoveNode i x y) = Some (x, y)"
| "edit_position (CreateNode p x y) = Some (x, y)"
| "edit_position _ = None"

text \<open>
  The errors that would mean a broken workspace (a missing or duplicate placement, a cursor behind
  the identities, an invalid policy) and those of the byte format never occur; every other says
  something true about the request and the workspace.
\<close>

definition rejection_genuine ::
  "'q external_api \<Rightarrow> 'q graph_workspace \<Rightarrow> 'q workspace_edit \<Rightarrow> workspace_error \<Rightarrow> bool" where
  "rejection_genuine R W e err \<longleftrightarrow> (case err of
     WS_UnknownNode i \<Rightarrow> edit_target e = Some i \<and> i \<notin> node_ids W
   | WS_UnknownWire i \<Rightarrow> e = Disconnect i \<and> i \<notin> wire_ids W
   | WS_UnknownParameter i p \<Rightarrow> (\<exists>v. e = SetParameter i p v)
       \<and> (\<exists>n \<in> set (gd_nodes (gw_graph W)). nd_id n = i \<and> p \<notin> np_id ` set (nd_parameters n))
   | WS_ParameterTypeMismatch expected received \<Rightarrow> expected \<noteq> received
       \<and> (\<exists>i p v. e = SetParameter i p v \<and> tv_value_type v = received
           \<and> (\<exists>n \<in> set (gd_nodes (gw_graph W)). nd_id n = i
               \<and> (\<exists>q \<in> set (nd_parameters n). np_id q = p \<and> tv_value_type (np_value q) = expected)))
   | WS_IdentifierExhausted kind \<Rightarrow>
       kind = ''node'' \<and> (\<exists>p x y. e = CreateNode p x y) \<and> unat (gw_next_node W) = 2 ^ 32
       \<or> kind = ''wire'' \<and> (\<exists>s t. e = Connect s t) \<and> unat (gw_next_wire W) = 2 ^ 32
   | WS_RevisionOverflow which \<Rightarrow>
       which = ''graph'' \<and> (\<forall>i x y. e \<noteq> MoveNode i x y) \<and> unat (gd_revision (gw_graph W)) = u64_max
       \<or> which = ''workspace'' \<and> unat (gw_revision W) = u64_max
   | WS_LimitExceeded name \<Rightarrow>
       name = ''canvas coordinate'' \<and> (\<exists>x y. edit_position e = Some (x, y)
         \<and> \<not> (coordinate_ok (gw_limits W) x \<and> coordinate_ok (gw_limits W) y))
       \<or> name = ''placement count'' \<and> (\<exists>p x y. e = CreateNode p x y)
         \<and> length (gw_placements W) = wl_placements (gw_limits W)
   | WS_GraphDocument d \<Rightarrow> \<not> document_wf R (requested_graph W e)
       \<and> try_new_document R (gd_revision (gw_graph W) + 1) (gd_schema (gw_graph W)) (gd_clocks (gw_graph W))
           (requested_nodes W e) (requested_wires W e) = Inl d
   | WS_GraphWire w \<Rightarrow> document_wf R (requested_graph W e) \<and> encode_graph_document R (requested_graph W e) = Inl w
   | _ \<Rightarrow> False)"

lemma allocate_identity_Inl:
  assumes "cursor_ok c ids" and "allocate_identity c kind = Inl err"
  shows "err = WS_IdentifierExhausted kind \<and> unat c = 2 ^ 32"
proof (cases "unat c \<le> u32_max")
  case True
  then have "checked_add_u64 c 1 = Some (c + 1)" and le: "unat c \<le> 4294967295"
    by (simp_all add: checked_add_u64_def u32_max_def u64_max_def)
  then have "c + 1 \<le> exhausted_cursor"
    by (simp add: word_le_nat_alt exhausted_cursor_def checked_add_u64_Some)
  then show ?thesis using assms True \<open>checked_add_u64 c 1 = Some (c + 1)\<close> by (simp add: allocate_identity_def)
next
  case False
  then show ?thesis using assms by (auto simp: allocate_identity_def cursor_ok_def u32_max_def)
qed

lemma workspace_placements_ok:
  "workspace_wf R W \<Longrightarrow> p \<in> set (gw_placements W) \<Longrightarrow> placement_ok (gw_limits W) p"
  by (simp add: workspace_wf_def)

lemma cursor_ok_next:
  assumes "cursor_ok c ids" and "unat i = unat c" and "unat f = unat c + 1"
  shows "cursor_ok f (insert i ids)"
  using assms unat_u32_le[of i] by (auto simp: cursor_ok_def u32_max_def less_Suc_eq)

lemma revisions_left_iff: "revisions_left W \<longleftrightarrow> (\<exists>revisions. next_revisions W = Inr revisions)"
proof
  assume "revisions_left W"
  then show "\<exists>revisions. next_revisions W = Inr revisions"
    by (auto simp: next_revisions_def checked_add_u64_def revisions_left_def)
next
  assume "\<exists>revisions. next_revisions W = Inr revisions"
  then obtain g w where "next_revisions W = Inr (g, w)" by (metis surj_pair)
  then have "unat g = unat (gd_revision (gw_graph W)) + 1" "unat w = unat (gw_revision W) + 1"
    by (simp_all add: next_revisions_Inr)
  then show "revisions_left W"
    using unat_u64_le[of g] unat_u64_le[of w] by (simp add: revisions_left_def)
qed

text \<open>What remains possible once the candidate's placements and cursors are in order.\<close>

definition candidate_refused ::
  "'q external_api \<Rightarrow> 'q graph_workspace \<Rightarrow> 'q node_definition list \<Rightarrow> wire_definition list \<Rightarrow> node_placement list
     \<Rightarrow> workspace_error \<Rightarrow> bool" where
  "candidate_refused R W nodes wires pls err \<longleftrightarrow>
     (let r = gd_revision (gw_graph W) + 1; S = gd_schema (gw_graph W); cs = gd_clocks (gw_graph W);
          D = canonical_document r S cs nodes wires in
      err = WS_LimitExceeded ''placement count'' \<and> wl_placements (gw_limits W) < length pls
      \<or> (\<exists>w. err = WS_GraphWire w \<and> document_wf R D \<and> encode_graph_document R D = Inl w)
      \<or> (\<exists>d. err = WS_GraphDocument d \<and> \<not> document_wf R D \<and> try_new_document R r S cs nodes wires = Inl d))"

lemma placements_cover_nodes:
  assumes "document_wf R D" and "pl_node ` set pls = nd_id ` set (gd_nodes D)"
  shows "length (gd_nodes D) \<le> length pls"
proof -
  have "length (gd_nodes D) = card (nd_id ` set (gd_nodes D))"
    using assms(1) distinct_card[of "map nd_id (gd_nodes D)"] by (simp add: document_wf_def nodes_wf_def canonical_table_def)
  also have "\<dots> \<le> length pls" using card_image_le[of "set pls" pl_node] card_length[of pls] by (simp flip: assms(2))
  finally show ?thesis .
qed

lemma try_new_workspace_Inl:
  assumes wf: "document_wf R D" and "limits_ok l" and "canonical_table pl_node (sort_key pl_node pls)"
    and nodes: "pl_node ` set pls = nd_id ` set (gd_nodes D)" and "\<forall>p \<in> set pls. placement_ok l p"
    and "cursor_ok nn (nd_id ` set (gd_nodes D))" and "cursor_ok nw (wd_id ` set (gd_wires D))"
    and rejected: "try_new_workspace R l r nn nw D pls = Inl err"
  shows "err = WS_LimitExceeded ''placement count'' \<and> wl_placements l < length pls
    \<or> (\<exists>w. err = WS_GraphWire w \<and> encode_graph_document R D = Inl w)"
proof -
  have "validate_workspace_limits l = Inr ()" using assms(2) by simp
  moreover have "validate_placements D (sort_key pl_node pls) l = Inr ()"
    using assms(3-5) by (simp add: validate_placements_ok[OF assms(1)])
  moreover have "validate_identity_cursor nn (map (\<lambda>n. ucast (nd_id n)) (gd_nodes D)) ''node'' = Inr ()"
    "validate_identity_cursor nw (map (\<lambda>w. ucast (wd_id w)) (gd_wires D)) ''wire'' = Inr ()"
    using assms(6,7) by (simp_all add: validate_cursor_ids)
  ultimately show ?thesis
    using rejected placements_cover_nodes[OF wf nodes]
    by (auto simp: try_new_workspace_def Let_def simp del: validate_workspace_limits_ok split: if_splits)
qed

lemma commit_graph_Inl:
  assumes wf: "workspace_wf R W" and "canonical_table pl_node (sort_key pl_node pls)"
    and "pl_node ` set pls = nd_id ` set nodes" and "\<forall>p \<in> set pls. placement_ok (gw_limits W) p"
    and "cursor_ok nn (nd_id ` set nodes)" and "cursor_ok nw (wd_id ` set wires)"
    and next_: "next_revisions W = Inr revisions" and rejected: "commit_graph R W revisions nn nw nodes wires pls = Inl err"
  shows "candidate_refused R W nodes wires pls err"
proof -
  have r: "fst revisions = gd_revision (gw_graph W) + 1"
    using next_ by (auto simp: next_revisions_def checked_add_u64_def split: if_split_asm)
  show ?thesis
  proof (cases "try_new_document R (fst revisions) (gd_schema (gw_graph W)) (gd_clocks (gw_graph W)) nodes wires")
    case (Inl e)
    then have "\<not> document_wf R (canonical_document (fst revisions) (gd_schema (gw_graph W)) (gd_clocks (gw_graph W)) nodes wires)"
      using try_new_document_Inr[of R "fst revisions" "gd_schema (gw_graph W)" "gd_clocks (gw_graph W)" nodes wires] by auto
    with rejected Inl show ?thesis by (simp add: commit_graph_def candidate_refused_def Let_def r)
  next
    case (Inr D)
    then have D: "document_wf R D" "gd_nodes D = map canonical_node (sort_key nd_id nodes)" "gd_wires D = sort_key wd_id wires"
      "D = canonical_document (fst revisions) (gd_schema (gw_graph W)) (gd_clocks (gw_graph W)) nodes wires"
      by (auto simp: try_new_document_Inr canonical_document_def)
    have "nd_id ` set (gd_nodes D) = nd_id ` set nodes" "wd_id ` set (gd_wires D) = wd_id ` set wires"
      unfolding D(2,3) by (simp_all add: image_image)
    with try_new_workspace_Inl[OF D(1) _ assms(2), of "gw_limits W" nn nw "snd revisions" err] assms Inr
    have "err = WS_LimitExceeded ''placement count'' \<and> wl_placements (gw_limits W) < length pls
      \<or> (\<exists>w. err = WS_GraphWire w \<and> encode_graph_document R D = Inl w)"
      by (simp add: commit_graph_def workspace_wf_def)
    with D(1,4) show ?thesis by (auto simp: candidate_refused_def Let_def r)
  qed
qed

text \<open>A refused candidate of the requested graph, with no placement more than before unless a node is created.\<close>

lemma candidate_genuine:
  assumes "candidate_refused R W (requested_nodes W e) (requested_wires W e) pls err"
    and "\<forall>i x y. e \<noteq> MoveNode i x y" and wf: "workspace_wf R W"
    and "length pls \<le> length (gw_placements W) + (if \<exists>p x y. e = CreateNode p x y then 1 else 0)"
  shows "rejection_genuine R W e err"
proof -
  have graph: "requested_graph W e = canonical_document (gd_revision (gw_graph W) + 1) (gd_schema (gw_graph W))
     (gd_clocks (gw_graph W)) (requested_nodes W e) (requested_wires W e)" using assms(2) by (cases e) auto
  have "length (gw_placements W) \<le> wl_placements (gw_limits W)" using wf by (simp add: workspace_wf_def)
  with assms(1,4) show ?thesis
    by (auto simp: candidate_refused_def rejection_genuine_def graph Let_def split: if_split_asm)
qed

lemma next_revisions_Inl:
  "next_revisions W = Inl err \<Longrightarrow> \<forall>i x y. e \<noteq> MoveNode i x y \<Longrightarrow> rejection_genuine R W e err"
proof -
  have none: "checked_add_u64 v 1 = None \<longleftrightarrow> unat v = u64_max" for v
    using unat_u64_le[of v] by (auto simp: checked_add_u64_def)
  show "next_revisions W = Inl err \<Longrightarrow> \<forall>i x y. e \<noteq> MoveNode i x y \<Longrightarrow> rejection_genuine R W e err"
    by (auto simp: next_revisions_def none rejection_genuine_def)
qed

lemma validate_coordinate_refused:
  "validate_coordinate v l = Inl err \<Longrightarrow> err = WS_LimitExceeded ''canvas coordinate'' \<and> \<not> coordinate_ok l v"
  using validate_coordinate_ok[of v l "()"] by (cases "coordinate_ok l v") (auto simp: validate_coordinate_def split: if_splits)

lemma next_revisions_left: "\<not> revisions_left W \<longleftrightarrow> (\<exists>err. next_revisions W = Inl err)"
  unfolding revisions_left_iff by (cases "next_revisions W") auto

text \<open>An edit that replaces the node named by the request with the changed node.\<close>

lemma update_node_Inl:
  assumes wf: "workspace_wf R W" and n: "document_node (gw_graph W) i = Some n"
    and nodes: "requested_nodes W e = map (\<lambda>m. if nd_id m = i then f m else m) (gd_nodes (gw_graph W))"
    and wires: "requested_wires W e = gd_wires (gw_graph W)"
    and e: "\<forall>i x y. e \<noteq> MoveNode i x y" "edit_target e = Some i" and f: "\<And>m. nd_id (f m) = nd_id m"
    and rejected: "replace_node R W (f n) = Inl err"
  shows "rejection_genuine R W e err"
proof -
  from n have known: "n \<in> set (gd_nodes (gw_graph W))" "nd_id n = i" by (simp_all add: workspace_node_Some[OF wf])
  have ns: "map (\<lambda>m. if nd_id m = i then f n else m) (gd_nodes (gw_graph W)) = requested_nodes W e"
    unfolding nodes
  proof (rule map_cong[OF refl])
    fix m assume "m \<in> set (gd_nodes (gw_graph W))"
    then have "nd_id m = i \<Longrightarrow> m = n" using known canonical_table_key_inj[OF workspace_tables(2)[OF wf]] by blast
    then show "(if nd_id m = i then f n else m) = (if nd_id m = i then f m else m)" by auto
  qed
  have ids: "nd_id ` set (requested_nodes W e) = node_ids W"
  proof -
    have "nd_id (if nd_id m = i then f m else m) = nd_id m" for m by (simp add: f)
    then show ?thesis unfolding nodes set_map image_image node_ids_def by simp
  qed
  show ?thesis
  proof (cases "next_revisions W")
    case (Inl e')
    with rejected n known(2) show ?thesis by (auto simp: replace_node_def f intro: next_revisions_Inl[OF _ e(1)])
  next
    case (Inr revisions)
    with rejected n have "commit_graph R W revisions (gw_next_node W) (gw_next_wire W) (requested_nodes W e)
        (requested_wires W e) (gw_placements W) = Inl err"
      by (simp add: replace_node_def f known(2) ns wires)
    then have "candidate_refused R W (requested_nodes W e) (requested_wires W e) (gw_placements W) err"
      using workspace_cursors[OF wf] workspace_sorted_all(3)[OF wf] workspace_tables(4)[OF wf] workspace_placements_ok[OF wf]
      by (intro commit_graph_Inl[OF wf _ _ _ _ _ Inr]) (simp_all add: ids wires wire_ids_def)
    then show ?thesis by (rule candidate_genuine[OF _ e(1) wf]) simp
  qed
qed

lemma move_node_Inl:
  assumes wf: "workspace_wf R W" and rejected: "move_node R W i x y = Inl err"
  shows "rejection_genuine R W (MoveNode i x y) err"
proof -
  let ?e = "MoveNode i x y :: 'a workspace_edit"
  have unknown: "i \<notin> node_ids W" if "placement_index (gw_placements W) i = None"
    using that placement_index_None[of "gw_placements W" i] workspace_tables(4)[OF wf] workspace_cursors(3)[OF wf]
    by (simp add: canonical_table_def)
  have full: "unat (gw_revision W) = u64_max" if "checked_add_u64 (gw_revision W) 1 = None"
    using that unat_u64_le[of "gw_revision W"] by (simp add: checked_add_u64_def split: if_splits)
  have candidate: False if k: "placement_index (gw_placements W) i = Some k"
    and xy: "coordinate_ok (gw_limits W) x" "coordinate_ok (gw_limits W) y"
    and new: "try_new_workspace R (gw_limits W) r (gw_next_node W) (gw_next_wire W) (gw_graph W)
       ((gw_placements W)[k := \<lparr>pl_node = i, pl_x = x, pl_y = y\<rparr>]) = Inl err" for k r
  proof -
    let ?pls = "(gw_placements W)[k := \<lparr>pl_node = i, pl_x = x, pl_y = y\<rparr>]"
    from placement_index_Some[OF k] have keys: "map pl_node ?pls = map pl_node (gw_placements W)"
      by (simp add: map_update list_update_same_conv)
    then have "canonical_table pl_node ?pls" using workspace_tables(4)[OF wf] by (simp add: canonical_table_def)
    then have "canonical_table pl_node (sort_key pl_node ?pls)" by (simp add: canonical_table_sort_key)
    moreover have "pl_node ` set ?pls = nd_id ` set (gd_nodes (gw_graph W))"
      using arg_cong[OF keys, of set] workspace_cursors(3)[OF wf] by (simp add: node_ids_def)
    moreover have "\<forall>p \<in> set ?pls. placement_ok (gw_limits W) p"
    proof
      fix p assume "p \<in> set ?pls"
      then have "p = \<lparr>pl_node = i, pl_x = x, pl_y = y\<rparr> \<or> p \<in> set (gw_placements W)"
        using set_update_subset_insert by fastforce
      then show "placement_ok (gw_limits W) p"
        using xy workspace_placements_ok[OF wf] by (auto simp: placement_ok_def)
    qed
    ultimately have "err = WS_LimitExceeded ''placement count'' \<and> wl_placements (gw_limits W) < length ?pls
        \<or> (\<exists>w. err = WS_GraphWire w \<and> encode_graph_document R (gw_graph W) = Inl w)"
      using wf new by (intro try_new_workspace_Inl[OF workspace_wf_document[OF wf]])
        (auto simp: workspace_wf_def node_ids_def wire_ids_def)
    then show False using wf by (auto simp: workspace_wf_def)
  qed
  from rejected show ?thesis
    using candidate unknown full
    by (auto simp: move_node_def rejection_genuine_def dest!: validate_coordinate_refused split: if_splits)
qed

lemma word_of_cursor: "unat (i :: u32) = unat (c :: u64) \<Longrightarrow> ucast c = i"
proof -
  assume eq: "unat i = unat c"
  have "unat i < 2 ^ 32" using unsigned_less[of i] by simp
  then have "unat (ucast c :: u32) = unat i" by (simp add: eq unsigned_ucast_eq take_bit_nat_eq_self)
  then show ?thesis by (simp add: word_unat_eq_iff)
qed

lemma create_node_Inl:
  assumes wf: "workspace_wf R W" and rejected: "create_node R W p x y = Inl err"
  shows "rejection_genuine R W (CreateNode p x y) err"
proof -
  let ?e = "CreateNode p x y :: 'a workspace_edit"
  have candidate: "rejection_genuine R W ?e err" if i: "unat i = unat (gw_next_node W)" "unat f = unat (gw_next_node W) + 1"
    and xy: "coordinate_ok (gw_limits W) x" "coordinate_ok (gw_limits W) y" and next_: "next_revisions W = Inr revisions"
    and new: "commit_graph R W revisions f (gw_next_wire W) (gd_nodes (gw_graph W) @ [into_node p i])
      (gd_wires (gw_graph W)) (gw_placements W @ [\<lparr>pl_node = i, pl_x = x, pl_y = y\<rparr>]) = Inl err" for i f revisions
  proof -
    have fresh: "j < i" if "j \<in> node_ids W" for j using cursor_fresh[OF workspace_cursors(1)[OF wf] i(1) that] .
    have sorted: "sort_key pl_node (gw_placements W @ [\<lparr>pl_node = i, pl_x = x, pl_y = y\<rparr>])
      = gw_placements W @ [\<lparr>pl_node = i, pl_x = x, pl_y = y\<rparr>]"
      by (rule sort_key_snoc[OF workspace_tables(4)[OF wf]]) (use fresh workspace_cursors(3)[OF wf] in auto)
    have "candidate_refused R W (requested_nodes W ?e) (requested_wires W ?e)
        (gw_placements W @ [\<lparr>pl_node = i, pl_x = x, pl_y = y\<rparr>]) err"
      unfolding requested_nodes.simps requested_wires.simps word_of_cursor[OF i(1)]
    proof (rule commit_graph_Inl[OF wf _ _ _ _ _ next_ new])
      show "canonical_table pl_node (sort_key pl_node (gw_placements W @ [\<lparr>pl_node = i, pl_x = x, pl_y = y\<rparr>]))"
        using fresh workspace_cursors(3)[OF wf] workspace_tables(4)[OF wf]
        unfolding sorted by (force simp: canonical_table_def sorted_append)
      show "cursor_ok f (nd_id ` set (gd_nodes (gw_graph W) @ [into_node p i]))"
        using cursor_ok_next[OF workspace_cursors(1)[OF wf] i] by (simp add: node_ids_def into_node_def)
      show "cursor_ok (gw_next_wire W) (wd_id ` set (gd_wires (gw_graph W)))"
        using workspace_cursors(2)[OF wf] by (simp add: wire_ids_def)
    qed (use workspace_cursors(3)[OF wf] workspace_placements_ok[OF wf] xy in
        \<open>auto simp: node_ids_def into_node_def placement_ok_def\<close>)
    then show ?thesis by (rule candidate_genuine[OF _ _ wf]) simp_all
  qed
  have revisions: "rejection_genuine R W ?e err" if "next_revisions W = Inl err"
    by (rule next_revisions_Inl[OF that]) simp
  have exhausted: "rejection_genuine R W ?e err" if "allocate_identity (gw_next_node W) ''node'' = Inl err"
    using allocate_identity_Inl[OF workspace_cursors(1)[OF wf] that] by (simp add: rejection_genuine_def)
  from rejected show ?thesis
    using candidate revisions exhausted
    by (auto simp: create_node_def allocate_identity_Inr rejection_genuine_def dest!: validate_coordinate_refused)
qed

lemma delete_node_Inl:
  assumes wf: "workspace_wf R W" and rejected: "delete_node R W i = Inl err"
  shows "rejection_genuine R W (DeleteNode i) err"
proof (cases "i \<in> node_ids W \<and> revisions_left W")
  case True
  with delete_node_succeeds[OF wf] rejected show ?thesis by fastforce
next
  case False
  then show ?thesis
    using rejected next_revisions_Inl[of W err "DeleteNode i" R] next_revisions_left[of W]
    by (auto simp: delete_node_def workspace_node_None[OF wf] rejection_genuine_def split: if_splits)
qed

lemma connect_Inl:
  assumes wf: "workspace_wf R W" and rejected: "connect R W s t = Inl err"
  shows "rejection_genuine R W (Connect s t) err"
proof -
  let ?e = "Connect s t :: 'a workspace_edit"
  have candidate: "rejection_genuine R W ?e err" if i: "unat i = unat (gw_next_wire W)" "unat f = unat (gw_next_wire W) + 1"
    and next_: "next_revisions W = Inr revisions"
    and new: "commit_graph R W revisions (gw_next_node W) f (gd_nodes (gw_graph W))
      (gd_wires (gw_graph W) @ [\<lparr>wd_id = i, wd_source = s, wd_target = t\<rparr>]) (gw_placements W) = Inl err" for i f revisions
  proof -
    have "candidate_refused R W (requested_nodes W ?e) (requested_wires W ?e) (gw_placements W) err"
      unfolding requested_nodes.simps requested_wires.simps word_of_cursor[OF i(1)]
    proof (rule commit_graph_Inl[OF wf _ _ _ _ _ next_ new])
      show "cursor_ok f (wd_id ` set (gd_wires (gw_graph W) @ [\<lparr>wd_id = i, wd_source = s, wd_target = t\<rparr>]))"
        using cursor_ok_next[OF workspace_cursors(2)[OF wf] i] by (simp add: wire_ids_def)
    qed (use workspace_cursors[OF wf] workspace_placements_ok[OF wf] workspace_sorted_all(3)[OF wf] workspace_tables(4)[OF wf] in
        \<open>auto simp: node_ids_def\<close>)
    then show ?thesis by (rule candidate_genuine[OF _ _ wf]) simp_all
  qed
  have revisions: "rejection_genuine R W ?e err" if "next_revisions W = Inl err"
    by (rule next_revisions_Inl[OF that]) simp
  have exhausted: "rejection_genuine R W ?e err" if "allocate_identity (gw_next_wire W) ''wire'' = Inl err"
    using allocate_identity_Inl[OF workspace_cursors(2)[OF wf] that] by (simp add: rejection_genuine_def)
  from rejected show ?thesis
    using candidate revisions exhausted by (auto simp: connect_def allocate_identity_Inr)
qed

lemma disconnect_Inl:
  assumes wf: "workspace_wf R W" and rejected: "disconnect R W i = Inl err"
  shows "rejection_genuine R W (Disconnect i) err"
proof (cases "i \<in> wire_ids W \<and> revisions_left W")
  case True
  with disconnect_succeeds[OF wf] rejected show ?thesis by fastforce
next
  case False
  then show ?thesis
    using rejected next_revisions_Inl[of W err "Disconnect i" R] next_revisions_left[of W]
    by (auto simp: disconnect_def list_ex_iff wire_ids_def rejection_genuine_def split: if_splits)
qed

lemma set_parameter_Inl:
  assumes wf: "workspace_wf R W" and rejected: "set_parameter R W i p v = Inl err"
  shows "rejection_genuine R W (SetParameter i p v) err"
proof (cases "document_node (gw_graph W) i")
  case None
  with rejected show ?thesis by (auto simp: set_parameter_def rejection_genuine_def workspace_node_None[OF wf])
next
  case (Some n)
  then have n: "n \<in> set (gd_nodes (gw_graph W))" "nd_id n = i" by (simp_all add: workspace_node_Some[OF wf])
  then have ids: "distinct (map np_id (nd_parameters n))"
    using workspace_node_ok[OF wf n(1)] by (simp add: node_ok_def canonical_table_def)
  show ?thesis
  proof (cases "List.find (\<lambda>q. np_id q = p) (nd_parameters n)")
    case None
    then have "p \<notin> np_id ` set (nd_parameters n)" by (auto simp: find_None_iff)
    moreover have "err = WS_UnknownParameter i p" using rejected by (simp add: set_parameter_def Some None)
    ultimately show ?thesis using n by (auto simp: rejection_genuine_def)
  next
    case q: (Some q)
    then have member: "q \<in> set (nd_parameters n)" "np_id q = p" by (simp_all add: find_key_Some[OF ids])
    show ?thesis
    proof (cases "tv_value_type (np_value q) = tv_value_type v")
      case False
      then have "err = WS_ParameterTypeMismatch (tv_value_type (np_value q)) (tv_value_type v)"
        using rejected by (simp add: set_parameter_def Some q)
      then show ?thesis using False n member by (auto simp: rejection_genuine_def)
    next
      case True
      let ?f = "\<lambda>n. n\<lparr>nd_parameters := map (\<lambda>q. if np_id q = p then q\<lparr>np_value := v\<rparr> else q) (nd_parameters n)\<rparr>"
      have "replace_node R W (?f n) = Inl err"
        using rejected True by (simp add: set_parameter_def Some q replace_parameter[OF ids q] split: if_split_asm)
      then show ?thesis by (intro update_node_Inl[OF wf Some, where f = ?f]) simp_all
    qed
  qed
qed

lemma set_node_label_Inl:
  assumes wf: "workspace_wf R W" and rejected: "set_node_label R W i l = Inl err"
  shows "rejection_genuine R W (SetNodeLabel i l) err"
proof (cases "document_node (gw_graph W) i")
  case None
  with rejected show ?thesis by (auto simp: set_node_label_def rejection_genuine_def workspace_node_None[OF wf])
next
  case (Some n)
  with rejected have "replace_node R W (n\<lparr>nd_label := l\<rparr>) = Inl err" by (simp add: set_node_label_def split: if_split_asm)
  then show ?thesis by (intro update_node_Inl[OF wf Some, where f = "\<lambda>n. n\<lparr>nd_label := l\<rparr>"]) simp_all
qed

lemma set_node_domain_Inl:
  assumes wf: "workspace_wf R W" and rejected: "set_node_domain R W i d = Inl err"
  shows "rejection_genuine R W (SetNodeDomain i d) err"
proof (cases "document_node (gw_graph W) i")
  case None
  with rejected show ?thesis by (auto simp: set_node_domain_def rejection_genuine_def workspace_node_None[OF wf])
next
  case (Some n)
  with rejected have "replace_node R W (n\<lparr>nd_domain := d\<rparr>) = Inl err" by (simp add: set_node_domain_def split: if_split_asm)
  then show ?thesis by (intro update_node_Inl[OF wf Some, where f = "\<lambda>n. n\<lparr>nd_domain := d\<rparr>"]) simp_all
qed

lemma apply_edit_Inl:
  assumes wf: "workspace_wf R W" and rejected: "apply_edit R W e = Inl err"
  shows "rejection_genuine R W e err"
  using rejected
  by (cases e)
    (auto simp: with_result_def intro: move_node_Inl[OF wf] create_node_Inl[OF wf] delete_node_Inl[OF wf]
      set_node_label_Inl[OF wf] set_node_domain_Inl[OF wf] set_parameter_Inl[OF wf] connect_Inl[OF wf] disconnect_Inl[OF wf])

section \<open>When a wire is accepted\<close>

definition connected_graph :: "'q graph_workspace \<Rightarrow> wire_definition \<Rightarrow> 'q graph_document" where
  "connected_graph W w = (gw_graph W)\<lparr>gd_revision := gd_revision (gw_graph W) + 1,
     gd_wires := gd_wires (gw_graph W) @ [w]\<rparr>"

lemma document_wf_add_wire:
  assumes wf: "document_wf R D" and fresh: "\<forall>v \<in> set (gd_wires D). wd_id v < wd_id w"
  shows "document_wf R (D\<lparr>gd_revision := r, gd_wires := gd_wires D @ [w]\<rparr>) \<longleftrightarrow>
    length (gd_wires D) < maximum_wires (gs_limits (gd_schema D)) \<and> wire_resolves D w
    \<and> wd_target w \<notin> wd_target ` set (gd_wires D)"
proof -
  let ?D = "D\<lparr>gd_revision := r, gd_wires := gd_wires D @ [w]\<rparr>"
  have kind: "clock_kind_ok ?D k = clock_kind_ok D k" for k by (cases k) (simp_all add: clock_resolves_def)
  have same: "clocks_wf ?D" "nodes_wf R ?D"
    using wf by (simp_all add: document_wf_def clocks_wf_def clock_ok_def kind clock_references_def
        clock_resolves_def nodes_wf_def)
  have ok: "wire_ok ?D v \<longleftrightarrow> wire_resolves D v" for v
    using wire_resolves_iff[of D R "gd_schema D" v] wf by (simp add: document_wf_def nodes_wf_def wire_ok_def)
  have wires: "\<forall>v \<in> set (gd_wires D). wire_resolves D v" "canonical_table wd_id (gd_wires D)"
      "distinct (map wd_target (gd_wires D))"
    using wf document_wf_wire_resolves[OF wf] by (simp_all add: document_wf_def wires_wf_def)
  have table: "canonical_table wd_id (gd_wires D @ [w])"
    using wires(2) fresh by (force simp: canonical_table_def sorted_append)
  show ?thesis
    using same wires table by (auto simp: document_wf_def wires_wf_def ok Suc_le_eq)
qed

lemma connect_succeeds_iff:
  assumes wf: "workspace_wf R W" and i: "unat i = unat (gw_next_wire W)"
  shows "(\<exists>W'. connect R W s t = Inr (W', i)) \<longleftrightarrow>
    revisions_left W \<and> document_wf R (connected_graph W \<lparr>wd_id = i, wd_source = s, wd_target = t\<rparr>)
    \<and> (\<exists>e. encode_graph_document R (connected_graph W \<lparr>wd_id = i, wd_source = s, wd_target = t\<rparr>) = Inr e)"
    (is "_ \<longleftrightarrow> _ \<and> document_wf R ?D \<and> _")
proof
  assume "\<exists>W'. connect R W s t = Inr (W', i)"
  then obtain W' f where "graph_edited R W W' (gw_next_node W) f (gd_nodes (gw_graph W))
      (gd_wires (gw_graph W) @ [\<lparr>wd_id = i, wd_source = s, wd_target = t\<rparr>]) (gw_placements W)"
    by (auto simp: connect_Inr[OF wf])
  then have edited: "workspace_wf R W'" "unat (gw_revision W') = unat (gw_revision W) + 1"
      "unat (gd_revision (gw_graph W')) = unat (gd_revision (gw_graph W)) + 1"
      "gd_schema (gw_graph W') = gd_schema (gw_graph W)" "gd_clocks (gw_graph W') = gd_clocks (gw_graph W)"
      "gd_nodes (gw_graph W') = gd_nodes (gw_graph W)"
      "gd_wires (gw_graph W') = gd_wires (gw_graph W) @ [\<lparr>wd_id = i, wd_source = s, wd_target = t\<rparr>]"
    by (simp_all add: graph_edited_def)
  have left: "revisions_left W"
    using edited(2,3) unat_u64_le[of "gw_revision W'"] unat_u64_le[of "gd_revision (gw_graph W')"]
    by (simp add: revisions_left_def)
  then have "gd_revision (gw_graph W') = gd_revision (gw_graph W) + 1"
    using edited(3) by (simp add: word_unat_eq_iff next_u64 revisions_left_def)
  then have "gw_graph W' = ?D" using edited(4-7) by (simp add: connected_graph_def)
  with edited(1) left show "revisions_left W \<and> document_wf R ?D \<and> (\<exists>e. encode_graph_document R ?D = Inr e)"
    by (auto simp: workspace_wf_def)
next
  assume ok: "revisions_left W \<and> document_wf R ?D \<and> (\<exists>e. encode_graph_document R ?D = Inr e)"
  then obtain e where e: "encode_graph_document R ?D = Inr e" by blast
  have "unat i < 2 ^ 32" using unsigned_less[of i] by simp
  then have f: "unat (gw_next_wire W + 1) = unat (gw_next_wire W) + 1" using i by (intro next_u64) (simp add: u64_max_def)
  let ?W = "W\<lparr>gw_revision := gw_revision W + 1, gw_next_wire := gw_next_wire W + 1, gw_graph := ?D, gw_digest := ce_digest e\<rparr>"
  have "cursor_ok (gw_next_wire W + 1) (wire_ids ?W)"
    using cursor_ok_next[OF workspace_cursors(2)[OF wf] i f] by (simp add: wire_ids_def connected_graph_def)
  then have "workspace_wf R ?W"
    using wf ok e by (simp add: workspace_wf_def node_ids_def connected_graph_def)
  then have "graph_edited R W ?W (gw_next_node W) (gw_next_wire W + 1) (gd_nodes (gw_graph W))
      (gd_wires (gw_graph W) @ [\<lparr>wd_id = i, wd_source = s, wd_target = t\<rparr>]) (gw_placements W)"
    using ok by (simp add: graph_edited_def next_u64 revisions_left_def connected_graph_def)
  then show "\<exists>W'. connect R W s t = Inr (W', i)" using i f by (auto simp: connect_Inr[OF wf])
qed

section \<open>A concrete workspace\<close>

definition example_graph :: "u64 \<Rightarrow> u32 \<Rightarrow> 'q graph_document" where
  "example_graph r i = example_document\<lparr>gd_revision := r,
     gd_wires := [\<lparr>wd_id = i, wd_source = WireEndpoint 1 1, wd_target = WireEndpoint 2 1\<rparr>]\<rparr>"

definition example_encoding :: "'q external_api \<Rightarrow> u64 \<Rightarrow> u32 \<Rightarrow> canonical_encoding" where
  "example_encoding R r i = projr (encode_graph_document R (example_graph r i))"

definition example_workspace :: "'q external_api \<Rightarrow> 'q graph_workspace" where
  "example_workspace R = \<lparr>gw_limits = interactive_workspace_limits, gw_revision = 3, gw_next_node = 3, gw_next_wire = 2,
     gw_graph = example_graph 7 1, gw_digest = ce_digest (example_encoding R 7 1),
     gw_placements = [\<lparr>pl_node = 1, pl_x = 10, pl_y = - 10\<rparr>, \<lparr>pl_node = 2, pl_x = 20, pl_y = - 20\<rparr>]\<rparr>"

lemma example_graph_parts:
  "gd_schema (example_graph r i) = pair_schema" "gd_revision (example_graph r i) = r"
  "gd_clocks (example_graph r i) = example_clocks" "gd_nodes (example_graph r i) = example_nodes"
  "gd_wires (example_graph r i) = [\<lparr>wd_id = i, wd_source = WireEndpoint 1 1, wd_target = WireEndpoint 2 1\<rparr>]"
  by (simp_all add: example_graph_def example_document_def)

lemmas evaluate_encoding = write_counted_def put_count_def u32_max_def put_u8_def put_u16_def put_u32_def put_u64_def
  put_text_def Let_def str_def

lemma example_parts_encoded:
  "\<exists>b. encode_limits (gs_limits pair_schema) = Inr b \<and> length b = 136"
  "\<exists>b. encode_schema R pair_schema = Inr b \<and> length b \<le> 64"
  "\<exists>b. write_counted ''clock count'' encode_clock example_clocks = Inr b \<and> length b \<le> 64"
  "\<exists>b. write_counted ''wire count'' encode_wire [w] = Inr b \<and> length b \<le> 64"
  by (simp_all add: encode_limits_def put_limit_def evaluate_limits u64_max_def pair_schema_def encode_schema_def
      encode_type_def example_type_def example_clocks_def encode_clock_def encode_wire_def encode_endpoint_def evaluate_encoding)

lemma example_nodes_encoded:
  "\<exists>b. write_counted ''node count'' (encode_node R pair_schema) example_nodes = Inr b \<and> length b \<le> 256"
proof -
  have "encode_typed_value R pair_schema (pair_value True False) = Inr [2, 0, 0, 0, 2, 0, 0, 0, 1, 0]"
    using pair_value_encoded[of R] by (simp add: encode_typed_value_bytes_def)
  then show ?thesis
    by (simp add: example_nodes_def encode_node_def encode_ports_def encode_port_def encode_parameter_def evaluate_encoding)
qed

lemma example_graph_encoded:
  fixes R :: "'q external_api"
  shows "encode_graph_document R (example_graph r i) = Inr (example_encoding R r i)"
proof -
  obtain l s c w n where parts: "encode_limits (gs_limits (pair_schema :: 'q graph_schema)) = Inr l" "length l = 136"
    "encode_schema R pair_schema = Inr s" "length s \<le> 64"
    "write_counted ''clock count'' encode_clock example_clocks = Inr c" "length c \<le> 64"
    "write_counted ''wire count'' encode_wire [\<lparr>wd_id = i, wd_source = WireEndpoint 1 1, wd_target = WireEndpoint 2 1\<rparr>] = Inr w"
    "length w \<le> 64"
    "write_counted ''node count'' (encode_node R pair_schema) example_nodes = Inr n" "length n \<le> 256"
    using example_parts_encoded example_nodes_encoded by metis
  have "maximum_document_bytes (gs_limits (pair_schema :: 'q graph_schema)) = 16 * 1024 * 1024"
    by (simp add: pair_schema_def interactive_limits_def)
  with parts show ?thesis
    by (simp add: example_encoding_def encode_graph_document_def example_graph_parts Let_def put_u16_def put_u64_def
        document_magic_def del: and_then_Inr and_then_Inl)
qed

lemma example_graph_wf: "i \<noteq> 0 \<Longrightarrow> document_wf R (example_graph r i :: 'q graph_document)"
proof -
  assume i: "i \<noteq> 0"
  let ?D = "example_graph r i :: 'q graph_document"
  have kind: "clock_kind_ok ?D k = clock_kind_ok (example_document :: 'q graph_document) k" for k
    by (cases k) (simp_all add: clock_resolves_def example_graph_def)
  have "clocks_wf ?D" "nodes_wf R ?D"
    using example_clocks_wf example_nodes_wf[of R]
    by (simp_all add: clocks_wf_def clock_ok_def kind nodes_wf_def)
      (simp_all add: example_graph_def clock_references_def clock_resolves_def)
  moreover have "wires_wf ?D"
    using i by (simp add: wires_wf_def wire_ok_def example_graph_def evaluate_document canonical_table_def
        pair_schema_limits interactive_limits_def)
  ultimately show ?thesis by (simp add: document_wf_def)
qed

lemma example_workspace_wf: "workspace_wf R (example_workspace R)"
proof -
  have ids: "nd_id ` set example_nodes = {1, 2}" by (simp add: example_nodes_def)
  show ?thesis
    using example_graph_wf[of 1 R 7] example_graph_encoded[of R 7 1]
    by (simp add: workspace_wf_def example_workspace_def node_ids_def wire_ids_def example_graph_parts ids
        limits_ok_def interactive_workspace_limits_def canonical_table_def placement_ok_def coordinate_ok_def
        cursor_ok_def)
qed

text \<open>The wire is removed and connected again: it comes back under a new identity.\<close>

lemma example_reconnected:
  obtains W1 W2 :: "'q graph_workspace" where "disconnect R (example_workspace R) 1 = Inr (W1, ())"
    "workspace_wf R W1" "gd_wires (gw_graph W1) = []" "revisions_left W1"
    "connect R W1 (WireEndpoint 1 1) (WireEndpoint 2 1) = Inr (W2, 2)"
    "workspace_wf R W2" "revisions_left W2"
proof -
  let ?W = "example_workspace R"
  have left: "revisions_left ?W" and "1 \<in> wire_ids ?W"
    by (simp_all add: revisions_left_def example_workspace_def example_graph_parts u64_max_def wire_ids_def)
  then obtain W1 where W1: "disconnect R ?W 1 = Inr (W1, ())" using disconnect_succeeds[OF example_workspace_wf] by blast
  from W1[unfolded disconnect_Inr[OF example_workspace_wf]]
  have "graph_edited R ?W W1 3 2 example_nodes [] (gw_placements ?W)"
    by (simp add: example_workspace_def example_graph_parts)
  then have e1: "workspace_wf R W1" "gw_next_wire W1 = 2" "unat (gd_revision (gw_graph W1)) = 8" "unat (gw_revision W1) = 4"
    "gd_schema (gw_graph W1) = pair_schema" "gd_clocks (gw_graph W1) = example_clocks"
    "gd_nodes (gw_graph W1) = example_nodes" "gd_wires (gw_graph W1) = []"
    by (simp_all add: graph_edited_def example_workspace_def example_graph_parts)
  have left1: "revisions_left W1" using e1 by (simp add: revisions_left_def u64_max_def)
  have "gd_revision (gw_graph W1) = 8" using e1(3) by (simp add: word_unat_eq_iff)
  then have graph: "connected_graph W1 \<lparr>wd_id = 2, wd_source = WireEndpoint 1 1, wd_target = WireEndpoint 2 1\<rparr> = example_graph 9 2"
    using e1 by (cases "gw_graph W1") (simp add: connected_graph_def example_graph_def example_document_def)
  have "\<exists>W2. connect R W1 (WireEndpoint 1 1) (WireEndpoint 2 1) = Inr (W2, 2)"
    unfolding connect_succeeds_iff[of R W1 2, OF e1(1), simplified e1, simplified] graph
    using left1 example_graph_wf[of 2 R 9] example_graph_encoded[of R 9 2] by simp
  then obtain W2 where W2: "connect R W1 (WireEndpoint 1 1) (WireEndpoint 2 1) = Inr (W2, 2)" by blast
  from W2[unfolded connect_Inr[OF e1(1)]] have "workspace_wf R W2" "revisions_left W2"
    using e1(3,4) by (auto simp: graph_edited_def revisions_left_def u64_max_def)
  with W1 e1(1,8) left1 W2 show ?thesis by (rule that)
qed

section \<open>Properties of the workspace\<close>

text \<open>
  \<^verbatim>\<open>GraphWorkspaceDocument::try_new\<close> accepts a graph, cursors and placements
  exactly when they form a well-formed workspace: the policy is not zero, every node has exactly one placement and
  nothing else has one, all coordinates are within the policy (\<^verbatim>\<open>i32::MIN\<close> included), both cursors lie beyond
  every identity in use and at most at the exhausted value, and the graph fits its byte budget. It then
  returns the arguments with the placements sorted.
\<close>

theorem workspace_try_new_decides:
  assumes "document_wf R D"
  shows "try_new_workspace R l r nn nw D pls = Inr W \<longleftrightarrow>
    workspace_wf R W \<and> gw_limits W = l \<and> gw_revision W = r \<and> gw_next_node W = nn \<and> gw_next_wire W = nw
    \<and> gw_graph W = D \<and> gw_placements W = sort_key pl_node pls"
  by (rule try_new_workspace_Inr[OF assms])

theorem workspace_try_new_decides_witness:
  "try_new_workspace rat_api interactive_workspace_limits 3 3 2 (example_graph 7 1)
     [\<lparr>pl_node = 2, pl_x = 20, pl_y = - 20\<rparr>, \<lparr>pl_node = 1, pl_x = 10, pl_y = - 10\<rparr>] = Inr (example_workspace rat_api)"
  unfolding workspace_try_new_decides[OF example_graph_wf[of 1, simplified]]
  using example_workspace_wf[of rat_api] by (simp add: example_workspace_def word_le_nat_alt)

text \<open>
  C5. Every accepted edit is a transaction on the user's view: from a well-formed workspace it
  leads to a well-formed one whose nodes, wires and positions, as finite maps by identity, are exactly
  the old ones with the abstract edit applied: one entry moved, created, removed with its incident
  wires, or updated in one field, and nothing else touched.
\<close>

theorem workspace_edit_refines:
  assumes "workspace_wf R W" and "apply_edit R W e = Inr (W', r)"
  shows "workspace_wf R W' \<and> canvas_of W' = canvas_edit e r (canvas_of W)"
  using apply_edit_sound[OF assms] by (simp add: edit_sound_def)

theorem workspace_edit_refines_witness:
  "\<exists>W'. apply_edit rat_api (example_workspace rat_api) (Disconnect 1) = Inr (W', Done)
     \<and> cv_wires (canvas_of W') 1 = None"
proof -
  obtain W1 W2 :: "rat graph_workspace" where W1: "disconnect rat_api (example_workspace rat_api) 1 = Inr (W1, ())"
    by (rule example_reconnected[where R = rat_api])
  then have "apply_edit rat_api (example_workspace rat_api) (Disconnect 1) = Inr (W1, Done)" by simp
  with workspace_edit_refines[OF example_workspace_wf this] show ?thesis by auto
qed

text \<open>
  C18. Along any session of edits, accepted or rejected, the workspace stays well formed and an identity
  is handed out at most once: all created node identities are distinct and none of them was in use at the
  start, even when nodes have been deleted in between, and the same holds of wires.
\<close>

theorem identities_never_reused:
  assumes "edit_run R W done_edits W'" and "workspace_wf R W"
  shows "workspace_wf R W'
    \<and> distinct (created_nodes done_edits) \<and> set (created_nodes done_edits) \<inter> node_ids W = {}
    \<and> node_ids W' \<subseteq> node_ids W \<union> set (created_nodes done_edits)
    \<and> distinct (created_wires done_edits) \<and> set (created_wires done_edits) \<inter> wire_ids W = {}
    \<and> wire_ids W' \<subseteq> wire_ids W \<union> set (created_wires done_edits)"
proof -
  have fresh: "set created \<inter> ids = {}" if "cursor_history created c c' ids ids'" "cursor_ok c ids" for created c c' ids ids'
    using that by (fastforce simp: cursor_history_def cursor_ok_def)
  from edit_run_histories[OF assms] have history:
    "cursor_history (created_nodes done_edits) (gw_next_node W) (gw_next_node W') (node_ids W) (node_ids W')"
    "cursor_history (created_wires done_edits) (gw_next_wire W) (gw_next_wire W') (wire_ids W) (wire_ids W')"
    by blast+
  show ?thesis
    using edit_run_histories[OF assms] fresh[OF history(1) workspace_cursors(1)[OF assms(2)]]
      fresh[OF history(2) workspace_cursors(2)[OF assms(2)]]
    by (simp add: cursor_history_def)
qed

theorem identities_never_reused_witness:
  "\<exists>W2. edit_run rat_api (example_workspace rat_api)
      [(Disconnect 1, Inr Done), (Connect (WireEndpoint 1 1) (WireEndpoint 2 1), Inr (CreatedWire 2))] W2
    \<and> wire_ids W2 \<subseteq> {1, 2}"
proof -
  obtain W1 W2 :: "rat graph_workspace" where W: "disconnect rat_api (example_workspace rat_api) 1 = Inr (W1, ())"
    "connect rat_api W1 (WireEndpoint 1 1) (WireEndpoint 2 1) = Inr (W2, 2)"
    by (rule example_reconnected[where R = rat_api])
  have "edit_run rat_api (example_workspace rat_api) ([] @ [(Disconnect 1, Inr Done)]) W1"
    by (rule edit_run.accepted[OF edit_run.started]) (use W(1) in simp)
  then have "edit_run rat_api (example_workspace rat_api) [(Disconnect 1, Inr Done)] W1" by simp
  then have run: "edit_run rat_api (example_workspace rat_api)
      ([(Disconnect 1, Inr Done)] @ [(Connect (WireEndpoint 1 1) (WireEndpoint 2 1), Inr (CreatedWire 2))]) W2"
    by (rule edit_run.accepted) (use W(2) in simp_all)
  have "wire_ids (example_workspace rat_api) = {1}" by (simp add: wire_ids_def example_workspace_def example_graph_parts)
  then show ?thesis using identities_never_reused[OF run example_workspace_wf] run
    by (auto simp: created_wires_def)
qed

text \<open>
  Removing what exists is never refused: in a well-formed workspace whose two 64-bit
  revisions can still advance, deleting any present node and disconnecting any present wire succeeds; a deletion reports
  how many incident wires went with the node.
\<close>

theorem removals_always_succeed:
  assumes "workspace_wf R W" and "revisions_left W"
  shows "(i \<in> node_ids W \<longrightarrow> (\<exists>W'. delete_node R W i = Inr (W', length (filter (incident i) (gd_wires (gw_graph W))))))
    \<and> (j \<in> wire_ids W \<longrightarrow> (\<exists>W'. disconnect R W j = Inr (W', ())))"
  using delete_node_succeeds[OF assms, of i] disconnect_succeeds[OF assms, of j]
  by (auto simp: delete_node_Inr[OF assms(1)])

theorem removals_always_succeed_witness:
  "\<exists>W'. delete_node rat_api (example_workspace rat_api) 2 = Inr (W', 1)"
proof -
  have "revisions_left (example_workspace rat_api)" "2 \<in> node_ids (example_workspace rat_api)"
    "length (filter (incident 2) (gd_wires (gw_graph (example_workspace rat_api)))) = 1"
    by (simp_all add: revisions_left_def example_workspace_def example_graph_parts u64_max_def node_ids_def
        example_nodes_def incident_def)
  then show ?thesis using removals_always_succeed[OF example_workspace_wf, of rat_api 2] by auto
qed

text \<open>
  A wire request is granted exactly when an identity and both revisions are left, the wire count
  allows one more, both endpoints exist with equal types, the target is free, and the
  document with the new wire fits its byte budget; no other condition applies.
\<close>

theorem connect_decides:
  assumes "workspace_wf R W"
  shows "(\<exists>W' i. connect R W s t = Inr (W', i)) \<longleftrightarrow>
    unat (gw_next_wire W) < 2 ^ 32 \<and> revisions_left W
    \<and> length (gd_wires (gw_graph W)) < maximum_wires (gs_limits (gd_schema (gw_graph W)))
    \<and> (\<exists>sn tn src tgt. document_node (gw_graph W) (we_node s) = Some sn
        \<and> document_node (gw_graph W) (we_node t) = Some tn
        \<and> find_port (nd_outputs sn) (we_port s) = Some src \<and> find_port (nd_inputs tn) (we_port t) = Some tgt
        \<and> pd_value_type src = pd_value_type tgt)
    \<and> t \<notin> wd_target ` set (gd_wires (gw_graph W))
    \<and> (\<exists>e. encode_graph_document R (connected_graph W
        \<lparr>wd_id = ucast (gw_next_wire W), wd_source = s, wd_target = t\<rparr>) = Inr e)"
proof (cases "unat (gw_next_wire W) < 2 ^ 32")
  case False
  then have "unat i \<noteq> unat (gw_next_wire W)" for i :: u32 using unsigned_less[where 'a = nat, of i] by auto
  then show ?thesis using False by (simp add: connect_Inr[OF assms])
next
  case True
  let ?i = "ucast (gw_next_wire W) :: u32" and ?w = "\<lparr>wd_id = ucast (gw_next_wire W), wd_source = s, wd_target = t\<rparr>"
  have i: "unat ?i = unat (gw_next_wire W)" using True by (simp add: unsigned_ucast_eq take_bit_nat_eq_self)
  then have only: "connect R W s t = Inr (W', j) \<Longrightarrow> j = ?i" for W' j
    by (auto simp: connect_Inr[OF assms] word_unat_eq_iff)
  have "?i \<noteq> 0" using workspace_cursors(2)[OF assms] i by (auto simp: cursor_ok_def)
  then have resolves: "wire_resolves (gw_graph W) ?w \<longleftrightarrow>
      (\<exists>sn tn src tgt. document_node (gw_graph W) (we_node s) = Some sn
        \<and> document_node (gw_graph W) (we_node t) = Some tn
        \<and> find_port (nd_outputs sn) (we_port s) = Some src \<and> find_port (nd_inputs tn) (we_port t) = Some tgt
        \<and> pd_value_type src = pd_value_type tgt)"
    by (simp add: wire_resolves_def)
  have "\<forall>v \<in> set (gd_wires (gw_graph W)). wd_id v < wd_id ?w"
    using cursor_fresh[OF workspace_cursors(2)[OF assms] i] by (simp add: wire_ids_def)
  from document_wf_add_wire[OF workspace_wf_document[OF assms] this, of "gd_revision (gw_graph W) + 1"]
  have doc: "document_wf R (connected_graph W ?w) \<longleftrightarrow>
    length (gd_wires (gw_graph W)) < maximum_wires (gs_limits (gd_schema (gw_graph W)))
    \<and> wire_resolves (gw_graph W) ?w \<and> t \<notin> wd_target ` set (gd_wires (gw_graph W))"
    by (simp add: connected_graph_def)
  have "(\<exists>W' i. connect R W s t = Inr (W', i)) \<longleftrightarrow> (\<exists>W'. connect R W s t = Inr (W', ?i))"
    using only by blast
  then show ?thesis unfolding connect_succeeds_iff[OF assms i] doc resolves using True by simp
qed

theorem connect_decides_witness:
  "\<exists>W1. disconnect rat_api (example_workspace rat_api) 1 = Inr (W1, ())
     \<and> (\<exists>e. encode_graph_document rat_api (connected_graph W1
        \<lparr>wd_id = ucast (gw_next_wire W1), wd_source = WireEndpoint 1 1, wd_target = WireEndpoint 2 1\<rparr>) = Inr e)"
proof -
  obtain W1 W2 :: "rat graph_workspace" where W: "disconnect rat_api (example_workspace rat_api) 1 = Inr (W1, ())"
    "workspace_wf rat_api W1" "connect rat_api W1 (WireEndpoint 1 1) (WireEndpoint 2 1) = Inr (W2, 2)"
    by (rule example_reconnected[where R = rat_api])
  from connect_decides[OF W(2), of "WireEndpoint 1 1" "WireEndpoint 2 1"] W(1,3) show ?thesis by auto
qed

text \<open>
  Connecting and then disconnecting the new wire gives back the same graph, up to its revision,
  and the same canvas; only the wire cursor has moved on.
\<close>

theorem connect_then_disconnect:
  assumes "workspace_wf R W" and "connect R W s t = Inr (W1, i)" and "revisions_left W1"
  shows "\<exists>W2. disconnect R W1 i = Inr (W2, ())
    \<and> gw_graph W2 = (gw_graph W)\<lparr>gd_revision := gd_revision (gw_graph W) + 2\<rparr>
    \<and> gw_placements W2 = gw_placements W \<and> gw_next_node W2 = gw_next_node W
    \<and> unat (gw_next_wire W2) = unat (gw_next_wire W) + 1"
proof -
  from assms(2)[unfolded connect_Inr[OF assms(1)]] obtain f where i: "unat i = unat (gw_next_wire W)"
    and f: "unat f = unat (gw_next_wire W) + 1"
    and e1: "graph_edited R W W1 (gw_next_node W) f (gd_nodes (gw_graph W))
      (gd_wires (gw_graph W) @ [\<lparr>wd_id = i, wd_source = s, wd_target = t\<rparr>]) (gw_placements W)" by blast
  note wf1 = graph_edited_wf[OF e1]
  have "i \<in> wire_ids W1" using e1 by (simp add: graph_edited_def wire_ids_def)
  from disconnect_succeeds[OF wf1 assms(3) this] obtain W2 where W2: "disconnect R W1 i = Inr (W2, ())" by blast
  have "filter (\<lambda>w. wd_id w \<noteq> i) (gd_wires (gw_graph W)) = gd_wires (gw_graph W)"
    using cursor_fresh[OF workspace_cursors(2)[OF assms(1)] i] by (intro filter_True) (auto simp: wire_ids_def)
  with W2[unfolded disconnect_Inr[OF wf1]] e1
  have e2: "graph_edited R W1 W2 (gw_next_node W) f (gd_nodes (gw_graph W)) (gd_wires (gw_graph W)) (gw_placements W)"
    by (simp add: graph_edited_def)
  have "unat (gd_revision (gw_graph W2)) = unat (gd_revision (gw_graph W)) + 2"
    using e1 e2 by (simp add: graph_edited_def)
  then have "gd_revision (gw_graph W2) = gd_revision (gw_graph W) + 2"
    by (metis of_nat_add of_nat_numeral of_nat_unat ucast_id)
  then have "gw_graph W2 = (gw_graph W)\<lparr>gd_revision := gd_revision (gw_graph W) + 2\<rparr>"
    using e1 e2 by (cases "gw_graph W2") (simp add: graph_edited_def)
  then show ?thesis using W2 e2 f by (auto simp: graph_edited_def)
qed

theorem connect_then_disconnect_witness:
  "\<exists>W1 W2 W3. disconnect rat_api (example_workspace rat_api) 1 = Inr (W1, ())
     \<and> connect rat_api W1 (WireEndpoint 1 1) (WireEndpoint 2 1) = Inr (W2, 2)
     \<and> disconnect rat_api W2 2 = Inr (W3, ()) \<and> gd_wires (gw_graph W3) = []"
proof -
  obtain W1 W2 :: "rat graph_workspace" where W: "disconnect rat_api (example_workspace rat_api) 1 = Inr (W1, ())"
    "workspace_wf rat_api W1" "gd_wires (gw_graph W1) = []"
    "connect rat_api W1 (WireEndpoint 1 1) (WireEndpoint 2 1) = Inr (W2, 2)" "revisions_left W2"
    by (rule example_reconnected[where R = rat_api])
  from connect_then_disconnect[OF W(2,4,5)] obtain W3 where "disconnect rat_api W2 2 = Inr (W3, ())"
    "gw_graph W3 = (gw_graph W1)\<lparr>gd_revision := gd_revision (gw_graph W1) + 2\<rparr>" by blast
  then have "disconnect rat_api W2 2 = Inr (W3, ()) \<and> gd_wires (gw_graph W3) = []" using W(3) by simp
  with W(1,4) show ?thesis by blast
qed

text \<open>
  C36. A rejected edit tells the truth about the request and the well-formed workspace it was made to. An
  unknown node, wire or parameter is the one the edit names and is absent from it; a type mismatch names the
  differing types of the stored parameter and of the new value; an exhausted cursor is the one the edit
  allocates from and stands past the last identity; the overflowing revision is at its maximum; a coordinate
  limit means that the position asked for lies outside the limits and a placement limit that a creation met
  the full table. A document error means that the graph the edit asks for, written out as
  \<^verbatim>\<open>requested_graph\<close>, is not well formed and that it is the verdict of the document constructor on exactly that
  graph; a wire error that this graph is well formed and has no encoding. The errors that would mean a damaged
  workspace (placements, cursors, policy) and those of the byte format never occur.
\<close>

theorem rejections_genuine:
  assumes "workspace_wf R W" and "apply_edit R W e = Inl err"
  shows "case err of
     WS_UnknownNode i \<Rightarrow> edit_target e = Some i \<and> i \<notin> node_ids W
   | WS_UnknownWire i \<Rightarrow> e = Disconnect i \<and> i \<notin> wire_ids W
   | WS_UnknownParameter i p \<Rightarrow> (\<exists>v. e = SetParameter i p v)
       \<and> (\<exists>n \<in> set (gd_nodes (gw_graph W)). nd_id n = i \<and> p \<notin> np_id ` set (nd_parameters n))
   | WS_ParameterTypeMismatch expected received \<Rightarrow> expected \<noteq> received
       \<and> (\<exists>i p v. e = SetParameter i p v \<and> tv_value_type v = received
           \<and> (\<exists>n \<in> set (gd_nodes (gw_graph W)). nd_id n = i
               \<and> (\<exists>q \<in> set (nd_parameters n). np_id q = p \<and> tv_value_type (np_value q) = expected)))
   | WS_IdentifierExhausted kind \<Rightarrow>
       kind = ''node'' \<and> (\<exists>p x y. e = CreateNode p x y) \<and> unat (gw_next_node W) = 2 ^ 32
       \<or> kind = ''wire'' \<and> (\<exists>s t. e = Connect s t) \<and> unat (gw_next_wire W) = 2 ^ 32
   | WS_RevisionOverflow which \<Rightarrow>
       which = ''graph'' \<and> (\<forall>i x y. e \<noteq> MoveNode i x y) \<and> unat (gd_revision (gw_graph W)) = u64_max
       \<or> which = ''workspace'' \<and> unat (gw_revision W) = u64_max
   | WS_LimitExceeded name \<Rightarrow>
       name = ''canvas coordinate'' \<and> (\<exists>x y. edit_position e = Some (x, y)
         \<and> \<not> (coordinate_ok (gw_limits W) x \<and> coordinate_ok (gw_limits W) y))
       \<or> name = ''placement count'' \<and> (\<exists>p x y. e = CreateNode p x y)
         \<and> length (gw_placements W) = wl_placements (gw_limits W)
   | WS_GraphDocument d \<Rightarrow> \<not> document_wf R (requested_graph W e)
       \<and> try_new_document R (gd_revision (gw_graph W) + 1) (gd_schema (gw_graph W)) (gd_clocks (gw_graph W))
           (requested_nodes W e) (requested_wires W e) = Inl d
   | WS_GraphWire w \<Rightarrow> document_wf R (requested_graph W e) \<and> encode_graph_document R (requested_graph W e) = Inl w
   | _ \<Rightarrow> False"
  using apply_edit_Inl[OF assms] unfolding rejection_genuine_def .

theorem rejections_genuine_witness:
  "apply_edit rat_api (example_workspace rat_api) (Disconnect 9) = Inl (WS_UnknownWire 9)
     \<and> 9 \<notin> wire_ids (example_workspace rat_api)"
proof -
  have rejected: "apply_edit rat_api (example_workspace rat_api) (Disconnect 9) = Inl (WS_UnknownWire 9)"
    by (simp add: with_result_def disconnect_def example_workspace_def example_graph_parts)
  with rejections_genuine[OF example_workspace_wf rejected] show ?thesis by simp
qed

end
