(* ===== verification/Session_History.thy ===== *)
theory Session_History
  imports Graph_Prelude "HOL-Library.Sublist"
begin

text \<open>
  The bounded undo and redo history of
  \<^verbatim>\<open>crates/alumina-interface-core/src/graph/authoring_session_history.rs\<close>.
  A snapshot is the canonical byte string of a whole session. \<open>replay\<close> stands for
  \<^verbatim>\<open>replay_graph_authoring_session\<close>: the history calls it on the stored bytes and
  never looks inside, so everything below holds whatever it accepts. An operation returns the state it leaves behind
  also when it fails. A subtraction below zero, which panics in a checked build, is \<open>HE_Underflow\<close>.
\<close>

section \<open>State and policy\<close>

record history_limits =
  hl_snapshots :: nat
  hl_bytes :: nat

definition interactive_history :: history_limits where
  "interactive_history = \<lparr>hl_snapshots = 16, hl_bytes = 64 * 1024 * 1024\<rparr>"

datatype 'e history_error =
    HE_ZeroLimit
  | HE_SnapshotTooLarge
  | HE_ByteAccounting
  | HE_Session 'e
  | HE_Underflow

definition validate_history_limits :: "history_limits \<Rightarrow> 'e history_error + unit" where
  "validate_history_limits l = (if hl_snapshots l = 0 \<or> hl_bytes l = 0 then Inl HE_ZeroLimit else Inr ())"

type_synonym snapshot = bytes

text \<open>Both stacks grow at the end of the list; the oldest snapshot is its head.\<close>

record session_history =
  hs_limits :: history_limits
  hs_undo :: "snapshot list"
  hs_redo :: "snapshot list"
  hs_retained :: nat

definition try_new_history :: "history_limits \<Rightarrow> 'e history_error + session_history" where
  "try_new_history l = and_then (validate_history_limits l) (\<lambda>_.
     Inr \<lparr>hs_limits = l, hs_undo = [], hs_redo = [], hs_retained = 0\<rparr>)"

definition can_undo :: "session_history \<Rightarrow> bool" where
  "can_undo h \<longleftrightarrow> hs_undo h \<noteq> []"

definition can_redo :: "session_history \<Rightarrow> bool" where
  "can_redo h \<longleftrightarrow> hs_redo h \<noteq> []"

definition last_snapshot :: "snapshot list \<Rightarrow> snapshot option" where
  "last_snapshot stack = (if stack = [] then None else Some (last stack))"

section \<open>Eviction\<close>

text \<open>\<open>None\<close> is a subtraction below zero.\<close>

definition subtract_bytes :: "nat \<Rightarrow> nat \<Rightarrow> nat option" where
  "subtract_bytes a b = (if b \<le> a then Some (a - b) else None)"

fun evict_excess :: "nat \<Rightarrow> snapshot list \<Rightarrow> nat \<Rightarrow> (snapshot list \<times> nat) option" where
  "evict_excess most [] retained = Some ([], retained)"
| "evict_excess most (s # stack) retained =
     (if length (s # stack) > most
      then Option.bind (subtract_bytes retained (length s)) (evict_excess most stack)
      else Some (s # stack, retained))"

fun evict_bytes ::
  "nat \<Rightarrow> snapshot list \<Rightarrow> snapshot list \<Rightarrow> nat \<Rightarrow> (snapshot list \<times> snapshot list \<times> nat) option" where
  "evict_bytes most [] [] retained = Some ([], [], retained)"
| "evict_bytes most (u # undo) redo retained =
     (if retained > most
      then Option.bind (subtract_bytes retained (length u)) (evict_bytes most undo redo)
      else Some (u # undo, redo, retained))"
| "evict_bytes most [] (r # redo) retained =
     (if retained > most
      then Option.bind (subtract_bytes retained (length r)) (evict_bytes most [] redo)
      else Some ([], r # redo, retained))"

definition enforce_limits :: "session_history \<Rightarrow> session_history option" where
  "enforce_limits h =
     Option.bind (evict_excess (hl_snapshots (hs_limits h)) (hs_undo h) (hs_retained h)) (\<lambda>(undo, retained).
     Option.bind (evict_excess (hl_snapshots (hs_limits h)) (hs_redo h) retained) (\<lambda>(redo, retained).
     Option.bind (evict_bytes (hl_bytes (hs_limits h)) undo redo retained) (\<lambda>(undo, redo, retained).
     Some (h \<lparr>hs_undo := undo, hs_redo := redo, hs_retained := retained\<rparr>))))"

section \<open>Operations\<close>

definition snapshot_bytes :: "snapshot list \<Rightarrow> 'e history_error + nat" where
  "snapshot_bytes stack =
     try_fold (\<lambda>sum s. ok_or HE_ByteAccounting (checked_add_usize sum (length s))) 0 stack"

definition require_snapshot_size :: "session_history \<Rightarrow> snapshot \<Rightarrow> 'e history_error + unit" where
  "require_snapshot_size h s = (if length s > hl_bytes (hs_limits h) then Inl HE_SnapshotTooLarge else Inr ())"

text \<open>Subtracting what leaves and adding what enters, both checked.\<close>

definition exchange_bytes :: "nat \<Rightarrow> nat \<Rightarrow> nat \<Rightarrow> 'e history_error + nat" where
  "exchange_bytes retained leaving entering =
     and_then (ok_or HE_ByteAccounting (if leaving \<le> retained then Some (retained - leaving) else None)) (\<lambda>kept.
     ok_or HE_ByteAccounting (checked_add_usize kept entering))"

definition record_snapshot :: "session_history \<Rightarrow> snapshot \<Rightarrow> session_history \<times> ('e history_error + unit)" where
  "record_snapshot h prior =
     (case and_then (require_snapshot_size h prior) (\<lambda>_.
           and_then (snapshot_bytes (hs_redo h)) (\<lambda>redo_bytes.
           exchange_bytes (hs_retained h) redo_bytes (length prior))) of
        Inl e \<Rightarrow> (h, Inl e)
      | Inr retained \<Rightarrow>
          (let h' = h \<lparr>hs_redo := [], hs_retained := retained, hs_undo := hs_undo h @ [prior]\<rparr> in
           case enforce_limits h' of None \<Rightarrow> (h', Inl HE_Underflow) | Some h'' \<Rightarrow> (h'', Inr ())))"

definition replay_snapshot :: "('a \<Rightarrow> bytes \<Rightarrow> 'e + 'r) \<Rightarrow> snapshot \<Rightarrow> 'a \<Rightarrow> 'e history_error + 'r" where
  "replay_snapshot replay s admission = map_err HE_Session (replay admission s)"

definition preview_target ::
  "('a \<Rightarrow> bytes \<Rightarrow> 'e + 'r) \<Rightarrow> snapshot option \<Rightarrow> 'a \<Rightarrow> 'e history_error + 'r option" where
  "preview_target replay target admission = (case target of
     None \<Rightarrow> Inr None
   | Some s \<Rightarrow> and_then (replay_snapshot replay s admission) (\<lambda>r. Inr (Some r)))"

definition preview_undo ::
  "('a \<Rightarrow> bytes \<Rightarrow> 'e + 'r) \<Rightarrow> session_history \<Rightarrow> 'a \<Rightarrow> 'e history_error + 'r option" where
  "preview_undo replay h admission = preview_target replay (last_snapshot (hs_undo h)) admission"

definition preview_redo ::
  "('a \<Rightarrow> bytes \<Rightarrow> 'e + 'r) \<Rightarrow> session_history \<Rightarrow> 'a \<Rightarrow> 'e history_error + 'r option" where
  "preview_redo replay h admission = preview_target replay (last_snapshot (hs_redo h)) admission"

definition navigate ::
  "('a \<Rightarrow> bytes \<Rightarrow> 'e + 'r) \<Rightarrow> session_history \<Rightarrow> snapshot \<Rightarrow> 'a \<Rightarrow> bool
     \<Rightarrow> session_history \<times> ('e history_error + 'r option)" where
  "navigate replay h current admission redo =
     (case last_snapshot (if redo then hs_redo h else hs_undo h) of
        None \<Rightarrow> (h, Inr None)
      | Some target \<Rightarrow>
          (case and_then (replay_snapshot replay target admission) (\<lambda>r.
                and_then (require_snapshot_size h current) (\<lambda>_.
                and_then (exchange_bytes (hs_retained h) (length target) (length current)) (\<lambda>retained.
                Inr (r, retained)))) of
             Inl e \<Rightarrow> (h, Inl e)
           | Inr (r, retained) \<Rightarrow>
               (let h' = (if redo
                  then h \<lparr>hs_redo := butlast (hs_redo h), hs_undo := hs_undo h @ [current], hs_retained := retained\<rparr>
                  else h \<lparr>hs_undo := butlast (hs_undo h), hs_redo := hs_redo h @ [current], hs_retained := retained\<rparr>) in
                case enforce_limits h' of None \<Rightarrow> (h', Inl HE_Underflow) | Some h'' \<Rightarrow> (h'', Inr (Some r)))))"

definition undo_history ::
  "('a \<Rightarrow> bytes \<Rightarrow> 'e + 'r) \<Rightarrow> session_history \<Rightarrow> snapshot \<Rightarrow> 'a \<Rightarrow> session_history \<times> ('e history_error + 'r option)" where
  "undo_history replay h current admission = navigate replay h current admission False"

definition redo_history ::
  "('a \<Rightarrow> bytes \<Rightarrow> 'e + 'r) \<Rightarrow> session_history \<Rightarrow> snapshot \<Rightarrow> 'a \<Rightarrow> session_history \<times> ('e history_error + 'r option)" where
  "redo_history replay h current admission = navigate replay h current admission True"

definition clear_history :: "session_history \<Rightarrow> session_history" where
  "clear_history h = h \<lparr>hs_undo := [], hs_redo := [], hs_retained := 0\<rparr>"

section \<open>The invariant\<close>

definition stack_bytes :: "snapshot list \<Rightarrow> nat" where
  "stack_bytes stack = sum_list (map length stack)"

lemma stack_bytes_simps [simp]:
  "stack_bytes [] = 0" "stack_bytes (s # stack) = length s + stack_bytes stack"
  "stack_bytes (xs @ ys) = stack_bytes xs + stack_bytes ys"
  by (simp_all add: stack_bytes_def)

lemma stack_bytes_last: "stack \<noteq> [] \<Longrightarrow> stack_bytes stack = stack_bytes (butlast stack) + length (last stack)"
  by (induction stack rule: rev_induct) simp_all

definition history_wf :: "session_history \<Rightarrow> bool" where
  "history_wf h \<longleftrightarrow> hl_snapshots (hs_limits h) \<noteq> 0 \<and> hl_bytes (hs_limits h) \<noteq> 0 \<and> hl_bytes (hs_limits h) \<le> usize_max
     \<and> length (hs_undo h) \<le> hl_snapshots (hs_limits h) \<and> length (hs_redo h) \<le> hl_snapshots (hs_limits h)
     \<and> hs_retained h = stack_bytes (hs_undo h) + stack_bytes (hs_redo h)
     \<and> hs_retained h \<le> hl_bytes (hs_limits h)"

text \<open>Eviction keeps the newest end of each stack and never subtracts below zero.\<close>

lemma evict_excess_suffix:
  assumes "stack_bytes stack \<le> retained"
  shows "\<exists>kept. evict_excess most stack retained = Some (kept, retained - stack_bytes stack + stack_bytes kept)
    \<and> suffix kept stack \<and> length kept \<le> most \<and> (length stack \<le> most \<longrightarrow> kept = stack)"
  using assms
proof (induction stack arbitrary: retained)
  case (Cons s stack)
  show ?case
  proof (cases "length (s # stack) > most")
    case True
    from Cons.prems have "stack_bytes stack \<le> retained - length s" by simp
    with Cons.IH obtain kept where kept:
      "evict_excess most stack (retained - length s) = Some (kept, retained - length s - stack_bytes stack + stack_bytes kept)"
      "suffix kept stack" "length kept \<le> most" by fastforce
    with True Cons.prems show ?thesis
      by (auto simp: subtract_bytes_def suffix_Cons)
  qed (use Cons.prems in auto)
qed simp

lemma evict_bytes_suffix:
  assumes "retained = stack_bytes undo + stack_bytes redo"
  shows "\<exists>us rs. evict_bytes most undo redo retained = Some (us, rs, stack_bytes us + stack_bytes rs)
    \<and> suffix us undo \<and> suffix rs redo \<and> stack_bytes us + stack_bytes rs \<le> most
    \<and> (retained \<le> most \<longrightarrow> us = undo \<and> rs = redo)"
  using assms
proof (induction most undo redo retained rule: evict_bytes.induct)
  case (2 most u undo redo retained)
  show ?case
  proof (cases "retained > most")
    case True
    with 2 have "\<exists>us rs. evict_bytes most undo redo (retained - length u) = Some (us, rs, stack_bytes us + stack_bytes rs)
      \<and> suffix us undo \<and> suffix rs redo \<and> stack_bytes us + stack_bytes rs \<le> most"
      by (auto simp: subtract_bytes_def)
    with True 2(2) show ?thesis by (auto simp: subtract_bytes_def suffix_Cons)
  qed (use 2(2) in auto)
next
  case (3 most r redo retained)
  show ?case
  proof (cases "retained > most")
    case True
    with 3 have "\<exists>us rs. evict_bytes most [] redo (retained - length r) = Some (us, rs, stack_bytes us + stack_bytes rs)
      \<and> suffix us [] \<and> suffix rs redo \<and> stack_bytes us + stack_bytes rs \<le> most"
      by (auto simp: subtract_bytes_def)
    with True 3(2) show ?thesis by (auto simp: subtract_bytes_def suffix_Cons)
  qed (use 3(2) in auto)
qed simp

lemma enforce_limits_suffix:
  assumes "hs_retained h = stack_bytes (hs_undo h) + stack_bytes (hs_redo h)"
  shows "\<exists>h'. enforce_limits h = Some h' \<and> hs_limits h' = hs_limits h
    \<and> suffix (hs_undo h') (hs_undo h) \<and> suffix (hs_redo h') (hs_redo h)
    \<and> hs_retained h' = stack_bytes (hs_undo h') + stack_bytes (hs_redo h')
    \<and> hs_retained h' \<le> hl_bytes (hs_limits h)
    \<and> length (hs_undo h') \<le> hl_snapshots (hs_limits h) \<and> length (hs_redo h') \<le> hl_snapshots (hs_limits h)
    \<and> (length (hs_undo h) \<le> hl_snapshots (hs_limits h) \<and> length (hs_redo h) \<le> hl_snapshots (hs_limits h)
       \<and> hs_retained h \<le> hl_bytes (hs_limits h) \<longrightarrow> h' = h)"
proof -
  let ?l = "hs_limits h"
  obtain us where us: "evict_excess (hl_snapshots ?l) (hs_undo h) (hs_retained h) = Some (us, stack_bytes (hs_redo h) + stack_bytes us)"
    "suffix us (hs_undo h)" "length us \<le> hl_snapshots ?l" "length (hs_undo h) \<le> hl_snapshots ?l \<longrightarrow> us = hs_undo h"
    using evict_excess_suffix[of "hs_undo h" "hs_retained h" "hl_snapshots ?l"] assms by auto
  obtain rs where rs: "evict_excess (hl_snapshots ?l) (hs_redo h) (stack_bytes (hs_redo h) + stack_bytes us) = Some (rs, stack_bytes us + stack_bytes rs)"
    "suffix rs (hs_redo h)" "length rs \<le> hl_snapshots ?l" "length (hs_redo h) \<le> hl_snapshots ?l \<longrightarrow> rs = hs_redo h"
    using evict_excess_suffix[of "hs_redo h" "stack_bytes (hs_redo h) + stack_bytes us" "hl_snapshots ?l"] by auto
  obtain us' rs' where bs: "evict_bytes (hl_bytes ?l) us rs (stack_bytes us + stack_bytes rs) = Some (us', rs', stack_bytes us' + stack_bytes rs')"
    "suffix us' us" "suffix rs' rs" "stack_bytes us' + stack_bytes rs' \<le> hl_bytes ?l"
    "stack_bytes us + stack_bytes rs \<le> hl_bytes ?l \<longrightarrow> us' = us \<and> rs' = rs"
    using evict_bytes_suffix[OF refl, of "hl_bytes ?l" us rs] by auto
  have "enforce_limits h = Some (h \<lparr>hs_undo := us', hs_redo := rs', hs_retained := stack_bytes us' + stack_bytes rs'\<rparr>)"
    by (simp add: enforce_limits_def us(1) rs(1) bs(1))
  moreover have "suffix us' (hs_undo h)" "suffix rs' (hs_redo h)"
    using us(2) rs(2) bs(2,3) by (auto intro: suffix_order.trans)
  moreover have "length us' \<le> hl_snapshots ?l" "length rs' \<le> hl_snapshots ?l"
    using us(3) rs(3) bs(2,3) by (auto dest: suffix_length_le)
  ultimately show ?thesis using bs(4,5) us(4) rs(4) assms by auto
qed

lemma snapshot_bytes_sum:
  fixes stack :: "snapshot list"
  shows "(snapshot_bytes stack :: 'a history_error + nat)
    = (if stack_bytes stack \<le> usize_max then Inr (stack_bytes stack) else Inl HE_ByteAccounting)"
proof -
  have "n \<le> usize_max \<Longrightarrow> try_fold (\<lambda>sum s. ok_or HE_ByteAccounting (checked_add_usize sum (length s))) n stack
      = (if n + stack_bytes stack \<le> usize_max then Inr (n + stack_bytes stack) else Inl HE_ByteAccounting :: 'a history_error + nat)" for n
    by (induction stack arbitrary: n) (auto simp: ok_or_def checked_add_usize_def add.assoc)
  from this[of 0] show ?thesis by (simp add: snapshot_bytes_def)
qed

lemma exchange_bytes_Inr:
  "exchange_bytes retained leaving entering = Inr n \<longleftrightarrow>
     leaving \<le> retained \<and> n = retained - leaving + entering \<and> n \<le> usize_max"
  by (auto simp: exchange_bytes_def checked_add_usize_def split: if_splits)

lemma try_new_history_wf:
  "try_new_history l = Inr h \<Longrightarrow> hl_bytes l \<le> usize_max \<Longrightarrow> history_wf h \<and> hs_limits h = l"
  by (auto simp: try_new_history_def validate_history_limits_def history_wf_def split: if_splits)

text \<open>A record that succeeds: the redo stack is gone and the undo stack is the newest end of the extended one.\<close>

lemma record_snapshot_cases:
  fixes result :: "'e history_error + unit"
  assumes wf: "history_wf h" and step: "record_snapshot h prior = (h', result)"
  shows "(\<exists>e. result = Inl e \<and> h' = h \<and> e \<in> {HE_SnapshotTooLarge, HE_ByteAccounting})
    \<or> (result = Inr () \<and> history_wf h' \<and> hs_limits h' = hs_limits h \<and> hs_redo h' = []
        \<and> suffix (hs_undo h') (hs_undo h @ [prior]))"
proof (cases "and_then (require_snapshot_size h prior) (\<lambda>_.
    and_then (snapshot_bytes (hs_redo h)) (\<lambda>redo_bytes. exchange_bytes (hs_retained h) redo_bytes (length prior)))
    :: 'e history_error + nat")
  case (Inl e)
  then have "e \<in> {HE_SnapshotTooLarge, HE_ByteAccounting}"
    by (auto simp: require_snapshot_size_def snapshot_bytes_sum exchange_bytes_def split: if_splits)
  moreover from Inl step have "h' = h" "result = Inl e" by (simp_all add: record_snapshot_def del: and_then_Inl)
  ultimately show ?thesis by blast
next
  case (Inr retained)
  let ?h = "h \<lparr>hs_redo := [], hs_retained := retained, hs_undo := hs_undo h @ [prior]\<rparr>"
  from Inr wf have "retained = stack_bytes (hs_undo h @ [prior])"
    by (auto simp: snapshot_bytes_sum exchange_bytes_Inr history_wf_def split: if_splits)
  then obtain h'' where h'': "enforce_limits ?h = Some h''" "hs_limits h'' = hs_limits h"
    "suffix (hs_undo h'') (hs_undo h @ [prior])" "suffix (hs_redo h'') []"
    "hs_retained h'' = stack_bytes (hs_undo h'') + stack_bytes (hs_redo h'')" "hs_retained h'' \<le> hl_bytes (hs_limits h)"
    "length (hs_undo h'') \<le> hl_snapshots (hs_limits h)" "length (hs_redo h'') \<le> hl_snapshots (hs_limits h)"
    using enforce_limits_suffix[of ?h] by auto
  with step Inr have "h' = h''" "result = Inr ()" by (auto simp: record_snapshot_def)
  with h'' wf show ?thesis by (simp add: history_wf_def)
qed

definition navigated :: "session_history \<Rightarrow> bool \<Rightarrow> snapshot \<Rightarrow> snapshot list \<times> snapshot list" where
  "navigated h redo current =
     (if redo then (hs_undo h @ [current], butlast (hs_redo h)) else (butlast (hs_undo h), hs_redo h @ [current]))"

lemma navigate_cases:
  fixes replay :: "'a \<Rightarrow> bytes \<Rightarrow> 'e + 'r"
  assumes wf: "history_wf h" and step: "navigate replay h current admission redo = (h', result)"
  defines "stack \<equiv> (if redo then hs_redo h else hs_undo h)"
  shows "(stack = [] \<and> h' = h \<and> result = Inr None)
    \<or> (\<exists>e. stack \<noteq> [] \<and> h' = h \<and> result = Inl e
        \<and> (e \<in> {HE_SnapshotTooLarge, HE_ByteAccounting} \<or> (\<exists>x. e = HE_Session x \<and> replay admission (last stack) = Inl x)))
    \<or> (\<exists>r. stack \<noteq> [] \<and> result = Inr (Some r) \<and> replay admission (last stack) = Inr r
        \<and> history_wf h' \<and> hs_limits h' = hs_limits h
        \<and> suffix (hs_undo h') (fst (navigated h redo current)) \<and> suffix (hs_redo h') (snd (navigated h redo current)))"
proof (cases "stack = []")
  case True
  with step show ?thesis by (auto simp: navigate_def last_snapshot_def stack_def split: if_splits)
next
  case False
  let ?checks = "and_then (replay_snapshot replay (last stack) admission) (\<lambda>r.
      and_then (require_snapshot_size h current) (\<lambda>_.
      and_then (exchange_bytes (hs_retained h) (length (last stack)) (length current)) (\<lambda>retained. Inr (r, retained))))"
  from False have target: "last_snapshot (if redo then hs_redo h else hs_undo h) = Some (last stack)"
    by (simp add: last_snapshot_def stack_def)
  show ?thesis
  proof (cases ?checks)
    case (Inl e)
    with step target have "h' = h" "result = Inl e" by (auto simp: navigate_def)
    moreover from Inl have "e \<in> {HE_SnapshotTooLarge, HE_ByteAccounting} \<or> (\<exists>x. e = HE_Session x \<and> replay admission (last stack) = Inl x)"
      by (auto simp: replay_snapshot_def require_snapshot_size_def exchange_bytes_def split: if_splits)
    ultimately show ?thesis using False by blast
  next
    case (Inr c)
    obtain r retained where c: "c = (r, retained)" by (cases c)
    from Inr c have r: "replay admission (last stack) = Inr r" and "length (last stack) \<le> hs_retained h"
      and retained: "retained = hs_retained h - length (last stack) + length current"
      by (auto simp: replay_snapshot_def exchange_bytes_Inr)
    let ?h = "h \<lparr>hs_undo := fst (navigated h redo current), hs_redo := snd (navigated h redo current), hs_retained := retained\<rparr>"
    have "hs_retained ?h = stack_bytes (hs_undo ?h) + stack_bytes (hs_redo ?h)"
      using wf False retained stack_bytes_last[of stack]
      by (auto simp: history_wf_def stack_def navigated_def split: if_splits)
    then obtain h'' where h'': "enforce_limits ?h = Some h''" "hs_limits h'' = hs_limits h"
      "suffix (hs_undo h'') (fst (navigated h redo current))" "suffix (hs_redo h'') (snd (navigated h redo current))"
      "hs_retained h'' = stack_bytes (hs_undo h'') + stack_bytes (hs_redo h'')" "hs_retained h'' \<le> hl_bytes (hs_limits h)"
      "length (hs_undo h'') \<le> hl_snapshots (hs_limits h)" "length (hs_redo h'') \<le> hl_snapshots (hs_limits h)"
      using enforce_limits_suffix[of ?h] by auto
    have "(if redo
        then h \<lparr>hs_redo := butlast (hs_redo h), hs_undo := hs_undo h @ [current], hs_retained := retained\<rparr>
        else h \<lparr>hs_undo := butlast (hs_undo h), hs_redo := hs_redo h @ [current], hs_retained := retained\<rparr>) = ?h"
      by (simp add: navigated_def)
    with step target Inr c h''(1) have "h' = h''" "result = Inr (Some r)" by (auto simp: navigate_def)
    with h'' wf False r show ?thesis by (auto simp: history_wf_def)
  qed
qed

section \<open>The newest snapshot\<close>

lemma suffix_last: "suffix xs ys \<Longrightarrow> xs \<noteq> [] \<Longrightarrow> ys \<noteq> [] \<and> last ys = last xs"
  by (auto simp: suffix_def)

text \<open>The newest record is never evicted: it fits the budget by itself.\<close>

lemma evict_excess_nonempty:
  "evict_excess most stack retained = Some (kept, n) \<Longrightarrow> stack \<noteq> [] \<Longrightarrow> 0 < most \<Longrightarrow> kept \<noteq> []"
proof (induction stack arbitrary: retained)
  case (Cons s stack)
  show ?case
  proof (cases "stack = []")
    case False
    with Cons show ?thesis by (auto split: if_split_asm bind_splits)
  qed (use Cons.prems in auto)
qed simp

lemma evict_bytes_nonempty:
  assumes "evict_bytes most undo [] (stack_bytes undo) = Some (us, rs, n)" and "undo \<noteq> []" and "length (last undo) \<le> most"
  shows "us \<noteq> []"
  using assms
proof (induction undo)
  case (Cons u undo)
  show ?case
  proof (cases "undo = []")
    case False
    with Cons show ?thesis by (auto simp: subtract_bytes_def split: if_split_asm bind_splits)
  qed (use Cons.prems in \<open>auto simp: subtract_bytes_def split: if_split_asm\<close>)
qed simp

lemma record_snapshot_newest:
  fixes result :: "'e history_error + unit"
  assumes wf: "history_wf h" and step: "record_snapshot h prior = (h', Inr () :: 'e history_error + unit)"
  shows "hs_undo h' \<noteq> [] \<and> last (hs_undo h') = prior"
proof -
  from record_snapshot_cases[OF wf step] have "suffix (hs_undo h') (hs_undo h @ [prior])" by auto
  moreover have "hs_undo h' \<noteq> []"
  proof -
    from step obtain retained where
      checks: "and_then (require_snapshot_size h prior) (\<lambda>_. and_then (snapshot_bytes (hs_redo h))
        (\<lambda>redo_bytes. exchange_bytes (hs_retained h) redo_bytes (length prior))) = (Inr retained :: 'e history_error + nat)"
      and limits: "enforce_limits (h \<lparr>hs_redo := [], hs_retained := retained, hs_undo := hs_undo h @ [prior]\<rparr>) = Some h'"
      by (auto simp: record_snapshot_def Let_def split: sum.splits option.splits)
    from checks wf have bytes: "retained = stack_bytes (hs_undo h @ [prior])" and fits: "length prior \<le> hl_bytes (hs_limits h)"
      by (auto simp: require_snapshot_size_def snapshot_bytes_sum exchange_bytes_Inr history_wf_def split: if_splits)
    from limits obtain us n us' rs' n' where
      us: "evict_excess (hl_snapshots (hs_limits h)) (hs_undo h @ [prior]) retained = Some (us, n)"
      and us': "evict_bytes (hl_bytes (hs_limits h)) us [] n = Some (us', rs', n')" and h': "hs_undo h' = us'"
      by (auto simp: enforce_limits_def split: bind_splits)
    from us evict_excess_suffix[of "hs_undo h @ [prior]" retained "hl_snapshots (hs_limits h)"] bytes
    have n: "n = stack_bytes us" and suffix: "suffix us (hs_undo h @ [prior])" by auto
    have some: "us \<noteq> []" using evict_excess_nonempty[OF us] wf by (simp add: history_wf_def)
    with suffix suffix_last[OF suffix some] have "last us = prior" by simp
    then show ?thesis using evict_bytes_nonempty[OF us'[unfolded n] some] fits h' by simp
  qed
  ultimately show ?thesis using suffix_last[of "hs_undo h'" "hs_undo h @ [prior]"] by simp
qed

lemma navigate_succeeds:
  fixes replay :: "'a \<Rightarrow> bytes \<Rightarrow> 'e + 'r"
  defines "stack h redo \<equiv> (if redo then hs_redo h else hs_undo h)"
  assumes wf: "history_wf h" and some: "stack h redo \<noteq> []" and target: "replay admission (last (stack h redo)) = Inr r"
    and current: "length current \<le> hl_bytes (hs_limits h)" and room: "2 * hl_bytes (hs_limits h) \<le> usize_max"
  obtains h' where "navigate replay h current admission redo = (h', Inr (Some r))" "history_wf h'"
    "hs_limits h' = hs_limits h" "suffix (hs_undo h') (fst (navigated h redo current))"
    "suffix (hs_redo h') (snd (navigated h redo current))"
proof -
  obtain h' result where step: "navigate replay h current admission redo = (h', result)" by fastforce
  have "stack_bytes (stack h redo) \<le> hs_retained h" using wf by (simp add: history_wf_def stack_def)
  then have "length (last (stack h redo)) \<le> hs_retained h" using stack_bytes_last[OF some] by simp
  moreover have "hs_retained h \<le> hl_bytes (hs_limits h)" using wf by (simp add: history_wf_def)
  ultimately have "exchange_bytes (hs_retained h) (length (last (stack h redo))) (length current)
      = (Inr (hs_retained h - length (last (stack h redo)) + length current) :: 'e history_error + nat)"
    using current room by (simp add: exchange_bytes_Inr)
  moreover have newest: "last_snapshot (if redo then hs_redo h else hs_undo h) = Some (last (stack h redo))"
    using some by (simp add: last_snapshot_def stack_def)
  moreover have "require_snapshot_size h current = (Inr () :: 'e history_error + unit)"
    using current by (simp add: require_snapshot_size_def)
  ultimately have checked: "result = Inl HE_Underflow \<or> result = Inr (Some r)"
    using step target unfolding navigate_def newest
    by (auto simp: replay_snapshot_def Let_def simp del: and_then_Inr and_then_Inl split: option.splits)
  from navigate_cases[OF wf step, folded stack_def] some have
    "(\<exists>e. result = Inl e \<and> e \<noteq> HE_Underflow) \<or> (\<exists>r'. result = Inr (Some r') \<and> replay admission (last (stack h redo)) = Inr r'
        \<and> history_wf h' \<and> hs_limits h' = hs_limits h
        \<and> suffix (hs_undo h') (fst (navigated h redo current)) \<and> suffix (hs_redo h') (snd (navigated h redo current)))"
    by auto
  then show ?thesis using that step target checked by auto
qed

text \<open>What a navigation pushes is never evicted either when the other stack was emptied by the record before it.\<close>

lemma evict_bytes_keeps_redo:
  assumes "evict_bytes most undo [r] (stack_bytes undo + length r) = Some (us, rs, n)" and "length r \<le> most"
  shows "rs = [r]"
  using assms
proof (induction undo)
  case (Cons u undo)
  show ?case
  proof (cases "stack_bytes (u # undo) + length r > most")
    case True
    with Cons.prems have "evict_bytes most undo [r] (stack_bytes undo + length r) = Some (us, rs, n)"
      by (simp add: subtract_bytes_def add.assoc)
    with Cons show ?thesis by blast
  next
    case False
    with Cons.prems show ?thesis by simp
  qed
qed (auto split: if_split_asm)

lemma undone_keeps_current:
  fixes replay :: "'a \<Rightarrow> bytes \<Rightarrow> 'e + 'r"
  assumes wf: "history_wf h" and none: "hs_redo h = []"
    and step: "navigate replay h current admission False = (h', Inr (Some r))"
  shows "hs_redo h' = [current]"
proof -
  let ?t = "last (hs_undo h)"
  from step have some: "hs_undo h \<noteq> []" by (auto simp: navigate_def last_snapshot_def split: if_splits)
  then have newest: "last_snapshot (hs_undo h) = Some ?t" by (simp add: last_snapshot_def)
  from step obtain retained where
    checks: "and_then (replay_snapshot replay ?t admission) (\<lambda>r. and_then (require_snapshot_size h current) (\<lambda>_.
      and_then (exchange_bytes (hs_retained h) (length ?t) (length current)) (\<lambda>retained. Inr (r, retained)))) = Inr (r, retained)"
    and limits: "enforce_limits (h \<lparr>hs_undo := butlast (hs_undo h), hs_redo := hs_redo h @ [current], hs_retained := retained\<rparr>) = Some h'"
    unfolding navigate_def by (auto simp: newest Let_def split: sum.splits option.splits)
  from checks have fits: "length current \<le> hl_bytes (hs_limits h)"
    and retained: "retained = hs_retained h - length ?t + length current"
    by (auto simp: require_snapshot_size_def exchange_bytes_Inr split: if_splits)
  have bytes: "retained = stack_bytes (butlast (hs_undo h)) + length current"
    using wf none stack_bytes_last[OF some] by (simp add: retained history_wf_def)
  from limits none obtain us n us' rs' n' where
    us: "evict_excess (hl_snapshots (hs_limits h)) (butlast (hs_undo h)) retained = Some (us, n)"
    and us': "evict_bytes (hl_bytes (hs_limits h)) us [current] n = Some (us', rs', n')" and h': "hs_redo h' = rs'"
    using wf by (auto simp: enforce_limits_def history_wf_def split: bind_splits if_splits)
  from us evict_excess_suffix[of "butlast (hs_undo h)" retained "hl_snapshots (hs_limits h)"] bytes
  have "n = stack_bytes us + length current" by auto
  with evict_bytes_keeps_redo[OF us'[unfolded this] fits] h' show ?thesis by simp
qed

section \<open>Runs\<close>

text \<open>
  The history promises the behaviour of two unbounded stacks, of which it may have forgotten the old end.
  A run performs any operations with any arguments, successful or not, and keeps the unbounded stacks alongside.
\<close>

record unbounded_history =
  uh_past :: "snapshot list"
  uh_future :: "snapshot list"

inductive history_run ::
  "('a \<Rightarrow> bytes \<Rightarrow> 'e + 'r) \<Rightarrow> history_limits \<Rightarrow> session_history \<Rightarrow> unbounded_history \<Rightarrow> bool"
  for replay :: "'a \<Rightarrow> bytes \<Rightarrow> 'e + 'r" and l :: history_limits where
  start: "try_new_history l = (Inr h :: 'e history_error + session_history) \<Longrightarrow>
    history_run replay l h \<lparr>uh_past = [], uh_future = []\<rparr>"
| recorded: "history_run replay l h u \<Longrightarrow> record_snapshot h prior = (h', Inr () :: 'e history_error + unit) \<Longrightarrow>
    history_run replay l h' \<lparr>uh_past = uh_past u @ [prior], uh_future = []\<rparr>"
| rejected: "history_run replay l h u \<Longrightarrow> record_snapshot h prior = (h', Inl e :: 'e history_error + unit) \<Longrightarrow>
    history_run replay l h' u"
| undone: "history_run replay l h u \<Longrightarrow> undo_history replay h current admission = (h', Inr (Some r)) \<Longrightarrow>
    history_run replay l h' \<lparr>uh_past = butlast (uh_past u), uh_future = uh_future u @ [current]\<rparr>"
| redone: "history_run replay l h u \<Longrightarrow> redo_history replay h current admission = (h', Inr (Some r)) \<Longrightarrow>
    history_run replay l h' \<lparr>uh_past = uh_past u @ [current], uh_future = butlast (uh_future u)\<rparr>"
| stayed: "history_run replay l h u \<Longrightarrow> navigate replay h current admission redo = (h', result) \<Longrightarrow>
    \<forall>r. result \<noteq> Inr (Some r) \<Longrightarrow> history_run replay l h' u"
| cleared: "history_run replay l h u \<Longrightarrow> history_run replay l (clear_history h) \<lparr>uh_past = [], uh_future = []\<rparr>"

lemma suffix_butlast: "suffix xs ys \<Longrightarrow> xs \<noteq> [] \<Longrightarrow> suffix (butlast xs) (butlast ys)"
  by (auto simp: suffix_def butlast_append)

lemma suffix_snoc_both: "suffix xs ys \<Longrightarrow> suffix (xs @ [x]) (ys @ [x])"
  by (simp add: suffix_def)

lemma history_run_refines:
  assumes "history_run replay l h u" and "hl_bytes l \<le> usize_max"
  shows "history_wf h \<and> hs_limits h = l \<and> suffix (hs_undo h) (uh_past u) \<and> suffix (hs_redo h) (uh_future u)"
  using assms
proof (induction rule: history_run.induct)
  case (start h)
  then show ?case by (auto simp: try_new_history_def validate_history_limits_def history_wf_def split: if_splits)
next
  case (recorded h u prior h')
  then have "suffix (hs_undo h @ [prior]) (uh_past u @ [prior])" by (simp add: suffix_snoc_both)
  with recorded record_snapshot_cases[of h prior h' "Inr ()"] show ?case
    by (auto intro: suffix_order.trans)
next
  case (rejected h u prior h' e)
  with record_snapshot_cases[of h prior h' "Inl e"] show ?case by auto
next
  case (undone h u current admission h' r)
  then have step: "navigate replay h current admission False = (h', Inr (Some r))" by (simp add: undo_history_def)
  from undone navigate_cases[OF _ step] have h': "hs_undo h \<noteq> []" "history_wf h'" "hs_limits h' = l"
    "suffix (hs_undo h') (butlast (hs_undo h))" "suffix (hs_redo h') (hs_redo h @ [current])"
    by (auto simp: navigated_def)
  with undone suffix_butlast[of "hs_undo h" "uh_past u"] suffix_snoc_both[of "hs_redo h" "uh_future u" current]
  show ?case by (auto intro: suffix_order.trans)
next
  case (redone h u current admission h' r)
  then have step: "navigate replay h current admission True = (h', Inr (Some r))" by (simp add: redo_history_def)
  from redone navigate_cases[OF _ step] have h': "hs_redo h \<noteq> []" "history_wf h'" "hs_limits h' = l"
    "suffix (hs_redo h') (butlast (hs_redo h))" "suffix (hs_undo h') (hs_undo h @ [current])"
    by (auto simp: navigated_def)
  with redone suffix_butlast[of "hs_redo h" "uh_future u"] suffix_snoc_both[of "hs_undo h" "uh_past u" current]
  show ?case by (auto intro: suffix_order.trans)
next
  case (stayed h u current admission redo h' result)
  with navigate_cases[OF _ stayed.hyps(2)] show ?case by auto
next
  case (cleared h u)
  then have "history_wf h \<and> hs_limits h = l" by simp
  then show ?case by (auto simp: clear_history_def history_wf_def)
qed

lemma enforce_limits_idle: "history_wf h \<Longrightarrow> enforce_limits h = Some h"
  using enforce_limits_suffix[of h] by (auto simp: history_wf_def)

section \<open>A concrete history\<close>

definition example_limits :: history_limits where
  "example_limits = \<lparr>hl_snapshots = 2, hl_bytes = 8\<rparr>"

definition echo_replay :: "unit \<Rightarrow> bytes \<Rightarrow> unit + bytes" where
  "echo_replay _ b = (if b = [] then Inl () else Inr b)"

definition two_steps :: session_history where
  "two_steps = \<lparr>hs_limits = example_limits, hs_undo = [[1], [2, 2]], hs_redo = [], hs_retained = 3\<rparr>"

definition one_back :: session_history where
  "one_back = \<lparr>hs_limits = example_limits, hs_undo = [[1]], hs_redo = [[3]], hs_retained = 2\<rparr>"

lemmas evaluate_history = record_snapshot_def navigate_def undo_history_def redo_history_def require_snapshot_size_def
  snapshot_bytes_def exchange_bytes_def enforce_limits_def subtract_bytes_def last_snapshot_def replay_snapshot_def
  checked_add_usize_def usize_max_def ok_or_def Let_def example_limits_def echo_replay_def

lemma two_steps_run: "history_run echo_replay example_limits two_steps \<lparr>uh_past = [[1], [2, 2]], uh_future = []\<rparr>"
proof -
  let ?new = "\<lparr>hs_limits = example_limits, hs_undo = [], hs_redo = [], hs_retained = 0\<rparr>"
  let ?one = "\<lparr>hs_limits = example_limits, hs_undo = [[1]], hs_redo = [], hs_retained = 1\<rparr>"
  have "try_new_history example_limits = (Inr ?new :: unit history_error + session_history)"
    by (simp add: try_new_history_def validate_history_limits_def example_limits_def)
  then have "history_run echo_replay example_limits ?new \<lparr>uh_past = [], uh_future = []\<rparr>" by (rule history_run.start)
  moreover have "record_snapshot ?new [1] = (?one, Inr () :: unit history_error + unit)"
    by (simp add: evaluate_history del: and_then_Inr and_then_Inl)
  ultimately have one: "history_run echo_replay example_limits ?one \<lparr>uh_past = [[1]], uh_future = []\<rparr>"
    using history_run.recorded by fastforce
  moreover have "record_snapshot ?one [2, 2] = (two_steps, Inr () :: unit history_error + unit)"
    by (simp add: evaluate_history two_steps_def del: and_then_Inr and_then_Inl)
  ultimately show ?thesis using history_run.recorded by fastforce
qed

lemma two_steps_undone: "undo_history echo_replay two_steps [3] () = (one_back, Inr (Some [2, 2]))"
  by (simp add: evaluate_history two_steps_def one_back_def del: and_then_Inr and_then_Inl)

lemma two_steps_wf: "history_wf two_steps"
  by (simp add: history_wf_def two_steps_def example_limits_def usize_max_def)

section \<open>Properties of the history\<close>

text \<open>
  Whatever operations run on a new history, with whatever arguments and outcomes,
  both stacks stay within the snapshot limit, the byte counter is exactly the bytes of the two stacks and stays
  within its limit; a further operation never underflows and, when it fails, leaves the history as it was.
\<close>

theorem history_invariant:
  assumes "history_run replay l h u" and "hl_bytes l \<le> usize_max"
  shows "history_wf h
    \<and> (\<forall>prior h' e. record_snapshot h prior = (h', Inl e) \<longrightarrow> h' = h \<and> e \<noteq> HE_Underflow)
    \<and> (\<forall>current admission redo h' e. navigate replay h current admission redo = (h', Inl e) \<longrightarrow> h' = h \<and> e \<noteq> HE_Underflow)"
proof -
  from history_run_refines[OF assms] have wf: "history_wf h" by simp
  then show ?thesis
    using record_snapshot_cases[OF wf] navigate_cases[OF wf]
    by (auto dest!: record_snapshot_cases[OF wf] navigate_cases[OF wf])
qed

theorem history_invariant_witness:
  "history_wf two_steps \<and> record_snapshot two_steps (replicate 9 0) = (two_steps, Inl HE_SnapshotTooLarge :: unit history_error + unit)
   \<and> (HE_SnapshotTooLarge :: unit history_error) \<noteq> HE_Underflow"
proof -
  have "record_snapshot two_steps (replicate 9 0) = (two_steps, Inl HE_SnapshotTooLarge :: unit history_error + unit)"
    by (simp add: evaluate_history two_steps_def del: and_then_Inr and_then_Inl)
  with history_invariant[OF two_steps_run] show ?thesis by (auto simp: example_limits_def usize_max_def)
qed

text \<open>
  C19. The history refines an unbounded one that never forgets: after any run an undo or redo that
  succeeds replays exactly the session that the unbounded history would return, and it returns
  nothing only when its own stack is empty, which holds whenever the unbounded one is.
\<close>

theorem history_refines_unbounded:
  assumes "history_run replay l h u" and "hl_bytes l \<le> usize_max"
    and "navigate replay h current admission redo = (h', Inr result)"
  shows "case result of
      Some r \<Rightarrow> (let stack = (if redo then uh_future u else uh_past u) in
        stack \<noteq> [] \<and> replay admission (last stack) = Inr r)
    | None \<Rightarrow> \<not> (if redo then can_redo h else can_undo h)"
proof -
  from history_run_refines[OF assms(1,2)] have wf: "history_wf h"
    and suffixes: "suffix (hs_undo h) (uh_past u)" "suffix (hs_redo h) (uh_future u)" by simp_all
  from navigate_cases[OF wf assms(3)] show ?thesis
    using suffix_last[OF suffixes(1)] suffix_last[OF suffixes(2)]
    by (cases result; cases redo) (auto simp: can_redo_def can_undo_def Let_def)
qed

theorem history_refines_unbounded_witness:
  "echo_replay () (last [[1], [2, 2]]) = Inr [2, 2]"
  using history_refines_unbounded[OF two_steps_run _ two_steps_undone[unfolded undo_history_def]]
  by (simp add: example_limits_def usize_max_def)

text \<open>
  With room for the current session an undo loses nothing: a redo that gives back the
  session it returned restores the history exactly and replays the session that was current.
\<close>

theorem undo_then_redo_restores:
  fixes replay :: "'a \<Rightarrow> bytes \<Rightarrow> 'e + 'r"
  assumes wf: "history_wf h" and undone: "undo_history replay h current admission = (h', Inr (Some r))"
    and room: "length (hs_redo h) < hl_snapshots (hs_limits h)"
      "hs_retained h + length current \<le> hl_bytes (hs_limits h) + length (last (hs_undo h))"
    and current: "replay admission' current = Inr r'"
  shows "redo_history replay h' (last (hs_undo h)) admission' = (h, Inr (Some r'))"
proof -
  let ?t = "last (hs_undo h)" and ?l = "hs_limits h"
  from navigate_cases[OF wf undone[unfolded undo_history_def]] have some: "hs_undo h \<noteq> []" by auto
  note bytes = stack_bytes_last[OF some]
  have sizes: "length ?t \<le> hs_retained h" "length ?t \<le> hl_bytes ?l" "length (hs_undo h) \<le> hl_snapshots ?l"
    "hs_retained h \<le> hl_bytes ?l" "hl_bytes ?l \<le> usize_max"
    using wf bytes by (auto simp: history_wf_def)
  define h1 where "h1 = h \<lparr>hs_undo := butlast (hs_undo h), hs_redo := hs_redo h @ [current],
      hs_retained := hs_retained h - length ?t + length current\<rparr>"
  have "history_wf h1" using wf bytes room sizes by (auto simp: h1_def history_wf_def)
  then have "enforce_limits h1 = Some h1" by (rule enforce_limits_idle)
  with undone some have h': "h' = h1"
    by (auto simp: undo_history_def navigate_def last_snapshot_def h1_def exchange_bytes_Inr split: sum.splits)
  have restored: "h1 \<lparr>hs_redo := butlast (hs_redo h1), hs_undo := hs_undo h1 @ [?t], hs_retained := hs_retained h\<rparr> = h"
    by (simp add: h1_def some)
  have "enforce_limits h = Some h" using wf by (rule enforce_limits_idle)
  moreover have "require_snapshot_size h1 ?t = (Inr () :: 'e history_error + unit)"
    using sizes by (simp add: require_snapshot_size_def h1_def)
  moreover have "exchange_bytes (hs_retained h1) (length current) (length ?t) = (Inr (hs_retained h) :: 'e history_error + nat)"
    using sizes by (simp add: exchange_bytes_Inr h1_def)
  moreover have "last_snapshot (hs_redo h1) = Some current" by (simp add: last_snapshot_def h1_def)
  ultimately show ?thesis
    by (simp add: redo_history_def navigate_def h' replay_snapshot_def current restored del: and_then_Inr)
qed

theorem undo_then_redo_restores_witness:
  "redo_history echo_replay one_back [2, 2] () = (two_steps, Inr (Some [3]))"
  using undo_then_redo_restores[OF two_steps_wf two_steps_undone, of "()" "[3]"]
  by (simp add: two_steps_def example_limits_def echo_replay_def)

end
