(* ===== verification/Workspace_Wire.thy ===== *)
theory Workspace_Wire
  imports Workspace Session_History
begin

text \<open>
  The workspace on the wire and its navigation history: the \<^verbatim>\<open>ALGW\<close> envelope of
  \<^verbatim>\<open>graph/workspace.rs\<close>, which embeds the canonical bytes of the graph, and
  \<^verbatim>\<open>GraphWorkspaceHistory\<close>, which stores such envelopes. Replay accepts exactly the encodings of
  well-formed workspaces, and undoing after an edit gives back the recorded workspace.
\<close>

section \<open>Encoder and decoder\<close>

text \<open>
  The module has readers of its own, which differ from those of the graph format in their error only.
  \<^verbatim>\<open>i32::to_le_bytes\<close> writes the bits of the word.
\<close>

definition ws_take :: "nat \<Rightarrow> bytes \<Rightarrow> workspace_error + bytes \<times> bytes" where
  "ws_take n bs = (if n > length bs then Inl WS_Truncated else Inr (take n bs, drop n bs))"

definition ws_u16 :: "bytes \<Rightarrow> workspace_error + u16 \<times> bytes" where
  "ws_u16 bs = and_then (ws_take 2 bs) (\<lambda>(a, bs). Inr (word_of_nat (nat_from_le a), bs))"

definition ws_u32 :: "bytes \<Rightarrow> workspace_error + u32 \<times> bytes" where
  "ws_u32 bs = and_then (ws_take 4 bs) (\<lambda>(a, bs). Inr (word_of_nat (nat_from_le a), bs))"

definition ws_i32 :: "bytes \<Rightarrow> workspace_error + i32 \<times> bytes" where
  "ws_i32 bs = and_then (ws_take 4 bs) (\<lambda>(a, bs). Inr (word_of_nat (nat_from_le a), bs))"

definition ws_u64 :: "bytes \<Rightarrow> workspace_error + u64 \<times> bytes" where
  "ws_u64 bs = and_then (ws_take 8 bs) (\<lambda>(a, bs). Inr (word_of_nat (nat_from_le a), bs))"

definition put_i32 :: "i32 \<Rightarrow> bytes" where
  "put_i32 v = nat_to_le 4 (unat v)"

definition workspace_magic :: bytes where
  "workspace_magic = [65, 76, 71, 87]"

definition workspace_version :: u16 where
  "workspace_version = 1"

definition workspace_flags :: u16 where
  "workspace_flags = 0"

definition put_ws_limit :: "nat \<Rightarrow> workspace_error + bytes" where
  "put_ws_limit v = (if v \<le> u64_max then Inr (put_u64 (word_of_nat v)) else Inl (WS_IntegerOverflow ''limit value''))"

definition encode_workspace_limits :: "workspace_limits \<Rightarrow> workspace_error + bytes" where
  "encode_workspace_limits l =
     write_each put_ws_limit [wl_bytes l, wl_placements l, unat (wl_coordinate l)]"

definition get_ws_limit :: "bytes \<Rightarrow> workspace_error + nat \<times> bytes" where
  "get_ws_limit bs = and_then (ws_u64 bs) (\<lambda>(v, bs).
     if unat v \<le> usize_max then Inr (unat v, bs) else Inl (WS_IntegerOverflow ''limit value''))"

definition decode_workspace_limits :: "bytes \<Rightarrow> workspace_error + workspace_limits \<times> bytes" where
  "decode_workspace_limits bs = and_then (read_each get_ws_limit 3 bs) (\<lambda>(values, bs).
     if values ! 2 > u32_max then Inl (WS_IntegerOverflow ''coordinate limit'')
     else Inr (\<lparr>wl_bytes = values ! 0, wl_placements = values ! 1, wl_coordinate = word_of_nat (values ! 2)\<rparr>, bs))"

definition workspace_limits_within :: "workspace_limits \<Rightarrow> workspace_limits \<Rightarrow> bool" where
  "workspace_limits_within embedded admission \<longleftrightarrow>
     wl_bytes embedded \<le> wl_bytes admission \<and> wl_placements embedded \<le> wl_placements admission
     \<and> wl_coordinate embedded \<le> wl_coordinate admission"

definition encode_embedded_graph :: "canonical_encoding \<Rightarrow> workspace_error + bytes" where
  "encode_embedded_graph e =
     (if length (ce_bytes e) \<le> u32_max then Inr (put_u32 (word_of_nat (length (ce_bytes e))) @ ce_bytes e)
      else Inl (WS_IntegerOverflow ''embedded graph length''))"

definition put_placement :: "node_placement \<Rightarrow> workspace_error + bytes" where
  "put_placement p = Inr (put_u32 (pl_node p) @ put_i32 (pl_x p) @ put_i32 (pl_y p))"

definition get_placement :: "bytes \<Rightarrow> workspace_error + node_placement \<times> bytes" where
  "get_placement bs =
     and_then (ws_u32 bs) (\<lambda>(i, bs).
     and_then (ws_i32 bs) (\<lambda>(x, bs).
     and_then (ws_i32 bs) (\<lambda>(y, bs).
     Inr (\<lparr>pl_node = i, pl_x = x, pl_y = y\<rparr>, bs))))"

section \<open>The envelope\<close>

text \<open>The parts in the order in which the encoder appends them.\<close>

definition workspace_layout :: "'q graph_workspace \<Rightarrow> bytes \<Rightarrow> bytes \<Rightarrow> bytes \<Rightarrow> bytes" where
  "workspace_layout W limits embedded placements =
     workspace_magic @ put_u16 workspace_version @ put_u16 workspace_flags @ limits
       @ put_u64 (gw_revision W) @ put_u64 (gw_next_node W) @ put_u64 (gw_next_wire W) @ embedded
       @ put_u32 (word_of_nat (length (gw_placements W))) @ placements"

definition encode_graph_workspace ::
  "'q external_api \<Rightarrow> 'q graph_workspace \<Rightarrow> workspace_error + canonical_encoding" where
  "encode_graph_workspace R W =
     and_then (map_err WS_GraphWire (encode_graph_document R (gw_graph W))) (\<lambda>graph.
     if ce_digest graph \<noteq> gw_digest W then Inl WS_NonCanonical
     else and_then (encode_workspace_limits (gw_limits W)) (\<lambda>limits.
     and_then (encode_embedded_graph graph) (\<lambda>embedded.
     if length (gw_placements W) > u32_max then Inl (WS_IntegerOverflow ''placement count'')
     else and_then (write_each put_placement (gw_placements W)) (\<lambda>placements.
     let bs = workspace_layout W limits embedded placements in
     if length bs > wl_bytes (gw_limits W) then Inl (WS_LimitExceeded ''document byte length'')
     else Inr \<lparr>ce_bytes = bs, ce_digest = ext_sha256 R bs\<rparr>))))"

record 'q workspace_replay =
  wr_document :: "'q graph_workspace"
  wr_encoding :: canonical_encoding

definition replay_graph_workspace ::
  "'q external_api \<Rightarrow> bytes \<Rightarrow> workspace_limits \<Rightarrow> graph_limits \<Rightarrow> workspace_error + 'q workspace_replay" where
  "replay_graph_workspace R bytes workspace_admission graph_admission =
     and_then (validate_workspace_limits workspace_admission) (\<lambda>_.
     if length bytes > wl_bytes workspace_admission
     then Inl (WS_LimitExceeded ''admitted document byte length'')
     else and_then (ws_take (length workspace_magic) bytes) (\<lambda>(magic, bs).
     if magic \<noteq> workspace_magic then Inl WS_InvalidMagic
     else and_then (ws_u16 bs) (\<lambda>(version, bs).
     if version \<noteq> workspace_version then Inl (WS_UnsupportedVersion version)
     else and_then (ws_u16 bs) (\<lambda>(flags, bs).
     if flags \<noteq> workspace_flags then Inl (WS_UnsupportedFlags flags)
     else and_then (decode_workspace_limits bs) (\<lambda>(limits, bs).
     if \<not> workspace_limits_within limits workspace_admission
     then Inl (WS_LimitExceeded ''embedded admission limit'')
     else and_then (validate_workspace_limits limits) (\<lambda>_.
     if length bytes > wl_bytes limits then Inl (WS_LimitExceeded ''embedded document byte length'')
     else and_then (ws_u64 bs) (\<lambda>(revision, bs).
     and_then (ws_u64 bs) (\<lambda>(next_node, bs).
     and_then (ws_u64 bs) (\<lambda>(next_wire, bs).
     and_then (ws_u32 bs) (\<lambda>(graph_length, bs).
     if unat graph_length > usize_max then Inl (WS_IntegerOverflow ''embedded graph length'')
     else and_then (ws_take (unat graph_length) bs) (\<lambda>(graph_bytes, bs).
     and_then (map_err WS_GraphWire (replay_graph_document R graph_bytes graph_admission)) (\<lambda>graph.
     and_then (ws_u32 bs) (\<lambda>(placement_count, bs).
     if unat placement_count > usize_max then Inl (WS_IntegerOverflow ''placement count'')
     else if unat placement_count > wl_placements limits then Inl (WS_LimitExceeded ''placement count'')
     else and_then (read_each get_placement (unat placement_count) bs) (\<lambda>(placements, bs).
     if bs \<noteq> [] then Inl WS_TrailingBytes
     else and_then (try_new_workspace R limits revision next_node next_wire (gr_document graph) placements) (\<lambda>document.
     and_then (encode_graph_workspace R document) (\<lambda>encoding.
     if ce_bytes encoding \<noteq> bytes then Inl WS_NonCanonical
     else Inr \<lparr>wr_document = document, wr_encoding = encoding\<rparr>))))))))))))))))"

section \<open>The codecs are exact\<close>

text \<open>The readers succeed exactly where those of the graph format do.\<close>

lemma ws_take_Inr [simp]: "ws_take n bs = Inr (a, rest) \<longleftrightarrow> length a = n \<and> bs = a @ rest"
  by (auto simp: ws_take_def)

lemma ws_take_append: "length a = n \<Longrightarrow> ws_take n (a @ bs) = Inr (a, bs)"
  by simp

lemma ws_reader:
  "and_then (ws_take n bs) (\<lambda>(a, bs). Inr (f a, bs)) = Inr (v, rest) \<longleftrightarrow>
     and_then (get_take n bs) (\<lambda>(a, bs). Inr (f a, bs)) = Inr (v, rest)"
  by auto

lemma ws_u16_Inr: "ws_u16 bs = Inr (v, rest) \<longleftrightarrow> bs = put_u16 v @ rest"
  unfolding ws_u16_def ws_reader get_u16_def[symmetric] by (rule get_u16_Inr)

lemma ws_u32_Inr: "ws_u32 bs = Inr (v, rest) \<longleftrightarrow> bs = put_u32 v @ rest"
  unfolding ws_u32_def ws_reader get_u32_def[symmetric] by (rule get_u32_Inr)

lemma ws_i32_Inr: "ws_i32 bs = Inr (v, rest) \<longleftrightarrow> bs = put_i32 v @ rest"
  using ws_u32_Inr[of bs v rest] by (simp add: ws_i32_def ws_u32_def put_i32_def put_u32_def)

lemma ws_u64_Inr: "ws_u64 bs = Inr (v, rest) \<longleftrightarrow> bs = put_u64 v @ rest"
  unfolding ws_u64_def ws_reader get_u64_def[symmetric] by (rule get_u64_Inr)

lemmas ws_readers_Inr = ws_u16_Inr ws_u32_Inr ws_i32_Inr ws_u64_Inr

lemma ws_readers_put [codec, simp]:
  "ws_u16 (put_u16 a @ rest) = Inr (a, rest)" "ws_u32 (put_u32 b @ rest) = Inr (b, rest)"
  "ws_i32 (put_i32 c @ rest) = Inr (c, rest)" "ws_u64 (put_u64 d @ rest) = Inr (d, rest)"
  by (simp_all add: ws_readers_Inr)

interpretation ws_limit_codec: exact_codec put_ws_limit get_ws_limit "\<lambda>v. v \<le> usize_max"
proof unfold_locales
  fix v b rest
  assume "v \<le> usize_max" and "put_ws_limit v = Inr b"
  then show "get_ws_limit (b @ rest) = Inr (v, rest)" by (auto simp: put_ws_limit_def get_ws_limit_def unat_limit split: if_splits)
next
  fix bs v rest
  assume "get_ws_limit bs = Inr (v, rest)"
  then obtain w where "ws_u64 bs = Inr (w, rest)" "unat w = v" "v \<le> usize_max"
    by (auto simp: get_ws_limit_def split: if_splits)
  then show "v \<le> usize_max \<and> (\<exists>used. put_ws_limit v = Inr used \<and> bs = used @ rest)"
    using unat_u64_le[of w] by (auto simp: put_ws_limit_def ws_u64_Inr)
qed

text \<open>What \<^verbatim>\<open>usize\<close> guarantees of a policy.\<close>

definition limits_representable :: "workspace_limits \<Rightarrow> bool" where
  "limits_representable l \<longleftrightarrow> wl_bytes l \<le> usize_max \<and> wl_placements l \<le> usize_max"

lemma unat_coordinate: "unat (wl_coordinate l) \<le> usize_max"
  using unat_u32_le[of "wl_coordinate l"] u32_max_le_usize_max by linarith

interpretation ws_limits_codec: exact_codec encode_workspace_limits decode_workspace_limits limits_representable
proof unfold_locales
  fix l b rest
  assume l: "limits_representable l" and "encode_workspace_limits l = Inr b"
  then have "read_each get_ws_limit 3 (b @ rest) = Inr ([wl_bytes l, wl_placements l, unat (wl_coordinate l)], rest)"
    using ws_limit_codec.read_write_each[of "[wl_bytes l, wl_placements l, unat (wl_coordinate l)]" b rest]
      unat_coordinate[of l]
    by (simp add: encode_workspace_limits_def limits_representable_def numeral_eq_Suc del: read_each.simps)
  then show "decode_workspace_limits (b @ rest) = Inr (l, rest)"
    using unat_u32_le[of "wl_coordinate l"] by (simp add: decode_workspace_limits_def numeral_eq_Suc del: read_each.simps)
next
  fix bs l rest
  assume "decode_workspace_limits bs = Inr (l, rest)"
  then obtain vs where vs: "read_each get_ws_limit 3 bs = Inr (vs, rest)" "vs ! 2 \<le> u32_max"
    and l: "l = \<lparr>wl_bytes = vs ! 0, wl_placements = vs ! 1, wl_coordinate = word_of_nat (vs ! 2)\<rparr>"
    by (auto simp: decode_workspace_limits_def split: if_splits)
  from ws_limit_codec.write_read_each[OF vs(1)] have read: "length vs = 3" "\<forall>v \<in> set vs. v \<le> usize_max"
    "\<exists>used. write_each put_ws_limit vs = Inr used \<and> bs = used @ rest" by blast+
  have "vs = [vs ! 0, vs ! 1, vs ! 2]" using read(1) by (auto simp: numeral_eq_Suc length_Suc_conv)
  then have "vs = [wl_bytes l, wl_placements l, unat (wl_coordinate l)]" by (simp add: l unat_count[OF vs(2)])
  then show "limits_representable l \<and> (\<exists>used. encode_workspace_limits l = Inr used \<and> bs = used @ rest)"
    using read(2,3) by (simp add: encode_workspace_limits_def limits_representable_def)
qed

interpretation placement_codec: exact_codec put_placement get_placement "\<lambda>_. True"
proof unfold_locales
  fix p b rest
  assume "put_placement p = Inr b"
  then show "get_placement (b @ rest) = Inr (p, rest)"
    by (auto simp: put_placement_def get_placement_def simp del: and_then_Inr)
qed (auto simp: put_placement_def get_placement_def ws_readers_Inr)

lemma put_placements_total: "\<exists>b. write_each put_placement ps = Inr b"
  by (induction ps) (auto simp: put_placement_def)

section \<open>Replay\<close>

lemma validate_workspace_limits_accepts [simp]: "limits_ok l \<Longrightarrow> validate_workspace_limits l = Inr ()"
  by simp

lemma encode_graph_workspace_Inr:
  "encode_graph_workspace R W = Inr e \<longleftrightarrow>
     (\<exists>g limits placements. encode_graph_document R (gw_graph W) = Inr g \<and> ce_digest g = gw_digest W
        \<and> encode_workspace_limits (gw_limits W) = Inr limits \<and> length (ce_bytes g) \<le> u32_max
        \<and> length (gw_placements W) \<le> u32_max \<and> write_each put_placement (gw_placements W) = Inr placements
        \<and> ce_bytes e = workspace_layout W limits (put_u32 (word_of_nat (length (ce_bytes g))) @ ce_bytes g) placements
        \<and> length (ce_bytes e) \<le> wl_bytes (gw_limits W) \<and> ce_digest e = ext_sha256 R (ce_bytes e))"
proof -
  have eq: "\<lparr>ce_bytes = b, ce_digest = ext_sha256 R b\<rparr> = e \<longleftrightarrow> ce_bytes e = b \<and> ce_digest e = ext_sha256 R (ce_bytes e)"
    for b by (cases e) auto
  show ?thesis
    by (rule iffI) (fastforce simp: encode_graph_workspace_def encode_embedded_graph_def Let_def eq not_less split: if_split_asm)+
qed

text \<open>A workspace that the constructors build, with field values of the source's types.\<close>

definition workspace_storable :: "'q external_api \<Rightarrow> 'q graph_workspace \<Rightarrow> bool" where
  "workspace_storable R W \<longleftrightarrow> workspace_wf R W \<and> constructed R (gw_graph W) \<and> representable R (gw_graph W)
     \<and> limits_representable (gw_limits W)"

definition workspace_admitted :: "'q graph_workspace \<Rightarrow> workspace_limits \<Rightarrow> graph_limits \<Rightarrow> bool" where
  "workspace_admitted W wa ga \<longleftrightarrow> limits_ok wa \<and> workspace_limits_within (gw_limits W) wa
     \<and> 0 \<notin> set (limit_values ga) \<and> limits_within (gs_limits (gd_schema (gw_graph W))) ga"

lemma rebuild_workspace:
  assumes "workspace_wf R W"
  shows "try_new_workspace R (gw_limits W) (gw_revision W) (gw_next_node W) (gw_next_wire W) (gw_graph W) (gw_placements W) = Inr W"
  using assms workspace_sorted_all(3)[OF assms] by (simp add: try_new_workspace_Inr[OF workspace_wf_document])

lemma replay_workspace_encoded:
  assumes W: "workspace_storable R W" and adm: "workspace_admitted W wa ga" and e: "encode_graph_workspace R W = Inr e"
  shows "replay_graph_workspace R (ce_bytes e) wa ga = Inr \<lparr>wr_document = W, wr_encoding = e\<rparr>"
proof -
  from e[unfolded encode_graph_workspace_Inr] obtain g limits placements where
    g: "encode_graph_document R (gw_graph W) = Inr g" and limits: "encode_workspace_limits (gw_limits W) = Inr limits"
    and count: "length (ce_bytes g) \<le> u32_max" "length (gw_placements W) \<le> u32_max"
    and placements: "write_each put_placement (gw_placements W) = Inr placements"
    and bytes: "ce_bytes e = workspace_layout W limits (put_u32 (word_of_nat (length (ce_bytes g))) @ ce_bytes g) placements"
    and len: "length (ce_bytes e) \<le> wl_bytes (gw_limits W)" by blast
  have wf: "workspace_wf R W" using W by (simp add: workspace_storable_def)
  have graph: "replay_graph_document R (ce_bytes g) ga = Inr \<lparr>gr_document = gw_graph W, gr_encoding = g\<rparr>"
    using W adm g by (simp add: replay_iff workspace_storable_def workspace_admitted_def)
  have "decode_workspace_limits (limits @ rest) = Inr (gw_limits W, rest)" for rest
    using ws_limits_codec.decode_encode[OF _ limits] W by (simp add: workspace_storable_def)
  moreover have "read_each get_placement (length (gw_placements W)) placements = Inr (gw_placements W, [])"
    using placement_codec.read_write_each[of "gw_placements W" placements "[]"] placements by simp
  moreover have "\<not> usize_max < length (ce_bytes g)" "\<not> usize_max < length (gw_placements W)"
    using count u32_max_le_usize_max by linarith+
  moreover have "length (gw_placements W) \<le> wl_placements (gw_limits W)" "limits_ok (gw_limits W)"
    using wf by (simp_all add: workspace_wf_def)
  moreover have "limits_ok wa" "workspace_limits_within (gw_limits W) wa" "length (ce_bytes e) \<le> wl_bytes wa"
    using adm len by (auto simp: workspace_admitted_def workspace_limits_within_def)
  ultimately show ?thesis
    unfolding replay_graph_workspace_def
    using graph rebuild_workspace[OF wf] e len count
    by (simp add: bytes workspace_layout_def unat_count not_less ws_take_append del: and_then_Inr and_then_Inl ws_take_Inr)
qed

lemma replay_workspace_accepts:
  assumes "replay_graph_workspace R bytes wa ga = Inr rep"
  shows "workspace_storable R (wr_document rep) \<and> workspace_admitted (wr_document rep) wa ga
    \<and> encode_graph_workspace R (wr_document rep) = Inr (wr_encoding rep) \<and> ce_bytes (wr_encoding rep) = bytes"
proof -
  from assms obtain l bs1 bs2 g gbytes r nn nw pls e W where
    wa: "limits_ok wa" and l: "decode_workspace_limits bs1 = Inr (l, bs2)" "workspace_limits_within l wa"
    and g: "replay_graph_document R gbytes ga = Inr g"
    and W: "try_new_workspace R l r nn nw (gr_document g) pls = Inr W"
    and e: "encode_graph_workspace R W = Inr e" "ce_bytes e = bytes" "rep = \<lparr>wr_document = W, wr_encoding = e\<rparr>"
    by (auto simp: replay_graph_workspace_def simp del: ws_take_Inr split: if_split_asm)
  from g[unfolded replay_iff] have graph: "constructed R (gr_document g)" "representable R (gr_document g)"
    "0 \<notin> set (limit_values ga)" "limits_within (gs_limits (gd_schema (gr_document g))) ga" by blast+
  from W[unfolded try_new_workspace_Inr[OF constructed_wf(2)[OF graph(1)]]] have
    "workspace_wf R W" "gw_limits W = l" "gw_graph W = gr_document g" by blast+
  moreover have "limits_representable l" using ws_limits_codec.encode_decode[OF l(1)] by blast
  ultimately show ?thesis
    using graph wa l(2) e by (simp add: workspace_storable_def workspace_admitted_def)
qed

lemma replay_workspace_iff:
  "replay_graph_workspace R bytes wa ga = Inr rep \<longleftrightarrow>
     workspace_storable R (wr_document rep) \<and> workspace_admitted (wr_document rep) wa ga
     \<and> encode_graph_workspace R (wr_document rep) = Inr (wr_encoding rep) \<and> ce_bytes (wr_encoding rep) = bytes"
proof
  assume ok: "workspace_storable R (wr_document rep) \<and> workspace_admitted (wr_document rep) wa ga
     \<and> encode_graph_workspace R (wr_document rep) = Inr (wr_encoding rep) \<and> ce_bytes (wr_encoding rep) = bytes"
  then have "replay_graph_workspace R (ce_bytes (wr_encoding rep)) wa ga
    = Inr \<lparr>wr_document = wr_document rep, wr_encoding = wr_encoding rep\<rparr>"
    by (intro replay_workspace_encoded) blast+
  with ok show "replay_graph_workspace R bytes wa ga = Inr rep" by simp
qed (rule replay_workspace_accepts)

text \<open>Edits keep what the file format needs.\<close>

lemma edited_constructed:
  assumes "constructed R (gw_graph W)" and "workspace_wf R W'" and "gd_schema (gw_graph W') = gd_schema (gw_graph W)"
  shows "constructed R (gw_graph W')"
proof -
  note wf = workspace_wf_document[OF assms(2)]
  have "try_new_document R (gd_revision (gw_graph W')) (gd_schema (gw_graph W')) (gd_clocks (gw_graph W'))
      (gd_nodes (gw_graph W')) (gd_wires (gw_graph W')) = Inr (gw_graph W')"
    unfolding try_new_document_Inr using canonical_document_fixed[OF wf] wf by simp
  then show ?thesis using assms(1,3) unfolding constructed_def by auto
qed

section \<open>Navigation history\<close>

text \<open>
  \<^verbatim>\<open>GraphWorkspaceHistory\<close> keeps encodings, of which its operations read the bytes only (the
  digest is a function of them). Its bookkeeping is that of \<open>session_history\<close>, line by line; its operations differ
  in that the current workspace is encoded inside, after the target has been replayed.
\<close>

definition interactive_workspace_history :: history_limits where
  "interactive_workspace_history = \<lparr>hl_snapshots = 32, hl_bytes = 64 * 1024 * 1024\<rparr>"

definition replay_admitted ::
  "'q external_api \<Rightarrow> workspace_limits \<times> graph_limits \<Rightarrow> bytes \<Rightarrow> workspace_error + 'q workspace_replay" where
  "replay_admitted R admission bs = replay_graph_workspace R bs (fst admission) (snd admission)"

definition workspace_record ::
  "session_history \<Rightarrow> canonical_encoding \<Rightarrow> session_history \<times> (workspace_error history_error + unit)" where
  "workspace_record h prior = record_snapshot h (ce_bytes prior)"

definition workspace_navigate ::
  "'q external_api \<Rightarrow> session_history \<Rightarrow> 'q graph_workspace \<Rightarrow> workspace_limits \<Rightarrow> graph_limits \<Rightarrow> bool
     \<Rightarrow> session_history \<times> (workspace_error history_error + 'q workspace_replay option)" where
  "workspace_navigate R h current wa ga redo =
     (case last_snapshot (if redo then hs_redo h else hs_undo h) of
        None \<Rightarrow> (h, Inr None)
      | Some target \<Rightarrow>
          (case and_then (map_err HE_Session (replay_graph_workspace R target wa ga)) (\<lambda>_.
                map_err HE_Session (encode_graph_workspace R current)) of
             Inl e \<Rightarrow> (h, Inl e)
           | Inr encoded \<Rightarrow> navigate (replay_admitted R) h (ce_bytes encoded) (wa, ga) redo))"

definition workspace_undo ::
  "'q external_api \<Rightarrow> session_history \<Rightarrow> 'q graph_workspace \<Rightarrow> workspace_limits \<Rightarrow> graph_limits
     \<Rightarrow> session_history \<times> (workspace_error history_error + 'q workspace_replay option)" where
  "workspace_undo R h current wa ga = workspace_navigate R h current wa ga False"

definition workspace_redo ::
  "'q external_api \<Rightarrow> session_history \<Rightarrow> 'q graph_workspace \<Rightarrow> workspace_limits \<Rightarrow> graph_limits
     \<Rightarrow> session_history \<times> (workspace_error history_error + 'q workspace_replay option)" where
  "workspace_redo R h current wa ga = workspace_navigate R h current wa ga True"

definition workspace_preview_undo ::
  "'q external_api \<Rightarrow> session_history \<Rightarrow> workspace_limits \<Rightarrow> graph_limits
     \<Rightarrow> workspace_error history_error + 'q workspace_replay option" where
  "workspace_preview_undo R h wa ga = preview_undo (replay_admitted R) h (wa, ga)"

definition workspace_preview_redo ::
  "'q external_api \<Rightarrow> session_history \<Rightarrow> workspace_limits \<Rightarrow> graph_limits
     \<Rightarrow> workspace_error history_error + 'q workspace_replay option" where
  "workspace_preview_redo R h wa ga = preview_redo (replay_admitted R) h (wa, ga)"

section \<open>Room for saving\<close>

lemma write_placements_length:
  "write_each put_placement ps = Inr b \<Longrightarrow> length b = 12 * length ps"
  by (induction ps arbitrary: b) (auto simp: put_placement_def put_u32_def put_i32_def)

lemma encode_limits_total:
  "limits_representable l \<Longrightarrow> \<exists>b. encode_workspace_limits l = Inr b \<and> length b = 24"
  using unat_coordinate[of l]
  by (auto simp: encode_workspace_limits_def put_ws_limit_def limits_representable_def usize_max_def u64_max_def put_u64_def)

lemma workspace_saves:
  assumes wf: "workspace_wf R W" and limits: "limits_representable (gw_limits W)"
    and graph: "maximum_document_bytes (gs_limits (gd_schema (gw_graph W))) \<le> u32_max"
    and count: "wl_placements (gw_limits W) \<le> u32_max"
    and room: "maximum_document_bytes (gs_limits (gd_schema (gw_graph W))) + 12 * wl_placements (gw_limits W) + 64
      \<le> wl_bytes (gw_limits W)"
  shows "\<exists>e. encode_graph_workspace R W = Inr e"
proof -
  from wf obtain g where g: "encode_graph_document R (gw_graph W) = Inr g" "ce_digest g = gw_digest W"
    by (auto simp: workspace_wf_def)
  from encode_limits_total[OF limits] obtain l where l: "encode_workspace_limits (gw_limits W) = Inr l" "length l = 24" by blast
  obtain p where p: "write_each put_placement (gw_placements W) = Inr p" using put_placements_total by blast
  have gb: "length (ce_bytes g) \<le> maximum_document_bytes (gs_limits (gd_schema (gw_graph W)))"
    using g(1) by (auto simp: encode_graph_document_Inr)
  have pl: "length (gw_placements W) \<le> wl_placements (gw_limits W)" using wf by (simp add: workspace_wf_def)
  let ?b = "workspace_layout W l (put_u32 (word_of_nat (length (ce_bytes g))) @ ce_bytes g) p"
  have "length ?b = 64 + length (ce_bytes g) + 12 * length (gw_placements W)"
    by (simp add: workspace_layout_def workspace_magic_def put_u16_def put_u32_def put_u64_def l(2)
        write_placements_length[OF p])
  then have "length ?b \<le> wl_bytes (gw_limits W)" using room gb pl by linarith
  then have "encode_graph_workspace R W = Inr \<lparr>ce_bytes = ?b, ce_digest = ext_sha256 R ?b\<rparr>"
    unfolding encode_graph_workspace_Inr using g l p gb graph pl count by (intro exI[of _ g] exI[of _ l] exI[of _ p]) simp
  then show ?thesis by blast
qed

section \<open>The concrete workspace is storable\<close>

lemma pair_schema_accepted:
  "try_new_schema R interactive_limits [] (gs_types pair_schema) = Inr (pair_schema :: 'q graph_schema)"
proof -
  let ?S = "pair_schema :: 'q graph_schema"
  have "visit_type ?S 0 1 [0, 0] = Inr [2, 0]" "visit_type ?S 1 1 [2, 0] = Inr [2, 2]"
    by (simp_all add: pair_schema_def visit_type.simps evaluate_types evaluate_limits ok_or_def cong: and_then_weak_cong)
  moreover have "is_ok (try_fold (validate_type_step R ?S) ({}, None) (gs_types ?S))"
    by (simp add: pair_schema_def evaluate_types evaluate_names ok_or_def evaluate_limits validate_u32_limit_def usize_max_def
        cong: and_then_weak_cong)
  ultimately have "validate_types R ?S = Inr ()"
    by (auto simp: validate_types_def is_ok_iff pair_schema_def upt_rec numeral_2_eq_2 ex_unit)
  moreover have "validate_units R ?S = Inr ()" by (simp add: validate_units_def pair_schema_def)
  moreover have "canonical_schema interactive_limits [] (gs_types ?S) = ?S"
    by (simp add: canonical_schema_def pair_schema_def example_type_def)
  ultimately show ?thesis by (simp add: try_new_schema_Inr) (simp add: evaluate_limits pair_schema_def)
qed

lemma example_workspace_storable: "workspace_storable R (example_workspace R :: 'q graph_workspace)"
proof -
  have "try_new_document R 7 pair_schema (gd_clocks (example_graph 7 1)) (gd_nodes (example_graph 7 1))
      (gd_wires (example_graph 7 1)) = Inr (example_graph 7 1 :: 'q graph_document)"
    unfolding try_new_document_Inr
    using canonical_document_fixed[OF example_graph_wf[of 1 R 7]] example_graph_wf[of 1 R 7]
    by (simp add: example_graph_parts)
  then have "constructed R (example_graph 7 1 :: 'q graph_document)"
    using pair_schema_accepted unfolding constructed_def example_graph_parts by blast
  moreover have "representable R (example_graph 7 1 :: 'q graph_document)"
    by (simp add: representable_def example_graph_parts pair_schema_def example_type_def example_clocks_def
        example_nodes_def node_representable_def pair_value_def evaluate_limits usize_max_def)
  ultimately show ?thesis
    using example_workspace_wf[of R]
    by (simp add: workspace_storable_def limits_representable_def)
      (simp add: example_workspace_def interactive_workspace_limits_def usize_max_def)
qed

definition saved_example :: "'q external_api \<Rightarrow> canonical_encoding" where
  "saved_example R = projr (encode_graph_workspace R (example_workspace R))"

lemma example_rooms:
  "maximum_document_bytes (gs_limits pair_schema) = 16777216" "gw_limits (example_workspace R) = interactive_workspace_limits"
  "gd_schema (gw_graph (example_workspace R)) = pair_schema"
  by (simp_all add: pair_schema_def interactive_limits_def example_workspace_def example_graph_parts)

lemma example_saves:
  fixes W :: "'q graph_workspace"
  assumes "workspace_wf R W" and "gw_limits W = interactive_workspace_limits" and "gd_schema (gw_graph W) = pair_schema"
  shows "\<exists>e. encode_graph_workspace R W = Inr e"
  by (rule workspace_saves[OF assms(1)])
    (simp_all add: assms(2,3) example_rooms interactive_workspace_limits_def limits_representable_def usize_max_def u32_max_def)

lemma saved_example: "encode_graph_workspace R (example_workspace R) = Inr (saved_example R)"
  using example_saves[OF example_workspace_wf[of R] example_rooms(2,3)] by (auto simp: saved_example_def)

lemma example_admitted:
  "workspace_admitted (example_workspace R) interactive_workspace_limits interactive_limits"
  by (simp add: workspace_admitted_def example_rooms limits_ok_def workspace_limits_within_def interactive_workspace_limits_def
      pair_schema_limits limits_within_def evaluate_limits)

definition recorded_example :: "'q external_api \<Rightarrow> session_history" where
  "recorded_example R = fst (workspace_record \<lparr>hs_limits = interactive_workspace_history, hs_undo = [], hs_redo = [],
     hs_retained = 0\<rparr> (saved_example R))"

lemma saved_example_fits:
  assumes "encode_graph_workspace R W = Inr e" and "gw_limits W = interactive_workspace_limits"
  shows "length (ce_bytes e) \<le> hl_bytes interactive_workspace_history"
proof -
  have "length (ce_bytes e) \<le> wl_bytes interactive_workspace_limits"
    using assms by (auto simp: encode_graph_workspace_Inr)
  then show ?thesis by (simp add: interactive_workspace_limits_def interactive_workspace_history_def)
qed

lemma recorded_example:
  "workspace_record \<lparr>hs_limits = interactive_workspace_history, hs_undo = [], hs_redo = [], hs_retained = 0\<rparr> (saved_example R)
    = (recorded_example R, Inr ())"
proof -
  let ?h = "\<lparr>hs_limits = interactive_workspace_history, hs_undo = [], hs_redo = [], hs_retained = 0\<rparr>"
  have wf: "history_wf ?h" by (simp add: history_wf_def interactive_workspace_history_def usize_max_def)
  have fits: "length (ce_bytes (saved_example R)) \<le> hl_bytes interactive_workspace_history"
    by (rule saved_example_fits[OF saved_example example_rooms(2)])
  then have small: "length (ce_bytes (saved_example R)) \<le> usize_max"
    by (simp add: interactive_workspace_history_def usize_max_def)
  obtain h' result where step: "workspace_record ?h (saved_example R) = (h', result)" by fastforce
  have "snd (workspace_record ?h (saved_example R)) \<noteq> Inl HE_SnapshotTooLarge"
    "snd (workspace_record ?h (saved_example R)) \<noteq> Inl HE_ByteAccounting"
    using fits small
    by (auto simp: workspace_record_def record_snapshot_def require_snapshot_size_def snapshot_bytes_sum exchange_bytes_def
        Let_def split: option.splits if_splits sum.splits)
  with record_snapshot_cases[OF wf step[unfolded workspace_record_def]] step have "result = Inr ()" by auto
  then show ?thesis using step by (simp add: recorded_example_def)
qed

section \<open>Properties of the envelope and the history\<close>

text \<open>
  C16. \<^verbatim>\<open>replay_graph_workspace\<close> accepts an untrusted byte string exactly when it is the encoding
  of a well-formed workspace over a graph that the constructors build, with field values of the source's types, and both
  admission policies admit the embedded ones. It then returns that workspace with its encoding, so saving and
  loading are inverse, and no other bytes load: no truncation, no padding, no reordered placement, no stale digest.
\<close>

theorem workspace_replay_decides:
  "replay_graph_workspace R bytes wa ga = Inr rep \<longleftrightarrow>
     workspace_storable R (wr_document rep) \<and> workspace_admitted (wr_document rep) wa ga
     \<and> encode_graph_workspace R (wr_document rep) = Inr (wr_encoding rep) \<and> ce_bytes (wr_encoding rep) = bytes"
  by (rule replay_workspace_iff)

text \<open>
  Under the interactive policies a well-formed workspace can always be saved: the sixteen mebibytes of the
  graph, twelve bytes for each of at most 256 placements and 64 bytes of header fit into the twenty
  mebibytes of the envelope.
\<close>

theorem workspace_always_saves:
  assumes "workspace_wf R W" and "gw_limits W = interactive_workspace_limits"
    and "gs_limits (gd_schema (gw_graph W)) = interactive_limits"
  shows "\<exists>e. encode_graph_workspace R W = Inr e \<and> length (ce_bytes e) \<le> 20 * 1024 * 1024"
proof -
  have "\<exists>e. encode_graph_workspace R W = Inr e"
    by (rule workspace_saves[OF assms(1)])
      (simp_all add: assms(2,3) interactive_limits_def interactive_workspace_limits_def limits_representable_def
        usize_max_def u32_max_def)
  then show ?thesis using assms(2) by (auto simp: encode_graph_workspace_Inr interactive_workspace_limits_def)
qed

theorem workspace_always_saves_witness:
  "\<exists>e. encode_graph_workspace rat_api (example_workspace rat_api) = Inr e \<and> length (ce_bytes e) \<le> 20971520"
  using workspace_always_saves[OF example_workspace_wf example_rooms(2)] pair_schema_limits
  by (simp add: example_rooms(3))

text \<open>
  C17. Recording the workspace before an edit makes the edit undoable, whatever it did: undo returns exactly the
  recorded workspace, and a redo after it returns exactly the edited one. Neither is evicted in between.
\<close>

theorem undo_restores_workspace:
  assumes "history_wf h" and "2 * hl_bytes (hs_limits h) \<le> usize_max"
    and prior: "workspace_storable R W" "workspace_admitted W wa ga" "encode_graph_workspace R W = Inr prior"
    and recorded: "workspace_record h prior = (h1, Inr ())"
    and edited: "workspace_storable R W'" "workspace_admitted W' wa ga" "encode_graph_workspace R W' = Inr now"
    and fits: "length (ce_bytes now) \<le> hl_bytes (hs_limits h)"
  shows "\<exists>h2 h3. workspace_undo R h1 W' wa ga = (h2, Inr (Some \<lparr>wr_document = W, wr_encoding = prior\<rparr>))
    \<and> workspace_redo R h2 W wa ga = (h3, Inr (Some \<lparr>wr_document = W', wr_encoding = now\<rparr>))
    \<and> history_wf h2 \<and> history_wf h3"
proof -
  note step = recorded[unfolded workspace_record_def]
  from record_snapshot_cases[OF assms(1) step] have h1: "history_wf h1" "hs_limits h1 = hs_limits h" "hs_redo h1 = []" by auto
  have newest: "hs_undo h1 \<noteq> []" "last (hs_undo h1) = ce_bytes prior" using record_snapshot_newest[OF assms(1) step] by auto
  have replays: "replay_graph_workspace R (ce_bytes prior) wa ga = Inr \<lparr>wr_document = W, wr_encoding = prior\<rparr>"
    "replay_graph_workspace R (ce_bytes now) wa ga = Inr \<lparr>wr_document = W', wr_encoding = now\<rparr>"
    using replay_workspace_encoded prior edited by blast+
  have size: "length (ce_bytes prior) \<le> hl_bytes (hs_limits h)"
    using step by (auto simp: record_snapshot_def require_snapshot_size_def split: sum.splits if_splits)
  obtain h2 where h2: "navigate (replay_admitted R) h1 (ce_bytes now) (wa, ga) False
      = (h2, Inr (Some \<lparr>wr_document = W, wr_encoding = prior\<rparr>))" "history_wf h2" "hs_limits h2 = hs_limits h"
    using navigate_succeeds[of h1 False "replay_admitted R" "(wa, ga)" _ "ce_bytes now"] h1 newest replays(1) fits assms(2)
    by (auto simp: replay_admitted_def)
  have redo: "hs_redo h2 = [ce_bytes now]" using undone_keeps_current[OF h1(1,3) h2(1)] .
  obtain h3 where h3: "navigate (replay_admitted R) h2 (ce_bytes prior) (wa, ga) True
      = (h3, Inr (Some \<lparr>wr_document = W', wr_encoding = now\<rparr>))" "history_wf h3"
    using navigate_succeeds[of h2 True "replay_admitted R" "(wa, ga)" _ "ce_bytes prior"] h2 redo replays(2) size assms(2)
    by (auto simp: replay_admitted_def)
  have "workspace_undo R h1 W' wa ga = (h2, Inr (Some \<lparr>wr_document = W, wr_encoding = prior\<rparr>))"
    using h2(1) newest replays(1) edited(3)
    by (simp add: workspace_undo_def workspace_navigate_def last_snapshot_def del: and_then_Inr and_then_Inl)
  moreover have "workspace_redo R h2 W wa ga = (h3, Inr (Some \<lparr>wr_document = W', wr_encoding = now\<rparr>))"
    using h3(1) redo replays(2) prior(3)
    by (simp add: workspace_redo_def workspace_navigate_def last_snapshot_def del: and_then_Inr and_then_Inl)
  ultimately show ?thesis using h2(2) h3(2) by blast
qed

theorem undo_restores_workspace_witness:
  "\<exists>W1 h2. disconnect rat_api (example_workspace rat_api) 1 = Inr (W1, ())
     \<and> workspace_undo rat_api (recorded_example rat_api) W1 interactive_workspace_limits interactive_limits
       = (h2, Inr (Some \<lparr>wr_document = example_workspace rat_api, wr_encoding = saved_example rat_api\<rparr>))"
proof -
  let ?W = "example_workspace rat_api"
  let ?h = "\<lparr>hs_limits = interactive_workspace_history, hs_undo = [], hs_redo = [], hs_retained = 0\<rparr>"
  obtain W1 W2 :: "rat graph_workspace" where W1: "disconnect rat_api ?W 1 = Inr (W1, ())" "workspace_wf rat_api W1"
    by (rule example_reconnected[where R = rat_api])
  from W1(1)[unfolded disconnect_Inr[OF example_workspace_wf]]
  have e: "graph_edited rat_api ?W W1 3 2 example_nodes [] (gw_placements ?W)"
    by (simp add: example_workspace_def example_graph_parts)
  then have same: "gw_limits W1 = gw_limits ?W" "gd_schema (gw_graph W1) = gd_schema (gw_graph ?W)"
    "gd_clocks (gw_graph W1) = gd_clocks (gw_graph ?W)" "gd_nodes (gw_graph W1) = gd_nodes (gw_graph ?W)"
    by (simp_all add: graph_edited_def) (simp add: example_workspace_def example_graph_parts)
  have storable: "workspace_storable rat_api W1"
    using example_workspace_storable[of rat_api] W1(2) edited_constructed[OF _ W1(2) same(2)] same
    by (simp add: workspace_storable_def representable_def)
  have admitted: "workspace_admitted W1 interactive_workspace_limits interactive_limits"
    using example_admitted[of rat_api] same by (simp add: workspace_admitted_def)
  obtain now where now: "encode_graph_workspace rat_api W1 = Inr now"
    using example_saves[OF W1(2)] same example_rooms by auto
  have "length (ce_bytes now) \<le> hl_bytes (hs_limits ?h)"
    using saved_example_fits[OF now] same(1) example_rooms(2)[of rat_api] by simp
  from undo_restores_workspace[OF _ _ example_workspace_storable example_admitted saved_example recorded_example
      storable admitted now this] W1(1)
  show ?thesis by (auto simp: history_wf_def interactive_workspace_history_def usize_max_def)
qed

end
