(* ===== verification/Text_Chars.thy ===== *)
theory Text_Chars
  imports Wire_Value
begin

text \<open>
  What the text parsers and printers use of Rust's \<^verbatim>\<open>char\<close> and
  \<^verbatim>\<open>str\<close>: a \<^verbatim>\<open>char\<close> is its scalar value, \<^verbatim>\<open>chars()\<close> of a
  string and \<^verbatim>\<open>push\<close> are inverse to each other, \<^verbatim>\<open>trim\<close>, and the decimal and
  hexadecimal texts of integers with the standard library's \<^verbatim>\<open>FromStr\<close>.
\<close>

section \<open>Scalar values and their UTF-8 bytes\<close>

text \<open>\<^verbatim>\<open>char::from_u32\<close> refuses surrogates and everything past \<open>0x10FFFF\<close>.\<close>

definition char_scalar :: "nat \<Rightarrow> bool" where
  "char_scalar c \<longleftrightarrow> c < 1114112 \<and> \<not> (55296 \<le> c \<and> c \<le> 57343)"

definition char_from_u32 :: "nat \<Rightarrow> nat option" where
  "char_from_u32 c = (if char_scalar c then Some c else None)"

definition utf8_encode :: "nat \<Rightarrow> bytes" where
  "utf8_encode c =
     (if c < 128 then [word_of_nat c]
      else if c < 2048 then [word_of_nat (192 + c div 64), word_of_nat (128 + c mod 64)]
      else if c < 65536 then
        [word_of_nat (224 + c div 4096), word_of_nat (128 + c div 64 mod 64), word_of_nat (128 + c mod 64)]
      else [word_of_nat (240 + c div 262144), word_of_nat (128 + c div 4096 mod 64),
            word_of_nat (128 + c div 64 mod 64), word_of_nat (128 + c mod 64)])"

definition len_utf8 :: "nat \<Rightarrow> nat" where
  "len_utf8 c = length (utf8_encode c)"

definition encode_str :: "nat list \<Rightarrow> rust_str" where
  "encode_str cs = concat (map utf8_encode cs)"

definition text_len :: "nat list \<Rightarrow> nat" where
  "text_len cs = length (encode_str cs)"

lemma encode_str_simps [simp]:
  "encode_str [] = []" "encode_str (c # cs) = utf8_encode c @ encode_str cs"
  "encode_str (cs @ ds) = encode_str cs @ encode_str ds"
  by (simp_all add: encode_str_def)

lemma text_len_simps [simp]:
  "text_len [] = 0" "text_len (c # cs) = len_utf8 c + text_len cs"
  "text_len (cs @ ds) = text_len cs + text_len ds"
  by (simp_all add: text_len_def len_utf8_def)

lemma unat_byte: "n < 256 \<Longrightarrow> unat (word_of_nat n :: u8) = n"
  unfolding unat_of_nat_u8 by simp

lemma byte_unat: "word_of_nat (unat (b :: u8)) = b"
  by simp

lemma utf8_encode_nonempty [simp]: "utf8_encode c \<noteq> []"
  by (simp add: utf8_encode_def)

text \<open>The base-64 digits of a scalar value.\<close>

lemma base64_digits:
  fixes c :: nat
  shows "c = c div 4096 * 4096 + c div 64 mod 64 * 64 + c mod 64"
    and "c = c div 262144 * 262144 + c div 4096 mod 64 * 4096 + c div 64 mod 64 * 64 + c mod 64"
proof -
  have d: "c div 4096 = c div 64 div 64" "c div 262144 = c div 64 div 64 div 64"
    by (simp_all add: div_mult2_eq[symmetric])
  have "c = c div 64 * 64 + c mod 64" "c div 64 = c div 64 div 64 * 64 + c div 64 mod 64"
    "c div 64 div 64 = c div 64 div 64 div 64 * 64 + c div 64 div 64 mod 64" by simp_all
  then show "c = c div 4096 * 4096 + c div 64 mod 64 * 64 + c mod 64"
    and "c = c div 262144 * 262144 + c div 4096 mod 64 * 4096 + c div 64 mod 64 * 64 + c mod 64"
    unfolding d by linarith+
qed

lemma base64_compose:
  fixes x y z w :: nat
  assumes "y < 64" and "z < 64"
  shows "(x * 4096 + y * 64 + z) div 4096 = x" "(x * 4096 + y * 64 + z) div 64 mod 64 = y"
    "(x * 4096 + y * 64 + z) mod 64 = z"
    and "w < 64 \<Longrightarrow> (x * 262144 + y * 4096 + z * 64 + w) div 262144 = x"
    and "w < 64 \<Longrightarrow> (x * 262144 + y * 4096 + z * 64 + w) div 4096 mod 64 = y"
    and "w < 64 \<Longrightarrow> (x * 262144 + y * 4096 + z * 64 + w) div 64 mod 64 = z"
    and "w < 64 \<Longrightarrow> (x * 262144 + y * 4096 + z * 64 + w) mod 64 = w"
proof -
  have d: "n div 4096 = n div 64 div 64" "n div 262144 = n div 64 div 64 div 64" for n :: nat
    by (simp_all add: div_mult2_eq[symmetric])
  have step: "(a * 64 + b) div 64 = a" "(a * 64 + b) mod 64 = b" if "b < 64" for a b :: nat
    using that by simp_all
  have three: "x * 4096 + y * 64 + z = (x * 64 + y) * 64 + z" by simp
  have four: "x * 262144 + y * 4096 + z * 64 + w = ((x * 64 + y) * 64 + z) * 64 + w" by simp
  show "(x * 4096 + y * 64 + z) div 4096 = x" "(x * 4096 + y * 64 + z) div 64 mod 64 = y"
    "(x * 4096 + y * 64 + z) mod 64 = z"
    unfolding three d by (simp_all only: step assms)
  show "(x * 262144 + y * 4096 + z * 64 + w) div 262144 = x"
    "(x * 262144 + y * 4096 + z * 64 + w) div 4096 mod 64 = y"
    "(x * 262144 + y * 4096 + z * 64 + w) div 64 mod 64 = z"
    "(x * 262144 + y * 4096 + z * 64 + w) mod 64 = w" if "w < 64"
    unfolding four d by (simp_all only: step assms that)
qed

lemma utf8_step_encode:
  assumes "char_scalar c"
  shows "utf8_step (utf8_encode c @ rest) = Some (c, rest)"
proof -
  consider "c < 128" | "128 \<le> c" "c < 2048" | "2048 \<le> c" "c < 65536" | "65536 \<le> c" "c < 1114112"
    using assms by (fastforce simp: char_scalar_def)
  then show ?thesis
  proof cases
    case 1
    then show ?thesis by (simp add: utf8_encode_def utf8_step_def unat_byte)
  next
    case 2
    then have b: "192 + c div 64 < 256" "128 + c mod 64 < 256"
      and x: "194 \<le> 192 + c div 64" "192 + c div 64 \<le> 223" and c: "c div 64 * 64 + c mod 64 = c"
      by auto
    have enc: "utf8_encode c = [word_of_nat (192 + c div 64), word_of_nat (128 + c mod 64)]"
      using 2 by (auto simp: utf8_encode_def)
    show ?thesis
      unfolding enc using x c
      by (simp add: utf8_step_def utf8_cont_def Let_def unat_byte[OF b(1)] unat_byte[OF b(2)] del: of_nat_add)
  next
    case 3
    then have b: "224 + c div 4096 < 256" "128 + c div 64 mod 64 < 256" "128 + c mod 64 < 256"
      and hi: "224 + c div 4096 \<le> 239"
      by auto
    note split = base64_digits(1)[of c]
    have small: "c div 64 mod 64 < 64" "c mod 64 < 64" by simp_all
    have over: "\<not> (c div 4096 = 0 \<and> c div 64 mod 64 < 32)"
    proof
      assume "c div 4096 = 0 \<and> c div 64 mod 64 < 32"
      with split small show False using 3(1) by linarith
    qed
    have surr: "\<not> (c div 4096 = 13 \<and> 32 \<le> c div 64 mod 64)"
    proof
      assume "c div 4096 = 13 \<and> 32 \<le> c div 64 mod 64"
      with split small have "55296 \<le> c" "c \<le> 57343" by linarith+
      with assms show False by (simp add: char_scalar_def)
    qed
    have enc: "utf8_encode c = [word_of_nat (224 + c div 4096), word_of_nat (128 + c div 64 mod 64),
        word_of_nat (128 + c mod 64)]"
      using 3 by (auto simp: utf8_encode_def)
    show ?thesis
      unfolding enc using hi over surr split[symmetric]
      by (simp add: utf8_step_def utf8_cont_def Let_def unat_byte[OF b(1)] unat_byte[OF b(2)]
          unat_byte[OF b(3)] del: of_nat_add)
  next
    case 4
    then have b: "240 + c div 262144 < 256" "128 + c div 4096 mod 64 < 256" "128 + c div 64 mod 64 < 256"
        "128 + c mod 64 < 256" and hi: "240 + c div 262144 \<le> 244"
      by auto
    note split = base64_digits(2)[of c]
    have small: "c div 64 mod 64 < 64" "c mod 64 < 64" "c div 4096 mod 64 < 64" by simp_all
    have over: "\<not> (c div 262144 = 0 \<and> c div 4096 mod 64 < 16)"
    proof
      assume "c div 262144 = 0 \<and> c div 4096 mod 64 < 16"
      with split small show False using 4(1) by linarith
    qed
    have top: "\<not> (c div 262144 = 4 \<and> 16 \<le> c div 4096 mod 64)"
    proof
      assume "c div 262144 = 4 \<and> 16 \<le> c div 4096 mod 64"
      with split show False using 4(2) by linarith
    qed
    have enc: "utf8_encode c = [word_of_nat (240 + c div 262144), word_of_nat (128 + c div 4096 mod 64),
        word_of_nat (128 + c div 64 mod 64), word_of_nat (128 + c mod 64)]"
      using 4 by (auto simp: utf8_encode_def)
    show ?thesis
      unfolding enc using hi over top split[symmetric]
      by (simp add: utf8_step_def utf8_cont_def Let_def unat_byte[OF b(1)] unat_byte[OF b(2)]
          unat_byte[OF b(3)] unat_byte[OF b(4)] del: of_nat_add)
  qed
qed

lemma cont_byte:
  assumes "utf8_cont b"
  shows "unat b - 128 < 64" and "word_of_nat (128 + (unat b - 128)) = b"
proof -
  from assms have "128 \<le> unat b" "unat b < 192" by (auto simp: utf8_cont_def)
  then show "unat b - 128 < 64" and "word_of_nat (128 + (unat b - 128)) = b"
    by (simp_all del: of_nat_add)
qed

lemma utf8_step_decode:
  assumes "utf8_step bs = Some (c, rest)"
  shows "char_scalar c \<and> bs = utf8_encode c @ rest"
proof -
  have lead: "word_of_nat (k + (unat b - k)) = b" if "k \<le> unat b" for k and b :: u8
    using that by (simp del: of_nat_add)
  obtain b0 r0 where bs: "bs = b0 # r0" using assms by (cases bs) (auto simp: utf8_step_def)
  show ?thesis
  proof (cases "unat b0 < 128")
    case True
    with assms bs show ?thesis by (auto simp: utf8_step_def utf8_encode_def char_scalar_def)
  next
    case False
    with assms bs obtain b1 r1 where r0: "r0 = b1 # r1" and c1: "utf8_cont b1"
      by (cases r0) (auto simp: utf8_step_def Let_def split: if_splits)
    note y = cont_byte[OF c1]
    show ?thesis
    proof (cases "194 \<le> unat b0 \<and> unat b0 \<le> 223")
      case True
      define x y where "x = unat b0 - 192" and "y = unat b1 - 128"
      have xy: "2 \<le> x" "x < 32" "y < 64" using True y(1) by (auto simp: x_def y_def)
      from assms bs r0 c1 False True have c: "c = x * 64 + y" "rest = r1"
        by (auto simp: utf8_step_def Let_def x_def y_def)
      have "192 + c div 64 = unat b0" "128 + c mod 64 = 128 + (unat b1 - 128)"
        using xy True by (simp_all add: c x_def y_def[symmetric])
      moreover have "128 \<le> c" "c < 2048" using xy by (simp_all add: c)
      ultimately show ?thesis
        using y(2) by (simp add: utf8_encode_def char_scalar_def bs r0 c(2) del: of_nat_add)
    next
      case not2: False
      with assms bs r0 c1 False obtain b2 r2 where r1: "r1 = b2 # r2" and c2: "utf8_cont b2"
        by (cases r1) (auto simp: utf8_step_def Let_def split: if_splits)
      note z = cont_byte[OF c2]
      show ?thesis
      proof (cases "224 \<le> unat b0 \<and> unat b0 \<le> 239")
        case True
        define x y z where "x = unat b0 - 224" and "y = unat b1 - 128" and "z = unat b2 - 128"
        have xyz: "x < 16" "y < 64" "z < 64" using True y(1) z(1) by (auto simp: x_def y_def z_def)
        from assms bs r0 r1 c1 c2 False not2 True
        have c: "c = x * 4096 + y * 64 + z" "rest = r2" and ok: "\<not> (x = 0 \<and> y < 32)" "\<not> (x = 13 \<and> 32 \<le> y)"
          by (auto simp: utf8_step_def Let_def x_def y_def z_def split: if_splits)
        have "c div 4096 = x" "c div 64 mod 64 = y" "c mod 64 = z" unfolding c(1) using base64_compose(1-3)[of y z x] xyz by auto
        then have "224 + c div 4096 = unat b0" "128 + c div 64 mod 64 = 128 + (unat b1 - 128)"
          "128 + c mod 64 = 128 + (unat b2 - 128)"
          using True by (simp_all add: x_def y_def z_def)
        moreover have "2048 \<le> c" "c < 65536" using xyz ok by (auto simp: c)
        moreover have "char_scalar c"
        proof -
          have "x = 13 \<and> 32 \<le> y" if "55296 \<le> c" "c \<le> 57343"
          proof -
            have "\<not> x \<le> 12" "\<not> 14 \<le> x" using that xyz unfolding c(1) by linarith+
            then show ?thesis using that xyz unfolding c(1) by linarith
          qed
          with ok \<open>c < 65536\<close> show ?thesis by (auto simp: char_scalar_def)
        qed
        ultimately show ?thesis
          using y(2) z(2) by (simp add: utf8_encode_def bs r0 r1 c(2) del: of_nat_add)
      next
        case not3: False
        with assms bs r0 r1 c1 c2 False not2 obtain b3 r3 where r2: "r2 = b3 # r3" and c3: "utf8_cont b3"
          by (cases r2) (auto simp: utf8_step_def Let_def split: if_splits)
        note w = cont_byte[OF c3]
        define x y z w where "x = unat b0 - 240" and "y = unat b1 - 128" and "z = unat b2 - 128" and "w = unat b3 - 128"
        from assms bs r0 r1 r2 c1 c2 c3 False not2 not3
        have c: "c = x * 262144 + y * 4096 + z * 64 + w" "rest = r3"
          and ok: "\<not> (x = 0 \<and> y < 16)" "\<not> (x = 4 \<and> 16 \<le> y)" and b0: "240 \<le> unat b0" "unat b0 \<le> 244"
          by (auto simp: utf8_step_def Let_def x_def y_def z_def w_def split: if_splits)
        have xyz: "x \<le> 4" "y < 64" "z < 64" "w < 64"
          using b0 y(1) z(1) w(1) by (auto simp: x_def y_def z_def w_def)
        have "c div 262144 = x" "c div 4096 mod 64 = y" "c div 64 mod 64 = z" "c mod 64 = w"
          unfolding c(1) using base64_compose(4-7)[of y z w x] xyz by auto
        then have "240 + c div 262144 = unat b0" "128 + c div 4096 mod 64 = 128 + (unat b1 - 128)"
          "128 + c div 64 mod 64 = 128 + (unat b2 - 128)" "128 + c mod 64 = 128 + (unat b3 - 128)"
          using b0 by (simp_all add: x_def y_def z_def w_def)
        moreover have "65536 \<le> c" "c < 1114112"
          using xyz ok by (auto simp: c)
        ultimately show ?thesis
          using y(2) z(2) w(2) by (simp add: utf8_encode_def char_scalar_def bs r0 r1 r2 c(2) del: of_nat_add)
      qed
    qed
  qed
qed

text \<open>Reading the characters of a string and pushing them back are inverse operations.\<close>

lemma utf8_chars_encode: "\<forall>c \<in> set cs. char_scalar c \<Longrightarrow> utf8_chars (encode_str cs) = Some cs"
proof (induction cs)
  case (Cons c cs)
  then show ?case by (subst utf8_chars.simps) (simp add: utf8_step_encode)
qed (simp add: utf8_chars.simps)

lemma utf8_chars_decode:
  "utf8_chars bs = Some cs \<Longrightarrow> bs = encode_str cs \<and> (\<forall>c \<in> set cs. char_scalar c)"
proof (induction bs arbitrary: cs rule: utf8_chars.induct)
  case (1 bs)
  show ?case
  proof (cases "bs = []")
    case True
    with 1(2) show ?thesis by (simp add: utf8_chars.simps)
  next
    case False
    with 1(2) obtain c rest cs' where s: "utf8_step bs = Some (c, rest)" and cs': "utf8_chars rest = Some cs'"
      and cs: "cs = c # cs'"
      by (auto simp: utf8_chars.simps[of bs] split: option.splits)
    from 1(1)[OF False s refl cs'] utf8_step_decode[OF s] show ?thesis by (simp add: cs)
  qed
qed

lemma utf8_valid_encode: "\<forall>c \<in> set cs. char_scalar c \<Longrightarrow> utf8_valid (encode_str cs)"
  by (simp add: utf8_valid_def utf8_chars_encode)

lemma encode_str_ascii: "\<forall>c \<in> set cs. c < 128 \<Longrightarrow> encode_str cs = map word_of_nat cs"
  by (induction cs) (auto simp: utf8_encode_def)

lemma encode_str_map_unat: "\<forall>b \<in> set bs. unat b < 128 \<Longrightarrow> encode_str (map unat bs) = bs"
  by (induction bs) (auto simp: utf8_encode_def)

lemma text_len_ascii: "\<forall>c \<in> set cs. c < 128 \<Longrightarrow> text_len cs = length cs"
  by (simp add: text_len_def encode_str_ascii)

lemma len_utf8_ascii [simp]: "c < 128 \<Longrightarrow> len_utf8 c = 1"
  by (simp add: len_utf8_def utf8_encode_def)

lemma len_utf8_bounds: "1 \<le> len_utf8 c \<and> len_utf8 c \<le> 4"
  by (simp add: len_utf8_def utf8_encode_def)

text \<open>\<^verbatim>\<open>str::trim\<close>.\<close>

definition str_trim :: "nat list \<Rightarrow> nat list" where
  "str_trim cs = rev (dropWhile char_is_whitespace (rev (dropWhile char_is_whitespace cs)))"

lemma str_trim_id:
  assumes "cs \<noteq> []" and "\<not> char_is_whitespace (hd cs)" and "\<not> char_is_whitespace (last cs)"
  shows "str_trim cs = cs"
proof -
  have "dropWhile char_is_whitespace cs = cs" using assms by (cases cs) auto
  moreover have "dropWhile char_is_whitespace (rev cs) = rev cs"
    using assms by (cases cs rule: rev_cases) auto
  ultimately show ?thesis by (simp add: str_trim_def)
qed

section \<open>Decimal and hexadecimal integers\<close>

text \<open>
  \<^verbatim>\<open>to_string\<close> of an \<^verbatim>\<open>i64\<close> and a \<^verbatim>\<open>u64\<close>, and
  \<^verbatim>\<open>FromStr\<close>: an optional sign (a minus sign for signed types only), at least one
  digit, digits only, and a result in range.
\<close>

definition i64_text :: "i64 \<Rightarrow> rust_str" where
  "i64_text w = (if sint w < 0 then [45] else []) @ nat_text (nat \<bar>sint w\<bar>)"

definition u64_text :: "u64 \<Rightarrow> rust_str" where
  "u64_text w = nat_text (unat w)"

definition all_digits :: "rust_str \<Rightarrow> bool" where
  "all_digits s \<longleftrightarrow> s \<noteq> [] \<and> (\<forall>b \<in> set s. is_ascii_digit b)"

definition parse_u64 :: "rust_str \<Rightarrow> u64 option" where
  "parse_u64 s =
     (let digits = (if s \<noteq> [] \<and> hd s = 43 then tl s else s) in
      if all_digits digits \<and> text_nat digits \<le> u64_max then Some (word_of_nat (text_nat digits)) else None)"

definition parse_i64 :: "rust_str \<Rightarrow> i64 option" where
  "parse_i64 s =
     (let negative = (s \<noteq> [] \<and> hd s = 45);
          digits = (if s \<noteq> [] \<and> (hd s = 43 \<or> hd s = 45) then tl s else s);
          n = (if negative then - int (text_nat digits) else int (text_nat digits)) in
      if all_digits digits \<and> - (2 ^ 63) \<le> n \<and> n < 2 ^ 63 then Some (word_of_int n) else None)"

lemma all_digits_nat_text: "all_digits (nat_text n)"
  by (simp add: all_digits_def nat_text_nonempty nat_text_digits)

lemma digit_range: "is_ascii_digit b \<Longrightarrow> b \<noteq> 43 \<and> b \<noteq> 45"
  by (auto simp: is_ascii_digit_def)

lemma hd_nat_text_digit: "is_ascii_digit (hd (nat_text n))"
  using nat_text_digits[of n] nat_text_nonempty[of n] by (cases "nat_text n") auto

lemma parse_u64_text: "parse_u64 (u64_text w) = Some w"
  using digit_range[OF hd_nat_text_digit[of "unat w"]] unat_u64_le[of w]
  by (simp add: parse_u64_def u64_text_def all_digits_nat_text text_nat_text)

lemma parse_i64_text: "parse_i64 (i64_text w) = Some w"
proof -
  have range: "- (2 ^ 63) \<le> sint w" "sint w < 2 ^ 63"
    using sint_range_size[of w] by (simp_all add: word_size)
  have hd: "hd (nat_text n) \<noteq> 43" "hd (nat_text n) \<noteq> 45" for n
    using digit_range[OF hd_nat_text_digit] by auto
  show ?thesis
  proof (cases "sint w < 0")
    case True
    then have "int (nat \<bar>sint w\<bar>) = - sint w" by simp
    with range True show ?thesis
      by (simp add: parse_i64_def i64_text_def all_digits_nat_text text_nat_text Let_def)
  next
    case False
    then have "int (nat \<bar>sint w\<bar>) = sint w" "i64_text w = nat_text (nat \<bar>sint w\<bar>)"
      by (simp_all only: i64_text_def if_False append_Nil)
    with range(1,2) show ?thesis
      by (simp only: parse_i64_def all_digits_nat_text text_nat_text nat_text_nonempty hd Let_def
          if_False simp_thms if_True of_int_sint scast_id)
  qed
qed

text \<open>The format \<^verbatim>\<open>{:x}\<close> and \<^verbatim>\<open>from_str_radix(16)\<close> on characters that are
  hexadecimal digits.\<close>

definition is_hex_digit :: "nat \<Rightarrow> bool" where
  "is_hex_digit c \<longleftrightarrow> (48 \<le> c \<and> c \<le> 57) \<or> (97 \<le> c \<and> c \<le> 102) \<or> (65 \<le> c \<and> c \<le> 70)"

definition hex_digit :: "nat \<Rightarrow> nat" where
  "hex_digit n = (if n < 10 then 48 + n else 87 + n)"

definition hex_nibble :: "nat \<Rightarrow> nat option" where
  "hex_nibble c =
     (if 48 \<le> c \<and> c \<le> 57 then Some (c - 48)
      else if 97 \<le> c \<and> c \<le> 102 then Some (c - 97 + 10)
      else if 65 \<le> c \<and> c \<le> 70 then Some (c - 65 + 10)
      else None)"

function hex_text :: "nat \<Rightarrow> nat list" where
  "hex_text n = (if n < 16 then [hex_digit n] else hex_text (n div 16) @ [hex_digit (n mod 16)])"
  by pat_completeness auto
termination
  by (relation "measure id") auto

declare hex_text.simps [simp del]

definition hex_number :: "nat list \<Rightarrow> nat" where
  "hex_number ds = foldl (\<lambda>acc d. 16 * acc + the (hex_nibble d)) 0 ds"

lemma hex_nibble_digit [simp]: "n < 16 \<Longrightarrow> hex_nibble (hex_digit n) = Some n"
  by (auto simp: hex_nibble_def hex_digit_def)

lemma is_hex_digit_digit [simp]: "n < 16 \<Longrightarrow> is_hex_digit (hex_digit n)"
  by (auto simp: is_hex_digit_def hex_digit_def)

lemma hex_digit_ascii [simp]: "n < 16 \<Longrightarrow> hex_digit n < 128 \<and> hex_digit n \<noteq> 34 \<and> hex_digit n \<noteq> 125"
  by (auto simp: hex_digit_def)

lemma hex_nibble_Some: "is_hex_digit c \<Longrightarrow> \<exists>n. hex_nibble c = Some n \<and> n < 16"
  by (auto simp: is_hex_digit_def hex_nibble_def)

lemma hex_text_digits: "\<forall>d \<in> set (hex_text n). is_hex_digit d \<and> d < 128 \<and> d \<noteq> 125"
proof (induction n rule: hex_text.induct)
  case (1 n)
  have small: "is_hex_digit (hex_digit m)" "hex_digit m < 128" "hex_digit m \<noteq> 125" if "m < 16" for m
    using that by simp_all
  show ?case
  proof (cases "n < 16")
    case True
    then show ?thesis by (subst hex_text.simps) (simp add: small)
  next
    case False
    with 1 show ?thesis by (subst hex_text.simps) (auto simp: small)
  qed
qed

lemma hex_text_nonempty: "hex_text n \<noteq> []"
  by (subst hex_text.simps) simp

lemma hex_number_text: "hex_number (hex_text n) = n"
proof (induction n rule: hex_text.induct)
  case (1 n)
  show ?case
  proof (cases "n < 16")
    case True
    then show ?thesis by (subst hex_text.simps) (simp add: hex_number_def)
  next
    case False
    with 1 have IH: "hex_number (hex_text (n div 16)) = n div 16" by simp
    have "hex_number (hex_text n) = 16 * hex_number (hex_text (n div 16)) + n mod 16"
      using False by (subst hex_text.simps) (simp add: hex_number_def)
    with IH show ?thesis by simp
  qed
qed

lemma hex_text_short:
  assumes "n < 256"
  shows "length (hex_text n) \<le> 2"
proof -
  have "n div 16 < 16" using assms by simp
  then have "length (hex_text (n div 16)) = 1" by (subst hex_text.simps) simp
  then show ?thesis by (subst hex_text.simps) simp
qed

end
