(* ===== verification/Literal_Text.thy ===== *)
theory Literal_Text
  imports Text_Chars
begin

text \<open>
  The editor notation for literals of
  \<^verbatim>\<open>crates/alumina-interface-core/src/graph/literal_text.rs\<close>: the bounded printer
  \<^verbatim>\<open>format_graph_literal_text\<close> and the schema-directed parser
  \<^verbatim>\<open>parse_graph_literal_text\<close>. The parser's state is the list of characters still to
  read with the byte offset of the first of them and the number of values read so far. The text of
  an exact rational, \<^verbatim>\<open>Rational::to_string\<close> of \<^verbatim>\<open>hyperreal\<close>, is the parameter
  \<open>display\<close>.
\<close>

section \<open>Data\<close>

datatype literal_text_error =
    LT_ZeroLimit
  | LT_InputTooLarge nat nat
  | LT_OutputTooLarge nat
  | LT_Syntax nat rust_str
  | LT_InvalidRational graph_type_id
  | LT_InvalidSignedInteger graph_type_id
  | LT_InvalidUnsignedInteger graph_type_id
  | LT_InvalidHex graph_type_id
  | LT_IdentityRequiresSelector graph_type_id
  | LT_RuntimeOnly graph_type_id
  | LT_Schema schema_error

record literal_text_limits =
  lt_maximum_bytes :: nat

definition interactive_literal_text_bytes :: nat where
  "interactive_literal_text_bytes = 2 * 1024 * 1024 + 6"

definition interactive_literal_text :: literal_text_limits where
  "interactive_literal_text = \<lparr>lt_maximum_bytes = interactive_literal_text_bytes\<rparr>"

definition validate_text_limits :: "literal_text_limits \<Rightarrow> literal_text_error + unit" where
  "validate_text_limits l = (if lt_maximum_bytes l = 0 then Inl LT_ZeroLimit else Inr ())"

record bounded_text =
  bt_value :: rust_str
  bt_maximum_bytes :: nat

record literal_parser =
  lp_rest :: "nat list"
  lp_offset :: nat
  lp_nodes :: nat

definition reject_non_text_authority ::
  "'q graph_schema \<Rightarrow> graph_type_id \<Rightarrow> literal_text_error + unit" where
  "reject_non_text_authority S t =
     and_then (ok_or (LT_Schema (SE_UnknownType t)) (value_type S t)) (\<lambda>definition.
     case td_kind definition of
       TResourceHandle _ \<Rightarrow> Inl (LT_IdentityRequiresSelector t)
     | TJobHandle \<Rightarrow> Inl (LT_IdentityRequiresSelector t)
     | TEvent _ _ \<Rightarrow> Inl (LT_RuntimeOnly t)
     | TStream _ _ _ \<Rightarrow> Inl (LT_RuntimeOnly t)
     | _ \<Rightarrow> Inr ())"

section \<open>Printer\<close>

definition push_str :: "rust_str \<Rightarrow> bounded_text \<Rightarrow> literal_text_error + bounded_text" where
  "push_str s out =
     and_then (ok_or (LT_OutputTooLarge (bt_maximum_bytes out))
       (checked_add_usize (length (bt_value out)) (length s))) (\<lambda>len.
     if bt_maximum_bytes out < len then Inl (LT_OutputTooLarge (bt_maximum_bytes out))
     else Inr (out\<lparr>bt_value := bt_value out @ s\<rparr>))"

definition push_char :: "nat \<Rightarrow> bounded_text \<Rightarrow> literal_text_error + bounded_text" where
  "push_char c out =
     and_then (ok_or (LT_OutputTooLarge (bt_maximum_bytes out))
       (checked_add_usize (length (bt_value out)) (len_utf8 c))) (\<lambda>len.
     if bt_maximum_bytes out < len then Inl (LT_OutputTooLarge (bt_maximum_bytes out))
     else Inr (out\<lparr>bt_value := bt_value out @ utf8_encode c\<rparr>))"

text \<open>The loop body of \<^verbatim>\<open>format_text\<close>: one character with its escape.\<close>

definition format_text_char :: "bounded_text \<Rightarrow> nat \<Rightarrow> literal_text_error + bounded_text" where
  "format_text_char out c =
     (if c = 34 then push_str (map word_of_nat [92, 34]) out
      else if c = 92 then push_str (map word_of_nat [92, 92]) out
      else if c = 10 then push_str (map word_of_nat [92, 110]) out
      else if c = 13 then push_str (map word_of_nat [92, 114]) out
      else if c = 9 then push_str (map word_of_nat [92, 116]) out
      else if c = 0 then push_str (map word_of_nat [92, 48]) out
      else if char_is_control c
        then push_str (map word_of_nat ([92, 117, 123] @ hex_text c @ [125])) out
      else push_char c out)"

text \<open>A \<^verbatim>\<open>str\<close> always has characters; the empty list stands for them otherwise.\<close>

definition chars :: "rust_str \<Rightarrow> nat list" where
  "chars s = (case utf8_chars s of None \<Rightarrow> [] | Some cs \<Rightarrow> cs)"

definition format_text :: "rust_str \<Rightarrow> bounded_text \<Rightarrow> literal_text_error + bounded_text" where
  "format_text s out =
     and_then (push_char 34 out) (\<lambda>out.
     and_then (try_fold format_text_char out (chars s)) (\<lambda>out.
     push_char 34 out))"

definition format_byte :: "bounded_text \<Rightarrow> u8 \<Rightarrow> literal_text_error + bounded_text" where
  "format_byte out b =
     and_then (push_char (hex_digit (unat b div 16)) out) (\<lambda>out.
     push_char (hex_digit (unat b mod 16)) out)"

definition format_bytes :: "bytes \<Rightarrow> bounded_text \<Rightarrow> literal_text_error + bounded_text" where
  "format_bytes bs out =
     and_then (push_str (str ''hex'' @ [34]) out) (\<lambda>out.
     and_then (try_fold format_byte out bs) (\<lambda>out.
     push_char 34 out))"

text \<open>
  The loops over array items and record fields: a comma before every element but the first, then
  the element.
\<close>

fun format_sequence ::
  "('a \<Rightarrow> bounded_text \<Rightarrow> literal_text_error + bounded_text) \<Rightarrow> bool \<Rightarrow> 'a list \<Rightarrow> bounded_text
     \<Rightarrow> literal_text_error + bounded_text" where
  "format_sequence f first [] out = Inr out"
| "format_sequence f first (x # xs) out =
     and_then (if first then Inr out else push_char 44 out) (\<lambda>out.
     and_then (f x out) (\<lambda>out. format_sequence f False xs out))"

lemma format_sequence_cong [fundef_cong]:
  assumes "xs = xs'" and "first = first'" and "out = out'"
    and "\<And>x out. x \<in> set xs' \<Longrightarrow> f x out = f' x out"
  shows "format_sequence f first xs out = format_sequence f' first' xs' out'"
  using assms
proof (induction xs arbitrary: first first' out out' xs')
  case (Cons x xs)
  then have IH: "format_sequence f False xs o1 = format_sequence f' False xs o1" for o1
    by (metis list.set_intros(2))
  show ?case using Cons.prems IH by (auto intro!: and_then_cong)
qed simp

lemma item_size: "x \<in> set xs \<Longrightarrow> size x < Suc (size_list size xs)"
  by (simp add: less_Suc_eq_le size_list_estimation')

lemma entry_size:
  assumes "(f, i, x) \<in> set (zip fs vs)"
  shows "size x < Suc (size_list (size_prod (\<lambda>_. 0) size) vs)"
  using size_list_estimation'[OF set_zip_rightD[OF assms], of "size x" "size_prod (\<lambda>_. 0) size"]
  by (simp add: less_Suc_eq_le)

function (sequential) format_value ::
  "('q \<Rightarrow> rust_str) \<Rightarrow> 'q graph_schema \<Rightarrow> graph_type_id \<Rightarrow> 'q graph_value \<Rightarrow> bounded_text
     \<Rightarrow> literal_text_error + bounded_text" where
  "format_value display S t v out =
     and_then (ok_or (LT_Schema (SE_UnknownType t)) (value_type S t)) (\<lambda>definition.
     let mismatch = Inl (LT_Schema (SE_TypeMismatch t (value_kind v))) in
     case td_kind definition of
       TBoolean \<Rightarrow> (case v of
         VBoolean b \<Rightarrow> push_str (if b then str ''true'' else str ''false'') out | _ \<Rightarrow> mismatch)
     | TExactRational _ \<Rightarrow> (case v of
         VExactRational q \<Rightarrow> push_str (display q) out | _ \<Rightarrow> mismatch)
     | TMeasurementInterval _ \<Rightarrow> (case v of
         VMeasurementInterval lower upper \<Rightarrow>
           and_then (push_str (display lower) out) (\<lambda>out.
           and_then (push_str (str ''..'') out) (\<lambda>out.
           push_str (display upper) out))
       | _ \<Rightarrow> mismatch)
     | TCanonicalI64 _ _ \<Rightarrow> (case v of
         VCanonicalI64 i \<Rightarrow> push_str (i64_text i) out | _ \<Rightarrow> mismatch)
     | TCanonicalU64 _ _ \<Rightarrow> (case v of
         VCanonicalU64 n \<Rightarrow> push_str (u64_text n) out | _ \<Rightarrow> mismatch)
     | TText _ \<Rightarrow> (case v of VText s \<Rightarrow> format_text s out | _ \<Rightarrow> mismatch)
     | TBytes _ \<Rightarrow> (case v of VBytes bs \<Rightarrow> format_bytes bs out | _ \<Rightarrow> mismatch)
     | TArray element _ \<Rightarrow> (case v of
         VArray xs \<Rightarrow>
           and_then (push_char 91 out) (\<lambda>out.
           and_then (format_sequence (\<lambda>x out. format_value display S element x out) True xs out) (\<lambda>out.
           push_char 93 out))
       | _ \<Rightarrow> mismatch)
     | TRecord fs \<Rightarrow> (case v of
         VRecord vs \<Rightarrow>
           and_then (push_char 123 out) (\<lambda>out.
           and_then (format_sequence
               (\<lambda>(f, i, x) out.
                  and_then (push_str (rf_name f) out) (\<lambda>out.
                  and_then (push_char 58 out) (\<lambda>out.
                  format_value display S (rf_value_type f) x out)))
               True (zip fs vs) out) (\<lambda>out.
           push_char 125 out))
       | _ \<Rightarrow> mismatch)
     | TOption inner \<Rightarrow> (case v of
         VOptionNone \<Rightarrow> push_str (str ''none'') out
       | VOptionSome x \<Rightarrow>
           and_then (push_str (str ''some('') out) (\<lambda>out.
           and_then (format_value display S inner x out) (\<lambda>out.
           push_char 41 out))
       | _ \<Rightarrow> mismatch)
     | TResult ok error \<Rightarrow> (case v of
         VResultOk x \<Rightarrow>
           and_then (push_str (str ''ok('') out) (\<lambda>out.
           and_then (format_value display S ok x out) (\<lambda>out.
           push_char 41 out))
       | VResultError x \<Rightarrow>
           and_then (push_str (str ''error('') out) (\<lambda>out.
           and_then (format_value display S error x out) (\<lambda>out.
           push_char 41 out))
       | _ \<Rightarrow> mismatch)
     | TResourceHandle _ \<Rightarrow> Inl (LT_IdentityRequiresSelector t)
     | TJobHandle \<Rightarrow> Inl (LT_IdentityRequiresSelector t)
     | TEvent _ _ \<Rightarrow> Inl (LT_RuntimeOnly t)
     | TStream _ _ _ \<Rightarrow> Inl (LT_RuntimeOnly t))"
  by pat_completeness auto
termination
  by (relation "measure (\<lambda>(display, S, t, v, out). size v)") (auto dest: item_size entry_size)

declare format_value.simps [simp del]

definition format_graph_literal_text ::
  "'q external_api \<Rightarrow> ('q \<Rightarrow> rust_str) \<Rightarrow> 'q graph_schema \<Rightarrow> 'q typed_graph_value \<Rightarrow> literal_text_limits
     \<Rightarrow> literal_text_error + rust_str" where
  "format_graph_literal_text R display S tv limits =
     and_then (validate_text_limits limits) (\<lambda>_.
     and_then (map_err LT_Schema (validate_typed_value R S tv)) (\<lambda>_.
     and_then (reject_non_text_authority S (tv_value_type tv)) (\<lambda>_.
     and_then (format_value display S (tv_value_type tv) (tv_value tv)
         \<lparr>bt_value = [], bt_maximum_bytes = lt_maximum_bytes limits\<rparr>) (\<lambda>out.
     Inr (bt_value out)))))"

section \<open>Parser\<close>

text \<open>
  \<open>syntax_at p message\<close> is \<^verbatim>\<open>self.syntax(message)\<close>: it points at the parser's
  current offset. \<open>consume cs p\<close> moves the parser past the characters \<open>cs\<close>, which the
  callers have read from the rest.
\<close>

definition syntax_at :: "literal_parser \<Rightarrow> rust_str \<Rightarrow> literal_text_error" where
  "syntax_at p message = LT_Syntax (lp_offset p) message"

definition consume :: "nat list \<Rightarrow> literal_parser \<Rightarrow> literal_parser" where
  "consume cs p = p\<lparr>lp_rest := drop (length cs) (lp_rest p), lp_offset := lp_offset p + text_len cs\<rparr>"

definition peek_char :: "literal_parser \<Rightarrow> nat option" where
  "peek_char p = (case lp_rest p of [] \<Rightarrow> None | c # _ \<Rightarrow> Some c)"

definition next_char :: "literal_parser \<Rightarrow> nat option \<times> literal_parser" where
  "next_char p = (case peek_char p of None \<Rightarrow> (None, p) | Some c \<Rightarrow> (Some c, consume [c] p))"

definition skip_whitespace :: "literal_parser \<Rightarrow> literal_parser" where
  "skip_whitespace p = consume (takeWhile char_is_whitespace (lp_rest p)) p"

definition is_value_terminator :: "nat \<Rightarrow> bool" where
  "is_value_terminator c \<longleftrightarrow> c = 44 \<or> c = 93 \<or> c = 125 \<or> c = 41"

definition quoted_char :: "nat \<Rightarrow> rust_str" where
  "quoted_char c = str ''expected '' @ [39] @ utf8_encode c @ [39]"

definition expect_char :: "nat \<Rightarrow> literal_parser \<Rightarrow> literal_text_error + literal_parser" where
  "expect_char expected p =
     (case next_char (skip_whitespace p) of (c, p) \<Rightarrow>
        if c = Some expected then Inr p else Inl (syntax_at p (quoted_char expected)))"

definition expect_keyword :: "nat list \<Rightarrow> literal_parser \<Rightarrow> literal_text_error + literal_parser" where
  "expect_keyword keyword p =
     (let p = skip_whitespace p in
      if take (length keyword) (lp_rest p) = keyword then Inr (consume keyword p)
      else Inl (syntax_at p (str ''expected '' @ encode_str keyword)))"

definition consume_char :: "nat \<Rightarrow> literal_parser \<Rightarrow> bool \<times> literal_parser" where
  "consume_char expected p =
     (let p = skip_whitespace p in
      if peek_char p = Some expected then (True, snd (next_char p)) else (False, p))"

definition require_value_boundary :: "literal_parser \<Rightarrow> literal_text_error + unit" where
  "require_value_boundary p =
     (case peek_char p of
        None \<Rightarrow> Inr ()
      | Some c \<Rightarrow>
          if is_value_terminator c \<or> char_is_whitespace c then Inr ()
          else Inl (syntax_at p (str ''expected the end of the option value'')))"

text \<open>Tokens are slices of the source, trimmed; the standard library's parsers take their bytes.\<close>

definition take_scalar_token :: "literal_parser \<Rightarrow> rust_str \<times> literal_parser" where
  "take_scalar_token p =
     (let p = skip_whitespace p; token = takeWhile (\<lambda>c. \<not> is_value_terminator c) (lp_rest p)
      in (encode_str (str_trim token), consume token p))"

text \<open>The characters before \<^verbatim>\<open>..\<close>, unless a terminator or the end comes first.\<close>

fun find_separator :: "nat list \<Rightarrow> nat list option" where
  "find_separator [] = None"
| "find_separator (c # cs) =
     (if is_value_terminator c then None
      else if c = 46 \<and> take 1 cs = [46] then Some []
      else map_option ((#) c) (find_separator cs))"

definition take_interval_tokens ::
  "literal_parser \<Rightarrow> literal_text_error + (rust_str \<times> rust_str) \<times> literal_parser" where
  "take_interval_tokens p =
     (let p = skip_whitespace p in
      and_then (ok_or (syntax_at p (str ''interval requires lower..upper'')) (find_separator (lp_rest p))) (\<lambda>before.
      let lower = str_trim before in
      if lower = [] then Inl (syntax_at p (str ''interval lower endpoint cannot be empty''))
      else (case take_scalar_token (consume (before @ [46, 46]) p) of (upper, p) \<Rightarrow>
        Inr ((encode_str lower, upper), p))))"

text \<open>The characters before a colon, unless a comma, a brace or the end comes first.\<close>

fun find_colon :: "nat list \<Rightarrow> nat list option" where
  "find_colon [] = None"
| "find_colon (c # cs) =
     (if c = 58 then Some []
      else if c = 44 \<or> c = 125 then None
      else map_option ((#) c) (find_colon cs))"

definition take_record_field_name ::
  "literal_parser \<Rightarrow> literal_text_error + rust_str \<times> literal_parser" where
  "take_record_field_name p =
     (let p = skip_whitespace p in
      and_then (ok_or (syntax_at p (str ''record field requires name:value'')) (find_colon (lp_rest p))) (\<lambda>before.
      let p = consume before p; name = str_trim before in
      if name = [] then Inl (syntax_at p (str ''record field name is empty''))
      else Inr (encode_str name, p)))"

text \<open>
  The digit loop of \<^verbatim>\<open>parse_unicode_escape\<close>: the digits read, and whether it ended at
  a closing brace or the end rather than at a character it refuses.
\<close>

fun unicode_digits :: "nat \<Rightarrow> nat list \<Rightarrow> nat list \<times> bool" where
  "unicode_digits n [] = ([], True)"
| "unicode_digits n (c # cs) =
     (if c = 125 then ([], True)
      else if \<not> is_hex_digit c \<or> n = 6 then ([], False)
      else (case unicode_digits (Suc n) cs of (ds, good) \<Rightarrow> (c # ds, good)))"

definition parse_unicode_escape :: "literal_parser \<Rightarrow> literal_text_error + nat \<times> literal_parser" where
  "parse_unicode_escape p =
     (case next_char p of (c, p) \<Rightarrow>
      if c \<noteq> Some 123 then Inl (syntax_at p (str ''Unicode escape must begin with '' @ map word_of_nat [92, 117, 123]))
      else (case unicode_digits 0 (lp_rest p) of (digits, good) \<Rightarrow>
      let p = consume digits p in
      if \<not> good then Inl (syntax_at p (str ''Unicode escape must contain one to six hex digits''))
      else if digits = [] then Inl (syntax_at p (str ''unterminated Unicode escape''))
      else (case next_char p of (c, p) \<Rightarrow>
      if c \<noteq> Some 125 then Inl (syntax_at p (str ''unterminated Unicode escape''))
      else and_then (ok_or (syntax_at p (str ''Unicode escape is not a scalar value''))
             (char_from_u32 (hex_number digits))) (\<lambda>c. Inr (c, p)))))"

definition parse_escape :: "literal_parser \<Rightarrow> literal_text_error + nat \<times> literal_parser" where
  "parse_escape p =
     (case next_char p of
        (None, p) \<Rightarrow> Inl (syntax_at p (str ''unterminated text escape''))
      | (Some c, p) \<Rightarrow>
          if c = 34 then Inr (34, p)
          else if c = 92 then Inr (92, p)
          else if c = 110 then Inr (10, p)
          else if c = 114 then Inr (13, p)
          else if c = 116 then Inr (9, p)
          else if c = 48 then Inr (0, p)
          else if c = 117 then parse_unicode_escape p
          else Inl (syntax_at p (str ''unknown text escape'')))"

lemma consume_rest [simp]: "lp_rest (consume cs p) = drop (length cs) (lp_rest p)"
  and consume_offset [simp]: "lp_offset (consume cs p) = lp_offset p + text_len cs"
  and consume_nodes [simp]: "lp_nodes (consume cs p) = lp_nodes p"
  by (simp_all add: consume_def)

lemma next_char_shorter: "next_char p = (Some c, p') \<Longrightarrow> length (lp_rest p') < length (lp_rest p)"
  by (auto simp: next_char_def peek_char_def split: list.splits option.splits)

lemma next_char_length: "next_char p = (c, p') \<Longrightarrow> length (lp_rest p') \<le> length (lp_rest p)"
  by (auto simp: next_char_def peek_char_def split: list.splits option.splits)

lemma parse_unicode_escape_length:
  "parse_unicode_escape p = Inr (c, p') \<Longrightarrow> length (lp_rest p') \<le> length (lp_rest p)"
  by (fastforce simp: parse_unicode_escape_def Let_def split: prod.splits if_splits dest!: next_char_length)

lemma parse_escape_length: "parse_escape p = Inr (c, p') \<Longrightarrow> length (lp_rest p') \<le> length (lp_rest p)"
  using next_char_length[of p] parse_unicode_escape_length
  by (fastforce simp: parse_escape_def split: prod.splits option.splits if_splits)

function parse_text_loop :: "rust_str \<Rightarrow> literal_parser \<Rightarrow> literal_text_error + rust_str \<times> literal_parser" where
  "parse_text_loop value p =
     (case next_char p of
        (None, p') \<Rightarrow> Inl (syntax_at p' (str ''unterminated quoted text''))
      | (Some c, p') \<Rightarrow>
          if c = 34 then Inr (value, p')
          else if c = 92 then
            and_then (parse_escape p') (\<lambda>(e, p''). parse_text_loop (value @ utf8_encode e) p'')
          else if char_is_control c
            then Inl (syntax_at p' (str ''raw control character must be escaped''))
          else parse_text_loop (value @ utf8_encode c) p')"
  by pat_completeness auto
termination
  by (relation "measure (\<lambda>(value, p). length (lp_rest p))")
    (auto dest!: next_char_shorter[OF sym] parse_escape_length)

declare parse_text_loop.simps [simp del]

definition parse_text :: "literal_parser \<Rightarrow> literal_text_error + rust_str \<times> literal_parser" where
  "parse_text p = and_then (expect_char 34 p) (\<lambda>p. parse_text_loop [] p)"

text \<open>The scan of \<^verbatim>\<open>parse_bytes\<close> up to the closing quote, and the decoding of its digits.\<close>

fun hex_digits :: "nat list \<Rightarrow> nat list \<times> bool" where
  "hex_digits [] = ([], True)"
| "hex_digits (c # cs) =
     (if c = 34 then ([], True)
      else if \<not> is_hex_digit c then ([], False)
      else (case hex_digits cs of (ds, good) \<Rightarrow> (c # ds, good)))"

fun hex_bytes :: "graph_type_id \<Rightarrow> nat list \<Rightarrow> literal_text_error + bytes" where
  "hex_bytes t (hi # lo # ds) =
     and_then (ok_or (LT_InvalidHex t) (hex_nibble hi)) (\<lambda>high.
     and_then (ok_or (LT_InvalidHex t) (hex_nibble lo)) (\<lambda>low.
     and_then (hex_bytes t ds) (\<lambda>bs. Inr (word_of_nat (16 * high + low) # bs))))"
| "hex_bytes t _ = Inr []"

definition parse_bytes :: "graph_type_id \<Rightarrow> literal_parser \<Rightarrow> literal_text_error + bytes \<times> literal_parser" where
  "parse_bytes t p =
     and_then (expect_keyword [104, 101, 120] p) (\<lambda>p.
     case next_char (skip_whitespace p) of (c, p) \<Rightarrow>
     if c \<noteq> Some 34 then Inl (LT_InvalidHex t)
     else (case hex_digits (lp_rest p) of (digits, good) \<Rightarrow>
     if \<not> good then Inl (LT_InvalidHex t)
     else (case next_char (consume digits p) of (c, p) \<Rightarrow>
     if c \<noteq> Some 34 \<or> odd (length digits) then Inl (LT_InvalidHex t)
     else and_then (hex_bytes t digits) (\<lambda>bs. Inr (bs, p)))))"

text \<open>
  The structured values. \<open>elem\<close> stands for the recursive call at the next depth;
  \<open>parse_items\<close> is the loop of \<^verbatim>\<open>parse_array\<close> with the values read so far.
\<close>

function parse_items ::
  "(literal_parser \<Rightarrow> literal_text_error + 'v \<times> literal_parser) \<Rightarrow> nat \<Rightarrow> nat \<Rightarrow> 'v list \<Rightarrow> literal_parser
     \<Rightarrow> literal_text_error + 'v list \<times> literal_parser" where
  "parse_items elem maximum policy vs p =
     (if maximum \<le> length vs \<or> policy \<le> length vs then Inl (LT_Schema (SE_LimitExceeded ''array literal''))
      else and_then (elem p) (\<lambda>(v, p).
        case consume_char 93 (skip_whitespace p) of (ended, p) \<Rightarrow>
        if ended then Inr (vs @ [v], p)
        else and_then (expect_char 44 p) (\<lambda>p. parse_items elem maximum policy (vs @ [v]) p)))"
  by pat_completeness auto
termination
  by (relation "measure (\<lambda>(elem, maximum, policy, vs, p). maximum - length vs)") auto

declare parse_items.simps [simp del]

definition parse_array ::
  "(literal_parser \<Rightarrow> literal_text_error + 'q graph_value \<times> literal_parser) \<Rightarrow> u32 \<Rightarrow> nat \<Rightarrow> literal_parser
     \<Rightarrow> literal_text_error + 'q graph_value \<times> literal_parser" where
  "parse_array elem maximum policy p =
     and_then (expect_char 91 p) (\<lambda>p.
     case consume_char 93 (skip_whitespace p) of (ended, p) \<Rightarrow>
     if ended then Inr (VArray [], p)
     else and_then (parse_items elem (unat maximum) policy [] p) (\<lambda>(vs, p). Inr (VArray vs, p)))"

fun parse_fields ::
  "(graph_type_id \<Rightarrow> literal_parser \<Rightarrow> literal_text_error + 'v \<times> literal_parser) \<Rightarrow> bool \<Rightarrow> record_field list
     \<Rightarrow> literal_parser \<Rightarrow> literal_text_error + (record_field_id \<times> 'v) list \<times> literal_parser" where
  "parse_fields elem first [] p = Inr ([], p)"
| "parse_fields elem first (f # fs) p =
     and_then (if first then Inr p else expect_char 44 p) (\<lambda>p.
     and_then (take_record_field_name p) (\<lambda>(name, p).
     if name \<noteq> rf_name f
     then Inl (syntax_at p (str ''expected canonical field '' @ rf_name f @ str '' [f''
            @ nat_text (unat (rf_id f)) @ str '']''))
     else and_then (expect_char 58 p) (\<lambda>p.
     and_then (elem (rf_value_type f) p) (\<lambda>(v, p).
     and_then (parse_fields elem False fs p) (\<lambda>(vs, p). Inr ((rf_id f, v) # vs, p))))))"

definition parse_record ::
  "(graph_type_id \<Rightarrow> literal_parser \<Rightarrow> literal_text_error + 'q graph_value \<times> literal_parser)
     \<Rightarrow> record_field list \<Rightarrow> literal_parser \<Rightarrow> literal_text_error + 'q graph_value \<times> literal_parser" where
  "parse_record elem fs p =
     and_then (expect_char 123 p) (\<lambda>p.
     and_then (parse_fields elem True fs (skip_whitespace p)) (\<lambda>(vs, p).
     and_then (expect_char 125 p) (\<lambda>p. Inr (VRecord vs, p))))"

definition parse_option ::
  "(literal_parser \<Rightarrow> literal_text_error + 'q graph_value \<times> literal_parser) \<Rightarrow> literal_parser
     \<Rightarrow> literal_text_error + 'q graph_value \<times> literal_parser" where
  "parse_option elem p =
     (let p = skip_whitespace p in
      if take 4 (lp_rest p) = [110, 111, 110, 101] then
        (let p = consume [110, 111, 110, 101] p in
         and_then (require_value_boundary p) (\<lambda>_. Inr (VOptionNone, p)))
      else
        and_then (expect_keyword [115, 111, 109, 101] p) (\<lambda>p.
        and_then (expect_char 40 p) (\<lambda>p.
        and_then (elem p) (\<lambda>(v, p).
        and_then (expect_char 41 p) (\<lambda>p. Inr (VOptionSome v, p))))))"

definition parse_result ::
  "(literal_parser \<Rightarrow> literal_text_error + 'q graph_value \<times> literal_parser)
     \<Rightarrow> (literal_parser \<Rightarrow> literal_text_error + 'q graph_value \<times> literal_parser) \<Rightarrow> literal_parser
     \<Rightarrow> literal_text_error + 'q graph_value \<times> literal_parser" where
  "parse_result ok_elem error_elem p =
     (let p = skip_whitespace p in
      if take 2 (lp_rest p) = [111, 107] then
        and_then (expect_char 40 (consume [111, 107] p)) (\<lambda>p.
        and_then (ok_elem p) (\<lambda>(v, p).
        and_then (expect_char 41 p) (\<lambda>p. Inr (VResultOk v, p))))
      else if take 5 (lp_rest p) = [101, 114, 114, 111, 114] then
        and_then (expect_char 40 (consume [101, 114, 114, 111, 114] p)) (\<lambda>p.
        and_then (error_elem p) (\<lambda>(v, p).
        and_then (expect_char 41 p) (\<lambda>p. Inr (VResultError v, p))))
      else Inl (syntax_at p (str ''expected ok(value) or error(value)'')))"

text \<open>The recursive call may be replaced by an equal one; this is what the termination proof needs.\<close>

lemma parser_congs [fundef_cong]:
  "(\<And>p. e p = e' p) \<Longrightarrow> parse_array e m k p = parse_array e' m k p"
  "(\<And>p. e p = e' p) \<Longrightarrow> parse_option e p = parse_option e' p"
  "(\<And>p. e p = e' p) \<Longrightarrow> (\<And>p. g p = g' p) \<Longrightarrow> parse_result e g p = parse_result e' g' p"
  "(\<And>t p. h t p = h' t p) \<Longrightarrow> parse_record h fs p = parse_record h' fs p"
  by presburger+

function parse_value ::
  "'q external_api \<Rightarrow> 'q graph_schema \<Rightarrow> graph_type_id \<Rightarrow> nat \<Rightarrow> literal_parser
     \<Rightarrow> literal_text_error + 'q graph_value \<times> literal_parser" where
  "parse_value R S t depth p0 =
     (if maximum_value_depth (gs_limits S) < depth then Inl (LT_Schema SE_ValueDepthExceeded)
      else and_then (ok_or (LT_Schema SE_ValueNodeLimitExceeded) (checked_add_usize (lp_nodes p0) 1)) (\<lambda>nodes.
      if maximum_value_nodes (gs_limits S) < nodes then Inl (LT_Schema SE_ValueNodeLimitExceeded)
      else and_then (ok_or (LT_Schema (SE_UnknownType t)) (value_type S t)) (\<lambda>definition.
      let p = p0\<lparr>lp_nodes := nodes\<rparr> in
      case td_kind definition of
        TBoolean \<Rightarrow> (case take_scalar_token p of (token, p) \<Rightarrow>
          if token = str ''true'' then Inr (VBoolean True, p)
          else if token = str ''false'' then Inr (VBoolean False, p)
          else Inl (syntax_at p (str ''expected true or false'')))
      | TExactRational _ \<Rightarrow> (case take_scalar_token p of (token, p) \<Rightarrow>
          and_then (ok_or (LT_InvalidRational t) (rq_parse R token)) (\<lambda>q. Inr (VExactRational q, p)))
      | TMeasurementInterval _ \<Rightarrow>
          and_then (take_interval_tokens p) (\<lambda>((lower, upper), p).
          and_then (ok_or (LT_InvalidRational t) (rq_parse R lower)) (\<lambda>lo.
          and_then (ok_or (LT_InvalidRational t) (rq_parse R upper)) (\<lambda>hi.
          Inr (VMeasurementInterval lo hi, p))))
      | TCanonicalI64 _ _ \<Rightarrow> (case take_scalar_token p of (token, p) \<Rightarrow>
          and_then (ok_or (LT_InvalidSignedInteger t) (parse_i64 token)) (\<lambda>i. Inr (VCanonicalI64 i, p)))
      | TCanonicalU64 _ _ \<Rightarrow> (case take_scalar_token p of (token, p) \<Rightarrow>
          and_then (ok_or (LT_InvalidUnsignedInteger t) (parse_u64 token)) (\<lambda>n. Inr (VCanonicalU64 n, p)))
      | TText _ \<Rightarrow> and_then (parse_text p) (\<lambda>(s, p). Inr (VText s, p))
      | TBytes _ \<Rightarrow> and_then (parse_bytes t p) (\<lambda>(bs, p). Inr (VBytes bs, p))
      | TArray element maximum \<Rightarrow>
          parse_array (\<lambda>p. parse_value R S element (Suc depth) p) maximum (maximum_array_items (gs_limits S)) p
      | TRecord fs \<Rightarrow> parse_record (\<lambda>t p. parse_value R S t (Suc depth) p) fs p
      | TOption inner \<Rightarrow> parse_option (\<lambda>p. parse_value R S inner (Suc depth) p) p
      | TResult ok error \<Rightarrow>
          parse_result (\<lambda>p. parse_value R S ok (Suc depth) p) (\<lambda>p. parse_value R S error (Suc depth) p) p
      | TResourceHandle _ \<Rightarrow> Inl (LT_IdentityRequiresSelector t)
      | TJobHandle \<Rightarrow> Inl (LT_IdentityRequiresSelector t)
      | TEvent _ _ \<Rightarrow> Inl (LT_RuntimeOnly t)
      | TStream _ _ _ \<Rightarrow> Inl (LT_RuntimeOnly t))))"
  by pat_completeness auto
termination
  by (relation "measure (\<lambda>(R, S, t, depth, p). Suc (maximum_value_depth (gs_limits S)) - depth)") auto

declare parse_value.simps [simp del]

definition parse_graph_literal_text ::
  "'q external_api \<Rightarrow> 'q graph_schema \<Rightarrow> graph_type_id \<Rightarrow> rust_str \<Rightarrow> literal_text_limits
     \<Rightarrow> literal_text_error + 'q typed_graph_value" where
  "parse_graph_literal_text R S t source limits =
     and_then (validate_text_limits limits) (\<lambda>_.
     and_then (reject_non_text_authority S t) (\<lambda>_.
     if lt_maximum_bytes limits < length source
     then Inl (LT_InputTooLarge (length source) (lt_maximum_bytes limits))
     else and_then (parse_value R S t 1 \<lparr>lp_rest = chars source, lp_offset = 0, lp_nodes = 0\<rparr>) (\<lambda>(v, p).
     let p = skip_whitespace p in
     if lp_offset p \<noteq> length source then Inl (syntax_at p (str ''unexpected trailing input''))
     else map_err LT_Schema (try_new_typed_value R S t v))))"

section \<open>What the printer appends\<close>

text \<open>
  \<open>appends out out' s\<close>: the printer added the bytes \<open>s\<close> and stayed within its limit.
\<close>

definition appends :: "bounded_text \<Rightarrow> bounded_text \<Rightarrow> rust_str \<Rightarrow> bool" where
  "appends out out' s \<longleftrightarrow> out' = out\<lparr>bt_value := bt_value out @ s\<rparr>
     \<and> length (bt_value out @ s) \<le> bt_maximum_bytes out"

lemma appends_trans: "appends a b s \<Longrightarrow> appends b c u \<Longrightarrow> appends a c (s @ u)"
  by (simp add: appends_def)

lemma push_str_Inr: "push_str s out = Inr out' \<Longrightarrow> appends out out' s"
  by (auto simp: push_str_def appends_def split: if_splits)

lemma push_char_Inr: "push_char c out = Inr out' \<Longrightarrow> appends out out' (utf8_encode c)"
  by (auto simp: push_char_def appends_def len_utf8_def split: if_splits)

text \<open>Only the size limit makes the printer's pushes fail.\<close>

definition size_error :: "literal_text_error \<Rightarrow> bool" where
  "size_error e \<longleftrightarrow> (\<exists>n. e = LT_OutputTooLarge n)"

lemma push_Inl:
  "push_str s out = Inl e \<Longrightarrow> size_error e"
  "push_char c out = Inl e \<Longrightarrow> size_error e"
  by (auto simp: push_str_def push_char_def size_error_def split: if_splits)

definition escape_char :: "nat \<Rightarrow> nat list" where
  "escape_char c =
     (if c = 34 then [92, 34] else if c = 92 then [92, 92] else if c = 10 then [92, 110]
      else if c = 13 then [92, 114] else if c = 9 then [92, 116] else if c = 0 then [92, 48]
      else if char_is_control c then [92, 117, 123] @ hex_text c @ [125] else [c])"

lemma escape_scalar: "char_scalar c \<Longrightarrow> \<forall>d \<in> set (escape_char c). char_scalar d"
  using hex_text_digits[of c] by (auto simp: escape_char_def char_scalar_def)

lemma format_text_char_Inr:
  "format_text_char out c = Inr out' \<Longrightarrow> appends out out' (encode_str (escape_char c))"
proof -
  have hex: "encode_str (hex_text c) = map word_of_nat (hex_text c)"
    using hex_text_digits by (intro encode_str_ascii) auto
  have ascii: "utf8_encode d = [word_of_nat d]" if "d < 128" for d
    using that by (simp add: utf8_encode_def)
  show "format_text_char out c = Inr out' \<Longrightarrow> ?thesis"
    by (auto simp: format_text_char_def escape_char_def hex ascii dest!: push_str_Inr push_char_Inr split: if_splits)
qed

lemma format_text_char_Inl: "format_text_char out c = Inl e \<Longrightarrow> size_error e"
  by (auto simp: format_text_char_def dest: push_Inl split: if_splits)

lemma format_fold_Inr:
  assumes "\<And>out x out'. f out x = Inr out' \<Longrightarrow> appends out out' (g x)"
    and "length (bt_value out) \<le> bt_maximum_bytes out"
  shows "try_fold f out xs = Inr out' \<Longrightarrow> appends out out' (concat (map g xs))"
  using assms(2)
proof (induction xs arbitrary: out)
  case (Cons x xs)
  then obtain o1 where o1: "f out x = Inr o1" "try_fold f o1 xs = Inr out'" by auto
  note a = assms(1)[OF o1(1)]
  then have "length (bt_value o1) \<le> bt_maximum_bytes o1" by (auto simp: appends_def)
  from appends_trans[OF a Cons.IH[OF o1(2) this]] show ?case by simp
qed (simp add: appends_def)

lemma format_fold_Inl:
  assumes "\<And>out x e. f out x = Inl e \<Longrightarrow> size_error e"
  shows "try_fold f out xs = Inl e \<Longrightarrow> size_error e"
  by (induction xs arbitrary: out) (auto dest: assms)

text \<open>The characters of a printed text literal and a printed byte literal.\<close>

definition text_notation :: "rust_str \<Rightarrow> nat list" where
  "text_notation s = 34 # concat (map escape_char (chars s)) @ [34]"

definition bytes_notation :: "bytes \<Rightarrow> nat list" where
  "bytes_notation bs =
     [104, 101, 120, 34] @ concat (map (\<lambda>b. [hex_digit (unat b div 16), hex_digit (unat b mod 16)]) bs) @ [34]"

lemma encode_str_concat: "encode_str (concat xss) = concat (map encode_str xss)"
  by (induction xss) auto

lemma format_text_Inr:
  assumes "format_text s out = Inr out'"
  shows "appends out out' (encode_str (text_notation s))"
proof -
  from assms obtain o1 o2 where o: "push_char 34 out = Inr o1" "try_fold format_text_char o1 (chars s) = Inr o2"
    "push_char 34 o2 = Inr out'" by (auto simp: format_text_def)
  note a = push_char_Inr[OF o(1)]
  then have "length (bt_value o1) \<le> bt_maximum_bytes o1" by (auto simp: appends_def)
  from format_fold_Inr[OF format_text_char_Inr this o(2)]
  have "appends o1 o2 (concat (map (\<lambda>c. encode_str (escape_char c)) (chars s)))" by simp
  from appends_trans[OF a appends_trans[OF this push_char_Inr[OF o(3)]]]
  show ?thesis by (simp add: text_notation_def encode_str_concat comp_def)
qed

lemma nibbles: "unat (b :: u8) div 16 < 16" "unat b mod 16 < 16"
  using unat_u8_less[of b] by auto

lemma format_byte_Inr:
  "format_byte out b = Inr out' \<Longrightarrow>
     appends out out' (encode_str [hex_digit (unat b div 16), hex_digit (unat b mod 16)])"
  by (auto simp: format_byte_def dest!: push_char_Inr intro: appends_trans)

lemma format_byte_Inl: "format_byte out b = Inl e \<Longrightarrow> size_error e"
  by (auto simp: format_byte_def dest: push_Inl)

lemma format_bytes_Inr:
  assumes "format_bytes bs out = Inr out'"
  shows "appends out out' (encode_str (bytes_notation bs))"
proof -
  from assms obtain o1 o2 where o: "push_str (str ''hex'' @ [34]) out = Inr o1" "try_fold format_byte o1 bs = Inr o2"
    "push_char 34 o2 = Inr out'" by (auto simp: format_bytes_def)
  note a = push_str_Inr[OF o(1)]
  then have "length (bt_value o1) \<le> bt_maximum_bytes o1" by (auto simp: appends_def)
  from format_fold_Inr[OF format_byte_Inr this o(2)]
  have "appends o1 o2 (concat (map (\<lambda>b. encode_str [hex_digit (unat b div 16), hex_digit (unat b mod 16)]) bs))" .
  note all = appends_trans[OF a appends_trans[OF this push_char_Inr[OF o(3)]]]
  have "str ''hex'' @ [34] = encode_str [104, 101, 120, 34]" by (simp add: str_def utf8_encode_def)
  with all show ?thesis by (simp add: bytes_notation_def encode_str_concat comp_def)
qed

lemma format_literal_Inl:
  "format_text s out = Inl e \<Longrightarrow> size_error e"
  "format_bytes bs out = Inl e \<Longrightarrow> size_error e"
  using format_fold_Inl[of format_text_char, OF format_text_char_Inl]
    format_fold_Inl[of format_byte, OF format_byte_Inl]
  by (auto simp: format_text_def format_bytes_def dest: push_Inl)

section \<open>What the parser reads\<close>

abbreviation parser_at :: "nat list \<Rightarrow> nat \<Rightarrow> nat \<Rightarrow> literal_parser" where
  "parser_at cs off n \<equiv> \<lparr>lp_rest = cs, lp_offset = off, lp_nodes = n\<rparr>"

definition boundary :: "nat list \<Rightarrow> bool" where
  "boundary rest \<longleftrightarrow> rest = [] \<or> is_value_terminator (hd rest)"

lemma terminator_not_whitespace [simp]:
  "is_value_terminator c \<Longrightarrow> \<not> char_is_whitespace c"
  by (auto simp: is_value_terminator_def char_is_whitespace_def)

lemma consume_at [simp]: "consume cs (parser_at (cs @ rest) off n) = parser_at rest (off + text_len cs) n"
  by (simp add: consume_def)

lemma consume_one [simp]: "consume [c] (parser_at (c # rest) off n) = parser_at rest (off + len_utf8 c) n"
  by (simp add: consume_def)

lemma next_char_at [simp]:
  "next_char (parser_at (c # rest) off n) = (Some c, parser_at rest (off + len_utf8 c) n)"
  "next_char (parser_at [] off n) = (None, parser_at [] off n)"
  by (simp_all add: next_char_def peek_char_def)

lemma skip_whitespace_at [simp]:
  "\<not> char_is_whitespace c \<Longrightarrow> skip_whitespace (parser_at (c # rest) off n) = parser_at (c # rest) off n"
  "skip_whitespace (parser_at [] off n) = parser_at [] off n"
  by (simp_all add: skip_whitespace_def consume_def)

lemma skip_whitespace_start:
  "cs \<noteq> [] \<Longrightarrow> \<not> char_is_whitespace (hd cs) \<Longrightarrow>
     skip_whitespace (parser_at (cs @ rest) off n) = parser_at (cs @ rest) off n"
  by (cases cs) auto

lemma skip_whitespace_boundary:
  "boundary rest \<Longrightarrow> skip_whitespace (parser_at rest off n) = parser_at rest off n"
  by (cases rest) (auto simp: boundary_def)

lemma expect_char_at [simp]:
  "\<not> char_is_whitespace c \<Longrightarrow>
     expect_char c (parser_at (c # rest) off n) = Inr (parser_at rest (off + len_utf8 c) n)"
  by (simp add: expect_char_def)

lemma consume_char_at:
  "\<not> char_is_whitespace c \<Longrightarrow> consume_char d (parser_at (c # rest) off n) =
     (if c = d then (True, parser_at rest (off + len_utf8 c) n) else (False, parser_at (c # rest) off n))"
  by (simp add: consume_char_def peek_char_def)

lemma expect_keyword_at:
  "kw \<noteq> [] \<Longrightarrow> \<not> char_is_whitespace (hd kw) \<Longrightarrow>
     expect_keyword kw (parser_at (kw @ rest) off n) = Inr (parser_at rest (off + text_len kw) n)"
  by (simp add: expect_keyword_def skip_whitespace_start)

lemma takeWhile_boundary:
  assumes "\<forall>c \<in> set cs. \<not> is_value_terminator c" and "boundary rest"
  shows "takeWhile (\<lambda>c. \<not> is_value_terminator c) (cs @ rest) = cs"
  using assms by (cases rest) (auto simp: takeWhile_append boundary_def)

text \<open>A scalar's text is one token: it has no terminator and no blank at its ends.\<close>

definition token :: "nat list \<Rightarrow> bool" where
  "token cs \<longleftrightarrow> cs \<noteq> [] \<and> \<not> char_is_whitespace (hd cs) \<and> \<not> char_is_whitespace (last cs)
     \<and> (\<forall>c \<in> set cs. c < 128 \<and> \<not> is_value_terminator c)"

lemma take_scalar_token_at:
  assumes "token cs" and "boundary rest"
  shows "take_scalar_token (parser_at (cs @ rest) off n) =
    (encode_str cs, parser_at rest (off + text_len cs) n)"
  using assms takeWhile_boundary[of cs rest]
  by (simp add: token_def take_scalar_token_def skip_whitespace_start str_trim_id)

fun no_separator :: "nat list \<Rightarrow> bool" where
  "no_separator [] = True"
| "no_separator [c] = (c \<noteq> 46)"
| "no_separator (c # d # cs) = (\<not> (c = 46 \<and> d = 46) \<and> no_separator (d # cs))"

lemma find_separator_at:
  "\<forall>c \<in> set cs. \<not> is_value_terminator c \<Longrightarrow> no_separator cs \<Longrightarrow> find_separator (cs @ 46 # 46 # rest) = Some cs"
proof -
  have "\<not> is_value_terminator 46" by (simp add: is_value_terminator_def)
  then show "\<forall>c \<in> set cs. \<not> is_value_terminator c \<Longrightarrow> no_separator cs \<Longrightarrow> ?thesis"
    by (induction cs rule: no_separator.induct) auto
qed

lemma take_interval_tokens_at:
  assumes "token lo" "no_separator lo" "token hi" "boundary rest"
  shows "take_interval_tokens (parser_at (lo @ 46 # 46 # hi @ rest) off n) =
    Inr ((encode_str lo, encode_str hi), parser_at rest (off + text_len (lo @ 46 # 46 # hi)) n)"
proof -
  have "skip_whitespace (parser_at (lo @ 46 # 46 # hi @ rest) off n) = parser_at (lo @ 46 # 46 # hi @ rest) off n"
    using assms by (intro skip_whitespace_start) (auto simp: token_def)
  moreover have "find_separator (lo @ 46 # 46 # hi @ rest) = Some lo"
    using assms by (intro find_separator_at) (auto simp: token_def)
  moreover have "take_scalar_token (consume (lo @ [46, 46]) (parser_at (lo @ 46 # 46 # hi @ rest) off n))
      = (encode_str hi, parser_at rest (off + text_len (lo @ 46 # 46 # hi)) n)"
    using take_scalar_token_at[OF assms(3,4), of "off + text_len (lo @ [46, 46])" n]
    by (simp add: consume_def add.assoc)
  moreover have "str_trim lo = lo" "lo \<noteq> []" using assms(1) by (auto simp: token_def str_trim_id)
  ultimately show ?thesis by (simp add: take_interval_tokens_def Let_def)
qed

lemma find_colon_at:
  "\<forall>c \<in> set cs. c \<noteq> 58 \<and> c \<noteq> 44 \<and> c \<noteq> 125 \<Longrightarrow> find_colon (cs @ 58 # rest) = Some cs"
  by (induction cs) auto

lemma take_record_field_name_at:
  assumes "cs \<noteq> []" "\<forall>c \<in> set cs. c \<noteq> 58 \<and> c \<noteq> 44 \<and> c \<noteq> 125 \<and> \<not> char_is_whitespace c"
  shows "take_record_field_name (parser_at (cs @ 58 # rest) off n) =
    Inr (encode_str cs, parser_at (58 # rest) (off + text_len cs) n)"
proof -
  have "\<not> char_is_whitespace (hd cs)" "\<not> char_is_whitespace (last cs)" using assms by auto
  then have "skip_whitespace (parser_at (cs @ 58 # rest) off n) = parser_at (cs @ 58 # rest) off n"
    "str_trim cs = cs"
    using assms by (auto intro: skip_whitespace_start str_trim_id)
  moreover have "find_colon (cs @ 58 # rest) = Some cs" using assms by (intro find_colon_at) auto
  ultimately show ?thesis
    using assms by (simp add: take_record_field_name_def Let_def)
qed

text \<open>A printed text literal reads back.\<close>

lemma unicode_digits_at:
  "\<forall>d \<in> set ds. is_hex_digit d \<and> d \<noteq> 125 \<Longrightarrow> k + length ds \<le> 6 \<Longrightarrow>
     unicode_digits k (ds @ 125 # rest) = (ds, True)"
  by (induction ds arbitrary: k) auto

lemma parse_unicode_escape_at:
  assumes "c < 160" and "char_scalar c"
  shows "parse_unicode_escape (parser_at (123 # hex_text c @ 125 # rest) off n) =
    Inr (c, parser_at rest (off + text_len (123 # hex_text c @ [125])) n)"
proof -
  have "unicode_digits 0 (hex_text c @ 125 # rest) = (hex_text c, True)"
    using hex_text_digits hex_text_short[of c] assms by (intro unicode_digits_at) auto
  then show ?thesis
    using assms by (simp add: parse_unicode_escape_def Let_def hex_text_nonempty hex_number_text char_from_u32_def)
qed

lemma parse_text_loop_escape:
  assumes "char_scalar c"
  shows "parse_text_loop acc (parser_at (escape_char c @ rest) off n) =
    parse_text_loop (acc @ utf8_encode c) (parser_at rest (off + text_len (escape_char c)) n)"
proof -
  consider (special) "c \<in> {34, 92, 10, 13, 9, 0}"
    | (control) "c \<notin> {34, 92, 10, 13, 9, 0}" "char_is_control c"
    | (plain) "c \<notin> {34, 92, 10, 13, 9, 0}" "\<not> char_is_control c"
    by blast
  then show ?thesis
  proof cases
    case special
    then show ?thesis
      by (subst parse_text_loop.simps) (auto simp: escape_char_def parse_escape_def)
  next
    case control
    then have "c < 160" by (auto simp: char_is_control_def)
    then show ?thesis
      using control parse_unicode_escape_at[OF _ assms, of rest]
      by (subst parse_text_loop.simps) (simp add: escape_char_def parse_escape_def)
  next
    case plain
    then show ?thesis by (subst parse_text_loop.simps) (simp add: escape_char_def)
  qed
qed

lemma parse_text_loop_escapes:
  "\<forall>c \<in> set cs. char_scalar c \<Longrightarrow>
     parse_text_loop acc (parser_at (concat (map escape_char cs) @ 34 # rest) off n) =
       Inr (acc @ encode_str cs, parser_at rest (off + text_len (concat (map escape_char cs)) + 1) n)"
proof (induction cs arbitrary: acc off)
  case Nil
  then show ?case by (subst parse_text_loop.simps) simp
next
  case (Cons c cs)
  then show ?case
    using parse_text_loop_escape[of c acc "concat (map escape_char cs) @ 34 # rest" off n] by simp
qed

lemma parse_text_at:
  assumes "utf8_valid s"
  shows "parse_text (parser_at (text_notation s @ rest) off n) =
    Inr (s, parser_at rest (off + text_len (text_notation s)) n)"
proof -
  obtain cs where cs: "utf8_chars s = Some cs" using assms by (auto simp: utf8_valid_def)
  have s: "s = encode_str cs" "\<forall>c \<in> set cs. char_scalar c" using utf8_chars_decode[OF cs] by auto
  have "\<not> char_is_whitespace 34" by (simp add: char_is_whitespace_def)
  then show ?thesis
    using parse_text_loop_escapes[OF s(2), of "[]" rest] cs
    by (simp add: parse_text_def text_notation_def chars_def s(1) add.assoc)
qed

text \<open>So does a printed byte literal.\<close>

lemma hex_digits_at:
  "\<forall>d \<in> set ds. is_hex_digit d \<and> d \<noteq> 34 \<Longrightarrow> hex_digits (ds @ 34 # rest) = (ds, True)"
  by (induction ds) auto

lemma hex_bytes_at:
  "hex_bytes t (concat (map (\<lambda>b. [hex_digit (unat b div 16), hex_digit (unat b mod 16)]) bs)) = Inr bs"
proof (induction bs)
  case (Cons b bs)
  have "(word_of_nat (16 * (unat b div 16) + unat b mod 16) :: u8) = b" by (simp del: of_nat_add of_nat_mult)
  with Cons show ?case by (simp add: nibbles del: of_nat_add of_nat_mult)
qed simp

lemma parse_bytes_at:
  "parse_bytes t (parser_at (bytes_notation bs @ rest) off n) =
    Inr (bs, parser_at rest (off + text_len (bytes_notation bs)) n)"
proof -
  define ds where "ds = concat (map (\<lambda>b. [hex_digit (unat b div 16), hex_digit (unat b mod 16)]) bs)"
  have ds: "\<forall>d \<in> set ds. is_hex_digit d \<and> d \<noteq> 34" using nibbles by (auto simp: ds_def)
  have even: "even (length ds)" unfolding ds_def by (induction bs) auto
  have ws: "\<not> char_is_whitespace 104" "\<not> char_is_whitespace 34" by (simp_all add: char_is_whitespace_def)
  have kw: "expect_keyword [104, 101, 120] (parser_at ([104, 101, 120] @ 34 # ds @ 34 # rest) off n) =
    Inr (parser_at (34 # ds @ 34 # rest) (off + 3) n)"
    by (subst expect_keyword_at) (simp_all add: ws)
  have "parse_bytes t (parser_at ([104, 101, 120] @ 34 # ds @ 34 # rest) off n) =
    Inr (bs, parser_at rest (off + 5 + text_len ds) n)"
    unfolding parse_bytes_def kw
    using hex_bytes_at[of t bs] by (simp add: ws hex_digits_at[OF ds] even ds_def[symmetric])
  then show ?thesis by (simp add: bytes_notation_def ds_def[symmetric] add.assoc add.commute)
qed

section \<open>Printed literals read back\<close>

text \<open>
  \<open>reads_as B elem x cs k\<close>: before a terminator, the parser \<open>elem\<close> reads the characters
  \<open>cs\<close> as the value \<open>x\<close> of \<open>k\<close> nodes, within a budget of \<open>B\<close>.
\<close>

definition reads_as ::
  "nat \<Rightarrow> (literal_parser \<Rightarrow> literal_text_error + 'v \<times> literal_parser) \<Rightarrow> 'v \<Rightarrow> nat list \<Rightarrow> nat \<Rightarrow> bool" where
  "reads_as B elem x cs k \<longleftrightarrow> (\<forall>rest off n. boundary rest \<longrightarrow> n + k \<le> B \<longrightarrow>
     elem (parser_at (cs @ rest) off n) = Inr (x, parser_at rest (off + text_len cs) (n + k)))"

lemma reads_asD:
  "reads_as B elem x cs k \<Longrightarrow> boundary rest \<Longrightarrow> n + k \<le> B \<Longrightarrow>
     elem (parser_at (cs @ rest) off n) = Inr (x, parser_at rest (off + text_len cs) (n + k))"
  by (simp add: reads_as_def)

definition starts_value :: "nat list \<Rightarrow> bool" where
  "starts_value cs \<longleftrightarrow> cs \<noteq> [] \<and> \<not> char_is_whitespace (hd cs) \<and> hd cs \<noteq> 93 \<and> (\<forall>c \<in> set cs. char_scalar c)"

definition denotes :: "'q external_api \<Rightarrow> 'q graph_schema \<Rightarrow> graph_type_id \<Rightarrow> 'q graph_value \<Rightarrow> nat list \<Rightarrow> bool" where
  "denotes R S t v cs \<longleftrightarrow> starts_value cs \<and>
     (\<forall>d. d + value_depth v \<le> Suc (maximum_value_depth (gs_limits S)) \<longrightarrow>
        reads_as (node_bound S) (parse_value R S t d) v cs (value_nodes v))"

text \<open>The text of a sequence: elements with commas between them.\<close>

definition tails :: "nat list list \<Rightarrow> nat list" where
  "tails css = concat (map ((#) 44) css)"

definition joined :: "nat list list \<Rightarrow> nat list" where
  "joined css = (case css of [] \<Rightarrow> [] | cs # css \<Rightarrow> cs @ tails css)"

lemma tails_simps [simp]: "tails [] = []" "tails (cs # css) = 44 # cs @ tails css"
  by (simp_all add: tails_def)

lemma joined_simps [simp]: "joined [] = []" "joined (cs # css) = cs @ tails css"
  by (simp_all add: joined_def)

lemma format_sequence_Inr:
  assumes "format_sequence f first xs out = Inr out'"
    and "length (bt_value out) \<le> bt_maximum_bytes out"
    and "\<And>x out out'. x \<in> set xs \<Longrightarrow> f x out = Inr out' \<Longrightarrow> \<exists>cs. appends out out' (encode_str cs) \<and> P x cs"
  shows "\<exists>css. list_all2 P xs css \<and> appends out out' (encode_str (if first then joined css else tails css))"
  using assms
proof (induction xs arbitrary: first out)
  case Nil
  then show ?case by (auto simp: appends_def)
next
  case (Cons x xs)
  from Cons.prems(1) obtain o1 o2 where o1: "(if first then Inr out else push_char 44 out) = Inr o1"
    and o2: "f x o1 = Inr o2" and tl: "format_sequence f False xs o2 = Inr out'" by auto
  from Cons.prems(3)[OF _ o2] obtain cs where cs: "appends o1 o2 (encode_str cs)" "P x cs" by auto
  have a: "appends out o1 (encode_str (if first then [] else [44]))"
    using o1 Cons.prems(2) by (cases first) (auto simp: appends_def dest: push_char_Inr)
  have "length (bt_value o2) \<le> bt_maximum_bytes o2" using cs(1) by (auto simp: appends_def)
  from Cons.IH[OF tl this] Cons.prems(3) obtain css where
    css: "list_all2 P xs css" "appends o2 out' (encode_str (tails css))" by auto
  from appends_trans[OF a appends_trans[OF cs(1) css(2)]]
  have "appends out out' (encode_str (if first then joined (cs # css) else tails (cs # css)))"
    by (simp split: if_splits)
  with css(1) cs(2) show ?case by (intro exI[of _ "cs # css"]) simp
qed

lemma terminators [simp]:
  "is_value_terminator 44" "is_value_terminator 93" "is_value_terminator 125" "is_value_terminator 41"
  by (simp_all add: is_value_terminator_def)

lemma not_blank [simp]:
  "\<not> char_is_whitespace 34" "\<not> char_is_whitespace 40" "\<not> char_is_whitespace 41" "\<not> char_is_whitespace 44"
  "\<not> char_is_whitespace 58" "\<not> char_is_whitespace 91" "\<not> char_is_whitespace 93"
  "\<not> char_is_whitespace 123" "\<not> char_is_whitespace 125"
  by (simp_all add: char_is_whitespace_def)

lemma boundary_Cons [simp]: "boundary (c # cs) \<longleftrightarrow> is_value_terminator c"
  and boundary_Nil [simp]: "boundary []"
  by (simp_all add: boundary_def)

lemma boundary_tails: "is_value_terminator c \<Longrightarrow> boundary (tails css @ c # rest)"
  by (cases css) simp_all

lemma parse_items_at:
  assumes "list_all2 (\<lambda>x cs. reads_as B elem x cs (k x)) xs css" and "reads_as B elem x cs (k x)"
    and "n + k x + (\<Sum>y \<leftarrow> xs. k y) \<le> B" and "length vs + Suc (length xs) \<le> m" and "length vs + Suc (length xs) \<le> q"
  shows "parse_items elem m q vs (parser_at (cs @ tails css @ 93 # rest) off n) =
    Inr (vs @ x # xs, parser_at rest (off + text_len (cs @ tails css) + 1) (n + k x + (\<Sum>y \<leftarrow> xs. k y)))"
  using assms
proof (induction xs css arbitrary: vs x cs off n rule: list_all2_induct)
  case Nil
  then have "elem (parser_at (cs @ 93 # rest) off n) = Inr (x, parser_at (93 # rest) (off + text_len cs) (n + k x))"
    by (intro reads_asD) auto
  with Nil show ?case by (subst parse_items.simps) (simp add: consume_char_at)
next
  case (Cons y xs ds css)
  have here: "elem (parser_at (cs @ tails (ds # css) @ 93 # rest) off n) =
    Inr (x, parser_at (tails (ds # css) @ 93 # rest) (off + text_len cs) (n + k x))"
    using Cons.prems by (intro reads_asD) auto
  have "parse_items elem m q (vs @ [x]) (parser_at (ds @ tails css @ 93 # rest) (off + text_len cs + 1) (n + k x)) =
    Inr ((vs @ [x]) @ y # xs, parser_at rest (off + text_len cs + 1 + text_len (ds @ tails css) + 1)
      (n + k x + k y + (\<Sum>z \<leftarrow> xs. k z)))"
    using Cons.prems Cons.hyps by (intro Cons.IH) auto
  with here Cons.prems show ?case
    by (subst parse_items.simps) (simp add: consume_char_at add.assoc)
qed

lemma parse_array_at:
  assumes "list_all2 (\<lambda>x cs. reads_as B elem x cs (k x) \<and> starts_value cs) xs css"
    and "n + (\<Sum>y \<leftarrow> xs. k y) \<le> B" and "length xs \<le> unat m" and "length xs \<le> q"
  shows "parse_array elem m q (parser_at (91 # joined css @ 93 # rest) off n) =
    Inr (VArray xs, parser_at rest (off + text_len (joined css) + 2) (n + (\<Sum>y \<leftarrow> xs. k y)))"
proof (cases xs)
  case Nil
  with assms(1) show ?thesis by (simp add: parse_array_def consume_char_at)
next
  case (Cons x ys)
  with assms(1) obtain cs dss where css: "css = cs # dss" and x: "reads_as B elem x cs (k x)" "starts_value cs"
    and both: "list_all2 (\<lambda>x cs. reads_as B elem x cs (k x) \<and> starts_value cs) ys dss"
    by (auto simp: list_all2_Cons1)
  have ys: "list_all2 (\<lambda>x cs. reads_as B elem x cs (k x)) ys dss"
    using both by (rule list_all2_mono) simp
  obtain c cs' where cs: "cs = c # cs'" "\<not> char_is_whitespace c" "c \<noteq> 93"
    using x(2) by (cases cs) (auto simp: starts_value_def)
  have "parse_items elem (unat m) q [] (parser_at (cs @ tails dss @ 93 # rest) (off + 1) n) =
    Inr ([] @ x # ys, parser_at rest (off + 1 + text_len (cs @ tails dss) + 1) (n + k x + (\<Sum>y \<leftarrow> ys. k y)))"
    using assms(2-4) Cons by (intro parse_items_at[OF ys x(1)]) auto
  then show ?thesis
    using cs by (simp add: parse_array_def consume_char_at css Cons add.assoc)
qed

text \<open>A field name of a registered record is an ASCII identifier.\<close>

definition name_chars :: "rust_str \<Rightarrow> nat list" where
  "name_chars s = map unat s"

lemma name_chars_ok:
  assumes "valid_stable_name s"
  shows "name_chars s \<noteq> []" "encode_str (name_chars s) = s" "hd (name_chars s) \<noteq> 93"
    and "\<forall>c \<in> set (name_chars s). c < 128 \<and> c \<noteq> 58 \<and> c \<noteq> 44 \<and> c \<noteq> 125 \<and> \<not> char_is_whitespace c"
proof -
  have ascii: "b \<in> set s \<Longrightarrow> is_ascii_alphanumeric b \<or> b = 95 \<or> b = 45 \<or> b = 46" for b
    using assms by (auto simp: valid_stable_name_def)
  have small: "unat b < 128 \<and> unat b \<noteq> 58 \<and> unat b \<noteq> 44 \<and> unat b \<noteq> 125 \<and> \<not> char_is_whitespace (unat b)
    \<and> unat b \<noteq> 93" if "b \<in> set s" for b
    using ascii[OF that]
    by (auto simp: is_ascii_alphanumeric_def is_ascii_alphabetic_def is_ascii_digit_def char_is_whitespace_def)
  then show "\<forall>c \<in> set (name_chars s). c < 128 \<and> c \<noteq> 58 \<and> c \<noteq> 44 \<and> c \<noteq> 125 \<and> \<not> char_is_whitespace c"
    by (auto simp: name_chars_def)
  show "name_chars s \<noteq> []" using assms by (simp add: name_chars_def valid_stable_name_def)
  show "encode_str (name_chars s) = s" unfolding name_chars_def using small by (intro encode_str_map_unat) auto
  show "hd (name_chars s) \<noteq> 93" using assms small by (cases s) (auto simp: name_chars_def valid_stable_name_def)
qed

text \<open>The text of one field of a record.\<close>

definition reads_field ::
  "nat \<Rightarrow> (graph_type_id \<Rightarrow> literal_parser \<Rightarrow> literal_text_error + 'v \<times> literal_parser) \<Rightarrow> ('v \<Rightarrow> nat)
     \<Rightarrow> record_field \<times> record_field_id \<times> 'v \<Rightarrow> nat list \<Rightarrow> bool" where
  "reads_field B elem k fiv fcs \<longleftrightarrow> (case fiv of (f, i, x) \<Rightarrow>
     rf_id f = i \<and> valid_stable_name (rf_name f)
     \<and> (\<exists>cs. fcs = name_chars (rf_name f) @ 58 # cs \<and> reads_as B (elem (rf_value_type f)) x cs (k x)))"

lemma parse_fields_at:
  assumes "list_all2 (reads_field B elem k) zs css" and "n + (\<Sum>z \<leftarrow> zs. k (snd (snd z))) \<le> B"
  shows "parse_fields elem first (map fst zs)
      (parser_at ((if first then joined css else tails css) @ 125 # rest) off n) =
    Inr (map snd zs, parser_at (125 # rest) (off + text_len (if first then joined css else tails css))
      (n + (\<Sum>z \<leftarrow> zs. k (snd (snd z)))))"
  using assms
proof (induction zs css arbitrary: first off n rule: list_all2_induct)
  case (Cons z zs fcs css)
  obtain f i x where z: "z = (f, i, x)" by (cases z)
  with Cons.hyps obtain cs where f: "rf_id f = i" "valid_stable_name (rf_name f)"
    and fcs: "fcs = name_chars (rf_name f) @ 58 # cs" and cs: "reads_as B (elem (rf_value_type f)) x cs (k x)"
    by (auto simp: reads_field_def)
  note name = name_chars_ok[OF f(2)]
  let ?tl = "tails css @ 125 # rest"
  define off1 where "off1 = (if first then off else off + 1)"
  have start: "(if first then Inr (parser_at ((if first then joined (fcs # css) else tails (fcs # css)) @ 125 # rest) off n)
      else expect_char 44 (parser_at ((if first then joined (fcs # css) else tails (fcs # css)) @ 125 # rest) off n))
    = Inr (parser_at (name_chars (rf_name f) @ 58 # cs @ ?tl) off1 n)"
    by (simp add: fcs off1_def)
  have nm: "take_record_field_name (parser_at (name_chars (rf_name f) @ 58 # cs @ ?tl) off1 n) =
      Inr (rf_name f, parser_at (58 # cs @ ?tl) (off1 + text_len (name_chars (rf_name f))) n)"
    using take_record_field_name_at[of "name_chars (rf_name f)"] name by simp
  have el: "elem (rf_value_type f) (parser_at (cs @ ?tl) o1 n) = Inr (x, parser_at ?tl (o1 + text_len cs) (n + k x))" for o1
    using Cons.prems z by (intro reads_asD[OF cs] boundary_tails) auto
  have tl: "parse_fields elem False (map fst zs) (parser_at ?tl o1 (n + k x)) =
      Inr (map snd zs, parser_at (125 # rest) (o1 + text_len (tails css)) (n + k x + (\<Sum>z \<leftarrow> zs. k (snd (snd z)))))" for o1
    using Cons.IH[of "n + k x" False o1] Cons.prems z by simp
  show ?case
    unfolding list.map z fst_conv parse_fields.simps start and_then.simps nm
    by (simp add: el tl f(1) fcs off1_def add.assoc)
qed simp

lemma parse_record_at:
  assumes "list_all2 (reads_field B elem k) zs css" and "n + (\<Sum>z \<leftarrow> zs. k (snd (snd z))) \<le> B"
  shows "parse_record elem (map fst zs) (parser_at (123 # joined css @ 125 # rest) off n) =
    Inr (VRecord (map snd zs), parser_at rest (off + text_len (joined css) + 2) (n + (\<Sum>z \<leftarrow> zs. k (snd (snd z)))))"
proof -
  have "\<exists>c r. joined css @ 125 # rest = c # r \<and> \<not> char_is_whitespace c"
  proof (cases css)
    case Nil
    then show ?thesis by simp
  next
    case (Cons fcs dss)
    with assms(1) obtain f i x where "reads_field B elem k (f, i, x) fcs" by (auto simp: list_all2_Cons2)
    then obtain cs where "fcs = name_chars (rf_name f) @ 58 # cs" "valid_stable_name (rf_name f)"
      by (auto simp: reads_field_def)
    with name_chars_ok[of "rf_name f"] Cons show ?thesis by (cases "name_chars (rf_name f)") auto
  qed
  then have "skip_whitespace (parser_at (joined css @ 125 # rest) (off + 1) n) = parser_at (joined css @ 125 # rest) (off + 1) n"
    by auto
  then show ?thesis
    using parse_fields_at[OF assms, of True rest "off + 1"] by (simp add: parse_record_def add.assoc)
qed

text \<open>
  The documented behaviour of the rational's text the notation relies on: it parses back, it is
  one token of ASCII characters, and it neither holds two dots in a row nor ends in one.
\<close>

definition rational_display_laws :: "'q external_api \<Rightarrow> ('q \<Rightarrow> rust_str) \<Rightarrow> bool" where
  "rational_display_laws R display \<longleftrightarrow> (\<forall>q. rq_parse R (display q) = Some q
     \<and> token (map unat (display q)) \<and> no_separator (map unat (display q)))"

text \<open>A \<^verbatim>\<open>String\<close> in a value is UTF-8.\<close>

fun texts_valid :: "'q graph_value \<Rightarrow> bool" where
  "texts_valid (VText s) \<longleftrightarrow> utf8_valid s"
| "texts_valid (VArray xs) \<longleftrightarrow> (\<forall>x \<in> set xs. texts_valid x)"
| "texts_valid (VRecord vs) \<longleftrightarrow> (\<forall>iv \<in> set vs. texts_valid (snd iv))"
| "texts_valid (VOptionSome x) \<longleftrightarrow> texts_valid x"
| "texts_valid (VResultOk x) \<longleftrightarrow> texts_valid x"
| "texts_valid (VResultError x) \<longleftrightarrow> texts_valid x"
| "texts_valid v \<longleftrightarrow> True"

lemma denotesI:
  assumes "starts_value cs"
    and "\<And>d rest off n. boundary rest \<Longrightarrow> d \<le> maximum_value_depth (gs_limits S) \<Longrightarrow>
      d + value_depth v \<le> Suc (maximum_value_depth (gs_limits S)) \<Longrightarrow> n + 1 \<le> usize_max \<Longrightarrow>
      n + 1 \<le> maximum_value_nodes (gs_limits S) \<Longrightarrow> n + value_nodes v \<le> node_bound S \<Longrightarrow>
      parse_value R S t d (parser_at (cs @ rest) off n) =
        Inr (v, parser_at rest (off + text_len cs) (n + value_nodes v))"
  shows "denotes R S t v cs"
  unfolding denotes_def reads_as_def
  using assms value_depth_positive[of v] value_nodes_positive[of v] by (auto simp: node_bound_def)

lemma denotes_reads:
  "denotes R S t v cs \<Longrightarrow> d + value_depth v \<le> Suc (maximum_value_depth (gs_limits S)) \<Longrightarrow>
     reads_as (node_bound S) (parse_value R S t d) v cs (value_nodes v)"
  by (simp add: denotes_def)

lemma char_scalar_ascii [simp]: "c < 128 \<Longrightarrow> char_scalar c"
  by (simp add: char_scalar_def)

lemma token_starts: "token cs \<Longrightarrow> starts_value cs"
  by (cases cs) (auto simp: token_def starts_value_def)

lemma ascii_text: "token (map unat s) \<Longrightarrow> encode_str (map unat s) = s"
  by (intro encode_str_map_unat) (auto simp: token_def)

text \<open>Scalars, given their token.\<close>

lemma denotes_boolean:
  assumes "value_type S t = Some D" and "td_kind D = TBoolean"
  shows "denotes R S t (VBoolean b) (if b then [116, 114, 117, 101] else [102, 97, 108, 115, 101])"
    (is "denotes R S t _ ?cs")
proof (rule denotesI)
  have tok: "token ?cs" by (simp add: token_def char_is_whitespace_def is_value_terminator_def)
  then show "starts_value ?cs" by (rule token_starts)
  have enc: "encode_str ?cs = (if b then str ''true'' else str ''false'')" "str ''true'' \<noteq> str ''false''"
    by (simp_all add: str_def utf8_encode_def)
  fix d rest off n
  assume "boundary rest" "d \<le> maximum_value_depth (gs_limits S)" "n + 1 \<le> usize_max"
    "n + 1 \<le> maximum_value_nodes (gs_limits S)"
  then show "parse_value R S t d (parser_at (?cs @ rest) off n) =
      Inr (VBoolean b, parser_at rest (off + text_len ?cs) (n + value_nodes (VBoolean b)))"
    using take_scalar_token_at[OF tok, of rest off "n + 1"] enc
    by (subst parse_value.simps) (simp add: assms split: if_splits)
qed

lemma denotes_rational:
  assumes "value_type S t = Some D" and "td_kind D = TExactRational u" and "rational_display_laws R display"
  shows "denotes R S t (VExactRational q) (map unat (display q))"
proof (rule denotesI)
  from assms(3) have tok: "token (map unat (display q))" and q: "rq_parse R (display q) = Some q"
    by (auto simp: rational_display_laws_def)
  then show "starts_value (map unat (display q))" by (auto intro: token_starts)
  fix d rest off n
  assume "boundary rest" "d \<le> maximum_value_depth (gs_limits S)" "n + 1 \<le> usize_max"
    "n + 1 \<le> maximum_value_nodes (gs_limits S)"
  then show "parse_value R S t d (parser_at (map unat (display q) @ rest) off n) =
      Inr (VExactRational q, parser_at rest (off + text_len (map unat (display q))) (n + value_nodes (VExactRational q)))"
    using take_scalar_token_at[OF tok, of rest off "n + 1"] q
    by (subst parse_value.simps) (simp add: assms ascii_text[OF tok])
qed

lemma denotes_interval:
  assumes "value_type S t = Some D" and "td_kind D = TMeasurementInterval u" and "rational_display_laws R display"
  shows "denotes R S t (VMeasurementInterval lo hi) (map unat (display lo) @ 46 # 46 # map unat (display hi))"
    (is "denotes R S t ?v ?cs")
proof (rule denotesI)
  from assms(3) have tok: "token (map unat (display q))" and sep: "no_separator (map unat (display q))"
    and q: "rq_parse R (display q) = Some q" for q
    by (auto simp: rational_display_laws_def)
  show "starts_value ?cs" using token_starts[OF tok[of lo]] token_starts[OF tok[of hi]]
    by (auto simp: starts_value_def char_scalar_def)
  fix d rest off n
  assume "boundary rest" "d \<le> maximum_value_depth (gs_limits S)" "n + 1 \<le> usize_max"
    "n + 1 \<le> maximum_value_nodes (gs_limits S)"
  then show "parse_value R S t d (parser_at (?cs @ rest) off n) =
      Inr (?v, parser_at rest (off + text_len ?cs) (n + value_nodes ?v))"
    using take_interval_tokens_at[OF tok sep tok, of rest lo hi off "n + 1"] q
    by (subst parse_value.simps) (simp add: assms ascii_text[OF tok])
qed

lemma digits_token:
  assumes "all_digits s"
  shows "token (map unat s)" and "token (map unat (45 # s))"
proof -
  have d: "unat b < 128 \<and> \<not> is_value_terminator (unat b) \<and> \<not> char_is_whitespace (unat b)" if "b \<in> set s" for b
    using assms that by (auto simp: all_digits_def is_ascii_digit_def is_value_terminator_def char_is_whitespace_def)
  have s: "s \<noteq> []" using assms by (simp add: all_digits_def)
  then show "token (map unat s)" using d by (auto simp: token_def hd_map last_map)
  show "token (map unat (45 # s))" using d s
    by (auto simp: token_def hd_map last_map char_is_whitespace_def is_value_terminator_def)
qed

lemma denotes_integer:
  assumes "value_type S t = Some D"
  shows "td_kind D = TCanonicalI64 u q \<Longrightarrow> denotes R S t (VCanonicalI64 i) (map unat (i64_text i))"
    and "td_kind D = TCanonicalU64 u q \<Longrightarrow> denotes R S t (VCanonicalU64 k) (map unat (u64_text k))"
proof -
  have i: "token (map unat (i64_text i))"
    using digits_token[OF all_digits_nat_text] by (simp add: i64_text_def)
  have k: "token (map unat (u64_text k))"
    using digits_token(1)[OF all_digits_nat_text] by (simp add: u64_text_def)
  show "denotes R S t (VCanonicalI64 i) (map unat (i64_text i))" if D: "td_kind D = TCanonicalI64 u q"
  proof (rule denotesI)
    show "starts_value (map unat (i64_text i))" by (rule token_starts[OF i])
    fix d rest off n
    assume "boundary rest" "d \<le> maximum_value_depth (gs_limits S)" "n + 1 \<le> usize_max"
      "n + 1 \<le> maximum_value_nodes (gs_limits S)"
    then show "parse_value R S t d (parser_at (map unat (i64_text i) @ rest) off n) = Inr (VCanonicalI64 i,
        parser_at rest (off + text_len (map unat (i64_text i))) (n + value_nodes (VCanonicalI64 i)))"
      using take_scalar_token_at[OF i, of rest off "n + 1"] parse_i64_text[of i]
      by (subst parse_value.simps) (simp add: assms D ascii_text[OF i])
  qed
  show "denotes R S t (VCanonicalU64 k) (map unat (u64_text k))" if D: "td_kind D = TCanonicalU64 u q"
  proof (rule denotesI)
    show "starts_value (map unat (u64_text k))" by (rule token_starts[OF k])
    fix d rest off n
    assume "boundary rest" "d \<le> maximum_value_depth (gs_limits S)" "n + 1 \<le> usize_max"
      "n + 1 \<le> maximum_value_nodes (gs_limits S)"
    then show "parse_value R S t d (parser_at (map unat (u64_text k) @ rest) off n) = Inr (VCanonicalU64 k,
        parser_at rest (off + text_len (map unat (u64_text k))) (n + value_nodes (VCanonicalU64 k)))"
      using take_scalar_token_at[OF k, of rest off "n + 1"] parse_u64_text[of k]
      by (subst parse_value.simps) (simp add: assms D ascii_text[OF k])
  qed
qed

lemma denotes_text:
  assumes "value_type S t = Some D" and "td_kind D = TText m" and "utf8_valid s"
  shows "denotes R S t (VText s) (text_notation s)"
proof (rule denotesI)
  obtain cs where "utf8_chars s = Some cs" using assms(3) by (auto simp: utf8_valid_def)
  with utf8_chars_decode have scalar: "\<forall>c \<in> set (chars s). char_scalar c" by (auto simp: chars_def)
  have "\<forall>d \<in> set (concat (map escape_char (chars s))). char_scalar d"
    using scalar escape_scalar by auto
  then show "starts_value (text_notation s)" by (simp add: starts_value_def text_notation_def)
  fix d rest off n
  assume "d \<le> maximum_value_depth (gs_limits S)" "n + 1 \<le> usize_max" "n + 1 \<le> maximum_value_nodes (gs_limits S)"
  then show "parse_value R S t d (parser_at (text_notation s @ rest) off n) =
      Inr (VText s, parser_at rest (off + text_len (text_notation s)) (n + value_nodes (VText s)))"
    using parse_text_at[OF assms(3), of rest off "n + 1"] by (subst parse_value.simps) (simp add: assms)
qed

lemma denotes_bytes:
  assumes "value_type S t = Some D" and "td_kind D = TBytes m"
  shows "denotes R S t (VBytes bs) (bytes_notation bs)"
proof (rule denotesI)
  have "hex_digit (unat b div 16) < 128" "hex_digit (unat b mod 16) < 128" for b :: u8
    using nibbles by auto
  then show "starts_value (bytes_notation bs)"
    by (auto simp: starts_value_def bytes_notation_def char_is_whitespace_def)
  fix d rest off n
  assume "d \<le> maximum_value_depth (gs_limits S)" "n + 1 \<le> usize_max" "n + 1 \<le> maximum_value_nodes (gs_limits S)"
  then show "parse_value R S t d (parser_at (bytes_notation bs @ rest) off n) =
      Inr (VBytes bs, parser_at rest (off + text_len (bytes_notation bs)) (n + value_nodes (VBytes bs)))"
    using parse_bytes_at[of t bs rest off "n + 1"] by (subst parse_value.simps) (simp add: assms)
qed

text \<open>Composite values, given the texts of their parts.\<close>

lemma denotes_none:
  assumes "value_type S t = Some D" and "td_kind D = TOption e"
  shows "denotes R S t VOptionNone [110, 111, 110, 101]"
proof (rule denotesI)
  show "starts_value [110, 111, 110, 101]" by (simp add: starts_value_def char_is_whitespace_def)
  have n: "\<not> char_is_whitespace 110" by (simp add: char_is_whitespace_def)
  fix d rest off n
  assume "boundary rest" "d \<le> maximum_value_depth (gs_limits S)" "n + 1 \<le> usize_max"
    "n + 1 \<le> maximum_value_nodes (gs_limits S)"
  moreover from this have "require_value_boundary (parser_at rest o1 k) = Inr ()" for o1 k
    by (cases rest) (auto simp: require_value_boundary_def peek_char_def)
  ultimately show "parse_value R S t d (parser_at ([110, 111, 110, 101] @ rest) off n) = Inr (VOptionNone,
      parser_at rest (off + text_len [110, 111, 110, 101]) (n + value_nodes VOptionNone))"
    by (subst parse_value.simps) (simp add: assms parse_option_def n consume_def)
qed

lemma starts_wrapped:
  assumes "starts_value cs" and "pre \<noteq> []" and "\<not> char_is_whitespace (hd pre)" and "hd pre \<noteq> 93"
    and "\<forall>c \<in> set pre. c < 128"
  shows "starts_value (pre @ cs @ [41])"
  using assms by (auto simp: starts_value_def)

lemma denotes_some:
  assumes "value_type S t = Some D" and "td_kind D = TOption e" and x: "denotes R S e x cs"
  shows "denotes R S t (VOptionSome x) ([115, 111, 109, 101, 40] @ cs @ [41])"
proof (rule denotesI)
  show "starts_value ([115, 111, 109, 101, 40] @ cs @ [41])"
    using x by (intro starts_wrapped) (auto simp: denotes_def char_is_whitespace_def)
  have s: "\<not> char_is_whitespace 115" by (simp add: char_is_whitespace_def)
  fix d rest off n
  assume *: "d \<le> maximum_value_depth (gs_limits S)" "n + 1 \<le> usize_max" "n + 1 \<le> maximum_value_nodes (gs_limits S)"
    "d + value_depth (VOptionSome x) \<le> Suc (maximum_value_depth (gs_limits S))"
    "n + value_nodes (VOptionSome x) \<le> node_bound S"
  then have "parse_value R S e (Suc d) (parser_at (cs @ 41 # rest) o1 (n + 1)) =
    Inr (x, parser_at (41 # rest) (o1 + text_len cs) (n + 1 + value_nodes x))" for o1
    by (intro reads_asD[OF denotes_reads[OF x]]) auto
  moreover have "expect_keyword [115, 111, 109, 101] (parser_at (115 # 111 # 109 # 101 # 40 # cs @ 41 # rest) off k) =
    Inr (parser_at (40 # cs @ 41 # rest) (off + 4) k)" for k
    using expect_keyword_at[of "[115, 111, 109, 101]" "40 # cs @ 41 # rest" off k] s by simp
  ultimately show "parse_value R S t d (parser_at (([115, 111, 109, 101, 40] @ cs @ [41]) @ rest) off n) =
      Inr (VOptionSome x, parser_at rest (off + text_len ([115, 111, 109, 101, 40] @ cs @ [41]))
        (n + value_nodes (VOptionSome x)))"
    using * by (subst parse_value.simps) (simp add: assms(1,2) parse_option_def s Let_def)
qed

lemma denotes_result:
  assumes "value_type S t = Some D" and "td_kind D = TResult a b"
  shows "denotes R S a x cs \<Longrightarrow> denotes R S t (VResultOk x) ([111, 107, 40] @ cs @ [41])"
    and "denotes R S b x cs \<Longrightarrow> denotes R S t (VResultError x) ([101, 114, 114, 111, 114, 40] @ cs @ [41])"
proof -
  have s: "\<not> char_is_whitespace 111" "\<not> char_is_whitespace 101" by (simp_all add: char_is_whitespace_def)
  show "denotes R S t (VResultOk x) ([111, 107, 40] @ cs @ [41])" if x: "denotes R S a x cs"
  proof (rule denotesI)
    show "starts_value ([111, 107, 40] @ cs @ [41])"
      using x by (intro starts_wrapped) (auto simp: denotes_def char_is_whitespace_def)
    fix d rest off n
    assume *: "d \<le> maximum_value_depth (gs_limits S)" "n + 1 \<le> usize_max" "n + 1 \<le> maximum_value_nodes (gs_limits S)"
      "d + value_depth (VResultOk x) \<le> Suc (maximum_value_depth (gs_limits S))"
      "n + value_nodes (VResultOk x) \<le> node_bound S"
    then have "parse_value R S a (Suc d) (parser_at (cs @ 41 # rest) o1 (n + 1)) =
      Inr (x, parser_at (41 # rest) (o1 + text_len cs) (n + 1 + value_nodes x))" for o1
      by (intro reads_asD[OF denotes_reads[OF x]]) auto
    then show "parse_value R S t d (parser_at (([111, 107, 40] @ cs @ [41]) @ rest) off n) =
        Inr (VResultOk x, parser_at rest (off + text_len ([111, 107, 40] @ cs @ [41])) (n + value_nodes (VResultOk x)))"
      using * by (subst parse_value.simps) (simp add: assms parse_result_def s Let_def consume_def)
  qed
  show "denotes R S t (VResultError x) ([101, 114, 114, 111, 114, 40] @ cs @ [41])" if x: "denotes R S b x cs"
  proof (rule denotesI)
    show "starts_value ([101, 114, 114, 111, 114, 40] @ cs @ [41])"
      using x by (intro starts_wrapped) (auto simp: denotes_def char_is_whitespace_def)
    fix d rest off n
    assume *: "d \<le> maximum_value_depth (gs_limits S)" "n + 1 \<le> usize_max" "n + 1 \<le> maximum_value_nodes (gs_limits S)"
      "d + value_depth (VResultError x) \<le> Suc (maximum_value_depth (gs_limits S))"
      "n + value_nodes (VResultError x) \<le> node_bound S"
    then have "parse_value R S b (Suc d) (parser_at (cs @ 41 # rest) o1 (n + 1)) =
      Inr (x, parser_at (41 # rest) (o1 + text_len cs) (n + 1 + value_nodes x))" for o1
      by (intro reads_asD[OF denotes_reads[OF x]]) auto
    then show "parse_value R S t d (parser_at (([101, 114, 114, 111, 114, 40] @ cs @ [41]) @ rest) off n) =
        Inr (VResultError x, parser_at rest (off + text_len ([101, 114, 114, 111, 114, 40] @ cs @ [41]))
          (n + value_nodes (VResultError x)))"
      using * by (subst parse_value.simps) (simp add: assms parse_result_def s Let_def consume_def)
  qed
qed

lemma starts_sequence:
  assumes "\<forall>cs \<in> set css. \<forall>c \<in> set cs. char_scalar c" and "c \<noteq> 93" and "\<not> char_is_whitespace c" and "c < 128" and "e < 128"
  shows "starts_value (c # joined css @ [e])"
  using assms by (cases css) (auto simp: starts_value_def tails_def)

lemma member_depth:
  "value_depth (VArray xs) = Suc k \<Longrightarrow> x \<in> set xs \<Longrightarrow> value_depth x \<le> k"
  "value_depth (VRecord vs) = Suc k \<Longrightarrow> iv \<in> set vs \<Longrightarrow> value_depth (snd iv) \<le> k"
  by (auto intro!: Max_ge)

lemma denotes_array:
  assumes "value_type S t = Some D" and "td_kind D = TArray e m" and css: "list_all2 (denotes R S e) xs css"
    and "length xs \<le> unat m" and "length xs \<le> maximum_array_items (gs_limits S)"
  shows "denotes R S t (VArray xs) (91 # joined css @ [93])"
proof (rule denotesI)
  have "\<forall>cs \<in> set css. \<forall>c \<in> set cs. char_scalar c"
    using css by (fastforce simp: list_all2_conv_all_nth in_set_conv_nth denotes_def starts_value_def)
  then show "starts_value (91 # joined css @ [93])" by (intro starts_sequence) auto
  fix d rest off n
  assume *: "d \<le> maximum_value_depth (gs_limits S)" "n + 1 \<le> usize_max" "n + 1 \<le> maximum_value_nodes (gs_limits S)"
    "d + value_depth (VArray xs) \<le> Suc (maximum_value_depth (gs_limits S))"
    "n + value_nodes (VArray xs) \<le> node_bound S"
  have "list_all2 (\<lambda>x cs. reads_as (node_bound S) (parse_value R S e (Suc d)) x cs (value_nodes x) \<and> starts_value cs) xs css"
  proof (rule list.rel_mono_strong[OF css], intro conjI)
    fix x cs assume x: "x \<in> set xs" "denotes R S e x cs"
    have "value_depth x \<le> value_depth (VArray xs) - 1" using member_depth(1)[OF _ x(1)] by simp
    then show "reads_as (node_bound S) (parse_value R S e (Suc d)) x cs (value_nodes x)"
      using * by (intro denotes_reads[OF x(2)]) simp
    show "starts_value cs" using x(2) by (simp add: denotes_def)
  qed
  from parse_array_at[OF this, of "n + 1" m _ rest off] *
  show "parse_value R S t d (parser_at ((91 # joined css @ [93]) @ rest) off n) =
      Inr (VArray xs, parser_at rest (off + text_len (91 # joined css @ [93])) (n + value_nodes (VArray xs)))"
    by (subst parse_value.simps) (simp add: assms add.assoc)
qed

definition field_text ::
  "'q external_api \<Rightarrow> 'q graph_schema \<Rightarrow> record_field \<times> record_field_id \<times> 'q graph_value \<Rightarrow> nat list \<Rightarrow> bool" where
  "field_text R S fiv fcs \<longleftrightarrow> (case fiv of (f, i, x) \<Rightarrow> rf_id f = i \<and> valid_stable_name (rf_name f)
     \<and> (\<exists>cs. fcs = name_chars (rf_name f) @ 58 # cs \<and> denotes R S (rf_value_type f) x cs))"

lemma denotes_record:
  assumes "value_type S t = Some D" and "td_kind D = TRecord fs" and len: "length fs = length vs"
    and css: "list_all2 (field_text R S) (zip fs vs) css"
  shows "denotes R S t (VRecord vs) (123 # joined css @ [125])"
proof (rule denotesI)
  have "\<forall>c \<in> set fcs. char_scalar c" if fiv: "field_text R S fiv fcs" for fiv fcs
  proof -
    obtain f i x where "fiv = (f, i, x)" by (cases fiv)
    with fiv obtain cs where "fcs = name_chars (rf_name f) @ 58 # cs" "valid_stable_name (rf_name f)"
      "denotes R S (rf_value_type f) x cs" by (auto simp: field_text_def)
    with name_chars_ok(4)[of "rf_name f"] show ?thesis by (auto simp: denotes_def starts_value_def)
  qed
  with css have "\<forall>cs \<in> set css. \<forall>c \<in> set cs. char_scalar c"
    by (metis (no_types, lifting) in_set_conv_nth list_all2_conv_all_nth)
  then show "starts_value (123 # joined css @ [125])"
    by (intro starts_sequence) auto
  fix d rest off n
  assume *: "d \<le> maximum_value_depth (gs_limits S)" "n + 1 \<le> usize_max" "n + 1 \<le> maximum_value_nodes (gs_limits S)"
    "d + value_depth (VRecord vs) \<le> Suc (maximum_value_depth (gs_limits S))"
    "n + value_nodes (VRecord vs) \<le> node_bound S"
  have "list_all2 (reads_field (node_bound S) (\<lambda>t. parse_value R S t (Suc d)) value_nodes) (zip fs vs) css"
  proof (rule list.rel_mono_strong[OF css])
    fix fiv fcs assume z: "fiv \<in> set (zip fs vs)" "field_text R S fiv fcs"
    obtain f i x where fiv: "fiv = (f, i, x)" by (cases fiv)
    with z(1) have "(i, x) \<in> set vs" by (auto dest: set_zip_rightD)
    then have "value_depth x \<le> value_depth (VRecord vs) - 1" using member_depth(2)[of vs _ "(i, x)"] by simp
    then have "reads_as (node_bound S) (parse_value R S (rf_value_type f) (Suc d)) x cs (value_nodes x)"
      if "denotes R S (rf_value_type f) x cs" for cs
      using * by (intro denotes_reads[OF that]) simp
    with z(2) show "reads_field (node_bound S) (\<lambda>t. parse_value R S t (Suc d)) value_nodes fiv fcs"
      by (auto simp: field_text_def reads_field_def fiv)
  qed
  moreover have "(\<Sum>z \<leftarrow> zip fs vs. value_nodes (snd (snd z))) = (\<Sum>iv \<leftarrow> vs. value_nodes (snd iv))"
    using len by (induction fs vs rule: list_induct2) auto
  ultimately have "parse_record (\<lambda>t. parse_value R S t (Suc d)) (map fst (zip fs vs))
      (parser_at (123 # joined css @ 125 # rest) off (n + 1)) =
    Inr (VRecord (map snd (zip fs vs)), parser_at rest (off + text_len (joined css) + 2) (n + 1 + (\<Sum>iv \<leftarrow> vs. value_nodes (snd iv))))"
    using parse_record_at[of "node_bound S" "\<lambda>t. parse_value R S t (Suc d)" value_nodes "zip fs vs" css "n + 1" rest off] *
    by simp
  then show "parse_value R S t d (parser_at ((123 # joined css @ [125]) @ rest) off n) =
      Inr (VRecord vs, parser_at rest (off + text_len (123 # joined css @ [125])) (n + value_nodes (VRecord vs)))"
    using * len by (subst parse_value.simps) (simp add: assms(1,2) add.assoc)
qed

section \<open>The printer prints what the parser reads\<close>

lemma push_keyword_Inr:
  assumes "push_str s out = Inr out'" and "encode_str cs = s"
  shows "appends out out' (encode_str cs)"
  using push_str_Inr[OF assms(1)] assms(2) by simp

lemma appends_within: "appends out out' s \<Longrightarrow> length (bt_value out') \<le> bt_maximum_bytes out'"
  by (auto simp: appends_def)

text \<open>An opening text, an element and a closing character.\<close>

lemma appends_wrapped:
  assumes "push_str s out = Inr o1" and "encode_str pre = s" and "appends o1 o2 (encode_str cs)"
    and "push_char c o2 = Inr out'"
  shows "appends out out' (encode_str (pre @ cs @ [c]))"
  using appends_trans[OF push_keyword_Inr[OF assms(1,2)] appends_trans[OF assms(3) push_char_Inr[OF assms(4)]]]
  by simp

lemma format_sequence_wrapped:
  assumes "push_char a out = Inr o1" and "format_sequence f True xs o1 = Inr o2" and "push_char b o2 = Inr out'"
    and "\<And>x out out'. x \<in> set xs \<Longrightarrow> f x out = Inr out' \<Longrightarrow> \<exists>cs. appends out out' (encode_str cs) \<and> P x cs"
  shows "\<exists>css. list_all2 P xs css \<and> appends out out' (encode_str (a # joined css @ [b]))"
proof -
  note a = push_char_Inr[OF assms(1)]
  have "\<exists>css. list_all2 P xs css \<and> appends o1 o2 (encode_str (if True then joined css else tails css))"
    by (rule format_sequence_Inr[OF assms(2) appends_within[OF a] assms(4)])
  then obtain css where css: "list_all2 P xs css" "appends o1 o2 (encode_str (joined css))" by auto
  from appends_trans[OF a appends_trans[OF css(2) push_char_Inr[OF assms(3)]]] css(1)
  show ?thesis by (intro exI[of _ css]) simp
qed

text \<open>What the printer appends for a well-typed literal denotes that literal.\<close>

definition prints :: "'q external_api \<Rightarrow> ('q \<Rightarrow> rust_str) \<Rightarrow> 'q graph_schema \<Rightarrow> 'q graph_value \<Rightarrow> bool" where
  "prints R display S v \<longleftrightarrow> (\<forall>t out out'. has_type R S t v \<longrightarrow> texts_valid v \<longrightarrow>
     format_value display S t v out = Inr out' \<longrightarrow>
     (\<exists>cs. appends out out' (encode_str cs) \<and> denotes R S t v cs))"

lemma printsD:
  "prints R display S v \<Longrightarrow> has_type R S t v \<Longrightarrow> texts_valid v \<Longrightarrow> format_value display S t v out = Inr out' \<Longrightarrow>
     \<exists>cs. appends out out' (encode_str cs) \<and> denotes R S t v cs"
  by (simp add: prints_def)

lemma prints_array:
  assumes IH: "\<And>x. x \<in> set xs \<Longrightarrow> prints R display S x"
  shows "prints R display S (VArray xs)"
  unfolding prints_def
proof (intro allI impI)
  fix t out out'
  assume ty: "has_type R S t (VArray xs)" and tx: "texts_valid (VArray xs)"
    and run: "format_value display S t (VArray xs) out = Inr out'"
  from ty obtain D e m where D: "value_type S t = Some D" "td_kind D = TArray e m"
    and len: "length xs \<le> unat m" "length xs \<le> maximum_array_items (gs_limits S)"
    and el: "\<forall>x \<in> set xs. has_type R S e x" by auto
  from run obtain o1 o2 where o: "push_char 91 out = Inr o1"
    "format_sequence (\<lambda>x out. format_value display S e x out) True xs o1 = Inr o2" "push_char 93 o2 = Inr out'"
    by (auto simp: format_value.simps[of _ _ t] D)
  have "\<exists>css. list_all2 (denotes R S e) xs css \<and> appends out out' (encode_str (91 # joined css @ [93]))"
    using IH el tx by (intro format_sequence_wrapped[OF o]) (auto intro!: printsD)
  with denotes_array[OF D _ len] show "\<exists>cs. appends out out' (encode_str cs) \<and> denotes R S t (VArray xs) cs"
    by blast
qed

lemma prints_record:
  assumes wf: "schema_wf R S" and IH: "\<And>iv. iv \<in> set vs \<Longrightarrow> prints R display S (snd iv)"
  shows "prints R display S (VRecord vs)"
  unfolding prints_def
proof (intro allI impI)
  fix t out out'
  assume ty: "has_type R S t (VRecord vs)" and tx: "texts_valid (VRecord vs)"
    and run: "format_value display S t (VRecord vs) out = Inr out'"
  from ty obtain D fs where D: "value_type S t = Some D" "td_kind D = TRecord fs"
    and el: "list_all2 (\<lambda>f iv. rf_id f = fst iv \<and> has_type R S (rf_value_type f) (snd iv)) fs vs" by auto
  have "type_ok R S D" using D(1) value_type_iff[OF wf] wf by (auto simp: schema_wf_def)
  then have names: "\<forall>f \<in> set fs. valid_stable_name (rf_name f)" by (auto simp: type_ok_def D field_ok_def)
  define f where "f = (\<lambda>(g :: record_field, i :: record_field_id, x) out. and_then (push_str (rf_name g) out) (\<lambda>out.
    and_then (push_char 58 out) (\<lambda>out. format_value display S (rf_value_type g) x out)))"
  from run obtain o1 o2 where o: "push_char 123 out = Inr o1"
    "format_sequence f True (zip fs vs) o1 = Inr o2" "push_char 125 o2 = Inr out'"
    by (auto simp: format_value.simps[of _ _ t] D f_def)
  have elem: "\<exists>cs. appends q q' (encode_str cs) \<and> field_text R S z cs"
    if z: "z \<in> set (zip fs vs)" and fz: "f z q = Inr q'" for z q q'
  proof -
    obtain g i x where giv: "z = (g, i, x)" by (cases z)
    from z el have g: "g \<in> set fs" "(i, x) \<in> set vs" "rf_id g = i" "has_type R S (rf_value_type g) x"
      by (auto simp: giv list_all2_iff dest: set_zip_leftD set_zip_rightD)
    from fz obtain q1 q2 where q: "push_str (rf_name g) q = Inr q1" "push_char 58 q1 = Inr q2"
      "format_value display S (rf_value_type g) x q2 = Inr q'" by (auto simp: giv f_def)
    from printsD[OF IH[OF g(2)] _ _ ] g(2,4) tx q(3) obtain cs where
      cs: "appends q2 q' (encode_str cs)" "denotes R S (rf_value_type g) x cs" by fastforce
    have name: "valid_stable_name (rf_name g)" using names g(1) by blast
    from appends_trans[OF push_keyword_Inr[OF q(1) name_chars_ok(2)[OF name]]
        appends_trans[OF push_char_Inr[OF q(2)] cs(1)]]
    have "appends q q' (encode_str (name_chars (rf_name g) @ 58 # cs))" by simp
    moreover have "field_text R S z (name_chars (rf_name g) @ 58 # cs)"
      using cs(2) g(3) name by (auto simp: field_text_def giv)
    ultimately show ?thesis by blast
  qed
  have "\<exists>css. list_all2 (field_text R S) (zip fs vs) css \<and> appends out out' (encode_str (123 # joined css @ [125]))"
    using elem by (rule format_sequence_wrapped[OF o])
  with denotes_record[OF D list_all2_lengthD[OF el]]
  show "\<exists>cs. appends out out' (encode_str cs) \<and> denotes R S t (VRecord vs) cs" by blast
qed

lemma prints_wrapped:
  assumes IH: "prints R display S x"
  shows "prints R display S (VOptionSome x)" "prints R display S (VResultOk x)" "prints R display S (VResultError x)"
proof -
  have pre: "encode_str [115, 111, 109, 101, 40] = str ''some(''" "encode_str [111, 107, 40] = str ''ok(''"
    "encode_str [101, 114, 114, 111, 114, 40] = str ''error(''"
    by (simp_all add: str_def utf8_encode_def)
  show "prints R display S (VOptionSome x)"
    unfolding prints_def
  proof (intro allI impI)
    fix t out out'
    assume *: "has_type R S t (VOptionSome x)" "texts_valid (VOptionSome x)" "format_value display S t (VOptionSome x) out = Inr out'"
    then obtain D e where D: "value_type S t = Some D" "td_kind D = TOption e" and x: "has_type R S e x" by auto
    from *(3) obtain o1 o2 where o: "push_str (str ''some('') out = Inr o1" "format_value display S e x o1 = Inr o2"
      "push_char 41 o2 = Inr out'" by (auto simp: format_value.simps[of _ _ t] D)
    from printsD[OF IH x _ o(2)] *(2) obtain cs where cs: "appends o1 o2 (encode_str cs)" "denotes R S e x cs" by auto
    from appends_wrapped[OF o(1) pre(1) cs(1) o(3)] denotes_some[OF D cs(2)]
    show "\<exists>cs. appends out out' (encode_str cs) \<and> denotes R S t (VOptionSome x) cs" by blast
  qed
  show "prints R display S (VResultOk x)"
    unfolding prints_def
  proof (intro allI impI)
    fix t out out'
    assume *: "has_type R S t (VResultOk x)" "texts_valid (VResultOk x)" "format_value display S t (VResultOk x) out = Inr out'"
    then obtain D a b where D: "value_type S t = Some D" "td_kind D = TResult a b" and x: "has_type R S a x" by auto
    from *(3) obtain o1 o2 where o: "push_str (str ''ok('') out = Inr o1" "format_value display S a x o1 = Inr o2"
      "push_char 41 o2 = Inr out'" by (auto simp: format_value.simps[of _ _ t] D)
    from printsD[OF IH x _ o(2)] *(2) obtain cs where cs: "appends o1 o2 (encode_str cs)" "denotes R S a x cs" by auto
    from appends_wrapped[OF o(1) pre(2) cs(1) o(3)] denotes_result(1)[OF D cs(2)]
    show "\<exists>cs. appends out out' (encode_str cs) \<and> denotes R S t (VResultOk x) cs" by blast
  qed
  show "prints R display S (VResultError x)"
    unfolding prints_def
  proof (intro allI impI)
    fix t out out'
    assume *: "has_type R S t (VResultError x)" "texts_valid (VResultError x)" "format_value display S t (VResultError x) out = Inr out'"
    then obtain D a b where D: "value_type S t = Some D" "td_kind D = TResult a b" and x: "has_type R S b x" by auto
    from *(3) obtain o1 o2 where o: "push_str (str ''error('') out = Inr o1" "format_value display S b x o1 = Inr o2"
      "push_char 41 o2 = Inr out'" by (auto simp: format_value.simps[of _ _ t] D)
    from printsD[OF IH x _ o(2)] *(2) obtain cs where cs: "appends o1 o2 (encode_str cs)" "denotes R S b x cs" by auto
    from appends_wrapped[OF o(1) pre(3) cs(1) o(3)] denotes_result(2)[OF D cs(2)]
    show "\<exists>cs. appends out out' (encode_str cs) \<and> denotes R S t (VResultError x) cs" by blast
  qed
qed

text \<open>A scalar is printed by one push, or by the text and byte printers.\<close>

lemma printsI:
  assumes "\<And>t out out'. has_type R S t v \<Longrightarrow> texts_valid v \<Longrightarrow> format_value display S t v out = Inr out' \<Longrightarrow>
    \<exists>cs. appends out out' (encode_str cs) \<and> denotes R S t v cs"
  shows "prints R display S v"
  using assms by (simp add: prints_def)

lemma prints_one:
  assumes "\<And>t. has_type R S t v \<Longrightarrow> denotes R S t v cs"
    and "\<And>t out. has_type R S t v \<Longrightarrow> format_value display S t v out = push_str s out"
    and "encode_str cs = s"
  shows "prints R display S v"
proof (rule printsI)
  fix t out out'
  assume "has_type R S t v" "format_value display S t v out = Inr out'"
  with assms push_keyword_Inr[of s out out' cs]
  show "\<exists>cs. appends out out' (encode_str cs) \<and> denotes R S t v cs" by auto
qed

lemma prints_scalar:
  assumes laws: "rational_display_laws R display"
  shows "prints R display S (VBoolean b)" "prints R display S (VExactRational q)"
    "prints R display S (VMeasurementInterval lo hi)" "prints R display S (VCanonicalI64 i)"
    "prints R display S (VCanonicalU64 k)" "prints R display S (VText s)" "prints R display S (VBytes bs)"
    "prints R display S VOptionNone" "prints R display S (VResourceHandle h)" "prints R display S (VJobHandle j)"
proof -
  have tok: "encode_str (map unat (display q)) = display q" for q
    using laws by (intro ascii_text) (simp add: rational_display_laws_def)
  have words: "encode_str (if b then [116, 114, 117, 101] else [102, 97, 108, 115, 101]) = (if b then str ''true'' else str ''false'')"
    "encode_str [110, 111, 110, 101] = str ''none''" "encode_str [46, 46] = str ''..''" for b
    by (simp_all add: str_def utf8_encode_def)
  show "prints R display S (VBoolean b)"
    by (rule prints_one[OF _ _ words(1)[of b]]) (auto simp: format_value.simps dest: denotes_boolean[of _ _ _ _ b])
  show "prints R display S (VExactRational q)"
    by (rule prints_one[OF _ _ tok]) (auto simp: format_value.simps intro: denotes_rational[OF _ _ laws])
  show "prints R display S (VMeasurementInterval lo hi)"
  proof (rule printsI)
    fix t out out'
    assume *: "has_type R S t (VMeasurementInterval lo hi)" "format_value display S t (VMeasurementInterval lo hi) out = Inr out'"
    then obtain D u where D: "value_type S t = Some D" "td_kind D = TMeasurementInterval u" by auto
    from *(2) obtain o1 o2 where o: "push_str (display lo) out = Inr o1" "push_str (str ''..'') o1 = Inr o2"
      "push_str (display hi) o2 = Inr out'" by (auto simp: format_value.simps D)
    from appends_trans[OF push_keyword_Inr[OF o(1) tok] appends_trans[OF push_keyword_Inr[OF o(2) words(3)]
        push_keyword_Inr[OF o(3) tok]]] denotes_interval[OF D laws, of lo hi]
    show "\<exists>cs. appends out out' (encode_str cs) \<and> denotes R S t (VMeasurementInterval lo hi) cs"
      by (intro exI[of _ "map unat (display lo) @ 46 # 46 # map unat (display hi)"]) simp
  qed
  have itok: "token (map unat (i64_text i))" and utok: "token (map unat (u64_text k))" for i k
    using digits_token[OF all_digits_nat_text] by (simp_all add: i64_text_def u64_text_def)
  note digits = ascii_text[OF itok] ascii_text[OF utok]
  show "prints R display S (VCanonicalI64 i)"
    by (rule prints_one[OF _ _ digits(1)]) (auto simp: format_value.simps intro: denotes_integer(1))
  show "prints R display S (VCanonicalU64 k)"
    by (rule prints_one[OF _ _ digits(2)]) (auto simp: format_value.simps intro: denotes_integer(2))
  show "prints R display S (VText s)"
  proof (rule printsI)
    fix t out out'
    assume *: "has_type R S t (VText s)" "texts_valid (VText s)" "format_value display S t (VText s) out = Inr out'"
    then obtain D m where D: "value_type S t = Some D" "td_kind D = TText m" by auto
    from *(3) have "format_text s out = Inr out'" by (simp add: format_value.simps D)
    from format_text_Inr[OF this] denotes_text[OF D] *(2)
    show "\<exists>cs. appends out out' (encode_str cs) \<and> denotes R S t (VText s) cs" by auto
  qed
  show "prints R display S (VBytes bs)"
  proof (rule printsI)
    fix t out out'
    assume *: "has_type R S t (VBytes bs)" "texts_valid (VBytes bs)" "format_value display S t (VBytes bs) out = Inr out'"
    then obtain D m where D: "value_type S t = Some D" "td_kind D = TBytes m" by auto
    from *(3) have "format_bytes bs out = Inr out'" by (simp add: format_value.simps D)
    from format_bytes_Inr[OF this] denotes_bytes[OF D] *(2)
    show "\<exists>cs. appends out out' (encode_str cs) \<and> denotes R S t (VBytes bs) cs" by auto
  qed
  show "prints R display S VOptionNone"
    by (rule prints_one[OF _ _ words(2)]) (auto simp: format_value.simps intro: denotes_none)
  show "prints R display S (VResourceHandle h)" "prints R display S (VJobHandle j)"
    by (auto intro!: printsI simp: format_value.simps)
qed

lemma prints_all:
  assumes "rational_display_laws R display" and "schema_wf R S"
  shows "prints R display S v"
proof (induction v)
  case (VArray xs)
  then show ?case by (rule prints_array)
next
  case (VRecord vs)
  then have "prints R display S (snd iv)" if "iv \<in> set vs" for iv
    using that by (metis snds.intros)
  then show ?case by (rule prints_record[OF assms(2)])
qed (rule prints_scalar[OF assms(1)] prints_wrapped; assumption?)+

section \<open>What any source text parses to\<close>

text \<open>
  \<open>placed len p\<close>: the parser's offset and the bytes still to read add up to the length of
  the source. Every successful step keeps this; a syntax error points into the source.
\<close>

definition placed :: "nat \<Rightarrow> literal_parser \<Rightarrow> bool" where
  "placed len p \<longleftrightarrow> lp_offset p + text_len (lp_rest p) = len \<and> (\<forall>c \<in> set (lp_rest p). char_scalar c)"

definition located :: "nat \<Rightarrow> literal_text_error \<Rightarrow> bool" where
  "located len e \<longleftrightarrow> (\<forall>off message. e = LT_Syntax off message \<longrightarrow> off \<le> len)"

definition safe_parse :: "nat \<Rightarrow> ('a \<Rightarrow> bool) \<Rightarrow> literal_text_error + 'a \<Rightarrow> bool" where
  "safe_parse len Q m \<longleftrightarrow> (\<forall>e. m = Inl e \<longrightarrow> located len e) \<and> (\<forall>x. m = Inr x \<longrightarrow> Q x)"

lemma safe_parse_simps [simp]:
  "safe_parse len Q (Inr x) \<longleftrightarrow> Q x"
  "safe_parse len Q (Inl e) \<longleftrightarrow> located len e"
  by (simp_all add: safe_parse_def)

lemma safe_parse_and_then:
  "safe_parse len P m \<Longrightarrow> (\<And>x. P x \<Longrightarrow> safe_parse len Q (f x)) \<Longrightarrow> safe_parse len Q (and_then m f)"
  by (cases m) auto

lemma located_other [simp]:
  "located len (LT_Schema e)" "located len (LT_InvalidHex t)" "located len (LT_InvalidRational t)"
  "located len (LT_InvalidSignedInteger t)" "located len (LT_InvalidUnsignedInteger t)"
  "located len (LT_IdentityRequiresSelector t)" "located len (LT_RuntimeOnly t)"
  by (simp_all add: located_def)

lemma located_syntax [simp]: "placed len p \<Longrightarrow> located len (syntax_at p message)"
  by (simp add: placed_def located_def syntax_at_def)

lemma safe_parse_ok_or: "located len e \<Longrightarrow> (\<And>x. m = Some x \<Longrightarrow> Q x) \<Longrightarrow> safe_parse len Q (ok_or e m)"
  by (cases m) auto

text \<open>Reading a prefix of the rest keeps the parser in place.\<close>

lemma placed_consume:
  assumes "placed len p" and "lp_rest p = cs @ rest"
  shows "placed len (consume cs p)"
  using assms by (auto simp: placed_def)

lemma placed_nodes [simp]: "placed len (p\<lparr>lp_nodes := n\<rparr>) \<longleftrightarrow> placed len p"
  by (simp add: placed_def)

lemma placed_skip [simp]: "placed len p \<Longrightarrow> placed len (skip_whitespace p)"
  unfolding skip_whitespace_def
  by (rule placed_consume[OF _ takeWhile_dropWhile_id[symmetric]])

lemma placed_next_char:
  assumes "placed len p" and "next_char p = (c, p')"
  shows "placed len p'" and "c = Some d \<Longrightarrow> char_scalar d"
  using assms placed_consume[OF assms(1), of "[the c]" "tl (lp_rest p)"]
  by (auto simp: next_char_def peek_char_def placed_def split: list.splits option.splits)

lemma expect_char_safe: "placed len p \<Longrightarrow> safe_parse len (placed len) (expect_char c p)"
  by (auto simp: expect_char_def split: prod.splits dest: placed_next_char(1)[OF placed_skip])

lemma placed_keyword:
  assumes "placed len p" and "take k (lp_rest p) = kw"
  shows "placed len (consume kw p)"
  using placed_consume[OF assms(1), of kw "drop k (lp_rest p)"] assms(2)
  by (metis append_take_drop_id)

lemma expect_keyword_safe: "placed len p \<Longrightarrow> safe_parse len (placed len) (expect_keyword kw p)"
  by (simp add: expect_keyword_def Let_def placed_keyword)

lemma consume_char_safe: "placed len p \<Longrightarrow> consume_char c p = (b, p') \<Longrightarrow> placed len p'"
  by (cases "next_char (skip_whitespace p)")
    (auto simp: consume_char_def Let_def split: if_splits dest: placed_next_char(1)[OF placed_skip])

lemma boundary_safe: "placed len p \<Longrightarrow> safe_parse len (\<lambda>_. True) (require_value_boundary p)"
  by (auto simp: require_value_boundary_def split: option.splits)

lemma token_safe: "placed len p \<Longrightarrow> take_scalar_token p = (s, p') \<Longrightarrow> placed len p'"
  unfolding take_scalar_token_def Let_def
  by (auto intro: placed_consume[OF placed_skip takeWhile_dropWhile_id[symmetric]])

lemma find_separator_prefix: "find_separator cs = Some before \<Longrightarrow> \<exists>rest. cs = before @ 46 # 46 # rest"
proof (induction cs arbitrary: before)
  case (Cons c cs)
  then show ?case by (cases cs) (auto split: if_splits)
qed simp

lemma find_colon_prefix: "find_colon cs = Some before \<Longrightarrow> \<exists>rest. cs = before @ 58 # rest"
  by (induction cs arbitrary: before) (auto split: if_splits)

lemma interval_safe: "placed len p \<Longrightarrow> safe_parse len (\<lambda>(s, p'). placed len p') (take_interval_tokens p)"
  unfolding take_interval_tokens_def Let_def
proof (rule safe_parse_and_then[OF safe_parse_ok_or])
  assume p: "placed len p"
  then show "located len (syntax_at (skip_whitespace p) (str ''interval requires lower..upper''))" by simp
  fix before assume "find_separator (lp_rest (skip_whitespace p)) = Some before"
  then obtain rest where rest: "lp_rest (skip_whitespace p) = (before @ [46, 46]) @ rest"
    using find_separator_prefix by fastforce
  have "placed len (consume (before @ [46, 46]) (skip_whitespace p))"
    by (rule placed_consume[OF placed_skip[OF p] rest])
  then show "safe_parse len (\<lambda>(s, p'). placed len p')
      (if str_trim before = [] then Inl (syntax_at (skip_whitespace p) (str ''interval lower endpoint cannot be empty''))
       else case take_scalar_token (consume (before @ [46, 46]) (skip_whitespace p)) of (upper, p) \<Rightarrow>
         Inr ((encode_str (str_trim before), upper), p))"
    using p by (auto split: prod.splits dest: token_safe)
qed

lemma field_name_safe: "placed len p \<Longrightarrow> safe_parse len (\<lambda>(s, p'). placed len p') (take_record_field_name p)"
  unfolding take_record_field_name_def Let_def
proof (rule safe_parse_and_then[OF safe_parse_ok_or])
  assume p: "placed len p"
  then show "located len (syntax_at (skip_whitespace p) (str ''record field requires name:value''))" by simp
  fix before assume "find_colon (lp_rest (skip_whitespace p)) = Some before"
  then obtain rest where rest: "lp_rest (skip_whitespace p) = before @ rest"
    using find_colon_prefix by fastforce
  have "placed len (consume before (skip_whitespace p))"
    by (rule placed_consume[OF placed_skip[OF p] rest])
  then show "safe_parse len (\<lambda>(s, p'). placed len p')
      (if str_trim before = [] then Inl (syntax_at (consume before (skip_whitespace p)) (str ''record field name is empty''))
       else Inr (encode_str (str_trim before), consume before (skip_whitespace p)))"
    by simp
qed

lemma unicode_digits_prefix: "unicode_digits k cs = (ds, good) \<Longrightarrow> \<exists>rest. cs = ds @ rest"
  by (induction cs arbitrary: k ds) (auto split: if_splits prod.splits)

lemma hex_digits_prefix: "hex_digits cs = (ds, good) \<Longrightarrow> \<exists>rest. cs = ds @ rest"
  by (induction cs arbitrary: ds) (auto split: if_splits prod.splits)

abbreviation yields_char :: "nat \<Rightarrow> literal_text_error + nat \<times> literal_parser \<Rightarrow> bool" where
  "yields_char len \<equiv> safe_parse len (\<lambda>(c, p'). char_scalar c \<and> placed len p')"

lemma unicode_escape_safe:
  assumes p: "placed len p"
  shows "yields_char len (parse_unicode_escape p)"
proof -
  obtain c p1 where p1: "next_char p = (c, p1)" by (cases "next_char p")
  obtain ds good where ds: "unicode_digits 0 (lp_rest p1) = (ds, good)" by (cases "unicode_digits 0 (lp_rest p1)")
  obtain d p2 where p2: "next_char (consume ds p1) = (d, p2)" by (cases "next_char (consume ds p1)")
  have pl1: "placed len p1" by (rule placed_next_char(1)[OF p p1])
  obtain rest where "lp_rest p1 = ds @ rest" using unicode_digits_prefix[OF ds] by blast
  then have pl: "placed len (consume ds p1)" by (rule placed_consume[OF pl1])
  then have "placed len p2" using p2 by (rule placed_next_char(1))
  then show ?thesis
    using pl pl1 by (auto simp: parse_unicode_escape_def Let_def p1 ds p2 char_from_u32_def
        intro!: safe_parse_and_then[OF safe_parse_ok_or] split: if_splits)
qed

lemma escape_safe:
  assumes p: "placed len p"
  shows "yields_char len (parse_escape p)"
proof -
  obtain c p1 where p1: "next_char p = (c, p1)" by (cases "next_char p")
  then have pl: "placed len p1" by (rule placed_next_char(1)[OF p])
  have "yields_char len (parse_unicode_escape p1)" by (rule unicode_escape_safe[OF pl])
  then show ?thesis using pl by (auto simp: parse_escape_def p1 split: option.splits)
qed

abbreviation yields_text :: "nat \<Rightarrow> literal_text_error + rust_str \<times> literal_parser \<Rightarrow> bool" where
  "yields_text len \<equiv> safe_parse len (\<lambda>(s, p'). utf8_valid s \<and> placed len p')"

lemma text_loop_safe:
  "\<forall>c \<in> set cs. char_scalar c \<Longrightarrow> placed len p \<Longrightarrow> yields_text len (parse_text_loop (encode_str cs) p)"
proof (induction "encode_str cs" p arbitrary: cs rule: parse_text_loop.induct)
  case (1 p)
  obtain oc p1 where p1: "next_char p = (oc, p1)" by (cases "next_char p")
  have pl: "placed len p1" by (rule placed_next_char(1)[OF 1(4) p1])
  show ?case
  proof (cases oc)
    case None
    with p1 pl show ?thesis by (subst parse_text_loop.simps) simp
  next
    case (Some c)
    then have c: "char_scalar c" using placed_next_char(2)[OF 1(4) p1] by simp
    consider "c = 34" | "c = 92" | "c \<noteq> 34" "c \<noteq> 92" "char_is_control c" | "c \<noteq> 34" "c \<noteq> 92" "\<not> char_is_control c"
      by blast
    then show ?thesis
    proof cases
      case 1
      then show ?thesis using p1 Some pl \<open>\<forall>c \<in> set cs. char_scalar c\<close>
        by (subst parse_text_loop.simps) (simp add: utf8_valid_encode)
    next
      case 2
      have "yields_text len (parse_text_loop (encode_str cs @ utf8_encode e) p2)"
        if "parse_escape p1 = Inr (e, p2)" for e p2
      proof -
        from that escape_safe[OF pl] have e: "char_scalar e" "placed len p2" by auto
        have "encode_str cs @ utf8_encode e = encode_str (cs @ [e])" by simp
        from 1(1)[OF p1[symmetric] Some _ 2 that refl this] e 1(3) 2 show ?thesis by simp
      qed
      with escape_safe[OF pl] have "yields_text len (and_then (parse_escape p1) (\<lambda>(e, p''). parse_text_loop (encode_str cs @ utf8_encode e) p''))"
        by (cases "parse_escape p1") auto
      then show ?thesis using p1 Some 2 by (subst parse_text_loop.simps) simp
    next
      case 3
      with p1 Some pl show ?thesis by (subst parse_text_loop.simps) simp
    next
      case 4
      have "encode_str cs @ utf8_encode c = encode_str (cs @ [c])" by simp
      from 1(2)[OF p1[symmetric] Some 4 this] pl c 1(3)
      have "yields_text len (parse_text_loop (encode_str cs @ utf8_encode c) p1)" by simp
      then show ?thesis using p1 Some 4 by (subst parse_text_loop.simps) simp
    qed
  qed
qed

lemma text_safe: "placed len p \<Longrightarrow> yields_text len (parse_text p)"
  unfolding parse_text_def
  using text_loop_safe[of "[]"] by (intro safe_parse_and_then[OF expect_char_safe]) auto

lemma hex_bytes_located: "hex_bytes t ds = Inl e \<Longrightarrow> located len e"
  by (induction t ds rule: hex_bytes.induct) auto

lemma bytes_safe: "placed len p \<Longrightarrow> safe_parse len (\<lambda>(bs, p'). placed len p') (parse_bytes t p)"
  unfolding parse_bytes_def
proof (rule safe_parse_and_then[OF expect_keyword_safe])
  fix p assume p: "placed len p"
  obtain c p1 where p1: "next_char (skip_whitespace p) = (c, p1)" by (cases "next_char (skip_whitespace p)")
  obtain ds good where ds: "hex_digits (lp_rest p1) = (ds, good)" by (cases "hex_digits (lp_rest p1)")
  obtain d p2 where p2: "next_char (consume ds p1) = (d, p2)" by (cases "next_char (consume ds p1)")
  have pl1: "placed len p1" by (rule placed_next_char(1)[OF placed_skip[OF p] p1])
  obtain rest where "lp_rest p1 = ds @ rest" using hex_digits_prefix[OF ds] by blast
  then have "placed len (consume ds p1)" by (rule placed_consume[OF pl1])
  then have pl2: "placed len p2" using p2 by (rule placed_next_char(1))
  have "safe_parse len (\<lambda>(bs, p'). placed len p') (and_then (hex_bytes t ds) (\<lambda>bs. Inr (bs, p2)))"
    using hex_bytes_located pl2 by (cases "hex_bytes t ds") auto
  then show "safe_parse len (\<lambda>(bs, p'). placed len p')
      (case next_char (skip_whitespace p) of (c, p) \<Rightarrow>
       if c \<noteq> Some 34 then Inl (LT_InvalidHex t)
       else (case hex_digits (lp_rest p) of (digits, good) \<Rightarrow>
       if \<not> good then Inl (LT_InvalidHex t)
       else (case next_char (consume digits p) of (c, p) \<Rightarrow>
       if c \<noteq> Some 34 \<or> odd (length digits) then Inl (LT_InvalidHex t)
       else and_then (hex_bytes t digits) (\<lambda>bs. Inr (bs, p)))))"
    by (simp add: p1 ds p2)
qed

text \<open>
  No literal read from text holds an identity: a resource or job handle never comes out of the
  parser, at any depth.
\<close>

fun handle_free :: "'q graph_value \<Rightarrow> bool" where
  "handle_free (VResourceHandle h) \<longleftrightarrow> False"
| "handle_free (VJobHandle h) \<longleftrightarrow> False"
| "handle_free (VArray xs) \<longleftrightarrow> (\<forall>x \<in> set xs. handle_free x)"
| "handle_free (VRecord vs) \<longleftrightarrow> (\<forall>iv \<in> set vs. handle_free (snd iv))"
| "handle_free (VOptionSome x) \<longleftrightarrow> handle_free x"
| "handle_free (VResultOk x) \<longleftrightarrow> handle_free x"
| "handle_free (VResultError x) \<longleftrightarrow> handle_free x"
| "handle_free v \<longleftrightarrow> True"

definition plain :: "'q graph_value \<Rightarrow> bool" where
  "plain v \<longleftrightarrow> texts_valid v \<and> handle_free v"

definition reader_safe ::
  "nat \<Rightarrow> ('v \<Rightarrow> bool) \<Rightarrow> (literal_parser \<Rightarrow> literal_text_error + 'v \<times> literal_parser) \<Rightarrow> bool" where
  "reader_safe len Q elem \<longleftrightarrow>
     (\<forall>p. placed len p \<longrightarrow> safe_parse len (\<lambda>(v, p'). Q v \<and> placed len p') (elem p))"

lemma reader_safeD:
  "reader_safe len Q elem \<Longrightarrow> placed len p \<Longrightarrow> safe_parse len (\<lambda>(v, p'). Q v \<and> placed len p') (elem p)"
  by (simp add: reader_safe_def)

lemma parse_items_safe:
  assumes "reader_safe len Q elem"
  shows "\<forall>v \<in> set vs. Q v \<Longrightarrow> placed len p \<Longrightarrow>
    safe_parse len (\<lambda>(xs, p'). (\<forall>x \<in> set xs. Q x) \<and> placed len p') (parse_items elem m q vs p)"
  using assms
proof (induction elem m q vs p rule: parse_items.induct)
  case (1 elem m q vs p)
  show ?case
  proof (cases "m \<le> length vs \<or> q \<le> length vs")
    case True
    then show ?thesis by (subst parse_items.simps) simp
  next
    case False
    show ?thesis
    proof (cases "elem p")
      case (Inl e)
      with False reader_safeD[OF 1(4,3)] show ?thesis by (subst parse_items.simps) simp
    next
      case (Inr vp)
      then obtain v p1 where vp: "vp = (v, p1)" "elem p = Inr (v, p1)" by (cases vp) simp
      with reader_safeD[OF 1(4,3)] have v: "Q v" "placed len p1" by auto
      obtain b p2 where p2: "consume_char 93 (skip_whitespace p1) = (b, p2)" by (cases "consume_char 93 (skip_whitespace p1)")
      have pl: "placed len p2" using consume_char_safe[OF placed_skip[OF v(2)] p2] .
      have "safe_parse len (\<lambda>(xs, p'). (\<forall>x \<in> set xs. Q x) \<and> placed len p') (parse_items elem m q (vs @ [v]) p3)"
        if b: "\<not> b" and p3: "expect_char 44 p2 = Inr p3" for p3
      proof -
        have "placed len p3" using expect_char_safe[OF pl, of 44] p3 by simp
        then show ?thesis using 1(2,4) v by (intro 1(1)[OF False vp(2) refl p2[symmetric] b p3]) auto
      qed
      with expect_char_safe[OF pl, of 44] False vp pl v 1(2) show ?thesis
        by (subst parse_items.simps, cases "expect_char 44 p2") (auto simp: p2)
    qed
  qed
qed

lemma parse_array_safe:
  assumes "reader_safe len plain elem" and p: "placed len p"
  shows "safe_parse len (\<lambda>(v, p'). plain v \<and> placed len p') (parse_array elem m q p)"
  unfolding parse_array_def
proof (rule safe_parse_and_then[OF expect_char_safe[OF p]])
  fix p1 assume p1: "placed len p1"
  obtain e p2 where p2: "consume_char 93 (skip_whitespace p1) = (e, p2)" by (cases "consume_char 93 (skip_whitespace p1)")
  have pl: "placed len p2" using consume_char_safe[OF placed_skip[OF p1] p2] .
  from parse_items_safe[OF assms(1) _ this, of "[]" "unat m" q]
  have "safe_parse len (\<lambda>(v, p'). plain v \<and> placed len p')
    (and_then (parse_items elem (unat m) q [] p2) (\<lambda>(vs, p). Inr (VArray vs, p)))"
    by (cases "parse_items elem (unat m) q [] p2") (auto simp: plain_def)
  with pl show "safe_parse len (\<lambda>(v, p'). plain v \<and> placed len p')
    (case consume_char 93 (skip_whitespace p1) of (ended, p) \<Rightarrow>
     if ended then Inr (VArray [], p)
     else and_then (parse_items elem (unat m) q [] p) (\<lambda>(vs, p). Inr (VArray vs, p)))"
    by (simp add: p2 plain_def)
qed

lemma parse_fields_safe:
  assumes "\<And>t. reader_safe len Q (elem t)"
  shows "placed len p \<Longrightarrow>
    safe_parse len (\<lambda>(vs, p'). (\<forall>iv \<in> set vs. Q (snd iv)) \<and> placed len p') (parse_fields elem first fs p)"
proof (induction fs arbitrary: first p)
  case (Cons f fs)
  have start: "safe_parse len (placed len) (if first then Inr p else expect_char 44 p)"
    using Cons.prems expect_char_safe by auto
  show ?case
    unfolding parse_fields.simps
  proof (rule safe_parse_and_then[OF start], rule safe_parse_and_then[OF field_name_safe], assumption)
    fix np :: "rust_str \<times> literal_parser" assume np: "case np of (s, p') \<Rightarrow> placed len p'"
    obtain name p2 where p2: "np = (name, p2)" "placed len p2" using np by (cases np) auto
    have "safe_parse len (\<lambda>(vs, p'). (\<forall>iv \<in> set vs. Q (snd iv)) \<and> placed len p')
      (and_then (expect_char 58 p2) (\<lambda>p. and_then (elem (rf_value_type f) p) (\<lambda>(v, p).
         and_then (parse_fields elem False fs p) (\<lambda>(vs, p). Inr ((rf_id f, v) # vs, p)))))"
      using Cons.IH reader_safeD[OF assms] p2(2)
      by (fastforce intro!: safe_parse_and_then[OF expect_char_safe] safe_parse_and_then[OF reader_safeD[OF assms]]
          safe_parse_and_then[OF Cons.IH])
    with p2 show "safe_parse len (\<lambda>(vs, p'). (\<forall>iv \<in> set vs. Q (snd iv)) \<and> placed len p')
      (case np of (name, p) \<Rightarrow>
        if name \<noteq> rf_name f then Inl (syntax_at p (str ''expected canonical field '' @ rf_name f @ str '' [f''
              @ nat_text (unat (rf_id f)) @ str '']''))
        else and_then (expect_char 58 p) (\<lambda>p. and_then (elem (rf_value_type f) p) (\<lambda>(v, p).
         and_then (parse_fields elem False fs p) (\<lambda>(vs, p). Inr ((rf_id f, v) # vs, p)))))"
      by simp
  qed
qed simp

lemma parse_record_safe:
  assumes "\<And>t. reader_safe len plain (elem t)" and "placed len p"
  shows "safe_parse len (\<lambda>(v, p'). plain v \<and> placed len p') (parse_record elem fs p)"
  unfolding parse_record_def
  by (rule safe_parse_and_then[OF expect_char_safe[OF assms(2)]],
      rule safe_parse_and_then[OF parse_fields_safe[OF assms(1) placed_skip]], assumption)
    (auto intro!: safe_parse_and_then[OF expect_char_safe] simp: plain_def)

text \<open>A parenthesised element after a keyword.\<close>

lemma wrapped_safe:
  assumes "reader_safe len plain elem" and "placed len p" and "\<And>v. plain v \<Longrightarrow> plain (C v)"
  shows "safe_parse len (\<lambda>(v, p'). plain v \<and> placed len p')
    (and_then (expect_char 40 p) (\<lambda>p. and_then (elem p) (\<lambda>(v, p).
       and_then (expect_char 41 p) (\<lambda>p. Inr (C v, p)))))"
  by (rule safe_parse_and_then[OF expect_char_safe[OF assms(2)]],
      rule safe_parse_and_then[OF reader_safeD[OF assms(1)]], assumption)
    (auto intro!: safe_parse_and_then[OF expect_char_safe] simp: assms(3))

lemma parse_option_safe:
  fixes elem :: "literal_parser \<Rightarrow> literal_text_error + 'q graph_value \<times> literal_parser"
  assumes "reader_safe len plain elem" and "placed len p"
  shows "safe_parse len (\<lambda>(v, p'). plain v \<and> placed len p') (parse_option elem p)"
proof -
  let ?p = "skip_whitespace p"
  have p: "placed len ?p" using assms(2) by simp
  have some: "safe_parse len (\<lambda>(v, p'). plain v \<and> placed len p')
    (and_then (expect_keyword [115, 111, 109, 101] ?p) (\<lambda>p. and_then (expect_char 40 p) (\<lambda>p.
       and_then (elem p) (\<lambda>(v, p). and_then (expect_char 41 p) (\<lambda>p. Inr (VOptionSome v, p))))))"
    by (rule safe_parse_and_then[OF expect_keyword_safe[OF p]], rule wrapped_safe[OF assms(1)])
      (auto simp: plain_def)
  have none: "safe_parse len (\<lambda>(v, p'). plain v \<and> placed len p')
    (and_then (require_value_boundary (consume [110, 111, 110, 101] ?p)) (\<lambda>_. Inr (VOptionNone :: 'q graph_value, consume [110, 111, 110, 101] ?p)))"
    if "take 4 (lp_rest ?p) = [110, 111, 110, 101]"
    using placed_keyword[OF p that]
    by (intro safe_parse_and_then[OF boundary_safe]) (auto simp: plain_def)
  show ?thesis using some none by (simp add: parse_option_def Let_def)
qed

lemma parse_result_safe:
  assumes "reader_safe len plain e1" and "reader_safe len plain e2" and "placed len p"
  shows "safe_parse len (\<lambda>(v, p'). plain v \<and> placed len p') (parse_result e1 e2 p)"
proof -
  let ?p = "skip_whitespace p"
  have p: "placed len ?p" using assms(3) by simp
  have "safe_parse len (\<lambda>(v, p'). plain v \<and> placed len p')
    (and_then (expect_char 40 (consume [111, 107] ?p)) (\<lambda>p. and_then (e1 p) (\<lambda>(v, p).
       and_then (expect_char 41 p) (\<lambda>p. Inr (VResultOk v, p)))))"
    if "take 2 (lp_rest ?p) = [111, 107]"
    using placed_keyword[OF p that] by (intro wrapped_safe[OF assms(1)]) (auto simp: plain_def)
  moreover have "safe_parse len (\<lambda>(v, p'). plain v \<and> placed len p')
    (and_then (expect_char 40 (consume [101, 114, 114, 111, 114] ?p)) (\<lambda>p. and_then (e2 p) (\<lambda>(v, p).
       and_then (expect_char 41 p) (\<lambda>p. Inr (VResultError v, p)))))"
    if "take 5 (lp_rest ?p) = [101, 114, 114, 111, 114]"
    using placed_keyword[OF p that] by (intro wrapped_safe[OF assms(2)]) (auto simp: plain_def)
  ultimately show ?thesis using p by (simp add: parse_result_def Let_def)
qed

lemma parse_value_safe: "reader_safe len plain (parse_value R S t depth)"
proof (induction "Suc (maximum_value_depth (gs_limits S)) - depth" arbitrary: t depth rule: less_induct)
  case less
  show ?case
    unfolding reader_safe_def
  proof (intro allI impI)
    fix p0 assume p0: "placed len p0"
    let ?Q = "\<lambda>(v, p'). plain v \<and> placed len p'"
    show "safe_parse len ?Q (parse_value R S t depth p0)"
    proof (cases "maximum_value_depth (gs_limits S) < depth \<or> value_type S t = None \<or> usize_max < lp_nodes p0 + 1
        \<or> maximum_value_nodes (gs_limits S) < lp_nodes p0 + 1")
      case True
      have "parse_value R S t depth p0 \<noteq> Inr x" for x using True by (subst parse_value.simps) auto
      moreover have "located len e" if "parse_value R S t depth p0 = Inl e" for e
        using that True by (subst (asm) parse_value.simps) (auto split: if_split_asm)
      ultimately show ?thesis by (auto simp: safe_parse_def)
    next
      case False
      then obtain D where D: "value_type S t = Some D" by auto
      define p where "p = p0\<lparr>lp_nodes := lp_nodes p0 + 1\<rparr>"
      have p: "placed len p" using p0 by (simp add: p_def checked_add_usize_def)
      have IH: "reader_safe len plain (parse_value R S t' (Suc depth))" for t'
        using False by (intro less) auto
      obtain s p1 where tok: "take_scalar_token p = (s, p1)" by (cases "take_scalar_token p")
      have p1: "placed len p1" by (rule token_safe[OF p tok])
      note run = parse_value.simps[of R S t depth p0]
      show ?thesis
      proof (cases "td_kind D")
        case TBoolean
        then show ?thesis using False D p1 tok by (subst run) (auto simp: plain_def p_def checked_add_usize_def split: prod.splits)
      next
        case (TMeasurementInterval u)
        have "safe_parse len ?Q (and_then (take_interval_tokens p) (\<lambda>((lower, upper), p).
          and_then (ok_or (LT_InvalidRational t) (rq_parse R lower)) (\<lambda>lo.
          and_then (ok_or (LT_InvalidRational t) (rq_parse R upper)) (\<lambda>hi. Inr (VMeasurementInterval lo hi, p)))))"
          by (rule safe_parse_and_then[OF interval_safe[OF p]])
            (auto intro!: safe_parse_and_then[OF safe_parse_ok_or] simp: plain_def)
        then show ?thesis using False D TMeasurementInterval by (subst run) (simp add: p_def checked_add_usize_def)
      next
        case (TText m)
        have "safe_parse len ?Q (and_then (parse_text p) (\<lambda>(s, p). Inr (VText s, p)))"
          by (rule safe_parse_and_then[OF text_safe[OF p]]) (auto simp: plain_def)
        then show ?thesis using False D TText by (subst run) (simp add: p_def checked_add_usize_def)
      next
        case (TBytes m)
        have "safe_parse len ?Q (and_then (parse_bytes t p) (\<lambda>(bs, p). Inr (VBytes bs, p)))"
          by (rule safe_parse_and_then[OF bytes_safe[OF p]]) (auto simp: plain_def)
        then show ?thesis using False D TBytes by (subst run) (simp add: p_def checked_add_usize_def)
      next
        case (TArray e m)
        then show ?thesis using False D parse_array_safe[OF IH p] by (subst run) (simp add: p_def checked_add_usize_def)
      next
        case (TRecord fs)
        then show ?thesis using False D parse_record_safe[OF IH p] by (subst run) (simp add: p_def checked_add_usize_def)
      next
        case (TOption e)
        then show ?thesis using False D parse_option_safe[OF IH p] by (subst run) (simp add: p_def checked_add_usize_def)
      next
        case (TResult a b)
        then show ?thesis using False D parse_result_safe[OF IH IH p] by (subst run) (simp add: p_def checked_add_usize_def)
      next
        case (TExactRational u)
        have "safe_parse len ?Q (and_then (ok_or (LT_InvalidRational t) (rq_parse R s)) (\<lambda>q. Inr (VExactRational q, p1)))"
          using p1 by (auto intro!: safe_parse_and_then[OF safe_parse_ok_or] simp: plain_def)
        then show ?thesis using False D tok TExactRational by (subst run) (simp add: p_def checked_add_usize_def)
      next
        case (TCanonicalI64 u q)
        have "safe_parse len ?Q (and_then (ok_or (LT_InvalidSignedInteger t) (parse_i64 s)) (\<lambda>i. Inr (VCanonicalI64 i, p1)))"
          using p1 by (auto intro!: safe_parse_and_then[OF safe_parse_ok_or] simp: plain_def)
        then show ?thesis using False D tok TCanonicalI64 by (subst run) (simp add: p_def checked_add_usize_def)
      next
        case (TCanonicalU64 u q)
        have "safe_parse len ?Q (and_then (ok_or (LT_InvalidUnsignedInteger t) (parse_u64 s)) (\<lambda>i. Inr (VCanonicalU64 i, p1)))"
          using p1 by (auto intro!: safe_parse_and_then[OF safe_parse_ok_or] simp: plain_def)
        then show ?thesis using False D tok TCanonicalU64 by (subst run) (simp add: p_def checked_add_usize_def)
      qed (use False D in \<open>(subst run, simp add: checked_add_usize_def)+\<close>)
    qed
  qed
qed

section \<open>Properties of the notation\<close>

lemma format_graph_literal_Inr:
  assumes "format_graph_literal_text R display S tv limits = Inr out"
  obtains out' where "validate_text_limits limits = Inr ()" and "validate_typed_value R S tv = Inr ()"
    and "reject_non_text_authority S (tv_value_type tv) = Inr ()"
    and "format_value display S (tv_value_type tv) (tv_value tv)
      \<lparr>bt_value = [], bt_maximum_bytes = lt_maximum_bytes limits\<rparr> = Inr out'"
    and "out = bt_value out'"
  using assms by (auto simp: format_graph_literal_text_def)

lemma chars_encode: "\<forall>c \<in> set cs. char_scalar c \<Longrightarrow> chars (encode_str cs) = cs"
  by (simp add: chars_def utf8_chars_encode)

lemma validated_typing:
  assumes "validate_typed_value R S tv = Inr ()"
  shows "has_type R S (tv_value_type tv) (tv_value tv)"
    and "1 + value_depth (tv_value tv) \<le> Suc (maximum_value_depth (gs_limits S))"
    and "value_nodes (tv_value tv) \<le> node_bound S"
  using assms by (auto simp: validate_typed_value_def validate_value_iff)

lemma read_printed:
  assumes "rational_display_laws R display" and "schema_wf R S" and "texts_valid (tv_value tv)"
    and "format_graph_literal_text R display S tv limits = Inr out"
  shows "parse_graph_literal_text R S (tv_value_type tv) out limits = Inr tv"
proof -
  from assms(4) obtain out' where ok: "validate_text_limits limits = Inr ()" "validate_typed_value R S tv = Inr ()"
    "reject_non_text_authority S (tv_value_type tv) = Inr ()"
    and run: "format_value display S (tv_value_type tv) (tv_value tv)
      \<lparr>bt_value = [], bt_maximum_bytes = lt_maximum_bytes limits\<rparr> = Inr out'" and out: "out = bt_value out'"
    by (rule format_graph_literal_Inr)
  note typing = validated_typing[OF ok(2)]
  from printsD[OF prints_all[OF assms(1,2)] typing(1) assms(3) run] obtain cs where
    cs: "appends \<lparr>bt_value = [], bt_maximum_bytes = lt_maximum_bytes limits\<rparr> out' (encode_str cs)"
    and den: "denotes R S (tv_value_type tv) (tv_value tv) cs" by blast
  have out_cs: "out = encode_str cs" "length out \<le> lt_maximum_bytes limits"
    using cs by (auto simp: appends_def out)
  have scalars: "chars out = cs" using den by (simp add: out_cs chars_encode denotes_def starts_value_def)
  have "parse_value R S (tv_value_type tv) 1 (parser_at (cs @ []) 0 0) =
    Inr (tv_value tv, parser_at [] (0 + text_len cs) (0 + value_nodes (tv_value tv)))"
    using typing by (intro reads_asD[OF denotes_reads[OF den]]) auto
  moreover have "text_len cs = length out" by (simp add: out_cs text_len_def)
  moreover have "try_new_typed_value R S (tv_value_type tv) (tv_value tv) = Inr tv"
    using ok(2) by (simp add: try_new_typed_value_iff validate_typed_value_def)
  ultimately show ?thesis
    using ok out_cs(2) scalars by (simp add: parse_graph_literal_text_def)
qed

text \<open>HOL's rationals, printed as a fraction, satisfy the laws of the rational's text.\<close>

definition rat_display :: "rat \<Rightarrow> rust_str" where
  "rat_display q = rational_source (q < 0) (rat_numerator_text q) (rat_denominator_text q)"

lemma no_separator_dotless: "46 \<notin> set cs \<Longrightarrow> no_separator cs"
  by (induction cs rule: no_separator.induct) auto

lemma rat_display_laws: "rational_display_laws rat_api rat_display"
proof -
  have fields: "rq_is_negative rat_api = (\<lambda>q. q < 0)" "rq_numerator_text rat_api = rat_numerator_text"
    "rq_denominator_text rat_api = rat_denominator_text"
    by (simp_all add: rat_api_def)
  have "token (map unat (rat_display q)) \<and> no_separator (map unat (rat_display q))" for q
  proof -
    have c: "canonical_digits (rat_numerator_text q)" "canonical_digits (rat_denominator_text q)"
      using rational_text_lawsD(1,2)[OF rat_api_text_laws, of q] by (simp_all only: fields)
    have d: "unat b < 128 \<and> \<not> is_value_terminator (unat b) \<and> \<not> char_is_whitespace (unat b) \<and> unat b \<noteq> 46"
      if "b \<in> set (rat_display q)" for b
    proof -
      have "is_ascii_digit b \<or> b = 45 \<or> b = 47"
        using that c by (auto simp: rat_display_def rational_source_def canonical_digits_def split: if_splits)
      then show ?thesis
        by (auto simp: is_ascii_digit_def is_value_terminator_def char_is_whitespace_def)
    qed
    have ne: "rat_display q \<noteq> []" by (simp add: rat_display_def rational_source_def)
    then have "token (map unat (rat_display q))" using d by (auto simp: token_def hd_map last_map)
    moreover have "no_separator (map unat (rat_display q))" using d by (intro no_separator_dotless) auto
    ultimately show ?thesis ..
  qed
  moreover have "rq_parse rat_api (rat_display q) = Some q" for q
    using rational_text_lawsD(6)[OF rat_api_text_laws, of q] by (simp only: fields rat_display_def)
  ultimately show ?thesis by (simp add: rational_display_laws_def)
qed

definition ten_bytes :: literal_text_limits where
  "ten_bytes = \<lparr>lt_maximum_bytes = 10\<rparr>"

definition some_true :: "rat typed_graph_value" where
  "some_true = \<lparr>tv_value_type = 2, tv_value = VOptionSome (VBoolean True)\<rparr>"

lemma some_true_prints:
  "format_graph_literal_text rat_api rat_display chain_schema some_true ten_bytes = Inr (str ''some(true)'')"
proof -
  have lens: "length (str ''some('' :: rust_str) = 5" "length (str ''true'' :: rust_str) = 4"
    by (simp_all add: str_def)
  have "validate_typed_value rat_api chain_schema some_true = Inr ()"
    by (simp add: validate_typed_value_def validate_value_iff some_true_def node_bound_def usize_max_def
        chain_schema_def[THEN arg_cong, of gs_limits] evaluate_limits)
  then show ?thesis
    by (simp add: format_graph_literal_text_def validate_text_limits_def ten_bytes_def
        reject_non_text_authority_def some_true_def format_value.simps push_str_def push_char_def lens
        checked_add_usize_def usize_max_def len_utf8_def utf8_encode_def str_def)
qed

text \<open>
  C23. What \<^verbatim>\<open>format_graph_literal_text\<close> prints for a literal,
  \<^verbatim>\<open>parse_graph_literal_text\<close> reads back as the same typed literal, under the same
  limits: every scalar form, every escape, all nesting, and both budgets.
\<close>

theorem literal_text_round_trip:
  assumes "rational_display_laws R display" and "schema_wf R S" and "texts_valid (tv_value tv)"
    and "format_graph_literal_text R display S tv limits = Inr out"
  shows "parse_graph_literal_text R S (tv_value_type tv) out limits = Inr tv"
  using assms by (rule read_printed)

theorem literal_text_round_trip_witness:
  "parse_graph_literal_text rat_api chain_schema 2 (str ''some(true)'') ten_bytes = Inr some_true"
proof -
  have "texts_valid (tv_value some_true)" by (simp add: some_true_def)
  from literal_text_round_trip[OF rat_display_laws chain_schema_wf this some_true_prints]
  show ?thesis by (simp add: some_true_def)
qed

text \<open>What an accepted source text gives.\<close>

lemma chars_scalar: "\<forall>c \<in> set (chars source). char_scalar c"
  using utf8_chars_decode[of source] by (cases "utf8_chars source") (auto simp: chars_def)

lemma chars_len: "text_len (chars source) \<le> length source"
  using utf8_chars_decode[of source] by (cases "utf8_chars source") (auto simp: chars_def text_len_def)

lemma source_safe:
  "safe_parse (length source) (\<lambda>(v, p). plain v) (parse_value R S t 1 (parser_at (chars source) 0 0))"
proof -
  let ?m = "parse_value R S t 1 (parser_at (chars source) 0 0)"
  have "placed (text_len (chars source)) (parser_at (chars source) 0 0)"
    using chars_scalar by (simp add: placed_def)
  from reader_safeD[OF parse_value_safe this]
  have "safe_parse (text_len (chars source)) (\<lambda>(v, p). plain v \<and> placed (text_len (chars source)) p) ?m" .
  then show ?thesis
    using chars_len[of source] by (cases ?m) (auto simp: located_def intro: order.trans)
qed

lemma source_rest_placed:
  assumes "parse_value R S t 1 (parser_at (chars source) 0 0) = Inr (v, p)"
  shows "lp_offset (skip_whitespace p) \<le> length source"
proof -
  have "placed (text_len (chars source)) (parser_at (chars source) 0 0)"
    using chars_scalar by (simp add: placed_def)
  from reader_safeD[OF parse_value_safe this, of R S t 1] assms
  have "placed (text_len (chars source)) p" by simp
  then have "placed (text_len (chars source)) (skip_whitespace p)" by simp
  then show ?thesis using chars_len[of source] by (simp add: placed_def)
qed

text \<open>
  C24. Whatever text it is given, the parser returns only literals of
  the requested type that passed the complete schema validation, whose strings are valid, and in
  which no resource or job handle occurs at any depth: typing text cannot forge an identity.
\<close>

theorem literal_text_forges_no_identity:
  assumes "parse_graph_literal_text R S t source limits = Inr tv"
  shows "tv_value_type tv = t \<and> validate_typed_value R S tv = Inr ()
    \<and> texts_valid (tv_value tv) \<and> handle_free (tv_value tv)"
proof -
  from assms obtain v p where run: "parse_value R S t 1 (parser_at (chars source) 0 0) = Inr (v, p)"
    and tv: "try_new_typed_value R S t v = Inr tv"
    by (auto simp: parse_graph_literal_text_def Let_def split: if_split_asm)
  from tv have tv': "tv = \<lparr>tv_value_type = t, tv_value = v\<rparr>" "validate_value R S t v = Inr ()"
    by (auto simp: try_new_typed_value_iff)
  from source_safe[of source R S t] run have "plain v" by simp
  with tv' show ?thesis by (simp add: plain_def validate_typed_value_def)
qed

theorem literal_text_forges_no_identity_witness:
  "parse_graph_literal_text rat_api chain_schema 2 (str ''some(true)'') ten_bytes = Inr some_true
   \<and> handle_free (tv_value some_true)"
proof -
  have run: "parse_graph_literal_text rat_api chain_schema 2 (str ''some(true)'') ten_bytes = Inr some_true"
    using read_printed[OF rat_display_laws chain_schema_wf _ some_true_prints] by (simp add: some_true_def)
  with literal_text_forges_no_identity[OF run] show ?thesis by simp
qed

text \<open>
  Every syntax error of the parser points at a byte offset inside
  the source or at its end, so the editor can always show where the text went wrong.
\<close>

theorem literal_syntax_errors_located:
  assumes "parse_graph_literal_text R S t source limits = Inl (LT_Syntax off message)"
  shows "off \<le> length source"
proof -
  have rej: "reject_non_text_authority S t \<noteq> Inl (LT_Syntax off message)"
    by (auto simp: reject_non_text_authority_def split: type_kind.split_asm)
  from assms rej consider "parse_value R S t 1 (parser_at (chars source) 0 0) = Inl (LT_Syntax off message)"
    | v p where "parse_value R S t 1 (parser_at (chars source) 0 0) = Inr (v, p)"
        "syntax_at (skip_whitespace p) (str ''unexpected trailing input'') = LT_Syntax off message"
    by (auto simp: parse_graph_literal_text_def Let_def validate_text_limits_def split: if_split_asm)
  then show ?thesis
  proof cases
    case 1
    with source_safe[of source R S t] show ?thesis by (simp add: located_def)
  next
    case 2
    with source_rest_placed[OF 2(1)] show ?thesis by (simp add: syntax_at_def)
  qed
qed

theorem literal_syntax_errors_located_witness:
  "\<exists>off message. parse_graph_literal_text rat_api chain_schema 1 (str ''maybe'') ten_bytes = Inl (LT_Syntax off message)
     \<and> off \<le> 5"
proof -
  have src: "chars (str ''maybe'') = [109, 97, 121, 98, 101]"
    unfolding chars_def by (subst utf8_chars_ascii) (simp_all add: str_def)
  have words: "str ''true'' = map word_of_nat [116, 114, 117, 101]" "str ''false'' = map word_of_nat [102, 97, 108, 115, 101]"
    by (simp_all add: str_def)
  have limits: "maximum_value_depth (gs_limits (chain_schema :: rat graph_schema)) = 2"
    "1 \<le> maximum_value_nodes (gs_limits (chain_schema :: rat graph_schema))"
    by (simp_all add: chain_schema_def evaluate_limits)
  have tok: "token [109, 97, 121, 98, 101]" by (simp add: token_def char_is_whitespace_def is_value_terminator_def)
  have "take_scalar_token (parser_at ([109, 97, 121, 98, 101] @ []) 0 1) =
    (encode_str [109, 97, 121, 98, 101], parser_at [] (0 + text_len [109, 97, 121, 98, 101]) 1)"
    by (rule take_scalar_token_at[OF tok]) simp
  then have run: "parse_graph_literal_text rat_api chain_schema 1 (str ''maybe'') ten_bytes =
    Inl (LT_Syntax 5 (str ''expected true or false''))"
    using limits
    by (simp add: parse_graph_literal_text_def validate_text_limits_def ten_bytes_def reject_non_text_authority_def
        src parse_value.simps checked_add_usize_def usize_max_def words utf8_encode_def syntax_at_def)
      (simp add: str_def)
  from literal_syntax_errors_located[OF run] run show ?thesis by (auto simp: str_def)
qed

text \<open>Printing a validated literal without identities can fail on its size only.\<close>

lemma format_sequence_Inl:
  assumes "format_sequence f first xs out = Inl e" and "\<And>x out e. x \<in> set xs \<Longrightarrow> f x out = Inl e \<Longrightarrow> size_error e"
  shows "size_error e"
  using assms
proof (induction xs arbitrary: first out)
  case (Cons x xs)
  have "size_error e" if "format_sequence f False xs q = Inl e" for q
    by (rule Cons.IH[OF that], rule Cons.prems(2)) auto
  moreover have "size_error e" if "f x q = Inl e" for q
    using Cons.prems(2)[OF _ that] by simp
  ultimately show ?case using Cons.prems(1) by (auto dest: push_Inl split: if_split_asm)
qed simp

definition fails_on_size :: "'q external_api \<Rightarrow> ('q \<Rightarrow> rust_str) \<Rightarrow> 'q graph_schema \<Rightarrow> 'q graph_value \<Rightarrow> bool" where
  "fails_on_size R display S v \<longleftrightarrow> (\<forall>t out e. has_type R S t v \<longrightarrow> handle_free v \<longrightarrow>
     format_value display S t v out = Inl e \<longrightarrow> size_error e)"

lemma fails_on_sizeD:
  "fails_on_size R display S v \<Longrightarrow> has_type R S t v \<Longrightarrow> handle_free v \<Longrightarrow> format_value display S t v out = Inl e \<Longrightarrow>
     size_error e"
  unfolding fails_on_size_def by blast

lemma fails_on_size_composite:
  "(\<And>x. x \<in> set xs \<Longrightarrow> fails_on_size R display S x) \<Longrightarrow> fails_on_size R display S (VArray xs)"
  "(\<And>iv. iv \<in> set vs \<Longrightarrow> fails_on_size R display S (snd iv)) \<Longrightarrow> fails_on_size R display S (VRecord vs)"
proof -
  show "fails_on_size R display S (VArray xs)" if IH: "\<And>x. x \<in> set xs \<Longrightarrow> fails_on_size R display S x"
    unfolding fails_on_size_def
  proof (intro allI impI)
    fix t out e
    assume *: "has_type R S t (VArray xs)" "handle_free (VArray xs)" "format_value display S t (VArray xs) out = Inl e"
    then obtain D el m where D: "value_type S t = Some D" "td_kind D = TArray el m" "\<forall>x \<in> set xs. has_type R S el x"
      by auto
    have "format_value display S el x q = Inl e' \<Longrightarrow> size_error e'" if "x \<in> set xs" for x q e'
      using fails_on_sizeD[OF IH[OF that]] D(3) *(2) that by auto
    with *(3) show "size_error e"
      by (auto simp: format_value.simps[of _ _ t] D(1,2) dest: push_Inl format_sequence_Inl)
  qed
  show "fails_on_size R display S (VRecord vs)" if IH: "\<And>iv. iv \<in> set vs \<Longrightarrow> fails_on_size R display S (snd iv)"
    unfolding fails_on_size_def
  proof (intro allI impI)
    fix t out e
    assume *: "has_type R S t (VRecord vs)" "handle_free (VRecord vs)" "format_value display S t (VRecord vs) out = Inl e"
    then obtain D fs where D: "value_type S t = Some D" "td_kind D = TRecord fs"
      and el: "list_all2 (\<lambda>f iv. rf_id f = fst iv \<and> has_type R S (rf_value_type f) (snd iv)) fs vs"
      by auto
    have elem: "size_error e'" if "(f, i, x) \<in> set (zip fs vs)" "format_value display S (rf_value_type f) x q = Inl e'"
      for f i x q e'
    proof -
      have "(i, x) \<in> set vs" "has_type R S (rf_value_type f) x"
        using that(1) el by (auto simp: list_all2_iff dest: set_zip_rightD)
      with fails_on_sizeD[OF IH[of "(i, x)"]] *(2) that(2) show ?thesis by auto
    qed
    from *(3) consider "push_char 123 out = Inl e" | o1 where "format_sequence (\<lambda>(f, i, x) out.
        and_then (push_str (rf_name f) out) (\<lambda>out. and_then (push_char 58 out) (\<lambda>out.
          format_value display S (rf_value_type f) x out))) True (zip fs vs) o1 = Inl e"
      | o2 where "push_char 125 o2 = Inl e"
      by (auto simp: format_value.simps[of _ _ t] D)
    then show "size_error e"
    proof cases
      case 2
      then show ?thesis by (rule format_sequence_Inl) (auto dest: push_Inl elem)
    qed (auto dest: push_Inl)
  qed
qed

lemma fails_on_size: "fails_on_size R display S v"
proof (induction v)
  case (VArray xs)
  then show ?case by (rule fails_on_size_composite)
next
  case (VRecord vs)
  then have "fails_on_size R display S (snd iv)" if "iv \<in> set vs" for iv
    using that by (metis snds.intros)
  then show ?case by (rule fails_on_size_composite)
next
  case (VOptionSome x)
  then show ?case unfolding fails_on_size_def[of _ _ _ "VOptionSome x"]
    by (auto simp: format_value.simps[of _ _ _ "VOptionSome x"] dest: push_Inl fails_on_sizeD)
next
  case (VResultOk x)
  then show ?case unfolding fails_on_size_def[of _ _ _ "VResultOk x"]
    by (auto simp: format_value.simps[of _ _ _ "VResultOk x"] dest: push_Inl fails_on_sizeD)
next
  case (VResultError x)
  then show ?case unfolding fails_on_size_def[of _ _ _ "VResultError x"]
    by (auto simp: format_value.simps[of _ _ _ "VResultError x"] dest: push_Inl fails_on_sizeD)
qed (auto simp: fails_on_size_def format_value.simps dest: push_Inl format_literal_Inl)

text \<open>
  A validated literal that holds no identity can always be
  written as text, unless the text exceeds the caller's byte limit.
\<close>

theorem literal_text_fails_only_on_size:
  assumes "validate_typed_value R S tv = Inr ()" and "handle_free (tv_value tv)" and "0 < lt_maximum_bytes limits"
  shows "(\<exists>out. format_graph_literal_text R display S tv limits = Inr out)
    \<or> (\<exists>n. format_graph_literal_text R display S tv limits = Inl (LT_OutputTooLarge n))"
proof -
  note ty = validated_typing(1)[OF assms(1)]
  have "reject_non_text_authority S (tv_value_type tv) = Inr ()"
    using ty assms(2) by (cases rule: has_type.cases) (auto simp: reject_non_text_authority_def)
  moreover have "size_error e"
    if "format_value display S (tv_value_type tv) (tv_value tv) out = Inl e" for out e
    using fails_on_sizeD[OF fails_on_size ty assms(2) that] .
  ultimately show ?thesis
    using assms by (cases "format_value display S (tv_value_type tv) (tv_value tv)
        \<lparr>bt_value = [], bt_maximum_bytes = lt_maximum_bytes limits\<rparr>")
      (auto simp: format_graph_literal_text_def validate_text_limits_def size_error_def)
qed

theorem literal_text_fails_only_on_size_witness:
  "\<exists>n. format_graph_literal_text rat_api rat_display chain_schema some_true \<lparr>lt_maximum_bytes = 3\<rparr>
     = Inl (LT_OutputTooLarge n)"
proof -
  have ok: "validate_typed_value rat_api chain_schema some_true = Inr ()"
    by (simp add: validate_typed_value_def validate_value_iff some_true_def node_bound_def usize_max_def
        chain_schema_def[THEN arg_cong, of gs_limits] evaluate_limits)
  have free: "handle_free (tv_value some_true)" by (simp add: some_true_def)
  have pos: "0 < lt_maximum_bytes \<lparr>lt_maximum_bytes = 3\<rparr>" by simp
  have "format_graph_literal_text rat_api rat_display chain_schema some_true \<lparr>lt_maximum_bytes = 3\<rparr> \<noteq> Inr out" for out
    by (simp add: format_graph_literal_text_def some_true_def format_value.simps push_str_def str_def)
  with literal_text_fails_only_on_size[OF ok free pos] show ?thesis by blast
qed

end
