(* ===== verification/Protocol_Client.thy ===== *)
theory Protocol_Client
  imports Graph_Prelude
begin

text \<open>
  The framed request and response exchange of
  \<^verbatim>\<open>crates/alumina-interface-client/src/lib.rs\<close>: the client that frames one typed
  operation and decodes the correlated response, and the simulator transport that serves the same
  bytes. The two headers belong to \<^verbatim>\<open>alumina_protocol\<close>: their fields are records here,
  their encoding, decoding and validation the parameter \<open>protocol_api\<close>.
\<close>

section \<open>Headers and operations outside the crate\<close>

text \<open>
  The operations and statuses the crate names, the others under a 16-bit code; a digest is its 32
  bytes, compared only. The records hold the fields this module reads.
\<close>

type_synonym digest = "256 word"

datatype operation =
    StorageInspect | StorageBeginUpload | StoragePutChunk | StorageFinalize | OtherOperation u16

datatype status_code = StatusOk | StatusNotFound | StatusOther u16

datatype message_direction = DirectionRequest | DirectionResponse | DirectionOther

record 'k frame_header =
  fh_kind :: 'k
  fh_payload_len :: u32
  fh_sequence :: u32
  fh_cycle :: u64
  fh_config_digest :: digest

record message_header =
  mh_direction :: message_direction
  mh_operation :: operation
  mh_correlation_id :: u32
  mh_status :: status_code
  mh_body_len :: u32

record ('k, 'fe, 'me) protocol_api =
  pr_frame_len :: nat
  pr_message_len :: nat
  pr_frame_kind :: "operation \<Rightarrow> 'k"
  pr_frame_new :: "'k \<Rightarrow> u32 \<Rightarrow> u32 \<Rightarrow> u64 \<Rightarrow> digest \<Rightarrow> 'k frame_header"
  pr_frame_encode :: "'k frame_header \<Rightarrow> bytes"
  pr_frame_decode :: "bytes \<Rightarrow> u32 \<Rightarrow> 'fe + 'k frame_header"
  pr_message_request :: "operation \<Rightarrow> u32 \<Rightarrow> u32 \<Rightarrow> message_header"
  pr_message_response :: "operation \<Rightarrow> u32 \<Rightarrow> status_code \<Rightarrow> u32 \<Rightarrow> message_header"
  pr_message_validate :: "message_header \<Rightarrow> 'k \<Rightarrow> u32 \<Rightarrow> 'me + unit"
  pr_message_encode :: "message_header \<Rightarrow> bytes"
  pr_message_decode :: "bytes \<Rightarrow> 'k \<Rightarrow> u32 \<Rightarrow> 'me + message_header"

text \<open>
  What the code relies on: the constructors set the fields, encodings have their declared length and
  decode to the header they encode when its payload is within the limit, and
  \<^verbatim>\<open>decode_and_validate\<close> decodes and then validates.
\<close>

definition header_laws :: "('k, 'fe, 'me) protocol_api \<Rightarrow> bool" where
  "header_laws P \<longleftrightarrow> pr_message_len P \<le> 65536 \<and> pr_frame_len P \<le> 65536
     \<and> (\<forall>kind n sequence cycle cfg. pr_frame_new P kind n sequence cycle cfg =
         \<lparr>fh_kind = kind, fh_payload_len = n, fh_sequence = sequence, fh_cycle = cycle, fh_config_digest = cfg\<rparr>)
     \<and> (\<forall>h. length (pr_frame_encode P h) = pr_frame_len P)
     \<and> (\<forall>m. length (pr_message_encode P m) = pr_message_len P)
     \<and> (\<forall>h limit. fh_payload_len h \<le> limit \<longrightarrow> pr_frame_decode P (pr_frame_encode P h) limit = Inr h)
     \<and> (\<forall>m kind n. pr_message_decode P (pr_message_encode P m) kind n
         = and_then (pr_message_validate P m kind n) (\<lambda>_. Inr m))
     \<and> (\<forall>op c n. mh_direction (pr_message_request P op c n) = DirectionRequest
         \<and> mh_operation (pr_message_request P op c n) = op \<and> mh_correlation_id (pr_message_request P op c n) = c)
     \<and> (\<forall>op c st n. mh_direction (pr_message_response P op c st n) = DirectionResponse
         \<and> mh_operation (pr_message_response P op c st n) = op
         \<and> mh_correlation_id (pr_message_response P op c st n) = c \<and> mh_status (pr_message_response P op c st n) = st)"

section \<open>The client\<close>

definition maximum_payload_bytes :: u32 where
  "maximum_payload_bytes = 65536"

record client_response =
  rs_status :: status_code
  rs_body :: bytes

text \<open>A transport is a state and its method \<^verbatim>\<open>exchange\<close>.\<close>

type_synonym ('t, 'e) transport = "bytes \<Rightarrow> 't \<Rightarrow> ('e + bytes) \<times> 't"

record 't protocol_client =
  pc_transport :: 't
  pc_next_sequence :: u32
  pc_next_correlation :: u32
  pc_config_digest :: digest

datatype 'me request_encode_error = RE_RequestTooLarge | RE_Message 'me

datatype ('fe, 'me) response_decode_error =
    RD_TruncatedResponse
  | RD_ResponseLength
  | RD_Frame 'fe
  | RD_Message 'me
  | RD_Sequence
  | RD_Correlation
  | RD_ConfigurationIdentity

datatype ('e, 'fe, 'me) client_error =
    CE_Transport 'e
  | CE_Request "'me request_encode_error"
  | CE_Response "('fe, 'me) response_decode_error"

definition new_client :: "'t \<Rightarrow> digest \<Rightarrow> 't protocol_client" where
  "new_client transport config_digest = \<lparr>pc_transport = transport, pc_next_sequence = 0,
     pc_next_correlation = 1, pc_config_digest = config_digest\<rparr>"

text \<open>
  The two lengths of a message, as \<^verbatim>\<open>encode_request\<close> and the simulator compute them with
  the same lines. The length of a header is a constant that fits its type.
\<close>

definition checked_add_u32 :: "u32 \<Rightarrow> u32 \<Rightarrow> u32 option" where
  "checked_add_u32 a b = (if unat a + unat b \<le> u32_max then Some (a + b) else None)"

definition body_length :: "bytes \<Rightarrow> u32 option" where
  "body_length body = (if u32_max < length body then None else Some (word_of_nat (length body)))"

definition payload_length :: "('k, 'fe, 'me) protocol_api \<Rightarrow> u32 \<Rightarrow> u32 option" where
  "payload_length P body_len =
     (case checked_add_u32 (word_of_nat (pr_message_len P)) body_len of
        None \<Rightarrow> None
      | Some n \<Rightarrow> if n \<le> maximum_payload_bytes then Some n else None)"

definition encode_request ::
  "('k, 'fe, 'me) protocol_api \<Rightarrow> operation \<Rightarrow> bytes \<Rightarrow> u32 \<Rightarrow> u32 \<Rightarrow> digest \<Rightarrow> 'me request_encode_error + bytes" where
  "encode_request P operation body sequence correlation config_digest =
     and_then (ok_or RE_RequestTooLarge (body_length body)) (\<lambda>body_len.
     and_then (ok_or RE_RequestTooLarge (payload_length P body_len)) (\<lambda>payload_len.
     let message = pr_message_request P operation correlation body_len in
     and_then (map_err RE_Message (pr_message_validate P message (pr_frame_kind P operation) payload_len)) (\<lambda>_.
     let frame = pr_frame_new P (pr_frame_kind P operation) payload_len sequence 0 config_digest in
     Inr (pr_frame_encode P frame @ pr_message_encode P message @ body))))"

definition decode_response ::
  "('k, 'fe, 'me) protocol_api \<Rightarrow> bytes \<Rightarrow> operation \<Rightarrow> u32 \<Rightarrow> u32 \<Rightarrow> digest
     \<Rightarrow> ('fe, 'me) response_decode_error + client_response" where
  "decode_response P encoded operation sequence correlation config_digest =
     (if length encoded < pr_frame_len P + pr_message_len P then Inl RD_TruncatedResponse
      else and_then (map_err RD_Frame
          (pr_frame_decode P (take (pr_frame_len P) encoded) maximum_payload_bytes)) (\<lambda>frame.
      and_then (ok_or RD_TruncatedResponse (checked_add_usize (pr_frame_len P) (unat (fh_payload_len frame)))) (\<lambda>expected_len.
      if length encoded \<noteq> expected_len then Inl RD_ResponseLength
      else if fh_sequence frame \<noteq> sequence then Inl RD_Sequence
      else if fh_config_digest frame \<noteq> config_digest then Inl RD_ConfigurationIdentity
      else and_then (map_err RD_Message (pr_message_decode P (take (pr_message_len P) (drop (pr_frame_len P) encoded))
          (fh_kind frame) (fh_payload_len frame))) (\<lambda>message.
      if mh_direction message \<noteq> DirectionResponse \<or> mh_operation message \<noteq> operation
        \<or> mh_correlation_id message \<noteq> correlation
      then Inl RD_Correlation
      else Inr \<lparr>rs_status = mh_status message, rs_body = drop (pr_frame_len P + pr_message_len P) encoded\<rparr>))))"

text \<open>The counters advance only when a response was accepted.\<close>

definition advance_counters :: "'t protocol_client \<Rightarrow> 't protocol_client" where
  "advance_counters c = c\<lparr>pc_next_sequence := pc_next_sequence c + 1,
     pc_next_correlation := max (pc_next_correlation c + 1) 1\<rparr>"

definition request ::
  "('k, 'fe, 'me) protocol_api \<Rightarrow> ('t, 'e) transport \<Rightarrow> operation \<Rightarrow> bytes \<Rightarrow> 't protocol_client
     \<Rightarrow> (('e, 'fe, 'me) client_error + client_response) \<times> 't protocol_client" where
  "request P exchange operation body c =
     (let correlation = pc_next_correlation c; sequence = pc_next_sequence c in
      case encode_request P operation body sequence correlation (pc_config_digest c) of
        Inl e \<Rightarrow> (Inl (CE_Request e), c)
      | Inr encoded \<Rightarrow> (case exchange encoded (pc_transport c) of (answer, t) \<Rightarrow>
          let c = c\<lparr>pc_transport := t\<rparr> in
          (case answer of
             Inl e \<Rightarrow> (Inl (CE_Transport e), c)
           | Inr response \<Rightarrow> (case decode_response P response operation sequence correlation (pc_config_digest c) of
                 Inl e \<Rightarrow> (Inl (CE_Response e), c)
               | Inr decoded \<Rightarrow> (Inr decoded, advance_counters c)))))"

section \<open>The simulator transport\<close>

text \<open>A handler is a state and its method \<^verbatim>\<open>respond\<close>.\<close>

type_synonym 'h handler = "operation \<Rightarrow> bytes \<Rightarrow> 'h \<Rightarrow> client_response \<times> 'h"

record 'h simulator_transport =
  sm_handler :: 'h
  sm_request_count :: u32

datatype ('fe, 'me) simulator_error =
    SE_TruncatedRequest
  | SE_RequestLength
  | SE_Frame 'fe
  | SE_Message 'me
  | SE_NotARequest
  | SE_ResponseTooLarge

definition new_simulator :: "'h \<Rightarrow> 'h simulator_transport" where
  "new_simulator h = \<lparr>sm_handler = h, sm_request_count = 0\<rparr>"

definition saturating_succ :: "u32 \<Rightarrow> u32" where
  "saturating_succ n = (if unat n = u32_max then n else n + 1)"

text \<open>The frame that answers: the second half of \<^verbatim>\<open>exchange\<close>.\<close>

definition encode_response ::
  "('k, 'fe, 'me) protocol_api \<Rightarrow> 'k frame_header \<Rightarrow> message_header \<Rightarrow> client_response
     \<Rightarrow> ('fe, 'me) simulator_error + bytes" where
  "encode_response P frame message response =
     and_then (ok_or SE_ResponseTooLarge (body_length (rs_body response))) (\<lambda>body_len.
     and_then (ok_or SE_ResponseTooLarge (payload_length P body_len)) (\<lambda>payload_len.
     let response_message = pr_message_response P (mh_operation message) (mh_correlation_id message)
           (rs_status response) body_len in
     and_then (map_err SE_Message (pr_message_validate P response_message (fh_kind frame) payload_len)) (\<lambda>_.
     let response_frame = pr_frame_new P (fh_kind frame) payload_len (fh_sequence frame) (fh_cycle frame)
           (fh_config_digest frame) in
     Inr (pr_frame_encode P response_frame @ pr_message_encode P response_message @ rs_body response))))"

definition decode_request ::
  "('k, 'fe, 'me) protocol_api \<Rightarrow> bytes \<Rightarrow> ('fe, 'me) simulator_error + 'k frame_header \<times> message_header \<times> bytes" where
  "decode_request P encoded_request =
     (if length encoded_request < pr_frame_len P + pr_message_len P then Inl SE_TruncatedRequest
      else and_then (map_err SE_Frame
          (pr_frame_decode P (take (pr_frame_len P) encoded_request) maximum_payload_bytes)) (\<lambda>frame.
      if length encoded_request \<noteq> pr_frame_len P + unat (fh_payload_len frame) then Inl SE_RequestLength
      else and_then (map_err SE_Message (pr_message_decode P (take (pr_message_len P) (drop (pr_frame_len P) encoded_request))
          (fh_kind frame) (fh_payload_len frame))) (\<lambda>message.
      if mh_direction message \<noteq> DirectionRequest then Inl SE_NotARequest
      else Inr (frame, message, drop (pr_frame_len P + pr_message_len P) encoded_request))))"

definition exchange_simulator ::
  "('k, 'fe, 'me) protocol_api \<Rightarrow> 'h handler \<Rightarrow> ('h simulator_transport, ('fe, 'me) simulator_error) transport" where
  "exchange_simulator P respond encoded_request s =
     (case decode_request P encoded_request of
        Inl e \<Rightarrow> (Inl e, s)
      | Inr (frame, message, body) \<Rightarrow> (case respond (mh_operation message) body (sm_handler s) of (response, h) \<Rightarrow>
          (case encode_response P frame message response of
             Inl e \<Rightarrow> (Inl e, s\<lparr>sm_handler := h\<rparr>)
           | Inr encoded \<Rightarrow> (Inr encoded, \<lparr>sm_handler = h, sm_request_count = saturating_succ (sm_request_count s)\<rparr>))))"

section \<open>Frames between the two ends\<close>

text \<open>The two lengths of a message with this body.\<close>

definition message_lengths :: "('k, 'fe, 'me) protocol_api \<Rightarrow> bytes \<Rightarrow> (u32 \<times> u32) option" where
  "message_lengths P body = (case body_length body of
       None \<Rightarrow> None
     | Some n \<Rightarrow> map_option (Pair n) (payload_length P n))"

lemma header_lawsD:
  assumes "header_laws P"
  shows "pr_frame_len P + 65536 \<le> usize_max"
    and "pr_frame_new P kind n sequence cycle cfg =
      \<lparr>fh_kind = kind, fh_payload_len = n, fh_sequence = sequence, fh_cycle = cycle, fh_config_digest = cfg\<rparr>"
    and "length (pr_frame_encode P h) = pr_frame_len P" and "length (pr_message_encode P m) = pr_message_len P"
    and "fh_payload_len h \<le> limit \<Longrightarrow> pr_frame_decode P (pr_frame_encode P h) limit = Inr h"
    and "pr_message_decode P (pr_message_encode P m) kind n = and_then (pr_message_validate P m kind n) (\<lambda>_. Inr m)"
    and "mh_direction (pr_message_request P op c n) = DirectionRequest"
    and "mh_operation (pr_message_request P op c n) = op" and "mh_correlation_id (pr_message_request P op c n) = c"
    and "mh_direction (pr_message_response P op c st n) = DirectionResponse"
    and "mh_operation (pr_message_response P op c st n) = op" and "mh_correlation_id (pr_message_response P op c st n) = c"
    and "mh_status (pr_message_response P op c st n) = st"
    and "pr_message_len P \<le> 65536"
  using assms by (simp_all add: header_laws_def usize_max_def)

lemma message_lengths_Some:
  assumes laws: "header_laws P" and "message_lengths P body = Some (n, payload)"
  shows "unat payload = pr_message_len P + length body" and "payload \<le> maximum_payload_bytes"
    and "body_length body = Some n" and "payload_length P n = Some payload"
proof -
  show parts: "body_length body = Some n" "payload_length P n = Some payload"
    using assms(2) by (auto simp: message_lengths_def split: option.split_asm)
  then have body: "length body \<le> u32_max" "n = word_of_nat (length body)"
    by (auto simp: body_length_def split: if_split_asm)
  then have n: "unat n = length body" by (simp add: unat_of_nat u32_max_def)
  have m: "unat (word_of_nat (pr_message_len P) :: u32) = pr_message_len P"
    using header_lawsD(14)[OF laws] by (simp add: unat_of_nat)
  show "payload \<le> maximum_payload_bytes"
    using parts(2) by (auto simp: payload_length_def split: option.split_asm if_split_asm)
  have "payload = word_of_nat (pr_message_len P) + n" "pr_message_len P + length body \<le> u32_max"
    using parts(2) n m by (auto simp: payload_length_def checked_add_u32_def split: option.split_asm if_split_asm)
  then show "unat payload = pr_message_len P + length body"
    using n m by (simp add: unat_word_ariths u32_max_def)
qed

lemma split_frame:
  assumes "length f = k" and "length m = l"
  shows "take k (f @ m @ b) = f" and "take l (drop k (f @ m @ b)) = m" and "drop (k + l) (f @ m @ b) = b"
  using assms by simp_all

text \<open>What the client makes of a frame whose header, message and body it is given.\<close>

lemma decode_framed_response:
  assumes laws: "header_laws P" and pay: "unat (fh_payload_len frame) = pr_message_len P + length body"
    and fits: "fh_payload_len frame \<le> maximum_payload_bytes"
  shows "decode_response P (pr_frame_encode P frame @ pr_message_encode P message @ body) operation sequence correlation cfg =
    (if fh_sequence frame \<noteq> sequence then Inl RD_Sequence
     else if fh_config_digest frame \<noteq> cfg then Inl RD_ConfigurationIdentity
     else and_then (map_err RD_Message (pr_message_validate P message (fh_kind frame) (fh_payload_len frame))) (\<lambda>_.
     if mh_direction message \<noteq> DirectionResponse \<or> mh_operation message \<noteq> operation \<or> mh_correlation_id message \<noteq> correlation
     then Inl RD_Correlation else Inr \<lparr>rs_status = mh_status message, rs_body = body\<rparr>))"
proof -
  note sp = split_frame[OF header_lawsD(3,4)[OF laws], of frame message body]
  have len: "length (pr_frame_encode P frame @ pr_message_encode P message @ body) = pr_frame_len P + unat (fh_payload_len frame)"
    using pay by (simp add: header_lawsD(3,4)[OF laws])
  have "unat (fh_payload_len frame) \<le> 65536" using fits by (simp add: word_le_nat_alt maximum_payload_bytes_def)
  then have room: "checked_add_usize (pr_frame_len P) (unat (fh_payload_len frame)) = Some (pr_frame_len P + unat (fh_payload_len frame))"
    using header_lawsD(1)[OF laws] by (simp add: checked_add_usize_def)
  have enough: "\<not> pr_frame_len P + unat (fh_payload_len frame) < pr_frame_len P + pr_message_len P" using pay by simp
  show ?thesis
    unfolding decode_response_def sp len header_lawsD(5)[OF laws fits] header_lawsD(6)[OF laws]
    using enough room by (cases "pr_message_validate P message (fh_kind frame) (fh_payload_len frame)") simp_all
qed

text \<open>What the simulator reads of a request the client wrote.\<close>

lemma decode_encoded_request:
  assumes laws: "header_laws P" and enc: "encode_request P operation body sequence correlation cfg = Inr encoded"
  obtains n payload where "message_lengths P body = Some (n, payload)"
    and "decode_request P encoded = Inr
      (\<lparr>fh_kind = pr_frame_kind P operation, fh_payload_len = payload, fh_sequence = sequence, fh_cycle = 0, fh_config_digest = cfg\<rparr>,
       pr_message_request P operation correlation n, body)"
proof -
  from enc obtain n payload where ln: "body_length body = Some n" "payload_length P n = Some payload"
    and v: "pr_message_validate P (pr_message_request P operation correlation n) (pr_frame_kind P operation) payload = Inr ()"
    and e: "encoded = pr_frame_encode P (pr_frame_new P (pr_frame_kind P operation) payload sequence 0 cfg)
      @ pr_message_encode P (pr_message_request P operation correlation n) @ body"
    by (auto simp: encode_request_def Let_def)
  have ml: "message_lengths P body = Some (n, payload)" using ln by (simp add: message_lengths_def)
  note size = message_lengths_Some[OF laws ml]
  let ?f = "pr_frame_new P (pr_frame_kind P operation) payload sequence 0 cfg"
  let ?m = "pr_message_request P operation correlation n"
  note sp = split_frame[OF header_lawsD(3,4)[OF laws], of ?f ?m body]
  have fits: "fh_payload_len ?f \<le> maximum_payload_bytes" using size(2) by (simp add: header_lawsD(2)[OF laws])
  have len: "length encoded = pr_frame_len P + unat payload"
    unfolding e using size(1) by (simp add: header_lawsD(3,4)[OF laws])
  have dec: "pr_frame_decode P (take (pr_frame_len P) encoded) maximum_payload_bytes = Inr ?f"
    "pr_message_decode P (take (pr_message_len P) (drop (pr_frame_len P) encoded)) (pr_frame_kind P operation) payload = Inr ?m"
    "drop (pr_frame_len P + pr_message_len P) encoded = body"
    unfolding e sp header_lawsD(5)[OF laws fits] header_lawsD(6)[OF laws] v by simp_all
  have "decode_request P encoded = Inr (?f, ?m, body)"
    unfolding decode_request_def len dec(1) map_err.simps and_then.simps
    using size(1) dec(2,3) by (simp add: header_lawsD(2,7)[OF laws])
  with ml that show ?thesis by (simp add: header_lawsD(2)[OF laws])
qed

lemma decode_encoded_response:
  assumes laws: "header_laws P" and enc: "encode_response P frame message response = Inr encoded"
  shows "decode_response P encoded operation sequence correlation cfg =
    (if fh_sequence frame \<noteq> sequence then Inl RD_Sequence
     else if fh_config_digest frame \<noteq> cfg then Inl RD_ConfigurationIdentity
     else if mh_operation message \<noteq> operation \<or> mh_correlation_id message \<noteq> correlation then Inl RD_Correlation
     else Inr response)"
proof -
  from enc obtain n payload where ln: "body_length (rs_body response) = Some n" "payload_length P n = Some payload"
    and v: "pr_message_validate P (pr_message_response P (mh_operation message) (mh_correlation_id message) (rs_status response) n)
      (fh_kind frame) payload = Inr ()"
    and e: "encoded = pr_frame_encode P (pr_frame_new P (fh_kind frame) payload (fh_sequence frame) (fh_cycle frame) (fh_config_digest frame))
      @ pr_message_encode P (pr_message_response P (mh_operation message) (mh_correlation_id message) (rs_status response) n)
      @ rs_body response"
    by (auto simp: encode_response_def Let_def)
  have "message_lengths P (rs_body response) = Some (n, payload)" using ln by (simp add: message_lengths_def)
  note size = message_lengths_Some[OF laws this]
  show ?thesis
    unfolding e using v size(1,2)
    by (subst decode_framed_response[OF laws]) (simp_all add: header_lawsD(2,10-13)[OF laws])
qed

section \<open>The service behind a transport\<close>

text \<open>
  A service answers an operation, a correlation and a body, without bytes on the wire.
  \<open>served_request\<close> is the client on such a service. The locale states what a transport owes the
  client: it delivers every request the client writes to its service, and its answer decodes to the
  service's.
\<close>

type_synonym ('t, 'e) service = "operation \<Rightarrow> u32 \<Rightarrow> bytes \<Rightarrow> 't \<Rightarrow> ('e + client_response) \<times> 't"

definition request_admitted ::
  "('k, 'fe, 'me) protocol_api \<Rightarrow> operation \<Rightarrow> u32 \<Rightarrow> bytes \<Rightarrow> 'me request_encode_error + unit" where
  "request_admitted P operation correlation body = (case message_lengths P body of
       None \<Rightarrow> Inl RE_RequestTooLarge
     | Some (n, payload) \<Rightarrow> map_err RE_Message
         (pr_message_validate P (pr_message_request P operation correlation n) (pr_frame_kind P operation) payload))"

definition served_request ::
  "('k, 'fe, 'me) protocol_api \<Rightarrow> ('t, 'e) service \<Rightarrow> operation \<Rightarrow> bytes \<Rightarrow> 't protocol_client
     \<Rightarrow> (('e, 'fe, 'me) client_error + client_response) \<times> 't protocol_client" where
  "served_request P serve operation body c =
     (case request_admitted P operation (pc_next_correlation c) body of
        Inl e \<Rightarrow> (Inl (CE_Request e), c)
      | Inr _ \<Rightarrow> (case serve operation (pc_next_correlation c) body (pc_transport c) of
            (Inl e, t) \<Rightarrow> (Inl (CE_Transport e), c\<lparr>pc_transport := t\<rparr>)
          | (Inr response, t) \<Rightarrow> (Inr response, advance_counters (c\<lparr>pc_transport := t\<rparr>))))"

lemma encode_request_cases:
  "(\<exists>encoded. encode_request P operation body sequence correlation cfg = Inr encoded
      \<and> request_admitted P operation correlation body = Inr ())
   \<or> (\<exists>e. encode_request P operation body sequence correlation cfg = Inl e
      \<and> request_admitted P operation correlation body = Inl e)"
  by (cases "body_length body"; cases "payload_length P (the (body_length body))";
      cases "pr_message_validate P (pr_message_request P operation correlation (the (body_length body)))
        (pr_frame_kind P operation) (the (payload_length P (the (body_length body))))")
    (auto simp: encode_request_def request_admitted_def message_lengths_def Let_def simp del: and_then_Inr and_then_Inl)

locale faithful_transport =
  fixes P :: "('k, 'fe, 'me) protocol_api" and exchange :: "('t, 'e) transport" and serve :: "('t, 'e) service"
  assumes delivers: "header_laws P \<Longrightarrow>
    encode_request P operation body sequence correlation cfg = Inr encoded \<Longrightarrow>
    serve operation correlation body t = (answer, t') \<Longrightarrow>
    \<exists>raw. exchange encoded t = (raw, t') \<and> (case answer of
        Inl e \<Rightarrow> raw = Inl e
      | Inr response \<Rightarrow> (\<exists>bytes. raw = Inr bytes
          \<and> decode_response P bytes operation sequence correlation cfg = Inr response))"
begin

lemma request_serves:
  assumes laws: "header_laws P"
  shows "request P exchange operation body c = served_request P serve operation body c"
proof -
  consider (bad) e where "encode_request P operation body (pc_next_sequence c) (pc_next_correlation c) (pc_config_digest c) = Inl e"
      "request_admitted P operation (pc_next_correlation c) body = Inl e"
    | (good) encoded where "encode_request P operation body (pc_next_sequence c) (pc_next_correlation c) (pc_config_digest c) = Inr encoded"
      "request_admitted P operation (pc_next_correlation c) body = Inr ()"
    using encode_request_cases by blast
  then show ?thesis
  proof cases
    case bad
    then show ?thesis by (simp add: request_def served_request_def)
  next
    case good
    obtain answer t' where s: "serve operation (pc_next_correlation c) body (pc_transport c) = (answer, t')"
      by (cases "serve operation (pc_next_correlation c) body (pc_transport c)")
    from delivers[OF laws good(1) s] good s show ?thesis
      by (cases answer) (auto simp: request_def served_request_def)
  qed
qed

end

text \<open>The simulator's service is its handler, under the size limit of a frame.\<close>

definition simulate ::
  "('k, 'fe, 'me) protocol_api \<Rightarrow> 'h handler \<Rightarrow> ('h simulator_transport, ('fe, 'me) simulator_error) service" where
  "simulate P respond operation correlation body s = (case respond operation body (sm_handler s) of (response, h) \<Rightarrow>
     (case message_lengths P (rs_body response) of
        None \<Rightarrow> (Inl SE_ResponseTooLarge, s\<lparr>sm_handler := h\<rparr>)
      | Some (n, payload) \<Rightarrow>
          (case pr_message_validate P (pr_message_response P operation correlation (rs_status response) n)
              (pr_frame_kind P operation) payload of
             Inl e \<Rightarrow> (Inl (SE_Message e), s\<lparr>sm_handler := h\<rparr>)
           | Inr _ \<Rightarrow> (Inr response, \<lparr>sm_handler = h, sm_request_count = saturating_succ (sm_request_count s)\<rparr>))))"

lemma encode_response_lengths:
  "encode_response P frame message response = (case message_lengths P (rs_body response) of
       None \<Rightarrow> Inl SE_ResponseTooLarge
     | Some (n, payload) \<Rightarrow>
         and_then (map_err SE_Message (pr_message_validate P (pr_message_response P (mh_operation message)
           (mh_correlation_id message) (rs_status response) n) (fh_kind frame) payload)) (\<lambda>_.
         Inr (pr_frame_encode P (pr_frame_new P (fh_kind frame) payload (fh_sequence frame) (fh_cycle frame) (fh_config_digest frame))
           @ pr_message_encode P (pr_message_response P (mh_operation message) (mh_correlation_id message) (rs_status response) n)
           @ rs_body response)))"
  by (cases "body_length (rs_body response)"; cases "payload_length P (the (body_length (rs_body response)))")
    (simp_all add: encode_response_def message_lengths_def Let_def del: and_then_Inr and_then_Inl)

interpretation sim: faithful_transport P "exchange_simulator P respond" "simulate P respond"
  for P :: "('k, 'fe, 'me) protocol_api" and respond :: "'h handler"
proof
  fix operation body sequence correlation cfg encoded and s s' :: "'h simulator_transport" and answer
  assume laws: "header_laws P"
    and enc: "encode_request P operation body sequence correlation cfg = Inr encoded"
    and srv: "simulate P respond operation correlation body s = (answer, s')"
  obtain n payload where req: "decode_request P encoded = Inr
      (\<lparr>fh_kind = pr_frame_kind P operation, fh_payload_len = payload, fh_sequence = sequence, fh_cycle = 0, fh_config_digest = cfg\<rparr>,
       pr_message_request P operation correlation n, body)"
    using decode_encoded_request[OF laws enc] by blast
  obtain response h where h: "respond operation body (sm_handler s) = (response, h)"
    by (cases "respond operation body (sm_handler s)")
  note answered = decode_encoded_response[OF laws, of "\<lparr>fh_kind = pr_frame_kind P operation, fh_payload_len = payload,
      fh_sequence = sequence, fh_cycle = 0, fh_config_digest = cfg\<rparr>" "pr_message_request P operation correlation n" response]
  show "\<exists>raw. exchange_simulator P respond encoded s = (raw, s') \<and> (case answer of
        Inl e \<Rightarrow> raw = Inl e
      | Inr response \<Rightarrow> (\<exists>bytes. raw = Inr bytes
          \<and> decode_response P bytes operation sequence correlation cfg = Inr response))"
    using srv answered unfolding exchange_simulator_def req encode_response_lengths simulate_def
    by (auto simp: header_lawsD(8,9)[OF laws] h split: option.split_asm prod.split_asm sum.split_asm
        simp del: and_then_Inr and_then_Inl)
qed

section \<open>The counters of a client\<close>

text \<open>A client's life: requests in order, each with its result, over one transport.\<close>

fun requests ::
  "('k, 'fe, 'me) protocol_api \<Rightarrow> ('t, 'e) transport \<Rightarrow> (operation \<times> bytes) list \<Rightarrow> 't protocol_client
     \<Rightarrow> (('e, 'fe, 'me) client_error + client_response) list \<times> 't protocol_client" where
  "requests P exchange [] c = ([], c)"
| "requests P exchange ((operation, body) # rest) c =
     (case request P exchange operation body c of (result, c) \<Rightarrow>
      case requests P exchange rest c of (results, c) \<Rightarrow> (result # results, c))"

definition accepted_count :: "('e + 'a) list \<Rightarrow> nat" where
  "accepted_count results = length (filter is_ok results)"

text \<open>The counters after \<open>n\<close> accepted responses: the correlation skips zero.\<close>

definition counters_at :: "nat \<Rightarrow> 't protocol_client \<Rightarrow> bool" where
  "counters_at n c \<longleftrightarrow> pc_next_sequence c = word_of_nat n \<and> unat (pc_next_correlation c) = n mod u32_max + 1"

lemma unat_max_word: "unat (max a b :: 'a::len word) = max (unat a) (unat b)"
  by (simp add: max_def word_le_nat_alt)

lemma advance_counters_at:
  assumes "counters_at n c"
  shows "counters_at (Suc n) (advance_counters c)"
proof -
  have c: "unat (pc_next_correlation c) = n mod u32_max + 1" using assms by (simp add: counters_at_def)
  have pos: "0 < u32_max" by (simp add: u32_max_def)
  show ?thesis
  proof (cases "Suc (n mod u32_max) = u32_max")
    case True
    then have "pc_next_correlation c + 1 = 0" using c by (simp add: word_unat_eq_iff unat_word_ariths u32_max_def)
    moreover have "Suc n mod u32_max = 0" using True by (simp add: mod_Suc)
    ultimately show ?thesis using assms by (simp add: counters_at_def advance_counters_def)
  next
    case False
    then have small: "Suc (n mod u32_max) < u32_max" using pos by (simp add: Suc_lessI)
    then have "unat (pc_next_correlation c + 1) = Suc (n mod u32_max) + 1"
      using c by (simp add: unat_word_ariths u32_max_def)
    moreover have "Suc n mod u32_max = Suc (n mod u32_max)" using False by (simp add: mod_Suc)
    ultimately show ?thesis using assms by (simp add: counters_at_def advance_counters_def unat_max_word)
  qed
qed

lemma request_counters:
  assumes "request P exchange operation body c = (result, c')"
  shows "pc_config_digest c' = pc_config_digest c"
    and "is_ok result \<Longrightarrow> counters_at n c \<Longrightarrow> counters_at (Suc n) c'"
    and "\<not> is_ok result \<Longrightarrow> counters_at n c' = counters_at n c"
proof -
  have keep: "counters_at n (c\<lparr>pc_transport := t\<rparr>) = counters_at n c" for n t by (simp add: counters_at_def)
  show "pc_config_digest c' = pc_config_digest c"
    using assms by (auto simp: request_def Let_def advance_counters_def split: sum.split_asm prod.split_asm)
  show "counters_at (Suc n) c'" if "is_ok result" "counters_at n c"
    using assms that keep by (auto simp: request_def Let_def intro: advance_counters_at split: sum.split_asm prod.split_asm)
  show "counters_at n c' = counters_at n c" if "\<not> is_ok result"
    using assms that keep by (auto simp: request_def Let_def split: sum.split_asm prod.split_asm)
qed

lemma requests_counters:
  "requests P exchange ops c = (results, c') \<Longrightarrow> counters_at n c \<Longrightarrow>
     counters_at (n + accepted_count results) c' \<and> pc_config_digest c' = pc_config_digest c"
proof (induction ops arbitrary: c results n)
  case (Cons op ops)
  obtain operation body where op: "op = (operation, body)" by (cases op)
  obtain result c1 where r: "request P exchange operation body c = (result, c1)"
    by (cases "request P exchange operation body c")
  obtain rest where rest: "requests P exchange ops c1 = (rest, c')" "results = result # rest"
    using Cons.prems(1) r by (auto simp: op split: prod.split_asm)
  note step = request_counters[OF r]
  show ?case
  proof (cases "is_ok result")
    case True
    then have "counters_at (Suc n) c1" using step(2) Cons.prems(2) by blast
    from Cons.IH[OF rest(1) this] True show ?thesis by (simp add: rest(2) accepted_count_def step(1))
  next
    case False
    then have "counters_at n c1" using step(3) Cons.prems(2) by blast
    from Cons.IH[OF rest(1) this] False show ?thesis by (simp add: rest(2) accepted_count_def step(1))
  qed
qed (simp add: accepted_count_def)

section \<open>A small protocol\<close>

text \<open>Fixed-width little-endian headers that satisfy the laws.\<close>

definition operation_code :: "operation \<Rightarrow> nat" where
  "operation_code op = (case op of StorageInspect \<Rightarrow> 0 | StorageBeginUpload \<Rightarrow> 1 | StoragePutChunk \<Rightarrow> 2
     | StorageFinalize \<Rightarrow> 3 | OtherOperation w \<Rightarrow> 4 + unat w)"

definition operation_of :: "nat \<Rightarrow> operation" where
  "operation_of n = (if n = 0 then StorageInspect else if n = 1 then StorageBeginUpload
     else if n = 2 then StoragePutChunk else if n = 3 then StorageFinalize else OtherOperation (word_of_nat (n - 4)))"

definition status_number :: "status_code \<Rightarrow> nat" where
  "status_number st = (case st of StatusOk \<Rightarrow> 0 | StatusNotFound \<Rightarrow> 1 | StatusOther w \<Rightarrow> 2 + unat w)"

definition status_of :: "nat \<Rightarrow> status_code" where
  "status_of n = (if n = 0 then StatusOk else if n = 1 then StatusNotFound else StatusOther (word_of_nat (n - 2)))"

definition direction_number :: "message_direction \<Rightarrow> nat" where
  "direction_number d = (case d of DirectionRequest \<Rightarrow> 0 | DirectionResponse \<Rightarrow> 1 | DirectionOther \<Rightarrow> 2)"

definition direction_of :: "nat \<Rightarrow> message_direction" where
  "direction_of n = (if n = 0 then DirectionRequest else if n = 1 then DirectionResponse else DirectionOther)"

definition le_field :: "nat \<Rightarrow> nat \<Rightarrow> bytes \<Rightarrow> nat" where
  "le_field start width bs = nat_from_le (take width (drop start bs))"

definition demo_protocol :: "(unit, unit, unit) protocol_api" where
  "demo_protocol = \<lparr>
     pr_frame_len = 48, pr_message_len = 16, pr_frame_kind = (\<lambda>_. ()),
     pr_frame_new = (\<lambda>kind n sequence cycle cfg. \<lparr>fh_kind = kind, fh_payload_len = n, fh_sequence = sequence,
       fh_cycle = cycle, fh_config_digest = cfg\<rparr>),
     pr_frame_encode = (\<lambda>h. nat_to_le 4 (unat (fh_payload_len h)) @ nat_to_le 4 (unat (fh_sequence h))
       @ nat_to_le 8 (unat (fh_cycle h)) @ nat_to_le 32 (unat (fh_config_digest h))),
     pr_frame_decode = (\<lambda>bs limit. let n = word_of_nat (le_field 0 4 bs) in
       if limit < n then Inl () else Inr \<lparr>fh_kind = (), fh_payload_len = n, fh_sequence = word_of_nat (le_field 4 4 bs),
         fh_cycle = word_of_nat (le_field 8 8 bs), fh_config_digest = word_of_nat (le_field 16 32 bs)\<rparr>),
     pr_message_request = (\<lambda>op c n. \<lparr>mh_direction = DirectionRequest, mh_operation = op, mh_correlation_id = c,
       mh_status = StatusOk, mh_body_len = n\<rparr>),
     pr_message_response = (\<lambda>op c st n. \<lparr>mh_direction = DirectionResponse, mh_operation = op, mh_correlation_id = c,
       mh_status = st, mh_body_len = n\<rparr>),
     pr_message_validate = (\<lambda>_ _ _. Inr ()),
     pr_message_encode = (\<lambda>m. nat_to_le 2 (direction_number (mh_direction m)) @ nat_to_le 3 (operation_code (mh_operation m))
       @ nat_to_le 4 (unat (mh_correlation_id m)) @ nat_to_le 3 (status_number (mh_status m))
       @ nat_to_le 4 (unat (mh_body_len m))),
     pr_message_decode = (\<lambda>bs _ _. Inr \<lparr>mh_direction = direction_of (le_field 0 2 bs),
       mh_operation = operation_of (le_field 2 3 bs), mh_correlation_id = word_of_nat (le_field 5 4 bs),
       mh_status = status_of (le_field 9 3 bs), mh_body_len = word_of_nat (le_field 12 4 bs)\<rparr>) \<rparr>"

lemma demo_codes:
  "operation_code op < 256 ^ 3" "operation_of (operation_code op) = op"
  "status_number st < 256 ^ 3" "status_of (status_number st) = st"
  "direction_number d < 256 ^ 2" "direction_of (direction_number d) = d"
proof -
  have small: "unat (w :: u16) < 16777212" "unat w < 16777214" for w using unsigned_less[of w, where ?'a = nat] by simp_all
  show "operation_code op < 256 ^ 3" "status_number st < 256 ^ 3"
    using small by (auto simp: operation_code_def status_number_def split: operation.split status_code.split)
  show "operation_of (operation_code op) = op" "status_of (status_number st) = st"
    "direction_number d < 256 ^ 2" "direction_of (direction_number d) = d"
    by (auto simp: operation_code_def operation_of_def status_number_def status_of_def direction_number_def direction_of_def
        split: operation.split status_code.split message_direction.split)
qed

lemma le_field_here: "x < 256 ^ n \<Longrightarrow> le_field 0 n (nat_to_le n x @ bs) = x"
  by (simp add: le_field_def nat_from_to_le)

lemma le_field_skip: "length pre \<le> start \<Longrightarrow> le_field start n (pre @ bs) = le_field (start - length pre) n bs"
  by (simp add: le_field_def)

lemma unat_bytes: "unat (a :: u32) < 256 ^ 4" "unat (b :: u64) < 256 ^ 8" "unat (d :: 256 word) < 256 ^ 32"
  using unsigned_less[of a, where ?'a = nat] unsigned_less[of b, where ?'a = nat] unsigned_less[of d, where ?'a = nat]
  by simp_all

lemma demo_header_laws: "header_laws demo_protocol"
proof -
  note field = le_field_here le_field_here[of _ _ "[]", simplified] le_field_skip
  have frame: "pr_frame_decode demo_protocol (pr_frame_encode demo_protocol h) limit = Inr h"
    if "fh_payload_len h \<le> limit" for h limit
    using that by (simp add: demo_protocol_def field unat_bytes[simplified] Let_def not_less)
  have message: "pr_message_decode demo_protocol (pr_message_encode demo_protocol m) kind n = Inr m" for m kind n
    by (simp add: demo_protocol_def field unat_bytes[simplified] demo_codes demo_codes[simplified])
  have rest: "pr_message_validate demo_protocol m kind n = Inr ()" for m kind n by (simp add: demo_protocol_def)
  show ?thesis
    unfolding header_laws_def using frame message rest by (simp add: demo_protocol_def)
qed

section \<open>Properties\<close>

text \<open>
  C15. Framing is transparent: for every handler, operation, body and client, a
  request through the bytes of the simulator transport has exactly the outcome of calling the handler
  directly, with the same result or error, the same new handler state and count, and the same
  counters. The only failures are a request or a response that exceeds the payload limit or that the
  header validation refuses; no framing error ever arises.
\<close>

theorem request_over_simulator:
  assumes "header_laws P"
  shows "request P (exchange_simulator P respond) operation body c = served_request P (simulate P respond) operation body c"
  by (rule sim.request_serves[OF assms])

theorem request_over_simulator_witness:
  "request demo_protocol (exchange_simulator demo_protocol (\<lambda>_ body n. (\<lparr>rs_status = StatusNotFound, rs_body = body\<rparr>, Suc n)))
     StorageInspect [1, 2] (new_client (new_simulator 0) 7) =
   (Inr \<lparr>rs_status = StatusNotFound, rs_body = [1, 2]\<rparr>,
    \<lparr>pc_transport = \<lparr>sm_handler = 1, sm_request_count = 1\<rparr>, pc_next_sequence = 1, pc_next_correlation = 2, pc_config_digest = 7\<rparr>)"
  unfolding request_over_simulator[OF demo_header_laws]
  by (simp add: served_request_def request_admitted_def message_lengths_def body_length_def payload_length_def
      checked_add_u32_def maximum_payload_bytes_def u32_max_def demo_protocol_def new_client_def new_simulator_def
      simulate_def saturating_succ_def advance_counters_def)

text \<open>
  C30. A frame the peer writes in answer to one request is accepted
  for exactly that request: under the same sequence, configuration, operation and correlation it
  decodes to the status and body that were sent, and under any other it is rejected with the error
  that names the first disagreement.
\<close>

theorem response_answers_only_its_request:
  assumes "header_laws P" and "encode_response P frame message response = Inr encoded"
  shows "decode_response P encoded operation sequence correlation cfg =
    (if fh_sequence frame \<noteq> sequence then Inl RD_Sequence
     else if fh_config_digest frame \<noteq> cfg then Inl RD_ConfigurationIdentity
     else if mh_operation message \<noteq> operation \<or> mh_correlation_id message \<noteq> correlation then Inl RD_Correlation
     else Inr response)"
  by (rule decode_encoded_response[OF assms])

definition demo_frame :: "unit frame_header" where
  "demo_frame = \<lparr>fh_kind = (), fh_payload_len = 16, fh_sequence = 4, fh_cycle = 0, fh_config_digest = 7\<rparr>"

theorem response_answers_only_its_request_witness:
  "\<exists>encoded. decode_response demo_protocol encoded StorageInspect 4 9 7 = Inr \<lparr>rs_status = StatusOk, rs_body = [5]\<rparr>
     \<and> decode_response demo_protocol encoded StorageInspect 4 8 7 = Inl RD_Correlation"
proof -
  obtain encoded where "encode_response demo_protocol demo_frame (pr_message_request demo_protocol StorageInspect 9 0)
      \<lparr>rs_status = StatusOk, rs_body = [5]\<rparr> = Inr encoded"
    by (simp add: encode_response_def body_length_def payload_length_def checked_add_u32_def maximum_payload_bytes_def
        u32_max_def demo_protocol_def Let_def del: and_then_Inr and_then_Inl)
  note decoded = response_answers_only_its_request[OF demo_header_laws this]
  have "mh_operation (pr_message_request demo_protocol StorageInspect 9 0) = StorageInspect"
    "mh_correlation_id (pr_message_request demo_protocol StorageInspect 9 0) = 9" by (simp_all add: demo_protocol_def)
  then show ?thesis by (intro exI[of _ encoded]) (simp add: decoded demo_frame_def)
qed

text \<open>
  Whatever the transport answers or breaks, after any sequence of requests the
  frame sequence is the number of accepted responses modulo \<open>2 ^ 32\<close>, the correlation runs
  through the numbers from 1 to \<open>2 ^ 32 - 1\<close> in a cycle and is never zero, and the configuration
  identity is the one the client was bound to.
\<close>

theorem client_counters:
  "case requests P exchange ops (new_client t cfg) of (results, c) \<Rightarrow>
     pc_next_sequence c = word_of_nat (accepted_count results)
     \<and> unat (pc_next_correlation c) = accepted_count results mod (2 ^ 32 - 1) + 1
     \<and> pc_config_digest c = cfg"
proof -
  obtain results c where run: "requests P exchange ops (new_client t cfg) = (results, c)"
    by (cases "requests P exchange ops (new_client t cfg)")
  have "counters_at 0 (new_client t cfg)" "pc_config_digest (new_client t cfg) = cfg"
    by (simp_all add: counters_at_def new_client_def)
  from requests_counters[OF run this(1)] this(2) show ?thesis by (simp add: run counters_at_def u32_max_def)
qed

end
