(* ===== verification/Cache_Upload.thy ===== *)
theory Cache_Upload
  imports Protocol_Client
begin

text \<open>
  The resumable cache upload of \<^verbatim>\<open>crates/alumina-interface-client/src/upload.rs\<close>: the
  owned upload source that recomputes every chunk identity, and the state machine
  \<^verbatim>\<open>CacheUploadMachine\<close> whose only recovery edge is a content inspection. The device
  protocol's storage records carry the fields this module reads; their validation, encoding and
  hashing are \<^verbatim>\<open>alumina_storage\<close>'s and are the fields of the parameter
  \<open>storage_api\<close>.
\<close>

section \<open>Storage records and operations outside the crate\<close>

text \<open>
  A \<^verbatim>\<open>ContentId\<close> is compared only, so any bytes will do; the identity of an upload is an
  opaque number. The last constructor of an enumeration stands for the variants the crates do not name.
\<close>

type_synonym content_id = bytes
type_synonym upload_id = nat

datatype object_kind = MachineJobPartition | MachineJobManifest | OtherObject nat

record stored_object =
  so_kind :: object_kind
  so_content :: content_id
  so_byte_len :: u64

record upload_plan =
  up_upload_id :: upload_id
  up_object :: stored_object
  up_manifest :: content_id
  up_chunk_bytes :: u32
  up_chunk_count :: u32

record chunk_upload_header =
  ch_upload_id :: upload_id
  ch_index :: u32
  ch_byte_len :: u32
  ch_content :: content_id

datatype upload_phase = PReceiving | PPublishPending | POther nat

record upload_progress =
  pg_upload_id :: upload_id
  pg_phase :: upload_phase
  pg_next_chunk :: u32
  pg_accepted_bytes :: u64
  pg_total_bytes :: u64

record published_object =
  po_object :: stored_object
  po_manifest :: content_id

record ('l, 'h, 'se, 'we) storage_api =
  st_validate_plan :: "upload_plan \<Rightarrow> 'l \<Rightarrow> 'se + unit"
  st_validate_publication :: "published_object \<Rightarrow> 'l \<Rightarrow> 'se + unit"
  st_sha256 :: "bytes \<Rightarrow> content_id"
  st_manifest_new :: "stored_object \<Rightarrow> u32 \<Rightarrow> u32 \<Rightarrow> 'l \<Rightarrow> 'se + 'h"
  st_manifest_push :: "'h \<Rightarrow> u32 \<Rightarrow> content_id \<Rightarrow> u32 \<Rightarrow> 'se + 'h"
  st_manifest_finalize :: "'h \<Rightarrow> 'se + content_id"
  st_encode_publication :: "published_object \<Rightarrow> bytes"
  st_encode_plan :: "upload_plan \<Rightarrow> bytes"
  st_encode_header :: "chunk_upload_header \<Rightarrow> bytes"
  st_encode_finalize :: "upload_id \<Rightarrow> bytes"
  st_decode_progress :: "bytes \<Rightarrow> 'we + upload_progress"
  st_decode_publication :: "bytes \<Rightarrow> 'l \<Rightarrow> 'we + published_object"

section \<open>Upload sources\<close>

text \<open>A source behind the trait \<^verbatim>\<open>UploadSource\<close>: its three methods.\<close>

record upload_source =
  us_upload_plan :: upload_plan
  us_chunk_header :: "u32 \<Rightarrow> chunk_upload_header option"
  us_chunk_bytes :: "u32 \<Rightarrow> bytes option"

record owned_upload_source =
  os_plan :: upload_plan
  os_bytes :: bytes
  os_chunks :: "content_id list"

datatype 'se owned_source_error =
    OE_Storage 'se
  | OE_Length
  | OE_ObjectDigest
  | OE_ManifestDigest
  | OE_AllocationOverflow

definition chunk_range :: "upload_plan \<Rightarrow> nat \<Rightarrow> u32 \<Rightarrow> (nat \<times> nat) option" where
  "chunk_range plan len index =
     (if up_chunk_count plan \<le> index then None
      else case checked_mul_u64 (ucast index) (ucast (up_chunk_bytes plan)) of
        None \<Rightarrow> None
      | Some offset \<Rightarrow>
          let start = unat offset in
          (case checked_add_usize start (unat (up_chunk_bytes plan)) of
             None \<Rightarrow> None
           | Some nominal_end \<Rightarrow>
               let stop = min nominal_end len in
               if start < stop then Some (start, stop) else None))"

definition byte_slice :: "nat \<times> nat \<Rightarrow> bytes \<Rightarrow> bytes" where
  "byte_slice rg bytes = take (snd rg - fst rg) (drop (fst rg) bytes)"

text \<open>The loop body of \<^verbatim>\<open>try_new_shared\<close>: the manifest hasher and the chunk names so far.\<close>

definition hash_chunk ::
  "('l, 'h, 'se, 'we) storage_api \<Rightarrow> upload_plan \<Rightarrow> bytes \<Rightarrow> 'h \<times> content_id list \<Rightarrow> u32
     \<Rightarrow> 'se owned_source_error + 'h \<times> content_id list" where
  "hash_chunk A plan bytes st index = (case st of (manifest, chunks) \<Rightarrow>
     and_then (ok_or OE_Length (chunk_range plan (length bytes) index)) (\<lambda>rg.
     let content = st_sha256 A (byte_slice rg bytes); size = snd rg - fst rg in
     if u32_max < size then Inl OE_Length
     else and_then (map_err OE_Storage (st_manifest_push A manifest index content (word_of_nat size))) (\<lambda>manifest.
     Inr (manifest, chunks @ [content]))))"

definition chunk_indices :: "upload_plan \<Rightarrow> u32 list" where
  "chunk_indices plan = map word_of_nat [0..<unat (up_chunk_count plan)]"

definition try_new_owned ::
  "('l, 'h, 'se, 'we) storage_api \<Rightarrow> upload_plan \<Rightarrow> bytes \<Rightarrow> 'l \<Rightarrow> 'se owned_source_error + owned_upload_source" where
  "try_new_owned A plan bytes limits =
     and_then (map_err OE_Storage (st_validate_plan A plan limits)) (\<lambda>_.
     if length bytes \<noteq> unat (so_byte_len (up_object plan)) then Inl OE_Length
     else if st_sha256 A bytes \<noteq> so_content (up_object plan) then Inl OE_ObjectDigest
     else and_then (map_err OE_Storage
         (st_manifest_new A (up_object plan) (up_chunk_bytes plan) (up_chunk_count plan) limits)) (\<lambda>manifest.
     and_then (try_fold (hash_chunk A plan bytes) (manifest, []) (chunk_indices plan)) (\<lambda>(manifest, chunks).
     and_then (map_err OE_Storage (st_manifest_finalize A manifest)) (\<lambda>digest.
     if digest \<noteq> up_manifest plan then Inl OE_ManifestDigest
     else Inr \<lparr>os_plan = plan, os_bytes = bytes, os_chunks = chunks\<rparr>))))"

definition owned_chunk_header :: "owned_upload_source \<Rightarrow> u32 \<Rightarrow> chunk_upload_header option" where
  "owned_chunk_header s index =
     (case chunk_range (os_plan s) (length (os_bytes s)) index of
        None \<Rightarrow> None
      | Some rg \<Rightarrow>
          if u32_max < snd rg - fst rg \<or> length (os_chunks s) \<le> unat index then None
          else Some \<lparr>ch_upload_id = up_upload_id (os_plan s), ch_index = index,
            ch_byte_len = word_of_nat (snd rg - fst rg), ch_content = os_chunks s ! unat index\<rparr>)"

definition owned_chunk_bytes :: "owned_upload_source \<Rightarrow> u32 \<Rightarrow> bytes option" where
  "owned_chunk_bytes s index =
     map_option (\<lambda>rg. byte_slice rg (os_bytes s)) (chunk_range (os_plan s) (length (os_bytes s)) index)"

definition owned_source :: "owned_upload_source \<Rightarrow> upload_source" where
  "owned_source s = \<lparr>us_upload_plan = os_plan s, us_chunk_header = owned_chunk_header s,
     us_chunk_bytes = owned_chunk_bytes s\<rparr>"

section \<open>The machine\<close>

record upload_operation =
  uo_operation :: operation
  uo_body :: bytes

datatype upload_action = ActInspect | ActBegin | ActChunk u32 | ActFinalize

datatype upload_state = Inspecting | Beginning | Sending u32 u64 | Finalizing | Completed

datatype cache_upload_phase =
    PhaseInspecting | PhaseResuming | PhaseUploading u32 u64 u64 | PhaseFinalizing | PhaseComplete

datatype ('se, 'we) upload_error =
    UE_SourceChanged
  | UE_RequestPending
  | UE_NoPendingRequest
  | UE_MissingChunk u32
  | UE_Chunk u32
  | UE_AllocationOverflow
  | UE_CounterOverflow
  | UE_DeviceStatus status_code
  | UE_ResponseBody
  | UE_ProgressMismatch
  | UE_PublicationMismatch
  | UE_Storage 'se
  | UE_Wire 'we

record 'l upload_machine =
  um_plan :: upload_plan
  um_limits :: 'l
  um_state :: upload_state
  um_pending :: "upload_action option"

definition publication_of :: "upload_plan \<Rightarrow> published_object" where
  "publication_of plan = \<lparr>po_object = up_object plan, po_manifest = up_manifest plan\<rparr>"

definition machine_phase :: "'l upload_machine \<Rightarrow> cache_upload_phase" where
  "machine_phase m = (case um_state m of
       Inspecting \<Rightarrow> PhaseInspecting
     | Beginning \<Rightarrow> PhaseResuming
     | Sending next accepted \<Rightarrow> PhaseUploading next accepted (so_byte_len (up_object (um_plan m)))
     | Finalizing \<Rightarrow> PhaseFinalizing
     | Completed \<Rightarrow> PhaseComplete)"

definition new_machine ::
  "('l, 'h, 'se, 'we) storage_api \<Rightarrow> upload_source \<Rightarrow> 'l \<Rightarrow> ('se, 'we) upload_error + 'l upload_machine" where
  "new_machine A source limits =
     (let plan = us_upload_plan source in
      and_then (map_err UE_Storage (st_validate_plan A plan limits)) (\<lambda>_.
      and_then (map_err UE_Storage (st_validate_publication A (publication_of plan) limits)) (\<lambda>_.
      Inr \<lparr>um_plan = plan, um_limits = limits, um_state = Inspecting, um_pending = None\<rparr>)))"

definition expected_prefix_bytes :: "upload_plan \<Rightarrow> u32 \<Rightarrow> ('se, 'we) upload_error + u64" where
  "expected_prefix_bytes plan next =
     (if up_chunk_count plan < next then Inl UE_ProgressMismatch
      else if next = up_chunk_count plan then Inr (so_byte_len (up_object plan))
      else ok_or UE_CounterOverflow (checked_mul_u64 (ucast (up_chunk_bytes plan)) (ucast next)))"

definition expected_chunk_bytes :: "upload_plan \<Rightarrow> u32 \<Rightarrow> ('se, 'we) upload_error + u32" where
  "expected_chunk_bytes plan index =
     (if up_chunk_count plan \<le> index then Inl (UE_MissingChunk index)
      else if index + 1 < up_chunk_count plan then Inr (up_chunk_bytes plan)
      else and_then (ok_or UE_CounterOverflow
          (checked_mul_u64 (ucast (up_chunk_bytes plan)) (ucast index))) (\<lambda>preceding.
      if so_byte_len (up_object plan) < preceding then Inl UE_CounterOverflow
      else let size = so_byte_len (up_object plan) - preceding in
        if u32_max < unat size then Inl UE_CounterOverflow else Inr (ucast size)))"

definition validate_chunk ::
  "('l, 'h, 'se, 'we) storage_api \<Rightarrow> 'l upload_machine \<Rightarrow> u32 \<Rightarrow> chunk_upload_header \<Rightarrow> bytes
     \<Rightarrow> ('se, 'we) upload_error + unit" where
  "validate_chunk A m index header bytes =
     and_then (expected_chunk_bytes (um_plan m) index) (\<lambda>expected_len.
     if u32_max < length bytes then Inl (UE_Chunk index)
     else if ch_upload_id header \<noteq> up_upload_id (um_plan m) \<or> ch_index header \<noteq> index
       \<or> ch_byte_len header \<noteq> expected_len \<or> (word_of_nat (length bytes) :: u32) \<noteq> expected_len
       \<or> ch_content header \<noteq> st_sha256 A bytes
     then Inl (UE_Chunk index) else Inr ())"

definition state_from_progress ::
  "'l upload_machine \<Rightarrow> upload_progress \<Rightarrow> ('se, 'we) upload_error + upload_state" where
  "state_from_progress m progress =
     (let plan = um_plan m in
      if pg_upload_id progress \<noteq> up_upload_id plan
         \<or> pg_total_bytes progress \<noteq> so_byte_len (up_object plan)
         \<or> up_chunk_count plan < pg_next_chunk progress
      then Inl UE_ProgressMismatch
      else and_then (expected_prefix_bytes plan (pg_next_chunk progress)) (\<lambda>expected.
      if pg_accepted_bytes progress \<noteq> expected then Inl UE_ProgressMismatch
      else if pg_next_chunk progress < up_chunk_count plan then
        (if pg_phase progress \<noteq> PReceiving then Inl UE_ProgressMismatch
         else Inr (Sending (pg_next_chunk progress) (pg_accepted_bytes progress)))
      else if pg_phase progress = PReceiving \<or> pg_phase progress = PPublishPending then Inr Finalizing
      else Inl UE_ProgressMismatch))"

definition require_ok :: "client_response \<Rightarrow> ('se, 'we) upload_error + unit" where
  "require_ok r =
     (if rs_status r \<noteq> StatusOk
      then (if rs_body r = [] then Inl (UE_DeviceStatus (rs_status r)) else Inl UE_ResponseBody)
      else Inr ())"

definition accept_inspection ::
  "('l, 'h, 'se, 'we) storage_api \<Rightarrow> 'l upload_machine \<Rightarrow> client_response \<Rightarrow> ('se, 'we) upload_error + upload_state" where
  "accept_inspection A m r = (case rs_status r of
       StatusOk \<Rightarrow>
         and_then (map_err UE_Wire (st_decode_publication A (rs_body r) (um_limits m))) (\<lambda>observed.
         if observed \<noteq> publication_of (um_plan m) then Inl UE_PublicationMismatch else Inr Completed)
     | StatusNotFound \<Rightarrow> if rs_body r = [] then Inr Beginning else Inl UE_ResponseBody
     | status \<Rightarrow> if rs_body r = [] then Inl (UE_DeviceStatus status) else Inl UE_ResponseBody)"

text \<open>The closure of \<^verbatim>\<open>accept_response\<close>: the next state, or the rejection.\<close>

definition accept_action ::
  "('l, 'h, 'se, 'we) storage_api \<Rightarrow> 'l upload_machine \<Rightarrow> upload_action \<Rightarrow> client_response
     \<Rightarrow> ('se, 'we) upload_error + upload_state" where
  "accept_action A m action r = (case action of
       ActInspect \<Rightarrow> accept_inspection A m r
     | ActBegin \<Rightarrow>
         and_then (require_ok r) (\<lambda>_.
         and_then (map_err UE_Wire (st_decode_progress A (rs_body r))) (\<lambda>progress.
         state_from_progress m progress))
     | ActChunk index \<Rightarrow>
         and_then (require_ok r) (\<lambda>_.
         and_then (map_err UE_Wire (st_decode_progress A (rs_body r))) (\<lambda>progress.
         if unat index = u32_max then Inl UE_CounterOverflow
         else if pg_next_chunk progress \<noteq> index + 1 then Inl UE_ProgressMismatch
         else state_from_progress m progress))
     | ActFinalize \<Rightarrow>
         and_then (require_ok r) (\<lambda>_.
         if rs_body r \<noteq> [] then Inl UE_ResponseBody else Inr Completed))"

text \<open>The method with its new state: a rejection sends the machine back to inspection.\<close>

definition accept_response ::
  "('l, 'h, 'se, 'we) storage_api \<Rightarrow> client_response \<Rightarrow> 'l upload_machine
     \<Rightarrow> (('se, 'we) upload_error + unit) \<times> 'l upload_machine" where
  "accept_response A r m = (case um_pending m of
       None \<Rightarrow> (Inl UE_NoPendingRequest, m)
     | Some action \<Rightarrow> (case accept_action A (m\<lparr>um_pending := None\<rparr>) action r of
           Inl e \<Rightarrow> (Inl e, m\<lparr>um_pending := None, um_state := Inspecting\<rparr>)
         | Inr next_state \<Rightarrow> (Inr (), m\<lparr>um_pending := None, um_state := next_state\<rparr>)))"

definition next_request ::
  "('l, 'h, 'se, 'we) storage_api \<Rightarrow> upload_source \<Rightarrow> 'l upload_machine
     \<Rightarrow> ('se, 'we) upload_error + upload_operation option \<times> 'l upload_machine" where
  "next_request A source m =
     (if um_pending m \<noteq> None then Inl UE_RequestPending
      else if us_upload_plan source \<noteq> um_plan m then Inl UE_SourceChanged
      else case um_state m of
        Inspecting \<Rightarrow> Inr (Some \<lparr>uo_operation = StorageInspect,
            uo_body = st_encode_publication A (publication_of (um_plan m))\<rparr>, m\<lparr>um_pending := Some ActInspect\<rparr>)
      | Beginning \<Rightarrow> Inr (Some \<lparr>uo_operation = StorageBeginUpload,
            uo_body = st_encode_plan A (um_plan m)\<rparr>, m\<lparr>um_pending := Some ActBegin\<rparr>)
      | Sending next_chunk accepted \<Rightarrow>
          and_then (ok_or (UE_MissingChunk next_chunk) (us_chunk_header source next_chunk)) (\<lambda>header.
          and_then (ok_or (UE_MissingChunk next_chunk) (us_chunk_bytes source next_chunk)) (\<lambda>bytes.
          and_then (validate_chunk A m next_chunk header bytes) (\<lambda>_.
          Inr (Some \<lparr>uo_operation = StoragePutChunk, uo_body = st_encode_header A header @ bytes\<rparr>,
            m\<lparr>um_pending := Some (ActChunk next_chunk)\<rparr>))))
      | Finalizing \<Rightarrow> Inr (Some \<lparr>uo_operation = StorageFinalize,
            uo_body = st_encode_finalize A (up_upload_id (um_plan m))\<rparr>, m\<lparr>um_pending := Some ActFinalize\<rparr>)
      | Completed \<Rightarrow> Inr (None, m))"

definition abandon_pending :: "'l upload_machine \<Rightarrow> bool \<times> 'l upload_machine" where
  "abandon_pending m =
     (if um_pending m \<noteq> None then (True, m\<lparr>um_pending := None, um_state := Inspecting\<rparr>)
      else (False, m\<lparr>um_pending := None\<rparr>))"

section \<open>The chunks of an owned source\<close>

lemma u32_product:
  fixes a b :: u32
  shows "checked_mul_u64 (ucast a) (ucast b) = Some (ucast a * ucast b)"
    and "unat (ucast a * ucast b :: u64) = unat a * unat b"
proof -
  have "unat a \<le> u32_max" "unat b \<le> u32_max" by (rule unat_u32_le)+
  then have "unat a * unat b \<le> u32_max * u32_max" by (rule mult_le_mono)
  then have "unat (ucast a :: u64) * unat (ucast b :: u64) \<le> u64_max"
    unfolding unat_widen_u32 by (simp add: u32_max_def u64_max_def)
  then show some: "checked_mul_u64 (ucast a) (ucast b) = Some (ucast a * ucast b)"
    by (simp add: checked_mul_u64_def)
  then show "unat (ucast a * ucast b :: u64) = unat a * unat b"
    by (simp add: checked_mul_u64_Some unat_widen_u32)
qed

lemma u32_sum_fits: "unat (a :: u32) * unat (b :: u32) + unat b \<le> usize_max"
proof -
  have "unat a \<le> u32_max" "unat b \<le> u32_max" by (rule unat_u32_le)+
  then have "unat a * unat b + unat b \<le> u32_max * u32_max + u32_max" by (intro add_mono mult_le_mono)
  then show ?thesis by (simp add: u32_max_def usize_max_def)
qed

lemma chunk_range_eq:
  "chunk_range plan len index =
     (if index < up_chunk_count plan \<and> 0 < unat (up_chunk_bytes plan) \<and> unat index * unat (up_chunk_bytes plan) < len
      then Some (unat index * unat (up_chunk_bytes plan),
        min (unat index * unat (up_chunk_bytes plan) + unat (up_chunk_bytes plan)) len)
      else None)"
  using u32_sum_fits[of index "up_chunk_bytes plan"]
  by (auto simp: chunk_range_def u32_product Let_def checked_add_usize_def not_less not_le)

lemma length_byte_slice: "snd rg \<le> length bs \<Longrightarrow> length (byte_slice rg bs) = snd rg - fst rg"
  by (simp add: byte_slice_def)

lemma chunk_range_length:
  assumes "chunk_range plan (length bs) i = Some rg"
  shows "length (byte_slice rg bs) = min (unat (up_chunk_bytes plan)) (length bs - unat i * unat (up_chunk_bytes plan))"
    and "0 < length (byte_slice rg bs)" and "length (byte_slice rg bs) \<le> u32_max"
    and "snd rg - fst rg = length (byte_slice rg bs)"
proof -
  have len: "length (byte_slice rg bs) = snd rg - fst rg"
    using assms by (intro length_byte_slice) (auto simp: chunk_range_eq split: if_splits)
  then show "length (byte_slice rg bs) = min (unat (up_chunk_bytes plan)) (length bs - unat i * unat (up_chunk_bytes plan))"
    and "0 < length (byte_slice rg bs)" and "snd rg - fst rg = length (byte_slice rg bs)"
    using assms by (auto simp: chunk_range_eq split: if_splits)
  then show "length (byte_slice rg bs) \<le> u32_max" using unat_u32_le[of "up_chunk_bytes plan"] by simp
qed

lemma chunk_indices_nth: "i < unat (up_chunk_count plan) \<Longrightarrow> unat (chunk_indices plan ! i) = i"
  using unat_u32_le[of "up_chunk_count plan"] by (simp add: chunk_indices_def unat_of_nat u32_max_def)

lemma chunk_indices_unat: "j < up_chunk_count plan \<Longrightarrow> chunk_indices plan ! unat j = j"
  by (simp add: chunk_indices_def word_less_nat_alt)

lemma set_chunk_indices: "set (chunk_indices plan) = {j. j < up_chunk_count plan}"
proof -
  have "j \<in> set (chunk_indices plan)" if "j < up_chunk_count plan" for j
    using that by (intro image_eqI[where x = "unat j", folded set_map] | simp add: chunk_indices_def word_less_nat_alt)+
  moreover have "j < up_chunk_count plan" if "j \<in> set (chunk_indices plan)" for j
  proof -
    from that obtain i where i: "i < unat (up_chunk_count plan)" "j = word_of_nat i" by (auto simp: chunk_indices_def)
    then have "unat j = i" using unat_u32_le[of "up_chunk_count plan"] by (simp add: unat_of_nat u32_max_def)
    with i show ?thesis by (simp add: word_less_nat_alt)
  qed
  ultimately show ?thesis by auto
qed

lemma hash_chunks_Inr:
  assumes "try_fold (hash_chunk A plan bs) (h, cs) is = Inr (h', cs')"
  shows "(\<forall>i \<in> set is. \<exists>rg. chunk_range plan (length bs) i = Some rg)
    \<and> cs' = cs @ map (\<lambda>i. st_sha256 A (byte_slice (the (chunk_range plan (length bs) i)) bs)) is"
  using assms
proof (induction "is" arbitrary: h cs)
  case (Cons i "is")
  from Cons.prems obtain st where st: "hash_chunk A plan bs (h, cs) i = Inr st"
    "try_fold (hash_chunk A plan bs) st is = Inr (h', cs')" by auto
  obtain h1 cs1 where st1: "st = (h1, cs1)" by (cases st)
  from st(1) obtain rg where "chunk_range plan (length bs) i = Some rg"
    "cs1 = cs @ [st_sha256 A (byte_slice rg bs)]"
    by (auto simp: hash_chunk_def st1 Let_def split: if_split_asm)
  with Cons.IH[of h1 cs1] st(2) st1 show ?case by simp
qed simp

lemma try_new_owned_Inr:
  assumes "try_new_owned A plan bs limits = Inr s"
  shows "st_validate_plan A plan limits = Inr ()" "os_plan s = plan" "os_bytes s = bs"
    and "length bs = unat (so_byte_len (up_object plan))" "st_sha256 A bs = so_content (up_object plan)"
    and "\<And>i. i < up_chunk_count plan \<Longrightarrow> \<exists>rg. chunk_range plan (length bs) i = Some rg
      \<and> os_chunks s ! unat i = st_sha256 A (byte_slice rg bs)"
    and "length (os_chunks s) = unat (up_chunk_count plan)"
proof -
  from assms obtain h h' cs where v: "st_validate_plan A plan limits = Inr ()"
    and len: "length bs = unat (so_byte_len (up_object plan))" and sha: "st_sha256 A bs = so_content (up_object plan)"
    and fold: "try_fold (hash_chunk A plan bs) (h, []) (chunk_indices plan) = Inr (h', cs)"
    and s: "s = \<lparr>os_plan = plan, os_bytes = bs, os_chunks = cs\<rparr>"
    by (auto simp: try_new_owned_def split: if_split_asm)
  note chunks = hash_chunks_Inr[OF fold]
  show "st_validate_plan A plan limits = Inr ()" "os_plan s = plan" "os_bytes s = bs"
    "length bs = unat (so_byte_len (up_object plan))" "st_sha256 A bs = so_content (up_object plan)"
    using v len sha s by auto
  have n: "length (chunk_indices plan) = unat (up_chunk_count plan)" by (simp add: chunk_indices_def)
  then show "length (os_chunks s) = unat (up_chunk_count plan)" using chunks s by simp
  fix i assume i: "i < up_chunk_count plan"
  then have "unat i < length (chunk_indices plan)" by (simp add: n word_less_nat_alt)
  moreover obtain rg where "chunk_range plan (length bs) i = Some rg"
    using chunks i set_chunk_indices[of plan] by blast
  ultimately show "\<exists>rg. chunk_range plan (length bs) i = Some rg \<and> os_chunks s ! unat i = st_sha256 A (byte_slice rg bs)"
    using chunks i s by (simp add: chunk_indices_unat)
qed

lemma owned_chunk:
  assumes s: "try_new_owned A plan bs limits = Inr s" and i: "i < up_chunk_count plan"
  obtains rg where "chunk_range plan (length bs) i = Some rg"
    and "owned_chunk_bytes s i = Some (byte_slice rg bs)"
    and "owned_chunk_header s i = Some \<lparr>ch_upload_id = up_upload_id plan, ch_index = i,
      ch_byte_len = word_of_nat (length (byte_slice rg bs)), ch_content = st_sha256 A (byte_slice rg bs)\<rparr>"
proof -
  note o = try_new_owned_Inr[OF s]
  from o(6)[OF i] obtain rg where rg: "chunk_range plan (length bs) i = Some rg"
    "os_chunks s ! unat i = st_sha256 A (byte_slice rg bs)" by blast
  note len = chunk_range_length[OF rg(1)]
  show ?thesis
  proof
    show "chunk_range plan (length bs) i = Some rg" by (rule rg(1))
    show "owned_chunk_bytes s i = Some (byte_slice rg bs)" by (simp add: owned_chunk_bytes_def o(2,3) rg(1))
    show "owned_chunk_header s i = Some \<lparr>ch_upload_id = up_upload_id plan, ch_index = i,
        ch_byte_len = word_of_nat (length (byte_slice rg bs)), ch_content = st_sha256 A (byte_slice rg bs)\<rparr>"
      using i len(3,4) rg(2) by (simp add: owned_chunk_header_def o(2,3,7) rg(1) word_less_nat_alt)
  qed
qed

lemma chunks_prefix:
  assumes "\<And>j. j < k \<Longrightarrow> j * n < length bs" and "0 < n"
  shows "concat (map (\<lambda>j. byte_slice (j * n, min (j * n + n) (length bs)) bs) [0..<k]) = take (k * n) bs"
  using assms(1)
proof (induction k)
  case (Suc k)
  have "byte_slice (k * n, min (k * n + n) (length bs)) bs = take n (drop (k * n) bs)"
  proof (cases "k * n + n \<le> length bs")
    case False
    then show ?thesis by (simp add: byte_slice_def min_def)
  qed (simp add: byte_slice_def min_def)
  with Suc show ?case by (simp add: take_add[symmetric] add.commute)
qed simp

text \<open>
  The documented layout that \<^verbatim>\<open>UploadPlan::validate\<close> enforces: the declared chunks cover
  the object.
\<close>

definition layout_law :: "('l, 'h, 'se, 'we) storage_api \<Rightarrow> bool" where
  "layout_law A \<longleftrightarrow> (\<forall>plan limits. st_validate_plan A plan limits = Inr () \<longrightarrow>
     unat (so_byte_len (up_object plan)) \<le> unat (up_chunk_count plan) * unat (up_chunk_bytes plan))"

lemma layout_lawD:
  "layout_law A \<Longrightarrow> st_validate_plan A plan limits = Inr () \<Longrightarrow>
     unat (so_byte_len (up_object plan)) \<le> unat (up_chunk_count plan) * unat (up_chunk_bytes plan)"
  by (auto simp: layout_law_def)

lemma owned_concat:
  assumes s: "try_new_owned A plan bs limits = Inr s" and law: "layout_law A"
  shows "concat (map (\<lambda>i. the (owned_chunk_bytes s i)) (chunk_indices plan)) = bs"
proof (cases "up_chunk_count plan = 0")
  case True
  then show ?thesis
    using layout_lawD[OF law try_new_owned_Inr(1)[OF s]] try_new_owned_Inr(4)[OF s] by (simp add: chunk_indices_def)
next
  case False
  define n where "n = unat (up_chunk_bytes plan)"
  have each: "j * n < length bs \<and> 0 < n \<and>
      the (owned_chunk_bytes s (word_of_nat j)) = byte_slice (j * n, min (j * n + n) (length bs)) bs"
    if j: "j < unat (up_chunk_count plan)" for j
  proof -
    have ju: "unat (word_of_nat j :: u32) = j"
      using j unat_u32_le[of "up_chunk_count plan"] by (simp add: unat_of_nat u32_max_def)
    then have "(word_of_nat j :: u32) < up_chunk_count plan" using j by (simp add: word_less_nat_alt)
    then obtain rg where "chunk_range plan (length bs) (word_of_nat j) = Some rg"
      "owned_chunk_bytes s (word_of_nat j) = Some (byte_slice rg bs)"
      using owned_chunk[OF s] by metis
    then show ?thesis by (auto simp: chunk_range_eq ju n_def split: if_splits)
  qed
  have "0 < unat (up_chunk_count plan)" using False by (simp add: unat_gt_0)
  then have n: "0 < n" using each by blast
  have "map (\<lambda>i. the (owned_chunk_bytes s i)) (chunk_indices plan) =
      map (\<lambda>j. byte_slice (j * n, min (j * n + n) (length bs)) bs) [0..<unat (up_chunk_count plan)]"
    using each by (simp add: chunk_indices_def)
  then have "concat (map (\<lambda>i. the (owned_chunk_bytes s i)) (chunk_indices plan)) =
      take (unat (up_chunk_count plan) * n) bs"
    using chunks_prefix[of "unat (up_chunk_count plan)" n bs] each n by simp
  then show ?thesis
    using layout_lawD[OF law try_new_owned_Inr(1)[OF s]] try_new_owned_Inr(4)[OF s] by (simp add: n_def)
qed

section \<open>What the machine expects of a source\<close>

definition exact_header :: "('l, 'h, 'se, 'we) storage_api \<Rightarrow> upload_plan \<Rightarrow> u32 \<Rightarrow> bytes \<Rightarrow> chunk_upload_header" where
  "exact_header A plan i bs = \<lparr>ch_upload_id = up_upload_id plan, ch_index = i,
     ch_byte_len = word_of_nat (length bs), ch_content = st_sha256 A bs\<rparr>"

text \<open>
  The contract of \<^verbatim>\<open>UploadSource\<close>: for every declared chunk the bytes and a header that
  names them, with the length the plan prescribes.
\<close>

locale exact_source =
  fixes A :: "('l, 'h, 'se, 'we) storage_api"
    and valid :: "'s \<Rightarrow> bool"
    and view :: "'s \<Rightarrow> upload_source"
  assumes exact_chunk: "valid s \<Longrightarrow> i < up_chunk_count (us_upload_plan (view s)) \<Longrightarrow>
    \<exists>bs. us_chunk_bytes (view s) i = Some bs
      \<and> us_chunk_header (view s) i = Some (exact_header A (us_upload_plan (view s)) i bs)
      \<and> length bs \<le> u32_max
      \<and> (expected_chunk_bytes (us_upload_plan (view s)) i :: ('se, 'we) upload_error + u32)
          = Inr (word_of_nat (length bs))"
begin

lemma send_chunk:
  assumes "valid s" and "um_plan m = us_upload_plan (view s)" and "um_pending m = None"
    and "um_state m = Sending k a" and "k < up_chunk_count (um_plan m)"
  shows "\<exists>bs. next_request A (view s) m =
    Inr (Some \<lparr>uo_operation = StoragePutChunk, uo_body = st_encode_header A (exact_header A (um_plan m) k bs) @ bs\<rparr>,
      m\<lparr>um_pending := Some (ActChunk k)\<rparr>)"
proof -
  from exact_chunk[of s k] assms obtain bs where
    bs: "us_chunk_bytes (view s) k = Some bs" "us_chunk_header (view s) k = Some (exact_header A (um_plan m) k bs)"
    "length bs \<le> u32_max"
    "(expected_chunk_bytes (um_plan m) k :: ('se, 'we) upload_error + u32) = Inr (word_of_nat (length bs))"
    by auto
  from bs(3,4) have "validate_chunk A m k (exact_header A (um_plan m) k bs) bs = Inr ()"
    by (simp add: validate_chunk_def exact_header_def not_less)
  with bs(1,2) assms show ?thesis by (intro exI[of _ bs]) (simp add: next_request_def)
qed

end

text \<open>An owned source keeps the contract.\<close>

definition owned_valid :: "('l, 'h, 'se, 'we) storage_api \<Rightarrow> owned_upload_source \<Rightarrow> bool" where
  "owned_valid A s \<longleftrightarrow> (\<exists>plan bs limits. try_new_owned A plan bs limits = Inr s
     \<and> unat (so_byte_len (up_object plan)) \<le> unat (up_chunk_count plan) * unat (up_chunk_bytes plan))"

lemma expected_chunk_length:
  assumes rg: "chunk_range plan (length bs) i = Some rg" and i: "i < up_chunk_count plan"
    and len: "length bs = unat (so_byte_len (up_object plan))"
    and cover: "length bs \<le> unat (up_chunk_count plan) * unat (up_chunk_bytes plan)"
    and inner: "\<And>j. j < up_chunk_count plan \<Longrightarrow> unat j * unat (up_chunk_bytes plan) < length bs"
  shows "expected_chunk_bytes plan i = Inr (word_of_nat (length (byte_slice rg bs)))"
proof -
  let ?n = "unat (up_chunk_bytes plan)"
  note size = chunk_range_length[OF rg]
  have i1: "unat (i + 1) = Suc (unat i)"
    using i unat_u32_le[of "up_chunk_count plan"]
    by (simp add: unat_word_ariths word_less_nat_alt u32_max_def)
  show ?thesis
  proof (cases "i + 1 < up_chunk_count plan")
    case True
    from inner[OF True] have "Suc (unat i) * ?n < length bs" by (simp only: i1)
    then have "length (byte_slice rg bs) = ?n" using size(1) by simp
    with True i show ?thesis by (simp add: expected_chunk_bytes_def not_le)
  next
    case False
    then have last: "unat (up_chunk_count plan) = Suc (unat i)"
      using i i1 by (simp add: word_less_nat_alt)
    have start: "unat i * ?n \<le> length bs" using inner[OF i] by simp
    have "length bs \<le> unat i * ?n + ?n" using cover unfolding last by simp
    then have "length bs - unat i * ?n \<le> ?n" by (simp add: le_diff_conv add.commute)
    then have rest: "length (byte_slice rg bs) = length bs - unat i * ?n"
      using size(1) by simp
    define preceding where "preceding = (ucast (up_chunk_bytes plan) * ucast i :: u64)"
    have pre: "unat preceding = unat i * ?n" unfolding preceding_def u32_product(2) by (rule mult.commute)
    have ge: "preceding \<le> so_byte_len (up_object plan)" using start by (simp add: word_le_nat_alt pre len)
    then have diff: "unat (so_byte_len (up_object plan) - preceding) = length (byte_slice rg bs)"
      by (simp add: unat_sub pre rest len)
    have "(ucast (so_byte_len (up_object plan) - preceding) :: u32) = word_of_nat (length (byte_slice rg bs))"
      by (simp add: diff[symmetric] unsigned_ucast_eq)
    moreover have "\<not> up_chunk_count plan \<le> i" "\<not> so_byte_len (up_object plan) < preceding"
      "\<not> u32_max < unat (so_byte_len (up_object plan) - preceding)"
      using i ge diff size(3) by (simp_all add: not_le not_less)
    ultimately show ?thesis
      using False by (simp add: expected_chunk_bytes_def u32_product(1) preceding_def[symmetric] Let_def)
  qed
qed

lemma owned_exact:
  assumes valid: "owned_valid A s" and i: "i < up_chunk_count (os_plan s)"
  shows "\<exists>bs. owned_chunk_bytes s i = Some bs \<and> owned_chunk_header s i = Some (exact_header A (os_plan s) i bs)
    \<and> length bs \<le> u32_max \<and> expected_chunk_bytes (os_plan s) i = Inr (word_of_nat (length bs))"
proof -
  from valid obtain plan bs limits where s: "try_new_owned A plan bs limits = Inr s"
    and cover: "unat (so_byte_len (up_object plan)) \<le> unat (up_chunk_count plan) * unat (up_chunk_bytes plan)"
    by (auto simp: owned_valid_def)
  note o = try_new_owned_Inr[OF s]
  have i': "i < up_chunk_count plan" using i o(2) by simp
  from owned_chunk[OF s i'] obtain rg where rg: "chunk_range plan (length bs) i = Some rg"
    "owned_chunk_bytes s i = Some (byte_slice rg bs)"
    "owned_chunk_header s i = Some \<lparr>ch_upload_id = up_upload_id plan, ch_index = i,
      ch_byte_len = word_of_nat (length (byte_slice rg bs)), ch_content = st_sha256 A (byte_slice rg bs)\<rparr>" .
  have inner: "unat j * unat (up_chunk_bytes plan) < length bs" if "j < up_chunk_count plan" for j
    using o(6)[OF that] by (auto simp: chunk_range_eq split: if_splits)
  show ?thesis
    using rg(2,3) chunk_range_length(3)[OF rg(1)] expected_chunk_length[OF rg(1) i' o(4) _ inner] cover o(2,4)
    by (intro exI[of _ "byte_slice rg bs"]) (simp add: exact_header_def)
qed

interpretation owned: exact_source A "owned_valid A" owned_source for A :: "('l, 'h, 'se, 'we) storage_api"
  by unfold_locales (simp add: owned_source_def owned_exact)

section \<open>Runs of the machine\<close>

text \<open>
  A run records what happened, the latest event first: requests emitted, responses accepted or
  refused, and requests abandoned when their outcome is unknown. Nothing is assumed of the device
  or of the order in which the caller abandons.
\<close>

datatype upload_event =
    Emitted upload_operation
  | Accepted upload_action client_response
  | Refused upload_action client_response
  | Abandoned

inductive upload_run ::
  "('l, 'h, 'se, 'we) storage_api \<Rightarrow> upload_source \<Rightarrow> 'l \<Rightarrow> upload_event list \<Rightarrow> 'l upload_machine \<Rightarrow> bool"
  for A :: "('l, 'h, 'se, 'we) storage_api" and source :: upload_source and limits :: 'l where
  start: "new_machine A source limits = Inr m \<Longrightarrow> upload_run A source limits [] m"
| emit: "upload_run A source limits evs m \<Longrightarrow> next_request A source m = Inr (Some op, m') \<Longrightarrow>
    upload_run A source limits (Emitted op # evs) m'"
| accepted: "upload_run A source limits evs m \<Longrightarrow> um_pending m = Some a \<Longrightarrow>
    accept_response A r m = (Inr (), m') \<Longrightarrow> upload_run A source limits (Accepted a r # evs) m'"
| refused: "upload_run A source limits evs m \<Longrightarrow> um_pending m = Some a \<Longrightarrow>
    accept_response A r m = (Inl e, m') \<Longrightarrow> upload_run A source limits (Refused a r # evs) m'"
| abandoned: "upload_run A source limits evs m \<Longrightarrow> abandon_pending m = (True, m') \<Longrightarrow>
    upload_run A source limits (Abandoned # evs) m'"

text \<open>The pending action belongs to the state, and a chunk state is an exact prefix of the plan.\<close>

fun action_fits :: "upload_state \<Rightarrow> upload_action \<Rightarrow> bool" where
  "action_fits Inspecting a \<longleftrightarrow> a = ActInspect"
| "action_fits Beginning a \<longleftrightarrow> a = ActBegin"
| "action_fits (Sending k accepted) a \<longleftrightarrow> a = ActChunk k"
| "action_fits Finalizing a \<longleftrightarrow> a = ActFinalize"
| "action_fits Completed a \<longleftrightarrow> False"

definition state_ok :: "upload_plan \<Rightarrow> upload_state \<Rightarrow> bool" where
  "state_ok plan st \<longleftrightarrow> (\<forall>k accepted. st = Sending k accepted \<longrightarrow>
     k < up_chunk_count plan \<and> unat accepted = unat k * unat (up_chunk_bytes plan))"

definition machine_ok :: "upload_source \<Rightarrow> 'l \<Rightarrow> 'l upload_machine \<Rightarrow> bool" where
  "machine_ok source limits m \<longleftrightarrow> um_plan m = us_upload_plan source \<and> um_limits m = limits
     \<and> state_ok (um_plan m) (um_state m) \<and> (\<forall>a. um_pending m = Some a \<longrightarrow> action_fits (um_state m) a)"

definition full_progress :: "('l, 'h, 'se, 'we) storage_api \<Rightarrow> upload_plan \<Rightarrow> client_response \<Rightarrow> bool" where
  "full_progress A plan r \<longleftrightarrow> rs_status r = StatusOk \<and> (\<exists>pg. st_decode_progress A (rs_body r) = Inr pg
     \<and> pg_upload_id pg = up_upload_id plan \<and> pg_next_chunk pg = up_chunk_count plan
     \<and> pg_accepted_bytes pg = so_byte_len (up_object plan) \<and> pg_total_bytes pg = so_byte_len (up_object plan))"

lemma state_from_progress_Inr:
  assumes "state_from_progress m pg = Inr st"
  shows "state_ok (um_plan m) st \<and> (st = Finalizing \<or> (\<exists>k a. st = Sending k a))"
    and "st = Finalizing \<Longrightarrow> pg_upload_id pg = up_upload_id (um_plan m)
      \<and> pg_next_chunk pg = up_chunk_count (um_plan m) \<and> pg_accepted_bytes pg = so_byte_len (up_object (um_plan m))
      \<and> pg_total_bytes pg = so_byte_len (up_object (um_plan m))"
proof -
  have eq: "pg_next_chunk pg = up_chunk_count (um_plan m)"
    if "\<not> up_chunk_count (um_plan m) < pg_next_chunk pg" "\<not> pg_next_chunk pg < up_chunk_count (um_plan m)"
    using that by simp
  show "state_ok (um_plan m) st \<and> (st = Finalizing \<or> (\<exists>k a. st = Sending k a))"
    using assms
    by (auto simp: state_from_progress_def expected_prefix_bytes_def state_ok_def Let_def u32_product mult.commute
        split: if_split_asm)
  show "st = Finalizing \<Longrightarrow> pg_upload_id pg = up_upload_id (um_plan m)
      \<and> pg_next_chunk pg = up_chunk_count (um_plan m) \<and> pg_accepted_bytes pg = so_byte_len (up_object (um_plan m))
      \<and> pg_total_bytes pg = so_byte_len (up_object (um_plan m))"
    using assms eq
    by (auto simp: state_from_progress_def expected_prefix_bytes_def Let_def split: if_split_asm)
qed

lemma require_ok_Inr [simp]: "require_ok r = Inr u \<longleftrightarrow> rs_status r = StatusOk"
  by (simp add: require_ok_def)

lemma require_ok_forward: "rs_status r = StatusOk \<Longrightarrow> require_ok r = Inr ()"
  by simp

text \<open>What an accepted response says of the device.\<close>

lemma accept_action_Inr:
  fixes A :: "('l, 'h, 'se, 'we) storage_api"
  assumes "accept_action A m a r = Inr st"
  shows "state_ok (um_plan m) st"
    and "st = Finalizing \<Longrightarrow> full_progress A (um_plan m) r \<and> (a = ActBegin \<or> (\<exists>k. a = ActChunk k))"
    and "st = Completed \<Longrightarrow> rs_status r = StatusOk \<and>
      (a = ActInspect \<and> st_decode_publication A (rs_body r) (um_limits m) = Inr (publication_of (um_plan m))
       \<or> a = ActFinalize \<and> rs_body r = [])"
proof -
  have trivial: "state_ok plan Inspecting" "state_ok plan Beginning" "state_ok plan Finalizing" "state_ok plan Completed" for plan
    by (simp_all add: state_ok_def)
  have progress: "\<exists>pg. st_decode_progress A (rs_body r) = Inr pg 
      \<and> (state_from_progress m pg :: ('se, 'we) upload_error + upload_state) = Inr st \<and> rs_status r = StatusOk"
    if "a = ActBegin \<or> (\<exists>k. a = ActChunk k)"
    using assms that by (auto simp: accept_action_def split: if_split_asm)
  show "state_ok (um_plan m) st"
    using assms progress state_from_progress_Inr(1) trivial
    by (cases a) (auto simp: accept_action_def accept_inspection_def split: status_code.split_asm if_split_asm)
  show "full_progress A (um_plan m) r \<and> (a = ActBegin \<or> (\<exists>k. a = ActChunk k))" if fin: "st = Finalizing"
  proof -
    have "a = ActBegin \<or> (\<exists>k. a = ActChunk k)"
      using assms fin by (cases a) (auto simp: accept_action_def accept_inspection_def split: status_code.split_asm if_split_asm)
    with progress state_from_progress_Inr(2)[OF _ fin] show ?thesis by (auto simp: full_progress_def)
  qed
  show "rs_status r = StatusOk \<and>
      (a = ActInspect \<and> st_decode_publication A (rs_body r) (um_limits m) = Inr (publication_of (um_plan m))
       \<or> a = ActFinalize \<and> rs_body r = [])" if fin: "st = Completed"
    using assms progress state_from_progress_Inr(1) fin
    by (cases a) (auto simp: accept_action_def accept_inspection_def split: status_code.split_asm if_split_asm)
qed

lemma new_machine_Inr:
  "new_machine A source limits = Inr m \<Longrightarrow> m = \<lparr>um_plan = us_upload_plan source, um_limits = limits,
     um_state = Inspecting, um_pending = None\<rparr>"
  by (auto simp: new_machine_def Let_def)

lemma next_request_Inr:
  assumes "next_request A source m = Inr (Some op, m')"
  shows "\<exists>a. m' = m\<lparr>um_pending := Some a\<rparr> \<and> action_fits (um_state m) a"
  using assms by (auto simp: next_request_def split: if_split_asm upload_state.split_asm)

lemma accept_response_cases:
  assumes "um_pending m = Some a" and "accept_response A r m = (res, m')"
  shows "(\<exists>e. res = Inl e \<and> m' = m\<lparr>um_pending := None, um_state := Inspecting\<rparr>)
    \<or> (\<exists>st. res = Inr () \<and> accept_action A (m\<lparr>um_pending := None\<rparr>) a r = Inr st
        \<and> m' = m\<lparr>um_pending := None, um_state := st\<rparr>)"
  using assms by (auto simp: accept_response_def split: sum.split_asm)

lemma upload_run_ok: "upload_run A source limits evs m \<Longrightarrow> machine_ok source limits m"
proof (induction rule: upload_run.induct)
  case (start m)
  then show ?case by (auto simp: machine_ok_def state_ok_def dest!: new_machine_Inr)
next
  case (emit evs m op m')
  from next_request_Inr[OF emit(2)] emit(3) show ?case by (auto simp: machine_ok_def)
next
  case (accepted evs m a r m')
  from accept_response_cases[OF accepted(2,3)] accept_action_Inr(1) accepted(4)
  show ?case by (fastforce simp: machine_ok_def)
next
  case (refused evs m a r e m')
  from accept_response_cases[OF refused(2,3)] refused(4) show ?case by (auto simp: machine_ok_def state_ok_def)
next
  case (abandoned evs m m')
  then show ?case by (auto simp: abandon_pending_def machine_ok_def state_ok_def split: if_split_asm)
qed

text \<open>The evidence in the events for the two states that claim something of the device.\<close>

definition acknowledged :: "('l, 'h, 'se, 'we) storage_api \<Rightarrow> upload_plan \<Rightarrow> upload_event list \<Rightarrow> bool" where
  "acknowledged A plan evs \<longleftrightarrow> (\<exists>a r. Accepted a r \<in> set evs
     \<and> (a = ActBegin \<or> (\<exists>k. a = ActChunk k)) \<and> full_progress A plan r)"

definition publication_seen ::
  "('l, 'h, 'se, 'we) storage_api \<Rightarrow> upload_plan \<Rightarrow> 'l \<Rightarrow> upload_event list \<Rightarrow> bool" where
  "publication_seen A plan limits evs \<longleftrightarrow>
     (\<exists>r. Accepted ActInspect r \<in> set evs \<and> rs_status r = StatusOk
        \<and> st_decode_publication A (rs_body r) limits = Inr (publication_of plan))
     \<or> (\<exists>r. Accepted ActFinalize r \<in> set evs \<and> rs_status r = StatusOk \<and> rs_body r = [] \<and> acknowledged A plan evs)"

lemma acknowledged_mono: "acknowledged A plan evs \<Longrightarrow> set evs \<subseteq> set evs' \<Longrightarrow> acknowledged A plan evs'"
  unfolding acknowledged_def by blast

lemma publication_seen_mono:
  "publication_seen A plan limits evs \<Longrightarrow> set evs \<subseteq> set evs' \<Longrightarrow> publication_seen A plan limits evs'"
  using acknowledged_mono[of A plan evs evs'] unfolding publication_seen_def by blast

lemmas evidence_mono = acknowledged_mono[OF _ set_subset_Cons] publication_seen_mono[OF _ set_subset_Cons]

lemma upload_run_evidence:
  "upload_run A source limits evs m \<Longrightarrow>
     (um_state m = Finalizing \<longrightarrow> acknowledged A (um_plan m) evs)
     \<and> (um_state m = Completed \<longrightarrow> publication_seen A (um_plan m) limits evs)"
proof (induction rule: upload_run.induct)
  case (start m)
  then show ?case by (auto dest!: new_machine_Inr)
next
  case (emit evs m op m')
  from next_request_Inr[OF emit(2)] emit(3) show ?case by (auto intro: evidence_mono)
next
  case (accepted evs m a r m')
  from accept_response_cases[OF accepted(2,3)] obtain st where
    st: "accept_action A (m\<lparr>um_pending := None\<rparr>) a r = Inr st" "m' = m\<lparr>um_pending := None, um_state := st\<rparr>"
    by auto
  note dev = accept_action_Inr(2,3)[OF st(1)]
  have ok: "machine_ok source limits m" by (rule upload_run_ok[OF accepted(1)])
  have "acknowledged A (um_plan m') (Accepted a r # evs)" if "um_state m' = Finalizing"
    using dev(1) that st(2) by (auto simp: acknowledged_def)
  moreover have "publication_seen A (um_plan m') limits (Accepted a r # evs)" if fin: "um_state m' = Completed"
  proof -
    have "rs_status r = StatusOk \<and> (a = ActInspect \<and> st_decode_publication A (rs_body r) limits = Inr (publication_of (um_plan m))
        \<or> a = ActFinalize \<and> rs_body r = [])"
      using dev(2) fin st(2) ok by (auto simp: machine_ok_def)
    moreover have "um_state m = Finalizing" if "a = ActFinalize"
      using ok accepted(2) that by (cases "um_state m") (auto simp: machine_ok_def)
    ultimately show ?thesis
      using accepted(4) st(2) evidence_mono(1)[of A "um_plan m" evs] by (auto simp: publication_seen_def)
  qed
  ultimately show ?case by blast
next
  case (refused evs m a r e m')
  from accept_response_cases[OF refused(2,3)] show ?case by auto
next
  case (abandoned evs m m')
  then show ?case by (auto simp: abandon_pending_def split: if_split_asm)
qed

definition declared_chunk ::
  "('l, 'h, 'se, 'we) storage_api \<Rightarrow> upload_plan \<Rightarrow> upload_operation \<Rightarrow> bool" where
  "declared_chunk A plan op \<longleftrightarrow> (\<exists>k bs. k < up_chunk_count plan
     \<and> uo_body op = st_encode_header A (exact_header A plan k bs) @ bs
     \<and> (expected_chunk_bytes plan k :: ('se, 'we) upload_error + u32) = Inr (word_of_nat (length bs))
     \<and> length bs \<le> u32_max)"

lemma put_chunk_declared:
  fixes A :: "('l, 'h, 'se, 'we) storage_api"
  assumes "next_request A source m = Inr (Some op, m')" and "uo_operation op = StoragePutChunk"
    and "machine_ok source limits m"
  shows "declared_chunk A (um_plan m) op"
proof -
  from assms(1,2) obtain k a header bs where st: "um_state m = Sending k a"
    and v: "validate_chunk A m k header bs = Inr ()" and body: "uo_body op = st_encode_header A header @ bs"
    by (auto simp: next_request_def split: if_split_asm upload_state.split_asm)
  have k: "k < up_chunk_count (um_plan m)" using assms(3) st by (auto simp: machine_ok_def state_ok_def)
  from v have h: "ch_upload_id header = up_upload_id (um_plan m)" "ch_index header = k"
    "ch_byte_len header = word_of_nat (length bs)" "ch_content header = st_sha256 A bs" "length bs \<le> u32_max"
    "(expected_chunk_bytes (um_plan m) k :: ('se, 'we) upload_error + u32) = Inr (word_of_nat (length bs))"
    by (auto simp: validate_chunk_def split: if_split_asm)
  have "header = exact_header A (um_plan m) k bs"
    using h(1-4) by (cases header) (simp add: exact_header_def)
  with k body h(5,6) show ?thesis
    unfolding declared_chunk_def by (intro exI[of _ k] exI[of _ bs]) simp
qed

lemma upload_run_chunks:
  "upload_run A source limits evs m \<Longrightarrow> Emitted op \<in> set evs \<Longrightarrow> uo_operation op = StoragePutChunk \<Longrightarrow>
     declared_chunk A (us_upload_plan source) op"
proof (induction rule: upload_run.induct)
  case (emit evs m op' m')
  have ok: "machine_ok source limits m" by (rule upload_run_ok[OF emit(1)])
  show ?case
  proof (cases "op = op'")
    case True
    then show ?thesis using put_chunk_declared[OF emit(2) _ ok] emit(5) ok by (simp add: machine_ok_def)
  qed (use emit in auto)
qed auto

section \<open>A device that keeps the protocol\<close>

text \<open>
  \<open>exchange\<close> is one request, the device's response and its acceptance. The device is a function
  on a state of its own; \<open>received\<close> and \<open>published\<close> read the number of chunks it holds
  durably and whether the object is published. \<open>honest_device\<close> states how the device answers
  the four operations of the protocol for one plan.
\<close>

definition exchange ::
  "('l, 'h, 'se, 'we) storage_api \<Rightarrow> upload_source \<Rightarrow> ('d \<Rightarrow> upload_operation \<Rightarrow> 'd \<times> client_response)
     \<Rightarrow> 'd \<times> 'l upload_machine \<Rightarrow> 'd \<times> 'l upload_machine" where
  "exchange A source respond dm = (case dm of (d, m) \<Rightarrow>
     (case next_request A source m of
        Inl e \<Rightarrow> (d, m)
      | Inr (None, m') \<Rightarrow> (d, m')
      | Inr (Some op, m') \<Rightarrow> (case respond d op of (d', r) \<Rightarrow> (d', snd (accept_response A r m')))))"

definition prefix_bytes :: "upload_plan \<Rightarrow> nat \<Rightarrow> u64" where
  "prefix_bytes plan k = (if k = unat (up_chunk_count plan) then so_byte_len (up_object plan)
     else ucast (up_chunk_bytes plan) * ucast (word_of_nat k :: u32))"

definition progress_reply :: "('l, 'h, 'se, 'we) storage_api \<Rightarrow> upload_plan \<Rightarrow> nat \<Rightarrow> client_response \<Rightarrow> bool" where
  "progress_reply A plan k r \<longleftrightarrow> rs_status r = StatusOk \<and> (\<exists>ph.
     (ph = PReceiving \<or> ph = PPublishPending \<and> k = unat (up_chunk_count plan))
     \<and> st_decode_progress A (rs_body r) = Inr \<lparr>pg_upload_id = up_upload_id plan, pg_phase = ph,
         pg_next_chunk = word_of_nat k, pg_accepted_bytes = prefix_bytes plan k,
         pg_total_bytes = so_byte_len (up_object plan)\<rparr>)"

definition honest_device ::
  "('l, 'h, 'se, 'we) storage_api \<Rightarrow> upload_plan \<Rightarrow> 'l \<Rightarrow> ('d \<Rightarrow> upload_operation \<Rightarrow> 'd \<times> client_response)
     \<Rightarrow> ('d \<Rightarrow> nat) \<Rightarrow> ('d \<Rightarrow> bool) \<Rightarrow> bool" where
  "honest_device A plan limits respond received published \<longleftrightarrow> (\<forall>d.
     received d \<le> unat (up_chunk_count plan) \<and>
     (case respond d \<lparr>uo_operation = StorageInspect, uo_body = st_encode_publication A (publication_of plan)\<rparr> of
        (d', r) \<Rightarrow> received d' = received d \<and> published d' = published d
          \<and> (if published d then rs_status r = StatusOk
               \<and> st_decode_publication A (rs_body r) limits = Inr (publication_of plan)
             else r = \<lparr>rs_status = StatusNotFound, rs_body = []\<rparr>)) \<and>
     (\<not> published d \<longrightarrow>
       (case respond d \<lparr>uo_operation = StorageBeginUpload, uo_body = st_encode_plan A plan\<rparr> of
          (d', r) \<Rightarrow> received d' = received d \<and> \<not> published d' \<and> progress_reply A plan (received d) r) \<and>
       (\<forall>bs. received d < unat (up_chunk_count plan) \<longrightarrow>
         (case respond d \<lparr>uo_operation = StoragePutChunk,
              uo_body = st_encode_header A (exact_header A plan (word_of_nat (received d)) bs) @ bs\<rparr> of
            (d', r) \<Rightarrow> received d' = Suc (received d) \<and> \<not> published d' \<and> progress_reply A plan (Suc (received d)) r)) \<and>
       (received d = unat (up_chunk_count plan) \<longrightarrow>
         (case respond d \<lparr>uo_operation = StorageFinalize, uo_body = st_encode_finalize A (up_upload_id plan)\<rparr> of
            (d', r) \<Rightarrow> published d' \<and> r = \<lparr>rs_status = StatusOk, rs_body = []\<rparr>))))"

text \<open>The machine's state when the device holds \<open>k\<close> chunks.\<close>

definition state_at :: "upload_plan \<Rightarrow> nat \<Rightarrow> upload_state" where
  "state_at plan k = (if k < unat (up_chunk_count plan) then Sending (word_of_nat k) (prefix_bytes plan k) else Finalizing)"

lemma unat_chunk_number: "k \<le> unat (up_chunk_count plan) \<Longrightarrow> unat (word_of_nat k :: u32) = k"
  using unat_u32_le[of "up_chunk_count plan"] by (simp add: unat_of_nat u32_max_def)

lemma progress_reply_state:
  fixes A :: "('l, 'h, 'se, 'we) storage_api"
  assumes "progress_reply A (um_plan m) k r" and k: "k \<le> unat (up_chunk_count (um_plan m))"
  obtains pg where "st_decode_progress A (rs_body r) = Inr pg" and "rs_status r = StatusOk"
    and "pg_next_chunk pg = word_of_nat k" 
    and "(state_from_progress m pg :: ('se, 'we) upload_error + upload_state) = Inr (state_at (um_plan m) k)"
proof -
  from assms(1) obtain ph where ph: "rs_status r = StatusOk"
    "ph = PReceiving \<or> ph = PPublishPending \<and> k = unat (up_chunk_count (um_plan m))"
    and dec: "st_decode_progress A (rs_body r) = Inr \<lparr>pg_upload_id = up_upload_id (um_plan m), pg_phase = ph,
         pg_next_chunk = word_of_nat k, pg_accepted_bytes = prefix_bytes (um_plan m) k,
         pg_total_bytes = so_byte_len (up_object (um_plan m))\<rparr>"
    by (auto simp: progress_reply_def)
  note u = unat_chunk_number[OF k]
  have lt: "(word_of_nat k :: u32) < up_chunk_count (um_plan m) \<longleftrightarrow> k < unat (up_chunk_count (um_plan m))"
    and gt: "\<not> up_chunk_count (um_plan m) < (word_of_nat k :: u32)"
    and eq: "(word_of_nat k :: u32) = up_chunk_count (um_plan m) \<longleftrightarrow> k = unat (up_chunk_count (um_plan m))"
    using k by (simp_all add: word_less_nat_alt u word_unat_eq_iff)
  show ?thesis
  proof
    show "st_decode_progress A (rs_body r) = Inr \<lparr>pg_upload_id = up_upload_id (um_plan m), pg_phase = ph,
         pg_next_chunk = word_of_nat k, pg_accepted_bytes = prefix_bytes (um_plan m) k,
         pg_total_bytes = so_byte_len (up_object (um_plan m))\<rparr>" by (rule dec)
    show "(state_from_progress m \<lparr>pg_upload_id = up_upload_id (um_plan m), pg_phase = ph,
         pg_next_chunk = word_of_nat k, pg_accepted_bytes = prefix_bytes (um_plan m) k,
         pg_total_bytes = so_byte_len (up_object (um_plan m))\<rparr> :: ('se, 'we) upload_error + upload_state) = Inr (state_at (um_plan m) k)"
      using ph(2) k lt gt eq
      by (auto simp: state_from_progress_def expected_prefix_bytes_def prefix_bytes_def state_at_def Let_def u32_product(1))
  qed (use ph in auto)
qed

text \<open>The four exchanges with such a device, then their composition.\<close>

definition ready :: "upload_plan \<Rightarrow> 'l \<Rightarrow> upload_state \<Rightarrow> 'l upload_machine" where
  "ready plan limits st = \<lparr>um_plan = plan, um_limits = limits, um_state = st, um_pending = None\<rparr>"

lemma honest_deviceD:
  assumes "honest_device A plan limits respond received published"
  shows "received d \<le> unat (up_chunk_count plan)"
    and "respond d \<lparr>uo_operation = StorageInspect, uo_body = st_encode_publication A (publication_of plan)\<rparr> = (d', r) \<Longrightarrow>
      received d' = received d \<and> published d' = published d
      \<and> (if published d then rs_status r = StatusOk \<and> st_decode_publication A (rs_body r) limits = Inr (publication_of plan)
         else r = \<lparr>rs_status = StatusNotFound, rs_body = []\<rparr>)"
    and "\<not> published d \<Longrightarrow> respond d \<lparr>uo_operation = StorageBeginUpload, uo_body = st_encode_plan A plan\<rparr> = (d', r) \<Longrightarrow>
      received d' = received d \<and> \<not> published d' \<and> progress_reply A plan (received d) r"
    and "\<not> published d \<Longrightarrow> received d < unat (up_chunk_count plan) \<Longrightarrow> respond d \<lparr>uo_operation = StoragePutChunk,
        uo_body = st_encode_header A (exact_header A plan (word_of_nat (received d)) bs) @ bs\<rparr> = (d', r) \<Longrightarrow>
      received d' = Suc (received d) \<and> \<not> published d' \<and> progress_reply A plan (Suc (received d)) r"
    and "\<not> published d \<Longrightarrow> received d = unat (up_chunk_count plan) \<Longrightarrow>
      respond d \<lparr>uo_operation = StorageFinalize, uo_body = st_encode_finalize A (up_upload_id plan)\<rparr> = (d', r) \<Longrightarrow>
      published d' \<and> r = \<lparr>rs_status = StatusOk, rs_body = []\<rparr>"
proof -
  note D = assms[unfolded honest_device_def, THEN spec, of d]
  show "received d \<le> unat (up_chunk_count plan)" by (rule D[THEN conjunct1])
  note D2 = D[THEN conjunct2, THEN conjunct1] and D3 = D[THEN conjunct2, THEN conjunct2]
  show "received d' = received d \<and> published d' = published d
      \<and> (if published d then rs_status r = StatusOk \<and> st_decode_publication A (rs_body r) limits = Inr (publication_of plan)
         else r = \<lparr>rs_status = StatusNotFound, rs_body = []\<rparr>)"
    if "respond d \<lparr>uo_operation = StorageInspect, uo_body = st_encode_publication A (publication_of plan)\<rparr> = (d', r)"
    using D2 unfolding that prod.case .
  show "received d' = received d \<and> \<not> published d' \<and> progress_reply A plan (received d) r"
    if "\<not> published d" "respond d \<lparr>uo_operation = StorageBeginUpload, uo_body = st_encode_plan A plan\<rparr> = (d', r)"
    using D3[THEN mp, OF that(1), THEN conjunct1] unfolding that(2) prod.case .
  show "received d' = Suc (received d) \<and> \<not> published d' \<and> progress_reply A plan (Suc (received d)) r"
    if "\<not> published d" "received d < unat (up_chunk_count plan)" and r: "respond d \<lparr>uo_operation = StoragePutChunk,
        uo_body = st_encode_header A (exact_header A plan (word_of_nat (received d)) bs) @ bs\<rparr> = (d', r)"
    using D3[THEN mp, OF that(1), THEN conjunct2, THEN conjunct1, THEN spec, of bs, THEN mp, OF that(2)] unfolding r prod.case .
  show "published d' \<and> r = \<lparr>rs_status = StatusOk, rs_body = []\<rparr>"
    if "\<not> published d" "received d = unat (up_chunk_count plan)"
      and r: "respond d \<lparr>uo_operation = StorageFinalize, uo_body = st_encode_finalize A (up_upload_id plan)\<rparr> = (d', r)"
    using D3[THEN mp, OF that(1), THEN conjunct2, THEN conjunct2, THEN mp, OF that(2)] unfolding r prod.case .
qed

lemma exchange_inspect:
  assumes "honest_device A plan limits respond received published" and "us_upload_plan source = plan"
  obtains d' where "exchange A source respond (d, ready plan limits Inspecting)
      = (d', ready plan limits (if published d then Completed else Beginning))"
    and "received d' = received d" and "published d' = published d"
proof -
  obtain d' r where r: "respond d \<lparr>uo_operation = StorageInspect, uo_body = st_encode_publication A (publication_of plan)\<rparr> = (d', r)"
    by (cases "respond d \<lparr>uo_operation = StorageInspect, uo_body = st_encode_publication A (publication_of plan)\<rparr>")
  from honest_deviceD(2)[OF assms(1) r] show ?thesis
    using that[of d'] r assms(2)
    by (auto simp: exchange_def next_request_def ready_def accept_response_def accept_action_def accept_inspection_def
        split: if_splits)
qed

lemma exchange_begin:
  fixes A :: "('l, 'h, 'se, 'we) storage_api"
  assumes "honest_device A plan limits respond received published" and "us_upload_plan source = plan" and "\<not> published d"
  obtains d' where "exchange A source respond (d, ready plan limits Beginning)
      = (d', ready plan limits (state_at plan (received d)))"
    and "received d' = received d" and "\<not> published d'"
proof -
  obtain d' r where r: "respond d \<lparr>uo_operation = StorageBeginUpload, uo_body = st_encode_plan A plan\<rparr> = (d', r)"
    by (cases "respond d \<lparr>uo_operation = StorageBeginUpload, uo_body = st_encode_plan A plan\<rparr>")
  note h = honest_deviceD(3)[OF assms(1,3) r]
  have "progress_reply A (um_plan (ready plan limits Beginning)) (received d) r"
    "received d \<le> unat (up_chunk_count (um_plan (ready plan limits Beginning)))"
    using h honest_deviceD(1)[OF assms(1)] by (simp_all add: ready_def)
  then obtain pg where "st_decode_progress A (rs_body r) = Inr pg" "rs_status r = StatusOk"
    "(state_from_progress (ready plan limits Beginning) pg :: ('se, 'we) upload_error + upload_state)
      = Inr (state_at plan (received d))"
    by (rule progress_reply_state) (simp add: ready_def)
  with r h assms(2) show ?thesis
    by (intro that[of d']) (simp_all add: exchange_def next_request_def ready_def accept_response_def accept_action_def require_ok_forward)
qed

context exact_source
begin

lemma exchange_chunk:
  assumes dev: "honest_device A plan limits respond received published" and src: "valid s" "us_upload_plan (view s) = plan"
    and d: "\<not> published d" "received d < unat (up_chunk_count plan)"
  obtains d' where "exchange A (view s) respond (d, ready plan limits (state_at plan (received d)))
      = (d', ready plan limits (state_at plan (received d')))"
    and "received d' = Suc (received d)" and "\<not> published d'"
proof -
  define k where "k = received d"
  define m where "m = ready plan limits (state_at plan k)"
  have u: "unat (word_of_nat k :: u32) = k" using d(2) by (intro unat_chunk_number[of _ plan]) (simp add: k_def)
  have m: "um_plan m = us_upload_plan (view s)" "um_pending m = None"
    "um_state m = Sending (word_of_nat k) (prefix_bytes plan k)" "(word_of_nat k :: u32) < up_chunk_count (um_plan m)"
    using d(2) src(2) by (simp_all add: m_def ready_def state_at_def k_def[symmetric] word_less_nat_alt u)
  from send_chunk[OF src(1) m] obtain bs where req: "next_request A (view s) m =
    Inr (Some \<lparr>uo_operation = StoragePutChunk, uo_body = st_encode_header A (exact_header A plan (word_of_nat k) bs) @ bs\<rparr>,
      m\<lparr>um_pending := Some (ActChunk (word_of_nat k))\<rparr>)"
    using src(2) m(1) by auto
  obtain d' r where r: "respond d \<lparr>uo_operation = StoragePutChunk,
      uo_body = st_encode_header A (exact_header A plan (word_of_nat k) bs) @ bs\<rparr> = (d', r)"
    by (cases "respond d \<lparr>uo_operation = StoragePutChunk,
      uo_body = st_encode_header A (exact_header A plan (word_of_nat k) bs) @ bs\<rparr>")
  note h = honest_deviceD(4)[OF dev d r[unfolded k_def]]
  have "progress_reply A (um_plan m) (Suc k) r" "Suc k \<le> unat (up_chunk_count (um_plan m))"
    using h d(2) m(1) src(2) by (simp_all add: k_def)
  then obtain pg where pg: "st_decode_progress A (rs_body r) = Inr pg" "rs_status r = StatusOk"
    "pg_next_chunk pg = word_of_nat (Suc k)"
    "(state_from_progress m pg :: ('se, 'we) upload_error + upload_state) = Inr (state_at (um_plan m) (Suc k))"
    by (rule progress_reply_state)
  have "unat (word_of_nat k :: u32) \<noteq> u32_max"
    using d(2) unat_u32_le[of "up_chunk_count plan"] unfolding u by (simp add: k_def)
  then have "accept_action A m (ActChunk (word_of_nat k)) r = Inr (state_at (um_plan m) (Suc k))"
    using pg by (simp add: accept_action_def require_ok_forward add.commute)
  then have "accept_response A r (m\<lparr>um_pending := Some (ActChunk (word_of_nat k))\<rparr>) =
      (Inr (), m\<lparr>um_state := state_at (um_plan m) (Suc k)\<rparr>)"
    using m(2) by (cases m) (simp add: accept_response_def)
  moreover have "m\<lparr>um_state := state_at (um_plan m) (Suc k)\<rparr> = ready plan limits (state_at plan (Suc k))"
    by (simp add: m_def ready_def)
  ultimately show ?thesis
    using req r h by (intro that[of d']) (simp_all add: exchange_def m_def k_def)
qed

end

lemma exchange_finalize:
  assumes "honest_device A plan limits respond received published" and "us_upload_plan source = plan"
    and "\<not> published d" and "received d = unat (up_chunk_count plan)"
  obtains d' where "exchange A source respond (d, ready plan limits Finalizing) = (d', ready plan limits Completed)"
proof -
  obtain d' r where r: "respond d \<lparr>uo_operation = StorageFinalize, uo_body = st_encode_finalize A (up_upload_id plan)\<rparr> = (d', r)"
    by (cases "respond d \<lparr>uo_operation = StorageFinalize, uo_body = st_encode_finalize A (up_upload_id plan)\<rparr>")
  from honest_deviceD(5)[OF assms(1,3,4) r] r assms(2) show ?thesis
    by (intro that[of d']) (simp add: exchange_def next_request_def ready_def accept_response_def accept_action_def require_ok_forward)
qed

context exact_source
begin

lemma sends_rest:
  assumes dev: "honest_device A plan limits respond received published" and src: "valid s" "us_upload_plan (view s) = plan"
  shows "\<not> published d \<Longrightarrow> unat (up_chunk_count plan) - received d = n \<Longrightarrow>
    um_state (snd ((exchange A (view s) respond ^^ Suc n) (d, ready plan limits (state_at plan (received d))))) = Completed"
proof (induction n arbitrary: d)
  case 0
  then have full: "received d = unat (up_chunk_count plan)" using honest_deviceD(1)[OF dev, of d] by simp
  then have "state_at plan (received d) = Finalizing" by (simp add: state_at_def)
  moreover obtain d' where "exchange A (view s) respond (d, ready plan limits Finalizing) = (d', ready plan limits Completed)"
    using exchange_finalize[OF dev src(2) 0(1) full] by metis
  ultimately show ?case by (simp add: ready_def)
next
  case (Suc n)
  then have more: "received d < unat (up_chunk_count plan)" by simp
  obtain d' where d': "exchange A (view s) respond (d, ready plan limits (state_at plan (received d)))
      = (d', ready plan limits (state_at plan (received d')))" "received d' = Suc (received d)" "\<not> published d'"
    using exchange_chunk[OF dev src Suc.prems(1) more] by metis
  have "unat (up_chunk_count plan) - received d' = n" using Suc.prems(2) d'(2) by simp
  from Suc.IH[OF d'(3) this] d'(1) show ?case by (simp only: funpow_Suc_right comp_apply)
qed

lemma completes:
  assumes dev: "honest_device A plan limits respond received published" and src: "valid s" "us_upload_plan (view s) = plan"
  shows "\<exists>n \<le> unat (up_chunk_count plan) + 3.
    um_state (snd ((exchange A (view s) respond ^^ n) (d, ready plan limits Inspecting))) = Completed"
proof -
  obtain d1 where d1: "exchange A (view s) respond (d, ready plan limits Inspecting)
      = (d1, ready plan limits (if published d then Completed else Beginning))"
    "received d1 = received d" "published d1 = published d"
    using exchange_inspect[OF dev src(2)] by metis
  show ?thesis
  proof (cases "published d")
    case True
    then show ?thesis using d1(1) by (intro exI[of _ 1]) (simp add: ready_def)
  next
    case False
    then obtain d2 where d2: "exchange A (view s) respond (d1, ready plan limits Beginning)
        = (d2, ready plan limits (state_at plan (received d1)))" "received d2 = received d1" "\<not> published d2"
      using exchange_begin[OF dev src(2)] d1(3) by metis
    define k where "k = unat (up_chunk_count plan) - received d2"
    have "um_state (snd ((exchange A (view s) respond ^^ Suc k) (d2, ready plan limits (state_at plan (received d2))))) = Completed"
      using sends_rest[OF dev src d2(3)] by (simp add: k_def)
    then have "um_state (snd ((exchange A (view s) respond ^^ Suc (Suc (Suc k))) (d, ready plan limits Inspecting))) = Completed"
      using d1(1) d2(1,2) False by (simp only: funpow_Suc_right comp_apply if_False)
    moreover have "Suc (Suc (Suc k)) \<le> unat (up_chunk_count plan) + 3" by (simp add: k_def)
    ultimately show ?thesis by blast
  qed
qed

end

section \<open>A small upload\<close>

text \<open>Three bytes in chunks of two, and a device that answers by counting. It holds the manifest with the
  same bytes already.\<close>

definition demo_plan :: upload_plan where
  "demo_plan = \<lparr>up_upload_id = 7, up_object = \<lparr>so_kind = MachineJobPartition, so_content = [1, 2, 3], so_byte_len = 3\<rparr>,
     up_manifest = [2], up_chunk_bytes = 2, up_chunk_count = 2\<rparr>"

definition demo_manifest_plan :: upload_plan where
  "demo_manifest_plan = demo_plan\<lparr>up_upload_id := 9, up_object := (up_object demo_plan)\<lparr>so_kind := MachineJobManifest\<rparr>\<rparr>"

definition demo_storage :: "(unit, nat, unit, unit) storage_api" where
  "demo_storage = \<lparr>
     st_validate_plan = (\<lambda>plan _. if unat (so_byte_len (up_object plan))
       \<le> unat (up_chunk_count plan) * unat (up_chunk_bytes plan) then Inr () else Inl ()),
     st_validate_publication = (\<lambda>_ _. Inr ()),
     st_sha256 = (\<lambda>bs. bs),
     st_manifest_new = (\<lambda>_ _ _ _. Inr 0),
     st_manifest_push = (\<lambda>h _ _ _. Inr (Suc h)),
     st_manifest_finalize = (\<lambda>h. Inr [word_of_nat h]),
     st_encode_publication = (\<lambda>pub. if so_kind (po_object pub) = MachineJobManifest then [1] else []),
     st_encode_plan = (\<lambda>_. []),
     st_encode_header = (\<lambda>h. [ucast (ch_index h)]),
     st_encode_finalize = (\<lambda>_. []),
     st_decode_progress = (\<lambda>bs. case bs of
         [k] \<Rightarrow> Inr \<lparr>pg_upload_id = 7, pg_phase = PReceiving, pg_next_chunk = ucast k,
           pg_accepted_bytes = prefix_bytes demo_plan (unat k), pg_total_bytes = 3\<rparr>
       | _ \<Rightarrow> Inl ()),
     st_decode_publication = (\<lambda>bs _. if bs = [1] then Inr (publication_of demo_plan)
       else if bs = [2] then Inr (publication_of demo_manifest_plan) else Inl ()) \<rparr>"

definition demo_owned :: owned_upload_source where
  "demo_owned = \<lparr>os_plan = demo_plan, os_bytes = [1, 2, 3], os_chunks = [[1, 2], [3]]\<rparr>"

fun demo_respond :: "nat \<times> bool \<Rightarrow> upload_operation \<Rightarrow> (nat \<times> bool) \<times> client_response" where
  "demo_respond (n, pub) op = (case uo_operation op of
       StorageInspect \<Rightarrow> ((n, pub), if uo_body op = [1] then \<lparr>rs_status = StatusOk, rs_body = [2]\<rparr>
         else if pub then \<lparr>rs_status = StatusOk, rs_body = [1]\<rparr>
         else \<lparr>rs_status = StatusNotFound, rs_body = []\<rparr>)
     | StorageBeginUpload \<Rightarrow> ((n, pub), \<lparr>rs_status = StatusOk, rs_body = [word_of_nat (min 2 n)]\<rparr>)
     | StoragePutChunk \<Rightarrow> ((Suc n, pub), \<lparr>rs_status = StatusOk, rs_body = [word_of_nat (min 2 (Suc n))]\<rparr>)
     | StorageFinalize \<Rightarrow> ((n, True), \<lparr>rs_status = StatusOk, rs_body = []\<rparr>))"

lemma demo_fields [simp]:
  "up_upload_id demo_plan = 7" "up_chunk_bytes demo_plan = 2" "up_chunk_count demo_plan = 2" "up_manifest demo_plan = [2]"
  "so_kind (up_object demo_plan) = MachineJobPartition" "so_byte_len (up_object demo_plan) = 3" "so_content (up_object demo_plan) = [1, 2, 3]"
  by (simp_all add: demo_plan_def)

lemma demo_operations [simp]:
  "st_validate_plan demo_storage demo_plan () = Inr ()" "st_validate_publication demo_storage pub () = Inr ()"
  "st_sha256 demo_storage bs = bs" "st_manifest_new demo_storage obj b c () = Inr 0"
  "st_manifest_push demo_storage h i d n = Inr (Suc h)" "st_manifest_finalize demo_storage h = Inr [word_of_nat h]"
  "st_encode_publication demo_storage (publication_of demo_plan) = []" "st_encode_plan demo_storage plan = []"
  "st_encode_finalize demo_storage u = []"
  "st_decode_publication demo_storage [1] () = Inr (publication_of demo_plan)"
  "st_decode_progress demo_storage [k] = Inr \<lparr>pg_upload_id = 7, pg_phase = PReceiving, pg_next_chunk = ucast k,
     pg_accepted_bytes = prefix_bytes demo_plan (unat k), pg_total_bytes = 3\<rparr>"
  by (simp_all add: demo_storage_def publication_of_def)

lemma demo_layout: "layout_law demo_storage"
  by (auto simp: layout_law_def demo_storage_def split: if_split_asm)

lemma demo_owned_new: "try_new_owned demo_storage demo_plan [1, 2, 3] () = Inr demo_owned"
proof -
  have idx: "chunk_indices demo_plan = [0, 1]"
    by (simp add: chunk_indices_def upt_rec)
  have rg: "chunk_range demo_plan (length [1 :: 8 word, 2, 3]) 0 = Some (0, 2)"
    "chunk_range demo_plan (length [1 :: 8 word, 2, 3]) 1 = Some (2, 3)"
    by (simp_all add: chunk_range_eq)
  have first: "hash_chunk demo_storage demo_plan [1, 2, 3] (h, cs) 0 = Inr (Suc h, cs @ [[1, 2]])" for h cs
    by (simp only: hash_chunk_def prod.case rg) (simp add: byte_slice_def u32_max_def del: and_then_Inr and_then_Inl)
  have second: "hash_chunk demo_storage demo_plan [1, 2, 3] (h, cs) 1 = Inr (Suc h, cs @ [[3]])" for h cs
    by (simp only: hash_chunk_def prod.case rg) (simp add: byte_slice_def u32_max_def del: and_then_Inr and_then_Inl)
  show ?thesis
    by (simp add: try_new_owned_def idx first second demo_owned_def del: and_then_Inr and_then_Inl)
qed

lemma demo_reply:
  assumes "k \<le> 2"
  shows "progress_reply demo_storage demo_plan k \<lparr>rs_status = StatusOk, rs_body = [word_of_nat k]\<rparr>"
proof -
  have "unat (word_of_nat k :: 8 word) = k" "(ucast (word_of_nat k :: 8 word) :: u32) = word_of_nat k"
    using assms by (auto simp: unat_of_nat numeral_2_eq_2 le_Suc_eq)
  then show ?thesis by (simp add: progress_reply_def)
qed

lemma demo_honest: "honest_device demo_storage demo_plan () demo_respond (\<lambda>d. min 2 (fst d)) snd"
proof -
  have put: "progress_reply demo_storage demo_plan (Suc n) \<lparr>rs_status = StatusOk, rs_body = [word_of_nat (min 2 (Suc n))]\<rparr>"
    "min 2 (Suc n) = Suc n" if "min 2 n < 2" for n :: nat
  proof -
    from that have "Suc n \<le> 2" by simp
    then show eq: "min 2 (Suc n) = Suc n" by (rule min_absorb2)
    from demo_reply[OF \<open>Suc n \<le> 2\<close>] show "progress_reply demo_storage demo_plan (Suc n)
        \<lparr>rs_status = StatusOk, rs_body = [word_of_nat (min 2 (Suc n))]\<rparr>" unfolding eq .
  qed
  show ?thesis
    unfolding honest_device_def
    by (auto simp: demo_reply put simp del: demo_fields(1) of_nat_Suc min_less_iff_disj split: if_split)
qed

section \<open>Properties\<close>

text \<open>
  An accepted owned source cuts its object into exactly the declared
  chunks: their bytes in order are the object, no chunk is empty, every header names the upload,
  the index, the exact length and the hash of its own bytes, and beyond the declared count there is
  neither header nor bytes.
\<close>

theorem owned_source_partitions:
  assumes "try_new_owned A plan bs limits = Inr s" and "layout_law A"
  shows "concat (map (\<lambda>i. the (owned_chunk_bytes s i)) (chunk_indices plan)) = bs
    \<and> (\<forall>i. if i < up_chunk_count plan
        then \<exists>b. b \<noteq> [] \<and> owned_chunk_bytes s i = Some b \<and> owned_chunk_header s i = Some (exact_header A plan i b)
        else owned_chunk_bytes s i = None \<and> owned_chunk_header s i = None)"
proof -
  have "\<exists>b. b \<noteq> [] \<and> owned_chunk_bytes s i = Some b \<and> owned_chunk_header s i = Some (exact_header A plan i b)"
    if "i < up_chunk_count plan" for i
    using owned_chunk[OF assms(1) that] chunk_range_length(2)
    by (metis exact_header_def length_greater_0_conv)
  moreover have "owned_chunk_bytes s i = None \<and> owned_chunk_header s i = None" if "\<not> i < up_chunk_count plan" for i
    using that try_new_owned_Inr(2)[OF assms(1)]
    by (simp add: owned_chunk_bytes_def owned_chunk_header_def chunk_range_eq)
  ultimately show ?thesis using owned_concat[OF assms] by simp
qed

theorem owned_source_partitions_witness:
  "concat (map (\<lambda>i. the (owned_chunk_bytes demo_owned i)) (chunk_indices demo_plan)) = [1, 2, 3]"
  using owned_source_partitions[OF demo_owned_new demo_layout] by blast

text \<open>
  In every run, whatever the device answers and whenever the caller
  abandons a request, the machine stays bound to its plan and policy, a pending action is the one its
  state emits, a completed machine has none pending, and a chunk state names a declared chunk with
  exactly the bytes before it.
\<close>

theorem upload_machine_invariant:
  assumes "upload_run A source limits evs m"
  shows "machine_ok source limits m"
  using assms by (rule upload_run_ok)

lemma demo_start: "new_machine demo_storage (owned_source demo_owned) () = Inr (ready demo_plan () Inspecting)"
  by (simp add: new_machine_def owned_source_def demo_owned_def ready_def Let_def del: and_then_Inr and_then_Inl)

theorem upload_machine_invariant_witness:
  "machine_ok (owned_source demo_owned) () (ready demo_plan () Inspecting)"
  by (rule upload_machine_invariant[OF upload_run.start[OF demo_start]])

text \<open>
  C29. Every chunk request the machine ever emits carries a header for a
  declared chunk, with the plan's upload identity, the hash of exactly the bytes that follow it and
  the length the plan prescribes for that chunk: bytes that fail their own identity are not sent.
\<close>

theorem upload_sends_declared_chunks:
  assumes "upload_run A source limits evs m" and "Emitted op \<in> set evs" and "uo_operation op = StoragePutChunk"
  shows "declared_chunk A (us_upload_plan source) op"
  using assms by (rule upload_run_chunks)

lemma demo_view [simp]: "us_upload_plan (owned_source demo_owned) = demo_plan"
  by (simp add: owned_source_def demo_owned_def)

lemma demo_valid: "owned_valid demo_storage demo_owned"
  unfolding owned_valid_def using demo_owned_new by (intro exI[of _ demo_plan] exI) auto

lemma demo_inspected:
  "upload_run demo_storage (owned_source demo_owned) () [Emitted \<lparr>uo_operation = StorageInspect, uo_body = []\<rparr>]
     ((ready demo_plan () Inspecting)\<lparr>um_pending := Some ActInspect\<rparr>)"
  by (rule upload_run.emit[OF upload_run.start[OF demo_start]]) (simp add: next_request_def ready_def)

lemma demo_sending:
  "\<exists>evs. upload_run demo_storage (owned_source demo_owned) () evs (ready demo_plan () (Sending 0 0))"
proof -
  let ?none = "\<lparr>rs_status = StatusNotFound, rs_body = []\<rparr>" and ?zero = "\<lparr>rs_status = StatusOk, rs_body = [0]\<rparr>"
  have "accept_response demo_storage ?none ((ready demo_plan () Inspecting)\<lparr>um_pending := Some ActInspect\<rparr>) =
      (Inr (), ready demo_plan () Beginning)"
    by (simp add: accept_response_def accept_action_def accept_inspection_def ready_def)
  note upload_run.accepted[OF demo_inspected _ this]
  moreover have "next_request demo_storage (owned_source demo_owned) (ready demo_plan () Beginning) =
      Inr (Some \<lparr>uo_operation = StorageBeginUpload, uo_body = []\<rparr>, (ready demo_plan () Beginning)\<lparr>um_pending := Some ActBegin\<rparr>)"
    by (simp add: next_request_def ready_def)
  ultimately obtain evs where evs: "upload_run demo_storage (owned_source demo_owned) () evs
      ((ready demo_plan () Beginning)\<lparr>um_pending := Some ActBegin\<rparr>)"
    by (auto intro: upload_run.emit)
  have "progress_reply demo_storage (um_plan (ready demo_plan () Beginning)) 0 ?zero"
    using demo_reply[of 0] by (simp add: ready_def)
  from progress_reply_state[OF this] obtain pg where pg: "st_decode_progress demo_storage [0] = Inr pg"
    "(state_from_progress (ready demo_plan () Beginning) pg :: (unit, unit) upload_error + upload_state)
       = Inr (state_at demo_plan 0)"
    by (auto simp: ready_def)
  have "state_at demo_plan 0 = Sending 0 0" by (simp add: state_at_def prefix_bytes_def)
  with pg have "accept_response demo_storage ?zero ((ready demo_plan () Beginning)\<lparr>um_pending := Some ActBegin\<rparr>) =
      (Inr (), ready demo_plan () (Sending 0 0))"
    by (simp add: accept_response_def accept_action_def require_ok_forward ready_def del: demo_operations)
  from upload_run.accepted[OF evs _ this] show ?thesis by auto
qed

theorem upload_sends_declared_chunks_witness:
  "\<exists>op. uo_operation op = StoragePutChunk \<and> declared_chunk demo_storage demo_plan op"
proof -
  obtain evs where run: "upload_run demo_storage (owned_source demo_owned) () evs (ready demo_plan () (Sending 0 0))"
    using demo_sending by blast
  obtain bs where "next_request demo_storage (owned_source demo_owned) (ready demo_plan () (Sending 0 0)) =
      Inr (Some \<lparr>uo_operation = StoragePutChunk,
        uo_body = st_encode_header demo_storage (exact_header demo_storage demo_plan 0 bs) @ bs\<rparr>,
      (ready demo_plan () (Sending 0 0))\<lparr>um_pending := Some (ActChunk 0)\<rparr>)" (is "_ = Inr (Some ?op, _)")
    using owned.send_chunk[OF demo_valid, of "ready demo_plan () (Sending 0 0)" 0 0] by (auto simp: ready_def)
  from upload_sends_declared_chunks[OF upload_run.emit[OF run this], of ?op] have "declared_chunk demo_storage demo_plan ?op"
    by simp
  then show ?thesis by (intro exI[of _ ?op] conjI) simp_all
qed

text \<open>
  C12. Completion is never inferred: a machine reports the phase Complete
  only when the run contains an accepted inspection whose decoded publication is the plan's own, or
  an accepted empty success of the finalize request together with an accepted progress report that
  covers every declared chunk and every byte of the object.
\<close>

theorem upload_completion_genuine:
  assumes "upload_run A source limits evs m" and "machine_phase m = PhaseComplete"
  shows "publication_seen A (us_upload_plan source) limits evs"
proof -
  have "um_state m = Completed" using assms(2) by (simp add: machine_phase_def split: upload_state.split_asm)
  then show ?thesis using upload_run_evidence[OF assms(1)] upload_run_ok[OF assms(1)] by (simp add: machine_ok_def)
qed

theorem upload_completion_genuine_witness:
  "publication_seen demo_storage demo_plan ()
     [Accepted ActInspect \<lparr>rs_status = StatusOk, rs_body = [1]\<rparr>, Emitted \<lparr>uo_operation = StorageInspect, uo_body = []\<rparr>]"
proof -
  have "accept_response demo_storage \<lparr>rs_status = StatusOk, rs_body = [1]\<rparr>
      ((ready demo_plan () Inspecting)\<lparr>um_pending := Some ActInspect\<rparr>) = (Inr (), ready demo_plan () Completed)"
    by (simp add: accept_response_def accept_action_def accept_inspection_def ready_def del: and_then_Inr and_then_Inl)
  from upload_completion_genuine[OF upload_run.accepted[OF demo_inspected _ this]] show ?thesis
    by (simp add: ready_def machine_phase_def)
qed

text \<open>
  C11. Recovery always succeeds: take any run over an owned source, whatever the
  device answered, that is inspecting or has a request of unknown outcome. Abandon that request and
  exchange with a device that keeps the protocol, in whatever durable state the earlier attempts left
  it, published or holding any prefix of the chunks: at most the chunk count plus three exchanges
  complete the upload.
\<close>

theorem upload_recovers:
  assumes "try_new_owned A plan bs limits = Inr src" and "layout_law A"
    and "upload_run A (owned_source src) limits' evs m" and "um_pending m \<noteq> None \<or> um_state m = Inspecting"
    and "honest_device A plan limits' respond received published"
  shows "\<exists>n \<le> unat (up_chunk_count plan) + 3.
    machine_phase (snd ((exchange A (owned_source src) respond ^^ n) (d, snd (abandon_pending m)))) = PhaseComplete"
proof -
  have plan: "us_upload_plan (owned_source src) = plan"
    using try_new_owned_Inr(2)[OF assms(1)] by (simp add: owned_source_def)
  have valid: "owned_valid A src"
    unfolding owned_valid_def using assms(1) layout_lawD[OF assms(2) try_new_owned_Inr(1)[OF assms(1)]] by blast
  have "snd (abandon_pending m) = ready plan limits' Inspecting"
    using assms(4) upload_run_ok[OF assms(3)] plan
    by (cases m) (auto simp: abandon_pending_def machine_ok_def ready_def)
  moreover obtain n where "n \<le> unat (up_chunk_count plan) + 3"
    "um_state (snd ((exchange A (owned_source src) respond ^^ n) (d, ready plan limits' Inspecting))) = Completed"
    using owned.completes[OF assms(5) valid plan, of d] by blast
  ultimately show ?thesis by (intro exI[of _ n]) (simp add: machine_phase_def)
qed

theorem upload_recovers_witness:
  "\<exists>n \<le> 5. machine_phase (snd ((exchange demo_storage (owned_source demo_owned) demo_respond ^^ n)
      ((1, False), snd (abandon_pending (ready demo_plan () Inspecting))))) = PhaseComplete"
  using upload_recovers[OF demo_owned_new demo_layout upload_run.start[OF demo_start] _ demo_honest, of "(1, False)"]
  by (simp add: ready_def)

end
