(* ===== verification/Http_Session.thy ===== *)
theory Http_Session
  imports Protocol_Client
begin

text \<open>
  The authenticated HTTP session of \<^verbatim>\<open>crates/alumina-interface-client/src/http.rs\<close>: the
  strict public identity and challenge documents, and the split-phase state machine that signs one
  request, waits, and admits only a response that proves it answers that request. Signatures, their
  header syntax and nonces are \<^verbatim>\<open>alumina_net\<close>'s and parameters here, as is the JSON reader of
  \<^verbatim>\<open>serde_json\<close>.
\<close>

unbundle bit_operations_syntax

section \<open>Authentication outside the crate\<close>

datatype media = MediaNativeFrame | MediaJson | MediaOther nat

text \<open>
  Secrets are bytes; \<open>'n\<close> is a boot nonce, \<open>'o\<close> a browser origin, \<open>'g\<close> a tag and
  \<open>'ae\<close> an authentication error. The method signed is always \<^verbatim>\<open>POST\<close>.
\<close>

record ('n, 'o, 'g, 'ae) auth_api =
  au_sign_request :: "bytes \<Rightarrow> 'n \<Rightarrow> u64 \<Rightarrow> rust_str \<Rightarrow> 'o \<Rightarrow> bytes \<Rightarrow> 'ae + 'g"
  au_write_lower_hex :: "'g \<Rightarrow> 'ae + bytes"
  au_parse_request_proof :: "rust_str \<Rightarrow> rust_str \<Rightarrow> 'ae + u64 \<times> 'g"
  au_verify_response_proof :: "bytes \<Rightarrow> 'n \<Rightarrow> u64 \<Rightarrow> 'g \<Rightarrow> u16 \<Rightarrow> media \<Rightarrow> 'o \<Rightarrow> bytes \<Rightarrow> 'ae + unit"

section \<open>The session\<close>

definition control_path :: rust_str where
  "control_path = str ''/api/v1/control''"

record pending_request =
  pq_operation :: operation
  pq_sequence :: u32
  pq_correlation :: u32
  pq_http_counter :: u64
  pq_config_digest :: digest

record authenticated_request =
  ar_counter :: u64
  ar_authorization :: bytes
  ar_body :: bytes

record authenticated_response =
  ap_http_status :: u16
  ap_media :: media
  ap_counter_header :: rust_str
  ap_authorization_header :: rust_str
  ap_body :: bytes

record ('n, 'o) http_session =
  hs_nonce :: 'n
  hs_origin :: 'o
  hs_next_http_counter :: u64
  hs_next_sequence :: u32
  hs_next_correlation :: u32
  hs_config_digest :: digest
  hs_pending :: "pending_request option"

datatype ('ae, 'fe, 'me) http_session_error =
    HE_RequestPending
  | HE_NoPendingRequest
  | HE_CounterExhausted
  | HE_CounterSeed
  | HE_Request "'me request_encode_error"
  | HE_Authentication 'ae
  | HE_CounterMismatch u64 u64
  | HE_HttpStatus u16
  | HE_Media media
  | HE_Response "('fe, 'me) response_decode_error"

definition new_session :: "'n \<Rightarrow> digest \<Rightarrow> 'o \<Rightarrow> ('n, 'o) http_session" where
  "new_session nonce cfg origin = \<lparr>hs_nonce = nonce, hs_origin = origin, hs_next_http_counter = 1,
     hs_next_sequence = 0, hs_next_correlation = 1, hs_config_digest = cfg, hs_pending = None\<rparr>"

definition starting_at ::
  "'n \<Rightarrow> digest \<Rightarrow> 'o \<Rightarrow> u64 \<Rightarrow> ('ae, 'fe, 'me) http_session_error + ('n, 'o) http_session" where
  "starting_at nonce cfg origin initial_counter =
     (if initial_counter = 0 \<or> unat initial_counter = u64_max then Inl HE_CounterSeed
      else Inr \<lparr>hs_nonce = nonce, hs_origin = origin, hs_next_http_counter = initial_counter,
        hs_next_sequence = 0, hs_next_correlation = 1, hs_config_digest = cfg, hs_pending = None\<rparr>)"

definition begin_request_for_config ::
  "('k, 'fe, 'me) protocol_api \<Rightarrow> ('n, 'o, 'g, 'ae) auth_api \<Rightarrow> operation \<Rightarrow> bytes \<Rightarrow> digest \<Rightarrow> bytes
     \<Rightarrow> ('n, 'o) http_session \<Rightarrow> ('ae, 'fe, 'me) http_session_error + authenticated_request \<times> ('n, 'o) http_session" where
  "begin_request_for_config P H operation body cfg secret s =
     (if hs_pending s \<noteq> None then Inl HE_RequestPending
      else let counter = hs_next_http_counter s in
      and_then (ok_or HE_CounterExhausted (checked_add_u64 counter 1)) (\<lambda>next_counter.
      let sequence = hs_next_sequence s; correlation = hs_next_correlation s in
      and_then (map_err HE_Request (encode_request P operation body sequence correlation cfg)) (\<lambda>encoded.
      and_then (map_err HE_Authentication
          (au_sign_request H secret (hs_nonce s) counter control_path (hs_origin s) encoded)) (\<lambda>tag.
      and_then (map_err HE_Authentication (au_write_lower_hex H tag)) (\<lambda>authorization.
      Inr (\<lparr>ar_counter = counter, ar_authorization = authorization, ar_body = encoded\<rparr>,
        s\<lparr>hs_pending := Some \<lparr>pq_operation = operation, pq_sequence = sequence, pq_correlation = correlation,
             pq_http_counter = counter, pq_config_digest = cfg\<rparr>,
          hs_next_http_counter := next_counter,
          hs_next_sequence := hs_next_sequence s + 1,
          hs_next_correlation := max (hs_next_correlation s + 1) 1\<rparr>))))))"

definition begin_request ::
  "('k, 'fe, 'me) protocol_api \<Rightarrow> ('n, 'o, 'g, 'ae) auth_api \<Rightarrow> operation \<Rightarrow> bytes \<Rightarrow> bytes
     \<Rightarrow> ('n, 'o) http_session \<Rightarrow> ('ae, 'fe, 'me) http_session_error + authenticated_request \<times> ('n, 'o) http_session" where
  "begin_request P H operation body secret s = begin_request_for_config P H operation body (hs_config_digest s) secret s"

text \<open>The checks before the pending request is consumed, then those after.\<close>

definition authenticate_response ::
  "('n, 'o, 'g, 'ae) auth_api \<Rightarrow> authenticated_response \<Rightarrow> bytes \<Rightarrow> ('n, 'o) http_session
     \<Rightarrow> ('ae, 'fe, 'me) http_session_error + pending_request" where
  "authenticate_response H r secret s =
     and_then (ok_or HE_NoPendingRequest (hs_pending s)) (\<lambda>pending.
     and_then (map_err HE_Authentication
         (au_parse_request_proof H (ap_counter_header r) (ap_authorization_header r))) (\<lambda>(counter, tag).
     if counter \<noteq> pq_http_counter pending then Inl (HE_CounterMismatch counter (pq_http_counter pending))
     else and_then (map_err HE_Authentication (au_verify_response_proof H secret (hs_nonce s) counter tag
         (ap_http_status r) (ap_media r) (hs_origin s) (ap_body r))) (\<lambda>_. Inr pending)))"

definition open_response ::
  "('k, 'fe, 'me) protocol_api \<Rightarrow> authenticated_response \<Rightarrow> pending_request
     \<Rightarrow> ('ae, 'fe, 'me) http_session_error + client_response" where
  "open_response P r pending =
     (if ap_http_status r \<noteq> 200 then Inl (HE_HttpStatus (ap_http_status r))
      else if ap_media r \<noteq> MediaNativeFrame then Inl (HE_Media (ap_media r))
      else map_err HE_Response (decode_response P (ap_body r) (pq_operation pending) (pq_sequence pending)
        (pq_correlation pending) (pq_config_digest pending)))"

definition accept_http_response ::
  "('k, 'fe, 'me) protocol_api \<Rightarrow> ('n, 'o, 'g, 'ae) auth_api \<Rightarrow> authenticated_response \<Rightarrow> bytes \<Rightarrow> ('n, 'o) http_session
     \<Rightarrow> (('ae, 'fe, 'me) http_session_error + client_response) \<times> ('n, 'o) http_session" where
  "accept_http_response P H r secret s =
     (case authenticate_response H r secret s of
        Inl e \<Rightarrow> (Inl e, s)
      | Inr pending \<Rightarrow> (open_response P r pending, s\<lparr>hs_pending := None\<rparr>))"

definition abandon_session :: "('n, 'o) http_session \<Rightarrow> bool \<times> ('n, 'o) http_session" where
  "abandon_session s = (hs_pending s \<noteq> None, s\<lparr>hs_pending := None\<rparr>)"

definition rebind_boot ::
  "'n \<Rightarrow> digest \<Rightarrow> ('n, 'o) http_session \<Rightarrow> ('ae, 'fe, 'me) http_session_error + ('n, 'o) http_session" where
  "rebind_boot nonce cfg s =
     (if hs_pending s \<noteq> None then Inl HE_RequestPending else Inr (new_session nonce cfg (hs_origin s)))"

section \<open>Public documents\<close>

fun decode_lower_hex :: "u8 \<Rightarrow> u8 option" where
  "decode_lower_hex b =
     (if 48 \<le> unat b \<and> unat b \<le> 57 then Some (b - 48)
      else if 97 \<le> unat b \<and> unat b \<le> 102 then Some (b - 97 + 10) else None)"

text \<open>The loop of the two hexadecimal readers: pairs of digits, high nibble first.\<close>

fun decode_hex_pairs :: "rust_str \<Rightarrow> bytes option" where
  "decode_hex_pairs (h # l # rest) =
     (case decode_lower_hex h of None \<Rightarrow> None
      | Some high \<Rightarrow> (case decode_lower_hex l of None \<Rightarrow> None
          | Some low \<Rightarrow> map_option ((#) (push_bit 4 high OR low)) (decode_hex_pairs rest)))"
| "decode_hex_pairs _ = Some []"

datatype device_identity_error =
    DI_Json | DI_Version | DI_Board | DI_CredentialSource | DI_Device | DI_Capability | DI_InterfaceBundle | DI_Hex

definition decode_exact_lower_hex :: "nat \<Rightarrow> rust_str \<Rightarrow> device_identity_error + bytes" where
  "decode_exact_lower_hex n v =
     (if length v \<noteq> n * 2 then Inl DI_Hex else ok_or DI_Hex (decode_hex_pairs v))"

datatype credential_source = DevelopmentFallback | BuildProvisioned | DeviceStored

definition parse_credential_source :: "rust_str \<Rightarrow> credential_source option" where
  "parse_credential_source v =
     (if v = str ''development-fallback'' then Some DevelopmentFallback
      else if v = str ''build-provisioned'' then Some BuildProvisioned
      else if v = str ''device-stored'' then Some DeviceStored else None)"

definition production_armable :: "credential_source \<Rightarrow> bool" where
  "production_armable c \<longleftrightarrow> c = DeviceStored"

record device_identity_wire =
  dw_protocol_version :: u16
  dw_board_id :: rust_str
  dw_credential_source :: rust_str
  dw_production_armable :: bool
  dw_device_id :: rust_str
  dw_capability_digest :: rust_str
  dw_capability_document_bytes :: u32
  dw_interface_bundle_format :: rust_str
  dw_interface_commit :: rust_str
  dw_interface_bundle_sha256 :: rust_str

record interface_bundle_identity =
  ib_commit :: bytes
  ib_digest :: bytes

record device_identity =
  di_board_id :: rust_str
  di_credential_source :: credential_source
  di_device_id :: bytes
  di_capability_bytes :: u32
  di_capability_digest :: bytes
  di_interface_bundle :: interface_bundle_identity

definition board_id_byte :: "u8 \<Rightarrow> bool" where
  "board_id_byte b \<longleftrightarrow> (97 \<le> unat b \<and> unat b \<le> 122) \<or> is_ascii_digit b \<or> b = 45 \<or> b = 95"

definition all_zero :: "bytes \<Rightarrow> bool" where
  "all_zero bs \<longleftrightarrow> list_all (\<lambda>b. b = 0) bs"

text \<open>
  The JSON reader, and the two bounds of \<^verbatim>\<open>alumina_capability\<close> on a capability document, are
  arguments: the header size and the interactive maximum.
\<close>

definition decode_device_identity ::
  "(bytes \<Rightarrow> device_identity_wire option) \<Rightarrow> u32 \<Rightarrow> u32 \<Rightarrow> bytes \<Rightarrow> device_identity_error + device_identity" where
  "decode_device_identity json minimum maximum bytes =
     (if bytes = [] \<or> 512 < length bytes then Inl DI_Json
      else and_then (ok_or DI_Json (json bytes)) (\<lambda>wire.
      if dw_protocol_version wire \<noteq> 1 then Inl DI_Version
      else if dw_board_id wire = [] \<or> 64 < length (dw_board_id wire)
        \<or> \<not> list_all board_id_byte (dw_board_id wire) then Inl DI_Board
      else and_then (ok_or DI_CredentialSource (parse_credential_source (dw_credential_source wire))) (\<lambda>source.
      if dw_production_armable wire \<noteq> production_armable source then Inl DI_CredentialSource
      else and_then (decode_exact_lower_hex 16 (dw_device_id wire)) (\<lambda>device_id.
      if all_zero device_id then Inl DI_Device
      else and_then (decode_exact_lower_hex 32 (dw_capability_digest wire)) (\<lambda>cap_digest.
      if all_zero cap_digest \<or> dw_capability_document_bytes wire < minimum
        \<or> maximum < dw_capability_document_bytes wire then Inl DI_Capability
      else if dw_interface_bundle_format wire \<noteq> str ''alumina-web-bundle-v2'' then Inl DI_InterfaceBundle
      else and_then (decode_exact_lower_hex 20 (dw_interface_commit wire)) (\<lambda>interface_commit.
      and_then (decode_exact_lower_hex 32 (dw_interface_bundle_sha256 wire)) (\<lambda>interface_digest.
      if all_zero interface_commit \<or> all_zero interface_digest then Inl DI_InterfaceBundle
      else Inr \<lparr>di_board_id = dw_board_id wire, di_credential_source = source, di_device_id = device_id,
        di_capability_bytes = dw_capability_document_bytes wire, di_capability_digest = cap_digest,
        di_interface_bundle = \<lparr>ib_commit = interface_commit, ib_digest = interface_digest\<rparr>\<rparr>)))))))"

datatype challenge_error = AC_Json | AC_Scheme | AC_Policy | AC_Nonce

record challenge_wire =
  cw_scheme :: rust_str
  cw_origin_bound :: bool
  cw_boot_nonce :: rust_str
  cw_counter_window :: u8
  cw_rate_burst :: u16
  cw_rate_per_second :: u16
  cw_request_proof_header :: rust_str
  cw_response_proof_header :: rust_str

text \<open>
  The exact body length, the two header names and \<^verbatim>\<open>BootNonce::new\<close> are \<^verbatim>\<open>alumina_net\<close>'s.
\<close>

record ('n, 'ae) challenge_api =
  cp_body_bytes :: nat
  cp_json :: "bytes \<Rightarrow> challenge_wire option"
  cp_proof_header :: rust_str
  cp_response_header :: rust_str
  cp_boot_nonce :: "bytes \<Rightarrow> 'ae + 'n"

definition decode_authentication_challenge :: "('n, 'ae) challenge_api \<Rightarrow> bytes \<Rightarrow> challenge_error + 'n" where
  "decode_authentication_challenge D bytes =
     (if length bytes \<noteq> cp_body_bytes D then Inl AC_Json
      else and_then (ok_or AC_Json (cp_json D bytes)) (\<lambda>wire.
      if cw_scheme wire \<noteq> str ''hmac-sha256-v2'' \<or> \<not> cw_origin_bound wire then Inl AC_Scheme
      else if cw_counter_window wire \<noteq> 64 \<or> cw_rate_burst wire \<noteq> 32 \<or> cw_rate_per_second wire \<noteq> 50
        \<or> cw_request_proof_header wire \<noteq> cp_proof_header D \<or> cw_response_proof_header wire \<noteq> cp_response_header D
      then Inl AC_Policy
      else if length (cw_boot_nonce wire) \<noteq> 32 then Inl AC_Nonce
      else and_then (ok_or AC_Nonce (decode_hex_pairs (cw_boot_nonce wire))) (\<lambda>nonce.
      map_err (\<lambda>_. AC_Nonce) (cp_boot_nonce D nonce))))"

section \<open>Canonical hexadecimal\<close>

definition lower_hex_digit :: "nat \<Rightarrow> u8" where
  "lower_hex_digit n = (if n < 10 then word_of_nat (48 + n) else word_of_nat (87 + n))"

fun lower_hex :: "bytes \<Rightarrow> rust_str" where
  "lower_hex [] = []"
| "lower_hex (b # bs) = lower_hex_digit (unat b div 16) # lower_hex_digit (unat b mod 16) # lower_hex bs"

lemma decode_lower_hex_Some:
  "decode_lower_hex b = Some v \<longleftrightarrow> unat v < 16 \<and> b = lower_hex_digit (unat v)"
proof
  assume "decode_lower_hex b = Some v"
  then consider "48 \<le> unat b" "unat b \<le> 57" "v = b - 48" | "97 \<le> unat b" "unat b \<le> 102" "v = b - 97 + 10"
    by (auto split: if_split_asm)
  then show "unat v < 16 \<and> b = lower_hex_digit (unat v)"
  proof cases
    case 1
    then have "unat v = unat b - 48" by (simp add: unat_sub word_le_nat_alt)
    with 1 show ?thesis by (auto simp: lower_hex_digit_def)
  next
    case 2
    then have "unat v = unat b - 87" by (simp add: unat_sub word_le_nat_alt)
    with 2 show ?thesis by (auto simp: lower_hex_digit_def)
  qed
next
  assume v: "unat v < 16 \<and> b = lower_hex_digit (unat v)"
  show "decode_lower_hex b = Some v"
  proof (cases "unat v < 10")
    case True
    then have "unat b = 48 + unat v" using v by (simp add: lower_hex_digit_def unat_word_ariths)
    moreover have "b - 48 = v" using True v by (simp add: lower_hex_digit_def)
    ultimately show ?thesis using True by simp
  next
    case False
    then have b: "unat b = 87 + unat v" using v by (simp add: lower_hex_digit_def unat_word_ariths)
    have "b = word_of_nat (87 + unat v)" using v False by (simp add: lower_hex_digit_def)
    then have "b - 97 + 10 = v" by (simp add: algebra_simps)
    then show ?thesis using b v False by simp
  qed
qed

lemma unat_nibbles:
  assumes "unat (high :: u8) < 16" and "unat (low :: u8) < 16"
  shows "unat (push_bit 4 high OR low) = 16 * unat high + unat low"
proof -
  have "push_bit 4 high AND low = 0"
  proof (rule bit_eqI)
    fix n
    show "bit (push_bit 4 high AND low) n = bit (0 :: u8) n"
    proof (cases "n < 4")
      case False
      have "take_bit 4 low = low" using assms(2) by (simp add: word_unat_eq_iff take_bit_eq_mod unat_mod)
      then have "\<not> bit low n" using False bit_take_bit_iff[of 4 low n] by simp
      then show ?thesis by (simp add: bit_and_iff)
    qed (simp add: bit_and_iff bit_push_bit_iff)
  qed
  then have "push_bit 4 high OR low = push_bit 4 high + low" by (simp add: disjunctive_add_eq_or)
  also have "\<dots> = 16 * high + low" by (simp add: push_bit_eq_mult)
  finally show ?thesis using assms by (simp add: unat_word_ariths)
qed

lemma lower_hex_Nil: "[] = lower_hex bs \<longleftrightarrow> bs = []"
  by (cases bs) auto

lemma decode_hex_pairs_Some:
  "even (length v) \<Longrightarrow> decode_hex_pairs v = Some bs \<longleftrightarrow> v = lower_hex bs"
proof (induction v arbitrary: bs rule: decode_hex_pairs.induct)
  case (1 h l rest)
  have IH: "decode_hex_pairs rest = Some bs' \<longleftrightarrow> rest = lower_hex bs'"
    if "decode_lower_hex h = Some a" "decode_lower_hex l = Some b" for a b bs'
    using 1 that by simp
  show ?case
  proof
    assume "decode_hex_pairs (h # l # rest) = Some bs"
    then obtain a b bs' where ab: "decode_lower_hex h = Some a" "decode_lower_hex l = Some b"
      "decode_hex_pairs rest = Some bs'" "bs = (push_bit 4 a OR b) # bs'"
      by (auto simp del: decode_lower_hex.simps split: option.split_asm)
    note d = ab(1,2)[unfolded decode_lower_hex_Some]
    have "unat (push_bit 4 a OR b) = 16 * unat a + unat b" using unat_nibbles d by blast
    moreover have "rest = lower_hex bs'" using IH[OF ab(1,2), of bs'] ab(3) by (rule iffD1)
    ultimately show "h # l # rest = lower_hex bs" using d ab(4) by simp
  next
    assume e: "h # l # rest = lower_hex bs"
    then obtain c bs' where bs: "bs = c # bs'" by (cases bs) auto
    have c: "unat c < 256" by (rule unat_u8_less)
    let ?a = "word_of_nat (unat c div 16) :: u8" and ?b = "word_of_nat (unat c mod 16) :: u8"
    have u: "unat ?a = unat c div 16" "unat ?b = unat c mod 16" using c by (simp_all add: unat_of_nat)
    have h: "decode_lower_hex h = Some ?a" "decode_lower_hex l = Some ?b"
      unfolding decode_lower_hex_Some u using e bs c by auto
    have "unat (push_bit 4 ?a OR ?b) = unat c"
      using unat_nibbles[of ?a ?b] c by (simp add: u)
    then have "push_bit 4 ?a OR ?b = c" by (simp only: word_unat_eq_iff)
    then show "decode_hex_pairs (h # l # rest) = Some bs"
      using h IH[OF h, of bs'] e bs by (simp del: decode_lower_hex.simps)
  qed
qed (auto simp: lower_hex_Nil)

lemma length_lower_hex [simp]: "length (lower_hex bs) = 2 * length bs"
  by (induction bs) simp_all

lemma decode_exact_lower_hex_Inr:
  "decode_exact_lower_hex n v = Inr bs \<longleftrightarrow> length bs = n \<and> v = lower_hex bs"
proof (cases "length v = n * 2")
  case True
  then have "even (length v)" by simp
  from decode_hex_pairs_Some[OF this, of bs] True show ?thesis by (auto simp: decode_exact_lower_hex_def)
qed (auto simp: decode_exact_lower_hex_def)

section \<open>Runs of a session\<close>

text \<open>
  What a caller can do, in any order and with any data: begin a request, present a response,
  abandon, and rebind to a new boot. A run collects the nonce and counter of every request issued.
\<close>

datatype 'n session_event =
    SBegin operation bytes digest bytes
  | SRespond authenticated_response bytes
  | SAbandon
  | SRebind 'n digest

fun session_step ::
  "('k, 'fe, 'me) protocol_api \<Rightarrow> ('n, 'o, 'g, 'ae) auth_api \<Rightarrow> 'n session_event \<Rightarrow> ('n, 'o) http_session
     \<Rightarrow> ('n \<times> u64) list \<times> ('n, 'o) http_session" where
  "session_step P H (SBegin operation body cfg secret) s =
     (case begin_request_for_config P H operation body cfg secret s of
        Inl e \<Rightarrow> ([], s) | Inr (r, s') \<Rightarrow> ([(hs_nonce s, ar_counter r)], s'))"
| "session_step P H (SRespond r secret) s = ([], snd (accept_http_response P H r secret s))"
| "session_step P H SAbandon s = ([], snd (abandon_session s))"
| "session_step P H (SRebind nonce cfg) s =
     (case rebind_boot nonce cfg s :: ('ae, 'fe, 'me) http_session_error + ('n, 'o) http_session of
        Inl e \<Rightarrow> ([], s) | Inr s' \<Rightarrow> ([], s'))"

fun session_run ::
  "('k, 'fe, 'me) protocol_api \<Rightarrow> ('n, 'o, 'g, 'ae) auth_api \<Rightarrow> 'n session_event list \<Rightarrow> ('n, 'o) http_session
     \<Rightarrow> ('n \<times> u64) list \<times> ('n, 'o) http_session" where
  "session_run P H [] s = ([], s)"
| "session_run P H (ev # evs) s =
     (case session_step P H ev s of (issued, s) \<Rightarrow>
      case session_run P H evs s of (later, s) \<Rightarrow> (issued @ later, s))"

fun rebind_nonces :: "'n session_event list \<Rightarrow> 'n list" where
  "rebind_nonces [] = []"
| "rebind_nonces (SRebind nonce cfg # evs) = nonce # rebind_nonces evs"
| "rebind_nonces (ev # evs) = rebind_nonces evs"

lemma begin_request_Inr:
  assumes "begin_request_for_config P H operation body cfg secret s = Inr (r, s')"
  shows "ar_counter r = hs_next_http_counter s" and "unat (hs_next_http_counter s') = unat (hs_next_http_counter s) + 1"
    and "hs_nonce s' = hs_nonce s" and "hs_pending s = None"
    and "hs_pending s' = Some \<lparr>pq_operation = operation, pq_sequence = hs_next_sequence s,
      pq_correlation = hs_next_correlation s, pq_http_counter = hs_next_http_counter s, pq_config_digest = cfg\<rparr>"
    and "hs_origin s' = hs_origin s" and "hs_config_digest s' = hs_config_digest s"
    and "encode_request P operation body (hs_next_sequence s) (hs_next_correlation s) cfg = Inr (ar_body r)"
    and "\<exists>tag. au_sign_request H secret (hs_nonce s) (hs_next_http_counter s) control_path (hs_origin s) (ar_body r) = Inr tag
      \<and> au_write_lower_hex H tag = Inr (ar_authorization r)"
  using assms by (auto simp: begin_request_for_config_def Let_def checked_add_u64_Some split: if_split_asm)

lemma session_step_other:
  assumes "\<And>operation body cfg secret. ev \<noteq> SBegin operation body cfg secret"
    and "session_step P H ev s = (issued, s')"
  shows "issued = [] \<and> ((hs_nonce s' = hs_nonce s \<and> hs_next_http_counter s' = hs_next_http_counter s)
    \<or> (\<exists>cfg. ev = SRebind (hs_nonce s') cfg))"
  using assms
  by (cases ev) (auto simp: accept_http_response_def abandon_session_def rebind_boot_def new_session_def split: sum.split_asm if_split_asm)


lemma session_run_fresh:
  "session_run P H evs s = (issued, s') \<Longrightarrow> distinct (hs_nonce s # rebind_nonces evs) \<Longrightarrow>
     distinct issued \<and> fst ` set issued \<subseteq> set (hs_nonce s # rebind_nonces evs)
     \<and> (\<forall>c. (hs_nonce s, c) \<in> set issued \<longrightarrow> unat (hs_next_http_counter s) \<le> unat c)"
proof (induction evs arbitrary: s issued)
  case (Cons ev evs)
  obtain now s1 where now: "session_step P H ev s = (now, s1)" by (cases "session_step P H ev s")
  obtain later where later: "session_run P H evs s1 = (later, s')" "issued = now @ later"
    using Cons.prems(1) now by (auto split: prod.split_asm)
  consider (opened) operation body cfg secret where "ev = SBegin operation body cfg secret"
    | (other) "\<And>operation body cfg secret. ev \<noteq> SBegin operation body cfg secret" by blast
  then show ?case
  proof cases
    case opened
    then have dist: "distinct (hs_nonce s # rebind_nonces evs)" using Cons.prems(2) by simp
    show ?thesis
    proof (cases "begin_request_for_config P H operation body cfg secret s")
      case (Inl e)
      then have "now = []" "s1 = s" using now opened by auto
      with Cons.IH[OF later(1)] dist later(2) opened show ?thesis by simp
    next
      case (Inr rs)
      obtain r where r: "rs = (r, s1)" "now = [(hs_nonce s, ar_counter r)]" using now opened Inr by (cases rs) auto
      note b = begin_request_Inr[OF Inr[unfolded r(1)]]
      have IH: "distinct later" "fst ` set later \<subseteq> set (hs_nonce s # rebind_nonces evs)"
        "\<And>c. (hs_nonce s, c) \<in> set later \<Longrightarrow> unat (hs_next_http_counter s) + 1 \<le> unat c"
        using Cons.IH[OF later(1)] dist b(2,3) by auto
      then show ?thesis using b(1) later(2) r(2) opened by fastforce
    qed
  next
    case other
    from session_step_other[OF other now] have now_nil: "now = []" by blast
    consider (same) "hs_nonce s1 = hs_nonce s" "hs_next_http_counter s1 = hs_next_http_counter s" "rebind_nonces (ev # evs) = rebind_nonces evs"
      | (drop) nonce cfg where "ev = SRebind nonce cfg" "s1 = s"
      | (bound) cfg where "ev = SRebind (hs_nonce s1) cfg"
      using session_step_other[OF other now] now
      by (cases ev) (auto simp: rebind_boot_def new_session_def split: sum.split_asm if_split_asm)
    then show ?thesis
    proof cases
      case same
      then show ?thesis using Cons.IH[OF later(1)] Cons.prems(2) later(2) now_nil by auto
    next
      case drop
      then show ?thesis using Cons.IH[OF later(1)] Cons.prems(2) later(2) now_nil by auto
    next
      case bound
      then have new: "hs_nonce s \<notin> set (hs_nonce s1 # rebind_nonces evs)" "distinct (hs_nonce s1 # rebind_nonces evs)"
        using Cons.prems(2) by auto
      from Cons.IH[OF later(1) new(2)] have "distinct later" "fst ` set later \<subseteq> set (hs_nonce s1 # rebind_nonces evs)" by auto
      moreover have "(hs_nonce s, c) \<notin> set later" for c
        using calculation(2) new(1) by (metis fst_conv image_eqI subsetD)
      ultimately show ?thesis using later(2) now_nil bound by auto
    qed
  qed
qed simp

lemma session_run_monotone:
  "session_run P H evs s = (issued, s') \<Longrightarrow>
     hs_nonce s' = hs_nonce s \<and> unat (hs_next_http_counter s) \<le> unat (hs_next_http_counter s')
     \<or> hs_nonce s' \<in> set (rebind_nonces evs)"
proof (induction evs arbitrary: s issued)
  case (Cons ev evs)
  obtain now s1 where now: "session_step P H ev s = (now, s1)" by (cases "session_step P H ev s")
  obtain later where later: "session_run P H evs s1 = (later, s')"
    using Cons.prems now by (auto split: prod.split_asm)
  have "hs_nonce s1 = hs_nonce s \<and> unat (hs_next_http_counter s) \<le> unat (hs_next_http_counter s1)
    \<or> (\<exists>cfg. ev = SRebind (hs_nonce s1) cfg)"
  proof (cases "\<exists>operation body cfg secret. ev = SBegin operation body cfg secret")
    case True
    then show ?thesis using now by (auto simp: begin_request_Inr(2,3) split: sum.split_asm)
  next
    case False
    then show ?thesis using session_step_other[OF _ now] by auto
  qed
  moreover have "set (rebind_nonces evs) \<subseteq> set (rebind_nonces (ev # evs))" by (cases ev) auto
  ultimately show ?case using Cons.IH[OF later] by auto
qed simp

lemma session_step_issued:
  assumes "session_step P H ev s = ([p], s')"
  shows "p = (hs_nonce s, hs_next_http_counter s) \<and> hs_nonce s' = hs_nonce s
    \<and> unat (hs_next_http_counter s') = unat (hs_next_http_counter s) + 1"
proof (cases "\<exists>operation body cfg secret. ev = SBegin operation body cfg secret")
  case True
  then show ?thesis using assms by (auto simp: begin_request_Inr(1-3) split: sum.split_asm)
next
  case False
  then show ?thesis using session_step_other[OF _ assms] by auto
qed

section \<open>The identity document\<close>

definition credential_text :: "credential_source \<Rightarrow> rust_str" where
  "credential_text c = (case c of DevelopmentFallback \<Rightarrow> str ''development-fallback''
     | BuildProvisioned \<Rightarrow> str ''build-provisioned'' | DeviceStored \<Rightarrow> str ''device-stored'')"

lemma parse_credential_source_Some: "parse_credential_source v = Some c \<longleftrightarrow> v = credential_text c"
  by (cases c) (auto simp: parse_credential_source_def credential_text_def str_def)

lemma identity_texts:
  "parse_credential_source (credential_text c) = Some c"
  "length bs = n \<Longrightarrow> decode_exact_lower_hex n (lower_hex bs) = Inr bs"
  by (simp_all add: parse_credential_source_Some decode_exact_lower_hex_Inr)

text \<open>The one wire record of an identity, and what a valid identity satisfies.\<close>

definition identity_wire :: "device_identity \<Rightarrow> device_identity_wire" where
  "identity_wire d = \<lparr>dw_protocol_version = 1, dw_board_id = di_board_id d,
     dw_credential_source = credential_text (di_credential_source d),
     dw_production_armable = production_armable (di_credential_source d),
     dw_device_id = lower_hex (di_device_id d), dw_capability_digest = lower_hex (di_capability_digest d),
     dw_capability_document_bytes = di_capability_bytes d, dw_interface_bundle_format = str ''alumina-web-bundle-v2'',
     dw_interface_commit = lower_hex (ib_commit (di_interface_bundle d)),
     dw_interface_bundle_sha256 = lower_hex (ib_digest (di_interface_bundle d))\<rparr>"

definition identity_ok :: "u32 \<Rightarrow> u32 \<Rightarrow> device_identity \<Rightarrow> bool" where
  "identity_ok minimum maximum d \<longleftrightarrow>
     di_board_id d \<noteq> [] \<and> length (di_board_id d) \<le> 64 \<and> list_all board_id_byte (di_board_id d)
     \<and> length (di_device_id d) = 16 \<and> \<not> all_zero (di_device_id d)
     \<and> length (di_capability_digest d) = 32 \<and> \<not> all_zero (di_capability_digest d)
     \<and> minimum \<le> di_capability_bytes d \<and> di_capability_bytes d \<le> maximum
     \<and> length (ib_commit (di_interface_bundle d)) = 20 \<and> \<not> all_zero (ib_commit (di_interface_bundle d))
     \<and> length (ib_digest (di_interface_bundle d)) = 32 \<and> \<not> all_zero (ib_digest (di_interface_bundle d))"

section \<open>Properties\<close>

text \<open>
  C31. The public identity document is canonical: it decodes to an identity
  exactly when its length is in bounds, the identity is well formed, and the JSON members are the one
  rendering of that identity, with lowercase hexadecimal of exact length, a credential source that
  agrees with its production eligibility, version 1 and the supported bundle format.
\<close>

theorem device_identity_decides:
  "decode_device_identity json minimum maximum bytes = Inr d \<longleftrightarrow>
     0 < length bytes \<and> length bytes \<le> 512 \<and> json bytes = Some (identity_wire d) \<and> identity_ok minimum maximum d"
proof
  assume "decode_device_identity json minimum maximum bytes = Inr d"
  then show "0 < length bytes \<and> length bytes \<le> 512 \<and> json bytes = Some (identity_wire d) \<and> identity_ok minimum maximum d"
    by (auto simp: decode_device_identity_def parse_credential_source_Some decode_exact_lower_hex_Inr
        identity_wire_def identity_ok_def not_less split: if_split_asm)
next
  assume "0 < length bytes \<and> length bytes \<le> 512 \<and> json bytes = Some (identity_wire d) \<and> identity_ok minimum maximum d"
  then show "decode_device_identity json minimum maximum bytes = Inr d"
    by (simp add: decode_device_identity_def identity_texts identity_wire_def identity_ok_def not_less
        del: and_then_Inr and_then_Inl)
qed

definition demo_auth :: "(nat, unit, bytes, unit) auth_api" where
  "demo_auth = \<lparr>au_sign_request = (\<lambda>secret _ _ _ _ _. Inr secret), au_write_lower_hex = (\<lambda>tag. Inr tag),
     au_parse_request_proof = (\<lambda>counter tag. Inr (word_of_nat (nat_from_le counter), tag)),
     au_verify_response_proof = (\<lambda>secret _ _ tag _ _ _ _. if tag = secret then Inr () else Inl ())\<rparr>"

lemma demo_begin:
  "hs_pending s = None \<Longrightarrow> unat (hs_next_http_counter s) < u64_max \<Longrightarrow> length body \<le> 100 \<Longrightarrow>
   \<exists>r s'. begin_request_for_config demo_protocol demo_auth operation body cfg secret s = Inr (r, s')"
  by (simp add: begin_request_for_config_def Let_def checked_add_u64_def encode_request_def body_length_def payload_length_def
      checked_add_u32_def maximum_payload_bytes_def u32_max_def demo_protocol_def demo_auth_def unat_of_nat
      word_le_nat_alt unat_word_ariths)

text \<open>
  C13. A spent counter comes back only through a rebinding to the same nonce. Take two requests a session
  issues under one boot nonce, with anything at all done between them: any bodies, secrets, responses,
  abandoned requests and rebindings. Then the later one carries a strictly greater counter, unless the session
  was asked in between to rebind to that very nonce. The exception is real:
  \<^verbatim>\<open>rebind_same_nonce_reuses_counter\<close> exhibits it.
\<close>

theorem counter_reused_only_after_rebind:
  assumes "session_step P H first s = ([p], s1)" and "session_run P H evs s1 = (issued, s2)"
    and "session_step P H second s2 = ([q], s3)" and "fst p = fst q"
  shows "unat (snd p) < unat (snd q) \<or> fst p \<in> set (rebind_nonces evs)"
  using session_step_issued[OF assms(1)] session_run_monotone[OF assms(2)] session_step_issued[OF assms(3)] assms(4)
  by auto

text \<open>The rebinding in the middle is refused, a request being pending; the abandoned request spends counter 2.\<close>

theorem counter_reused_only_after_rebind_witness:
  "\<exists>p q s1 s2 s3. session_step demo_protocol demo_auth (SBegin StorageInspect [] 0 [7]) (new_session 3 0 ()) = ([p], s1)
     \<and> session_run demo_protocol demo_auth [SAbandon, SBegin StorageInspect [] 0 [7], SRebind 4 0, SAbandon] s1 = ([(3, 2)], s2)
     \<and> session_step demo_protocol demo_auth (SBegin StorageInspect [] 0 [7]) s2 = ([q], s3)
     \<and> fst p = 3 \<and> fst q = 3 \<and> unat (snd p) < unat (snd q)"
proof -
  let ?request = "SBegin StorageInspect [] 0 [7] :: nat session_event"
  let ?evs = "[SAbandon, ?request, SRebind 4 0, SAbandon]"
  let ?s = "\<lambda>c k sequence pending. \<lparr>hs_nonce = 3 :: nat, hs_origin = (), hs_next_http_counter = c, hs_next_sequence = sequence,
     hs_next_correlation = k, hs_config_digest = 0, hs_pending = pending\<rparr>"
  let ?pq = "\<lambda>c k sequence. Some \<lparr>pq_operation = StorageInspect, pq_sequence = sequence, pq_correlation = k,
     pq_http_counter = c, pq_config_digest = 0\<rparr>"
  note unfold = begin_request_for_config_def Let_def checked_add_u64_def encode_request_def body_length_def payload_length_def
      checked_add_u32_def maximum_payload_bytes_def u32_max_def u64_max_def demo_protocol_def demo_auth_def
      new_session_def abandon_session_def rebind_boot_def
  have step1: "session_step demo_protocol demo_auth ?request (new_session 3 0 ()) = ([(3, 1)], ?s 2 2 1 (?pq 1 1 0))"
    by (simp add: unfold del: and_then_Inr and_then_Inl)
  have between: "session_run demo_protocol demo_auth ?evs (?s 2 2 1 (?pq 1 1 0)) = ([(3, 2)], ?s 3 3 2 None)"
    by (simp add: unfold del: and_then_Inr and_then_Inl)
  have step2: "session_step demo_protocol demo_auth ?request (?s 3 3 2 None) = ([(3, 3)], ?s 4 4 3 (?pq 3 3 2))"
    by (simp add: unfold del: and_then_Inr and_then_Inl)
  from counter_reused_only_after_rebind[OF step1 between step2]
  have "unat (snd (3 :: nat, 1 :: u64)) < unat (snd (3 :: nat, 3 :: u64))" by simp
  with step1 between step2 show ?thesis by fastforce
qed

text \<open>
  C14. Input that does not prove itself cannot touch a session: presenting a
  response changes the session or yields a result only if its proof verifies, under the session's
  nonce and origin, for the counter of the pending request and the exact status, media and body; the
  pending request is then consumed, nothing else changes, and a result is the body of a status 200
  native frame that decodes as the answer to that request.
\<close>

theorem only_authentic_responses:
  assumes "accept_http_response P H r secret s = (result, s')" and "s' \<noteq> s \<or> is_ok result"
  shows "\<exists>pending tag. hs_pending s = Some pending
    \<and> au_parse_request_proof H (ap_counter_header r) (ap_authorization_header r) = Inr (pq_http_counter pending, tag)
    \<and> au_verify_response_proof H secret (hs_nonce s) (pq_http_counter pending) tag (ap_http_status r) (ap_media r)
        (hs_origin s) (ap_body r) = Inr ()
    \<and> s' = s\<lparr>hs_pending := None\<rparr>
    \<and> (if is_ok result then ap_http_status r = 200 \<and> ap_media r = MediaNativeFrame
         \<and> map_err HE_Response (decode_response P (ap_body r) (pq_operation pending) (pq_sequence pending)
             (pq_correlation pending) (pq_config_digest pending)) = result
       else True)"
  using assms
  by (auto simp: accept_http_response_def authenticate_response_def open_response_def split: sum.split_asm if_split_asm prod.split_asm)

theorem only_authentic_responses_witness:
  "hs_pending (snd (accept_http_response demo_protocol demo_auth
      \<lparr>ap_http_status = 503, ap_media = MediaJson, ap_counter_header = [1], ap_authorization_header = [7], ap_body = []\<rparr> [7]
      ((new_session 3 0 ())\<lparr>hs_pending := Some \<lparr>pq_operation = StorageInspect, pq_sequence = 0, pq_correlation = 1,
         pq_http_counter = 1, pq_config_digest = 0\<rparr>\<rparr>))) = None"
proof -
  let ?r = "\<lparr>ap_http_status = 503, ap_media = MediaJson, ap_counter_header = [1], ap_authorization_header = [7], ap_body = []\<rparr>"
  let ?s = "(new_session 3 0 ())\<lparr>hs_pending := Some \<lparr>pq_operation = StorageInspect, pq_sequence = 0, pq_correlation = 1,
         pq_http_counter = 1, pq_config_digest = 0\<rparr>\<rparr>"
  have "accept_http_response demo_protocol demo_auth ?r [7] ?s = (Inl (HE_HttpStatus 503), ?s\<lparr>hs_pending := None\<rparr>)"
    by (simp add: accept_http_response_def authenticate_response_def open_response_def demo_auth_def)
  note run = this
  have "?s\<lparr>hs_pending := None\<rparr> \<noteq> ?s" by (simp add: new_session_def)
  then have "?s\<lparr>hs_pending := None\<rparr> \<noteq> ?s \<or> is_ok (Inl (HE_HttpStatus 503) :: (unit, unit, unit) http_session_error + client_response)" by blast
  from only_authentic_responses[OF run this] show ?thesis unfolding run by simp
qed

text \<open>
  The exception for a rebinding to the nonce already in use is needed: it restarts the
  counter at one, and a spent counter is issued again.
\<close>

lemma rebind_same_nonce_reuses_counter:
  "fst (session_run demo_protocol demo_auth
     [SBegin StorageInspect [] 0 [7], SAbandon, SRebind 3 0, SBegin StorageInspect [] 0 [7]] (new_session 3 0 ())) = [(3, 1), (3, 1)]"
  by (simp add: begin_request_for_config_def Let_def checked_add_u64_def encode_request_def body_length_def payload_length_def
      checked_add_u32_def maximum_payload_bytes_def u32_max_def u64_max_def demo_protocol_def demo_auth_def
      new_session_def abandon_session_def rebind_boot_def del: and_then_Inr and_then_Inl)

end
