(* ===== verification/Cache_Delivery.thy ===== *)
theory Cache_Delivery
  imports Cache_Upload Http_Session
begin

text \<open>
  From a packaged job to the device. The chunked storage that
  \<^verbatim>\<open>crates/alumina-interface-core/src/partition.rs\<close> and \<^verbatim>\<open>global_job.rs\<close> build, the
  delivery of one participant of \<^verbatim>\<open>src/cache_delivery.rs\<close>, which uploads the partition and
  then the global manifest, and the step of \<^verbatim>\<open>crates/alumina-interface-client/src/wasm.rs\<close>
  that drives an upload over an authenticated session.
\<close>

section \<open>Chunked storage\<close>

text \<open>The three fields of a compile policy that reach storage, and the packaged object.\<close>

record 'l storage_policy =
  sp_upload_id :: upload_id
  sp_storage_chunk_bytes :: u32
  sp_cache_limits :: 'l

record storage_chunk =
  sc_offset :: nat
  sc_byte_len :: u32
  sc_content :: content_id

record chunked_storage =
  cs_bytes :: bytes
  cs_chunks :: "storage_chunk list"
  cs_upload_plan :: upload_plan
  cs_publication :: published_object

datatype 'se packaging_error = PK_CounterOverflow | PK_DigestMismatch | PK_Storage 'se | PK_Panic

text \<open>Rust's \<^verbatim>\<open>chunks\<close>; it panics on a chunk size of zero.\<close>

function slice_chunks :: "nat \<Rightarrow> bytes \<Rightarrow> bytes list" where
  "slice_chunks n bs = (if bs = [] \<or> n = 0 then [] else take n bs # slice_chunks n (drop n bs))"
  by pat_completeness auto

termination slice_chunks
  by (relation "measure (\<lambda>(n, bs). length bs)") auto

declare slice_chunks.simps [simp del]

definition div_ceil :: "nat \<Rightarrow> nat \<Rightarrow> nat" where
  "div_ceil a b = a div b + (if a mod b = 0 then 0 else 1)"

text \<open>The loop body: hash one chunk, extend the manifest, remember where the chunk lies.\<close>

definition store_chunk ::
  "('l, 'h, 'se, 'we) storage_api \<Rightarrow> 'h \<times> storage_chunk list \<times> nat \<Rightarrow> nat \<times> bytes
     \<Rightarrow> 'se packaging_error + 'h \<times> storage_chunk list \<times> nat" where
  "store_chunk A st entry = (case st of (manifest, chunks, offset) \<Rightarrow> case entry of (index, chunk) \<Rightarrow>
     if u32_max < index then Inl PK_CounterOverflow
     else if u32_max < length chunk then Inl PK_CounterOverflow
     else let byte_len = word_of_nat (length chunk); content = st_sha256 A chunk in
     and_then (map_err PK_Storage (st_manifest_push A manifest (word_of_nat index) content byte_len)) (\<lambda>manifest.
     let chunks = chunks @ [\<lparr>sc_offset = offset, sc_byte_len = byte_len, sc_content = content\<rparr>] in
     and_then (ok_or PK_CounterOverflow (checked_add_usize offset (length chunk))) (\<lambda>offset.
     Inr (manifest, chunks, offset))))"

text \<open>
  \<^verbatim>\<open>build_partition_storage\<close>, and with the other object kind the same lines of
  \<^verbatim>\<open>compile_global_job\<close>, which compare the object with the digest of the manifest first.
\<close>

definition build_storage ::
  "('l, 'h, 'se, 'we) storage_api \<Rightarrow> object_kind \<Rightarrow> bytes \<Rightarrow> 'l storage_policy \<Rightarrow> 'se packaging_error + chunked_storage" where
  "build_storage A kind bytes policy =
     (if u64_max < length bytes then Inl PK_CounterOverflow
      else let object = \<lparr>so_kind = kind, so_content = st_sha256 A bytes, so_byte_len = word_of_nat (length bytes)\<rparr>;
        chunk_bytes = unat (sp_storage_chunk_bytes policy) in
      if chunk_bytes = 0 then Inl PK_Panic
      else if u32_max < div_ceil (length bytes) chunk_bytes then Inl PK_CounterOverflow
      else let chunk_count = word_of_nat (div_ceil (length bytes) chunk_bytes) in
      and_then (map_err PK_Storage (st_manifest_new A object (sp_storage_chunk_bytes policy) chunk_count
          (sp_cache_limits policy))) (\<lambda>manifest.
      and_then (try_fold (store_chunk A) (manifest, [], 0) (enumerate 0 (slice_chunks chunk_bytes bytes)))
        (\<lambda>(manifest, chunks, offset).
      and_then (map_err PK_Storage (st_manifest_finalize A manifest)) (\<lambda>manifest.
      let plan = \<lparr>up_upload_id = sp_upload_id policy, up_object = object, up_manifest = manifest,
        up_chunk_bytes = sp_storage_chunk_bytes policy, up_chunk_count = chunk_count\<rparr> in
      and_then (map_err PK_Storage (st_validate_plan A plan (sp_cache_limits policy))) (\<lambda>_.
      Inr \<lparr>cs_bytes = bytes, cs_chunks = chunks, cs_upload_plan = plan,
        cs_publication = \<lparr>po_object = object, po_manifest = manifest\<rparr>\<rparr>)))))"

definition build_partition_storage ::
  "('l, 'h, 'se, 'we) storage_api \<Rightarrow> bytes \<Rightarrow> 'l storage_policy \<Rightarrow> 'se packaging_error + chunked_storage" where
  "build_partition_storage A = build_storage A MachineJobPartition"

definition build_manifest_storage ::
  "('l, 'h, 'se, 'we) storage_api \<Rightarrow> content_id \<Rightarrow> bytes \<Rightarrow> 'l storage_policy \<Rightarrow> 'se packaging_error + chunked_storage" where
  "build_manifest_storage A global_job_digest bytes policy =
     (if u64_max < length bytes then Inl PK_CounterOverflow
      else if st_sha256 A bytes \<noteq> global_job_digest then Inl PK_DigestMismatch
      else build_storage A MachineJobManifest bytes policy)"

lemma build_manifest_storage_Inr:
  "build_manifest_storage A digest bs policy = Inr st \<Longrightarrow> build_storage A MachineJobManifest bs policy = Inr st"
  by (simp add: build_manifest_storage_def split: if_split_asm)

text \<open>The slice of the object that a chunk names.\<close>

definition stored_chunk_bytes :: "chunked_storage \<Rightarrow> nat \<Rightarrow> bytes option" where
  "stored_chunk_bytes st index =
     (if length (cs_chunks st) \<le> index then None
      else let chunk = cs_chunks st ! index in
      (case checked_add_usize (sc_offset chunk) (unat (sc_byte_len chunk)) of
         None \<Rightarrow> None
       | Some stop \<Rightarrow> if length (cs_bytes st) < stop then None else Some (byte_slice (sc_offset chunk, stop) (cs_bytes st))))"

definition stored_chunk_header :: "upload_id \<Rightarrow> chunked_storage \<Rightarrow> nat \<Rightarrow> chunk_upload_header option" where
  "stored_chunk_header upload st index =
     (if length (cs_chunks st) \<le> index then None
      else if u32_max < index then None
      else Some \<lparr>ch_upload_id = upload, ch_index = word_of_nat index, ch_byte_len = sc_byte_len (cs_chunks st ! index),
        ch_content = sc_content (cs_chunks st ! index)\<rparr>)"

section \<open>The two sources of a participant\<close>

text \<open>Of a partition, a participant and a job, the fields that the delivery reads.\<close>

record 'l machine_partition =
  mp_policy :: "'l storage_policy"
  mp_storage :: chunked_storage

record 'l job_participant =
  jp_device_id :: bytes
  jp_partition :: "'l machine_partition"

record 'l global_job =
  gj_policy :: "'l storage_policy"
  gj_participants :: "'l job_participant list"
  gj_manifest :: chunked_storage

definition partition_source :: "'l machine_partition \<Rightarrow> upload_source" where
  "partition_source p = \<lparr>us_upload_plan = cs_upload_plan (mp_storage p),
     us_chunk_header = (\<lambda>index. stored_chunk_header (sp_upload_id (mp_policy p)) (mp_storage p) (unat index)),
     us_chunk_bytes = (\<lambda>index. stored_chunk_bytes (mp_storage p) (unat index))\<rparr>"

definition upload_plan_for ::
  "('l, 'h, 'se, 'we) storage_api \<Rightarrow> 'l global_job \<Rightarrow> upload_id \<Rightarrow> 'se + upload_plan" where
  "upload_plan_for A job upload =
     (let plan = \<lparr>up_upload_id = upload, up_object = po_object (cs_publication (gj_manifest job)),
        up_manifest = po_manifest (cs_publication (gj_manifest job)),
        up_chunk_bytes = up_chunk_bytes (cs_upload_plan (gj_manifest job)),
        up_chunk_count = up_chunk_count (cs_upload_plan (gj_manifest job))\<rparr> in
      and_then (st_validate_plan A plan (sp_cache_limits (gj_policy job))) (\<lambda>_. Inr plan))"

definition manifest_source :: "'l global_job \<Rightarrow> upload_plan \<Rightarrow> upload_source" where
  "manifest_source job plan = \<lparr>us_upload_plan = plan,
     us_chunk_header = (\<lambda>index. if length (cs_chunks (gj_manifest job)) \<le> unat index then None
       else let chunk = cs_chunks (gj_manifest job) ! unat index in
         Some \<lparr>ch_upload_id = up_upload_id plan, ch_index = index, ch_byte_len = sc_byte_len chunk,
           ch_content = sc_content chunk\<rparr>),
     us_chunk_bytes = (\<lambda>index. stored_chunk_bytes (gj_manifest job) (unat index))\<rparr>"

definition try_new_manifest_source ::
  "('l, 'h, 'se, 'we) storage_api \<Rightarrow> 'l global_job \<Rightarrow> upload_id \<Rightarrow> 'se + upload_source" where
  "try_new_manifest_source A job upload =
     and_then (upload_plan_for A job upload) (\<lambda>plan. Inr (manifest_source job plan))"

section \<open>The delivery of one participant\<close>

datatype participant_cache_phase =
    CachePartition cache_upload_phase | CacheGlobalManifest cache_upload_phase | CacheComplete

record cache_ready =
  cr_device_id :: bytes
  cr_partition :: published_object
  cr_global_manifest :: published_object

datatype ('se, 'we) delivery_error =
    DE_Participant
  | DE_Pending
  | DE_GlobalJob 'se
  | DE_Upload "('se, 'we) upload_error"

record 'l cache_delivery =
  cd_participant_index :: nat
  cd_device_id :: bytes
  cd_manifest_upload_id :: upload_id
  cd_partition :: "'l upload_machine"
  cd_manifest :: "'l upload_machine"

definition from_reconciled ::
  "bytes \<Rightarrow> published_object \<Rightarrow> published_object \<Rightarrow> ('se, 'we) delivery_error + cache_ready" where
  "from_reconciled device part manifest =
     (if list_all (\<lambda>b. b = 0) device \<or> so_kind (po_object part) \<noteq> MachineJobPartition
        \<or> so_kind (po_object manifest) \<noteq> MachineJobManifest
      then Inl DE_Participant
      else Inr \<lparr>cr_device_id = device, cr_partition = part, cr_global_manifest = manifest\<rparr>)"

definition nth_participant :: "'l global_job \<Rightarrow> nat \<Rightarrow> ('se, 'we) delivery_error + 'l job_participant" where
  "nth_participant job i =
     (if i < length (gj_participants job) then Inr (gj_participants job ! i) else Inl DE_Participant)"

definition try_new_delivery ::
  "('l, 'h, 'se, 'we) storage_api \<Rightarrow> 'l global_job \<Rightarrow> nat \<Rightarrow> upload_id \<Rightarrow> ('se, 'we) delivery_error + 'l cache_delivery" where
  "try_new_delivery A job index upload =
     and_then (nth_participant job index) (\<lambda>participant.
     and_then (map_err DE_Upload (new_machine A (partition_source (jp_partition participant))
         (sp_cache_limits (mp_policy (jp_partition participant))))) (\<lambda>partition.
     and_then (map_err DE_GlobalJob (try_new_manifest_source A job upload)) (\<lambda>source.
     and_then (map_err DE_Upload (new_machine A source (sp_cache_limits (gj_policy job)))) (\<lambda>manifest.
     Inr \<lparr>cd_participant_index = index, cd_device_id = jp_device_id participant, cd_manifest_upload_id = upload,
       cd_partition = partition, cd_manifest = manifest\<rparr>))))"

definition delivery_phase :: "'l cache_delivery \<Rightarrow> participant_cache_phase" where
  "delivery_phase d =
     (if machine_phase (cd_partition d) = PhaseComplete then
        (if machine_phase (cd_manifest d) = PhaseComplete then CacheComplete
         else CacheGlobalManifest (machine_phase (cd_manifest d)))
      else CachePartition (machine_phase (cd_partition d)))"

definition readiness :: "'l cache_delivery \<Rightarrow> cache_ready option" where
  "readiness d =
     (if delivery_phase d = CacheComplete
      then Some \<lparr>cr_device_id = cd_device_id d, cr_partition = publication_of (um_plan (cd_partition d)),
        cr_global_manifest = publication_of (um_plan (cd_manifest d))\<rparr>
      else None)"

definition delivery_participant :: "'l global_job \<Rightarrow> 'l cache_delivery \<Rightarrow> ('se, 'we) delivery_error + 'l job_participant" where
  "delivery_participant job d =
     and_then (nth_participant job (cd_participant_index d)) (\<lambda>participant.
     if jp_device_id participant \<noteq> cd_device_id d then Inl DE_Participant else Inr participant)"

definition delivery_next_request ::
  "('l, 'h, 'se, 'we) storage_api \<Rightarrow> 'l global_job \<Rightarrow> 'l cache_delivery
     \<Rightarrow> ('se, 'we) delivery_error + upload_operation option \<times> 'l cache_delivery" where
  "delivery_next_request A job d =
     and_then (delivery_participant job d) (\<lambda>participant.
     if machine_phase (cd_partition d) \<noteq> PhaseComplete then
       and_then (map_err DE_Upload (next_request A (partition_source (jp_partition participant)) (cd_partition d)))
         (\<lambda>(op, m). Inr (op, d\<lparr>cd_partition := m\<rparr>))
     else if machine_phase (cd_manifest d) \<noteq> PhaseComplete then
       and_then (map_err DE_GlobalJob (try_new_manifest_source A job (cd_manifest_upload_id d))) (\<lambda>source.
       and_then (map_err DE_Upload (next_request A source (cd_manifest d))) (\<lambda>(op, m).
       Inr (op, d\<lparr>cd_manifest := m\<rparr>)))
     else Inr (None, d))"

definition delivery_accept_response ::
  "('l, 'h, 'se, 'we) storage_api \<Rightarrow> client_response \<Rightarrow> 'l cache_delivery
     \<Rightarrow> (('se, 'we) delivery_error + unit) \<times> 'l cache_delivery" where
  "delivery_accept_response A r d =
     (if um_pending (cd_partition d) \<noteq> None \<and> um_pending (cd_manifest d) = None then
        (case accept_response A r (cd_partition d) of (result, m) \<Rightarrow> (map_err DE_Upload result, d\<lparr>cd_partition := m\<rparr>))
      else if um_pending (cd_partition d) = None \<and> um_pending (cd_manifest d) \<noteq> None then
        (case accept_response A r (cd_manifest d) of (result, m) \<Rightarrow> (map_err DE_Upload result, d\<lparr>cd_manifest := m\<rparr>))
      else (Inl DE_Pending, d))"

definition delivery_abandon_pending :: "'l cache_delivery \<Rightarrow> bool \<times> 'l cache_delivery" where
  "delivery_abandon_pending d =
     (case abandon_pending (cd_partition d) of (a, p) \<Rightarrow>
      case abandon_pending (cd_manifest d) of (b, m) \<Rightarrow> (a \<or> b, d\<lparr>cd_partition := p, cd_manifest := m\<rparr>))"

text \<open>The collection stops at the first participant that cannot be bound.\<close>

fun try_map :: "('a \<Rightarrow> 'e + 'b) \<Rightarrow> 'a list \<Rightarrow> 'e + 'b list" where
  "try_map f [] = Inr []"
| "try_map f (x # xs) = and_then (f x) (\<lambda>y. and_then (try_map f xs) (\<lambda>ys. Inr (y # ys)))"

definition prepare_global_cache_delivery ::
  "('l, 'h, 'se, 'we) storage_api \<Rightarrow> 'l global_job \<Rightarrow> upload_id list \<Rightarrow> ('se, 'we) delivery_error + 'l cache_delivery list" where
  "prepare_global_cache_delivery A job uploads =
     (if length uploads \<noteq> length (gj_participants job) then Inl DE_Participant
      else try_map (\<lambda>(index, upload). try_new_delivery A job index upload) (enumerate 0 uploads))"

section \<open>The packaged chunks\<close>

lemma div_ceil_step: "0 < n \<Longrightarrow> 0 < a \<Longrightarrow> div_ceil a n = Suc (div_ceil (a - n) n)"
proof -
  assume n: "0 < n" and a: "0 < a"
  show ?thesis
  proof (cases "a < n")
    case True
    with a show ?thesis by (simp add: div_ceil_def)
  next
    case False
    with n show ?thesis by (simp add: div_ceil_def le_div_geq le_mod_geq)
  qed
qed

definition slice_at :: "nat \<Rightarrow> bytes \<Rightarrow> nat \<Rightarrow> bytes" where
  "slice_at n bs i = take n (drop (i * n) bs)"

lemma slice_chunks_eq: "0 < n \<Longrightarrow> slice_chunks n bs = map (slice_at n bs) [0..<div_ceil (length bs) n]"
proof (induction n bs rule: slice_chunks.induct)
  case (1 n bs)
  show ?case
  proof (cases "bs = []")
    case True
    then show ?thesis by (simp add: slice_chunks.simps[of n "[]"] div_ceil_def)
  next
    case False
    then have "div_ceil (length bs) n = Suc (div_ceil (length (drop n bs)) n)"
      using div_ceil_step[of n "length bs"] 1(2) by simp
    moreover have "slice_at n bs (Suc i) = slice_at n (drop n bs) i" for i by (simp add: slice_at_def add.commute)
    ultimately show ?thesis
      using False 1 by (simp add: slice_chunks.simps[of n bs] upt_conv_Cons map_Suc_upt[symmetric] slice_at_def[of n bs 0] comp_def
        del: upt_Suc)
  qed
qed

lemma slice_index: "0 < n \<Longrightarrow> i < div_ceil len n \<longleftrightarrow> i * n < len"
proof (induction i arbitrary: len)
  case 0
  then show ?case by (cases "len = 0") (auto simp: div_ceil_def dest: div_ceil_step[of n len] simp del: gr0I)
next
  case (Suc i)
  show ?case
  proof (cases "len = 0")
    case False
    then have "div_ceil len n = Suc (div_ceil (len - n) n)" using div_ceil_step Suc.prems by simp
    then show ?thesis using Suc.IH[of "len - n"] Suc.prems by (simp add: less_diff_conv add.commute)
  qed (simp add: div_ceil_def)
qed

lemma enumerate_slices:
  "0 < n \<Longrightarrow> enumerate 0 (slice_chunks n bs) = map (\<lambda>i. (i, slice_at n bs i)) [0..<div_ceil (length bs) n]"
  by (simp add: slice_chunks_eq enumerate_eq_zip zip_map2 zip_same_conv_map)

definition chunk_at :: "('l, 'h, 'se, 'we) storage_api \<Rightarrow> nat \<Rightarrow> bytes \<Rightarrow> nat \<Rightarrow> storage_chunk" where
  "chunk_at A n bs i = \<lparr>sc_offset = i * n, sc_byte_len = word_of_nat (length (slice_at n bs i)), sc_content = st_sha256 A (slice_at n bs i)\<rparr>"

lemma store_chunks_Inr:
  assumes "0 < n" and "k \<le> div_ceil (length bs) n"
    and "try_fold (store_chunk A) (h, [], 0) (map (\<lambda>i. (i, slice_at n bs i)) [0..<k]) = Inr (h', cs, off)"
  shows "cs = map (chunk_at A n bs) [0..<k] \<and> off = min (k * n) (length bs)"
  using assms(2,3)
proof (induction k arbitrary: h' cs off)
  case (Suc k)
  obtain h1 cs1 off1 where
    st: "try_fold (store_chunk A) (h, [], 0) (map (\<lambda>i. (i, slice_at n bs i)) [0..<k]) = Inr (h1, cs1, off1)"
    "store_chunk A (h1, cs1, off1) (k, slice_at n bs k) = Inr (h', cs, off)"
    using Suc.prems(2) by (auto simp: try_fold_append)
  have IH: "cs1 = map (chunk_at A n bs) [0..<k]" "off1 = min (k * n) (length bs)" using Suc.IH[OF _ st(1)] Suc.prems(1) by auto
  have "k * n < length bs" using Suc.prems(1) slice_index[OF assms(1), of k "length bs"] by simp
  then have off1: "off1 = k * n" using IH(2) by simp
  from st(2) have "cs = cs1 @ [chunk_at A n bs k]" "off = off1 + length (slice_at n bs k)"
    by (auto simp: store_chunk_def Let_def chunk_at_def off1 split: if_split_asm)
  then show ?case using IH(1) off1 \<open>k * n < length bs\<close> by (auto simp: slice_at_def min_def)
qed simp

lemma store_fold_hashes:
  assumes n: "n = unat (up_chunk_bytes plan)" "0 < n"
  shows "\<forall>i \<in> set is. i < unat (up_chunk_count plan) \<and> i * n < length bs \<Longrightarrow>
    try_fold (store_chunk A) (h, cs, off) (map (\<lambda>i. (i, slice_at n bs i)) is) = Inr (h', cs', off') \<Longrightarrow>
    try_fold (hash_chunk A plan bs) (h, map sc_content cs) (map word_of_nat is) = Inr (h', map sc_content cs')"
proof (induction "is" arbitrary: h cs off)
  case (Cons i "is")
  obtain h1 cs1 off1 where st: "store_chunk A (h, cs, off) (i, slice_at n bs i) = Inr (h1, cs1, off1)"
    "try_fold (store_chunk A) (h1, cs1, off1) (map (\<lambda>i. (i, slice_at n bs i)) is) = Inr (h', cs', off')"
    using Cons.prems(2) by auto
  have i: "i < unat (up_chunk_count plan)" "i * n < length bs" using Cons.prems(1) by auto
  have u: "unat (word_of_nat i :: u32) = i" using unat_chunk_number[of i plan] i(1) by simp
  have rg: "chunk_range plan (length bs) (word_of_nat i) = Some (i * n, min (i * n + n) (length bs))"
    using i n by (simp add: chunk_range_eq u word_less_nat_alt)
  have slice: "byte_slice (i * n, min (i * n + n) (length bs)) bs = slice_at n bs i"
    by (simp add: byte_slice_def slice_at_def min_def)
  have size: "min (i * n + n) (length bs) - i * n = length (slice_at n bs i)" using i(2) by (auto simp: slice_at_def min_def)
  from st(1) have push: "st_manifest_push A h (word_of_nat i) (st_sha256 A (slice_at n bs i)) (word_of_nat (length (slice_at n bs i))) = Inr h1"
    "cs1 = cs @ [\<lparr>sc_offset = off, sc_byte_len = word_of_nat (length (slice_at n bs i)), sc_content = st_sha256 A (slice_at n bs i)\<rparr>]"
    "length (slice_at n bs i) \<le> u32_max"
    by (auto simp: store_chunk_def Let_def split: if_split_asm)
  have "hash_chunk A plan bs (h, map sc_content cs) (word_of_nat i) = Inr (h1, map sc_content cs1)"
    unfolding hash_chunk_def rg using push by (simp add: slice size not_less Let_def)
  moreover have "try_fold (hash_chunk A plan bs) (h1, map sc_content cs1) (map word_of_nat is) = Inr (h', map sc_content cs')"
    using Cons.IH[OF _ st(2)] Cons.prems(1) by simp
  ultimately show ?case by simp
qed simp

text \<open>What a packaged object is, and that the client's independent check accepts it.\<close>

lemma build_storage_Inr:
  assumes "build_storage A kind bs policy = Inr st"
  obtains h h' where "cs_bytes st = bs"
    and "up_upload_id (cs_upload_plan st) = sp_upload_id policy"
    and "up_object (cs_upload_plan st) = \<lparr>so_kind = kind, so_content = st_sha256 A bs, so_byte_len = word_of_nat (length bs)\<rparr>"
    and "up_chunk_bytes (cs_upload_plan st) = sp_storage_chunk_bytes policy"
    and "up_chunk_count (cs_upload_plan st) = word_of_nat (div_ceil (length bs) (unat (sp_storage_chunk_bytes policy)))"
    and "cs_publication st = publication_of (cs_upload_plan st)"
    and "length bs \<le> u64_max" and "0 < unat (sp_storage_chunk_bytes policy)"
    and "div_ceil (length bs) (unat (sp_storage_chunk_bytes policy)) \<le> u32_max"
    and "st_manifest_new A (up_object (cs_upload_plan st)) (up_chunk_bytes (cs_upload_plan st))
      (up_chunk_count (cs_upload_plan st)) (sp_cache_limits policy) = Inr h"
    and "try_fold (hash_chunk A (cs_upload_plan st) bs) (h, []) (chunk_indices (cs_upload_plan st)) = Inr (h', map sc_content (cs_chunks st))"
    and "st_manifest_finalize A h' = Inr (up_manifest (cs_upload_plan st))"
    and "st_validate_plan A (cs_upload_plan st) (sp_cache_limits policy) = Inr ()"
    and "cs_chunks st = map (chunk_at A (unat (sp_storage_chunk_bytes policy)) bs)
      [0..<div_ceil (length bs) (unat (sp_storage_chunk_bytes policy))]"
proof -
  let ?n = "unat (sp_storage_chunk_bytes policy)"
  let ?count = "div_ceil (length bs) ?n"
  let ?object = "\<lparr>so_kind = kind, so_content = st_sha256 A bs, so_byte_len = word_of_nat (length bs)\<rparr>"
  from assms obtain h h' cs off digest where
    len: "length bs \<le> u64_max" and n: "0 < ?n" and count: "?count \<le> u32_max"
    and new: "st_manifest_new A ?object (sp_storage_chunk_bytes policy) (word_of_nat ?count) (sp_cache_limits policy) = Inr h"
    and fold: "try_fold (store_chunk A) (h, [], 0) (enumerate 0 (slice_chunks ?n bs)) = Inr (h', cs, off)"
    and fin: "st_manifest_finalize A h' = Inr digest"
    and val: "st_validate_plan A \<lparr>up_upload_id = sp_upload_id policy, up_object = ?object, up_manifest = digest,
        up_chunk_bytes = sp_storage_chunk_bytes policy, up_chunk_count = word_of_nat ?count\<rparr> (sp_cache_limits policy) = Inr ()"
    and st: "st = \<lparr>cs_bytes = bs, cs_chunks = cs, cs_upload_plan = \<lparr>up_upload_id = sp_upload_id policy, up_object = ?object,
        up_manifest = digest, up_chunk_bytes = sp_storage_chunk_bytes policy, up_chunk_count = word_of_nat ?count\<rparr>,
        cs_publication = \<lparr>po_object = ?object, po_manifest = digest\<rparr>\<rparr>"
    by (auto simp: build_storage_def Let_def not_less split: if_split_asm)
  note fold = fold[unfolded enumerate_slices[OF n]]
  have chunks: "cs = map (chunk_at A ?n bs) [0..<?count]" using store_chunks_Inr[OF n order.refl fold] by blast
  have u: "unat (word_of_nat ?count :: u32) = ?count" using count by (simp add: unat_of_nat u32_max_def)
  have "chunk_indices (cs_upload_plan st) = map word_of_nat [0..<?count]" by (simp add: chunk_indices_def st u)
  moreover have "try_fold (hash_chunk A (cs_upload_plan st) bs) (h, map sc_content []) (map word_of_nat [0..<?count]) = Inr (h', map sc_content cs)"
    using store_fold_hashes[of ?n "cs_upload_plan st" "[0..<?count]" bs A h "[]" 0 h' cs off] fold n
    by (simp add: st u slice_index[OF n])
  ultimately show ?thesis
    using that[of h h'] len n count new fin val chunks by (simp add: st publication_of_def)
qed

lemma packaged_revalidates:
  assumes st: "build_storage A kind bs policy = Inr st"
    and plan: "plan = (cs_upload_plan st)\<lparr>up_upload_id := upload\<rparr>"
    and valid: "st_validate_plan A plan (sp_cache_limits policy) = Inr ()"
  shows "try_new_owned A plan bs (sp_cache_limits policy)
    = Inr \<lparr>os_plan = plan, os_bytes = bs, os_chunks = map sc_content (cs_chunks st)\<rparr>"
proof -
  obtain h h' where object: "up_object (cs_upload_plan st) = \<lparr>so_kind = kind, so_content = st_sha256 A bs, so_byte_len = word_of_nat (length bs)\<rparr>"
    and b: "length bs \<le> u64_max"
    "st_manifest_new A (up_object (cs_upload_plan st)) (up_chunk_bytes (cs_upload_plan st))
      (up_chunk_count (cs_upload_plan st)) (sp_cache_limits policy) = Inr h"
    "try_fold (hash_chunk A (cs_upload_plan st) bs) (h, []) (chunk_indices (cs_upload_plan st)) = Inr (h', map sc_content (cs_chunks st))"
    "st_manifest_finalize A h' = Inr (up_manifest (cs_upload_plan st))"
    using build_storage_Inr[OF st] by metis
  have len: "unat (word_of_nat (length bs) :: u64) = length bs"
    using b(1) by (simp add: unat_of_nat u64_max_def)
  have "chunk_range plan = chunk_range (cs_upload_plan st)" by (intro ext) (simp add: chunk_range_eq plan)
  then have same: "hash_chunk A plan bs = hash_chunk A (cs_upload_plan st) bs" by (intro ext) (simp add: hash_chunk_def)
  have same': "chunk_indices plan = chunk_indices (cs_upload_plan st)" by (simp add: chunk_indices_def plan)
  show ?thesis
    unfolding try_new_owned_def valid same same'
    using b(2-4) by (simp add: plan object len del: and_then_Inr and_then_Inl)
qed

text \<open>The sources of a participant are the owned source, chunk for chunk.\<close>

lemma packaged_chunks:
  assumes st: "build_storage A kind bs policy = Inr st"
    and plan: "plan = (cs_upload_plan st)\<lparr>up_upload_id := upload\<rparr>"
    and s: "s = \<lparr>os_plan = plan, os_bytes = bs, os_chunks = map sc_content (cs_chunks st)\<rparr>"
  shows "stored_chunk_bytes st (unat i) = owned_chunk_bytes s i"
    and "stored_chunk_header upload st (unat i) = owned_chunk_header s i"
proof -
  let ?n = "unat (sp_storage_chunk_bytes policy)"
  have b: "cs_bytes st = bs" "length bs \<le> u64_max" "0 < ?n" "div_ceil (length bs) ?n \<le> u32_max"
    "cs_chunks st = map (chunk_at A ?n bs) [0..<div_ceil (length bs) ?n]"
    "up_chunk_bytes (cs_upload_plan st) = sp_storage_chunk_bytes policy"
    "up_chunk_count (cs_upload_plan st) = word_of_nat (div_ceil (length bs) ?n)"
    by (rule build_storage_Inr[OF st], assumption)+
  define count where "count = div_ceil (length bs) ?n"
  have cnt: "up_chunk_count plan = word_of_nat count" "unat (word_of_nat count :: u32) = count"
    and cb: "up_chunk_bytes plan = sp_storage_chunk_bytes policy" and uid: "up_upload_id plan = upload"
    using b(4,6,7) by (simp_all add: plan count_def unat_of_nat u32_max_def)
  have chunks: "cs_chunks st = map (chunk_at A ?n bs) [0..<count]" using b(5) by (simp add: count_def)
  have inside: "unat i < count \<longleftrightarrow> unat i * ?n < length bs" by (simp add: count_def slice_index[OF b(3)])
  have rg: "chunk_range plan (length bs) i = (if unat i < count
      then Some (unat i * ?n, min (unat i * ?n + ?n) (length bs)) else None)"
    using inside b(3) by (simp add: chunk_range_eq cb cnt word_less_nat_alt)
  have slice: "byte_slice (unat i * ?n, min (unat i * ?n + ?n) (length bs)) bs = slice_at ?n bs (unat i)"
    by (simp add: byte_slice_def slice_at_def min_def)
  have small: "length (slice_at ?n bs (unat i)) \<le> u32_max"
    using unat_u32_le[of "sp_storage_chunk_bytes policy"] by (simp add: slice_at_def)
  then have bl: "unat (word_of_nat (length (slice_at ?n bs (unat i))) :: u32) = length (slice_at ?n bs (unat i))"
    by (simp add: unat_of_nat u32_max_def)
  have ends: "unat i * ?n + length (slice_at ?n bs (unat i)) = min (unat i * ?n + ?n) (length bs)"
    "min (unat i * ?n + ?n) (length bs) - unat i * ?n = length (slice_at ?n bs (unat i))" if "unat i < count"
    using that inside by (auto simp: slice_at_def min_def)
  have room: "min (unat i * ?n + ?n) (length bs) \<le> usize_max" "min (unat i * ?n + ?n) (length bs) \<le> length bs"
    using b(2) by (simp_all add: usize_max_def u64_max_def min.coboundedI2)
  show "stored_chunk_bytes st (unat i) = owned_chunk_bytes s i"
  proof (cases "unat i < count")
    case True
    then show ?thesis
      using ends(1)[OF True] room
      by (auto simp: stored_chunk_bytes_def owned_chunk_bytes_def s rg chunks chunk_at_def bl b(1) slice not_less Let_def
          split: option.split)
  qed (simp add: stored_chunk_bytes_def owned_chunk_bytes_def s rg chunks)
  show "stored_chunk_header upload st (unat i) = owned_chunk_header s i"
  proof (cases "unat i < count")
    case True
    then show ?thesis using small unat_u32_le[of i]
      by (simp add: stored_chunk_header_def owned_chunk_header_def s rg chunks chunk_at_def ends uid not_less not_le comp_def)
  qed (simp add: stored_chunk_header_def owned_chunk_header_def s rg chunks)
qed

section \<open>The sources keep the contract\<close>

definition packaged_partition :: "('l, 'h, 'se, 'we) storage_api \<Rightarrow> 'l machine_partition \<Rightarrow> bool" where
  "packaged_partition A p \<longleftrightarrow> (\<exists>bs. build_partition_storage A bs (mp_policy p) = Inr (mp_storage p))"

definition packaged_job :: "('l, 'h, 'se, 'we) storage_api \<Rightarrow> 'l global_job \<Rightarrow> bool" where
  "packaged_job A job \<longleftrightarrow> (\<exists>bs digest. build_manifest_storage A digest bs (gj_policy job) = Inr (gj_manifest job))"

lemma div_ceil_covers: "0 < n \<Longrightarrow> a \<le> div_ceil a n * n"
  using slice_index[of n "div_ceil a n" a] by simp

lemma packaged_owned_valid:
  assumes "build_storage A kind bs policy = Inr st"
    and "plan = (cs_upload_plan st)\<lparr>up_upload_id := upload\<rparr>" and "st_validate_plan A plan (sp_cache_limits policy) = Inr ()"
  shows "owned_valid A \<lparr>os_plan = plan, os_bytes = bs, os_chunks = map sc_content (cs_chunks st)\<rparr>"
proof -
  let ?n = "unat (sp_storage_chunk_bytes policy)"
  have b: "length bs \<le> u64_max" "0 < ?n" "div_ceil (length bs) ?n \<le> u32_max"
    "so_byte_len (up_object (cs_upload_plan st)) = word_of_nat (length bs)"
    "up_chunk_bytes (cs_upload_plan st) = sp_storage_chunk_bytes policy"
    "up_chunk_count (cs_upload_plan st) = word_of_nat (div_ceil (length bs) ?n)"
    by (rule build_storage_Inr[OF assms(1)], simp)+
  have "unat (so_byte_len (up_object plan)) = length bs" "unat (up_chunk_count plan) = div_ceil (length bs) ?n"
    "unat (up_chunk_bytes plan) = ?n"
    using b by (simp_all add: assms(2) unat_of_nat u32_max_def u64_max_def)
  then show ?thesis
    using packaged_revalidates[OF assms] div_ceil_covers[OF b(2), of "length bs"] unfolding owned_valid_def by fastforce
qed

lemma partition_source_owned:
  assumes "build_partition_storage A bs (mp_policy p) = Inr (mp_storage p)"
  defines "s \<equiv> \<lparr>os_plan = cs_upload_plan (mp_storage p), os_bytes = bs, os_chunks = map sc_content (cs_chunks (mp_storage p))\<rparr>"
  shows "partition_source p = owned_source s" and "owned_valid A s"
    and "try_new_owned A (cs_upload_plan (mp_storage p)) bs (sp_cache_limits (mp_policy p)) = Inr s"
proof -
  let ?plan = "cs_upload_plan (mp_storage p)" and ?id = "sp_upload_id (mp_policy p)"
  note build = assms(1)[unfolded build_partition_storage_def]
  have id: "up_upload_id ?plan = ?id" and valid: "st_validate_plan A ?plan (sp_cache_limits (mp_policy p)) = Inr ()"
    by (rule build_storage_Inr[OF build], assumption)+
  have plan: "?plan = ?plan\<lparr>up_upload_id := ?id\<rparr>" using id by (cases ?plan) simp
  note chunks = packaged_chunks[OF build plan, of s]
  show "partition_source p = owned_source s"
    using chunks by (simp add: partition_source_def owned_source_def s_def fun_eq_iff)
  show "owned_valid A s" unfolding s_def by (rule packaged_owned_valid[OF build plan valid])
  show "try_new_owned A ?plan bs (sp_cache_limits (mp_policy p)) = Inr s"
    unfolding s_def by (rule packaged_revalidates[OF build plan valid])
qed

lemma manifest_source_owned:
  assumes "build_manifest_storage A digest bs (gj_policy job) = Inr (gj_manifest job)" and "upload_plan_for A job upload = Inr plan"
  defines "s \<equiv> \<lparr>os_plan = plan, os_bytes = bs, os_chunks = map sc_content (cs_chunks (gj_manifest job))\<rparr>"
  shows "manifest_source job plan = owned_source s" and "owned_valid A s"
    and "try_new_owned A plan bs (sp_cache_limits (gj_policy job)) = Inr s"
proof -
  note build = build_manifest_storage_Inr[OF assms(1)]
  have pub: "cs_publication (gj_manifest job) = publication_of (cs_upload_plan (gj_manifest job))"
    by (rule build_storage_Inr[OF build], assumption)
  have valid: "st_validate_plan A plan (sp_cache_limits (gj_policy job)) = Inr ()"
    and plan: "plan = (cs_upload_plan (gj_manifest job))\<lparr>up_upload_id := upload\<rparr>"
    using assms(2) pub by (auto simp: upload_plan_for_def Let_def publication_of_def)
  note chunks = packaged_chunks[OF build plan, of s]
  have "us_chunk_header (manifest_source job plan) i = stored_chunk_header upload (gj_manifest job) (unat i)" for i
    using unat_u32_le[of i] by (simp add: manifest_source_def stored_chunk_header_def plan Let_def not_less)
  then show "manifest_source job plan = owned_source s"
    using chunks by (simp add: manifest_source_def owned_source_def s_def fun_eq_iff)
  show "owned_valid A s" unfolding s_def by (rule packaged_owned_valid[OF build plan valid])
  show "try_new_owned A plan bs (sp_cache_limits (gj_policy job)) = Inr s"
    unfolding s_def by (rule packaged_revalidates[OF build plan valid])
qed

lemma owned_source_plan [simp]: "us_upload_plan (owned_source s) = os_plan s"
  by (simp add: owned_source_def)

interpretation packaged: exact_source A "packaged_partition A" partition_source
  for A :: "('l, 'h, 'se, 'we) storage_api"
proof
  fix p i assume p: "packaged_partition A p" and i: "i < up_chunk_count (us_upload_plan (partition_source p))"
  then obtain bs where "build_partition_storage A bs (mp_policy p) = Inr (mp_storage p)" by (auto simp: packaged_partition_def)
  note src = partition_source_owned[OF this]
  from owned.exact_chunk[OF src(2) i[unfolded src(1)]] show "\<exists>bs. us_chunk_bytes (partition_source p) i = Some bs
      \<and> us_chunk_header (partition_source p) i = Some (exact_header A (us_upload_plan (partition_source p)) i bs)
      \<and> length bs \<le> u32_max
      \<and> (expected_chunk_bytes (us_upload_plan (partition_source p)) i :: ('se, 'we) upload_error + u32) = Inr (word_of_nat (length bs))"
    unfolding src(1) .
qed

interpretation manifest: exact_source A "\<lambda>jp. packaged_job A (fst jp) \<and> (\<exists>upload. upload_plan_for A (fst jp) upload = Inr (snd jp))"
    "\<lambda>jp. manifest_source (fst jp) (snd jp)"
  for A :: "('l, 'h, 'se, 'we) storage_api"
proof
  fix jp :: "'l global_job \<times> upload_plan" and i
  assume jp: "packaged_job A (fst jp) \<and> (\<exists>upload. upload_plan_for A (fst jp) upload = Inr (snd jp))"
    and i: "i < up_chunk_count (us_upload_plan (manifest_source (fst jp) (snd jp)))"
  from jp obtain bs digest upload where b: "build_manifest_storage A digest bs (gj_policy (fst jp)) = Inr (gj_manifest (fst jp))"
    "upload_plan_for A (fst jp) upload = Inr (snd jp)" by (auto simp: packaged_job_def)
  note src = manifest_source_owned[OF b]
  from owned.exact_chunk[OF src(2) i[unfolded src(1)]] show "\<exists>bs. us_chunk_bytes (manifest_source (fst jp) (snd jp)) i = Some bs
      \<and> us_chunk_header (manifest_source (fst jp) (snd jp)) i = Some (exact_header A (us_upload_plan (manifest_source (fst jp) (snd jp))) i bs)
      \<and> length bs \<le> u32_max
      \<and> (expected_chunk_bytes (us_upload_plan (manifest_source (fst jp) (snd jp))) i :: ('se, 'we) upload_error + u32)
          = Inr (word_of_nat (length bs))"
    unfolding src(1) .
qed

section \<open>Runs of a delivery\<close>

text \<open>
  The events of a delivery are the upload events of whichever machine they reach; they do not say
  which. Responses are arbitrary, and abandonment happens at any time a request is out.
\<close>

definition pending_action :: "'l cache_delivery \<Rightarrow> upload_action option" where
  "pending_action d = (case um_pending (cd_partition d) of Some a \<Rightarrow> Some a | None \<Rightarrow> um_pending (cd_manifest d))"

inductive delivery_run ::
  "('l, 'h, 'se, 'we) storage_api \<Rightarrow> 'l global_job \<Rightarrow> nat \<Rightarrow> upload_id \<Rightarrow> upload_event list \<Rightarrow> 'l cache_delivery \<Rightarrow> bool"
  for A :: "('l, 'h, 'se, 'we) storage_api" and job :: "'l global_job" and index :: nat and upload :: upload_id where
  start: "try_new_delivery A job index upload = Inr d \<Longrightarrow> delivery_run A job index upload [] d"
| emit: "delivery_run A job index upload evs d \<Longrightarrow> delivery_next_request A job d = Inr (Some op, d') \<Longrightarrow>
    delivery_run A job index upload (Emitted op # evs) d'"
| accepted: "delivery_run A job index upload evs d \<Longrightarrow> pending_action d = Some a \<Longrightarrow>
    delivery_accept_response A r d = (Inr (), d') \<Longrightarrow> delivery_run A job index upload (Accepted a r # evs) d'"
| refused: "delivery_run A job index upload evs d \<Longrightarrow> pending_action d = Some a \<Longrightarrow>
    delivery_accept_response A r d = (Inl (DE_Upload e), d') \<Longrightarrow> delivery_run A job index upload (Refused a r # evs) d'"
| abandoned: "delivery_run A job index upload evs d \<Longrightarrow> delivery_abandon_pending d = (True, d') \<Longrightarrow>
    delivery_run A job index upload (Abandoned # evs) d'"

definition in_sequence ::
  "('l, 'h, 'se, 'we) storage_api \<Rightarrow> 'l global_job \<Rightarrow> nat \<Rightarrow> upload_id \<Rightarrow> upload_event list \<Rightarrow> upload_event list
     \<Rightarrow> 'l cache_delivery \<Rightarrow> bool" where
  "in_sequence A job index upload pevs mevs d \<longleftrightarrow> (\<exists>plan.
     index < length (gj_participants job) \<and> upload_plan_for A job upload = Inr plan
     \<and> cd_device_id d = jp_device_id (gj_participants job ! index)
     \<and> cd_participant_index d = index \<and> cd_manifest_upload_id d = upload
     \<and> upload_run A (partition_source (jp_partition (gj_participants job ! index)))
         (sp_cache_limits (mp_policy (jp_partition (gj_participants job ! index)))) pevs (cd_partition d)
     \<and> upload_run A (manifest_source job plan) (sp_cache_limits (gj_policy job)) mevs (cd_manifest d)
     \<and> (mevs \<noteq> [] \<longrightarrow> um_state (cd_partition d) = Completed))"

lemma phase_complete [simp]: "machine_phase m = PhaseComplete \<longleftrightarrow> um_state m = Completed"
  by (simp add: machine_phase_def split: upload_state.split)

lemma completed_not_pending: "upload_run A source limits evs m \<Longrightarrow> um_state m = Completed \<Longrightarrow> um_pending m = None"
  using upload_run_ok[of A source limits evs m] by (cases "um_pending m") (auto simp: machine_ok_def)

lemma fresh_not_pending: "upload_run A source limits [] m \<Longrightarrow> um_pending m = None"
  by (erule upload_run.cases) (auto dest: new_machine_Inr)

text \<open>At most one machine has a request out, and it says which.\<close>

lemma in_sequence_pending:
  assumes "in_sequence A job index upload pevs mevs d"
  shows "um_pending (cd_partition d) \<noteq> None \<Longrightarrow> mevs = [] \<and> um_pending (cd_manifest d) = None"
    and "um_pending (cd_manifest d) \<noteq> None \<Longrightarrow> um_state (cd_partition d) = Completed \<and> um_pending (cd_partition d) = None"
proof -
  from assms obtain plan where
    p: "upload_run A (partition_source (jp_partition (gj_participants job ! index)))
         (sp_cache_limits (mp_policy (jp_partition (gj_participants job ! index)))) pevs (cd_partition d)"
    and m: "upload_run A (manifest_source job plan) (sp_cache_limits (gj_policy job)) mevs (cd_manifest d)"
    and seq: "mevs \<noteq> [] \<longrightarrow> um_state (cd_partition d) = Completed"
    by (auto simp: in_sequence_def)
  show "mevs = [] \<and> um_pending (cd_manifest d) = None" if "um_pending (cd_partition d) \<noteq> None"
    using that completed_not_pending[OF p] seq m fresh_not_pending by metis
  show "um_state (cd_partition d) = Completed \<and> um_pending (cd_partition d) = None" if "um_pending (cd_manifest d) \<noteq> None"
    using that completed_not_pending[OF p] seq m fresh_not_pending by metis
qed

text \<open>A step of the machine whose turn it is extends the sequence.\<close>

definition takes_turn ::
  "('l, 'h, 'se, 'we) storage_api \<Rightarrow> 'l global_job \<Rightarrow> nat \<Rightarrow> upload_id \<Rightarrow> upload_event list \<Rightarrow> upload_event list
     \<Rightarrow> 'l cache_delivery \<Rightarrow> upload_event \<Rightarrow> 'l cache_delivery \<Rightarrow> bool" where
  "takes_turn A job index upload pevs mevs d ev d' \<longleftrightarrow>
     (\<exists>m. mevs = [] \<and> d' = d\<lparr>cd_partition := m\<rparr>
        \<and> (\<forall>limits. upload_run A (partition_source (jp_partition (gj_participants job ! index))) limits pevs (cd_partition d) \<longrightarrow>
             upload_run A (partition_source (jp_partition (gj_participants job ! index))) limits (ev # pevs) m))
     \<or> (\<exists>m. um_state (cd_partition d) = Completed \<and> d' = d\<lparr>cd_manifest := m\<rparr>
        \<and> (\<forall>limits plan. upload_plan_for A job upload = Inr plan \<longrightarrow>
             upload_run A (manifest_source job plan) limits mevs (cd_manifest d) \<longrightarrow>
             upload_run A (manifest_source job plan) limits (ev # mevs) m))"

lemma in_sequence_step:
  assumes "in_sequence A job index upload pevs mevs d" and "takes_turn A job index upload pevs mevs d ev d'"
  shows "\<exists>pevs' mevs'. ev # mevs @ pevs = mevs' @ pevs' \<and> in_sequence A job index upload pevs' mevs' d'"
  using assms(2) unfolding takes_turn_def
proof (elim disjE exE conjE)
  fix m assume "mevs = []" "d' = d\<lparr>cd_partition := m\<rparr>"
    "\<forall>limits. upload_run A (partition_source (jp_partition (gj_participants job ! index))) limits pevs (cd_partition d) \<longrightarrow>
      upload_run A (partition_source (jp_partition (gj_participants job ! index))) limits (ev # pevs) m"
  then show ?thesis using assms(1) by (intro exI[of _ "ev # pevs"] exI[of _ "[]"]) (auto simp: in_sequence_def)
next
  fix m assume "um_state (cd_partition d) = Completed" "d' = d\<lparr>cd_manifest := m\<rparr>"
    "\<forall>limits plan. upload_plan_for A job upload = Inr plan \<longrightarrow>
      upload_run A (manifest_source job plan) limits mevs (cd_manifest d) \<longrightarrow>
      upload_run A (manifest_source job plan) limits (ev # mevs) m"
  then show ?thesis using assms(1) by (intro exI[of _ pevs] exI[of _ "ev # mevs"]) (auto simp: in_sequence_def)
qed

lemma partition_turn:
  assumes "mevs = []" and "d' = d\<lparr>cd_partition := m\<rparr>"
    and "\<And>source limits. source = partition_source (jp_partition (gj_participants job ! index)) \<Longrightarrow>
      upload_run A source limits pevs (cd_partition d) \<Longrightarrow> upload_run A source limits (ev # pevs) m"
  shows "takes_turn A job index upload pevs mevs d ev d'"
  unfolding takes_turn_def using assms by blast

lemma manifest_turn:
  assumes "um_state (cd_partition d) = Completed" and "d' = d\<lparr>cd_manifest := m\<rparr>"
    and "\<And>source limits plan. upload_plan_for A job upload = Inr plan \<Longrightarrow> source = manifest_source job plan \<Longrightarrow>
      upload_run A source limits mevs (cd_manifest d) \<Longrightarrow> upload_run A source limits (ev # mevs) m"
  shows "takes_turn A job index upload pevs mevs d ev d'"
  unfolding takes_turn_def using assms by blast

lemma emit_turn:
  assumes "in_sequence A job index upload pevs mevs d" and "delivery_next_request A job d = Inr (Some op, d')"
  shows "takes_turn A job index upload pevs mevs d (Emitted op) d'"
proof -
  let ?p = "partition_source (jp_partition (gj_participants job ! index))"
  consider (part) m where "um_state (cd_partition d) \<noteq> Completed" "d' = d\<lparr>cd_partition := m\<rparr>"
      "next_request A ?p (cd_partition d) = Inr (Some op, m)"
    | (man) m plan where "um_state (cd_partition d) = Completed" "d' = d\<lparr>cd_manifest := m\<rparr>" "upload_plan_for A job upload = Inr plan"
      "next_request A (manifest_source job plan) (cd_manifest d) = Inr (Some op, m)"
    using assms
    by (auto simp: delivery_next_request_def delivery_participant_def nth_participant_def in_sequence_def
        try_new_manifest_source_def split: if_split_asm)
  then show ?thesis
  proof cases
    case part
    then have "mevs = []" using assms(1) by (auto simp: in_sequence_def)
    then show ?thesis using part by (intro partition_turn) (auto intro: upload_run.emit)
  next
    case man
    then show ?thesis by (intro manifest_turn) (auto intro: upload_run.emit)
  qed
qed

lemma answer_turn:
  assumes "in_sequence A job index upload pevs mevs d" and "pending_action d = Some a"
    and "delivery_accept_response A r d = (result, d')"
    and "result = Inr () \<and> ev = Accepted a r \<or> result = Inl (DE_Upload e) \<and> ev = Refused a r"
  shows "takes_turn A job index upload pevs mevs d ev d'"
proof (cases "um_pending (cd_partition d)")
  case (Some b)
  then have turn: "mevs = []" "um_pending (cd_manifest d) = None" "b = a"
    using in_sequence_pending(1)[OF assms(1)] assms(2) by (auto simp: pending_action_def)
  obtain res m where m: "accept_response A r (cd_partition d) = (res, m)" by (cases "accept_response A r (cd_partition d)")
  then have "d' = d\<lparr>cd_partition := m\<rparr>" "result = map_err DE_Upload res"
    using assms(3) Some turn(2) by (auto simp: delivery_accept_response_def)
  then show ?thesis using turn Some m assms(4)
    by (intro partition_turn) (cases res; auto intro: upload_run.accepted upload_run.refused)+
next
  case None
  then have turn: "um_pending (cd_manifest d) = Some a" using assms(2) by (simp add: pending_action_def)
  then have first: "um_state (cd_partition d) = Completed" using in_sequence_pending(2)[OF assms(1)] by simp
  obtain res m where m: "accept_response A r (cd_manifest d) = (res, m)" by (cases "accept_response A r (cd_manifest d)")
  then have "d' = d\<lparr>cd_manifest := m\<rparr>" "result = map_err DE_Upload res"
    using assms(3) None turn by (auto simp: delivery_accept_response_def)
  then show ?thesis using turn first m assms(4)
    by (intro manifest_turn) (cases res; auto intro: upload_run.accepted upload_run.refused)+
qed

lemma abandon_idle: "um_pending m = None \<Longrightarrow> abandon_pending m = (False, m)"
  by (cases m) (simp add: abandon_pending_def)

lemma abandon_turn:
  assumes "in_sequence A job index upload pevs mevs d" and "delivery_abandon_pending d = (True, d')"
  shows "takes_turn A job index upload pevs mevs d Abandoned d'"
proof (cases "um_pending (cd_partition d) = None")
  case True
  obtain b m where m: "abandon_pending (cd_manifest d) = (b, m)" by (cases "abandon_pending (cd_manifest d)")
  then have "b" "d' = d\<lparr>cd_manifest := m\<rparr>"
    using assms(2) abandon_idle[OF True] by (cases d; simp add: delivery_abandon_pending_def)+
  moreover from \<open>b\<close> m have "um_pending (cd_manifest d) \<noteq> None" by (auto simp: abandon_pending_def split: if_split_asm)
  ultimately show ?thesis
    using in_sequence_pending(2)[OF assms(1)] m by (intro manifest_turn) (auto intro: upload_run.abandoned)
next
  case False
  note turn = in_sequence_pending(1)[OF assms(1) False]
  obtain m where m: "abandon_pending (cd_partition d) = (True, m)" using False by (simp add: abandon_pending_def)
  then have "d' = d\<lparr>cd_partition := m\<rparr>"
    using assms(2) turn by (cases d) (simp add: delivery_abandon_pending_def abandon_idle)
  then show ?thesis using turn m by (intro partition_turn) (auto intro: upload_run.abandoned)
qed

lemma delivery_run_sequence:
  "delivery_run A job index upload evs d \<Longrightarrow> \<exists>pevs mevs. evs = mevs @ pevs \<and> in_sequence A job index upload pevs mevs d"
proof (induction rule: delivery_run.induct)
  case (start d)
  then show ?case
    by (auto simp: try_new_delivery_def nth_participant_def try_new_manifest_source_def in_sequence_def
        split: if_split_asm intro: upload_run.start)
next
  case (emit evs d op d')
  then obtain pevs mevs where seq: "evs = mevs @ pevs" "in_sequence A job index upload pevs mevs d" by blast
  show ?case unfolding seq(1) by (rule in_sequence_step[OF seq(2) emit_turn[OF seq(2) emit(2)]])
next
  case (accepted evs d a r d')
  then obtain pevs mevs where seq: "evs = mevs @ pevs" "in_sequence A job index upload pevs mevs d" by blast
  show ?case unfolding seq(1) by (rule in_sequence_step[OF seq(2) answer_turn[OF seq(2) accepted(2,3)]]) simp
next
  case (refused evs d a r e d')
  then obtain pevs mevs where seq: "evs = mevs @ pevs" "in_sequence A job index upload pevs mevs d" by blast
  show ?case unfolding seq(1) by (rule in_sequence_step[OF seq(2) answer_turn[OF seq(2) refused(2,3)]]) simp
next
  case (abandoned evs d d')
  then obtain pevs mevs where seq: "evs = mevs @ pevs" "in_sequence A job index upload pevs mevs d" by blast
  show ?case unfolding seq(1) by (rule in_sequence_step[OF seq(2) abandon_turn[OF seq(2) abandoned(2)]])
qed

section \<open>Driving an upload over a session\<close>

text \<open>
  The browser is a parameter: the origin it reports, and what its fetch of a signed request yields.
  Its own failures are values of \<open>'be\<close>. The device behind it is the state \<open>'d\<close>.
\<close>

record 'be http_reply =
  rp_status :: u16
  rp_content_type :: "rust_str option"
  rp_counter :: "rust_str option"
  rp_authorization :: "rust_str option"
  rp_body :: "'be + bytes"

record ('o, 'be, 'd) browser =
  br_calling_origin :: "'be + 'o"
  br_counter_header_name :: rust_str
  br_authorization_header_name :: rust_str
  br_fetch :: "authenticated_request \<Rightarrow> 'd \<Rightarrow> ('be + 'be http_reply) \<times> 'd"

datatype ('be, 'ae, 'fe, 'me) fetch_error =
    BF_Browser 'be
  | BF_DocumentOrigin
  | BF_HttpStatus u16
  | BF_MissingHeader rust_str
  | BF_Media rust_str
  | BF_Session "('ae, 'fe, 'me) http_session_error"

definition parse_media :: "rust_str \<Rightarrow> ('be, 'ae, 'fe, 'me) fetch_error + media" where
  "parse_media content_type =
     (if content_type = str ''application/vnd.alumina.frame'' then Inr MediaNativeFrame
      else if content_type = str ''application/json'' then Inr MediaJson
      else Inl (BF_Media content_type))"

text \<open>The reply as the session sees it, after the checks the browser module makes.\<close>

definition read_reply ::
  "('o, 'be, 'd) browser \<Rightarrow> 'be http_reply \<Rightarrow> ('be, 'ae, 'fe, 'me) fetch_error + authenticated_response" where
  "read_reply B reply =
     (if rp_status reply \<noteq> 200 then Inl (BF_HttpStatus (rp_status reply))
      else and_then (ok_or (BF_MissingHeader (str ''Content-Type'')) (rp_content_type reply)) (\<lambda>content_type.
      and_then (parse_media content_type) (\<lambda>media.
      and_then (ok_or (BF_MissingHeader (br_counter_header_name B)) (rp_counter reply)) (\<lambda>counter.
      and_then (ok_or (BF_MissingHeader (br_authorization_header_name B)) (rp_authorization reply)) (\<lambda>authorization.
      and_then (map_err BF_Browser (rp_body reply)) (\<lambda>body.
      Inr \<lparr>ap_http_status = rp_status reply, ap_media = media, ap_counter_header = counter,
        ap_authorization_header = authorization, ap_body = body\<rparr>))))))"

definition fetch_pending_request ::
  "('k, 'fe, 'me) protocol_api \<Rightarrow> ('n, 'o, 'g, 'ae) auth_api \<Rightarrow> ('o, 'be, 'd) browser \<Rightarrow> authenticated_request \<Rightarrow> bytes
     \<Rightarrow> ('n, 'o) http_session \<Rightarrow> 'd
     \<Rightarrow> (('be, 'ae, 'fe, 'me) fetch_error + client_response) \<times> ('n, 'o) http_session \<times> 'd" where
  "fetch_pending_request P H B req secret s d =
     (case br_calling_origin B of
        Inl e \<Rightarrow> (Inl (BF_Browser e), s, d)
      | Inr origin \<Rightarrow>
          if origin \<noteq> hs_origin s then (Inl BF_DocumentOrigin, s, d)
          else (case br_fetch B req d of
             (Inl e, d) \<Rightarrow> (Inl (BF_Browser e), s, d)
           | (Inr reply, d) \<Rightarrow> (case read_reply B reply of
                 Inl e \<Rightarrow> (Inl e, s, d)
               | Inr response \<Rightarrow> (case accept_http_response P H response secret s of
                     (result, s) \<Rightarrow> (map_err BF_Session result, s, d)))))"

datatype ('be, 'ae, 'fe, 'me, 'se, 'we) browser_delivery_error =
    BD_Upload "('se, 'we) upload_error"
  | BD_Session "('ae, 'fe, 'me) http_session_error"
  | BD_Fetch "('be, 'ae, 'fe, 'me) fetch_error"

definition drive_cache_upload_step ::
  "('l, 'h, 'se, 'we) storage_api \<Rightarrow> ('k, 'fe, 'me) protocol_api \<Rightarrow> ('n, 'o, 'g, 'ae) auth_api \<Rightarrow> ('o, 'be, 'd) browser
     \<Rightarrow> upload_source \<Rightarrow> bytes \<Rightarrow> 'l upload_machine \<times> ('n, 'o) http_session \<times> 'd
     \<Rightarrow> (('be, 'ae, 'fe, 'me, 'se, 'we) browser_delivery_error + cache_upload_phase)
        \<times> 'l upload_machine \<times> ('n, 'o) http_session \<times> 'd" where
  "drive_cache_upload_step A P H B source secret st = (case st of (m, s, d) \<Rightarrow>
     (case next_request A source m of
        Inl e \<Rightarrow> (Inl (BD_Upload e), m, s, d)
      | Inr (None, m) \<Rightarrow> (Inr PhaseComplete, m, s, d)
      | Inr (Some operation, m) \<Rightarrow>
          (case begin_request P H (uo_operation operation) (uo_body operation) secret s of
             Inl e \<Rightarrow> (Inl (BD_Session e), snd (abandon_pending m), s, d)
           | Inr (req, s) \<Rightarrow> (case fetch_pending_request P H B req secret s d of
                 (Inl e, s, d) \<Rightarrow> (Inl (BD_Fetch e), snd (abandon_pending m), snd (abandon_session s), d)
               | (Inr response, s, d) \<Rightarrow> (case accept_response A response m of
                     (Inl e, m) \<Rightarrow> (Inl (BD_Upload e), m, s, d)
                   | (Inr _, m) \<Rightarrow> (Inr (machine_phase m), m, s, d))))))"

text \<open>What a fetch that yields a response did to the session.\<close>

lemma fetch_pending_request_Inr:
  assumes "fetch_pending_request P H B req secret s d = (Inr response, s', d')"
  shows "\<exists>(r :: authenticated_response) pending tag. hs_pending s = Some pending \<and> s' = s\<lparr>hs_pending := None\<rparr>
    \<and> ap_http_status r = 200 \<and> ap_media r = MediaNativeFrame
    \<and> au_verify_response_proof H secret (hs_nonce s) (pq_http_counter pending) tag 200 MediaNativeFrame (hs_origin s) (ap_body r) = Inr ()
    \<and> decode_response P (ap_body r) (pq_operation pending) (pq_sequence pending) (pq_correlation pending) (pq_config_digest pending)
        = Inr response"
  using assms
  by (auto simp: fetch_pending_request_def accept_http_response_def authenticate_response_def open_response_def
      split: sum.split_asm if_split_asm prod.split_asm)

lemma accept_response_idle: "accept_response A r m = (res, m') \<Longrightarrow> um_pending m' = None"
  by (auto simp: accept_response_def split: option.split_asm sum.split_asm)

text \<open>The ways a step ends, for an idle machine and session.\<close>

lemma drive_step_cases:
  assumes "um_pending m = None" and "hs_pending s = None"
    and step: "drive_cache_upload_step A P H B source secret (m, s, d) = (res, m', s', d')"
  obtains (kept) "m' = m" "s' = s" "(\<exists>e. res = Inl e) \<or> res = Inr PhaseComplete \<and> um_state m = Completed"
    | (lost) e where "res = Inl e" "m' = m\<lparr>um_state := Inspecting\<rparr>" "hs_pending s' = None"
    | (answered) op req s1 response a result where "next_request A source m = Inr (Some op, m\<lparr>um_pending := Some a\<rparr>)"
      "begin_request P H (uo_operation op) (uo_body op) secret s = Inr (req, s1)"
      "fetch_pending_request P H B req secret s1 d = (Inr response, s', d')"
      "accept_response A response (m\<lparr>um_pending := Some a\<rparr>) = (result, m')"
      "res = (case result of Inl e \<Rightarrow> Inl (BD_Upload e) | Inr _ \<Rightarrow> Inr (machine_phase m'))"
proof (cases "next_request A source m")
  case (Inl e)
  then show ?thesis using kept step by (auto simp: drive_cache_upload_step_def)
next
  case (Inr nm)
  obtain op m1 where nm: "nm = (op, m1)" by (cases nm)
  show ?thesis
  proof (cases op)
    case None
    then have "m1 = m" "um_state m = Completed"
      using Inr nm assms(1) by (auto simp: next_request_def split: if_split_asm upload_state.split_asm)
    then show ?thesis using kept step Inr nm None by (auto simp: drive_cache_upload_step_def)
  next
    case (Some o1)
    from next_request_Inr[of A source m o1 m1] Inr nm Some obtain a where m1: "m1 = m\<lparr>um_pending := Some a\<rparr>" by auto
    have gone: "snd (abandon_pending m1) = m\<lparr>um_state := Inspecting\<rparr>"
      using assms(1) by (cases m) (simp add: m1 abandon_pending_def)
    show ?thesis
    proof (cases "begin_request P H (uo_operation o1) (uo_body o1) secret s")
      case (Inl e)
      then show ?thesis using lost step \<open>next_request A source m = Inr nm\<close> nm Some gone assms(2) by (auto simp: drive_cache_upload_step_def)
    next
      case (Inr rs)
      obtain req s1 where rs: "rs = (req, s1)" by (cases rs)
      obtain result s2 d2 where f: "fetch_pending_request P H B req secret s1 d = (result, s2, d2)"
        by (metis prod_cases3)
      show ?thesis
      proof (cases result)
        case (Inl e)
        then show ?thesis
          using lost step \<open>next_request A source m = Inr nm\<close> nm Some gone f rs
            \<open>begin_request P H (uo_operation o1) (uo_body o1) secret s = Inr rs\<close>
          by (auto simp: drive_cache_upload_step_def abandon_session_def)
      next
        case (Inr response)
        obtain res2 m2 where acc: "accept_response A response m1 = (res2, m2)" by (cases "accept_response A response m1")
        show ?thesis
          using answered[of o1 a req s1 response res2] step \<open>next_request A source m = Inr nm\<close> nm Some
            \<open>begin_request P H (uo_operation o1) (uo_body o1) secret s = Inr rs\<close> rs f Inr acc m1
          by (cases res2) (auto simp: drive_cache_upload_step_def)
      qed
    qed
  qed
qed

section \<open>A delivery to a device that keeps the protocol\<close>

definition delivery_exchange ::
  "('l, 'h, 'se, 'we) storage_api \<Rightarrow> 'l global_job \<Rightarrow> ('d \<Rightarrow> upload_operation \<Rightarrow> 'd \<times> client_response)
     \<Rightarrow> 'd \<times> 'l cache_delivery \<Rightarrow> 'd \<times> 'l cache_delivery" where
  "delivery_exchange A job respond dd = (case dd of (d, dl) \<Rightarrow>
     (case delivery_next_request A job dl of
        Inl e \<Rightarrow> (d, dl)
      | Inr (None, dl') \<Rightarrow> (d, dl')
      | Inr (Some op, dl') \<Rightarrow> (case respond d op of (d', r) \<Rightarrow> (d', snd (delivery_accept_response A r dl')))))"

text \<open>Both machines idle, the participant found and the manifest plan admitted.\<close>

definition idle_delivery :: "('l, 'h, 'se, 'we) storage_api \<Rightarrow> 'l global_job \<Rightarrow> upload_plan \<Rightarrow> 'l cache_delivery \<Rightarrow> bool" where
  "idle_delivery A job plan dl \<longleftrightarrow> cd_participant_index dl < length (gj_participants job)
     \<and> jp_device_id (gj_participants job ! cd_participant_index dl) = cd_device_id dl
     \<and> upload_plan_for A job (cd_manifest_upload_id dl) = Inr plan
     \<and> um_pending (cd_partition dl) = None \<and> um_pending (cd_manifest dl) = None"

lemma exchange_idle:
  assumes "um_pending m = None"
  shows "um_pending (snd (exchange A source respond (d, m))) = None"
proof (cases "next_request A source m")
  case (Inr nm)
  obtain op m1 where nm: "nm = (op, m1)" by (cases nm)
  show ?thesis
  proof (cases op)
    case None
    then have "m1 = m" using Inr nm by (auto simp: next_request_def split: if_split_asm upload_state.split_asm)
    then show ?thesis using Inr nm None assms by (simp add: exchange_def)
  next
    case (Some o1)
    then show ?thesis using Inr nm
      by (simp add: exchange_def accept_response_def split: prod.split option.split sum.split)
  qed
qed (simp add: exchange_def assms)

lemma participant_found:
  "idle_delivery A job plan dl \<Longrightarrow>
     (delivery_participant job dl :: ('se, 'we) delivery_error + 'l job_participant) = Inr (gj_participants job ! cd_participant_index dl)"
  by (simp add: idle_delivery_def delivery_participant_def nth_participant_def del: and_then_Inr and_then_Inl)

text \<open>While a machine has its turn, the delivery's exchange is the machine's.\<close>

lemma delivery_exchange_partition:
  assumes "idle_delivery A job plan dl" and "um_state (cd_partition dl) \<noteq> Completed"
  shows "delivery_exchange A job respond (d, dl) =
    (case exchange A (partition_source (jp_partition (gj_participants job ! cd_participant_index dl))) respond (d, cd_partition dl) of
       (d', m) \<Rightarrow> (d', dl\<lparr>cd_partition := m\<rparr>))"
proof -
  let ?p = "partition_source (jp_partition (gj_participants job ! cd_participant_index dl))"
  have idle: "um_pending (cd_manifest dl) = None" using assms(1) by (simp add: idle_delivery_def)
  note found = participant_found[OF assms(1)]
  show ?thesis
  proof (cases "next_request A ?p (cd_partition dl)")
    case (Inl e)
    then show ?thesis using assms(2)
      by (simp add: delivery_exchange_def exchange_def delivery_next_request_def found del: and_then_Inr and_then_Inl)
  next
    case (Inr nm)
    obtain op m1 where nm: "nm = (op, m1)" by (cases nm)
    show ?thesis
    proof (cases op)
      case None
      then show ?thesis using Inr nm assms(2)
        by (simp add: delivery_exchange_def exchange_def delivery_next_request_def found del: and_then_Inr and_then_Inl)
    next
      case (Some o1)
      from next_request_Inr[of A ?p "cd_partition dl" o1 m1] Inr nm Some obtain a where "um_pending m1 = Some a" by auto
      then show ?thesis using Inr nm Some assms(2) idle
        by (simp add: delivery_exchange_def exchange_def delivery_next_request_def found delivery_accept_response_def split: prod.split
            del: and_then_Inr and_then_Inl)
    qed
  qed
qed

lemma delivery_exchange_manifest:
  assumes "idle_delivery A job plan dl" and "um_state (cd_partition dl) = Completed" and "um_state (cd_manifest dl) \<noteq> Completed"
  shows "delivery_exchange A job respond (d, dl) =
    (case exchange A (manifest_source job plan) respond (d, cd_manifest dl) of (d', m) \<Rightarrow> (d', dl\<lparr>cd_manifest := m\<rparr>))"
proof -
  let ?p = "manifest_source job plan"
  have idle: "um_pending (cd_partition dl) = None" and src: "try_new_manifest_source A job (cd_manifest_upload_id dl) = Inr ?p"
    using assms(1) by (simp_all add: idle_delivery_def try_new_manifest_source_def)
  note found = participant_found[OF assms(1)]
  show ?thesis
  proof (cases "next_request A ?p (cd_manifest dl)")
    case (Inl e)
    then show ?thesis using assms(2,3) src
      by (simp add: delivery_exchange_def exchange_def delivery_next_request_def found del: and_then_Inr and_then_Inl)
  next
    case (Inr nm)
    obtain op m1 where nm: "nm = (op, m1)" by (cases nm)
    show ?thesis
    proof (cases op)
      case None
      then show ?thesis using Inr nm assms(2,3) src
        by (simp add: delivery_exchange_def exchange_def delivery_next_request_def found del: and_then_Inr and_then_Inl)
    next
      case (Some o1)
      from next_request_Inr[of A ?p "cd_manifest dl" o1 m1] Inr nm Some obtain a where "um_pending m1 = Some a" by auto
      then show ?thesis using Inr nm Some assms(2,3) idle src
        by (simp add: delivery_exchange_def exchange_def delivery_next_request_def found delivery_accept_response_def split: prod.split
            del: and_then_Inr and_then_Inl)
    qed
  qed
qed

lemma idle_delivery_step:
  assumes "idle_delivery A job plan dl" and "um_pending m = None"
  shows "idle_delivery A job plan (dl\<lparr>cd_partition := m\<rparr>)" and "idle_delivery A job plan (dl\<lparr>cd_manifest := m\<rparr>)"
  using assms by (simp_all add: idle_delivery_def)

lemma exchanges_idle:
  "um_pending m = None \<Longrightarrow> um_pending (snd ((exchange A source respond ^^ n) (d, m))) = None"
proof (induction n)
  case (Suc n)
  then show ?case
    using exchange_idle[of "snd ((exchange A source respond ^^ n) (d, m))" A source respond "fst ((exchange A source respond ^^ n) (d, m))"]
    by simp
qed simp

lemma delivery_exchanges_partition:
  fixes A :: "('l, 'h, 'se, 'we) storage_api" and job :: "'l global_job" and dl :: "'l cache_delivery"
    and respond :: "'d \<Rightarrow> upload_operation \<Rightarrow> 'd \<times> client_response" and plan :: upload_plan
  defines "run n d \<equiv> (exchange A (partition_source (jp_partition (gj_participants job ! cd_participant_index dl))) respond ^^ n) (d, cd_partition dl)"
  assumes idle: "idle_delivery A job plan dl" and before: "\<And>k. k < n \<Longrightarrow> um_state (snd (run k d)) \<noteq> Completed"
  shows "(delivery_exchange A job respond ^^ n) (d, dl) = (fst (run n d), dl\<lparr>cd_partition := snd (run n d)\<rparr>)"
  using before
proof (induction n)
  case 0
  then show ?case by (cases dl) (simp add: run_def)
next
  case (Suc n)
  have IH: "(delivery_exchange A job respond ^^ n) (d, dl) = (fst (run n d), dl\<lparr>cd_partition := snd (run n d)\<rparr>)"
    using Suc by simp
  have "um_pending (snd (run n d)) = None"
    unfolding run_def using idle by (simp add: exchanges_idle idle_delivery_def)
  from delivery_exchange_partition[OF idle_delivery_step(1)[OF idle this], of respond "fst (run n d)"] Suc.prems[of n] IH
  show ?case by (simp add: run_def split: prod.split)
qed

lemma delivery_exchanges_manifest:
  fixes A :: "('l, 'h, 'se, 'we) storage_api" and job :: "'l global_job" and dl :: "'l cache_delivery"
    and respond :: "'d \<Rightarrow> upload_operation \<Rightarrow> 'd \<times> client_response" and plan :: upload_plan
  defines "run n d \<equiv> (exchange A (manifest_source job plan) respond ^^ n) (d, cd_manifest dl)"
  assumes idle: "idle_delivery A job plan dl" and first: "um_state (cd_partition dl) = Completed"
    and before: "\<And>k. k < n \<Longrightarrow> um_state (snd (run k d)) \<noteq> Completed"
  shows "(delivery_exchange A job respond ^^ n) (d, dl) = (fst (run n d), dl\<lparr>cd_manifest := snd (run n d)\<rparr>)"
  using before
proof (induction n)
  case 0
  then show ?case by (cases dl) (simp add: run_def)
next
  case (Suc n)
  have IH: "(delivery_exchange A job respond ^^ n) (d, dl) = (fst (run n d), dl\<lparr>cd_manifest := snd (run n d)\<rparr>)"
    using Suc by simp
  have "um_pending (snd (run n d)) = None"
    unfolding run_def using idle by (simp add: exchanges_idle idle_delivery_def)
  from delivery_exchange_manifest[OF idle_delivery_step(2)[OF idle this], of respond "fst (run n d)"] Suc.prems[of n] IH first
  show ?case by (simp add: run_def split: prod.split)
qed

lemma exchange_plan: "um_plan (snd (exchange A source respond (d, m))) = um_plan m"
proof (cases "next_request A source m")
  case (Inr nm)
  obtain op m1 where nm: "nm = (op, m1)" by (cases nm)
  show ?thesis
  proof (cases op)
    case None
    then have "m1 = m" using Inr nm by (auto simp: next_request_def split: if_split_asm upload_state.split_asm)
    then show ?thesis using Inr nm None by (simp add: exchange_def)
  next
    case (Some o1)
    from next_request_Inr[of A source m o1 m1] Inr nm Some have "um_plan m1 = um_plan m" by auto
    then show ?thesis using Inr nm Some
      by (simp add: exchange_def accept_response_def split: prod.split option.split sum.split)
  qed
qed (simp add: exchange_def)

lemma exchanges_plan: "um_plan (snd ((exchange A source respond ^^ n) (d, m))) = um_plan m"
proof (induction n)
  case (Suc n)
  then show ?case
    using exchange_plan[of A source respond "fst ((exchange A source respond ^^ n) (d, m))" "snd ((exchange A source respond ^^ n) (d, m))"]
    by simp
qed simp

text \<open>The two machines a delivery is born with.\<close>

lemma try_new_delivery_Inr:
  assumes "try_new_delivery A job index upload = Inr dl"
  obtains plan where "index < length (gj_participants job)" and "upload_plan_for A job upload = Inr plan"
    and "dl = \<lparr>cd_participant_index = index, cd_device_id = jp_device_id (gj_participants job ! index),
      cd_manifest_upload_id = upload,
      cd_partition = ready (cs_upload_plan (mp_storage (jp_partition (gj_participants job ! index))))
        (sp_cache_limits (mp_policy (jp_partition (gj_participants job ! index)))) Inspecting,
      cd_manifest = ready plan (sp_cache_limits (gj_policy job)) Inspecting\<rparr>"
  using assms
  by (auto simp: try_new_delivery_def nth_participant_def try_new_manifest_source_def ready_def partition_source_def
      manifest_source_def split: if_split_asm dest!: new_machine_Inr)

lemma first_completion:
  assumes "\<exists>n \<le> (N :: nat). Q n"
  obtains n where "n \<le> N" and "Q n" and "\<And>k. k < n \<Longrightarrow> \<not> Q k"
proof -
  from assms obtain k where k: "k \<le> N" "Q k" by blast
  have "(LEAST n. Q n) \<le> N" using Least_le[of Q, OF k(2)] k(1) by (rule le_trans)
  then show ?thesis by (rule that) (rule LeastI[of Q, OF k(2)], rule not_less_Least)
qed

lemma delivery_completes_partition:
  fixes A :: "('l, 'h, 'se, 'we) storage_api"
  assumes idle: "idle_delivery A job plan dl" and src: "packaged_partition A p"
    and p: "p = jp_partition (gj_participants job ! cd_participant_index dl)"
    and start: "cd_partition dl = ready (cs_upload_plan (mp_storage p)) limits Inspecting"
    and dev: "honest_device A (cs_upload_plan (mp_storage p)) limits respond received published"
  obtains n d' m where "n \<le> unat (up_chunk_count (cs_upload_plan (mp_storage p))) + 3"
    and "(delivery_exchange A job respond ^^ n) (d, dl) = (d', dl\<lparr>cd_partition := m\<rparr>)"
    and "um_state m = Completed" and "um_pending m = None" and "um_plan m = cs_upload_plan (mp_storage p)"
proof -
  let ?run = "\<lambda>n. (exchange A (partition_source p) respond ^^ n) (d, cd_partition dl)"
  have "us_upload_plan (partition_source p) = cs_upload_plan (mp_storage p)" by (simp add: partition_source_def)
  from packaged.completes[OF dev src this, of d]
  obtain n where n: "n \<le> unat (up_chunk_count (cs_upload_plan (mp_storage p))) + 3" "um_state (snd (?run n)) = Completed"
    "\<And>k. k < n \<Longrightarrow> um_state (snd (?run k)) \<noteq> Completed"
    unfolding start[symmetric] by (rule first_completion) blast
  from delivery_exchanges_partition[OF idle, of n respond d] n(3)
  have "(delivery_exchange A job respond ^^ n) (d, dl) = (fst (?run n), dl\<lparr>cd_partition := snd (?run n)\<rparr>)" by (simp add: p)
  moreover have "um_pending (snd (?run n)) = None" by (rule exchanges_idle) (simp add: start ready_def)
  moreover have "um_plan (snd (?run n)) = cs_upload_plan (mp_storage p)" by (simp add: exchanges_plan start ready_def)
  ultimately show ?thesis using n that by blast
qed

lemma delivery_completes_manifest:
  fixes A :: "('l, 'h, 'se, 'we) storage_api"
  assumes idle: "idle_delivery A job plan dl" and src: "packaged_job A job" and first: "um_state (cd_partition dl) = Completed"
    and start: "cd_manifest dl = ready plan limits Inspecting"
    and dev: "honest_device A plan limits respond received published"
  obtains n d' m where "n \<le> unat (up_chunk_count plan) + 3"
    and "(delivery_exchange A job respond ^^ n) (d, dl) = (d', dl\<lparr>cd_manifest := m\<rparr>)"
    and "um_state m = Completed" and "um_plan m = plan"
proof -
  let ?run = "\<lambda>n. (exchange A (manifest_source job plan) respond ^^ n) (d, cd_manifest dl)"
  have "packaged_job A (fst (job, plan)) \<and> (\<exists>upload. upload_plan_for A (fst (job, plan)) upload = Inr (snd (job, plan)))"
    using src idle by (auto simp: idle_delivery_def)
  from manifest.completes[OF dev this, of d]
  have "\<exists>n \<le> unat (up_chunk_count plan) + 3. um_state (snd (?run n)) = Completed"
    by (simp add: start manifest_source_def)
  then obtain n where n: "n \<le> unat (up_chunk_count plan) + 3" "um_state (snd (?run n)) = Completed"
    "\<And>k. k < n \<Longrightarrow> um_state (snd (?run k)) \<noteq> Completed"
    by (rule first_completion) blast
  from delivery_exchanges_manifest[OF idle first, of n respond d] n(3)
  have "(delivery_exchange A job respond ^^ n) (d, dl) = (fst (?run n), dl\<lparr>cd_manifest := snd (?run n)\<rparr>)" by simp
  moreover have "um_plan (snd (?run n)) = plan" by (simp add: exchanges_plan start ready_def)
  ultimately show ?thesis using n that by blast
qed

lemma upload_plan_for_Inr:
  "upload_plan_for A job upload = Inr plan \<Longrightarrow> publication_of plan = cs_publication (gj_manifest job)
     \<and> up_chunk_count plan = up_chunk_count (cs_upload_plan (gj_manifest job))"
  by (auto simp: upload_plan_for_def Let_def publication_of_def)

lemma packaged_publication: "packaged_partition A p \<Longrightarrow> publication_of (cs_upload_plan (mp_storage p)) = cs_publication (mp_storage p)"
  unfolding packaged_partition_def build_partition_storage_def by (auto elim: build_storage_Inr)

text \<open>The composition of the two uploads.\<close>

lemma delivery_completes:
  fixes A :: "('l, 'h, 'se, 'we) storage_api"
  assumes new: "try_new_delivery A job index upload = Inr dl" and job: "packaged_job A job"
    and p: "p = jp_partition (gj_participants job ! index)" and part: "packaged_partition A p"
    and plan: "upload_plan_for A job upload = Inr plan"
    and dev: "honest_device A (cs_upload_plan (mp_storage p)) (sp_cache_limits (mp_policy p)) respond received published"
    and dev': "honest_device A plan (sp_cache_limits (gj_policy job)) respond received' published'"
  shows "\<exists>n \<le> unat (up_chunk_count (cs_upload_plan (mp_storage p))) + unat (up_chunk_count plan) + 6.
    readiness (snd ((delivery_exchange A job respond ^^ n) (d, dl))) = Some \<lparr>cr_device_id = jp_device_id (gj_participants job ! index),
      cr_partition = cs_publication (mp_storage p), cr_global_manifest = cs_publication (gj_manifest job)\<rparr>"
proof -
  from try_new_delivery_Inr[OF new] plan p have dl: "index < length (gj_participants job)"
    "dl = \<lparr>cd_participant_index = index, cd_device_id = jp_device_id (gj_participants job ! index),
      cd_manifest_upload_id = upload, cd_partition = ready (cs_upload_plan (mp_storage p)) (sp_cache_limits (mp_policy p)) Inspecting,
      cd_manifest = ready plan (sp_cache_limits (gj_policy job)) Inspecting\<rparr>"
    by (auto elim!: try_new_delivery_Inr)
  have idle: "idle_delivery A job plan dl" using dl plan by (simp add: idle_delivery_def ready_def)
  obtain n d1 m where n: "n \<le> unat (up_chunk_count (cs_upload_plan (mp_storage p))) + 3"
    "(delivery_exchange A job respond ^^ n) (d, dl) = (d1, dl\<lparr>cd_partition := m\<rparr>)"
    "um_state m = Completed" "um_pending m = None" "um_plan m = cs_upload_plan (mp_storage p)"
    using delivery_completes_partition[OF idle part _ _ dev, of d] p dl(2) by auto
  obtain n' d2 m' where n': "n' \<le> unat (up_chunk_count plan) + 3"
    "(delivery_exchange A job respond ^^ n') (d1, dl\<lparr>cd_partition := m\<rparr>) = (d2, dl\<lparr>cd_partition := m, cd_manifest := m'\<rparr>)"
    "um_state m' = Completed" "um_plan m' = plan"
    using delivery_completes_manifest[OF idle_delivery_step(1)[OF idle n(4)] job _ _ dev', of d1] n(3) dl(2) by auto
  have "(delivery_exchange A job respond ^^ (n' + n)) (d, dl) = (d2, dl\<lparr>cd_partition := m, cd_manifest := m'\<rparr>)"
    by (simp add: funpow_add n(2) n'(2))
  then have "readiness (snd ((delivery_exchange A job respond ^^ (n' + n)) (d, dl))) =
    Some \<lparr>cr_device_id = jp_device_id (gj_participants job ! index),
      cr_partition = cs_publication (mp_storage p), cr_global_manifest = cs_publication (gj_manifest job)\<rparr>"
    using n(3,5) n'(3,4) packaged_publication[OF part] upload_plan_for_Inr[OF plan] dl(2)
    by (simp add: readiness_def delivery_phase_def)
  then show ?thesis using n(1) n'(1) by (intro exI[of _ "n' + n"]) simp
qed

section \<open>A small job\<close>

definition demo_policy :: "unit storage_policy" where
  "demo_policy = \<lparr>sp_upload_id = 7, sp_storage_chunk_bytes = 2, sp_cache_limits = ()\<rparr>"

definition demo_stored :: "object_kind \<Rightarrow> chunked_storage" where
  "demo_stored kind = (let plan = demo_plan\<lparr>up_object := (up_object demo_plan)\<lparr>so_kind := kind\<rparr>\<rparr> in
     \<lparr>cs_bytes = [1, 2, 3],
      cs_chunks = [\<lparr>sc_offset = 0, sc_byte_len = 2, sc_content = [1, 2]\<rparr>, \<lparr>sc_offset = 2, sc_byte_len = 1, sc_content = [3]\<rparr>],
      cs_upload_plan = plan, cs_publication = publication_of plan\<rparr>)"

definition demo_job :: "unit global_job" where
  "demo_job = \<lparr>gj_policy = demo_policy,
     gj_participants = [\<lparr>jp_device_id = [5], jp_partition = \<lparr>mp_policy = demo_policy, mp_storage = demo_stored MachineJobPartition\<rparr>\<rparr>],
     gj_manifest = demo_stored MachineJobManifest\<rparr>"

lemma demo_build: "build_storage demo_storage kind [1, 2, 3] demo_policy = Inr (demo_stored kind)"
proof -
  have slices: "enumerate 0 (slice_chunks 2 [1 :: u8, 2, 3]) = [(0, [1, 2]), (1, [3])]"
    by (simp add: slice_chunks.simps[of 2 "[1, 2, 3]"] slice_chunks.simps[of 2 "[3]"] slice_chunks.simps[of 2 "[]"])
  have count: "div_ceil (Suc (Suc (Suc 0))) 2 = 2" by (simp add: div_ceil_def)
  have step: "store_chunk demo_storage (h, cs, off) (i, chunk) =
      Inr (Suc h, cs @ [\<lparr>sc_offset = off, sc_byte_len = word_of_nat (length chunk), sc_content = chunk\<rparr>], off + length chunk)"
    if "i \<le> 1" "length chunk \<le> 2" "off \<le> 2" for h cs off i chunk
    using that by (simp add: store_chunk_def u32_max_def checked_add_usize_def usize_max_def Let_def del: and_then_Inr and_then_Inl)
  have "st_validate_plan demo_storage \<lparr>up_upload_id = 7, up_object = \<lparr>so_kind = kind, so_content = [1, 2, 3], so_byte_len = 3\<rparr>,
      up_manifest = [2], up_chunk_bytes = 2, up_chunk_count = 2\<rparr> () = Inr ()" by (simp add: demo_storage_def)
  then show ?thesis
    unfolding build_storage_def demo_policy_def
    by (simp add: slices count step u64_max_def u32_max_def demo_stored_def publication_of_def Let_def del: and_then_Inr and_then_Inl)
qed

lemma demo_packaged:
  "packaged_job demo_storage demo_job"
  "packaged_partition demo_storage \<lparr>mp_policy = demo_policy, mp_storage = demo_stored MachineJobPartition\<rparr>"
proof -
  have "build_manifest_storage demo_storage [1, 2, 3] [1, 2, 3] demo_policy = Inr (demo_stored MachineJobManifest)"
    by (simp add: build_manifest_storage_def demo_build u64_max_def)
  then show "packaged_job demo_storage demo_job"
    unfolding packaged_job_def by (auto simp: demo_job_def)
  show "packaged_partition demo_storage \<lparr>mp_policy = demo_policy, mp_storage = demo_stored MachineJobPartition\<rparr>"
    using demo_build by (auto simp: packaged_partition_def build_partition_storage_def)
qed

lemma demo_stored_plan: "cs_upload_plan (demo_stored MachineJobPartition) = demo_plan"
  "(cs_upload_plan (demo_stored MachineJobManifest))\<lparr>up_upload_id := 9\<rparr> = demo_manifest_plan"
  by (simp_all add: demo_stored_def demo_manifest_plan_def demo_plan_def Let_def)

lemma demo_plan_for: "upload_plan_for demo_storage demo_job 9 = Inr demo_manifest_plan"
proof -
  have "st_validate_plan demo_storage demo_manifest_plan () = Inr ()" by (simp add: demo_storage_def demo_manifest_plan_def)
  moreover have "demo_manifest_plan = \<lparr>up_upload_id = 9, up_object = (up_object demo_plan)\<lparr>so_kind := MachineJobManifest\<rparr>,
      up_manifest = [2], up_chunk_bytes = 2, up_chunk_count = 2\<rparr>" by (simp add: demo_manifest_plan_def demo_plan_def)
  ultimately show ?thesis
    by (simp add: upload_plan_for_def demo_job_def demo_stored_def publication_of_def demo_policy_def Let_def)
qed

lemma demo_delivery:
  "try_new_delivery demo_storage demo_job 0 9 = Inr \<lparr>cd_participant_index = 0, cd_device_id = [5], cd_manifest_upload_id = 9,
     cd_partition = ready demo_plan () Inspecting, cd_manifest = ready demo_manifest_plan () Inspecting\<rparr>"
proof -
  have "st_validate_plan demo_storage demo_manifest_plan () = Inr ()" by (simp add: demo_storage_def demo_manifest_plan_def)
  then have machines: "new_machine demo_storage (partition_source \<lparr>mp_policy = demo_policy, mp_storage = demo_stored MachineJobPartition\<rparr>) ()
      = Inr (ready demo_plan () Inspecting)"
    "new_machine demo_storage (manifest_source demo_job demo_manifest_plan) () = Inr (ready demo_manifest_plan () Inspecting)"
    by (simp_all add: new_machine_def partition_source_def manifest_source_def demo_stored_plan ready_def Let_def
        del: and_then_Inr and_then_Inl)
  have "try_new_manifest_source demo_storage demo_job 9 = Inr (manifest_source demo_job demo_manifest_plan)"
    by (simp add: try_new_manifest_source_def demo_plan_for del: and_then_Inr and_then_Inl)
  with machines show ?thesis
    by (simp add: try_new_delivery_def nth_participant_def demo_job_def demo_policy_def del: and_then_Inr and_then_Inl)
qed

lemma demo_manifest_codes:
  "st_encode_publication demo_storage (publication_of demo_manifest_plan) = [1]"
  "st_decode_publication demo_storage [2] () = Inr (publication_of demo_manifest_plan)"
  by (simp_all add: demo_storage_def publication_of_def demo_manifest_plan_def)

lemma demo_manifest_honest:
  "honest_device demo_storage demo_manifest_plan () demo_respond (\<lambda>_. 0) (\<lambda>_. True)"
  by (auto simp: honest_device_def demo_manifest_codes)

section \<open>Properties\<close>

text \<open>
  C25. What the compiler packages, the client's independent check
  accepts: for every object that the partition builder stores, rebuilding all identities from the
  plan and the bytes alone succeeds, and the source read from the packaged chunk table presents
  exactly the headers and bytes of the rebuilt one, index by index.
\<close>

theorem packaged_storage_revalidates:
  assumes "build_partition_storage A bs policy = Inr st"
  shows "\<exists>s. try_new_owned A (cs_upload_plan st) (cs_bytes st) (sp_cache_limits policy) = Inr s
    \<and> partition_source \<lparr>mp_policy = policy, mp_storage = st\<rparr> = owned_source s"
proof -
  let ?p = "\<lparr>mp_policy = policy, mp_storage = st\<rparr>"
  have build: "build_partition_storage A bs (mp_policy ?p) = Inr (mp_storage ?p)" using assms by simp
  have "cs_bytes st = bs" by (rule build_storage_Inr[OF assms[unfolded build_partition_storage_def]])
  with partition_source_owned(1,3)[OF build] show ?thesis by auto
qed

theorem packaged_storage_revalidates_witness:
  "\<exists>s. try_new_owned demo_storage demo_plan [1, 2, 3] () = Inr s
    \<and> partition_source \<lparr>mp_policy = demo_policy, mp_storage = demo_stored MachineJobPartition\<rparr> = owned_source s"
  using packaged_storage_revalidates[OF demo_build[of MachineJobPartition, folded build_partition_storage_def]]
  by (simp add: demo_stored_plan demo_policy_def) (simp add: demo_stored_def Let_def)

text \<open>
  C10. The delivery of a participant refines two uploads in sequence: every run,
  with any responses and abandonments, is a run of the partition upload followed by a run of the
  manifest upload on the manifest's own source, each under its own policy; the manifest's part is
  empty until the partition is complete, and never do both machines have a request out.
\<close>

theorem delivery_is_sequential:
  assumes "delivery_run A job index upload evs d"
  shows "\<exists>pevs mevs. evs = mevs @ pevs \<and> in_sequence A job index upload pevs mevs d
    \<and> (um_pending (cd_partition d) = None \<or> um_pending (cd_manifest d) = None)"
proof -
  obtain pevs mevs where seq: "evs = mevs @ pevs" "in_sequence A job index upload pevs mevs d"
    using delivery_run_sequence[OF assms] by blast
  have "um_pending (cd_partition d) = None \<or> um_pending (cd_manifest d) = None"
    using in_sequence_pending(1)[OF seq(2)] by (cases "um_pending (cd_partition d)") auto
  with seq show ?thesis by metis
qed

definition demo_delivery_at :: "unit upload_machine \<Rightarrow> unit upload_machine \<Rightarrow> unit cache_delivery" where
  "demo_delivery_at part man = \<lparr>cd_participant_index = 0, cd_device_id = [5], cd_manifest_upload_id = 9,
     cd_partition = part, cd_manifest = man\<rparr>"

lemma demo_delivery_started:
  "delivery_run demo_storage demo_job 0 9 [Emitted \<lparr>uo_operation = StorageInspect, uo_body = []\<rparr>]
     (demo_delivery_at ((ready demo_plan () Inspecting)\<lparr>um_pending := Some ActInspect\<rparr>) (ready demo_manifest_plan () Inspecting))"
  by (rule delivery_run.emit[OF delivery_run.start[OF demo_delivery]])
    (simp add: delivery_next_request_def delivery_participant_def nth_participant_def demo_job_def next_request_def
      partition_source_def demo_stored_plan ready_def demo_delivery_at_def del: and_then_Inr and_then_Inl)

theorem delivery_is_sequential_witness:
  "\<exists>pevs mevs. [Emitted \<lparr>uo_operation = StorageInspect, uo_body = []\<rparr>] = mevs @ pevs
    \<and> in_sequence demo_storage demo_job 0 9 pevs mevs
        (demo_delivery_at ((ready demo_plan () Inspecting)\<lparr>um_pending := Some ActInspect\<rparr>) (ready demo_manifest_plan () Inspecting))"
  using delivery_is_sequential[OF demo_delivery_started] by (elim exE conjE) (intro exI conjI)

text \<open>
  C26. Readiness is evidence: a delivery reports a participant ready only after its
  run has seen the device publish the partition and, later in the run, the manifest, each by an
  accepted inspection or an accepted finalization of a fully acknowledged upload; and the readiness
  names that participant's device and exactly those two publications.
\<close>

theorem readiness_genuine:
  assumes "delivery_run A job index upload evs d" and "readiness d = Some ready'"
  shows "\<exists>plan pevs mevs. upload_plan_for A job upload = Inr plan \<and> evs = mevs @ pevs
    \<and> (let participant = gj_participants job ! index; partition = jp_partition participant in
       publication_seen A (cs_upload_plan (mp_storage partition)) (sp_cache_limits (mp_policy partition)) pevs
       \<and> publication_seen A plan (sp_cache_limits (gj_policy job)) mevs
       \<and> ready' = \<lparr>cr_device_id = jp_device_id participant,
            cr_partition = publication_of (cs_upload_plan (mp_storage partition)), cr_global_manifest = publication_of plan\<rparr>)"
proof -
  let ?p = "jp_partition (gj_participants job ! index)"
  obtain pevs mevs where seq: "evs = mevs @ pevs" "in_sequence A job index upload pevs mevs d"
    using delivery_run_sequence[OF assms(1)] by blast
  then obtain plan where plan: "upload_plan_for A job upload = Inr plan"
    and dev: "cd_device_id d = jp_device_id (gj_participants job ! index)"
    and p: "upload_run A (partition_source ?p) (sp_cache_limits (mp_policy ?p)) pevs (cd_partition d)"
    and m: "upload_run A (manifest_source job plan) (sp_cache_limits (gj_policy job)) mevs (cd_manifest d)"
    by (auto simp: in_sequence_def)
  have done_both: "um_state (cd_partition d) = Completed" "um_state (cd_manifest d) = Completed"
    and ready': "ready' = \<lparr>cr_device_id = cd_device_id d, cr_partition = publication_of (um_plan (cd_partition d)),
      cr_global_manifest = publication_of (um_plan (cd_manifest d))\<rparr>"
    using assms(2) by (auto simp: readiness_def delivery_phase_def split: if_split_asm)
  have "um_plan (cd_partition d) = cs_upload_plan (mp_storage ?p)" "um_plan (cd_manifest d) = plan"
    using upload_run_ok[OF p] upload_run_ok[OF m] by (simp_all add: machine_ok_def partition_source_def manifest_source_def)
  then show ?thesis
    using upload_run_evidence[OF p] upload_run_evidence[OF m] done_both ready' plan seq(1) dev
    by (intro exI[of _ plan] exI[of _ pevs] exI[of _ mevs]) (simp add: Let_def)
qed

lemma demo_delivery_finished:
  "delivery_run demo_storage demo_job 0 9
     [Accepted ActInspect \<lparr>rs_status = StatusOk, rs_body = [2]\<rparr>, Emitted \<lparr>uo_operation = StorageInspect, uo_body = [1]\<rparr>,
      Accepted ActInspect \<lparr>rs_status = StatusOk, rs_body = [1]\<rparr>, Emitted \<lparr>uo_operation = StorageInspect, uo_body = []\<rparr>]
     (demo_delivery_at (ready demo_plan () Completed) (ready demo_manifest_plan () Completed))"
proof -
  have first: "delivery_accept_response demo_storage \<lparr>rs_status = StatusOk, rs_body = [1]\<rparr>
      (demo_delivery_at ((ready demo_plan () Inspecting)\<lparr>um_pending := Some ActInspect\<rparr>) (ready demo_manifest_plan () Inspecting))
      = (Inr (), demo_delivery_at (ready demo_plan () Completed) (ready demo_manifest_plan () Inspecting))"
    by (simp add: delivery_accept_response_def demo_delivery_at_def accept_response_def accept_action_def accept_inspection_def
        ready_def del: and_then_Inr and_then_Inl)
  have second: "delivery_accept_response demo_storage \<lparr>rs_status = StatusOk, rs_body = [2]\<rparr>
      (demo_delivery_at (ready demo_plan () Completed) ((ready demo_manifest_plan () Inspecting)\<lparr>um_pending := Some ActInspect\<rparr>))
      = (Inr (), demo_delivery_at (ready demo_plan () Completed) (ready demo_manifest_plan () Completed))"
    by (simp add: delivery_accept_response_def demo_delivery_at_def accept_response_def accept_action_def accept_inspection_def
        ready_def demo_manifest_codes del: and_then_Inr and_then_Inl)
  have then_manifest: "delivery_next_request demo_storage demo_job (demo_delivery_at (ready demo_plan () Completed) (ready demo_manifest_plan () Inspecting))
      = Inr (Some \<lparr>uo_operation = StorageInspect, uo_body = [1]\<rparr>,
         demo_delivery_at (ready demo_plan () Completed) ((ready demo_manifest_plan () Inspecting)\<lparr>um_pending := Some ActInspect\<rparr>))"
    using demo_plan_for demo_manifest_codes
    by (simp add: delivery_next_request_def delivery_participant_def nth_participant_def try_new_manifest_source_def demo_delivery_at_def
        ready_def next_request_def manifest_source_def del: and_then_Inr and_then_Inl) (simp add: demo_job_def)
  show ?thesis
    by (rule delivery_run.accepted[OF delivery_run.emit[OF delivery_run.accepted[OF demo_delivery_started _ first] then_manifest] _ second])
      (simp_all add: pending_action_def demo_delivery_at_def ready_def)
qed

theorem readiness_genuine_witness:
  "\<exists>pevs mevs. publication_seen demo_storage demo_plan () pevs \<and> publication_seen demo_storage demo_manifest_plan () mevs
    \<and> mevs @ pevs = [Accepted ActInspect \<lparr>rs_status = StatusOk, rs_body = [2]\<rparr>, Emitted \<lparr>uo_operation = StorageInspect, uo_body = [1]\<rparr>,
      Accepted ActInspect \<lparr>rs_status = StatusOk, rs_body = [1]\<rparr>, Emitted \<lparr>uo_operation = StorageInspect, uo_body = []\<rparr>]"
proof -
  have "readiness (demo_delivery_at (ready demo_plan () Completed) (ready demo_manifest_plan () Completed)) =
    Some \<lparr>cr_device_id = [5], cr_partition = publication_of demo_plan, cr_global_manifest = publication_of demo_manifest_plan\<rparr>"
    by (simp add: readiness_def delivery_phase_def demo_delivery_at_def ready_def)
  from readiness_genuine[OF demo_delivery_finished this] show ?thesis
    using demo_plan_for by (elim exE conjE) (auto simp: Let_def demo_job_def demo_stored_plan demo_policy_def)
qed

text \<open>
  C9. A packaged job reaches the device: from its construction, exchanging
  with a device that keeps the protocol for both objects, in whatever durable state earlier attempts
  left it, the delivery is ready after at most the two chunk counts plus six exchanges, and its
  readiness names the participant's device and the two packaged publications.
\<close>

theorem delivery_reaches_readiness:
  fixes A :: "('l, 'h, 'se, 'we) storage_api"
  assumes "try_new_delivery A job index upload = Inr dl" and "packaged_job A job"
    and "packaged_partition A (jp_partition (gj_participants job ! index))" and "upload_plan_for A job upload = Inr plan"
    and "honest_device A (cs_upload_plan (mp_storage (jp_partition (gj_participants job ! index))))
      (sp_cache_limits (mp_policy (jp_partition (gj_participants job ! index)))) respond received published"
    and "honest_device A plan (sp_cache_limits (gj_policy job)) respond received' published'"
  shows "\<exists>n \<le> unat (up_chunk_count (cs_upload_plan (mp_storage (jp_partition (gj_participants job ! index)))))
      + unat (up_chunk_count plan) + 6.
    readiness (snd ((delivery_exchange A job respond ^^ n) (d, dl))) =
      Some \<lparr>cr_device_id = jp_device_id (gj_participants job ! index),
        cr_partition = cs_publication (mp_storage (jp_partition (gj_participants job ! index))),
        cr_global_manifest = cs_publication (gj_manifest job)\<rparr>"
  by (rule delivery_completes[OF assms(1,2) refl assms(3-6)])

theorem delivery_reaches_readiness_witness:
  "\<exists>n \<le> 10. readiness (snd ((delivery_exchange demo_storage demo_job demo_respond ^^ n)
      ((0, False), demo_delivery_at (ready demo_plan () Inspecting) (ready demo_manifest_plan () Inspecting)))) =
    Some \<lparr>cr_device_id = [5], cr_partition = publication_of demo_plan, cr_global_manifest = publication_of demo_manifest_plan\<rparr>"
proof -
  let ?p = "jp_partition (gj_participants demo_job ! 0)"
  have p: "?p = \<lparr>mp_policy = demo_policy, mp_storage = demo_stored MachineJobPartition\<rparr>"
    and dev: "jp_device_id (gj_participants demo_job ! 0) = [5]" and limits: "sp_cache_limits (gj_policy demo_job) = ()"
    by (simp_all add: demo_job_def)
  have pubs: "cs_publication (demo_stored MachineJobPartition) = publication_of demo_plan"
    "cs_publication (gj_manifest demo_job) = publication_of demo_manifest_plan"
    by (simp_all add: demo_stored_def demo_job_def demo_manifest_plan_def publication_of_def demo_plan_def Let_def)
  have counts: "unat (up_chunk_count demo_plan) + unat (up_chunk_count demo_manifest_plan) + 6 = 10"
    by (simp add: demo_manifest_plan_def)
  have part: "packaged_partition demo_storage ?p" unfolding p by (rule demo_packaged(2))
  have honest: "honest_device demo_storage (cs_upload_plan (mp_storage ?p)) (sp_cache_limits (mp_policy ?p)) demo_respond (\<lambda>d. min 2 (fst d)) snd"
    using demo_honest by (simp add: p demo_stored_plan)
  have honest': "honest_device demo_storage demo_manifest_plan (sp_cache_limits (gj_policy demo_job)) demo_respond (\<lambda>_. 0) (\<lambda>_. True)"
    using demo_manifest_honest by simp
  from delivery_reaches_readiness[OF demo_delivery demo_packaged(1) part demo_plan_for honest honest', of "(0, False)"]
  show ?thesis using counts by (simp add: p dev pubs demo_stored_plan demo_delivery_at_def)
qed

text \<open>
  C28. No step of the browser driver wedges: whatever the browser, the network
  and the device do, a step that starts with nothing outstanding ends with nothing outstanding in
  the upload machine and in the session. If it fails, either nothing was sent and the machine is as
  before, or the machine is back at inspection; if it succeeds, it reports the machine's phase.
\<close>

theorem drive_step_leaves_idle:
  assumes "um_pending m = None" and "hs_pending s = None"
    and "drive_cache_upload_step A P H B source secret (m, s, d) = (res, m', s', d')"
  shows "um_pending m' = None \<and> hs_pending s' = None
    \<and> (case res of Inl e \<Rightarrow> (m' = m \<and> s' = s) \<or> um_state m' = Inspecting | Inr phase \<Rightarrow> machine_phase m' = phase)"
proof (rule drive_step_cases[OF assms])
  assume "m' = m" "s' = s" "(\<exists>e. res = Inl e) \<or> res = Inr PhaseComplete \<and> um_state m = Completed"
  then show ?thesis using assms(1,2) by auto
next
  fix e assume "res = Inl e" "m' = m\<lparr>um_state := Inspecting\<rparr>" "hs_pending s' = None"
  then show ?thesis using assms(1) by simp
next
  fix op req s1 response a result
  assume f: "fetch_pending_request P H B req secret s1 d = (Inr response, s', d')"
    and acc: "accept_response A response (m\<lparr>um_pending := Some a\<rparr>) = (result, m')"
    and res: "res = (case result of Inl e \<Rightarrow> Inl (BD_Upload e) | Inr _ \<Rightarrow> Inr (machine_phase m'))"
  have "hs_pending s' = None" using fetch_pending_request_Inr[OF f] by auto
  then show ?thesis
    using accept_response_idle[OF acc] accept_response_cases[OF _ acc, of a] res by (cases result) auto
qed

definition broken_browser :: "(unit, nat, unit) browser" where
  "broken_browser = \<lparr>br_calling_origin = Inr (), br_counter_header_name = [], br_authorization_header_name = [],
     br_fetch = (\<lambda>req d. (Inl 404, d))\<rparr>"

theorem drive_step_leaves_idle_witness:
  "case drive_cache_upload_step demo_storage demo_protocol demo_auth broken_browser (owned_source demo_owned) [7]
      (ready demo_plan () Inspecting, new_session 3 0 (), ()) of (res, m', s', d') \<Rightarrow> um_pending m' = None \<and> hs_pending s' = None"
proof -
  obtain res m' s' d' where step: "drive_cache_upload_step demo_storage demo_protocol demo_auth broken_browser (owned_source demo_owned) [7]
      (ready demo_plan () Inspecting, new_session 3 0 (), ()) = (res, m', s', d')" by (metis prod_cases4)
  have "um_pending (ready demo_plan () Inspecting) = None" "hs_pending (new_session 3 0 () :: (nat, unit) http_session) = None"
    by (simp_all add: ready_def new_session_def)
  from drive_step_leaves_idle[OF this step] show ?thesis unfolding step by simp
qed

lemma next_request_action:
  "next_request A source m = Inr (Some op, m\<lparr>um_pending := Some a\<rparr>) \<Longrightarrow>
     (a = ActInspect \<longrightarrow> uo_operation op = StorageInspect)
     \<and> (a = ActFinalize \<longrightarrow> uo_operation op = StorageFinalize \<and> um_state m = Finalizing)"
  by (cases m) (auto simp: next_request_def split: if_split_asm upload_state.split_asm)

text \<open>
  C27. A step completes an upload only on authenticated evidence of its own:
  if the machine becomes complete, the body that completed it carries a proof that verifies under the
  session's nonce and origin for the very counter this step spent, decodes as the answer to the
  request of this step, and is either an inspection result naming the plan's publication or the empty
  success of the finalize request.
\<close>

theorem drive_completion_authentic:
  assumes "um_pending m = None" and "hs_pending s = None" and "um_state m \<noteq> Completed"
    and "drive_cache_upload_step A P H B source secret (m, s, d) = (res, m', s', d')" and "um_state m' = Completed"
  shows "\<exists>operation reply tag response.
    au_verify_response_proof H secret (hs_nonce s) (hs_next_http_counter s) tag 200 MediaNativeFrame (hs_origin s) reply = Inr ()
    \<and> decode_response P reply operation (hs_next_sequence s) (hs_next_correlation s) (hs_config_digest s) = Inr response
    \<and> rs_status response = StatusOk
    \<and> (operation = StorageInspect \<and> st_decode_publication A (rs_body response) (um_limits m) = Inr (publication_of (um_plan m))
       \<or> operation = StorageFinalize \<and> um_state m = Finalizing \<and> rs_body response = [])"
proof (rule drive_step_cases[OF assms(1,2,4)])
  fix op req s1 response a result
  assume n: "next_request A source m = Inr (Some op, m\<lparr>um_pending := Some a\<rparr>)"
    and b: "begin_request P H (uo_operation op) (uo_body op) secret s = Inr (req, s1)"
    and f: "fetch_pending_request P H B req secret s1 d = (Inr response, s', d')"
    and acc: "accept_response A response (m\<lparr>um_pending := Some a\<rparr>) = (result, m')"
  note b = begin_request_Inr[OF b[unfolded begin_request_def]]
  obtain r :: authenticated_response and tag where
    r: "au_verify_response_proof H secret (hs_nonce s) (hs_next_http_counter s) tag 200 MediaNativeFrame (hs_origin s) (ap_body r) = Inr ()"
      "decode_response P (ap_body r) (uo_operation op) (hs_next_sequence s) (hs_next_correlation s) (hs_config_digest s) = Inr response"
    using fetch_pending_request_Inr[OF f] by (auto simp: b(3,5,6))
  obtain st where "accept_action A (m\<lparr>um_pending := None\<rparr>) a response = Inr st" "st = Completed"
    using accept_response_cases[OF _ acc, of a] assms(5) by auto
  from accept_action_Inr(3)[OF this] show ?thesis
    using r next_request_action[OF n] by (intro exI[of _ "uo_operation op"] exI[of _ "ap_body r"] exI[of _ tag] exI[of _ response]) auto
qed (use assms(3,5) in auto)

definition demo_handler :: "unit handler" where
  "demo_handler operation body h = (\<lparr>rs_status = StatusOk, rs_body = [1]\<rparr>, h)"

definition honest_browser :: "(unit, nat, unit simulator_transport) browser" where
  "honest_browser = \<lparr>br_calling_origin = Inr (), br_counter_header_name = [], br_authorization_header_name = [],
     br_fetch = (\<lambda>req d. case exchange_simulator demo_protocol demo_handler (ar_body req) d of
         (Inl e, d) \<Rightarrow> (Inl 0, d)
       | (Inr bytes, d) \<Rightarrow> (Inr \<lparr>rp_status = 200, rp_content_type = Some (str ''application/vnd.alumina.frame''),
           rp_counter = Some (nat_to_le 8 (unat (ar_counter req))), rp_authorization = Some (ar_authorization req),
           rp_body = Inr bytes\<rparr>, d))\<rparr>"

lemma demo_drive:
  "\<exists>s' d'. drive_cache_upload_step demo_storage demo_protocol demo_auth honest_browser (owned_source demo_owned) [7]
     (ready demo_plan () Inspecting, new_session 3 0 (), new_simulator ()) = (Inr PhaseComplete, ready demo_plan () Completed, s', d')"
proof -
  let ?s = "new_session 3 0 () :: (nat, unit) http_session"
  have req: "next_request demo_storage (owned_source demo_owned) (ready demo_plan () Inspecting) =
      Inr (Some \<lparr>uo_operation = StorageInspect, uo_body = []\<rparr>, (ready demo_plan () Inspecting)\<lparr>um_pending := Some ActInspect\<rparr>)"
    by (simp add: next_request_def ready_def demo_owned_def)
  obtain r s1 where begin': "begin_request_for_config demo_protocol demo_auth StorageInspect [] 0 [7] ?s = Inr (r, s1)"
    using demo_begin[of ?s "[]" StorageInspect 0 "[7]"] by (auto simp: new_session_def u64_max_def)
  note b = begin_request_Inr[OF begin']
  have enc: "encode_request demo_protocol StorageInspect [] 0 1 0 = Inr (ar_body r)" using b(8) by (simp add: new_session_def)
  have sim: "simulate demo_protocol demo_handler StorageInspect 1 [] (new_simulator ()) =
      (Inr \<lparr>rs_status = StatusOk, rs_body = [1]\<rparr>, \<lparr>sm_handler = (), sm_request_count = 1\<rparr>)"
    by (simp add: simulate_def demo_handler_def message_lengths_def body_length_def payload_length_def checked_add_u32_def
        maximum_payload_bytes_def u32_max_def demo_protocol_def new_simulator_def saturating_succ_def)
  obtain bytes where raw: "exchange_simulator demo_protocol demo_handler (ar_body r) (new_simulator ()) =
      (Inr bytes, \<lparr>sm_handler = (), sm_request_count = 1\<rparr>)"
    and dec: "decode_response demo_protocol bytes StorageInspect 0 1 0 = Inr \<lparr>rs_status = StatusOk, rs_body = [1]\<rparr>"
    using sim.delivers[OF demo_header_laws enc sim] by auto
  have auth: "ar_authorization r = [7]" using b(9) by (auto simp: demo_auth_def)
  have counter: "ar_counter r = 1" using b(1) by (simp add: new_session_def)
  have one: "nat_from_le (nat_to_le 8 (Suc 0)) = 1" by (simp add: nat_from_to_le)
  have pend: "hs_pending s1 = Some \<lparr>pq_operation = StorageInspect, pq_sequence = 0, pq_correlation = 1, pq_http_counter = 1,
      pq_config_digest = 0\<rparr>" using b(5) by (simp add: new_session_def)
  have "fetch_pending_request demo_protocol demo_auth honest_browser r [7] s1 (new_simulator ()) =
      (Inr \<lparr>rs_status = StatusOk, rs_body = [1]\<rparr>, s1\<lparr>hs_pending := None\<rparr>, \<lparr>sm_handler = (), sm_request_count = 1\<rparr>)"
    by (simp add: fetch_pending_request_def honest_browser_def raw read_reply_def parse_media_def accept_http_response_def
        authenticate_response_def open_response_def demo_auth_def auth counter one pend dec del: and_then_Inr and_then_Inl nat_to_le.simps)
  moreover have "accept_response demo_storage \<lparr>rs_status = StatusOk, rs_body = [1]\<rparr>
      ((ready demo_plan () Inspecting)\<lparr>um_pending := Some ActInspect\<rparr>) = (Inr (), ready demo_plan () Completed)"
    by (simp add: accept_response_def accept_action_def accept_inspection_def ready_def del: and_then_Inr and_then_Inl)
  moreover have "begin_request demo_protocol demo_auth StorageInspect [] [7] ?s = Inr (r, s1)"
    using begin' by (simp add: begin_request_def new_session_def)
  ultimately show ?thesis using req by (simp add: drive_cache_upload_step_def) (simp add: ready_def machine_phase_def)
qed

theorem drive_completion_authentic_witness:
  "\<exists>reply response. decode_response demo_protocol reply StorageInspect 0 1 0 = Inr response
     \<and> st_decode_publication demo_storage (rs_body response) () = Inr (publication_of demo_plan)"
proof -
  obtain s' d' where step: "drive_cache_upload_step demo_storage demo_protocol demo_auth honest_browser (owned_source demo_owned) [7]
     (ready demo_plan () Inspecting, new_session 3 0 (), new_simulator ()) = (Inr PhaseComplete, ready demo_plan () Completed, s', d')"
    using demo_drive by blast
  have "um_pending (ready demo_plan () Inspecting) = None" "hs_pending (new_session 3 0 () :: (nat, unit) http_session) = None"
    "um_state (ready demo_plan () Inspecting) \<noteq> Completed" "um_state (ready demo_plan () Completed) = Completed"
    by (simp_all add: ready_def new_session_def)
  from drive_completion_authentic[OF this(1-3) step this(4)] show ?thesis
    by (auto simp: new_session_def ready_def)
qed

end
