(* ===== verification/Spec2Isabelle.thy ===== *)
theory Spec2Isabelle
  imports Graph_Analysis Workspace_Wire Literal_Text Cache_Delivery
begin

text \<open>
  Verification of Alumina Interface: the typed control-graph core in the crate
  \<^verbatim>\<open>crates/alumina-interface-core\<close>, and the delivery of its artifacts to devices through the
  crate \<^verbatim>\<open>crates/alumina-interface-client\<close>.

  \<^bold>\<open>The program.\<close> Alumina Interface is an editor and host for machine-control graphs. Its
  core crate owns the graphs: a registry of units and types (\<^verbatim>\<open>GraphSchema\<close>), literals
  typed by it, a document of clocks, nodes and wires (\<^verbatim>\<open>GraphDocument\<close>), the semantic
  analysis that decides whether a document may run (\<^verbatim>\<open>analyze_graph\<close>), the canonical bytes
  documents are saved and exchanged as (\<^verbatim>\<open>ALGR\<close>, \<^verbatim>\<open>ALGW\<close>), the editor's
  workspace with its transactional edits, bounded undo histories over canonical snapshots, and a
  text notation for literals. Everything is validated at construction, every size is bounded by a
  caller's policy, and every failure is a value. The user interface, the browser worker, the motion
  planner and the device client call this core; the core calls no one but external packages. Its
  job artifacts (a partition per device and one global manifest) are cut into chunks and stored in
  the caches of devices: a delivery (\<^verbatim>\<open>ParticipantCacheDelivery\<close>) runs one upload machine
  (\<^verbatim>\<open>CacheUploadMachine\<close>) after another; a driver takes each request a machine emits,
  authenticates it (\<^verbatim>\<open>AuthenticatedHttpSession\<close>), sends the frame
  (\<^verbatim>\<open>ProtocolClient\<close>) and hands the response back, or abandons the request when the
  transport fails.

  \<^bold>\<open>Theories and what they model\<close> (paths under
  \<^verbatim>\<open>src/crates/alumina-interface-core/src\<close> unless they begin with
  \<^verbatim>\<open>client/\<close>, which stands for \<^verbatim>\<open>src/crates/alumina-interface-client/src\<close>, or
  with \<^verbatim>\<open>src/\<close>).

  \<^item> \<open>Graph_Prelude\<close>: machine integers at their width, \<^verbatim>\<open>Result\<close> as a sum type
    with the question-mark operator, loops with early return, binary search and sorting by key,
    little-endian bytes, UTF-8; the locales \<open>unique_scan\<close>, \<open>key_scan\<close> and
    \<open>colour_dfs\<close> for the scanning and searching loops that several validators share, and a
    collection of lemmas about them.
  \<^item> \<open>External_Interface\<close>: the record \<open>external_api\<close> of operations of packages
    outside the repository, with the named laws that theorems assume of them, and HOL's rationals as
    an instance of every law.
  \<^item> \<open>Graph_Schema\<close>, \<open>Graph_Value\<close>, \<open>Value_Path\<close>: \<^verbatim>\<open>graph.rs\<close>.
    Units, types, limits and \<^verbatim>\<open>GraphSchema::try_new\<close>; \<^verbatim>\<open>GraphValue\<close> and its
    validation, which decides the inductive typing relation \<open>has_type\<close> within two budgets;
    reading and replacing a leaf of a composite literal.
  \<^item> \<open>Graph_Document\<close>: \<^verbatim>\<open>graph/document.rs\<close>. Clocks, nodes, ports, wires and
    \<^verbatim>\<open>GraphDocument::try_new\<close>, which accepts exactly the inputs of \<open>document_wf\<close>.
  \<^item> \<open>Wire_Codec\<close>, \<open>Wire_Value\<close>, \<open>Wire_Document\<close>:
    \<^verbatim>\<open>graph/wire.rs\<close>. The encoder and decoder primitives, typed values, and whole
    documents with their content digest; a replay accepts exactly what the encoder writes.
  \<^item> \<open>Type_Storage\<close>: \<^verbatim>\<open>graph/storage.rs\<close>. The memoised storage ceiling of a type,
    refined to its recursive reference definition, and shown to bound every encoding.
  \<^item> \<open>Node_Registry\<close>, \<open>Dependency_Cycle\<close>, \<open>Dependency_Graph\<close>,
    \<open>Clock_Rates\<close>, \<open>Graph_Analysis\<close>: \<^verbatim>\<open>graph/analysis.rs\<close>. Node contracts,
    the endpoint dependency graph and the iterative search for a combinational cycle, exact clock
    rates and the repeating pattern of a rate transition, and the composition
    \<^verbatim>\<open>analyze_graph\<close>, its draft variant and the variant with supplied inputs.
  \<^item> \<open>Session_History\<close>: \<^verbatim>\<open>graph/authoring_session_history.rs\<close>. Undo and redo
    stacks over canonical snapshots with two budgets; refined to an unbounded history.
  \<^item> \<open>Workspace\<close>, \<open>Workspace_Wire\<close>: \<^verbatim>\<open>graph/workspace.rs\<close>. The
    editor's workspace with placements, revisions and identity cursors, its nine edits refined to
    updates of finite maps, its envelope, and its history, which reuses the snapshot stacks.
  \<^item> \<open>Text_Chars\<close>, \<open>Literal_Text\<close>: \<^verbatim>\<open>graph/literal_text.rs\<close>. UTF-8
    encoding and decimal and hexadecimal texts; the bounded printer of literals and the
    schema-directed parser.
  \<^item> \<open>Protocol_Client\<close>: \<^verbatim>\<open>client/lib.rs\<close>. Request and response frames, the client
    with its message counter, and the simulator transport; the locale
    \<open>faithful_transport\<close> is the contract of a transport that answers what was asked.
  \<^item> \<open>Cache_Upload\<close>: \<^verbatim>\<open>client/upload.rs\<close>. The owned upload source and the upload
    machine, with its runs as traces of emitted requests, responses and lost responses; the locale
    \<open>exact_source\<close> is what a machine needs of the source of its chunks.
  \<^item> \<open>Http_Session\<close>: \<^verbatim>\<open>client/http.rs\<close>. The authenticated session with its message
    counter, and the two public documents a device is discovered by.
  \<^item> \<open>Cache_Delivery\<close>: the chunked storage of \<^verbatim>\<open>partition.rs\<close> and
    \<^verbatim>\<open>global_job.rs\<close>, the delivery of \<^verbatim>\<open>src/src/cache_delivery.rs\<close>, and the
    driver step of \<^verbatim>\<open>client/wasm.rs\<close>.

  \<^bold>\<open>Reading the model.\<close> A struct is a record with a prefix per struct (\<open>gd_nodes\<close> is
  the field \<^verbatim>\<open>nodes\<close> of \<^verbatim>\<open>GraphDocument\<close>), an enum a datatype, an identifier
  its \<^verbatim>\<open>u32\<close>, a string its UTF-8 bytes, a vector a list, an error a constructor of the
  component's error type. A function returns \<open>Inl\<close> of an error or \<open>Inr\<close> of its result;
  methods on \<^verbatim>\<open>&mut self\<close> return the new state. A loop body that a loop carries state
  through is a definition of its own, named after the loop. Decoders return the bytes they left. The
  parser of literal texts works on the characters still to read, with the byte offset of the first.
  An index that Rust would check at run time is checked in the model and yields a panic error, which
  theorems show unreachable. \<^verbatim>\<open>sort_unstable_by_key\<close> is a stable sort: the validators
  reject equal keys, so no theorem sees the difference. Sets and maps that are only queried are HOL
  sets and maps; equality of rationals is HOL equality.

  \<^bold>\<open>Parameters.\<close> \<open>external_api\<close> holds the exact rational of \<^verbatim>\<open>hyperreal\<close>,
  the digest test of \<^verbatim>\<open>alumina_protocol\<close> and the hash of
  \<^verbatim>\<open>alumina_storage\<close>. Three laws are assumed where a theorem needs them:
  \<open>rational_text_laws\<close> (numerator and denominator print as canonical digits and parse back),
  \<open>rational_arithmetic\<close> (the operators compute on rational numbers) and
  \<open>rational_display_laws\<close> (the text of a rational is one token that parses back). HOL's
  rationals satisfy all three, and the witnesses use them. The replay of an authoring session is the
  parameter \<open>replay\<close> of \<open>Session_History\<close>; the workspace history instantiates it with the
  modelled replay of \<open>Workspace_Wire\<close>. The client theories have one record of operations per
  package they call: \<open>protocol_api\<close> (message headers and records of
  \<^verbatim>\<open>alumina_protocol\<close>, with the law \<open>header_laws\<close>), \<open>storage_api\<close> (the
  object layouts and upload records of \<^verbatim>\<open>alumina_storage\<close>, with \<open>layout_law\<close>),
  \<open>auth_api\<close> and \<open>challenge_api\<close> (keys and signatures of
  \<^verbatim>\<open>alumina_net\<close>, the JSON reader), and \<open>browser\<close> (one authenticated fetch). What a
  theorem assumes of the far side is stated over it: \<open>honest_device\<close> is a device that answers
  each request from its own progress. Every one has a concrete instance the witnesses evaluate.

  \<^bold>\<open>What the lemmas show.\<close> For each constructor a declarative predicate and the theorem that
  construction succeeds exactly on it (schemas, documents, registries, workspaces); for each codec
  that decoding inverts encoding and that nothing else decodes (typed values, documents,
  workspaces) and for the text notation that parsing inverts printing; for each search an
  equivalence with its mathematical specification (recursive types, clocks, combinational cycles);
  for the storage walk, the edits, the dependency graph and the histories a refinement of an
  abstract specification; for analysis that an admitted document meets all of its conditions, that
  cycle witnesses and storage errors are genuine and internal errors unreachable; for edits that
  every rejection is justified by the request; for identities that none is used twice
  along any run of edits; for the text notation that typed text cannot forge an identity. For the
  client: a request over the simulator is the simulator's answer, and a response answers only its
  own request; an upload sends exactly the declared chunks, completes only on a complete progress
  record of its own object, and from any reachable point, whatever was lost, completes against an
  honest device; the counter of a session only grows under a boot nonce, unless the session is
  rebound to that same nonce, and the session passes on only responses the key authenticates; a
  delivery is two uploads in sequence, becomes ready only when both completed, and reaches
  readiness.

  \<^bold>\<open>Termination and bounds.\<close> No fuel is used. The search over type references descends the
  remaining depth of the policy, the search for cycles a measure on colours and edge positions, the
  parsers the remaining input or the remaining depth, and all other recursion is structural;
  an upload of an object of \<open>count\<close> chunks needs at most \<open>count + 3\<close> exchanges and a
  delivery of two objects at most the sum of both bounds;
  \<open>usize\<close> is 64 bits wide and the arithmetic that Rust checks is checked in the model.

  \<^bold>\<open>Not modelled\<close>, with the reason, part by part as the manifest lists them. Authoring session
  envelopes (\<^verbatim>\<open>authoring_session.rs\<close>), probes, components, packages and hierarchies:
  further canonical formats over the modelled ones, each as large as the modelled wire format.
  Deployment, simulation, traces and real-time replay: they lower documents onto
  \<^verbatim>\<open>alumina_graph_runtime\<close> and \<^verbatim>\<open>hyperreal\<close> procedures outside the
  repository. Catalogs derived from capability and job documents, the packaging of jobs into
  blocks and manifest records, and the client's remaining sessions: records and procedures of
  \<^verbatim>\<open>alumina_protocol\<close> outside the repository. The other drivers of
  \<^verbatim>\<open>client/wasm.rs\<close> repeat the modelled one for other machines. Motion
  planning: nearly every step is a call into \<^verbatim>\<open>hyperreal\<close>, \<^verbatim>\<open>hypercurve\<close> or
  \<^verbatim>\<open>hyperpath\<close>. The application shell: user interface, browser and file input and output.
  \<^verbatim>\<open>Display\<close> texts of errors, accessors that return a field, and derived traits have no
  definition of their own.
\<close>

end
